(* ===== verification/Prelude.thy ===== *)
theory Prelude
  imports Main
begin

text \<open>
  Shared vocabulary of the development: the types that stand for Go's basic types, the
  named collections that the component theories extend, and the lemmas on lists, maps and
  option values that several components use.

  A Go \<open>string\<close> and a \<open>[]byte\<close> are both a \<open>string\<close> here (a list of 8-bit
  characters).  A \<open>time.Time\<close> is the number of nanoseconds since Go's zero instant, so
  \<open>IsZero\<close> is equality with 0, \<open>Before\<close> is \<open><\<close> and \<open>Add\<close> is \<open>+\<close>; a
  \<open>time.Duration\<close> is a number of nanoseconds.  Every call of \<open>time.Now\<close> is an
  argument of the operation that makes it, one argument per call.  A Go \<open>int\<close> is
  an \<open>int\<close>: the program only counts events, retries and priorities with it and no
  statement below depends on its 64-bit range.
\<close>

type_synonym bytes = string
type_synonym gotime = int
type_synonym duration = int

abbreviation (input) zero_time :: gotime where
  "zero_time \<equiv> 0"

abbreviation (input) Second :: duration where
  "Second \<equiv> 1000000000"

named_theorems go_defs \<open>definitions of the translated operations, unfolded together\<close>
named_theorems inv_intro \<open>preservation of the components' invariants\<close>

subsection \<open>Lists\<close>

text \<open>\<open>append(xs[:i], xs[i+1:]...)\<close>: the slice without its element at index \<open>i\<close>.\<close>

definition remove_at :: "nat \<Rightarrow> 'a list \<Rightarrow> 'a list" where
  "remove_at i xs = take i xs @ drop (Suc i) xs"

lemma set_remove_at_subset: "set (remove_at i xs) \<subseteq> set xs"
  by (auto simp: remove_at_def dest: in_set_takeD in_set_dropD)

lemma length_remove_at: "i < length xs \<Longrightarrow> length (remove_at i xs) = length xs - 1"
  by (simp add: remove_at_def)

lemma list_split_at: "i < length xs \<Longrightarrow> xs = take i xs @ xs ! i # drop (Suc i) xs"
  by (rule id_take_nth_drop)

lemma set_remove_at: "i < length xs \<Longrightarrow> insert (xs ! i) (set (remove_at i xs)) = set xs"
  using list_split_at [of i xs] unfolding remove_at_def
  by (metis Un_insert_right list.simps(15) set_append)

lemma distinct_remove_at:
  assumes "distinct xs" and "i < length xs"
  shows "distinct (remove_at i xs)" and "xs ! i \<notin> set (remove_at i xs)"
proof -
  have "distinct (take i xs @ xs ! i # drop (Suc i) xs)"
    using assms list_split_at [of i xs] by simp
  then show "distinct (remove_at i xs)" and "xs ! i \<notin> set (remove_at i xs)"
    by (auto simp: remove_at_def)
qed

lemma last_snoc_conv: "xs \<noteq> [] \<Longrightarrow> \<exists>ys. xs = ys @ [last xs]"
  by (metis append_butlast_last_id)

text \<open>Splitting a text at the first, or at the last, occurrence of a separator.\<close>

lemma first_split_unique:
  "c \<notin> set a \<Longrightarrow> c \<notin> set b \<Longrightarrow> a @ c # x = b @ c # y \<longleftrightarrow> a = b \<and> x = y"
proof (induction a arbitrary: b)
  case Nil
  then show ?case by (cases b) auto
next
  case (Cons z a)
  then show ?case by (cases b) auto
qed

lemma last_split_unique:
  assumes "c \<notin> set x" and "c \<notin> set y" and "a @ [c] @ x = b @ [c] @ y"
  shows "x = y \<and> a = b"
proof -
  have "rev x @ c # rev a = rev y @ c # rev b"
    using arg_cong [OF assms(3), of rev] by simp
  then show ?thesis using assms(1,2) first_split_unique [of c "rev x" "rev y"] by simp
qed

subsection \<open>Results\<close>

text \<open>A fallible operation returns a sum: \<open>Inl\<close> the error, \<open>Inr\<close> the value.\<close>

definition is_ok :: "'e + 'a \<Rightarrow> bool" where
  "is_ok r \<longleftrightarrow> (case r of Inl _ \<Rightarrow> False | Inr _ \<Rightarrow> True)"

lemma is_ok_simps [simp]: "is_ok (Inr x)" "\<not> is_ok (Inl e)"
  by (simp_all add: is_ok_def)

lemma is_ok_iff: "is_ok r \<longleftrightarrow> (\<exists>x. r = Inr x)"
  by (cases r) simp_all

lemma some_result: "fst p \<noteq> None \<Longrightarrow> p = (Some (the (fst p)), snd p)"
  by (cases p) auto

end
