(* ===== verification/Sha256.thy ===== *)
theory Sha256
  imports Prelude "HOL-Library.Word"
begin

text \<open>
  The parts of Go's standard library \<open>crypto/sha256\<close> and \<open>encoding/hex\<close> that the
  program calls: the SHA-256 digest (FIPS 180-4) of a byte string and its lower-case
  hexadecimal text.  The proof chain of the event store, the idempotency keys and the
  deterministic step identities are all \<open>hex.EncodeToString\<close> of such a digest.
\<close>

unbundle bit_operations_syntax

type_synonym u32 = "32 word"

definition rotr32 :: "nat \<Rightarrow> u32 \<Rightarrow> u32" where
  "rotr32 n x = drop_bit n x OR push_bit (32 - n) x"

definition sha_K :: "u32 list" where
  "sha_K =
    [1116352408, 1899447441, 3049323471, 3921009573, 961987163, 1508970993, 2453635748, 2870763221,
     3624381080, 310598401, 607225278, 1426881987, 1925078388, 2162078206, 2614888103, 3248222580,
     3835390401, 4022224774, 264347078, 604807628, 770255983, 1249150122, 1555081692, 1996064986,
     2554220882, 2821834349, 2952996808, 3210313671, 3336571891, 3584528711, 113926993, 338241895,
     666307205, 773529912, 1294757372, 1396182291, 1695183700, 1986661051, 2177026350, 2456956037,
     2730485921, 2820302411, 3259730800, 3345764771, 3516065817, 3600352804, 4094571909, 275423344,
     430227734, 506948616, 659060556, 883997877, 958139571, 1322822218, 1537002063, 1747873779,
     1955562222, 2024104815, 2227730452, 2361852424, 2428436474, 2756734187, 3204031479, 3329325298]"

type_synonym sha_state = "u32 \<times> u32 \<times> u32 \<times> u32 \<times> u32 \<times> u32 \<times> u32 \<times> u32"

definition sha_H0 :: sha_state where
  "sha_H0 = (1779033703, 3144134277, 1013904242, 2773480762,
             1359893119, 2600822924, 528734635, 1541459225)"

text \<open>One round, and the fold of the 64 rounds over the constants and the message schedule.\<close>

fun sha_round :: "sha_state \<Rightarrow> u32 \<times> u32 \<Rightarrow> sha_state" where
  "sha_round (a, b, c, d, e, f, g, h) (k, w) =
     (let s1 = rotr32 6 e XOR rotr32 11 e XOR rotr32 25 e;
          ch = (e AND f) XOR (NOT e AND g);
          t1 = h + s1 + ch + k + w;
          s0 = rotr32 2 a XOR rotr32 13 a XOR rotr32 22 a;
          maj = (a AND b) XOR (a AND c) XOR (b AND c);
          t2 = s0 + maj
      in (t1 + t2, a, b, c, d + t1, e, f, g))"

text \<open>The schedule is extended one word at a time; the window holds the last 16 words.\<close>

fun sha_schedule :: "nat \<Rightarrow> u32 list \<Rightarrow> u32 list" where
  "sha_schedule 0 ws = ws"
| "sha_schedule (Suc n) ws =
     (let t = length ws;
          x = ws ! (t - 15); y = ws ! (t - 2);
          s0 = rotr32 7 x XOR rotr32 18 x XOR drop_bit 3 x;
          s1 = rotr32 17 y XOR rotr32 19 y XOR drop_bit 10 y
      in sha_schedule n (ws @ [ws ! (t - 16) + s0 + ws ! (t - 7) + s1]))"

fun sha_add :: "sha_state \<Rightarrow> sha_state \<Rightarrow> sha_state" where
  "sha_add (a, b, c, d, e, f, g, h) (a', b', c', d', e', f', g', h') =
     (a + a', b + b', c + c', d + d', e + e', f + f', g + g', h + h')"

definition sha_block :: "sha_state \<Rightarrow> u32 list \<Rightarrow> sha_state" where
  "sha_block s ws = sha_add s (foldl sha_round s (zip sha_K (sha_schedule 48 ws)))"

text \<open>Padding to a multiple of 64 bytes and splitting into blocks of 16 big-endian words.\<close>

definition be_bytes :: "nat \<Rightarrow> nat \<Rightarrow> nat list" where
  "be_bytes k n = map (\<lambda>i. (n div 256 ^ i) mod 256) (rev [0..<k])"

definition sha_pad :: "nat list \<Rightarrow> nat list" where
  "sha_pad m = m @ [128] @ replicate ((119 - length m mod 64) mod 64) 0 @ be_bytes 8 (8 * length m)"

fun be_words :: "nat list \<Rightarrow> u32 list" where
  "be_words (a # b # c # d # xs) =
     of_nat (a * 16777216 + b * 65536 + c * 256 + d) # be_words xs"
| "be_words _ = []"

fun sha_blocks :: "sha_state \<Rightarrow> u32 list \<Rightarrow> nat \<Rightarrow> sha_state" where
  "sha_blocks s ws 0 = s"
| "sha_blocks s ws (Suc n) = sha_blocks (sha_block s (take 16 ws)) (drop 16 ws) n"

definition hex_digit :: "nat \<Rightarrow> char" where
  "hex_digit n = ''0123456789abcdef'' ! (n mod 16)"

definition hex_u32 :: "u32 \<Rightarrow> string" where
  "hex_u32 w = map (\<lambda>i. hex_digit (unat (drop_bit (4 * i) w) mod 16)) [7, 6, 5, 4, 3, 2, 1, 0]"

fun hex_state :: "sha_state \<Rightarrow> string" where
  "hex_state (a, b, c, d, e, f, g, h) = concat (map hex_u32 [a, b, c, d, e, f, g, h])"

definition sha256_hex :: "bytes \<Rightarrow> string" where
  "sha256_hex m =
     (let p = sha_pad (map of_char m)
      in hex_state (sha_blocks sha_H0 (be_words p) (length p div 64)))"

subsection \<open>Shape of the digest text\<close>

definition hex_chars :: "char set" where
  "hex_chars = set ''0123456789abcdef''"

lemma hex_digit_in: "hex_digit n \<in> hex_chars"
proof -
  have "n mod 16 < length ''0123456789abcdef''" by simp
  then show ?thesis unfolding hex_digit_def hex_chars_def by (rule nth_mem)
qed

lemma hex_u32_chars: "set (hex_u32 w) \<subseteq> hex_chars"
  unfolding hex_u32_def using hex_digit_in by (auto simp only: set_map)

lemma length_hex_u32 [simp]: "length (hex_u32 w) = 8"
  by (simp add: hex_u32_def)

lemma hex_state_length: "length (hex_state s) = 64"
  by (cases s rule: hex_state.cases) simp

lemma set_concat_subset: "(\<And>x. x \<in> set xs \<Longrightarrow> set (f x) \<subseteq> S) \<Longrightarrow> set (concat (map f xs)) \<subseteq> S"
  by auto

lemma hex_state_chars: "set (hex_state s) \<subseteq> hex_chars"
  by (cases s rule: hex_state.cases)
    (simp only: hex_state.simps, rule set_concat_subset, rule hex_u32_chars)

lemma sha256_hex_length: "length (sha256_hex m) = 64"
  by (simp add: sha256_hex_def Let_def hex_state_length)

lemma sha256_hex_chars: "set (sha256_hex m) \<subseteq> hex_chars"
  by (simp only: sha256_hex_def Let_def hex_state_chars)

lemma sha256_hex_nonempty: "sha256_hex m \<noteq> []"
  using sha256_hex_length [of m] by auto

lemma bar_not_hex: "CHR ''|'' \<notin> hex_chars"
  by (simp add: hex_chars_def)

lemma sha256_hex_no_bar: "CHR ''|'' \<notin> set (sha256_hex m)"
  using sha256_hex_chars [of m] bar_not_hex by blast

end
