(* ===== verification/Go_Fmt.thy ===== *)
theory Go_Fmt
  imports Prelude
begin

text \<open>
  The formatting functions of Go's \<open>fmt\<close>, \<open>strconv\<close> and \<open>time\<close> packages that the
  program's keys and hashes go through: decimal integers, and \<open>time.RFC3339Nano\<close> for an
  instant in a zone given by its offset from UTC in seconds.
\<close>

definition digit :: "nat \<Rightarrow> char" where
  "digit n = ''0123456789'' ! (n mod 10)"

fun dec_nat :: "nat \<Rightarrow> string" where
  "dec_nat n = (if n < 10 then [digit n] else dec_nat (n div 10) @ [digit n])"

declare dec_nat.simps [simp del]

definition dec_int :: "int \<Rightarrow> string" where
  "dec_int i = (if i < 0 then ''-'' @ dec_nat (nat (- i)) else dec_nat (nat i))"

definition zpad :: "nat \<Rightarrow> string \<Rightarrow> string" where
  "zpad k s = replicate (k - length s) CHR ''0'' @ s"

text \<open>Days since 1 January of year 1 to (year, month, day), by the 400-year cycle.\<close>

definition civil_from_days :: "int \<Rightarrow> int \<times> int \<times> int" where
  "civil_from_days n =
     (let z = n + 306; era = z div 146097; doe = z mod 146097;
          yoe = (doe - doe div 1460 + doe div 36524 - doe div 146096) div 365;
          doy = doe - (365 * yoe + yoe div 4 - yoe div 100);
          mp = (5 * doy + 2) div 153;
          d = doy - (153 * mp + 2) div 5 + 1;
          m = (if mp < 10 then mp + 3 else mp - 9);
          y = yoe + era * 400 + (if m \<le> 2 then 1 else 0)
      in (y, m, d))"

text \<open>The fraction drops trailing zeros, and its dot when nothing is left.\<close>

definition nano_fraction :: "int \<Rightarrow> string" where
  "nano_fraction ns =
     (let f = rev (dropWhile (\<lambda>c. c = CHR ''0'') (rev (zpad 9 (dec_int ns))))
      in if f = [] then [] else ''.'' @ f)"

definition zone_text :: "int \<Rightarrow> string" where
  "zone_text off =
     (if off = 0 then ''Z''
      else (if off < 0 then ''-'' else ''+'')
        @ zpad 2 (dec_int (\<bar>off\<bar> div 3600)) @ '':'' @ zpad 2 (dec_int (\<bar>off\<bar> div 60 mod 60)))"

definition rfc3339nano :: "int \<Rightarrow> gotime \<Rightarrow> string" where
  "rfc3339nano off t =
     (let local = t + off * 1000000000;
          days = local div 86400000000000; rest = local mod 86400000000000;
          (y, m, d) = civil_from_days days; secs = rest div 1000000000
      in zpad 4 (dec_int y) @ ''-'' @ zpad 2 (dec_int m) @ ''-'' @ zpad 2 (dec_int d) @ ''T''
         @ zpad 2 (dec_int (secs div 3600)) @ '':'' @ zpad 2 (dec_int (secs div 60 mod 60)) @ '':''
         @ zpad 2 (dec_int (secs mod 60)) @ nano_fraction (rest mod 1000000000) @ zone_text off)"

subsection \<open>Characters of the formatted text\<close>

definition number_chars :: "char set" where
  "number_chars = set ''-0123456789''"

lemma digit_in: "digit n \<in> number_chars"
proof -
  have "n mod 10 < length ''0123456789''" by simp
  then have "digit n \<in> set ''0123456789''" unfolding digit_def by (rule nth_mem)
  then show ?thesis by (auto simp: number_chars_def)
qed

lemma dec_nat_chars: "set (dec_nat n) \<subseteq> number_chars"
proof (induction n rule: dec_nat.induct)
  case (1 n)
  then show ?case using digit_in [of n] by (subst dec_nat.simps) auto
qed

lemma dec_int_chars: "set (dec_int i) \<subseteq> number_chars"
  using dec_nat_chars by (auto simp: dec_int_def number_chars_def)

lemma zpad_chars: "set s \<subseteq> number_chars \<Longrightarrow> set (zpad k s) \<subseteq> number_chars"
  by (auto simp: zpad_def number_chars_def)

lemma nano_fraction_chars: "set (nano_fraction ns) \<subseteq> insert CHR ''.'' number_chars"
proof -
  have "set (dropWhile P (rev (zpad 9 (dec_int ns)))) \<subseteq> set (zpad 9 (dec_int ns))" for P
    using set_dropWhileD by fastforce
  then show ?thesis
    using zpad_chars [OF dec_int_chars, of 9 ns] unfolding nano_fraction_def Let_def by auto
qed

lemma no_bar_number: "set s \<subseteq> number_chars \<Longrightarrow> CHR ''|'' \<notin> set s"
  by (auto simp: number_chars_def)

lemma zpad_dec_no_bar: "CHR ''|'' \<notin> set (zpad k (dec_int i))"
  by (rule no_bar_number, rule zpad_chars, rule dec_int_chars)

lemma rfc3339nano_no_bar: "CHR ''|'' \<notin> set (rfc3339nano off t)"
proof -
  have "CHR ''|'' \<notin> set (nano_fraction ns)" for ns
    using nano_fraction_chars [of ns] by (auto simp: number_chars_def)
  then show ?thesis
    unfolding rfc3339nano_def zone_text_def Let_def
    by (simp add: zpad_dec_no_bar split: prod.splits)
qed

end
