(* ===== verification/Go_Json.thy ===== *)
theory Go_Json
  imports Go_Fmt
begin

text \<open>
  Go's \<open>encoding/json\<close>, as far as the program uses it: decoding of a text into the dynamic
  values that \<open>json.Unmarshal\<close> stores in an \<open>interface{}\<close>, and their encoding by
  \<open>json.Marshal\<close>.  Texts and strings are byte lists.  A number keeps the literal it was
  written with; where the program writes it out again it is read as a \<open>float64\<close> first, as Go
  does.
\<close>

datatype json =
    JNull
  | JBool bool
  | JNum string
  | JStr string
  | JArr "json list"
  | JObj "(string \<times> json) list"

abbreviation byte :: "char \<Rightarrow> int" where
  "byte c \<equiv> of_char c"

subsection \<open>UTF-8\<close>

text \<open>The length of the well-formed UTF-8 sequence at the head of a byte list, 0 if there is none.\<close>

definition cont_byte :: "int \<Rightarrow> int \<Rightarrow> char list \<Rightarrow> nat \<Rightarrow> bool" where
  "cont_byte lo hi bs i \<longleftrightarrow> i < length bs \<and> lo \<le> byte (bs ! i) \<and> byte (bs ! i) \<le> hi"

definition utf8_len :: "bytes \<Rightarrow> nat" where
  "utf8_len bs = (case bs of [] \<Rightarrow> 0 | c # _ \<Rightarrow>
     (let b = byte c; lo = (if b = 224 then 160 else if b = 240 then 144 else 128);
          hi = (if b = 237 then 159 else if b = 244 then 143 else 191)
      in if b < 128 then 1
         else if 194 \<le> b \<and> b \<le> 223 then (if cont_byte 128 191 bs 1 then 2 else 0)
         else if 224 \<le> b \<and> b \<le> 239 then
           (if cont_byte lo hi bs 1 \<and> cont_byte 128 191 bs 2 then 3 else 0)
         else if 240 \<le> b \<and> b \<le> 244 then
           (if cont_byte lo hi bs 1 \<and> cont_byte 128 191 bs 2 \<and> cont_byte 128 191 bs 3 then 4 else 0)
         else 0))"

definition utf8_enc :: "int \<Rightarrow> bytes" where
  "utf8_enc r = map char_of
     (if r < 128 then [r]
      else if r < 2048 then [192 + r div 64, 128 + r mod 64]
      else if r < 65536 then [224 + r div 4096, 128 + r div 64 mod 64, 128 + r mod 64]
      else [240 + r div 262144, 128 + r div 4096 mod 64, 128 + r div 64 mod 64, 128 + r mod 64])"

abbreviation rune_error :: int where
  "rune_error \<equiv> 65533"

subsection \<open>String literals\<close>

definition hex_val :: "char \<Rightarrow> int option" where
  "hex_val c = (let b = byte c in
     if 48 \<le> b \<and> b \<le> 57 then Some (b - 48)
     else if 97 \<le> b \<and> b \<le> 102 then Some (b - 87)
     else if 65 \<le> b \<and> b \<le> 70 then Some (b - 55) else None)"

fun getu4 :: "bytes \<Rightarrow> int option" where
  "getu4 (a # b # c # d # _) =
     (case (hex_val a, hex_val b, hex_val c, hex_val d) of
        (Some w, Some x, Some y, Some z) \<Rightarrow> Some (4096 * w + 256 * x + 16 * y + z)
      | _ \<Rightarrow> None)"
| "getu4 _ = None"

definition simple_escape :: "char \<Rightarrow> char option" where
  "simple_escape c = map_of [(CHR 0x22, CHR 0x22), (CHR 0x5C, CHR 0x5C), (CHR ''/'', CHR ''/''),
     (CHR ''b'', CHR 0x08), (CHR ''f'', CHR 0x0C), (CHR ''n'', CHR 0x0A), (CHR ''r'', CHR 0x0D),
     (CHR ''t'', CHR 0x09)] c"

text \<open>
  The text between the quotes, decoded: escapes resolved, surrogate pairs joined, lone surrogates
  and bytes that are not UTF-8 replaced by U+FFFD.  The first argument bounds the number of
  steps; the length of the text is enough, since every step consumes at least one byte.
\<close>

fun unquote_steps :: "nat \<Rightarrow> bytes \<Rightarrow> bytes option" where
  "unquote_steps n [] = Some []"
| "unquote_steps 0 (c # s) = None"
| "unquote_steps (Suc n) (c # s) =
     (if c = CHR 0x5C then
        (case s of [] \<Rightarrow> None
         | e # s' \<Rightarrow>
            if e = CHR ''u'' then
              (case getu4 s' of None \<Rightarrow> None
               | Some r \<Rightarrow>
                  if 55296 \<le> r \<and> r < 57344 then
                    (case (if take 2 (drop 4 s') = [CHR 0x5C, CHR ''u''] then getu4 (drop 6 s') else None) of
                       Some r2 \<Rightarrow>
                         if r < 56320 \<and> 56320 \<le> r2 \<and> r2 < 57344
                         then map_option (\<lambda>t. utf8_enc (65536 + (r - 55296) * 1024 + (r2 - 56320)) @ t)
                                (unquote_steps n (drop 10 s'))
                         else map_option (\<lambda>t. utf8_enc rune_error @ t) (unquote_steps n (drop 4 s'))
                     | None \<Rightarrow> map_option (\<lambda>t. utf8_enc rune_error @ t) (unquote_steps n (drop 4 s')))
                  else map_option (\<lambda>t. utf8_enc r @ t) (unquote_steps n (drop 4 s')))
            else (case simple_escape e of None \<Rightarrow> None
                  | Some x \<Rightarrow> map_option (\<lambda>t. x # t) (unquote_steps n s')))
      else
        (let k = utf8_len (c # s)
         in if k = 0 then map_option (\<lambda>t. utf8_enc rune_error @ t) (unquote_steps n s)
            else map_option (\<lambda>t. take k (c # s) @ t) (unquote_steps n (drop k (c # s)))))"

definition unquote :: "bytes \<Rightarrow> bytes option" where
  "unquote s = unquote_steps (length s) s"

subsection \<open>Number literals\<close>

abbreviation is_digit :: "char \<Rightarrow> bool" where
  "is_digit c \<equiv> 48 \<le> byte c \<and> byte c \<le> 57"

definition all_digits :: "string \<Rightarrow> bool" where
  "all_digits s \<longleftrightarrow> s \<noteq> [] \<and> list_all is_digit s"

text \<open>Sign, integer digits, fraction digits (without the dot), exponent (sign and digits).\<close>

definition num_parts :: "string \<Rightarrow> bool \<times> string \<times> string option \<times> string option" where
  "num_parts s =
     (let neg = (s \<noteq> [] \<and> hd s = CHR ''-''); r = (if neg then tl s else s);
          ip = takeWhile is_digit r; r1 = dropWhile is_digit r;
          fp = (if r1 \<noteq> [] \<and> hd r1 = CHR ''.'' then Some (takeWhile is_digit (tl r1)) else None);
          r2 = (if fp = None then r1 else dropWhile is_digit (tl r1));
          ep = (if r2 = [] then None
                else if hd r2 = CHR ''e'' \<or> hd r2 = CHR ''E'' then Some (tl r2) else Some ''x'')
      in (neg, ip, fp, ep))"

definition exp_digits :: "string \<Rightarrow> string" where
  "exp_digits e = (if e \<noteq> [] \<and> (hd e = CHR ''+'' \<or> hd e = CHR ''-'') then tl e else e)"

definition valid_number :: "string \<Rightarrow> bool" where
  "valid_number s = (case num_parts s of (neg, ip, fp, ep) \<Rightarrow>
     all_digits ip \<and> (length ip > 1 \<longrightarrow> hd ip \<noteq> CHR ''0'')
     \<and> (case fp of None \<Rightarrow> True | Some f \<Rightarrow> all_digits f)
     \<and> (case ep of None \<Rightarrow> True | Some e \<Rightarrow> all_digits (exp_digits e)))"

definition digits_int :: "string \<Rightarrow> int" where
  "digits_int s = foldl (\<lambda>n c. 10 * n + (byte c - 48)) 0 s"

text \<open>The value of a literal: sign, and a fraction of integers.\<close>

definition num_value :: "string \<Rightarrow> bool \<times> int \<times> int" where
  "num_value s = (case num_parts s of (neg, ip, fp, ep) \<Rightarrow>
     (let f = (case fp of None \<Rightarrow> [] | Some f \<Rightarrow> f);
          e = (case ep of None \<Rightarrow> 0
               | Some e \<Rightarrow> (if e \<noteq> [] \<and> hd e = CHR ''-'' then - digits_int (exp_digits e)
                           else digits_int (exp_digits e))) - int (length f);
          n = digits_int (ip @ f)
      in (neg, n * 10 ^ nat e, 10 ^ nat (- e))))"

text \<open>
  A literal that rounds beyond the largest \<open>float64\<close> is an error of \<open>Unmarshal\<close>: that is when
  its magnitude is at least the midpoint above the largest finite value.
\<close>

definition float64_overflows :: "string \<Rightarrow> bool" where
  "float64_overflows s = (case num_value s of (_, n, d) \<Rightarrow> (2 ^ 54 - 1) * 2 ^ 970 * d \<le> n)"

subsection \<open>Tokens\<close>

datatype token = TPunct char | TStr string | TNum string | TWord string

datatype lex_state = LNorm | LStr string | LEsc string | LNum string | LWord string

abbreviation is_ws :: "char \<Rightarrow> bool" where
  "is_ws c \<equiv> c = CHR '' '' \<or> c = CHR 0x09 \<or> c = CHR 0x0A \<or> c = CHR 0x0D"

definition lex_norm :: "char \<Rightarrow> (token list \<times> lex_state) option" where
  "lex_norm c =
     (if is_ws c then Some ([], LNorm)
      else if c = CHR 0x22 then Some ([], LStr [])
      else if c \<in> set ''{}[]:,'' then Some ([TPunct c], LNorm)
      else if is_digit c \<or> c = CHR ''-'' then Some ([], LNum [c])
      else if 97 \<le> byte c \<and> byte c \<le> 122 then Some ([], LWord [c])
      else None)"

fun lex_step :: "lex_state \<Rightarrow> char \<Rightarrow> (token list \<times> lex_state) option" where
  "lex_step LNorm c = lex_norm c"
| "lex_step (LStr a) c =
     (if c = CHR 0x22 then map_option (\<lambda>t. ([TStr t], LNorm)) (unquote (rev a))
      else if c = CHR 0x5C then Some ([], LEsc a)
      else if byte c < 32 then None
      else Some ([], LStr (c # a)))"
| "lex_step (LEsc a) c = Some ([], LStr (c # CHR 0x5C # a))"
| "lex_step (LNum a) c =
     (if is_digit c \<or> c \<in> set ''+-.eE'' then Some ([], LNum (c # a))
      else if valid_number (rev a) then map_option (\<lambda>(t, st). (TNum (rev a) # t, st)) (lex_norm c)
      else None)"
| "lex_step (LWord a) c =
     (if 97 \<le> byte c \<and> byte c \<le> 122 then Some ([], LWord (c # a))
      else map_option (\<lambda>(t, st). (TWord (rev a) # t, st)) (lex_norm c))"

fun lex_end :: "lex_state \<Rightarrow> token list option" where
  "lex_end LNorm = Some []"
| "lex_end (LNum a) = (if valid_number (rev a) then Some [TNum (rev a)] else None)"
| "lex_end (LWord a) = Some [TWord (rev a)]"
| "lex_end _ = None"

fun lex :: "lex_state \<Rightarrow> bytes \<Rightarrow> token list option" where
  "lex st [] = lex_end st"
| "lex st (c # s) =
     (case lex_step st c of None \<Rightarrow> None | Some (t, st') \<Rightarrow> map_option (\<lambda>ts. t @ ts) (lex st' s))"

subsection \<open>Parser\<close>

text \<open>The open containers, innermost first: an array's elements, or an object's members and the pending key.\<close>

datatype frame = FArr "json list" | FObj "(string \<times> json) list" string

datatype expect = EValue | EValueOrEnd | EKey | EKeyOrEnd | EColon | EAfter

abbreviation maxNestingDepth :: nat where
  "maxNestingDepth \<equiv> 10000"

definition add_value :: "json \<Rightarrow> frame list \<Rightarrow> frame list + json" where
  "add_value v fs = (case fs of
       [] \<Rightarrow> Inr v
     | FArr xs # fs' \<Rightarrow> Inl (FArr (xs @ [v]) # fs')
     | FObj ms k # fs' \<Rightarrow> Inl (FObj (ms @ [(k, v)]) k # fs'))"

definition word_value :: "string \<Rightarrow> json option" where
  "word_value w = (if w = ''null'' then Some JNull else if w = ''true'' then Some (JBool True)
     else if w = ''false'' then Some (JBool False) else None)"

definition close_value :: "char \<Rightarrow> frame list \<Rightarrow> (json \<times> frame list) option" where
  "close_value c fs = (case fs of
       FArr xs # fs' \<Rightarrow> (if c = CHR '']'' then Some (JArr xs, fs') else None)
     | FObj ms k # fs' \<Rightarrow> (if c = CHR ''}'' then Some (JObj ms, fs') else None)
     | [] \<Rightarrow> None)"

text \<open>A scalar token as a value; a number out of range is an error.\<close>

fun scalar :: "token \<Rightarrow> json option" where
  "scalar (TStr s) = Some (JStr s)"
| "scalar (TNum n) = (if float64_overflows n then None else Some (JNum n))"
| "scalar (TWord w) = word_value w"
| "scalar (TPunct _) = None"

fun parse :: "frame list \<Rightarrow> expect \<Rightarrow> token list \<Rightarrow> json option" where
  "parse fs ex [] = None"
| "parse fs ex (t # ts) =
     (let finish = (\<lambda>v fs'. case add_value v fs' of
            Inl fs'' \<Rightarrow> parse fs'' EAfter ts
          | Inr r \<Rightarrow> (if ts = [] then Some r else None))
      in case t of
        TPunct c \<Rightarrow>
          (if ex = EValue \<or> ex = EValueOrEnd then
             (if c = CHR ''['' then
                (if length fs < maxNestingDepth then parse (FArr [] # fs) EValueOrEnd ts else None)
              else if c = CHR ''{'' then
                (if length fs < maxNestingDepth then parse (FObj [] [] # fs) EKeyOrEnd ts else None)
              else if ex = EValueOrEnd then
                (case close_value c fs of Some (v, fs') \<Rightarrow> finish v fs' | None \<Rightarrow> None)
              else None)
           else if ex = EKeyOrEnd then
             (case close_value c fs of Some (v, fs') \<Rightarrow> finish v fs' | None \<Rightarrow> None)
           else if ex = EColon then (if c = CHR '':'' then parse fs EValue ts else None)
           else if ex = EAfter then
             (if c = CHR '','' then
                (case fs of FArr _ # _ \<Rightarrow> parse fs EValue ts
                 | FObj _ _ # _ \<Rightarrow> parse fs EKey ts | [] \<Rightarrow> None)
              else (case close_value c fs of Some (v, fs') \<Rightarrow> finish v fs' | None \<Rightarrow> None))
           else None)
      | _ \<Rightarrow>
          (if ex = EValue \<or> ex = EValueOrEnd then
             (case scalar t of Some v \<Rightarrow> finish v fs | None \<Rightarrow> None)
           else if ex = EKey \<or> ex = EKeyOrEnd then
             (case (t, fs) of (TStr k, FObj ms _ # fs') \<Rightarrow> parse (FObj ms k # fs') EColon ts | _ \<Rightarrow> None)
           else None))"

definition json_parse :: "bytes \<Rightarrow> json option" where
  "json_parse s = (case lex LNorm s of None \<Rightarrow> None | Some ts \<Rightarrow> parse [] EValue ts)"

subsection \<open>Dynamic values\<close>

text \<open>
  \<open>json.Unmarshal\<close> into a \<open>map[string]interface{}\<close>: an object gives the map (the last of
  equal keys wins), \<open>null\<close> leaves the map nil, anything else is an error.
\<close>

definition unmarshal_map :: "bytes \<Rightarrow> (string \<rightharpoonup> json) option" where
  "unmarshal_map s = (case json_parse s of
       Some (JObj ms) \<Rightarrow> Some (map_of (rev ms))
     | Some JNull \<Rightarrow> Some Map.empty
     | _ \<Rightarrow> None)"

text \<open>The comma-ok type assertion \<open>m[k].(string)\<close>.\<close>

definition str_field :: "(string \<rightharpoonup> json) \<Rightarrow> string \<Rightarrow> string option" where
  "str_field m k = (case m k of Some (JStr s) \<Rightarrow> Some s | _ \<Rightarrow> None)"

end
