(* ===== verification/Go_Float.thy ===== *)
theory Go_Float
  imports Go_Json "HOL-Library.List_Lexorder" "HOL-Library.Char_ord"
begin

text \<open>
  Numbers as the program reads and writes them: a JSON number becomes the nearest \<open>float64\<close>
  when it is decoded into an \<open>interface{}\<close>, and \<open>json.Marshal\<close> and the \<open>%v\<close> verb of
  \<open>fmt\<close> write it with the fewest digits that read back as the same \<open>float64\<close>.  On top of it,
  the encoding of dynamic values by \<open>json.Marshal\<close> and by \<open>fmt.Sprintf("%v")\<close>.
\<close>

subsection \<open>Nearest double\<close>

function bitlen :: "int \<Rightarrow> nat" where
  "bitlen n = (if n \<le> 0 then 0 else Suc (bitlen (n div 2)))"
  by auto
termination by (relation "measure nat") auto

declare bitlen.simps [simp del]

text \<open>A positive \<open>float64\<close> is \<open>m * 2 ^ e\<close>; round half to even.  The fraction is positive.\<close>

definition scaled :: "int \<Rightarrow> int \<Rightarrow> int \<Rightarrow> int \<times> int" where
  "scaled n d e = (n * 2 ^ nat (- e), d * 2 ^ nat e)"

definition round64 :: "int \<Rightarrow> int \<Rightarrow> int \<times> int" where
  "round64 n d =
     (let e0 = int (bitlen n) - int (bitlen d) - 53;
          e1 = (case scaled n d e0 of (a, b) \<Rightarrow> if 2 ^ 53 \<le> a div b then e0 + 1 else e0);
          e = max e1 (- 1074)
      in case scaled n d e of (a, b) \<Rightarrow>
        (let m = a div b; r = a mod b;
             m' = (if b < 2 * r \<or> (b = 2 * r \<and> odd m) then m + 1 else m)
         in if m' = 2 ^ 53 then (2 ^ 52, e + 1) else (m', e)))"

subsection \<open>Shortest decimal\<close>

fun leading_zeros :: "nat \<Rightarrow> int \<Rightarrow> int \<Rightarrow> nat" where
  "leading_zeros 0 n d = 0"
| "leading_zeros (Suc k) n d = (if d \<le> 10 * n then 0 else Suc (leading_zeros k (10 * n) d))"

text \<open>The \<open>p\<close> with \<open>10 ^ (p - 1) \<le> n / d < 10 ^ p\<close>; the smallest double has 323 leading zeros.\<close>

definition dec_point :: "int \<Rightarrow> int \<Rightarrow> int" where
  "dec_point n d = (if d \<le> n then int (length (dec_int (n div d))) else - int (leading_zeros 330 n d))"

definition strip_zeros :: "string \<Rightarrow> string" where
  "strip_zeros s = rev (dropWhile (\<lambda>c. c = CHR ''0'') (rev s))"

text \<open>
  The shortest digits and the position of the decimal point: the first length at which the
  neighbour below or above reads back as the same double, the nearer one when both do.
\<close>

definition short_try :: "nat \<Rightarrow> int \<times> int \<Rightarrow> int \<Rightarrow> int \<Rightarrow> int \<Rightarrow> bool \<times> string \<times> int" where
  "short_try k x n d p =
     (let q = p - int k; a = n * 10 ^ nat (- q); b = d * 10 ^ nat q; lo = a div b; r = a mod b;
          back = (\<lambda>c. 0 < c \<and> round64 (c * 10 ^ nat q) (10 ^ nat (- q)) = x);
          okd = back lo; oku = back (lo + 1);
          up = (if okd \<and> oku then b < 2 * r \<or> (b = 2 * r \<and> odd lo) else oku);
          c = (if up then lo + 1 else lo)
      in (okd \<or> oku, strip_zeros (dec_int c), p + (int (length (dec_int c)) - int k)))"

text \<open>Seventeen digits always suffice for a \<open>float64\<close>.\<close>

primrec shortest :: "nat \<Rightarrow> nat \<Rightarrow> int \<times> int \<Rightarrow> int \<Rightarrow> int \<Rightarrow> int \<Rightarrow> string \<times> int" where
  "shortest 0 k x n d p = snd (short_try k x n d p)"
| "shortest (Suc f) k x n d p =
     (if fst (short_try k x n d p) then snd (short_try k x n d p) else shortest f (Suc k) x n d p)"

definition float_digits :: "string \<Rightarrow> bool \<times> string \<times> int" where
  "float_digits lit = (case num_value lit of (neg, n, d) \<Rightarrow>
     (if n = 0 then (neg, ''0'', 1)
      else (case round64 n d of (m, e) \<Rightarrow>
        (if m = 0 then (neg, ''0'', 1)
         else let vn = m * 2 ^ nat e; vd = 2 ^ nat (- e)
              in (neg, shortest 16 1 (m, e) vn vd (dec_point vn vd))))))"

subsection \<open>Formats\<close>

definition fmt_f :: "string \<Rightarrow> int \<Rightarrow> string" where
  "fmt_f ds p =
     (let ip = (if 0 < p then take (nat p) ds @ replicate (nat p - length ds) CHR ''0'' else ''0'');
          fp = (if 0 < p then drop (nat p) ds else replicate (nat (- p)) CHR ''0'' @ ds)
      in if fp = [] \<or> ds = ''0'' then ip else ip @ ''.'' @ fp)"

definition fmt_e :: "string \<Rightarrow> int \<Rightarrow> string" where
  "fmt_e ds p =
     (let ex = (if ds = ''0'' then 0 else p - 1); xs = dec_int \<bar>ex\<bar>
      in take 1 ds @ (if length ds > 1 then ''.'' @ drop 1 ds else []) @ ''e''
         @ (if ex < 0 then ''-'' else ''+'') @ (if length xs < 2 then ''0'' @ xs else xs))"

text \<open>\<open>json.Marshal\<close>: exponent form below 1e-6 and from 1e21 on, with \<open>e-09\<close> written \<open>e-9\<close>.\<close>

definition json_float :: "string \<Rightarrow> string" where
  "json_float lit = (case float_digits lit of (neg, ds, p) \<Rightarrow>
     (let small = (ds \<noteq> ''0'' \<and> p < - 5); large = 22 \<le> p; t = fmt_e ds p; n = length t
      in (if neg then ''-'' else [])
         @ (if small \<or> large
            then (if n \<ge> 4 \<and> t ! (n - 4) = CHR ''e'' \<and> t ! (n - 3) = CHR ''-'' \<and> t ! (n - 2) = CHR ''0''
                  then take (n - 2) t @ drop (n - 1) t else t)
            else fmt_f ds p)))"

text \<open>The \<open>%v\<close> verb: \<open>%g\<close> with the shortest precision.\<close>

definition fmt_v_float :: "string \<Rightarrow> string" where
  "fmt_v_float lit = (case float_digits lit of (neg, ds, p) \<Rightarrow>
     (let ex = p - 1
      in (if neg then ''-'' else []) @ (if ds \<noteq> ''0'' \<and> (ex < - 4 \<or> 6 \<le> ex) then fmt_e ds p else fmt_f ds p)))"

subsection \<open>Encoding of dynamic values\<close>

definition hex_lower :: "int \<Rightarrow> char" where
  "hex_lower n = ''0123456789abcdef'' ! nat (n mod 16)"

definition u_escape :: "int \<Rightarrow> string" where
  "u_escape r = [CHR 0x5C, CHR ''u'', hex_lower (r div 4096), hex_lower (r div 256),
     hex_lower (r div 16), hex_lower r]"

text \<open>The byte at the head of a string in a JSON text, with HTML escaping as in \<open>json.Marshal\<close>.\<close>

definition json_char :: "char \<Rightarrow> string" where
  "json_char c =
     (if c = CHR 0x22 \<or> c = CHR 0x5C then [CHR 0x5C, c]
      else if c = CHR 0x08 then [CHR 0x5C, CHR ''b'']
      else if c = CHR 0x0C then [CHR 0x5C, CHR ''f'']
      else if c = CHR 0x0A then [CHR 0x5C, CHR ''n'']
      else if c = CHR 0x0D then [CHR 0x5C, CHR ''r'']
      else if c = CHR 0x09 then [CHR 0x5C, CHR ''t'']
      else if byte c < 32 \<or> c \<in> set ''<>&'' then u_escape (byte c)
      else [c])"

primrec quote_steps :: "nat \<Rightarrow> bytes \<Rightarrow> string" where
  "quote_steps 0 s = []"
| "quote_steps (Suc n) s =
     (case s of [] \<Rightarrow> []
      | c # s' \<Rightarrow>
        (let k = utf8_len s
         in if k = 0 then u_escape rune_error @ quote_steps n s'
            else if k = 1 then json_char c @ quote_steps n s'
            else if take 3 s = [CHR 0xE2, CHR 0x80, CHR 0xA8] then u_escape 8232 @ quote_steps n (drop 3 s)
            else if take 3 s = [CHR 0xE2, CHR 0x80, CHR 0xA9] then u_escape 8233 @ quote_steps n (drop 3 s)
            else take k s @ quote_steps n (drop k s)))"

definition json_quote :: "bytes \<Rightarrow> string" where
  "json_quote s = [CHR 0x22] @ quote_steps (length s) s @ [CHR 0x22]"

text \<open>A Go map has one entry per key, the last one stored, and is written in key order.\<close>

definition map_entries :: "(string \<times> 'a) list \<Rightarrow> (string \<times> 'a) list" where
  "map_entries ms = map (\<lambda>k. (k, the (map_of (rev ms) k))) (sort (remdups (map fst ms)))"

fun joined :: "string \<Rightarrow> string list \<Rightarrow> string" where
  "joined sep [] = []"
| "joined sep [x] = x"
| "joined sep (x # xs) = x @ sep @ joined sep xs"

fun json_marshal :: "json \<Rightarrow> bytes" where
  "json_marshal JNull = ''null''"
| "json_marshal (JBool b) = (if b then ''true'' else ''false'')"
| "json_marshal (JNum n) = json_float n"
| "json_marshal (JStr s) = json_quote s"
| "json_marshal (JArr xs) = ''['' @ joined '','' (map json_marshal xs) @ '']''"
| "json_marshal (JObj ms) = ''{'' @ joined '',''
     (map (\<lambda>(k, t). json_quote k @ '':'' @ t) (map_entries (map (\<lambda>(k, v). (k, json_marshal v)) ms))) @ ''}''"

fun fmt_v :: "json \<Rightarrow> string" where
  "fmt_v JNull = ''<nil>''"
| "fmt_v (JBool b) = (if b then ''true'' else ''false'')"
| "fmt_v (JNum n) = fmt_v_float n"
| "fmt_v (JStr s) = s"
| "fmt_v (JArr xs) = ''['' @ joined '' '' (map fmt_v xs) @ '']''"
| "fmt_v (JObj ms) = ''map['' @ joined '' ''
     (map (\<lambda>(k, t). k @ '':'' @ t) (map_entries (map (\<lambda>(k, v). (k, fmt_v v)) ms))) @ '']''"

text \<open>Storing in and deleting from a decoded object, on its member list.\<close>

definition obj_put :: "string \<Rightarrow> json \<Rightarrow> (string \<times> json) list \<Rightarrow> (string \<times> json) list" where
  "obj_put k v ms = filter (\<lambda>(k', _). k' \<noteq> k) ms @ [(k, v)]"

definition obj_del :: "string \<Rightarrow> (string \<times> json) list \<Rightarrow> (string \<times> json) list" where
  "obj_del k ms = filter (\<lambda>(k', _). k' \<noteq> k) ms"

definition obj_get :: "(string \<times> json) list \<Rightarrow> string \<Rightarrow> json option" where
  "obj_get ms k = map_of (rev ms) k"

lemma map_of_filter_ne:
  "map_of (filter (\<lambda>(k', _). k' \<noteq> k) ms) k' = (if k' = k then None else map_of ms k')"
  by (induction ms) auto

lemma obj_get_put [simp]: "obj_get (obj_put k v ms) k' = (if k' = k then Some v else obj_get ms k')"
  by (simp add: obj_get_def obj_put_def rev_filter map_of_filter_ne)

lemma obj_get_del [simp]: "obj_get (obj_del k ms) k' = (if k' = k then None else obj_get ms k')"
  by (simp add: obj_get_def obj_del_def rev_filter map_of_filter_ne)

subsection \<open>Strings\<close>

text \<open>\<open>strings.Split\<close> on a one-byte separator: never the empty list.\<close>

fun split_on :: "char \<Rightarrow> string \<Rightarrow> string list" where
  "split_on c [] = [[]]"
| "split_on c (x # xs) =
     (if x = c then [] # split_on c xs
      else (case split_on c xs of [] \<Rightarrow> [[x]] | p # ps \<Rightarrow> (x # p) # ps))"

lemma split_on_not_nil [simp]: "split_on c s \<noteq> []"
  by (induction s) (auto split: list.splits)

text \<open>
  \<open>strings.TrimSpace\<close> on the ASCII white space; the program only asks whether the result is empty
  or trims texts it wrote itself.
\<close>

definition is_space :: "char \<Rightarrow> bool" where
  "is_space c \<longleftrightarrow> c = CHR '' '' \<or> (9 \<le> byte c \<and> byte c \<le> 13)"

definition trim_space :: "string \<Rightarrow> string" where
  "trim_space s = rev (dropWhile is_space (rev (dropWhile is_space s)))"

end
