(* ===== verification/Job_Event.thy ===== *)
theory Job_Event
  imports Prelude
begin

text \<open>
  The vocabulary of the runtime's event stream, \<open>internal/runtime/jobstore/event.go\<close>:
  the event types (a Go string type, so a string here, one abbreviation per constant) and
  the \<open>JobEvent\<close> record.  The status machine, the event store, the ledger and the replay
  builder all read these.
\<close>

type_synonym EventType = string

abbreviation JobCreated :: EventType where
  "JobCreated \<equiv> ''job_created''"

abbreviation PlanGenerated :: EventType where
  "PlanGenerated \<equiv> ''plan_generated''"

abbreviation NodeStarted :: EventType where
  "NodeStarted \<equiv> ''node_started''"

abbreviation NodeFinished :: EventType where
  "NodeFinished \<equiv> ''node_finished''"

abbreviation CommandEmitted :: EventType where
  "CommandEmitted \<equiv> ''command_emitted''"

abbreviation CommandCommitted :: EventType where
  "CommandCommitted \<equiv> ''command_committed''"

abbreviation ToolCalled :: EventType where
  "ToolCalled \<equiv> ''tool_called''"

abbreviation ToolReturned :: EventType where
  "ToolReturned \<equiv> ''tool_returned''"

abbreviation ToolInvocationStarted :: EventType where
  "ToolInvocationStarted \<equiv> ''tool_invocation_started''"

abbreviation ToolInvocationFinished :: EventType where
  "ToolInvocationFinished \<equiv> ''tool_invocation_finished''"

abbreviation StepCommitted :: EventType where
  "StepCommitted \<equiv> ''step_committed''"

abbreviation JobCompleted :: EventType where
  "JobCompleted \<equiv> ''job_completed''"

abbreviation JobFailed :: EventType where
  "JobFailed \<equiv> ''job_failed''"

abbreviation JobCancelled :: EventType where
  "JobCancelled \<equiv> ''job_cancelled''"

abbreviation JobQueued :: EventType where
  "JobQueued \<equiv> ''job_queued''"

abbreviation JobLeased :: EventType where
  "JobLeased \<equiv> ''job_leased''"

abbreviation JobRunning :: EventType where
  "JobRunning \<equiv> ''job_running''"

abbreviation JobWaiting :: EventType where
  "JobWaiting \<equiv> ''job_waiting''"

abbreviation JobRequeued :: EventType where
  "JobRequeued \<equiv> ''job_requeued''"

abbreviation JobRetrying :: EventType where
  "JobRetrying \<equiv> ''job_retrying''"

abbreviation WaitCompleted :: EventType where
  "WaitCompleted \<equiv> ''wait_completed''"

abbreviation JobParked :: EventType where
  "JobParked \<equiv> ''job_parked''"

abbreviation JobResumed :: EventType where
  "JobResumed \<equiv> ''job_resumed''"

abbreviation StepStarted :: EventType where
  "StepStarted \<equiv> ''step_started''"

abbreviation StepFinished :: EventType where
  "StepFinished \<equiv> ''step_finished''"

abbreviation StepFailed :: EventType where
  "StepFailed \<equiv> ''step_failed''"

abbreviation StepRetried :: EventType where
  "StepRetried \<equiv> ''step_retried''"

abbreviation CheckpointSaved :: EventType where
  "CheckpointSaved \<equiv> ''checkpoint_saved''"

abbreviation TimerFired :: EventType where
  "TimerFired \<equiv> ''timer_fired''"

abbreviation RandomRecorded :: EventType where
  "RandomRecorded \<equiv> ''random_recorded''"

abbreviation UUIDRecorded :: EventType where
  "UUIDRecorded \<equiv> ''uuid_recorded''"

abbreviation HTTPRecorded :: EventType where
  "HTTPRecorded \<equiv> ''http_recorded''"

abbreviation AgentMessage :: EventType where
  "AgentMessage \<equiv> ''agent_message''"

abbreviation StateCheckpointed :: EventType where
  "StateCheckpointed \<equiv> ''state_checkpointed''"

abbreviation AgentThoughtRecorded :: EventType where
  "AgentThoughtRecorded \<equiv> ''agent_thought_recorded''"

abbreviation DecisionMade :: EventType where
  "DecisionMade \<equiv> ''decision_made''"

abbreviation ToolSelected :: EventType where
  "ToolSelected \<equiv> ''tool_selected''"

abbreviation ToolResultSummarized :: EventType where
  "ToolResultSummarized \<equiv> ''tool_result_summarized''"

abbreviation RecoveryStarted :: EventType where
  "RecoveryStarted \<equiv> ''recovery_started''"

abbreviation RecoveryCompleted :: EventType where
  "RecoveryCompleted \<equiv> ''recovery_completed''"

abbreviation StepCompensated :: EventType where
  "StepCompensated \<equiv> ''step_compensated''"

abbreviation StateChanged :: EventType where
  "StateChanged \<equiv> ''state_changed''"

abbreviation ReasoningSnapshot :: EventType where
  "ReasoningSnapshot \<equiv> ''reasoning_snapshot''"

abbreviation DecisionSnapshot :: EventType where
  "DecisionSnapshot \<equiv> ''decision_snapshot''"

abbreviation MemoryRead :: EventType where
  "MemoryRead \<equiv> ''memory_read''"

abbreviation MemoryWrite :: EventType where
  "MemoryWrite \<equiv> ''memory_write''"

abbreviation PlanEvolution :: EventType where
  "PlanEvolution \<equiv> ''plan_evolution''"

abbreviation JobArchived :: EventType where
  "JobArchived \<equiv> ''job_archived''"

abbreviation JobDeleted :: EventType where
  "JobDeleted \<equiv> ''job_deleted''"

abbreviation AccessAudited :: EventType where
  "AccessAudited \<equiv> ''access_audited''"

abbreviation CriticalDecisionMade :: EventType where
  "CriticalDecisionMade \<equiv> ''critical_decision_made''"

abbreviation HumanApprovalGiven :: EventType where
  "HumanApprovalGiven \<equiv> ''human_approval_given''"

abbreviation PaymentExecuted :: EventType where
  "PaymentExecuted \<equiv> ''payment_executed''"

abbreviation EmailSent :: EventType where
  "EmailSent \<equiv> ''email_sent''"

abbreviation EvidenceExportRequested :: EventType where
  "EvidenceExportRequested \<equiv> ''evidence_export_requested''"

abbreviation EvidenceExportCompleted :: EventType where
  "EvidenceExportCompleted \<equiv> ''evidence_export_completed''"

abbreviation ApprovalRequested :: EventType where
  "ApprovalRequested \<equiv> ''approval_requested''"

abbreviation ApprovalCompleted :: EventType where
  "ApprovalCompleted \<equiv> ''approval_completed''"

abbreviation LedgerAcquired :: EventType where
  "LedgerAcquired \<equiv> ''ledger_acquired''"

abbreviation LedgerCommitted :: EventType where
  "LedgerCommitted \<equiv> ''ledger_committed''"

abbreviation RouteDecisionRecorded :: EventType where
  "RouteDecisionRecorded \<equiv> ''route_decision_recorded''"

abbreviation JobStarted :: EventType where
  "JobStarted \<equiv> ''job_started''"

abbreviation StepSkipped :: EventType where
  "StepSkipped \<equiv> ''step_skipped''"

abbreviation EffectRecorded :: EventType where
  "EffectRecorded \<equiv> ''effect_recorded''"

record JobEvent =
  Ev_ID :: string
  Ev_JobID :: string
  Ev_Type :: EventType
  Ev_Payload :: bytes
  Ev_CreatedAt :: gotime
  Ev_PrevHash :: string
  Ev_Hash :: string

text \<open>The zero value of the struct: \<open>JobEvent{}\<close>.\<close>

definition JobEvent0 :: JobEvent where
  "JobEvent0 = \<lparr>Ev_ID = '''', Ev_JobID = '''', Ev_Type = '''', Ev_Payload = '''',
     Ev_CreatedAt = zero_time, Ev_PrevHash = '''', Ev_Hash = ''''\<rparr>"

end
