(* ===== verification/Agent_Job.thy ===== *)
theory Agent_Job
  imports Job_Event
begin

text \<open>
  The \<open>Job\<close> aggregate of \<open>internal/agent/job/job.go\<close> with its state machine, and
  the derivation of a status from the event stream, \<open>internal/agent/job/state.go\<close>.
  Each mutating method takes its clock readings as arguments and returns either the
  invalid-transition error or the updated job.
\<close>

subsection \<open>Status and job record\<close>

text \<open>\<open>JobStatus\<close> is a Go int; a value outside the declared constants is \<open>StatusOther\<close>.\<close>

datatype JobStatus =
    StatusPending
  | StatusRunning
  | StatusCompleted
  | StatusFailed
  | StatusCancelled
  | StatusWaiting
  | StatusParked
  | StatusRetrying
  | StatusOther int

fun JobStatus_String :: "JobStatus \<Rightarrow> string" where
  "JobStatus_String StatusPending = ''pending''"
| "JobStatus_String StatusRunning = ''running''"
| "JobStatus_String StatusCompleted = ''completed''"
| "JobStatus_String StatusFailed = ''failed''"
| "JobStatus_String StatusCancelled = ''cancelled''"
| "JobStatus_String StatusWaiting = ''waiting''"
| "JobStatus_String StatusParked = ''parked''"
| "JobStatus_String StatusRetrying = ''retrying''"
| "JobStatus_String (StatusOther _) = ''unknown''"

record InvalidStateTransitionError =
  ISTE_From :: JobStatus
  ISTE_To :: JobStatus
  ISTE_Reason :: string

definition InvalidStateTransitionError_Error :: "InvalidStateTransitionError \<Rightarrow> string" where
  "InvalidStateTransitionError_Error e =
     ''invalid state transition: cannot transition from '' @ JobStatus_String (ISTE_From e)
     @ '' to '' @ JobStatus_String (ISTE_To e) @ '': '' @ ISTE_Reason e"

record Job =
  Job_ID :: string
  Job_AgentID :: string
  Job_TenantID :: string
  Job_Goal :: string
  Job_Status :: JobStatus
  Job_CreatedAt :: gotime
  Job_UpdatedAt :: gotime
  Job_Cursor :: string
  Job_RetryCount :: int
  Job_SessionID :: string
  Job_CancelRequestedAt :: gotime
  Job_IdempotencyKey :: string
  Job_Priority :: int
  Job_QueueClass :: string
  Job_RequiredCapabilities :: "string list"
  Job_ExecutionVersion :: string
  Job_PlannerVersion :: string
  Job_ParentJobID :: string
  Job_RootJobID :: string
  Job_ParentAgentID :: string
  Job_ParentSpanID :: string
  Job_pendingEvent :: "JobEvent option"

definition NewJob :: "gotime \<Rightarrow> string \<Rightarrow> string \<Rightarrow> string \<Rightarrow> string \<Rightarrow> Job" where
  "NewJob now id' agentID tenantID goal =
     \<lparr>Job_ID = id', Job_AgentID = agentID, Job_TenantID = tenantID, Job_Goal = goal,
      Job_Status = StatusPending, Job_CreatedAt = now, Job_UpdatedAt = now, Job_Cursor = '''',
      Job_RetryCount = 0, Job_SessionID = '''', Job_CancelRequestedAt = zero_time,
      Job_IdempotencyKey = '''', Job_Priority = 0, Job_QueueClass = '''',
      Job_RequiredCapabilities = [], Job_ExecutionVersion = '''', Job_PlannerVersion = '''',
      Job_ParentJobID = '''', Job_RootJobID = '''', Job_ParentAgentID = '''',
      Job_ParentSpanID = '''', Job_pendingEvent = None\<rparr>"

subsection \<open>Transitions\<close>

text \<open>The table \<open>validTransitions\<close>; \<open>None\<close> is a missing map key.\<close>

fun validTransitions :: "JobStatus \<Rightarrow> JobStatus list option" where
  "validTransitions StatusPending = Some [StatusRunning, StatusCancelled, StatusWaiting, StatusParked]"
| "validTransitions StatusRunning = Some [StatusCompleted, StatusFailed, StatusWaiting, StatusParked,
     StatusRetrying, StatusCancelled]"
| "validTransitions StatusWaiting = Some [StatusRunning, StatusFailed, StatusCancelled, StatusParked]"
| "validTransitions StatusParked = Some [StatusWaiting, StatusRunning, StatusCancelled]"
| "validTransitions StatusRetrying = Some [StatusRunning, StatusFailed, StatusCancelled]"
| "validTransitions StatusCompleted = Some []"
| "validTransitions StatusFailed = Some []"
| "validTransitions StatusCancelled = Some []"
| "validTransitions (StatusOther _) = None"

definition CanTransitionTo :: "Job \<Rightarrow> JobStatus \<Rightarrow> InvalidStateTransitionError option" where
  "CanTransitionTo j target =
     (case validTransitions (Job_Status j) of
        None \<Rightarrow> Some \<lparr>ISTE_From = Job_Status j, ISTE_To = target, ISTE_Reason = ''unknown source status''\<rparr>
      | Some allowed \<Rightarrow>
          (if target \<in> set allowed then None
           else Some \<lparr>ISTE_From = Job_Status j, ISTE_To = target,
                      ISTE_Reason = ''target status not in allowed transitions''\<rparr>))"

text \<open>The event every transition leaves pending carries the job id and the type only.\<close>

definition pending_of :: "Job \<Rightarrow> EventType \<Rightarrow> JobEvent option" where
  "pending_of j t = Some (JobEvent0\<lparr>Ev_JobID := Job_ID j, Ev_Type := t\<rparr>)"

definition Start :: "gotime \<Rightarrow> Job \<Rightarrow> InvalidStateTransitionError + Job" where
  "Start now j =
     (case CanTransitionTo j StatusRunning of Some err \<Rightarrow> Inl err
      | None \<Rightarrow> Inr (j\<lparr>Job_Status := StatusRunning, Job_UpdatedAt := now,
                       Job_pendingEvent := pending_of j JobRunning\<rparr>))"

definition Complete :: "gotime \<Rightarrow> Job \<Rightarrow> InvalidStateTransitionError + Job" where
  "Complete now j =
     (case CanTransitionTo j StatusCompleted of Some err \<Rightarrow> Inl err
      | None \<Rightarrow> Inr (j\<lparr>Job_Status := StatusCompleted, Job_UpdatedAt := now,
                       Job_pendingEvent := pending_of j JobCompleted\<rparr>))"

definition Fail :: "gotime \<Rightarrow> Job \<Rightarrow> InvalidStateTransitionError + Job" where
  "Fail now j =
     (case CanTransitionTo j StatusFailed of Some err \<Rightarrow> Inl err
      | None \<Rightarrow> Inr (j\<lparr>Job_Status := StatusFailed, Job_UpdatedAt := now,
                       Job_pendingEvent := pending_of j JobFailed\<rparr>))"

definition Cancel :: "gotime \<Rightarrow> gotime \<Rightarrow> Job \<Rightarrow> InvalidStateTransitionError + Job" where
  "Cancel now now' j =
     (case CanTransitionTo j StatusCancelled of Some err \<Rightarrow> Inl err
      | None \<Rightarrow> Inr (j\<lparr>Job_Status := StatusCancelled, Job_UpdatedAt := now,
                       Job_CancelRequestedAt := now',
                       Job_pendingEvent := pending_of j JobCancelled\<rparr>))"

text \<open>\<open>Park\<close> ignores its reason argument, and its pending event is \<open>job_waiting\<close>.\<close>

definition Park :: "gotime \<Rightarrow> string \<Rightarrow> Job \<Rightarrow> InvalidStateTransitionError + Job" where
  "Park now reason j =
     (case CanTransitionTo j StatusParked of Some err \<Rightarrow> Inl err
      | None \<Rightarrow> Inr (j\<lparr>Job_Status := StatusParked, Job_UpdatedAt := now,
                       Job_pendingEvent := pending_of j JobWaiting\<rparr>))"

definition Resume :: "gotime \<Rightarrow> Job \<Rightarrow> InvalidStateTransitionError + Job" where
  "Resume now j =
     (case CanTransitionTo j StatusRunning of Some err \<Rightarrow> Inl err
      | None \<Rightarrow> Inr (j\<lparr>Job_Status := StatusRunning, Job_UpdatedAt := now,
                       Job_pendingEvent := pending_of j JobRunning\<rparr>))"

definition Wait :: "gotime \<Rightarrow> Job \<Rightarrow> InvalidStateTransitionError + Job" where
  "Wait now j =
     (case CanTransitionTo j StatusWaiting of Some err \<Rightarrow> Inl err
      | None \<Rightarrow> Inr (j\<lparr>Job_Status := StatusWaiting, Job_UpdatedAt := now,
                       Job_pendingEvent := pending_of j JobWaiting\<rparr>))"

definition Retry :: "gotime \<Rightarrow> Job \<Rightarrow> InvalidStateTransitionError + Job" where
  "Retry now j =
     (case CanTransitionTo j StatusRetrying of Some err \<Rightarrow> Inl err
      | None \<Rightarrow> Inr (j\<lparr>Job_Status := StatusRetrying, Job_RetryCount := Job_RetryCount j + 1,
                       Job_UpdatedAt := now, Job_pendingEvent := pending_of j JobRequeued\<rparr>))"

definition Requeue :: "gotime \<Rightarrow> Job \<Rightarrow> InvalidStateTransitionError + Job" where
  "Requeue now j =
     (if Job_Status j \<noteq> StatusRetrying \<and> Job_Status j \<noteq> StatusWaiting
      then Inl \<lparr>ISTE_From = Job_Status j, ISTE_To = StatusPending,
                ISTE_Reason = ''can only requeue from Retrying or Waiting''\<rparr>
      else Inr (j\<lparr>Job_Status := StatusPending, Job_UpdatedAt := now,
                  Job_pendingEvent := pending_of j JobRequeued\<rparr>))"

definition PendingEvent :: "Job \<Rightarrow> JobEvent option \<times> Job" where
  "PendingEvent j = (Job_pendingEvent j, j\<lparr>Job_pendingEvent := None\<rparr>)"

subsection \<open>Status from the event stream\<close>

text \<open>The zero value of \<open>JobStatus\<close> is \<open>StatusPending\<close>.\<close>

definition status_of_event :: "EventType \<Rightarrow> JobStatus \<Rightarrow> JobStatus" where
  "status_of_event t status =
     (if t = JobCreated \<or> t = JobQueued \<or> t = JobRequeued then StatusPending
      else if t = JobLeased \<or> t = JobRunning then StatusRunning
      else if t = JobWaiting then StatusWaiting
      else if t = JobParked then StatusParked
      else if t = JobRetrying then StatusRetrying
      else if t = JobResumed then StatusPending
      else if t = WaitCompleted then StatusPending
      else if t = JobCompleted then StatusCompleted
      else if t = JobFailed then StatusFailed
      else if t = JobCancelled then StatusCancelled
      else status)"

definition DeriveStatusFromEvents :: "JobEvent list \<Rightarrow> JobStatus" where
  "DeriveStatusFromEvents events =
     (if events = [] then StatusPending
      else foldl (\<lambda>status e. status_of_event (Ev_Type e) status) StatusPending events)"

text \<open>The backward scan of \<open>IsJobBlocked\<close>, over the reversed stream.\<close>

fun blocked_scan :: "JobEvent list \<Rightarrow> bool" where
  "blocked_scan [] = False"
| "blocked_scan (e # es) =
     (if Ev_Type e = JobWaiting \<or> Ev_Type e = JobParked then True
      else if Ev_Type e = JobCreated \<or> Ev_Type e = JobQueued \<or> Ev_Type e = JobRequeued
        \<or> Ev_Type e = JobRetrying \<or> Ev_Type e = JobLeased \<or> Ev_Type e = JobRunning
        \<or> Ev_Type e = WaitCompleted \<or> Ev_Type e = JobCompleted \<or> Ev_Type e = JobFailed
        \<or> Ev_Type e = JobCancelled \<or> Ev_Type e = JobResumed then False
      else blocked_scan es)"

definition IsJobBlocked :: "JobEvent list \<Rightarrow> bool" where
  "IsJobBlocked events = (if events = [] then False else blocked_scan (rev events))"

subsection \<open>The contract the transition methods share\<close>

text \<open>
  Eight methods guard themselves with \<open>CanTransitionTo\<close> and then move to one target status
  with one event type.  The locale states that contract; each method is an interpretation.
\<close>

abbreviation terminal :: "JobStatus \<Rightarrow> bool" where
  "terminal s \<equiv> s = StatusCompleted \<or> s = StatusFailed \<or> s = StatusCancelled"

locale guarded_transition =
  fixes step :: "Job \<Rightarrow> InvalidStateTransitionError + Job"
    and target :: JobStatus
    and ev :: EventType
  assumes refused: "CanTransitionTo j target = Some e \<Longrightarrow> step j = Inl e"
    and moved: "CanTransitionTo j target = None \<Longrightarrow>
      \<exists>j'. step j = Inr j' \<and> Job_Status j' = target \<and> Job_ID j' = Job_ID j
        \<and> Job_pendingEvent j' = pending_of j ev \<and> Job_RetryCount j \<le> Job_RetryCount j'"
begin

lemma ok_iff: "is_ok (step j) \<longleftrightarrow> CanTransitionTo j target = None"
proof (cases "CanTransitionTo j target")
  case None
  then show ?thesis using moved [of j] by (auto simp: is_ok_iff)
next
  case (Some e)
  then show ?thesis by (simp add: refused)
qed

lemma ok_facts:
  assumes "step j = Inr j'"
  shows "Job_Status j' = target" and "Job_ID j' = Job_ID j"
    and "Job_pendingEvent j' = pending_of j ev" and "Job_RetryCount j \<le> Job_RetryCount j'"
    and "\<exists>allowed. validTransitions (Job_Status j) = Some allowed \<and> target \<in> set allowed"
proof -
  have ok: "CanTransitionTo j target = None"
    using assms ok_iff [of j] by (simp add: is_ok_iff)
  with moved [OF ok] assms show "Job_Status j' = target" "Job_ID j' = Job_ID j"
    "Job_pendingEvent j' = pending_of j ev" "Job_RetryCount j \<le> Job_RetryCount j'" by auto
  from ok show "\<exists>allowed. validTransitions (Job_Status j) = Some allowed \<and> target \<in> set allowed"
    by (auto simp: CanTransitionTo_def split: option.splits if_splits)
qed

lemma stuck_when_terminal: "terminal (Job_Status j) \<Longrightarrow> \<not> is_ok (step j)"
  by (auto simp: ok_iff CanTransitionTo_def)

end

lemmas transition_defs =
  Start_def Complete_def Fail_def Cancel_def Park_def Resume_def Wait_def Retry_def

interpretation start: guarded_transition "Start now" StatusRunning JobRunning
  by unfold_locales (simp_all add: transition_defs)

interpretation complete: guarded_transition "Complete now" StatusCompleted JobCompleted
  by unfold_locales (simp_all add: transition_defs)

interpretation fail: guarded_transition "Fail now" StatusFailed JobFailed
  by unfold_locales (simp_all add: transition_defs)

interpretation cancel: guarded_transition "Cancel now now'" StatusCancelled JobCancelled
  by unfold_locales (simp_all add: transition_defs)

interpretation park: guarded_transition "Park now reason" StatusParked JobWaiting
  by unfold_locales (simp_all add: transition_defs)

interpretation resume: guarded_transition "Resume now" StatusRunning JobRunning
  by unfold_locales (simp_all add: transition_defs)

interpretation wait: guarded_transition "Wait now" StatusWaiting JobWaiting
  by unfold_locales (simp_all add: transition_defs)

interpretation retry: guarded_transition "Retry now" StatusRetrying JobRequeued
  by unfold_locales (simp_all add: transition_defs)

subsection \<open>The state machine as a step relation\<close>

inductive job_step :: "Job \<Rightarrow> Job \<Rightarrow> bool" where
  js_start: "Start now j = Inr j' \<Longrightarrow> job_step j j'"
| js_complete: "Complete now j = Inr j' \<Longrightarrow> job_step j j'"
| js_fail: "Fail now j = Inr j' \<Longrightarrow> job_step j j'"
| js_cancel: "Cancel now now' j = Inr j' \<Longrightarrow> job_step j j'"
| js_park: "Park now reason j = Inr j' \<Longrightarrow> job_step j j'"
| js_resume: "Resume now j = Inr j' \<Longrightarrow> job_step j j'"
| js_wait: "Wait now j = Inr j' \<Longrightarrow> job_step j j'"
| js_retry: "Retry now j = Inr j' \<Longrightarrow> job_step j j'"
| js_requeue: "Requeue now j = Inr j' \<Longrightarrow> job_step j j'"
| js_take: "PendingEvent j = (ev, j') \<Longrightarrow> job_step j j'"

inductive_cases job_stepE: "job_step j j'"

lemma Requeue_ok:
  "Requeue now j = Inr j' \<Longrightarrow> Job_Status j \<in> {StatusRetrying, StatusWaiting} \<and>
     j' = j\<lparr>Job_Status := StatusPending, Job_UpdatedAt := now, Job_pendingEvent := pending_of j JobRequeued\<rparr>"
  by (auto simp: Requeue_def split: if_splits)

lemma job_step_frame: "job_step j j' \<Longrightarrow> Job_ID j' = Job_ID j \<and> Job_RetryCount j \<le> Job_RetryCount j'"
  by (erule job_stepE)
    (auto dest: start.ok_facts complete.ok_facts fail.ok_facts cancel.ok_facts park.ok_facts
       resume.ok_facts wait.ok_facts retry.ok_facts Requeue_ok simp: PendingEvent_def)

lemma job_step_terminal:
  assumes "job_step j j'" and "terminal (Job_Status j)"
  shows "Job_Status j' = Job_Status j"
  using assms(1)
proof (cases rule: job_step.cases)
  case (js_take ev)
  then show ?thesis by (auto simp: PendingEvent_def)
next
  case (js_requeue now)
  then show ?thesis using Requeue_ok [OF js_requeue] assms(2) by auto
qed (use assms(2) in \<open>auto simp: transition_defs CanTransitionTo_def\<close>)

lemma status_of_event_Waiting_Parked:
  "status_of_event t s \<in> {StatusWaiting, StatusParked} \<longleftrightarrow>
     t = JobWaiting \<or> t = JobParked \<or>
     (s \<in> {StatusWaiting, StatusParked} \<and> status_of_event t StatusPending = StatusPending
        \<and> status_of_event t StatusRunning = StatusRunning)"
  by (simp add: status_of_event_def)

text \<open>The scan decides an event the same way the fold does, whatever came before it.\<close>

lemma blocked_scan_Cons:
  "blocked_scan (e # es) \<longleftrightarrow>
     Ev_Type e = JobWaiting \<or> Ev_Type e = JobParked \<or>
     (blocked_scan es \<and> status_of_event (Ev_Type e) StatusPending = StatusPending
        \<and> status_of_event (Ev_Type e) StatusRunning = StatusRunning)"
  by (simp add: status_of_event_def)

declare blocked_scan.simps(2) [simp del]

lemma blocked_scan_rev:
  "blocked_scan (rev es) \<longleftrightarrow>
     foldl (\<lambda>status e. status_of_event (Ev_Type e) status) StatusPending es
       \<in> {StatusWaiting, StatusParked}"
proof (induction es rule: rev_induct)
  case Nil
  then show ?case by simp
next
  case (snoc e es)
  then show ?case
    using status_of_event_Waiting_Parked [of "Ev_Type e"] by (simp add: blocked_scan_Cons)
qed

lemma derive_snoc:
  "DeriveStatusFromEvents (es @ [e]) = status_of_event (Ev_Type e) (DeriveStatusFromEvents es)"
  by (simp add: DeriveStatusFromEvents_def)

text \<open>What a method leaves pending, as the derivation reads it back.\<close>

definition derived_after :: "JobEvent list \<Rightarrow> Job \<Rightarrow> JobStatus" where
  "derived_after es j =
     (case fst (PendingEvent j) of None \<Rightarrow> DeriveStatusFromEvents es
      | Some e \<Rightarrow> DeriveStatusFromEvents (es @ [e]))"

lemma derived_after_pending:
  "Job_pendingEvent j' = pending_of j t \<Longrightarrow>
     derived_after es j' = status_of_event t (DeriveStatusFromEvents es)"
  by (simp add: derived_after_def PendingEvent_def pending_of_def JobEvent0_def derive_snoc)

text \<open>
  C14. The reclaimer's backward scan \<open>IsJobBlocked\<close> agrees with the forward derivation
  \<open>DeriveStatusFromEvents\<close> on every event stream: a job is reported blocked exactly when
  its derived status is Waiting or Parked.
\<close>

theorem IsJobBlocked_iff_derived:
  "IsJobBlocked events \<longleftrightarrow> DeriveStatusFromEvents events \<in> {StatusWaiting, StatusParked}"
  using blocked_scan_rev [of events]
  by (cases "events = []") (simp_all add: IsJobBlocked_def DeriveStatusFromEvents_def)

text \<open>
  Terminal statuses are final: however many methods of the aggregate are called on a
  Completed, Failed or Cancelled job, in any order, its status stays what it is.
\<close>

theorem terminal_is_final:
  assumes "job_step\<^sup>*\<^sup>* j j'" and "terminal (Job_Status j)"
  shows "Job_Status j' = Job_Status j"
  using assms
proof (induction rule: rtranclp_induct)
  case base
  then show ?case by simp
next
  case (step y z)
  then show ?case using job_step_terminal [of y z] by metis
qed

text \<open>
  The event a method leaves pending is enough to rebuild the status it set: appending it
  to any stream makes \<open>DeriveStatusFromEvents\<close> return the job's new status.  The two
  exceptions are \<open>Park\<close>, whose event derives Waiting, and \<open>Retry\<close>, whose event
  derives Pending.
\<close>

theorem pending_event_derives_status:
  assumes "Start now j = Inr j' \<or> Resume now j = Inr j' \<or> Complete now j = Inr j'
    \<or> Fail now j = Inr j' \<or> Cancel now now' j = Inr j' \<or> Wait now j = Inr j'
    \<or> Requeue now j = Inr j' \<or> Park now reason j = Inr j' \<or> Retry now j = Inr j'"
  shows "derived_after es j' =
     (if Job_Status j' = StatusParked then StatusWaiting
      else if Job_Status j' = StatusRetrying then StatusPending
      else Job_Status j')"
  using assms
proof (elim disjE)
  assume "Requeue now j = Inr j'"
  then show ?thesis
    using Requeue_ok [of now j j'] derived_after_pending [of j' j JobRequeued es]
    by (simp add: status_of_event_def)
next
  assume *: "Park now reason j = Inr j'"
  show ?thesis
    using park.ok_facts [OF *] derived_after_pending [of j' j JobWaiting es]
    by (simp add: status_of_event_def)
qed (insert start.ok_facts [of now j j'] resume.ok_facts [of now j j'] complete.ok_facts [of now j j']
    fail.ok_facts [of now j j'] cancel.ok_facts [of now now' j j'] wait.ok_facts [of now j j']
    retry.ok_facts [of now j j'],
    simp_all add: derived_after_pending status_of_event_def)

theorem terminal_is_final_witness:
  "Job_Status (snd (PendingEvent ((NewJob 1 ''j'' ''a'' ''t'' ''g'')\<lparr>Job_Status := StatusCompleted\<rparr>))) = StatusCompleted"
proof -
  let ?j = "(NewJob 1 ''j'' ''a'' ''t'' ''g'')\<lparr>Job_Status := StatusCompleted\<rparr>"
  have "job_step ?j (snd (PendingEvent ?j))"
    by (rule js_take [of _ "fst (PendingEvent ?j)"]) simp
  then have "job_step\<^sup>*\<^sup>* ?j (snd (PendingEvent ?j))" by (rule r_into_rtranclp)
  from terminal_is_final [OF this] show ?thesis by simp
qed

theorem pending_event_derives_status_witness:
  "derived_after [] (projr (Start 5 (NewJob 1 ''j'' ''a'' ''t'' ''g''))) = StatusRunning"
proof -
  let ?j' = "projr (Start 5 (NewJob 1 ''j'' ''a'' ''t'' ''g''))"
  have "Start 5 (NewJob 1 ''j'' ''a'' ''t'' ''g'') = Inr ?j'" and "Job_Status ?j' = StatusRunning"
    by (simp_all add: Start_def CanTransitionTo_def NewJob_def)
  then show ?thesis using pending_event_derives_status [of 5 "NewJob 1 ''j'' ''a'' ''t'' ''g''" ?j'] by simp
qed

end
