(* ===== verification/Job_Store_Mem.thy ===== *)
theory Job_Store_Mem
  imports Agent_Job
begin

text \<open>
  The in-memory job metadata store, \<open>JobStoreMem\<close> of
  \<open>internal/agent/job/job_store.go\<close>: jobs by id, the queue of pending ids, and the
  registry of waiting and parked jobs by job id and by correlation key.  Every method
  holds the mutex for its whole body, so each is one atomic function of the state.  A
  method that ranges over the Go map \<open>byID\<close> takes the iteration order as a list of keys.
\<close>

record waitingInfo =
  WI_jobID :: string
  WI_correlationKey :: string
  WI_waitType :: string
  WI_reason :: string
  WI_status :: JobStatus
  WI_setAt :: gotime

record JobStoreMem =
  byID :: "string \<rightharpoonup> Job"
  pending :: "string list"
  waiting :: "string \<rightharpoonup> waitingInfo"
  waitingByKey :: "string \<rightharpoonup> waitingInfo"

definition NewJobStoreMem :: JobStoreMem where
  "NewJobStoreMem = \<lparr>byID = Map.empty, pending = [], waiting = Map.empty, waitingByKey = Map.empty\<rparr>"

definition jobMatchesCapabilities :: "string list \<Rightarrow> string list \<Rightarrow> bool" where
  "jobMatchesCapabilities jobRequired workerCapabilities =
     (if jobRequired = [] then True
      else if workerCapabilities = [] then True
      else list_all (\<lambda>r. r \<in> set workerCapabilities) jobRequired)"

subsection \<open>Create and queries\<close>

text \<open>\<open>Create\<close> also writes the assigned fields back into the caller's job, returned second.\<close>

definition Create :: "gotime \<Rightarrow> string \<Rightarrow> JobStoreMem \<Rightarrow> Job \<Rightarrow> string \<times> Job \<times> JobStoreMem" where
  "Create now uuid s job =
     (let job1 = (if Job_ID job = '''' then job\<lparr>Job_ID := ''job-'' @ uuid\<rparr> else job);
          job2 = (if Job_TenantID job1 = '''' then job1\<lparr>Job_TenantID := ''default''\<rparr> else job1);
          job3 = job2\<lparr>Job_Status := StatusPending, Job_CreatedAt := now, Job_UpdatedAt := now\<rparr>
      in (Job_ID job3, job3,
          s\<lparr>byID := (byID s)(Job_ID job3 \<mapsto> job3), pending := pending s @ [Job_ID job3]\<rparr>))"

definition Get :: "JobStoreMem \<Rightarrow> string \<Rightarrow> Job option" where
  "Get s jobID = byID s jobID"

text \<open>The first job, in iteration order, that satisfies a test.\<close>

fun first_job :: "(string \<rightharpoonup> Job) \<Rightarrow> string list \<Rightarrow> (Job \<Rightarrow> bool) \<Rightarrow> Job option" where
  "first_job m [] P = None"
| "first_job m (k # ks) P =
     (case m k of None \<Rightarrow> first_job m ks P
      | Some j \<Rightarrow> if P j then Some j else first_job m ks P)"

definition GetByAgentAndIdempotencyKey ::
  "string list \<Rightarrow> JobStoreMem \<Rightarrow> string \<Rightarrow> string \<Rightarrow> Job option" where
  "GetByAgentAndIdempotencyKey order s agentID idempotencyKey =
     (if idempotencyKey = '''' then None
      else first_job (byID s) order
             (\<lambda>j. Job_AgentID j = agentID \<and> Job_IdempotencyKey j = idempotencyKey))"

definition GetByAgentTenantAndIdempotencyKey ::
  "string list \<Rightarrow> JobStoreMem \<Rightarrow> string \<Rightarrow> string \<Rightarrow> string \<Rightarrow> Job option" where
  "GetByAgentTenantAndIdempotencyKey order s agentID tenantID idempotencyKey =
     (if idempotencyKey = '''' then None
      else let tenantID = (if tenantID = '''' then ''default'' else tenantID) in
        first_job (byID s) order
          (\<lambda>j. Job_AgentID j = agentID \<and> Job_TenantID j = tenantID
               \<and> Job_IdempotencyKey j = idempotencyKey))"

definition ListByAgent :: "string list \<Rightarrow> JobStoreMem \<Rightarrow> string \<Rightarrow> string \<Rightarrow> Job list" where
  "ListByAgent order s agentID tenantID =
     filter (\<lambda>j. Job_AgentID j = agentID \<and> \<not> (tenantID \<noteq> '''' \<and> Job_TenantID j \<noteq> tenantID))
       (List.map_filter (byID s) order)"

record TimeRange =
  TR_Start :: gotime
  TR_End :: gotime

definition tenant_filter :: "string \<Rightarrow> string list \<Rightarrow> TimeRange \<Rightarrow> Job \<Rightarrow> bool" where
  "tenant_filter tenantID agentIDs timeRange j \<longleftrightarrow>
     \<not> (tenantID \<noteq> '''' \<and> Job_TenantID j \<noteq> tenantID)
     \<and> \<not> (agentIDs \<noteq> [] \<and> Job_AgentID j \<notin> set agentIDs)
     \<and> \<not> (TR_Start timeRange \<noteq> zero_time \<and> Job_CreatedAt j < TR_Start timeRange)
     \<and> \<not> (TR_End timeRange \<noteq> zero_time \<and> Job_CreatedAt j > TR_End timeRange)"

definition ListByTenant ::
  "string list \<Rightarrow> JobStoreMem \<Rightarrow> string \<Rightarrow> string list \<Rightarrow> TimeRange \<Rightarrow> int \<Rightarrow> Job list" where
  "ListByTenant order s tenantID agentIDs timeRange limit =
     (let xs = filter (tenant_filter tenantID agentIDs timeRange) (List.map_filter (byID s) order)
      in if limit > 0 then take (nat limit) xs else xs)"

subsection \<open>Updates\<close>

definition UpdateStatus :: "gotime \<Rightarrow> JobStoreMem \<Rightarrow> string \<Rightarrow> JobStatus \<Rightarrow> JobStoreMem" where
  "UpdateStatus now s jobID status =
     (case byID s jobID of None \<Rightarrow> s
      | Some j \<Rightarrow> s\<lparr>byID := (byID s)(jobID \<mapsto> j\<lparr>Job_Status := status, Job_UpdatedAt := now\<rparr>)\<rparr>)"

definition UpdateCursor :: "gotime \<Rightarrow> JobStoreMem \<Rightarrow> string \<Rightarrow> string \<Rightarrow> JobStoreMem" where
  "UpdateCursor now s jobID cursor =
     (case byID s jobID of None \<Rightarrow> s
      | Some j \<Rightarrow> s\<lparr>byID := (byID s)(jobID \<mapsto> j\<lparr>Job_Cursor := cursor, Job_UpdatedAt := now\<rparr>)\<rparr>)"

subsection \<open>Claiming\<close>

text \<open>The conditions under which the claim loop considers a queue entry.\<close>

definition claimable :: "(string \<rightharpoonup> Job) \<Rightarrow> string \<Rightarrow> string list \<Rightarrow> string \<Rightarrow> string \<Rightarrow> bool" where
  "claimable m queueClass workerCapabilities tenantID id' \<longleftrightarrow>
     (case m id' of None \<Rightarrow> False
      | Some j \<Rightarrow> Job_Status j = StatusPending
          \<and> \<not> (tenantID \<noteq> '''' \<and> Job_TenantID j \<noteq> tenantID)
          \<and> \<not> (queueClass \<noteq> '''' \<and> Job_QueueClass j \<noteq> '''' \<and> Job_QueueClass j \<noteq> queueClass)
          \<and> jobMatchesCapabilities (Job_RequiredCapabilities j) workerCapabilities)"

text \<open>
  The scan of the queue.  The accumulator is the best candidate so far, its id, priority
  and index; \<open>None\<close> is \<open>bestIdx = -1\<close>.
\<close>

fun claim_scan ::
  "(string \<rightharpoonup> Job) \<Rightarrow> (string \<Rightarrow> bool) \<Rightarrow> nat \<Rightarrow> string list \<Rightarrow> (string \<times> int \<times> nat) option
     \<Rightarrow> (string \<times> int \<times> nat) option" where
  "claim_scan m ok idx [] best = best"
| "claim_scan m ok idx (id' # ids) best =
     (if \<not> ok id' then claim_scan m ok (Suc idx) ids best
      else let p = Job_Priority (the (m id')) in
        (case best of
           None \<Rightarrow> claim_scan m ok (Suc idx) ids (Some (id', p, idx))
         | Some (bid, bp, bi) \<Rightarrow>
             claim_scan m ok (Suc idx) ids (if p > bp then Some (id', p, idx) else best)))"

definition ClaimNextPendingForWorker ::
  "gotime \<Rightarrow> JobStoreMem \<Rightarrow> string \<Rightarrow> string list \<Rightarrow> string \<Rightarrow> Job option \<times> JobStoreMem" where
  "ClaimNextPendingForWorker now s queueClass workerCapabilities tenantID =
     (case claim_scan (byID s) (claimable (byID s) queueClass workerCapabilities tenantID)
             0 (pending s) None of
        None \<Rightarrow> (None, s)
      | Some (bestID, _, bestIdx) \<Rightarrow>
          (let j = (the (byID s bestID))\<lparr>Job_Status := StatusRunning, Job_UpdatedAt := now\<rparr>
           in (Some j, s\<lparr>pending := remove_at bestIdx (pending s),
                         byID := (byID s)(bestID \<mapsto> j)\<rparr>)))"

definition ClaimNextPendingFromQueue ::
  "gotime \<Rightarrow> JobStoreMem \<Rightarrow> string \<Rightarrow> Job option \<times> JobStoreMem" where
  "ClaimNextPendingFromQueue now s queueClass = ClaimNextPendingForWorker now s queueClass [] ''''"

definition ClaimNextPending :: "gotime \<Rightarrow> JobStoreMem \<Rightarrow> Job option \<times> JobStoreMem" where
  "ClaimNextPending now s = ClaimNextPendingFromQueue now s ''''"

definition Store_Requeue :: "gotime \<Rightarrow> JobStoreMem \<Rightarrow> Job option \<Rightarrow> JobStoreMem" where
  "Store_Requeue now s job =
     (case job of None \<Rightarrow> s
      | Some job \<Rightarrow>
          (case byID s (Job_ID job) of None \<Rightarrow> s
           | Some j \<Rightarrow>
               s\<lparr>byID := (byID s)(Job_ID job \<mapsto>
                    j\<lparr>Job_RetryCount := Job_RetryCount job + 1, Job_Status := StatusPending,
                      Job_UpdatedAt := now\<rparr>),
                 pending := pending s @ [Job_ID job]\<rparr>))"

definition RequestCancel :: "gotime \<Rightarrow> JobStoreMem \<Rightarrow> string \<Rightarrow> JobStoreMem" where
  "RequestCancel now s jobID =
     (case byID s jobID of None \<Rightarrow> s
      | Some j \<Rightarrow> s\<lparr>byID := (byID s)(jobID \<mapsto> j\<lparr>Job_CancelRequestedAt := now, Job_UpdatedAt := now\<rparr>)\<rparr>)"

definition ReclaimOrphanedJobs :: "JobStoreMem \<Rightarrow> duration \<Rightarrow> int \<times> JobStoreMem" where
  "ReclaimOrphanedJobs s olderThan = (0, s)"

text \<open>
  \<open>WaitNextPending\<close> pops ids until it finds a pending job.  When the queue runs empty it
  blocks on the condition variable: \<open>None\<close>, with the queue emptied.
\<close>

fun wait_pop :: "(string \<rightharpoonup> Job) \<Rightarrow> string list \<Rightarrow> (string \<times> Job) option \<times> string list" where
  "wait_pop m [] = (None, [])"
| "wait_pop m (id' # ids) =
     (case m id' of None \<Rightarrow> wait_pop m ids
      | Some j \<Rightarrow> if Job_Status j \<noteq> StatusPending then wait_pop m ids else (Some (id', j), ids))"

definition WaitNextPending :: "gotime \<Rightarrow> JobStoreMem \<Rightarrow> Job option \<times> JobStoreMem" where
  "WaitNextPending now s =
     (case wait_pop (byID s) (pending s) of
        (None, q) \<Rightarrow> (None, s\<lparr>pending := q\<rparr>)
      | (Some (id', j), q) \<Rightarrow>
          (let j' = j\<lparr>Job_Status := StatusRunning, Job_UpdatedAt := now\<rparr>
           in (Some j', s\<lparr>pending := q, byID := (byID s)(id' \<mapsto> j')\<rparr>)))"

subsection \<open>Waiting, parking and waking\<close>

text \<open>\<open>SetWaiting\<close> and \<open>SetParked\<close> have the same body but for the status they write.\<close>

definition set_blocked ::
  "JobStatus \<Rightarrow> gotime \<Rightarrow> gotime \<Rightarrow> JobStoreMem \<Rightarrow> string \<Rightarrow> string \<Rightarrow> string \<Rightarrow> string \<Rightarrow> JobStoreMem" where
  "set_blocked status now now' s jobID correlationKey waitType reason =
     (case byID s jobID of None \<Rightarrow> s
      | Some j \<Rightarrow>
          (let info = \<lparr>WI_jobID = jobID, WI_correlationKey = correlationKey, WI_waitType = waitType,
                       WI_reason = reason, WI_status = status, WI_setAt = now'\<rparr>
           in s\<lparr>byID := (byID s)(jobID \<mapsto> j\<lparr>Job_Status := status, Job_UpdatedAt := now\<rparr>),
                waiting := (waiting s)(jobID \<mapsto> info),
                waitingByKey := (if correlationKey \<noteq> '''' then (waitingByKey s)(correlationKey \<mapsto> info)
                                 else waitingByKey s)\<rparr>))"

definition SetWaiting ::
  "gotime \<Rightarrow> gotime \<Rightarrow> JobStoreMem \<Rightarrow> string \<Rightarrow> string \<Rightarrow> string \<Rightarrow> string \<Rightarrow> JobStoreMem" where
  "SetWaiting now now' s jobID correlationKey waitType reason =
     set_blocked StatusWaiting now now' s jobID correlationKey waitType reason"

definition SetParked ::
  "gotime \<Rightarrow> gotime \<Rightarrow> JobStoreMem \<Rightarrow> string \<Rightarrow> string \<Rightarrow> string \<Rightarrow> string \<Rightarrow> JobStoreMem" where
  "SetParked now now' s jobID correlationKey waitType reason =
     set_blocked StatusParked now now' s jobID correlationKey waitType reason"

definition WakeupJob :: "gotime \<Rightarrow> JobStoreMem \<Rightarrow> string \<Rightarrow> Job option \<times> JobStoreMem" where
  "WakeupJob now s correlationKey =
     (case waitingByKey s correlationKey of None \<Rightarrow> (None, s)
      | Some info \<Rightarrow>
          (let s1 = s\<lparr>waitingByKey := (waitingByKey s)(correlationKey := None),
                      waiting := (waiting s)(WI_jobID info := None)\<rparr> in
           (case byID s (WI_jobID info) of None \<Rightarrow> (None, s1)
            | Some j \<Rightarrow>
                (let j' = j\<lparr>Job_Status := StatusPending, Job_UpdatedAt := now\<rparr>
                 in (Some j', s1\<lparr>byID := (byID s)(WI_jobID info \<mapsto> j'),
                                pending := pending s @ [Job_ID j]\<rparr>)))))"

definition ClaimParkedJob :: "gotime \<Rightarrow> JobStoreMem \<Rightarrow> string \<Rightarrow> Job option \<times> JobStoreMem" where
  "ClaimParkedJob now s jobID =
     (case byID s jobID of None \<Rightarrow> (None, s)
      | Some j \<Rightarrow>
          if Job_Status j \<noteq> StatusParked \<and> Job_Status j \<noteq> StatusWaiting then (None, s)
          else
            (let s1 = (case waiting s jobID of None \<Rightarrow> s
                       | Some info \<Rightarrow>
                           s\<lparr>waiting := (waiting s)(jobID := None),
                             waitingByKey := (if WI_correlationKey info \<noteq> ''''
                               then (waitingByKey s)(WI_correlationKey info := None)
                               else waitingByKey s)\<rparr>);
                 j' = j\<lparr>Job_Status := StatusRunning, Job_UpdatedAt := now\<rparr>
             in (Some j', s1\<lparr>byID := (byID s)(jobID \<mapsto> j')\<rparr>)))"

subsection \<open>What the claim scan selects\<close>

abbreviation prio :: "(string \<rightharpoonup> Job) \<Rightarrow> string \<Rightarrow> int" where
  "prio m x \<equiv> Job_Priority (the (m x))"

text \<open>
  \<open>best_of m ok xs r\<close>: \<open>r\<close> is the first entry of maximal priority among the entries of
  \<open>xs\<close> that satisfy \<open>ok\<close>, with its priority and index; \<open>None\<close> if there is none.
\<close>

definition best_of ::
  "(string \<rightharpoonup> Job) \<Rightarrow> (string \<Rightarrow> bool) \<Rightarrow> string list \<Rightarrow> (string \<times> int \<times> nat) option \<Rightarrow> bool" where
  "best_of m ok xs r \<longleftrightarrow>
     (case r of None \<Rightarrow> (\<forall>k < length xs. \<not> ok (xs ! k))
      | Some (b, p, i) \<Rightarrow> i < length xs \<and> xs ! i = b \<and> ok b \<and> p = prio m b
          \<and> (\<forall>k < length xs. ok (xs ! k) \<longrightarrow> prio m (xs ! k) \<le> p \<and> (k < i \<longrightarrow> prio m (xs ! k) < p)))"

lemma best_of_snoc_skip: "best_of m ok xs r \<Longrightarrow> \<not> ok x \<Longrightarrow> best_of m ok (xs @ [x]) r"
  by (auto simp: best_of_def nth_append less_Suc_eq split: option.splits)

lemma best_of_snoc_first:
  "best_of m ok xs None \<Longrightarrow> ok x \<Longrightarrow> best_of m ok (xs @ [x]) (Some (x, prio m x, length xs))"
  by (auto simp: best_of_def nth_append less_Suc_eq split: option.splits)

lemma best_of_snoc_better:
  "best_of m ok xs (Some (b, p, i)) \<Longrightarrow> ok x \<Longrightarrow> p < prio m x \<Longrightarrow>
     best_of m ok (xs @ [x]) (Some (x, prio m x, length xs))"
  by (fastforce simp: best_of_def nth_append less_Suc_eq)

lemma best_of_snoc_worse:
  "best_of m ok xs (Some (b, p, i)) \<Longrightarrow> \<not> p < prio m x \<Longrightarrow> best_of m ok (xs @ [x]) (Some (b, p, i))"
  by (auto simp: best_of_def nth_append less_Suc_eq)

lemma claim_scan_best_of:
  "best_of m ok xs best \<Longrightarrow> best_of m ok (xs @ ys) (claim_scan m ok (length xs) ys best)"
proof (induction ys arbitrary: xs best)
  case Nil
  then show ?case by simp
next
  case (Cons y ys)
  define best' where "best' =
    (if \<not> ok y then best
     else case best of None \<Rightarrow> Some (y, prio m y, length xs)
       | Some (b, p, i) \<Rightarrow> if prio m y > p then Some (y, prio m y, length xs) else best)"
  have scan: "claim_scan m ok (length xs) (y # ys) best = claim_scan m ok (length (xs @ [y])) ys best'"
    by (auto simp: best'_def Let_def split: option.splits prod.splits)
  have "best_of m ok (xs @ [y]) best'"
    using Cons.prems unfolding best'_def
    by (auto intro: best_of_snoc_skip best_of_snoc_first best_of_snoc_better best_of_snoc_worse
        split: option.splits)
  then show ?case using Cons.IH [of "xs @ [y]" best'] by (simp only: scan append.assoc append.simps)
qed

lemma claim_scan_spec: "best_of m ok xs (claim_scan m ok 0 xs None)"
  using claim_scan_best_of [of m ok "[]" None xs] by (simp add: best_of_def)

lemma claimable_job:
  "claimable m q caps t x \<Longrightarrow> \<exists>j. m x = Some j \<and> Job_Status j = StatusPending"
  by (auto simp: claimable_def split: option.splits)

lemma claim_cases:
  obtains (none) "ClaimNextPendingForWorker now s q caps t = (None, s)"
      "\<forall>x \<in> set (pending s). \<not> claimable (byID s) q caps t x"
  | (some) x j i where "i < length (pending s)" "pending s ! i = x" "byID s x = Some j"
      "claimable (byID s) q caps t x"
      "\<forall>k < length (pending s). claimable (byID s) q caps t (pending s ! k) \<longrightarrow>
         prio (byID s) (pending s ! k) \<le> Job_Priority j
         \<and> (k < i \<longrightarrow> prio (byID s) (pending s ! k) < Job_Priority j)"
      "ClaimNextPendingForWorker now s q caps t =
         (Some (j\<lparr>Job_Status := StatusRunning, Job_UpdatedAt := now\<rparr>),
          s\<lparr>pending := remove_at i (pending s),
            byID := (byID s)(x \<mapsto> j\<lparr>Job_Status := StatusRunning, Job_UpdatedAt := now\<rparr>)\<rparr>)"
proof -
  let ?ok = "claimable (byID s) q caps t"
  let ?r = "claim_scan (byID s) ?ok 0 (pending s) None"
  have best: "best_of (byID s) ?ok (pending s) ?r" by (rule claim_scan_spec)
  show thesis
  proof (cases ?r)
    case None
    with best have "\<forall>x \<in> set (pending s). \<not> ?ok x" by (auto simp: best_of_def in_set_conv_nth)
    with None show thesis by (intro none) (simp_all add: ClaimNextPendingForWorker_def)
  next
    case (Some r)
    obtain x p i where r: "r = (x, p, i)" by (cases r)
    with best Some have *: "i < length (pending s)" "pending s ! i = x" "?ok x" "p = prio (byID s) x"
      "\<forall>k < length (pending s). ?ok (pending s ! k) \<longrightarrow> prio (byID s) (pending s ! k) \<le> p
         \<and> (k < i \<longrightarrow> prio (byID s) (pending s ! k) < p)"
      by (auto simp: best_of_def)
    from claimable_job [OF *(3)] obtain j where j: "byID s x = Some j" by blast
    show thesis
      by (rule some [of i x j])
        (use * j Some r in \<open>simp_all add: ClaimNextPendingForWorker_def Let_def\<close>)
  qed
qed

subsection \<open>Interleavings of store operations\<close>

datatype store_op =
    OCreate gotime string Job
  | OUpdateStatus gotime string JobStatus
  | OUpdateCursor gotime string string
  | OClaim gotime string "string list" string
  | OWaitNext gotime
  | ORequeue gotime "Job option"
  | ORequestCancel gotime string
  | OReclaim duration
  | OSetWaiting gotime gotime string string string string
  | OSetParked gotime gotime string string string string
  | OWakeup gotime string
  | OClaimParked gotime string

text \<open>One atomic operation: the job it hands to its caller, if any, and the new state.\<close>

fun apply_op :: "store_op \<Rightarrow> JobStoreMem \<Rightarrow> Job option \<times> JobStoreMem" where
  "apply_op (OCreate now uuid j) s = (None, snd (snd (Create now uuid s j)))"
| "apply_op (OUpdateStatus now x st) s = (None, UpdateStatus now s x st)"
| "apply_op (OUpdateCursor now x c) s = (None, UpdateCursor now s x c)"
| "apply_op (OClaim now q caps t) s = ClaimNextPendingForWorker now s q caps t"
| "apply_op (OWaitNext now) s = WaitNextPending now s"
| "apply_op (ORequeue now j) s = (None, Store_Requeue now s j)"
| "apply_op (ORequestCancel now x) s = (None, RequestCancel now s x)"
| "apply_op (OReclaim d) s = (None, snd (ReclaimOrphanedJobs s d))"
| "apply_op (OSetWaiting now now' x k w r) s = (None, SetWaiting now now' s x k w r)"
| "apply_op (OSetParked now now' x k w r) s = (None, SetParked now now' s x k w r)"
| "apply_op (OWakeup now k) s = (None, snd (WakeupJob now s k))"
| "apply_op (OClaimParked now x) s = ClaimParkedJob now s x"

fun run_ops :: "store_op list \<Rightarrow> JobStoreMem \<Rightarrow> JobStoreMem" where
  "run_ops [] s = s"
| "run_ops (op # ops) s = run_ops ops (snd (apply_op op s))"

lemmas store_op_defs =
  Create_def UpdateStatus_def UpdateCursor_def Store_Requeue_def RequestCancel_def
  ReclaimOrphanedJobs_def SetWaiting_def SetParked_def set_blocked_def Let_def

subsection \<open>Invariant\<close>

text \<open>
  Keys and records agree, and (\<open>no_lost\<close>) every pending job is in the queue, so that a
  claim can find it.
\<close>

definition store_wf :: "JobStoreMem \<Rightarrow> bool" where
  "store_wf s \<longleftrightarrow>
     (\<forall>x j. byID s x = Some j \<longrightarrow> Job_ID j = x)
     \<and> (\<forall>k info. waitingByKey s k = Some info \<longrightarrow> WI_correlationKey info = k \<and> k \<noteq> [])
     \<and> (\<forall>x info. waiting s x = Some info \<longrightarrow> WI_jobID info = x)"

definition no_lost :: "JobStoreMem \<Rightarrow> bool" where
  "no_lost s \<longleftrightarrow>
     (\<forall>x j. byID s x = Some j \<longrightarrow> Job_Status j = StatusPending \<longrightarrow> x \<in> set (pending s))"

definition enqueues :: "store_op \<Rightarrow> bool" where
  "enqueues op = (case op of OUpdateStatus _ _ st \<Rightarrow> st \<noteq> StatusPending | _ \<Rightarrow> True)"

lemma wait_pop_spec:
  "wait_pop m xs = (r, q) \<Longrightarrow>
     set q \<subseteq> set xs \<and>
     (case r of None \<Rightarrow> \<forall>x \<in> set xs. \<forall>j. m x = Some j \<longrightarrow> Job_Status j \<noteq> StatusPending
      | Some (x, j) \<Rightarrow> x \<in> set xs \<and> m x = Some j \<and> Job_Status j = StatusPending \<and>
          (\<forall>y \<in> set xs. y \<in> set q \<or> y = x \<or> (\<forall>j. m y = Some j \<longrightarrow> Job_Status j \<noteq> StatusPending)))"
proof (induction xs)
  case Nil
  then show ?case by auto
next
  case (Cons x xs)
  then show ?case by (fastforce split: option.splits if_splits prod.splits)
qed

lemma wait_next_cases:
  obtains (none) q where "WaitNextPending now s = (None, s\<lparr>pending := q\<rparr>)"
      "\<forall>x \<in> set (pending s). \<forall>j. byID s x = Some j \<longrightarrow> Job_Status j \<noteq> StatusPending"
  | (some) x j q where "byID s x = Some j" "Job_Status j = StatusPending"
      "\<forall>y \<in> set (pending s). y \<in> set q \<or> y = x \<or> (\<forall>j. byID s y = Some j \<longrightarrow> Job_Status j \<noteq> StatusPending)"
      "WaitNextPending now s =
         (Some (j\<lparr>Job_Status := StatusRunning, Job_UpdatedAt := now\<rparr>),
          s\<lparr>pending := q, byID := (byID s)(x \<mapsto> j\<lparr>Job_Status := StatusRunning, Job_UpdatedAt := now\<rparr>)\<rparr>)"
proof -
  obtain r q where p: "wait_pop (byID s) (pending s) = (r, q)" by fastforce
  note spec = wait_pop_spec [OF p]
  show thesis
  proof (cases r)
    case None
    with p spec show thesis by (intro none [of q]) (auto simp: WaitNextPending_def)
  next
    case (Some xj)
    obtain x j where "xj = (x, j)" by (cases xj)
    with p spec Some show thesis by (intro some [of x j q]) (auto simp: WaitNextPending_def Let_def)
  qed
qed

lemma claim_parked_cases:
  obtains (none) "ClaimParkedJob now s x = (None, s)"
  | (some) j s1 where "byID s x = Some j" "Job_Status j = StatusParked \<or> Job_Status j = StatusWaiting"
      "ClaimParkedJob now s x = (Some (j\<lparr>Job_Status := StatusRunning, Job_UpdatedAt := now\<rparr>),
         s1\<lparr>byID := (byID s)(x \<mapsto> j\<lparr>Job_Status := StatusRunning, Job_UpdatedAt := now\<rparr>)\<rparr>)"
      "pending s1 = pending s" "waiting s1 \<subseteq>\<^sub>m waiting s" "waitingByKey s1 \<subseteq>\<^sub>m waitingByKey s"
proof (cases "byID s x")
  case None
  then show thesis by (intro none) (simp add: ClaimParkedJob_def)
next
  case (Some j)
  show thesis
  proof (cases "Job_Status j = StatusParked \<or> Job_Status j = StatusWaiting")
    case False
    with Some show thesis by (intro none) (simp add: ClaimParkedJob_def)
  next
    case True
    let ?s1 = "case waiting s x of None \<Rightarrow> s
       | Some info \<Rightarrow> s\<lparr>waiting := (waiting s)(x := None),
           waitingByKey := (if WI_correlationKey info \<noteq> [] then (waitingByKey s)(WI_correlationKey info := None)
             else waitingByKey s)\<rparr>"
    from Some True show thesis
      by (intro some [of j ?s1])
        (auto simp: ClaimParkedJob_def Let_def map_le_def split: option.splits)
  qed
qed

lemma store_wf_ID: "store_wf s \<Longrightarrow> byID s x = Some j \<Longrightarrow> Job_ID j = x"
  by (simp add: store_wf_def)

text \<open>Handing a job out changes one record and may only drop registry entries.\<close>

lemma store_wf_upd:
  assumes wf: "store_wf s" and j: "byID s x = Some j" "Job_ID j' = Job_ID j"
    and le: "waiting s1 \<subseteq>\<^sub>m waiting s" "waitingByKey s1 \<subseteq>\<^sub>m waitingByKey s"
  shows "store_wf (s1\<lparr>byID := (byID s)(x \<mapsto> j')\<rparr>)"
proof -
  let ?s' = "s1\<lparr>byID := (byID s)(x \<mapsto> j')\<rparr>"
  have w: "WI_correlationKey info = k \<and> k \<noteq> []" if "waitingByKey s k = Some info" for k info
    using wf that by (simp add: store_wf_def)
  have w': "WI_jobID info = y" if "waiting s y = Some info" for y info
    using wf that by (simp add: store_wf_def)
  have "Job_ID j'' = y" if "byID ?s' y = Some j''" for y j''
    using that j store_wf_ID [OF wf j(1)] store_wf_ID [OF wf, of y j''] by (cases "y = x") simp_all
  moreover have "WI_correlationKey info = k \<and> k \<noteq> []" if "waitingByKey ?s' k = Some info" for k info
    using le(2) that by (intro w) (simp, metis domI map_le_def)
  moreover have "WI_jobID info = y" if "waiting ?s' y = Some info" for y info
    using le(1) that by (intro w') (simp, metis domI map_le_def)
  ultimately show ?thesis unfolding store_wf_def by blast
qed

lemma store_wf_pending: "store_wf s \<Longrightarrow> store_wf (s\<lparr>pending := q\<rparr>)"
  by (simp add: store_wf_def)

lemma apply_op_wf [inv_intro]:
  assumes wf: "store_wf s"
  shows "store_wf (snd (apply_op op s))"
proof (cases op)
  case (OClaim now q caps t)
  show ?thesis
  proof (rule claim_cases [of now s q caps t])
    fix x j i
    assume "byID s x = Some j" and "ClaimNextPendingForWorker now s q caps t =
         (Some (j\<lparr>Job_Status := StatusRunning, Job_UpdatedAt := now\<rparr>),
          s\<lparr>pending := remove_at i (pending s),
            byID := (byID s)(x \<mapsto> j\<lparr>Job_Status := StatusRunning, Job_UpdatedAt := now\<rparr>)\<rparr>)"
    then show ?thesis using store_wf_upd [OF wf, of x j _ "s\<lparr>pending := remove_at i (pending s)\<rparr>"] OClaim
      by simp
  qed (use wf OClaim in simp)
next
  case (OWaitNext now)
  show ?thesis
  proof (rule wait_next_cases [of now s])
    fix x j q
    assume "byID s x = Some j" and "WaitNextPending now s =
         (Some (j\<lparr>Job_Status := StatusRunning, Job_UpdatedAt := now\<rparr>),
          s\<lparr>pending := q, byID := (byID s)(x \<mapsto> j\<lparr>Job_Status := StatusRunning, Job_UpdatedAt := now\<rparr>)\<rparr>)"
    then show ?thesis using store_wf_upd [OF wf, of x j _ "s\<lparr>pending := q\<rparr>"] OWaitNext by simp
  qed (use wf OWaitNext store_wf_pending in simp)
next
  case (OClaimParked now x)
  show ?thesis
    by (rule claim_parked_cases [of now s x])
      (use wf OClaimParked in \<open>simp_all add: store_wf_upd [OF wf]\<close>)
next
  case (OWakeup now k)
  with wf show ?thesis
    by (auto simp: WakeupJob_def Let_def store_wf_def split: option.splits)
qed (use wf in \<open>auto simp: store_op_defs store_wf_def split: option.splits\<close>)

lemma apply_op_no_lost [inv_intro]:
  assumes wf: "store_wf s" and nl: "no_lost s" and enq: "enqueues op"
  shows "no_lost (snd (apply_op op s))"
proof (cases op)
  case (OClaim now q caps t)
  show ?thesis
  proof (rule claim_cases [of now s q caps t])
    fix x j i
    assume i: "i < length (pending s)" "pending s ! i = x" and eq: "ClaimNextPendingForWorker now s q caps t =
         (Some (j\<lparr>Job_Status := StatusRunning, Job_UpdatedAt := now\<rparr>),
          s\<lparr>pending := remove_at i (pending s),
            byID := (byID s)(x \<mapsto> j\<lparr>Job_Status := StatusRunning, Job_UpdatedAt := now\<rparr>)\<rparr>)"
    have "insert x (set (remove_at i (pending s))) = set (pending s)"
      using set_remove_at [OF i(1)] i(2) by simp
    with nl eq OClaim show ?thesis by (auto simp: no_lost_def)
  qed (use nl OClaim in \<open>simp add: no_lost_def\<close>)
next
  case (OWaitNext now)
  show ?thesis
    by (rule wait_next_cases [of now s]) (use nl OWaitNext in \<open>auto simp: no_lost_def\<close>)
next
  case (OClaimParked now x)
  show ?thesis
    by (rule claim_parked_cases [of now s x]) (use nl OClaimParked in \<open>auto simp: no_lost_def\<close>)
next
  case (OWakeup now k)
  with nl wf show ?thesis
    by (auto simp: WakeupJob_def Let_def no_lost_def store_wf_def split: option.splits)
qed (use nl enq in \<open>auto simp: store_op_defs no_lost_def enqueues_def split: option.splits\<close>)

lemma run_ops_wf [inv_intro]: "store_wf s \<Longrightarrow> store_wf (run_ops ops s)"
  by (induction ops arbitrary: s) (auto intro: apply_op_wf)

lemma run_ops_inv [inv_intro]:
  "store_wf s \<Longrightarrow> no_lost s \<Longrightarrow> list_all enqueues ops \<Longrightarrow> store_wf (run_ops ops s) \<and> no_lost (run_ops ops s)"
  by (induction ops arbitrary: s) (auto intro: inv_intro)

lemma NewJobStoreMem_inv [inv_intro]: "store_wf NewJobStoreMem" "no_lost NewJobStoreMem"
  by (simp_all add: store_wf_def no_lost_def NewJobStoreMem_def)

subsection \<open>Exclusive hand-out\<close>

text \<open>
  \<open>reopens x op s\<close>: the operation may make job \<open>x\<close> available again (create it, requeue
  it, wake it, or write a pending, waiting or parked status).
\<close>

fun reopens :: "string \<Rightarrow> store_op \<Rightarrow> JobStoreMem \<Rightarrow> bool" where
  "reopens x (OCreate now uuid j) s = (fst (Create now uuid s j) = x)"
| "reopens x (OUpdateStatus now y st) s =
     (y = x \<and> st \<in> {StatusPending, StatusWaiting, StatusParked})"
| "reopens x (ORequeue now j) s = (case j of None \<Rightarrow> False | Some j \<Rightarrow> Job_ID j = x)"
| "reopens x (OSetWaiting now now' y k w r) s = (y = x)"
| "reopens x (OSetParked now now' y k w r) s = (y = x)"
| "reopens x (OWakeup now k) s =
     (case waitingByKey s k of None \<Rightarrow> False | Some info \<Rightarrow> WI_jobID info = x)"
| "reopens x _ s = False"

fun quiet :: "string \<Rightarrow> store_op list \<Rightarrow> JobStoreMem \<Rightarrow> bool" where
  "quiet x [] s = True"
| "quiet x (op # ops) s = (\<not> reopens x op s \<and> quiet x ops (snd (apply_op op s)))"

definition busy :: "JobStoreMem \<Rightarrow> string \<Rightarrow> bool" where
  "busy s x \<longleftrightarrow>
     (case byID s x of None \<Rightarrow> False
      | Some j \<Rightarrow> Job_Status j \<notin> {StatusPending, StatusWaiting, StatusParked})"

lemma busyI: "byID s x = Some j \<Longrightarrow> Job_Status j \<notin> {StatusPending, StatusWaiting, StatusParked} \<Longrightarrow> busy s x"
  by (simp add: busy_def)

text \<open>The three operations that hand a job out do so only for a job that is not busy.\<close>

lemma handed_out:
  assumes "apply_op op s = (Some j, s')" and wf: "store_wf s"
  shows "\<not> busy s (Job_ID j)" and "byID s' (Job_ID j) = Some j" and "Job_Status j = StatusRunning"
    and "\<forall>y. y \<noteq> Job_ID j \<longrightarrow> byID s' y = byID s y"
proof -
  have "\<not> busy s (Job_ID j) \<and> byID s' (Job_ID j) = Some j \<and> Job_Status j = StatusRunning
    \<and> (\<forall>y. y \<noteq> Job_ID j \<longrightarrow> byID s' y = byID s y)"
  proof (cases op)
    case (OClaim now q caps t)
    show ?thesis
      by (rule claim_cases [of now s q caps t])
        (use assms OClaim in \<open>auto simp: busy_def store_wf_ID [OF wf] dest: claimable_job\<close>)
  next
    case (OWaitNext now)
    show ?thesis
      by (rule wait_next_cases [of now s])
        (use assms OWaitNext in \<open>auto simp: busy_def store_wf_ID [OF wf]\<close>)
  next
    case (OClaimParked now x)
    show ?thesis
      by (rule claim_parked_cases [of now s x])
        (use assms OClaimParked in \<open>auto simp: busy_def store_wf_ID [OF wf]\<close>)
  qed (use assms in \<open>simp_all\<close>)
  then show "\<not> busy s (Job_ID j)" and "byID s' (Job_ID j) = Some j" and "Job_Status j = StatusRunning"
    and "\<forall>y. y \<noteq> Job_ID j \<longrightarrow> byID s' y = byID s y" by auto
qed

lemma apply_op_busy:
  assumes wf: "store_wf s" and b: "busy s x" and nr: "\<not> reopens x op s"
  shows "busy (snd (apply_op op s)) x"
proof (cases "fst (apply_op op s)")
  case (Some j)
  then have "apply_op op s = (Some j, snd (apply_op op s))" by (metis prod.collapse)
  note ho = handed_out [OF this wf]
  show ?thesis using b ho(1,4) by (cases "x = Job_ID j") (auto simp: busy_def)
next
  case None
  show ?thesis
  proof (cases op)
    case (OClaim now q caps t)
    show ?thesis
      by (rule claim_cases [of now s q caps t]) (use b None OClaim in simp_all)
  next
    case (OWaitNext now)
    show ?thesis
      by (rule wait_next_cases [of now s]) (use b None OWaitNext in \<open>simp_all add: busy_def\<close>)
  next
    case (OClaimParked now y)
    show ?thesis
      by (rule claim_parked_cases [of now s y]) (use b None OClaimParked in simp_all)
  next
    case (OWakeup now k)
    with b nr show ?thesis by (auto simp: WakeupJob_def Let_def busy_def split: option.splits)
  next
    case (OCreate now uuid j)
    with b nr show ?thesis by (auto simp: Create_def Let_def busy_def split: option.splits)
  next
    case (ORequeue now j)
    with b nr show ?thesis by (cases j) (auto simp: Store_Requeue_def busy_def split: option.splits)
  qed (use b nr in \<open>auto simp: store_op_defs busy_def split: option.splits\<close>)
qed

lemma run_ops_busy:
  "store_wf s \<Longrightarrow> busy s x \<Longrightarrow> quiet x ops s \<Longrightarrow> busy (run_ops ops s) x \<and> store_wf (run_ops ops s)"
  by (induction ops arbitrary: s) (auto intro: apply_op_busy apply_op_wf)

text \<open>
  C8. A job is handed to one worker at a time: once an operation has handed job \<open>j\<close> out, then
  after any interleaving of store operations that does not put that job back (create, requeue,
  wake up, or write a pending, waiting or parked status), no claim of any kind returns it again.
\<close>

theorem claim_exclusive:
  assumes "store_wf s" and "apply_op op s = (Some j, s1)" and "quiet (Job_ID j) ops s1"
    and "apply_op op' (run_ops ops s1) = (Some j', s2)"
  shows "Job_ID j' \<noteq> Job_ID j"
proof -
  note ho = handed_out [OF assms(2,1)]
  have "store_wf s1" using apply_op_wf [OF assms(1), of op] assms(2) by simp
  moreover have "busy s1 (Job_ID j)" using ho(2,3) by (simp add: busy_def)
  ultimately have "busy (run_ops ops s1) (Job_ID j)" and "store_wf (run_ops ops s1)"
    using run_ops_busy assms(3) by blast+
  then show ?thesis using handed_out(1) [OF assms(4)] by metis
qed

subsection \<open>Liveness of claiming, and where it is lost\<close>

text \<open>
  C18. No pending job is stranded: in every state reached from an empty store by operations
  other than a direct \<open>UpdateStatus\<close> to Pending, if some job matches a worker's tenant, queue
  and capability filter, the worker's claim succeeds, returns a matching job of at least that
  priority, now Running, and takes one entry off the queue.
\<close>

theorem pending_job_is_claimed:
  assumes "list_all enqueues ops" and s: "s = run_ops ops NewJobStoreMem"
    and j: "byID s x = Some j" and ok: "claimable (byID s) q caps t x"
  shows "\<exists>j' s'. ClaimNextPendingForWorker now s q caps t = (Some j', s')
     \<and> claimable (byID s) q caps t (Job_ID j') \<and> Job_Priority j \<le> Job_Priority j'
     \<and> Job_Status j' = StatusRunning \<and> byID s' (Job_ID j') = Some j'
     \<and> Suc (length (pending s')) = length (pending s)"
proof -
  have inv: "store_wf s" "no_lost s"
    using run_ops_inv [OF NewJobStoreMem_inv assms(1)] s by auto
  have x: "x \<in> set (pending s)"
    using claimable_job [OF ok] j inv(2) by (auto simp: no_lost_def)
  show ?thesis
  proof (rule claim_cases [of now s q caps t])
    fix y j' i
    assume i: "i < length (pending s)" and j': "byID s y = Some j'"
      and y: "claimable (byID s) q caps t y"
      and best: "\<forall>k < length (pending s). claimable (byID s) q caps t (pending s ! k) \<longrightarrow>
         prio (byID s) (pending s ! k) \<le> Job_Priority j'
         \<and> (k < i \<longrightarrow> prio (byID s) (pending s ! k) < Job_Priority j')"
      and eq: "ClaimNextPendingForWorker now s q caps t =
         (Some (j'\<lparr>Job_Status := StatusRunning, Job_UpdatedAt := now\<rparr>),
          s\<lparr>pending := remove_at i (pending s),
            byID := (byID s)(y \<mapsto> j'\<lparr>Job_Status := StatusRunning, Job_UpdatedAt := now\<rparr>)\<rparr>)"
    from x obtain k where "k < length (pending s)" "pending s ! k = x" by (auto simp: in_set_conv_nth)
    with best ok j have "Job_Priority j \<le> Job_Priority j'" by force
    with i j' y eq store_wf_ID [OF inv(1) j'] length_remove_at [OF i] show ?thesis by auto
  qed (use x ok in blast)
qed

text \<open>
  A job whose status is written to Pending without being queued, as \<open>JobResume\<close> and the
  lease reclaimer do through \<open>UpdateStatus\<close>, is lost to this store: no claim, for any worker
  filter, no \<open>WaitNextPending\<close> and no \<open>ClaimParkedJob\<close> can return it from the new state.
\<close>

theorem unqueued_pending_job_is_lost:
  assumes wf: "store_wf s" and j: "byID s x = Some j" and nq: "x \<notin> set (pending s)"
  shows "Job_Status (the (byID (UpdateStatus now s x StatusPending) x)) = StatusPending
     \<and> (case fst (ClaimNextPendingForWorker now' (UpdateStatus now s x StatusPending) q caps t) of
          None \<Rightarrow> True | Some j' \<Rightarrow> Job_ID j' \<noteq> x)
     \<and> (case fst (WaitNextPending now' (UpdateStatus now s x StatusPending)) of
          None \<Rightarrow> True | Some j' \<Rightarrow> Job_ID j' \<noteq> x)
     \<and> fst (ClaimParkedJob now' (UpdateStatus now s x StatusPending) x) = None"
proof -
  let ?s = "UpdateStatus now s x StatusPending"
  have wf': "store_wf ?s" using apply_op_wf [OF wf, of "OUpdateStatus now x StatusPending"] by simp
  have nq': "x \<notin> set (pending ?s)" using nq j by (simp add: UpdateStatus_def)
  have "case fst (ClaimNextPendingForWorker now' ?s q caps t) of None \<Rightarrow> True | Some j' \<Rightarrow> Job_ID j' \<noteq> x"
  proof (rule claim_cases [of now' ?s q caps t])
    fix y j' i
    assume i: "i < length (pending ?s)" "pending ?s ! i = y" and j': "byID ?s y = Some j'"
      and eq: "ClaimNextPendingForWorker now' ?s q caps t =
         (Some (j'\<lparr>Job_Status := StatusRunning, Job_UpdatedAt := now'\<rparr>),
          ?s\<lparr>pending := remove_at i (pending ?s),
            byID := (byID ?s)(y \<mapsto> j'\<lparr>Job_Status := StatusRunning, Job_UpdatedAt := now'\<rparr>)\<rparr>)"
    have "y \<noteq> x" using nq' nth_mem [OF i(1)] i(2) by auto
    with eq store_wf_ID [OF wf' j'] show ?thesis by simp
  qed simp
  moreover have "case fst (WaitNextPending now' ?s) of None \<Rightarrow> True | Some j' \<Rightarrow> Job_ID j' \<noteq> x"
  proof (cases "fst (wait_pop (byID ?s) (pending ?s))")
    case None
    then show ?thesis by (auto simp: WaitNextPending_def split: prod.splits)
  next
    case (Some yj)
    obtain y j' q where p: "wait_pop (byID ?s) (pending ?s) = (Some (y, j'), q)"
      using Some by (cases yj) (metis prod.collapse)
    with wait_pop_spec [OF p] nq' have "y \<noteq> x" and "byID ?s y = Some j'" by auto
    with p store_wf_ID [OF wf'] show ?thesis by (simp add: WaitNextPending_def Let_def)
  qed
  moreover have "fst (ClaimParkedJob now' ?s x) = None"
    using j by (simp add: ClaimParkedJob_def UpdateStatus_def)
  ultimately show ?thesis using j by (simp add: UpdateStatus_def)
qed

subsection \<open>Waking by correlation key\<close>

text \<open>
  Parking a job under a key and signalling that key is a round trip: the signal returns the
  job, Pending, otherwise unchanged, at the tail of the queue, with both registry entries gone.
\<close>

theorem park_then_wakeup:
  assumes "byID s x = Some j" and "Job_ID j = x" and "k \<noteq> []"
  shows "WakeupJob now3 (SetParked now1 now2 s x k w r) k =
     (Some (j\<lparr>Job_Status := StatusPending, Job_UpdatedAt := now3\<rparr>),
      s\<lparr>byID := (byID s)(x \<mapsto> j\<lparr>Job_Status := StatusPending, Job_UpdatedAt := now3\<rparr>),
        pending := pending s @ [x],
        waiting := (waiting s)(x := None), waitingByKey := (waitingByKey s)(k := None)\<rparr>)"
  using assms by (simp add: SetParked_def set_blocked_def WakeupJob_def Let_def)

text \<open>Operations that leave the registry entry of key \<open>k\<close> alone.\<close>

definition keeps_key :: "string \<Rightarrow> store_op \<Rightarrow> bool" where
  "keeps_key k op =
     (case op of OUpdateStatus _ _ _ \<Rightarrow> True | OUpdateCursor _ _ _ \<Rightarrow> True | ORequestCancel _ _ \<Rightarrow> True
      | OSetWaiting _ _ _ k' _ _ \<Rightarrow> k' \<noteq> k | OSetParked _ _ _ k' _ _ \<Rightarrow> k' \<noteq> k | _ \<Rightarrow> False)"

lemma keeps_key_step:
  "keeps_key k op \<Longrightarrow> waitingByKey (snd (apply_op op s)) k = waitingByKey s k
     \<and> dom (byID (snd (apply_op op s))) = dom (byID s)"
  by (cases op) (auto simp: keeps_key_def store_op_defs split: option.splits)

lemma keeps_key_run:
  "list_all (keeps_key k) ops \<Longrightarrow> waitingByKey (run_ops ops s) k = waitingByKey s k
     \<and> dom (byID (run_ops ops s)) = dom (byID s)"
proof (induction ops arbitrary: s)
  case (Cons op ops)
  then show ?case using keeps_key_step [of k op s] by simp
qed simp

text \<open>
  The wake-up looks at the key alone, not at the job: after a job waited under key \<open>k\<close>,
  whatever statuses were written to it since (Completed and Cancelled included) and whatever
  other keys it waited under later, a signal with \<open>k\<close> still sets it to Pending and queues it.
\<close>

theorem wakeup_ignores_status_and_newer_waits:
  assumes "byID s x = Some j" and "k \<noteq> []" and "list_all (keeps_key k) ops"
    and "s' = run_ops ops (SetWaiting now1 now2 s x k w r)" and "store_wf s'"
  shows "\<exists>j' s''. WakeupJob now3 s' k = (Some j', s'') \<and> Job_ID j' = x
     \<and> Job_Status j' = StatusPending \<and> byID s'' x = Some j' \<and> pending s'' = pending s' @ [x]"
proof -
  let ?s1 = "SetWaiting now1 now2 s x k w r"
  have "waitingByKey s' k = waitingByKey ?s1 k" and "dom (byID s') = dom (byID ?s1)"
    using keeps_key_run [OF assms(3)] assms(4) by auto
  moreover have "x \<in> dom (byID ?s1)" and "\<exists>info. waitingByKey ?s1 k = Some info \<and> WI_jobID info = x"
    using assms(1,2) by (auto simp: SetWaiting_def set_blocked_def Let_def)
  ultimately obtain info j' where "waitingByKey s' k = Some info" "WI_jobID info = x" "byID s' x = Some j'"
    by (metis domD)
  with store_wf_ID [OF assms(5)] show ?thesis by (simp add: WakeupJob_def Let_def)
qed

subsection \<open>Concrete runs\<close>

text \<open>Two created jobs; the first is claimed, later parked under the key \<open>k\<close>.\<close>

definition ex_job :: "string \<Rightarrow> Job" where
  "ex_job x = NewJob 0 x ''agent'' ''tenant'' ''goal''"

definition ex_store :: JobStoreMem where
  "ex_store = run_ops [OCreate 1 ''u'' (ex_job ''a''), OCreate 2 ''u'' (ex_job ''b'')] NewJobStoreMem"

definition ex_parked :: JobStoreMem where
  "ex_parked = run_ops [OClaim 3 [] [] [], OSetParked 4 4 ''a'' ''k'' ''human'' ''approval''] ex_store"

lemma ex_store_wf: "store_wf ex_store"
  unfolding ex_store_def by (rule run_ops_wf [OF NewJobStoreMem_inv(1)])

lemma ex_parked_wf: "store_wf ex_parked"
  unfolding ex_parked_def by (rule run_ops_wf [OF ex_store_wf])

theorem claim_exclusive_witness:
  "Job_ID (the (fst (apply_op (OClaim 6 [] [] [])
       (run_ops [OUpdateCursor 5 ''a'' ''c''] (snd (apply_op (OClaim 3 [] [] []) ex_store))))))
   \<noteq> Job_ID (the (fst (apply_op (OClaim 3 [] [] []) ex_store)))"
proof (rule claim_exclusive [OF ex_store_wf])
  show "apply_op (OClaim 3 [] [] []) ex_store =
    (Some (the (fst (apply_op (OClaim 3 [] [] []) ex_store))), snd (apply_op (OClaim 3 [] [] []) ex_store))"
    by (rule some_result) code_simp
  show "quiet (Job_ID (the (fst (apply_op (OClaim 3 [] [] []) ex_store)))) [OUpdateCursor 5 ''a'' ''c'']
     (snd (apply_op (OClaim 3 [] [] []) ex_store))"
    by code_simp
qed (rule some_result, code_simp)

theorem pending_job_is_claimed_witness:
  "\<exists>j' s'. ClaimNextPendingForWorker 3 ex_store [] [] [] = (Some j', s')
     \<and> claimable (byID ex_store) [] [] [] (Job_ID j')
     \<and> Job_Priority (the (byID ex_store ''b'')) \<le> Job_Priority j'
     \<and> Job_Status j' = StatusRunning \<and> byID s' (Job_ID j') = Some j'
     \<and> Suc (length (pending s')) = length (pending ex_store)"
proof (rule pending_job_is_claimed [OF _ ex_store_def, where x = "''b''"])
  show "list_all enqueues [OCreate 1 ''u'' (ex_job ''a''), OCreate 2 ''u'' (ex_job ''b'')]"
    by code_simp
  show "byID ex_store ''b'' = Some (the (byID ex_store ''b''))" by code_simp
  show "claimable (byID ex_store) [] [] [] ''b''" by code_simp
qed

theorem unqueued_pending_job_is_lost_witness:
  "fst (ClaimParkedJob 6 (UpdateStatus 5 ex_parked ''a'' StatusPending) ''a'') = None
   \<and> Job_Status (the (byID (UpdateStatus 5 ex_parked ''a'' StatusPending) ''a'')) = StatusPending"
proof -
  have "byID ex_parked ''a'' = Some (the (byID ex_parked ''a''))" and "''a'' \<notin> set (pending ex_parked)"
    by code_simp+
  then show ?thesis
    using unqueued_pending_job_is_lost [OF ex_parked_wf, of "''a''" "the (byID ex_parked ''a'')" 5 6 "[]" "[]" "[]"]
    by blast
qed

theorem park_then_wakeup_witness:
  "fst (WakeupJob 9 (SetParked 7 8 ex_store ''a'' ''k'' ''human'' ''why'') ''k'')
     = Some ((ex_job ''a'')\<lparr>Job_Status := StatusPending, Job_CreatedAt := 1, Job_UpdatedAt := 9\<rparr>)"
proof -
  let ?j = "(ex_job ''a'')\<lparr>Job_CreatedAt := 1, Job_UpdatedAt := 1\<rparr>"
  have j: "byID ex_store ''a'' = Some ?j" "Job_ID ?j = ''a''"
    by (simp_all add: ex_store_def ex_job_def NewJob_def Create_def NewJobStoreMem_def Let_def)
  have "?j\<lparr>Job_Status := StatusPending, Job_UpdatedAt := 9\<rparr>
      = (ex_job ''a'')\<lparr>Job_Status := StatusPending, Job_CreatedAt := 1, Job_UpdatedAt := 9\<rparr>"
    by (simp add: ex_job_def NewJob_def)
  with park_then_wakeup [OF j, of "''k''" 9 7 8 "''human''" "''why''"] show ?thesis by simp
qed

theorem wakeup_ignores_status_and_newer_waits_witness:
  "\<exists>j' s''. WakeupJob 9 (run_ops [OSetWaiting 7 7 ''a'' ''k2'' ''signal'' ''r'', OUpdateStatus 8 ''a'' StatusCancelled]
        (SetWaiting 5 6 ex_store ''a'' ''k1'' ''signal'' ''r'')) ''k1'' = (Some j', s'')
     \<and> Job_ID j' = ''a'' \<and> Job_Status j' = StatusPending"
proof -
  let ?ops = "[OSetWaiting 7 7 ''a'' ''k2'' ''signal'' ''r'', OUpdateStatus 8 ''a'' StatusCancelled]"
  let ?s1 = "SetWaiting 5 6 ex_store ''a'' ''k1'' ''signal'' ''r''"
  have "byID ex_store ''a'' = Some (the (byID ex_store ''a''))" and "list_all (keeps_key ''k1'') ?ops"
    by code_simp+
  moreover have "store_wf (run_ops ?ops ?s1)"
    using apply_op_wf [OF ex_store_wf, of "OSetWaiting 5 6 ''a'' ''k1'' ''signal'' ''r''"]
    by (intro run_ops_wf) simp
  ultimately show ?thesis
    using wakeup_ignores_status_and_newer_waits
      [of ex_store "''a''" "the (byID ex_store ''a'')" "''k1''" ?ops _ 5 6 "''signal''" "''r''" 9]
    by blast
qed

end
