(* ===== verification/Event_Log.thy ===== *)
theory Event_Log
  imports Prelude
begin

text \<open>
  The contract of a versioned event stream: \<open>AppendEvent\<close> of the durability SDK's
  \<open>Store\<close> interface and \<open>Append\<close> of the runtime's \<open>JobStore\<close> interface.  An
  append carries the version its caller last saw; it extends the stream by one event or
  changes nothing.  The two stores interpret this locale, and what their clients rely on is
  proved here once.
\<close>

text \<open>A state change of the store: an append, or an operation that leaves the streams alone.\<close>

inductive log_step ::
  "('c \<Rightarrow> 's \<Rightarrow> string \<Rightarrow> int \<Rightarrow> 'e \<Rightarrow> ('err + int) \<times> 's) \<Rightarrow> ('s \<Rightarrow> 's \<Rightarrow> bool) \<Rightarrow> 's \<Rightarrow> 's \<Rightarrow> bool"
  for app other where
  ls_append: "log_step app other s (snd (app c s j v e))"
| ls_other: "other s s' \<Longrightarrow> log_step app other s s'"

locale versioned_log =
  fixes app :: "'c \<Rightarrow> 's \<Rightarrow> string \<Rightarrow> int \<Rightarrow> 'e \<Rightarrow> ('err + int) \<times> 's"
    and other :: "'s \<Rightarrow> 's \<Rightarrow> bool"
    and stream :: "'s \<Rightarrow> string \<Rightarrow> 'e list"
  assumes app_ok: "app c s j v e = (Inr n, s') \<Longrightarrow>
      v = int (length (stream s j)) \<and> n = v + 1 \<and> (\<exists>e'. stream s' j = stream s j @ [e'])"
    and app_err: "app c s j v e = (Inl x, s') \<Longrightarrow> stream s' j = stream s j"
    and app_frame: "j' \<noteq> j \<Longrightarrow> stream (snd (app c s j v e)) j' = stream s j'"
    and other_frame: "other s s' \<Longrightarrow> stream s' = stream s"
begin

lemma step_extends:
  assumes "log_step app other s s'"
  shows "\<exists>ys. stream s' j = stream s j @ ys"
  using assms
proof (cases rule: log_step.cases)
  case (ls_append c j' v e)
  show ?thesis
  proof (cases "j' = j")
    case True
    obtain r where r: "app c s j v e = (r, s')"
      using ls_append True by (metis prod.collapse)
    then show ?thesis using app_ok app_err by (cases r) fastforce+
  next
    case False
    then show ?thesis using ls_append app_frame by simp
  qed
next
  case ls_other
  then show ?thesis using other_frame by simp
qed

lemma run_extends: "(log_step app other)\<^sup>*\<^sup>* s s' \<Longrightarrow> \<exists>ys. stream s' j = stream s j @ ys"
proof (induction rule: rtranclp_induct)
  case base
  then show ?case by simp
next
  case (step y z)
  then show ?case using step_extends [of y z j] by fastforce
qed

text \<open>A version is won by one append: later appends that name it are refused.\<close>

lemma version_won_once:
  assumes "app c s j v e = (Inr n, s1)" and "(log_step app other)\<^sup>*\<^sup>* s1 s2"
  shows "\<not> is_ok (fst (app c' s2 j v e'))"
proof
  assume "is_ok (fst (app c' s2 j v e'))"
  then obtain n' s3 where "app c' s2 j v e' = (Inr n', s3)" by (metis is_ok_iff prod.collapse)
  from app_ok [OF this] have "v = int (length (stream s2 j))" by simp
  moreover have "int (length (stream s1 j)) = v + 1" using app_ok [OF assms(1)] by auto
  moreover obtain ys where "stream s2 j = stream s1 j @ ys" using run_extends [OF assms(2)] by blast
  ultimately show False by simp
qed

end

end
