(* ===== verification/Event_Store.thy ===== *)
theory Event_Store
  imports Job_Event Event_Log Go_Fmt Sha256
begin

text \<open>
  The runtime's in-memory event store, \<open>internal/runtime/jobstore/memory_store.go\<close>, with
  the attempt id of \<open>store.go\<close>: versioned append with lease fencing and a SHA-256 proof
  chain, claims with leases, heartbeats, and watcher channels.
\<close>

datatype JobStoreError = ErrNoJob | ErrVersionMismatch | ErrClaimNotFound | ErrStaleAttempt | ErrStaleLease

subsection \<open>Attempt id in the context\<close>

text \<open>A context is its values by key; a value is a string or something of another type.\<close>

datatype ctx_value = CtxString string | CtxOther

type_synonym go_context = "string \<rightharpoonup> ctx_value"

definition attemptIDContextKey :: string where
  "attemptIDContextKey = ''jobstore.attempt_id''"

definition WithAttemptID :: "go_context \<Rightarrow> string \<Rightarrow> go_context" where
  "WithAttemptID ctx attemptID = ctx(attemptIDContextKey \<mapsto> CtxString attemptID)"

text \<open>The outer \<open>None\<close> is a nil context.\<close>

definition AttemptIDFromContext :: "go_context option \<Rightarrow> string" where
  "AttemptIDFromContext ctx =
     (case ctx of None \<Rightarrow> ''''
      | Some c \<Rightarrow> (case c attemptIDContextKey of Some (CtxString s) \<Rightarrow> s | _ \<Rightarrow> ''''))"

subsection \<open>State\<close>

record claimRecord =
  CR_WorkerID :: string
  CR_ExpiresAt :: gotime
  CR_AttemptID :: string

definition leaseDuration :: duration where
  "leaseDuration = 30 * Second"

definition watchChanBuffer :: nat where
  "watchChanBuffer = 16"

text \<open>
  A buffered channel is its buffered values and whether it is closed; channels live in a
  heap, \<open>es_chans\<close>, and watchers are references into it.
\<close>

record chan =
  ch_buf :: "JobEvent list"
  ch_closed :: bool

record memoryStore =
  es_byJob :: "string \<rightharpoonup> JobEvent list"
  es_claims :: "string \<rightharpoonup> claimRecord"
  es_watchers :: "string \<rightharpoonup> nat list"
  es_chans :: "nat \<Rightarrow> chan"
  es_next :: nat

definition NewMemoryStore :: memoryStore where
  "NewMemoryStore = \<lparr>es_byJob = Map.empty, es_claims = Map.empty, es_watchers = Map.empty,
     es_chans = (\<lambda>_. \<lparr>ch_buf = [], ch_closed = False\<rparr>), es_next = 0\<rparr>"

text \<open>Indexing a Go map with an absent key gives the zero value, here the nil slice.\<close>

definition events_of :: "memoryStore \<Rightarrow> string \<Rightarrow> JobEvent list" where
  "events_of s jobID = (case es_byJob s jobID of None \<Rightarrow> [] | Some es \<Rightarrow> es)"

definition watchers_of :: "memoryStore \<Rightarrow> string \<Rightarrow> nat list" where
  "watchers_of s jobID = (case es_watchers s jobID of None \<Rightarrow> [] | Some cs \<Rightarrow> cs)"

definition ListEvents :: "memoryStore \<Rightarrow> string \<Rightarrow> JobEvent list \<times> int" where
  "ListEvents s jobID =
     (let events = events_of s jobID; version = length events
      in if version = 0 then ([], 0) else (events, int version))"

subsection \<open>Append\<close>

text \<open>The hashed text; \<open>off\<close> is the zone offset the process formats timestamps in.\<close>

definition mem_hash_input :: "int \<Rightarrow> string \<Rightarrow> EventType \<Rightarrow> bytes \<Rightarrow> gotime \<Rightarrow> string \<Rightarrow> bytes" where
  "mem_hash_input off jobID eventType payload timestamp prevHash =
     jobID @ ''|'' @ eventType @ ''|'' @ payload @ ''|'' @ rfc3339nano off timestamp @ ''|'' @ prevHash"

definition computeMemEventHash ::
  "int \<Rightarrow> string \<Rightarrow> EventType \<Rightarrow> bytes \<Rightarrow> gotime \<Rightarrow> string \<Rightarrow> string" where
  "computeMemEventHash off jobID eventType payload timestamp prevHash =
     sha256_hex (mem_hash_input off jobID eventType payload timestamp prevHash)"

text \<open>
  A non-blocking send to every watcher: a full channel is closed and dropped from the list.
  The channels in the list are open, so the send itself cannot panic.
\<close>

fun notify_chans :: "JobEvent \<Rightarrow> nat list \<Rightarrow> (nat \<Rightarrow> chan) \<Rightarrow> nat list \<times> (nat \<Rightarrow> chan)" where
  "notify_chans event [] h = ([], h)"
| "notify_chans event (c # cs) h =
     (if length (ch_buf (h c)) < watchChanBuffer
      then let (still, h') = notify_chans event cs (h(c := (h c)\<lparr>ch_buf := ch_buf (h c) @ [event]\<rparr>))
           in (c # still, h')
      else notify_chans event cs (h(c := (h c)\<lparr>ch_closed := True\<rparr>)))"

definition notifyWatchersLocked :: "memoryStore \<Rightarrow> string \<Rightarrow> JobEvent \<Rightarrow> memoryStore" where
  "notifyWatchersLocked s jobID event =
     (if watchers_of s jobID = [] then s
      else let (still, h) = notify_chans event (watchers_of s jobID) (es_chans s)
           in s\<lparr>es_watchers := (es_watchers s)(jobID \<mapsto> still), es_chans := h\<rparr>)"

text \<open>The first critical section of \<open>Append\<close>: the lease check, under the read lock.\<close>

definition append_fence ::
  "gotime \<Rightarrow> go_context option \<Rightarrow> memoryStore \<Rightarrow> string \<Rightarrow> JobStoreError option" where
  "append_fence now ctx s jobID =
     (if jobID = '''' then Some ErrVersionMismatch
      else let attemptID = AttemptIDFromContext ctx in
        if attemptID \<noteq> '''' then
          (case es_claims s jobID of None \<Rightarrow> Some ErrStaleAttempt
           | Some claim \<Rightarrow>
               if CR_ExpiresAt claim < now \<or> CR_AttemptID claim \<noteq> attemptID
               then Some ErrStaleAttempt else None)
        else None)"

text \<open>The second one, under the write lock, on the event with its id and timestamp filled in.\<close>

definition append_locked ::
  "gotime \<Rightarrow> string \<Rightarrow> int \<Rightarrow> memoryStore \<Rightarrow> string \<Rightarrow> int \<Rightarrow> JobEvent
     \<Rightarrow> (JobStoreError + int) \<times> memoryStore" where
  "append_locked now uuid off s jobID expectedVersion event =
     (let e1 = (if Ev_ID event = '''' then event\<lparr>Ev_ID := ''ev-'' @ uuid\<rparr> else event);
          e2 = e1\<lparr>Ev_JobID := jobID\<rparr>;
          e3 = (if Ev_CreatedAt e2 = zero_time then e2\<lparr>Ev_CreatedAt := now\<rparr> else e2);
          current = events_of s jobID
      in if int (length current) \<noteq> expectedVersion then (Inl ErrVersionMismatch, s)
         else
           (let prevHash = (if expectedVersion > 0 \<and> length current > 0 then Ev_Hash (last current) else '''');
                e4 = e3\<lparr>Ev_PrevHash := prevHash,
                        Ev_Hash := computeMemEventHash off jobID (Ev_Type e3) (Ev_Payload e3)
                          (Ev_CreatedAt e3) prevHash\<rparr>;
                s1 = s\<lparr>es_byJob := (es_byJob s)(jobID \<mapsto> current @ [e4])\<rparr>
            in (Inr (int (length (current @ [e4]))), notifyWatchersLocked s1 jobID e4)))"

text \<open>What a call brings from outside: two clock readings, a uuid, the zone, the context.\<close>

record append_env =
  env_now1 :: gotime
  env_now2 :: gotime
  env_uuid :: string
  env_zone :: int
  env_ctx :: "go_context option"

definition Append ::
  "append_env \<Rightarrow> memoryStore \<Rightarrow> string \<Rightarrow> int \<Rightarrow> JobEvent \<Rightarrow> (JobStoreError + int) \<times> memoryStore" where
  "Append env s jobID expectedVersion event =
     (case append_fence (env_now1 env) (env_ctx env) s jobID of
        Some err \<Rightarrow> (Inl err, s)
      | None \<Rightarrow> append_locked (env_now2 env) (env_uuid env) (env_zone env) s jobID expectedVersion event)"

subsection \<open>Claims and leases\<close>

abbreviation terminal_type :: "EventType \<Rightarrow> bool" where
  "terminal_type t \<equiv> t = JobCompleted \<or> t = JobFailed \<or> t = JobCancelled"

text \<open>\<open>Claim\<close> ranges over the job map in the order given by its first argument.\<close>

fun claim_loop :: "string list \<Rightarrow> memoryStore \<Rightarrow> gotime \<Rightarrow> string option" where
  "claim_loop [] s now = None"
| "claim_loop (jobID # ids) s now =
     (let events = events_of s jobID in
      if events = [] then claim_loop ids s now
      else if terminal_type (Ev_Type (last events)) then claim_loop ids s now
      else (case es_claims s jobID of
              Some claim \<Rightarrow> if CR_ExpiresAt claim > now then claim_loop ids s now else Some jobID
            | None \<Rightarrow> Some jobID))"

definition Claim ::
  "string list \<Rightarrow> gotime \<Rightarrow> string \<Rightarrow> memoryStore \<Rightarrow> string
     \<Rightarrow> (JobStoreError + string \<times> int \<times> string) \<times> memoryStore" where
  "Claim order now uuid s workerID =
     (let attemptID = ''attempt-'' @ uuid in
      case claim_loop order s now of
        None \<Rightarrow> (Inl ErrNoJob, s)
      | Some jobID \<Rightarrow>
          (Inr (jobID, int (length (events_of s jobID)), attemptID),
           s\<lparr>es_claims := (es_claims s)(jobID \<mapsto>
              \<lparr>CR_WorkerID = workerID, CR_ExpiresAt = now + leaseDuration, CR_AttemptID = attemptID\<rparr>)\<rparr>))"

definition ClaimJob ::
  "gotime \<Rightarrow> string \<Rightarrow> memoryStore \<Rightarrow> string \<Rightarrow> string
     \<Rightarrow> (JobStoreError + int \<times> string) \<times> memoryStore" where
  "ClaimJob now uuid s workerID jobID =
     (let events = events_of s jobID in
      if events = [] then (Inl ErrNoJob, s)
      else if terminal_type (Ev_Type (last events)) then (Inl ErrNoJob, s)
      else (case es_claims s jobID of
              Some claim \<Rightarrow>
                if CR_ExpiresAt claim > now then (Inl ErrClaimNotFound, s)
                else (Inr (int (length events), ''attempt-'' @ uuid),
                      s\<lparr>es_claims := (es_claims s)(jobID \<mapsto> \<lparr>CR_WorkerID = workerID,
                          CR_ExpiresAt = now + leaseDuration, CR_AttemptID = ''attempt-'' @ uuid\<rparr>)\<rparr>)
            | None \<Rightarrow> (Inr (int (length events), ''attempt-'' @ uuid),
                      s\<lparr>es_claims := (es_claims s)(jobID \<mapsto> \<lparr>CR_WorkerID = workerID,
                          CR_ExpiresAt = now + leaseDuration, CR_AttemptID = ''attempt-'' @ uuid\<rparr>)\<rparr>)))"

definition Heartbeat ::
  "gotime \<Rightarrow> gotime \<Rightarrow> memoryStore \<Rightarrow> string \<Rightarrow> string \<Rightarrow> JobStoreError option \<times> memoryStore" where
  "Heartbeat now now' s workerID jobID =
     (case es_claims s jobID of None \<Rightarrow> (Some ErrClaimNotFound, s)
      | Some claim \<Rightarrow>
          if CR_WorkerID claim \<noteq> workerID \<or> CR_ExpiresAt claim < now then (Some ErrClaimNotFound, s)
          else (None, s\<lparr>es_claims := (es_claims s)(jobID \<mapsto> \<lparr>CR_WorkerID = workerID,
                  CR_ExpiresAt = now' + leaseDuration, CR_AttemptID = CR_AttemptID claim\<rparr>)\<rparr>))"

definition GetCurrentAttemptID :: "gotime \<Rightarrow> memoryStore \<Rightarrow> string \<Rightarrow> string" where
  "GetCurrentAttemptID now s jobID =
     (case es_claims s jobID of None \<Rightarrow> ''''
      | Some claim \<Rightarrow> if CR_ExpiresAt claim < now then '''' else CR_AttemptID claim)"

definition ListJobIDsWithExpiredClaim :: "string list \<Rightarrow> gotime \<Rightarrow> memoryStore \<Rightarrow> string list" where
  "ListJobIDsWithExpiredClaim order now s =
     filter (\<lambda>jobID. case es_claims s jobID of None \<Rightarrow> False
        | Some claim \<Rightarrow> CR_ExpiresAt claim < now \<or> CR_ExpiresAt claim = now) order"

subsection \<open>Watching\<close>

definition Watch :: "memoryStore \<Rightarrow> string \<Rightarrow> nat \<times> memoryStore" where
  "Watch s jobID =
     (let ch = es_next s in
      (ch, s\<lparr>es_watchers := (es_watchers s)(jobID \<mapsto> watchers_of s jobID @ [ch]),
             es_chans := (es_chans s)(ch := \<lparr>ch_buf = [], ch_closed = False\<rparr>), es_next := Suc ch\<rparr>))"

text \<open>
  The goroutine \<open>Watch\<close> leaves behind, run when the watcher's context is done: it removes
  the channel from the list if it is there, and closes it.  Closing a closed channel is a
  run-time panic in Go: \<open>None\<close>.
\<close>

definition watch_done :: "memoryStore \<Rightarrow> string \<Rightarrow> nat \<Rightarrow> memoryStore option" where
  "watch_done s jobID ch =
     (let chans = watchers_of s jobID;
          s1 = (if ch \<in> set chans
                then let rest = remove1 ch chans in
                  s\<lparr>es_watchers := (es_watchers s)(jobID := (if rest = [] then None else Some rest))\<rparr>
                else s)
      in if ch_closed (es_chans s1 ch) then None
         else Some (s1\<lparr>es_chans := (es_chans s1)(ch := (es_chans s1 ch)\<lparr>ch_closed := True\<rparr>)\<rparr>))"

text \<open>A watcher takes the oldest buffered event.\<close>

definition watch_recv :: "memoryStore \<Rightarrow> nat \<Rightarrow> JobEvent option \<times> memoryStore" where
  "watch_recv s ch =
     (case ch_buf (es_chans s ch) of [] \<Rightarrow> (None, s)
      | e # es \<Rightarrow> (Some e, s\<lparr>es_chans := (es_chans s)(ch := (es_chans s ch)\<lparr>ch_buf := es\<rparr>)\<rparr>))"

subsection \<open>Snapshots\<close>

text \<open>The memory store keeps no snapshots: the three methods accept their arguments and do nothing.\<close>

definition CreateSnapshot :: "memoryStore \<Rightarrow> string \<Rightarrow> int \<Rightarrow> bytes \<Rightarrow> JobStoreError option \<times> memoryStore" where
  "CreateSnapshot s jobID upToVersion snapshot = (None, s)"

definition GetLatestSnapshot :: "memoryStore \<Rightarrow> string \<Rightarrow> bytes option" where
  "GetLatestSnapshot s jobID = None"

definition DeleteSnapshotsBefore :: "memoryStore \<Rightarrow> string \<Rightarrow> int \<Rightarrow> JobStoreError option \<times> memoryStore" where
  "DeleteSnapshotsBefore s jobID beforeVersion = (None, s)"

section \<open>The store keeps the versioned-log contract\<close>

lemma notify_frame [simp]:
  "es_byJob (notifyWatchersLocked s j e) = es_byJob s"
  "es_claims (notifyWatchersLocked s j e) = es_claims s"
  "es_next (notifyWatchersLocked s j e) = es_next s"
  by (auto simp: notifyWatchersLocked_def split: prod.splits)

lemma notify_events [simp]: "events_of (notifyWatchersLocked s j e) = events_of s"
  by (rule ext) (simp add: events_of_def)

text \<open>What a successful append stores, and what it leaves alone.\<close>

lemma append_locked_ok:
  assumes "append_locked now uuid off s j v ev = (Inr n, s')"
  obtains e where "v = int (length (events_of s j))" "n = v + 1"
    "events_of s' j = events_of s j @ [e]" "\<forall>j'. j' \<noteq> j \<longrightarrow> events_of s' j' = events_of s j'"
    "es_claims s' = es_claims s" "Ev_JobID e = j" "Ev_Type e = Ev_Type ev" "Ev_Payload e = Ev_Payload ev"
    "Ev_PrevHash e = (if events_of s j = [] then [] else Ev_Hash (last (events_of s j)))"
    "Ev_Hash e = computeMemEventHash off j (Ev_Type e) (Ev_Payload e) (Ev_CreatedAt e) (Ev_PrevHash e)"
proof -
  let ?e1 = "if Ev_ID ev = [] then ev\<lparr>Ev_ID := ''ev-'' @ uuid\<rparr> else ev"
  let ?e2 = "?e1\<lparr>Ev_JobID := j\<rparr>"
  let ?e3 = "if Ev_CreatedAt ?e2 = 0 then ?e2\<lparr>Ev_CreatedAt := now\<rparr> else ?e2"
  let ?prev = "if events_of s j = [] then [] else Ev_Hash (last (events_of s j))"
  let ?e = "?e3\<lparr>Ev_PrevHash := ?prev, Ev_Hash := computeMemEventHash off j (Ev_Type ?e3) (Ev_Payload ?e3)
    (Ev_CreatedAt ?e3) ?prev\<rparr>"
  let ?s1 = "s\<lparr>es_byJob := (es_byJob s)(j \<mapsto> events_of s j @ [?e])\<rparr>"
  from assms have v: "v = int (length (events_of s j))" and eq: "n = v + 1" "s' = notifyWatchersLocked ?s1 j ?e"
    by (auto simp: append_locked_def Let_def split: if_splits)
  have ev: "events_of ?s1 j = events_of s j @ [?e]" "\<forall>j'. j' \<noteq> j \<longrightarrow> events_of ?s1 j' = events_of s j'"
    by (simp_all add: events_of_def)
  show thesis
    by (rule that [of ?e], fact v, fact eq(1)) (use ev in \<open>auto simp: eq(2)\<close>)
qed

lemma append_locked_err: "append_locked now uuid off s j v ev = (Inl x, s') \<Longrightarrow> s' = s \<and> x = ErrVersionMismatch"
  by (auto simp: append_locked_def Let_def split: if_splits)

lemma Append_ok:
  "Append env s j v ev = (Inr n, s') \<Longrightarrow>
     append_fence (env_now1 env) (env_ctx env) s j = None
     \<and> append_locked (env_now2 env) (env_uuid env) (env_zone env) s j v ev = (Inr n, s')"
  by (auto simp: Append_def split: option.splits)

lemma Append_err: "Append env s j v ev = (Inl x, s') \<Longrightarrow> s' = s"
  by (auto simp: Append_def dest: append_locked_err split: option.splits)

lemma Append_frame: "j' \<noteq> j \<Longrightarrow> events_of (snd (Append env s j v ev)) j' = events_of s j'"
proof (cases "Append env s j v ev")
  case (Pair r s')
  assume "j' \<noteq> j"
  show ?thesis
  proof (cases r)
    case (Inl x)
    with Pair Append_err [of env s j v ev x s'] show ?thesis by simp
  next
    case (Inr n)
    with Pair Append_ok have "append_locked (env_now2 env) (env_uuid env) (env_zone env) s j v ev = (Inr n, s')"
      by blast
    then show ?thesis by (rule append_locked_ok) (use Pair \<open>j' \<noteq> j\<close> in simp)
  qed
qed

text \<open>The operations that do not append.\<close>

inductive store_other :: "memoryStore \<Rightarrow> memoryStore \<Rightarrow> bool" where
  so_claim: "store_other s (snd (Claim order now uuid s w))"
| so_claim_job: "store_other s (snd (ClaimJob now uuid s w j))"
| so_heartbeat: "store_other s (snd (Heartbeat now now' s w j))"
| so_watch: "store_other s (snd (Watch s j))"
| so_watch_done: "watch_done s j ch = Some s' \<Longrightarrow> store_other s s'"
| so_recv: "store_other s (snd (watch_recv s ch))"
| so_snapshot: "store_other s (snd (CreateSnapshot s j v b))"
| so_delete_snapshots: "store_other s (snd (DeleteSnapshotsBefore s j v))"

inductive_cases store_otherE: "store_other s s'"

lemmas lease_defs = Claim_def ClaimJob_def Heartbeat_def
lemmas watch_defs = Watch_def watch_done_def watch_recv_def CreateSnapshot_def DeleteSnapshotsBefore_def

lemma store_other_byJob: "store_other s s' \<Longrightarrow> es_byJob s' = es_byJob s"
  by (erule store_otherE)
    (auto simp: lease_defs watch_defs Let_def split: option.splits list.splits if_splits)

lemma store_other_events: "store_other s s' \<Longrightarrow> events_of s' = events_of s"
  by (rule ext) (simp add: events_of_def store_other_byJob)

interpretation mem_log: versioned_log Append store_other events_of
proof
  show "v = int (length (events_of s j)) \<and> n = v + 1 \<and> (\<exists>e'. events_of s' j = events_of s j @ [e'])"
    if "Append c s j v e = (Inr n, s')" for c s j v e n s'
    using Append_ok [OF that] append_locked_ok by blast
  show "events_of s' j = events_of s j" if "Append c s j v e = (Inl x, s')" for c s j v e x s'
    using Append_err [OF that] by simp
qed (simp_all add: Append_frame store_other_events)

text \<open>
  C12. Optimistic concurrency of the event store: when an append at version \<open>v\<close> of a job has
  succeeded, every later append that names the same version of that job is refused, whatever
  appends, claims, heartbeats and watches ran in between, and the stream the first writer saw
  is a prefix of every later stream.
\<close>

theorem append_version_won_once:
  assumes "Append env s j v ev = (Inr n, s1)" and "(log_step Append store_other)\<^sup>*\<^sup>* s1 s2"
  shows "\<not> is_ok (fst (Append env' s2 j v ev'))
    \<and> (\<exists>ys. fst (ListEvents s2 j) = fst (ListEvents s j) @ ys \<and> ys \<noteq> [])"
proof -
  have "\<not> is_ok (fst (Append env' s2 j v ev'))" by (rule mem_log.version_won_once [OF assms])
  moreover obtain e where "events_of s1 j = events_of s j @ [e]" using mem_log.app_ok [OF assms(1)] by blast
  moreover obtain ys where "events_of s2 j = events_of s1 j @ ys"
    using mem_log.run_extends [OF assms(2)] by blast
  moreover have "fst (ListEvents s' j) = events_of s' j" for s' by (simp add: ListEvents_def Let_def)
  ultimately show ?thesis by simp
qed

section \<open>Leases fence writers\<close>

text \<open>The fence, as its caller reads it.\<close>

lemma append_fence_attempt:
  "append_fence now ctx s j = None \<Longrightarrow> AttemptIDFromContext ctx = a \<Longrightarrow> a \<noteq> [] \<Longrightarrow>
     \<exists>claim. es_claims s j = Some claim \<and> CR_AttemptID claim = a \<and> now \<le> CR_ExpiresAt claim"
  by (auto simp: append_fence_def Let_def split: option.splits if_splits)

text \<open>An operation that cannot give attempt \<open>a\<close> the lease of job \<open>j\<close>.\<close>

inductive unrelated_to_attempt :: "string \<Rightarrow> string \<Rightarrow> memoryStore \<Rightarrow> memoryStore \<Rightarrow> bool"
  for a j where
  ua_append: "unrelated_to_attempt a j s (snd (Append env s j' v ev))"
| ua_claim: "''attempt-'' @ uuid \<noteq> a \<Longrightarrow> unrelated_to_attempt a j s (snd (Claim order now uuid s w))"
| ua_claim_job: "''attempt-'' @ uuid \<noteq> a \<Longrightarrow> unrelated_to_attempt a j s (snd (ClaimJob now uuid s w j'))"
| ua_heartbeat: "unrelated_to_attempt a j s (snd (Heartbeat now now' s w j'))"
| ua_watch: "unrelated_to_attempt a j s (snd (Watch s j'))"

definition holds_lease :: "memoryStore \<Rightarrow> string \<Rightarrow> string \<Rightarrow> bool" where
  "holds_lease s j a \<longleftrightarrow> (\<exists>claim. es_claims s j = Some claim \<and> CR_AttemptID claim = a)"

lemma Append_claims: "es_claims (snd (Append env s j v ev)) = es_claims s"
proof (cases "Append env s j v ev")
  case (Pair r s')
  then show ?thesis
    using Append_err Append_ok append_locked_ok by (cases r) (metis snd_conv)+
qed

lemma unrelated_keeps_out:
  assumes "unrelated_to_attempt a j s s'" and "\<not> holds_lease s j a"
  shows "\<not> holds_lease s' j a"
  using assms
  by (cases rule: unrelated_to_attempt.cases)
    (auto simp: holds_lease_def Append_claims lease_defs Watch_def Let_def split: option.splits if_splits)

text \<open>
  C15. A writer that lost its lease stays out: if the lease of a job is not held by attempt
  \<open>a\<close>, then after any sequence of appends, heartbeats, watches and claims under fresh attempt
  ids, every append that carries \<open>a\<close> is refused with \<open>ErrStaleAttempt\<close> and stores nothing.
\<close>

theorem stale_attempt_stays_fenced:
  assumes "\<not> holds_lease s j a" and "(unrelated_to_attempt a j)\<^sup>*\<^sup>* s s'"
    and "AttemptIDFromContext (env_ctx env) = a" and "a \<noteq> []" and "j \<noteq> []"
  shows "Append env s' j v ev = (Inl ErrStaleAttempt, s')"
proof -
  have "\<not> holds_lease s' j a" using assms(2,1)
    by (induction rule: rtranclp_induct) (auto dest: unrelated_keeps_out)
  with assms(3-5) show ?thesis
    by (auto simp: Append_def append_fence_def holds_lease_def Let_def split: option.splits)
qed

text \<open>
  Leases exclude: a claim of a job succeeds only when no unexpired lease on it exists and
  its last event is not terminal; the winner then holds the lease for \<open>leaseDuration\<close>, under a
  new attempt id, and is the current attempt of \<open>GetCurrentAttemptID\<close> until that time.
\<close>

theorem claim_job_takes_free_lease:
  assumes "ClaimJob now uuid s w j = (Inr (n, a), s')"
  shows "(\<forall>claim. es_claims s j = Some claim \<longrightarrow> CR_ExpiresAt claim \<le> now)
     \<and> \<not> terminal_type (Ev_Type (last (events_of s j)))
     \<and> n = int (length (events_of s j)) \<and> 0 < n \<and> a = ''attempt-'' @ uuid
     \<and> (\<forall>t. t \<le> now + leaseDuration \<longrightarrow> GetCurrentAttemptID t s' j = a)
     \<and> (\<forall>t w' uuid'. now < t \<and> t < now + leaseDuration \<longrightarrow>
          fst (ClaimJob t uuid' s' w' j) = Inl ErrClaimNotFound)"
  using assms
  by (auto simp: ClaimJob_def GetCurrentAttemptID_def events_of_def Let_def split: option.splits if_splits)

text \<open>
  The fence and the append are two critical sections: when another worker's claim falls
  between them, the old attempt's event is still stored, although the new attempt already holds
  the lease.  Only the version check is left: once the new holder has appended first, the old
  attempt's event is refused.
\<close>

theorem fence_and_append_are_not_atomic:
  assumes "append_fence now1 ctx s j = None" and "AttemptIDFromContext ctx = a"
    and "a \<noteq> ''attempt-'' @ uuid" and claim: "ClaimJob now2 uuid s w j = (Inr (n, b), s1)"
  shows "\<exists>m s2. append_locked now3 uuid' off s1 j n ev = (Inr m, s2)
       \<and> length (events_of s2 j) = Suc (length (events_of s j))
       \<and> GetCurrentAttemptID now2 s2 j = b \<and> b \<noteq> a
       \<and> fst (append_locked now4 uuid'' off s2 j n ev') = Inl ErrVersionMismatch"
proof -
  have b: "b = ''attempt-'' @ uuid" and n: "n = int (length (events_of s1 j))"
    and ev: "events_of s1 j = events_of s j" and cur: "GetCurrentAttemptID now2 s1 j = b"
    using claim
    by (auto simp: ClaimJob_def GetCurrentAttemptID_def leaseDuration_def events_of_def Let_def
        split: option.splits if_splits)
  obtain m s2 where ok: "append_locked now3 uuid' off s1 j n ev = (Inr m, s2)"
    using n by (simp add: append_locked_def Let_def)
  then obtain e where e: "events_of s2 j = events_of s1 j @ [e]" "es_claims s2 = es_claims s1"
    by (rule append_locked_ok)
  have "fst (append_locked now4 uuid'' off s2 j n ev') = Inl ErrVersionMismatch"
    using e(1) n by (simp add: append_locked_def Let_def)
  moreover have "GetCurrentAttemptID now2 s2 j = b" using cur e(2) by (simp add: GetCurrentAttemptID_def)
  ultimately show ?thesis using ok e(1) ev assms(3) b by auto
qed

section \<open>Watcher channels\<close>

definition delivered :: "JobEvent \<Rightarrow> chan \<Rightarrow> chan" where
  "delivered e ch = (if length (ch_buf ch) < watchChanBuffer then ch\<lparr>ch_buf := ch_buf ch @ [e]\<rparr>
     else ch\<lparr>ch_closed := True\<rparr>)"

lemma notify_chans_closed_form:
  "distinct cs \<Longrightarrow> notify_chans e cs h =
     (filter (\<lambda>c. length (ch_buf (h c)) < watchChanBuffer) cs,
      \<lambda>c. if c \<in> set cs then delivered e (h c) else h c)"
proof (induction cs arbitrary: h)
  case Nil
  then show ?case by simp
next
  case (Cons d cs)
  let ?h1 = "h(d := delivered e (h d))"
  have d: "distinct cs" using Cons.prems by simp
  have f: "filter (\<lambda>c. length (ch_buf (?h1 c)) < watchChanBuffer) cs
      = filter (\<lambda>c. length (ch_buf (h c)) < watchChanBuffer) cs"
    using Cons.prems by (intro filter_cong) auto
  have g: "(\<lambda>c. if c \<in> set cs then delivered e (?h1 c) else ?h1 c)
      = (\<lambda>c. if c \<in> set (d # cs) then delivered e (h c) else h c)"
    using Cons.prems by (intro ext) auto
  have "notify_chans e cs ?h1 = (filter (\<lambda>c. length (ch_buf (h c)) < watchChanBuffer) cs,
      \<lambda>c. if c \<in> set (d # cs) then delivered e (h c) else h c)"
    by (subst Cons.IH [OF d]) (simp only: f g)
  then show ?case
    by (cases "length (ch_buf (h d)) < watchChanBuffer") (simp_all add: delivered_def)
qed

text \<open>Watcher lists are duplicate-free references to allocated channels.\<close>

definition watch_wf :: "memoryStore \<Rightarrow> bool" where
  "watch_wf s \<longleftrightarrow> (\<forall>j. distinct (watchers_of s j) \<and> (\<forall>c \<in> set (watchers_of s j). c < es_next s))"

text \<open>Appending a list of events one after the other, each at the current version, with no attempt id.\<close>

fun append_all :: "(append_env \<times> JobEvent) list \<Rightarrow> string \<Rightarrow> memoryStore \<Rightarrow> memoryStore" where
  "append_all [] j s = s"
| "append_all ((env, ev) # xs) j s =
     append_all xs j (snd (Append env s j (int (length (events_of s j))) ev))"

lemma append_now_chan:
  assumes "AttemptIDFromContext (env_ctx env) = []" and "j \<noteq> []" and "watch_wf s"
    and s': "s' = snd (Append env s j (int (length (events_of s j))) ev)"
  obtains e where "watch_wf s'" "es_next s' = es_next s"
    "watchers_of s' j = filter (\<lambda>c. length (ch_buf (es_chans s c)) < watchChanBuffer) (watchers_of s j)"
    "\<forall>c. es_chans s' c = (if c \<in> set (watchers_of s j) then delivered e (es_chans s c) else es_chans s c)"
proof -
  let ?cs = "watchers_of s j"
  obtain e s1 where s1: "s' = notifyWatchersLocked s1 j e" "es_watchers s1 = es_watchers s"
    "es_chans s1 = es_chans s" "es_next s1 = es_next s"
    using assms(1,2) unfolding s' by (simp add: Append_def append_fence_def append_locked_def Let_def)
  have d: "distinct ?cs" using assms(3) by (simp add: watch_wf_def)
  have w: "watchers_of s1 = watchers_of s" by (rule ext) (simp add: watchers_of_def s1)
  have "watchers_of s' j = filter (\<lambda>c. length (ch_buf (es_chans s c)) < watchChanBuffer) ?cs"
    and "\<forall>j'. j' \<noteq> j \<longrightarrow> watchers_of s' j' = watchers_of s j'"
    and "\<forall>c. es_chans s' c = (if c \<in> set ?cs then delivered e (es_chans s c) else es_chans s c)"
    unfolding s1(1) notifyWatchersLocked_def w
    by (auto simp: notify_chans_closed_form [OF d] s1 w) (simp_all add: watchers_of_def s1)
  moreover from this(1,2) have "watch_wf s'"
    using assms(3) s1 by (simp add: watch_wf_def) (metis distinct_filter filter_is_subset subsetD)
  moreover have "es_next s' = es_next s" using s1 by simp
  ultimately show thesis using that by blast
qed

abbreviation no_attempt :: "append_env \<times> JobEvent \<Rightarrow> bool" where
  "no_attempt x \<equiv> AttemptIDFromContext (env_ctx (fst x)) = []"

lemma append_all_dropped:
  assumes "list_all no_attempt xs" and "j \<noteq> []" and "watch_wf s"
    and "c \<notin> set (watchers_of s j)" and "ch_closed (es_chans s c)"
  shows "c \<notin> set (watchers_of (append_all xs j s) j) \<and> ch_closed (es_chans (append_all xs j s) c)"
  using assms
proof (induction xs arbitrary: s)
  case Nil
  then show ?case by simp
next
  case (Cons x xs)
  obtain env ev where x: "x = (env, ev)" by (cases x)
  let ?s' = "snd (Append env s j (int (length (events_of s j))) ev)"
  have "AttemptIDFromContext (env_ctx env) = []" using Cons.prems(1) x by simp
  then obtain e where s': "watch_wf ?s'"
    "watchers_of ?s' j = filter (\<lambda>c. length (ch_buf (es_chans s c)) < watchChanBuffer) (watchers_of s j)"
    "\<forall>c. es_chans ?s' c = (if c \<in> set (watchers_of s j) then delivered e (es_chans s c) else es_chans s c)"
    by (rule append_now_chan [OF _ Cons.prems(2,3) refl])
  with Cons.prems have "c \<notin> set (watchers_of ?s' j)" "ch_closed (es_chans ?s' c)" by simp_all
  with Cons.IH [OF _ Cons.prems(2) s'(1)] Cons.prems(1) x show ?case by simp
qed

lemma append_all_watched:
  assumes "list_all no_attempt xs" and "j \<noteq> []" and "watch_wf s"
    and "c \<in> set (watchers_of s j)" and "\<not> ch_closed (es_chans s c)"
    and "length (ch_buf (es_chans s c)) \<le> watchChanBuffer"
  shows "if length (ch_buf (es_chans s c)) + length xs \<le> watchChanBuffer
     then c \<in> set (watchers_of (append_all xs j s) j) \<and> \<not> ch_closed (es_chans (append_all xs j s) c)
     else c \<notin> set (watchers_of (append_all xs j s) j) \<and> ch_closed (es_chans (append_all xs j s) c)"
  using assms
proof (induction xs arbitrary: s)
  case Nil
  then show ?case by simp
next
  case (Cons x xs)
  obtain env ev where x: "x = (env, ev)" by (cases x)
  let ?s' = "snd (Append env s j (int (length (events_of s j))) ev)"
  have "AttemptIDFromContext (env_ctx env) = []" using Cons.prems(1) x by simp
  then obtain e where s': "watch_wf ?s'"
    "watchers_of ?s' j = filter (\<lambda>c. length (ch_buf (es_chans s c)) < watchChanBuffer) (watchers_of s j)"
    "\<forall>c. es_chans ?s' c = (if c \<in> set (watchers_of s j) then delivered e (es_chans s c) else es_chans s c)"
    by (rule append_now_chan [OF _ Cons.prems(2,3) refl])
  show ?case
  proof (cases "length (ch_buf (es_chans s c)) < watchChanBuffer")
    case True
    with s'(2,3) Cons.prems have "c \<in> set (watchers_of ?s' j)" "\<not> ch_closed (es_chans ?s' c)"
      "length (ch_buf (es_chans ?s' c)) = Suc (length (ch_buf (es_chans s c)))"
      by (simp_all add: delivered_def)
    with True Cons.IH [OF _ Cons.prems(2) s'(1)] Cons.prems(1) x show ?thesis by simp
  next
    case False
    with s'(2,3) Cons.prems have "c \<notin> set (watchers_of ?s' j)" "ch_closed (es_chans ?s' c)"
      by (simp_all add: delivered_def)
    with append_all_dropped [OF _ Cons.prems(2) s'(1)] Cons.prems(1) False x show ?thesis by simp
  qed
qed

lemma watch_wf_Watch: "watch_wf s \<Longrightarrow> watch_wf (snd (Watch s j))"
proof -
  assume wf: "watch_wf s"
  have "watchers_of (snd (Watch s j)) j' = (if j' = j then watchers_of s j @ [es_next s] else watchers_of s j')" for j'
    by (simp add: Watch_def watchers_of_def Let_def)
  moreover have "es_next (snd (Watch s j)) = Suc (es_next s)" by (simp add: Watch_def Let_def)
  ultimately show ?thesis using wf by (fastforce simp: watch_wf_def less_Suc_eq)
qed

text \<open>
  A watcher that does not read brings the store down: after a subscription and more than
  \<open>watchChanBuffer\<close> appends with no read in between, the store has closed the watcher's channel, and
  the goroutine that runs when the watcher's context ends closes it a second time, which panics.
  Up to that many appends the same cancellation succeeds.
\<close>

theorem slow_watcher_cancel_panics:
  assumes "watch_wf s" and "j \<noteq> []" and "list_all no_attempt xs"
  shows "watch_done (append_all xs j (snd (Watch s j))) j (fst (Watch s j)) = None
     \<longleftrightarrow> watchChanBuffer < length xs"
proof -
  let ?s1 = "snd (Watch s j)" and ?c = "fst (Watch s j)"
  have "?c \<in> set (watchers_of ?s1 j)" "\<not> ch_closed (es_chans ?s1 ?c)" "ch_buf (es_chans ?s1 ?c) = []"
    by (simp_all add: Watch_def watchers_of_def Let_def)
  then have "if length xs \<le> watchChanBuffer
     then ?c \<in> set (watchers_of (append_all xs j ?s1) j) \<and> \<not> ch_closed (es_chans (append_all xs j ?s1) ?c)
     else ?c \<notin> set (watchers_of (append_all xs j ?s1) j) \<and> ch_closed (es_chans (append_all xs j ?s1) ?c)"
    using append_all_watched [OF assms(3,2) watch_wf_Watch [OF assms(1), of j], of ?c] by simp
  then show ?thesis by (auto simp: watch_done_def Let_def not_le split: if_splits)
qed

section \<open>Concrete runs\<close>

definition ex_env :: "string \<Rightarrow> append_env" where
  "ex_env a = \<lparr>env_now1 = 1, env_now2 = 1, env_uuid = ''u'', env_zone = 0,
     env_ctx = Some (WithAttemptID Map.empty a)\<rparr>"

definition ex_event :: "EventType \<Rightarrow> JobEvent" where
  "ex_event t = JobEvent0\<lparr>Ev_Type := t\<rparr>"

text \<open>One job with a \<open>job_created\<close> event, leased by attempt \<open>attempt-1\<close> at time 1.\<close>

definition ex_created :: memoryStore where
  "ex_created = snd (Append (ex_env []) NewMemoryStore ''j'' 0 (ex_event JobCreated))"

definition ex_leased :: memoryStore where
  "ex_leased = snd (ClaimJob 1 ''1'' ex_created ''w1'' ''j'')"

lemmas ex_defs = ex_env_def ex_event_def ex_created_def ex_leased_def NewMemoryStore_def JobEvent0_def

lemma ex_created_append: "Append (ex_env []) NewMemoryStore ''j'' 0 (ex_event JobCreated) = (Inr 1, ex_created)"
  by (simp add: ex_created_def ex_defs Append_def append_fence_def AttemptIDFromContext_def
      WithAttemptID_def append_locked_def events_of_def notifyWatchersLocked_def watchers_of_def Let_def)

lemma ex_created_facts: "\<exists>e. events_of ex_created ''j'' = [e] \<and> Ev_Type e = JobCreated"
  "es_claims ex_created = Map.empty"
proof -
  have new: "events_of NewMemoryStore ''j'' = []" "es_claims NewMemoryStore = Map.empty"
    by (simp_all add: events_of_def NewMemoryStore_def)
  have "append_locked 1 ''u'' 0 NewMemoryStore ''j'' 0 (ex_event JobCreated) = (Inr 1, ex_created)"
    using Append_ok [OF ex_created_append] by (simp add: ex_env_def)
  then show "\<exists>e. events_of ex_created ''j'' = [e] \<and> Ev_Type e = JobCreated" "es_claims ex_created = Map.empty"
    by (rule append_locked_ok, use new in \<open>auto simp: ex_event_def\<close>)+
qed

lemma ex_claim:
  "ClaimJob 1 ''1'' ex_created ''w1'' ''j'' = (Inr (1, ''attempt-1''), ex_leased)"
  "GetCurrentAttemptID 1 ex_leased ''j'' = ''attempt-1''"
  "es_claims ex_leased ''j'' = Some \<lparr>CR_WorkerID = ''w1'', CR_ExpiresAt = 1 + leaseDuration, CR_AttemptID = ''attempt-1''\<rparr>"
  "events_of ex_leased = events_of ex_created"
proof -
  show "events_of ex_leased = events_of ex_created"
    unfolding ex_leased_def by (intro store_other_events store_other.so_claim_job)
qed (use ex_created_facts in \<open>auto simp: ex_leased_def ClaimJob_def GetCurrentAttemptID_def leaseDuration_def Let_def\<close>)

theorem append_version_won_once_witness:
  "\<not> is_ok (fst (Append (ex_env []) ex_leased ''j'' 0 (ex_event JobQueued)))"
proof -
  have "(log_step Append store_other)\<^sup>*\<^sup>* ex_created ex_leased"
    unfolding ex_leased_def by (intro r_into_rtranclp log_step.ls_other store_other.so_claim_job)
  from append_version_won_once [OF ex_created_append this] show ?thesis by blast
qed

theorem stale_attempt_stays_fenced_witness:
  "Append (ex_env ''attempt-0'') ex_leased ''j'' 1 (ex_event JobRunning) = (Inl ErrStaleAttempt, ex_leased)"
proof (rule stale_attempt_stays_fenced)
  show "\<not> holds_lease ex_created ''j'' ''attempt-0''" by (simp add: holds_lease_def ex_created_facts(2))
  show "(unrelated_to_attempt ''attempt-0'' ''j'')\<^sup>*\<^sup>* ex_created ex_leased"
    unfolding ex_leased_def by (intro r_into_rtranclp unrelated_to_attempt.ua_claim_job) simp
  show "AttemptIDFromContext (env_ctx (ex_env ''attempt-0'')) = ''attempt-0''"
    by (simp add: ex_env_def AttemptIDFromContext_def WithAttemptID_def)
qed simp_all

theorem claim_job_takes_free_lease_witness:
  "fst (ClaimJob 2 ''2'' ex_leased ''w2'' ''j'') = Inl ErrClaimNotFound"
  using claim_job_takes_free_lease [OF ex_claim(1)] by (auto simp: leaseDuration_def)

theorem fence_and_append_are_not_atomic_witness:
  "\<exists>m s2. append_locked 9 ''u'' 0 (snd (ClaimJob (1 + leaseDuration) ''2'' ex_leased ''w2'' ''j'')) ''j'' 1
       (ex_event NodeFinished) = (Inr m, s2) \<and> GetCurrentAttemptID (1 + leaseDuration) s2 ''j'' = ''attempt-2''"
proof -
  let ?ctx = "Some (WithAttemptID Map.empty ''attempt-1'')"
  have f: "append_fence 2 ?ctx ex_leased ''j'' = None" "AttemptIDFromContext ?ctx = ''attempt-1''"
    by (simp_all add: append_fence_def AttemptIDFromContext_def WithAttemptID_def ex_claim(3) leaseDuration_def)
  have c: "ClaimJob (1 + leaseDuration) ''2'' ex_leased ''w2'' ''j'' =
    (Inr (1, ''attempt-2''), snd (ClaimJob (1 + leaseDuration) ''2'' ex_leased ''w2'' ''j''))"
    using ex_created_facts(1) by (auto simp: ClaimJob_def ex_claim(3,4) Let_def)
  show ?thesis
    using fence_and_append_are_not_atomic [OF f _ c, of 9 "''u''" 0 "ex_event NodeFinished" 9 "''u''" "ex_event NodeFinished"]
    by auto
qed

theorem slow_watcher_cancel_panics_witness:
  "watch_done (append_all (replicate 17 (ex_env [], ex_event NodeStarted)) ''j'' (snd (Watch NewMemoryStore ''j'')))
     ''j'' (fst (Watch NewMemoryStore ''j'')) = None"
proof -
  have "watch_wf NewMemoryStore" by (simp add: watch_wf_def NewMemoryStore_def watchers_of_def)
  moreover have "list_all no_attempt (replicate 17 (ex_env [], ex_event NodeStarted))"
    by (simp add: list_all_length ex_env_def AttemptIDFromContext_def WithAttemptID_def)
  ultimately show ?thesis
    using slow_watcher_cancel_panics [of NewMemoryStore "''j''" "replicate 17 (ex_env [], ex_event NodeStarted)"]
    by (simp add: watchChanBuffer_def)
qed

end
