(* ===== verification/Redaction.thy ===== *)
theory Redaction
  imports Go_Float Sha256
begin

text \<open>
  The redaction engine of \<open>pkg/redaction\<close> (\<open>engine.go\<close>, \<open>policy.go\<close>): field masks applied
  to a decoded JSON object, and the policy built from its configuration.  The AES-GCM
  encryption with its random nonce is an argument: a function from the text to the
  ciphertext in hex, or \<open>None\<close> when a key is missing or refused.
\<close>

datatype RedactionMode =
    RedactionModeRedact
  | RedactionModeHash
  | RedactionModeEncrypt
  | RedactionModeRemove
  | RedactionModeOther string

record FieldMask =
  FieldPath :: string
  Mode :: RedactionMode
  Salt :: string

record RedactionPolicy =
  EventRules :: "string \<rightharpoonup> FieldMask list"
  GlobalRules :: "FieldMask list"

record EventPolicyConfig =
  EPC_EventType :: string
  EPC_Fields :: "FieldMask list"

record PolicyConfig =
  PC_Enable :: bool
  PC_Policies :: "EventPolicyConfig list"

definition LoadPolicyFromConfig :: "PolicyConfig \<Rightarrow> RedactionPolicy option" where
  "LoadPolicyFromConfig config =
     (if \<not> PC_Enable config then None
      else Some \<lparr>EventRules = foldl (\<lambda>m p. m(EPC_EventType p \<mapsto> EPC_Fields p)) Map.empty (PC_Policies config),
                 GlobalRules = []\<rparr>)"

type_synonym cipher = "string \<Rightarrow> string option"

record Engine =
  policy :: "RedactionPolicy option"
  encrypt :: cipher

definition hashValue :: "string \<Rightarrow> string \<Rightarrow> string" where
  "hashValue value salt = ''hash:'' @ sha256_hex (value @ salt)"

definition encryptValue :: "cipher \<Rightarrow> string \<Rightarrow> string option" where
  "encryptValue enc value = map_option (\<lambda>c. ''enc:'' @ c) (enc value)"

text \<open>What a mask does to a value that is present: store another one, delete it, or leave it.\<close>

datatype mask_action = Put json | Delete | Keep

definition mask_value :: "cipher \<Rightarrow> FieldMask \<Rightarrow> json \<Rightarrow> mask_action" where
  "mask_value enc fm value = (case Mode fm of
       RedactionModeRedact \<Rightarrow> Put (JStr ''***REDACTED***'')
     | RedactionModeHash \<Rightarrow> Put (JStr (hashValue (fmt_v value) (Salt fm)))
     | RedactionModeEncrypt \<Rightarrow>
         (case encryptValue enc (fmt_v value) of Some c \<Rightarrow> Put (JStr c) | None \<Rightarrow> Keep)
     | RedactionModeRemove \<Rightarrow> Delete
     | RedactionModeOther _ \<Rightarrow> Keep)"

text \<open>Following the path through nested objects; a step that finds no object stops.\<close>

fun mask_path :: "(json \<Rightarrow> mask_action) \<Rightarrow> string list \<Rightarrow> (string \<times> json) list \<Rightarrow> (string \<times> json) list" where
  "mask_path act [] ms = ms"
| "mask_path act [k] ms =
     (case obj_get ms k of None \<Rightarrow> ms
      | Some v \<Rightarrow> (case act v of Put v' \<Rightarrow> obj_put k v' ms | Delete \<Rightarrow> obj_del k ms | Keep \<Rightarrow> ms))"
| "mask_path act (k # k2 # ks) ms =
     (case obj_get ms k of
        Some (JObj ms') \<Rightarrow> obj_put k (JObj (mask_path act (k2 # ks) ms')) ms
      | _ \<Rightarrow> ms)"

definition applyFieldMask :: "cipher \<Rightarrow> (string \<times> json) list \<Rightarrow> FieldMask \<Rightarrow> (string \<times> json) list" where
  "applyFieldMask enc obj fm = mask_path (mask_value enc fm) (split_on CHR ''.'' (FieldPath fm)) obj"

definition rules_for :: "RedactionPolicy \<Rightarrow> string \<Rightarrow> FieldMask list" where
  "rules_for p eventType = (case EventRules p eventType of None \<Rightarrow> [] | Some rs \<Rightarrow> rs) @ GlobalRules p"

definition redact_obj :: "Engine \<Rightarrow> RedactionPolicy \<Rightarrow> string \<Rightarrow> (string \<times> json) list \<Rightarrow> (string \<times> json) list" where
  "redact_obj e p eventType obj = foldl (applyFieldMask (encrypt e)) obj (rules_for p eventType)"

text \<open>
  \<open>json.Unmarshal\<close> of \<open>null\<close> leaves the map nil: masks then find nothing and the result is \<open>null\<close>
  again.  A text that is no object is an error, returned with the data unchanged.
\<close>

definition RedactData :: "Engine \<Rightarrow> string \<Rightarrow> bytes \<Rightarrow> bytes \<times> bool" where
  "RedactData e eventType data = (case policy e of
       None \<Rightarrow> (data, True)
     | Some p \<Rightarrow>
         if data = [] then (data, True)
         else (case json_parse data of
             Some (JObj ms) \<Rightarrow> (json_marshal (JObj (redact_obj e p eventType ms)), True)
           | Some JNull \<Rightarrow> (json_marshal JNull, True)
           | _ \<Rightarrow> (data, False)))"

section \<open>A masked field stays masked\<close>

fun path_get :: "string list \<Rightarrow> (string \<times> json) list \<Rightarrow> json option" where
  "path_get [] ms = None"
| "path_get [k] ms = obj_get ms k"
| "path_get (k # k2 # ks) ms = (case obj_get ms k of Some (JObj ms') \<Rightarrow> path_get (k2 # ks) ms' | _ \<Rightarrow> None)"

text \<open>What may be left at a masked field: nothing, or one of the texts the engine writes.\<close>

definition mask_text :: "string \<Rightarrow> bool" where
  "mask_text t \<longleftrightarrow> t = ''***REDACTED***'' \<or> (\<exists>h. t = ''hash:'' @ sha256_hex h) \<or> (\<exists>c. t = ''enc:'' @ c)"

definition masked :: "json option \<Rightarrow> bool" where
  "masked v \<longleftrightarrow> (case v of None \<Rightarrow> True | Some (JStr t) \<Rightarrow> mask_text t | _ \<Rightarrow> False)"

abbreviation always_masks :: "FieldMask \<Rightarrow> bool" where
  "always_masks m \<equiv> Mode m \<in> {RedactionModeRedact, RedactionModeHash, RedactionModeRemove}"

lemma masked_simps [simp]:
  "masked None" "masked (Some (JStr t)) = mask_text t" "\<not> masked (Some (JObj ms))"
  by (simp_all add: masked_def)

abbreviation writes_masks :: "(json \<Rightarrow> mask_action) \<Rightarrow> bool" where
  "writes_masks act \<equiv> \<forall>v v'. act v = Put v' \<longrightarrow> (\<exists>t. v' = JStr t \<and> mask_text t)"

lemma mask_value_text: "writes_masks (mask_value enc m)"
  by (auto simp: mask_value_def mask_text_def hashValue_def encryptValue_def
      split: RedactionMode.splits option.splits)

lemma mask_path_masks:
  assumes "\<And>v. act v \<noteq> Keep" and "writes_masks act"
  shows "masked (path_get ps (mask_path act ps ms))"
  using assms
  by (induction act ps ms rule: mask_path.induct)
    (fastforce split: option.splits mask_action.splits json.splits)+

lemma mask_path_keeps_masked:
  assumes "writes_masks act" and "masked (path_get ps ms)"
  shows "masked (path_get ps (mask_path act qs ms))"
  using assms(2)
proof (induction ps ms arbitrary: qs rule: path_get.induct)
  case (1 ms)
  then show ?case by simp
next
  case (2 k ms)
  then show ?case using assms(1)
    by (cases "(act, qs, ms)" rule: mask_path.cases)
      (fastforce split: option.splits mask_action.splits json.splits)+
next
  case (3 k k2 ks ms)
  then show ?case using assms(1)
    by (cases "(act, qs, ms)" rule: mask_path.cases)
      (fastforce split: option.splits mask_action.splits json.splits)+
qed

lemma applyFieldMask_keeps:
  "masked (path_get ps ms) \<Longrightarrow> masked (path_get ps (applyFieldMask enc ms m))"
  unfolding applyFieldMask_def by (rule mask_path_keeps_masked [OF mask_value_text])

lemma foldl_applyFieldMask_keeps:
  "masked (path_get ps ms) \<Longrightarrow> masked (path_get ps (foldl (applyFieldMask enc) ms rs))"
  by (induction rs arbitrary: ms) (simp_all add: applyFieldMask_keeps)

lemma applyFieldMask_masks:
  "always_masks m \<Longrightarrow> masked (path_get (split_on CHR ''.'' (FieldPath m)) (applyFieldMask enc ms m))"
  unfolding applyFieldMask_def
  by (rule mask_path_masks [OF _ mask_value_text]) (auto simp: mask_value_def)

text \<open>
  Redaction is complete for the fields its rules name: when a rule of the policy for this event
  type, or a global rule, masks, hashes or removes a field, then in the redacted object the
  value at the rule's path is absent or is one of the texts the engine writes, whatever the
  other rules do to it before and after.
\<close>

theorem redaction_masks_every_ruled_field:
  assumes "m \<in> set (rules_for p t)" and "always_masks m"
  shows "masked (path_get (split_on CHR ''.'' (FieldPath m)) (redact_obj e p t obj))"
proof -
  obtain xs ys where "rules_for p t = xs @ m # ys" using assms(1) by (meson split_list)
  then show ?thesis
    using assms(2) by (simp add: redact_obj_def foldl_applyFieldMask_keeps applyFieldMask_masks)
qed

definition ex_policy :: RedactionPolicy where
  "ex_policy = \<lparr>EventRules = [''job_created'' \<mapsto> [\<lparr>FieldPath = ''user.email'', Mode = RedactionModeHash, Salt = ''s''\<rparr>]],
     GlobalRules = [\<lparr>FieldPath = ''token'', Mode = RedactionModeRemove, Salt = []\<rparr>]\<rparr>"

theorem redaction_masks_every_ruled_field_witness:
  "masked (path_get [''user'', ''email'']
     (redact_obj \<lparr>policy = Some ex_policy, encrypt = (\<lambda>_. None)\<rparr> ex_policy ''job_created''
        [(''user'', JObj [(''email'', JStr ''a@b'')]), (''token'', JStr ''t'')]))"
  using redaction_masks_every_ruled_field
    [of "\<lparr>FieldPath = ''user.email'', Mode = RedactionModeHash, Salt = ''s''\<rparr>" ex_policy "''job_created''"
        "\<lparr>policy = Some ex_policy, encrypt = (\<lambda>_. None)\<rparr>"
        "[(''user'', JObj [(''email'', JStr ''a@b'')]), (''token'', JStr ''t'')]"]
  by (simp add: rules_for_def ex_policy_def)

end
