(* ===== verification/Proof_Chain.thy ===== *)
theory Proof_Chain
  imports Event_Store Redaction
begin

text \<open>
  The evidence chain of \<open>pkg/proof\<close>: \<open>ComputeEventHash\<close> and \<open>ValidateChain\<close> of
  \<open>hash.go\<close>, the re-hashing of redacted events and the metadata extraction of \<open>export.go\<close>, and
  the adapter of \<open>internal/api/http/forensics.go\<close> through which the service exports a
  job's events.  The argument \<open>off\<close> is the offset of the zone the process formats times in.
\<close>

record Event =
  PE_ID :: string
  PE_JobID :: string
  PE_Type :: string
  PE_Payload :: string
  PE_CreatedAt :: gotime
  PE_PrevHash :: string
  PE_Hash :: string

definition event_text :: "int \<Rightarrow> Event \<Rightarrow> bytes" where
  "event_text off e = PE_JobID e @ ''|'' @ PE_Type e @ ''|'' @ PE_Payload e @ ''|''
     @ rfc3339nano off (PE_CreatedAt e) @ ''|'' @ PE_PrevHash e"

definition ComputeEventHash :: "int \<Rightarrow> Event \<Rightarrow> string" where
  "ComputeEventHash off e = sha256_hex (event_text off e)"

datatype chain_error =
    FirstPrevHashNotEmpty string
  | HashMismatch nat string string
  | ChainBroken nat string string

text \<open>The loop over the events from index \<open>i\<close> on, \<open>p\<close> being the event before.\<close>

fun validate_rest :: "int \<Rightarrow> nat \<Rightarrow> Event \<Rightarrow> Event list \<Rightarrow> chain_error option" where
  "validate_rest off i p [] = None"
| "validate_rest off i p (e # es) =
     (if PE_PrevHash e \<noteq> PE_Hash p then Some (ChainBroken i (PE_PrevHash e) (PE_Hash p))
      else if ComputeEventHash off e \<noteq> PE_Hash e
           then Some (HashMismatch i (ComputeEventHash off e) (PE_Hash e))
      else validate_rest off (Suc i) e es)"

definition ValidateChain :: "int \<Rightarrow> Event list \<Rightarrow> chain_error option" where
  "ValidateChain off events = (case events of [] \<Rightarrow> None
     | e # es \<Rightarrow>
         if PE_PrevHash e \<noteq> [] then Some (FirstPrevHashNotEmpty (PE_PrevHash e))
         else if ComputeEventHash off e \<noteq> PE_Hash e
              then Some (HashMismatch 0 (ComputeEventHash off e) (PE_Hash e))
         else validate_rest off 1 e es)"

definition ComputeFileHash :: "bytes \<Rightarrow> string" where
  "ComputeFileHash data = sha256_hex data"

section \<open>Rebuilding a chain\<close>

fun normalize_from :: "int \<Rightarrow> string \<Rightarrow> Event list \<Rightarrow> Event list" where
  "normalize_from off prevHash [] = []"
| "normalize_from off prevHash (e # es) =
     (let e1 = e\<lparr>PE_PrevHash := prevHash\<rparr>; e2 = e1\<lparr>PE_Hash := ComputeEventHash off e1\<rparr>
      in e2 # normalize_from off (PE_Hash e2) es)"

definition normalizeProofEventHashes :: "int \<Rightarrow> Event list \<Rightarrow> Event list" where
  "normalizeProofEventHashes off events = normalize_from off [] events"

definition to_proof_event :: "JobEvent \<Rightarrow> Event" where
  "to_proof_event e = \<lparr>PE_ID = Ev_ID e, PE_JobID = Ev_JobID e, PE_Type = Ev_Type e, PE_Payload = Ev_Payload e,
     PE_CreatedAt = Ev_CreatedAt e, PE_PrevHash = Ev_PrevHash e, PE_Hash = Ev_Hash e\<rparr>"

text \<open>\<open>proofJobStoreAdapter.ListEvents\<close> on the events the store returns.\<close>

definition proofJobStoreAdapter_ListEvents :: "int \<Rightarrow> JobEvent list \<Rightarrow> Event list" where
  "proofJobStoreAdapter_ListEvents off events =
     (let out = map to_proof_event events
      in if ValidateChain off out \<noteq> None then normalizeProofEventHashes off out else out)"

definition export_policy :: "string \<Rightarrow> RedactionPolicy" where
  "export_policy salt = \<lparr>EventRules = Map.empty, GlobalRules =
     [\<lparr>FieldPath = ''email'', Mode = RedactionModeHash, Salt = salt\<rparr>,
      \<lparr>FieldPath = ''phone'', Mode = RedactionModeHash, Salt = salt\<rparr>,
      \<lparr>FieldPath = ''ssn'', Mode = RedactionModeRedact, Salt = []\<rparr>,
      \<lparr>FieldPath = ''credit_card'', Mode = RedactionModeRedact, Salt = []\<rparr>,
      \<lparr>FieldPath = ''api_key'', Mode = RedactionModeRemove, Salt = []\<rparr>,
      \<lparr>FieldPath = ''token'', Mode = RedactionModeRemove, Salt = []\<rparr>,
      \<lparr>FieldPath = ''password'', Mode = RedactionModeRemove, Salt = []\<rparr>,
      \<lparr>FieldPath = ''secret'', Mode = RedactionModeRemove, Salt = []\<rparr>]\<rparr>"

text \<open>\<open>redaction.NewEngine(policy, nil)\<close>: without a key every encryption fails.\<close>

definition export_engine :: "string \<Rightarrow> Engine" where
  "export_engine salt = \<lparr>policy = Some (export_policy salt), encrypt = (\<lambda>_. None)\<rparr>"

fun redact_from :: "int \<Rightarrow> Engine \<Rightarrow> string \<Rightarrow> Event list \<Rightarrow> Event list option" where
  "redact_from off engine prevHash [] = Some []"
| "redact_from off engine prevHash (event # es) =
     (case (if trim_space (PE_Payload event) \<noteq> []
            then (case RedactData engine (PE_Type event) (PE_Payload event) of
                    (payload, ok) \<Rightarrow> if ok then Some (event\<lparr>PE_Payload := payload\<rparr>) else None)
            else Some event) of
        None \<Rightarrow> None
      | Some r \<Rightarrow>
          (let r1 = r\<lparr>PE_PrevHash := prevHash\<rparr>; r2 = r1\<lparr>PE_Hash := ComputeEventHash off r1\<rparr>
           in map_option (\<lambda>out. r2 # out) (redact_from off engine (PE_Hash r2) es)))"

definition redactEventsForExport :: "int \<Rightarrow> Event list \<Rightarrow> string \<Rightarrow> Event list option" where
  "redactEventsForExport off events salt = redact_from off (export_engine salt) [] events"

record JobMetadata =
  JM_JobID :: string
  JM_AgentID :: string
  JM_Goal :: string
  JM_Status :: string
  JM_CreatedAt :: gotime
  JM_UpdatedAt :: gotime
  JM_RetryCount :: int

definition metadata_step :: "JobMetadata \<Rightarrow> Event \<Rightarrow> JobMetadata" where
  "metadata_step md e =
     (if PE_Type e = JobCompleted then md\<lparr>JM_Status := ''completed''\<rparr>
      else if PE_Type e = JobFailed then md\<lparr>JM_Status := ''failed''\<rparr>
      else if PE_Type e = JobCancelled then md\<lparr>JM_Status := ''cancelled''\<rparr>
      else if PE_Type e = JobRunning then
        (if JM_Status md = ''unknown'' then md\<lparr>JM_Status := ''running''\<rparr> else md)
      else if PE_Type e = JobCreated then
        (case unmarshal_map (PE_Payload e) of None \<Rightarrow> md
         | Some payload \<Rightarrow>
             (let md1 = (case str_field payload ''agent_id'' of
                    Some agentID \<Rightarrow> if trim_space agentID \<noteq> [] then md\<lparr>JM_AgentID := agentID\<rparr> else md
                  | None \<Rightarrow> md)
              in case str_field payload ''goal'' of
                    Some goal \<Rightarrow> if trim_space goal \<noteq> [] then md1\<lparr>JM_Goal := goal\<rparr> else md1
                  | None \<Rightarrow> md1))
      else if PE_Type e = JobRequeued then md\<lparr>JM_RetryCount := JM_RetryCount md + 1\<rparr>
      else md)"

text \<open>Only called with at least one event.\<close>

definition extractJobMetadata :: "string \<Rightarrow> Event list \<Rightarrow> JobMetadata option" where
  "extractJobMetadata jobID events = (if events = [] then None
     else Some (foldl metadata_step
       \<lparr>JM_JobID = jobID, JM_AgentID = [], JM_Goal = [], JM_Status = ''unknown'',
        JM_CreatedAt = PE_CreatedAt (hd events), JM_UpdatedAt = PE_CreatedAt (last events), JM_RetryCount = 0\<rparr> events))"

section \<open>Validating chains\<close>

fun chain_ok :: "int \<Rightarrow> string \<Rightarrow> Event list \<Rightarrow> bool" where
  "chain_ok off prev [] = True"
| "chain_ok off prev (e # es) \<longleftrightarrow>
     PE_PrevHash e = prev \<and> PE_Hash e = ComputeEventHash off e \<and> chain_ok off (PE_Hash e) es"

lemma validate_rest_iff: "validate_rest off i p es = None \<longleftrightarrow> chain_ok off (PE_Hash p) es"
  by (induction off i p es rule: validate_rest.induct) auto

lemma ValidateChain_iff: "ValidateChain off es = None \<longleftrightarrow> chain_ok off [] es"
  by (cases es) (auto simp: ValidateChain_def validate_rest_iff)

lemma chain_ok_snoc:
  "chain_ok off prev (es @ [e]) \<longleftrightarrow> chain_ok off prev es \<and>
     PE_PrevHash e = (if es = [] then prev else PE_Hash (last es)) \<and> PE_Hash e = ComputeEventHash off e"
  by (induction es arbitrary: prev) auto

lemma chain_ok_normalize: "chain_ok off prev (normalize_from off prev es)"
  by (induction off prev es rule: normalize_from.induct)
    (simp_all add: ComputeEventHash_def event_text_def Let_def)

lemma chain_ok_redact: "redact_from off eng prev es = Some out \<Longrightarrow> chain_ok off prev out"
proof (induction off eng prev es arbitrary: out rule: redact_from.induct)
  case (2 off engine prevHash event es)
  then show ?case
    by (fastforce simp: Let_def ComputeEventHash_def event_text_def split: option.splits if_splits prod.splits)
qed simp

section \<open>Streams of the event store\<close>

text \<open>Store operations of a process that formats times in the zone \<open>off\<close>.\<close>

inductive zoned_step :: "int \<Rightarrow> memoryStore \<Rightarrow> memoryStore \<Rightarrow> bool" for off where
  zs_append: "env_zone env = off \<Longrightarrow> zoned_step off s (snd (Append env s j v ev))"
| zs_other: "store_other s s' \<Longrightarrow> zoned_step off s s'"

abbreviation proof_stream :: "memoryStore \<Rightarrow> string \<Rightarrow> Event list" where
  "proof_stream s j \<equiv> map to_proof_event (events_of s j)"

lemma Append_keeps_chain:
  assumes "chain_ok (env_zone env) [] (proof_stream s j)"
  shows "chain_ok (env_zone env) [] (proof_stream (snd (Append env s j v ev)) j)"
proof (cases "Append env s j v ev")
  case (Pair r s')
  show ?thesis
  proof (cases r)
    case (Inl x)
    then show ?thesis using Append_err Pair assms by fastforce
  next
    case (Inr n)
    from Append_ok [OF Pair [unfolded Inr]] obtain e where "events_of s' j = events_of s j @ [e]" "Ev_JobID e = j"
      "Ev_PrevHash e = (if events_of s j = [] then [] else Ev_Hash (last (events_of s j)))"
      "Ev_Hash e = computeMemEventHash (env_zone env) j (Ev_Type e) (Ev_Payload e) (Ev_CreatedAt e) (Ev_PrevHash e)"
      by (elim conjE append_locked_ok)
    then show ?thesis
      using assms Pair by (simp add: chain_ok_snoc to_proof_event_def ComputeEventHash_def event_text_def
          computeMemEventHash_def mem_hash_input_def last_map)
  qed
qed

lemma zoned_step_keeps_chains:
  "zoned_step off s s' \<Longrightarrow> \<forall>j. chain_ok off [] (proof_stream s j) \<Longrightarrow> \<forall>j. chain_ok off [] (proof_stream s' j)"
proof (induction rule: zoned_step.induct)
  case (zs_append env s j v ev)
  show ?case
  proof
    fix j'
    show "chain_ok off [] (proof_stream (snd (Append env s j v ev)) j')"
      using zs_append Append_keeps_chain [of env s j v ev] Append_frame [of j' j env s v ev]
      by (cases "j' = j") auto
  qed
qed (simp add: store_other_events)

lemma zoned_run_chains: "(zoned_step off)\<^sup>*\<^sup>* NewMemoryStore s \<Longrightarrow> \<forall>j. chain_ok off [] (proof_stream s j)"
  by (induction rule: rtranclp_induct)
    (simp add: NewMemoryStore_def events_of_def, erule zoned_step_keeps_chains)

text \<open>
  C19. The writer and the verifier agree on the chain: whatever appends, claims, heartbeats and
  subscriptions a store has gone through since it was empty, the stream of every job passes
  \<open>ValidateChain\<close>, so the export adapter hands it on unchanged.
\<close>

theorem stored_stream_validates:
  assumes "(zoned_step off)\<^sup>*\<^sup>* NewMemoryStore s"
  shows "ValidateChain off (map to_proof_event (fst (ListEvents s j))) = None
     \<and> proofJobStoreAdapter_ListEvents off (fst (ListEvents s j)) = map to_proof_event (fst (ListEvents s j))"
proof -
  have "fst (ListEvents s j) = events_of s j" by (simp add: ListEvents_def Let_def)
  moreover have "ValidateChain off (proof_stream s j) = None"
    using zoned_run_chains [OF assms] by (simp add: ValidateChain_iff)
  ultimately show ?thesis by (simp add: proofJobStoreAdapter_ListEvents_def Let_def)
qed

theorem stored_stream_validates_witness:
  "ValidateChain 0 (map to_proof_event (fst (ListEvents ex_leased ''j''))) = None \<and> fst (ListEvents ex_leased ''j'') \<noteq> []"
proof -
  have "zoned_step 0 NewMemoryStore ex_created"
    unfolding ex_created_def by (rule zoned_step.zs_append) (simp add: ex_env_def)
  moreover have "zoned_step 0 ex_created ex_leased"
    unfolding ex_leased_def by (intro zoned_step.zs_other store_other.so_claim_job)
  ultimately have "(zoned_step 0)\<^sup>*\<^sup>* NewMemoryStore ex_leased" by auto
  moreover have "fst (ListEvents ex_leased ''j'') \<noteq> []"
    using ex_created_facts(1) ex_claim(4) by (auto simp: ListEvents_def Let_def)
  ultimately show ?thesis using stored_stream_validates by blast
qed

section \<open>Tamper evidence\<close>

text \<open>The fields the hash covers; the event's own \<open>ID\<close> is not among them.\<close>

definition hashed_fields :: "int \<Rightarrow> Event \<Rightarrow> string \<times> string \<times> string \<times> string \<times> string \<times> string" where
  "hashed_fields off e =
     (PE_JobID e, PE_Type e, PE_Payload e, rfc3339nano off (PE_CreatedAt e), PE_PrevHash e, PE_Hash e)"

definition bar_free :: "Event \<Rightarrow> bool" where
  "bar_free e \<longleftrightarrow> CHR ''|'' \<notin> set (PE_JobID e) \<and> CHR ''|'' \<notin> set (PE_Type e)"

lemma event_text_inj:
  assumes "event_text off e = event_text off e'" and "bar_free e" and "bar_free e'"
    and "CHR ''|'' \<notin> set (PE_PrevHash e)" and "CHR ''|'' \<notin> set (PE_PrevHash e')"
  shows "PE_JobID e = PE_JobID e'" "PE_Type e = PE_Type e'" "PE_Payload e = PE_Payload e'"
    "rfc3339nano off (PE_CreatedAt e) = rfc3339nano off (PE_CreatedAt e')" "PE_PrevHash e = PE_PrevHash e'"
proof -
  have 1: "PE_JobID e = PE_JobID e'" "PE_Type e @ ''|'' @ PE_Payload e @ ''|'' @ rfc3339nano off (PE_CreatedAt e) @ ''|'' @ PE_PrevHash e
      = PE_Type e' @ ''|'' @ PE_Payload e' @ ''|'' @ rfc3339nano off (PE_CreatedAt e') @ ''|'' @ PE_PrevHash e'"
    using assms(1-3) unfolding event_text_def bar_free_def by (auto simp: first_split_unique)
  then have 2: "PE_Type e = PE_Type e'" "PE_Payload e @ ''|'' @ rfc3339nano off (PE_CreatedAt e) @ ''|'' @ PE_PrevHash e
      = PE_Payload e' @ ''|'' @ rfc3339nano off (PE_CreatedAt e') @ ''|'' @ PE_PrevHash e'"
    using assms(2,3) unfolding bar_free_def by (auto simp: first_split_unique)
  then have "(PE_Payload e @ ''|'' @ rfc3339nano off (PE_CreatedAt e)) @ ''|'' @ PE_PrevHash e
      = (PE_Payload e' @ ''|'' @ rfc3339nano off (PE_CreatedAt e')) @ ''|'' @ PE_PrevHash e'" by simp
  from last_split_unique [OF assms(4,5) this]
  have 3: "PE_PrevHash e = PE_PrevHash e'" and
    p: "PE_Payload e @ ''|'' @ rfc3339nano off (PE_CreatedAt e) = PE_Payload e' @ ''|'' @ rfc3339nano off (PE_CreatedAt e')"
    by simp_all
  from last_split_unique [OF rfc3339nano_no_bar rfc3339nano_no_bar p]
  have 4: "rfc3339nano off (PE_CreatedAt e) = rfc3339nano off (PE_CreatedAt e')" "PE_Payload e = PE_Payload e'"
    by simp_all
  show "PE_JobID e = PE_JobID e'" "PE_Type e = PE_Type e'" "PE_Payload e = PE_Payload e'"
    "rfc3339nano off (PE_CreatedAt e) = rfc3339nano off (PE_CreatedAt e')" "PE_PrevHash e = PE_PrevHash e'"
    by (fact 1 2 4 3)+
qed

lemma chain_prev_no_bar:
  assumes "chain_ok off prev es" and "CHR ''|'' \<notin> set prev" and "e \<in> set es"
  shows "CHR ''|'' \<notin> set (PE_PrevHash e)"
  using assms
proof (induction es arbitrary: prev)
  case (Cons x es)
  have "CHR ''|'' \<notin> set (PE_Hash x)"
    using Cons.prems(1) sha256_hex_no_bar by (simp add: ComputeEventHash_def)
  then show ?case using Cons by auto
qed simp

lemma chain_determined_by_last_hash:
  assumes "chain_ok off [] es" and "chain_ok off [] es'" and "es \<noteq> []" and "es' \<noteq> []"
    and "PE_Hash (last es) = PE_Hash (last es')"
    and "\<forall>e \<in> set (es @ es'). bar_free e"
    and "inj_on sha256_hex (event_text off ` set (es @ es'))"
  shows "map (hashed_fields off) es = map (hashed_fields off) es'"
  using assms
proof (induction es arbitrary: es' rule: rev_induct)
  case (snoc e xs)
  obtain e' xs' where es': "es' = xs' @ [e']" using snoc.prems(4) last_snoc_conv by blast
  note ok = snoc.prems(1) [unfolded chain_ok_snoc] snoc.prems(2) [unfolded es' chain_ok_snoc]
  have h: "PE_Hash e = PE_Hash e'" using snoc.prems(5) es' by simp
  then have "sha256_hex (event_text off e) = sha256_hex (event_text off e')"
    using ok by (simp add: ComputeEventHash_def)
  then have t: "event_text off e = event_text off e'"
    using snoc.prems(7) es' by (auto dest!: inj_onD)
  have eq: "PE_JobID e = PE_JobID e'" "PE_Type e = PE_Type e'" "PE_Payload e = PE_Payload e'"
    "rfc3339nano off (PE_CreatedAt e) = rfc3339nano off (PE_CreatedAt e')" "PE_PrevHash e = PE_PrevHash e'"
    by (rule event_text_inj [OF t];
        use snoc.prems(1,2,6) es' in \<open>auto dest: chain_prev_no_bar\<close>)+
  have last_hash: "PE_Hash (last ys) \<noteq> []" if "chain_ok off [] ys" "ys \<noteq> []" for ys
    using that sha256_hex_nonempty by (metis append_butlast_last_id chain_ok_snoc ComputeEventHash_def)
  have nil: "xs = [] \<longleftrightarrow> xs' = []" using ok eq(5) last_hash by (metis (full_types))
  have "map (hashed_fields off) xs = map (hashed_fields off) xs'"
  proof (cases "xs = []")
    case False
    then have ne: "xs \<noteq> []" "xs' \<noteq> []" using nil by auto
    moreover have "PE_Hash (last xs) = PE_Hash (last xs')" using ok eq(5) ne by simp
    moreover have "inj_on sha256_hex (event_text off ` set (xs @ xs'))"
      by (rule inj_on_subset [OF snoc.prems(7)]) (auto simp: es')
    ultimately show ?thesis using snoc.IH [of xs'] ok snoc.prems(6) es' by auto
  qed (use nil in simp)
  moreover have "hashed_fields off e = hashed_fields off e'" using eq h by (simp add: hashed_fields_def)
  ultimately show ?case using es' by simp
qed simp

text \<open>
  C13. The last hash of a chain fixes its whole history: two chains that pass \<open>ValidateChain\<close> and end
  in the same hash have the same length and agree, event by event, on every field the hash
  covers, as long as SHA-256 does not collide on the texts that were hashed and job ids and
  event types contain no \<open>|\<close>.
\<close>

theorem root_hash_fixes_history:
  assumes "ValidateChain off es = None" and "ValidateChain off es' = None" and "es \<noteq> []" and "es' \<noteq> []"
    and "PE_Hash (last es) = PE_Hash (last es')"
    and "\<forall>e \<in> set (es @ es'). bar_free e"
    and "inj_on sha256_hex (event_text off ` set (es @ es'))"
  shows "map (hashed_fields off) es = map (hashed_fields off) es'"
  using assms unfolding ValidateChain_iff by (rule chain_determined_by_last_hash)

definition ex_chain :: "Event list" where
  "ex_chain = normalize_from 0 [] [\<lparr>PE_ID = ''ev-1'', PE_JobID = ''j'', PE_Type = JobCreated, PE_Payload = ''{}'',
     PE_CreatedAt = 5, PE_PrevHash = [], PE_Hash = []\<rparr>]"

lemma ex_chain_eq: "\<exists>e. ex_chain = [e] \<and> bar_free e"
  by (simp add: ex_chain_def Let_def bar_free_def)

theorem root_hash_fixes_history_witness:
  "ValidateChain 0 ex_chain = None \<and> map (hashed_fields 0) ex_chain
     = map (hashed_fields 0) (map (\<lambda>e. e\<lparr>PE_ID := ''other''\<rparr>) ex_chain)"
proof -
  let ?other = "map (\<lambda>e. e\<lparr>PE_ID := ''other''\<rparr>) ex_chain"
  obtain e where e: "ex_chain = [e]" "bar_free e" using ex_chain_eq by blast
  have ok: "ValidateChain 0 ex_chain = None"
    by (simp add: ValidateChain_iff ex_chain_def chain_ok_normalize del: normalize_from.simps)
  moreover have "ValidateChain 0 ?other = None"
    using ok by (simp add: ValidateChain_iff e ComputeEventHash_def event_text_def)
  moreover have "inj_on sha256_hex (event_text 0 ` set (ex_chain @ ?other))"
    by (simp add: e event_text_def)
  ultimately show ?thesis
    using root_hash_fixes_history [of 0 ex_chain ?other] e(2) by (simp add: e(1) bar_free_def)
qed

text \<open>
  What the service exports always validates, whatever is in the store: the adapter recomputes the
  chain of a stream that fails \<open>ValidateChain\<close>, and the redacting export recomputes it again.  A
  stream that was altered in the store is therefore exported as a valid chain with the same
  payloads, and the only trace is a different root hash.
\<close>

theorem export_revalidates_any_stream:
  "ValidateChain off (proofJobStoreAdapter_ListEvents off events) = None
   \<and> map PE_Payload (proofJobStoreAdapter_ListEvents off events) = map Ev_Payload events
   \<and> (case redactEventsForExport off (proofJobStoreAdapter_ListEvents off events) salt of
        None \<Rightarrow> True | Some out \<Rightarrow> ValidateChain off out = None \<and> length out = length events)"
proof -
  have len: "redact_from off eng prev es = Some out \<Longrightarrow> length out = length es" for eng prev es out
    by (induction off eng prev es arbitrary: out rule: redact_from.induct)
      (auto simp: Let_def split: option.splits if_splits prod.splits)
  have pay: "map PE_Payload (normalize_from off prev es) = map PE_Payload es" for prev es
    by (induction off prev es rule: normalize_from.induct) (simp_all add: Let_def)
  have "ValidateChain off (proofJobStoreAdapter_ListEvents off events) = None"
    by (simp add: proofJobStoreAdapter_ListEvents_def Let_def normalizeProofEventHashes_def
        ValidateChain_iff chain_ok_normalize)
  moreover have p: "map PE_Payload (proofJobStoreAdapter_ListEvents off events) = map Ev_Payload events"
    by (simp add: proofJobStoreAdapter_ListEvents_def Let_def normalizeProofEventHashes_def pay to_proof_event_def)
  moreover have "length (proofJobStoreAdapter_ListEvents off events) = length events"
    using arg_cong [OF p, of length] by simp
  ultimately show ?thesis
    by (auto simp: redactEventsForExport_def ValidateChain_iff chain_ok_redact len split: option.splits)
qed

end
