(* ===== verification/Proof_Ledger.thy ===== *)
theory Proof_Ledger
  imports Proof_Chain
begin

text \<open>
  The tool ledger of an evidence package: \<open>ValidateLedgerConsistency\<close> of \<open>pkg/proof/verify.go\<close>,
  and \<open>proofLedgerAdapter.ListToolInvocations\<close> of \<open>internal/api/http/forensics.go\<close>, which
  rebuilds the ledger from the events.  Iteration over a Go map comes in an arbitrary
  order: the order is an argument.
\<close>

record ToolInvocation =
  TI_ID :: string
  TI_JobID :: string
  TI_IdempotencyKey :: string
  TI_StepID :: string
  TI_ToolName :: string
  TI_ArgsHash :: string
  TI_Status :: string
  TI_Result :: string
  TI_Committed :: bool
  TI_Timestamp :: string
  TI_ExternalID :: string

type_synonym payload = "string \<rightharpoonup> json"

datatype ledger_error =
    MissingInLedger string
  | ToolNameMismatch string string string
  | SuccessNotCommitted string
  | CommittedNotFinished string

text \<open>The payload of an event and its idempotency key, when the payload decodes and the key is not empty.\<close>

definition keyed_payload :: "bytes \<Rightarrow> (string \<times> payload) option" where
  "keyed_payload data = (case unmarshal_map data of None \<Rightarrow> None
     | Some m \<Rightarrow> (case str_field m ''idempotency_key'' of
           Some key \<Rightarrow> if key \<noteq> [] then Some (key, m) else None
         | None \<Rightarrow> None))"

definition finished_step :: "(string \<rightharpoonup> payload) \<Rightarrow> Event \<Rightarrow> (string \<rightharpoonup> payload)" where
  "finished_step fm event =
     (if PE_Type event = ''tool_invocation_finished'' then
        (case keyed_payload (PE_Payload event) of Some (key, m) \<Rightarrow> fm(key \<mapsto> m) | None \<Rightarrow> fm)
      else fm)"

text \<open>\<open>finishedMap\<close>; the \<open>startedMap\<close> built beside it is never read.\<close>

definition finished_map :: "Event list \<Rightarrow> (string \<rightharpoonup> payload)" where
  "finished_map events = foldl finished_step Map.empty events"

definition ledger_map :: "ToolInvocation list \<Rightarrow> (string \<rightharpoonup> ToolInvocation)" where
  "ledger_map ledger = foldl (\<lambda>m ti. m(TI_IdempotencyKey ti \<mapsto> ti)) Map.empty ledger"

definition check_finished :: "(string \<rightharpoonup> ToolInvocation) \<Rightarrow> string \<Rightarrow> payload \<Rightarrow> ledger_error option" where
  "check_finished lm key p = (case lm key of
       None \<Rightarrow> Some (MissingInLedger key)
     | Some ti \<Rightarrow>
         (case str_field p ''tool_name'' of
            Some toolName \<Rightarrow>
              if toolName \<noteq> [] \<and> toolName \<noteq> TI_ToolName ti
              then Some (ToolNameMismatch key toolName (TI_ToolName ti))
              else if str_field p ''outcome'' = Some ''success'' \<and> \<not> TI_Committed ti
              then Some (SuccessNotCommitted key) else None
          | None \<Rightarrow>
              if str_field p ''outcome'' = Some ''success'' \<and> \<not> TI_Committed ti
              then Some (SuccessNotCommitted key) else None))"

fun check_all_finished ::
  "(string \<rightharpoonup> ToolInvocation) \<Rightarrow> (string \<rightharpoonup> payload) \<Rightarrow> string list \<Rightarrow> ledger_error option" where
  "check_all_finished lm fm [] = None"
| "check_all_finished lm fm (key # keys) =
     (case fm key of None \<Rightarrow> check_all_finished lm fm keys
      | Some p \<Rightarrow> (case check_finished lm key p of Some err \<Rightarrow> Some err
                  | None \<Rightarrow> check_all_finished lm fm keys))"

fun check_committed :: "(string \<rightharpoonup> payload) \<Rightarrow> ToolInvocation list \<Rightarrow> ledger_error option" where
  "check_committed fm [] = None"
| "check_committed fm (ti # ledger) =
     (if TI_Committed ti \<and> fm (TI_IdempotencyKey ti) = None
      then Some (CommittedNotFinished (TI_IdempotencyKey ti)) else check_committed fm ledger)"

definition ValidateLedgerConsistency ::
  "string list \<Rightarrow> Event list \<Rightarrow> ToolInvocation list \<Rightarrow> ledger_error option" where
  "ValidateLedgerConsistency order events ledger =
     (let fm = finished_map events; lm = ledger_map ledger
      in case check_all_finished lm fm order of Some err \<Rightarrow> Some err
         | None \<Rightarrow> check_committed fm ledger)"

section \<open>The rebuilt ledger\<close>

definition getString :: "payload \<Rightarrow> string \<Rightarrow> string" where
  "getString m key = (case str_field m key of Some s \<Rightarrow> s | None \<Rightarrow> [])"

definition fallback :: "string \<Rightarrow> string \<Rightarrow> string" where
  "fallback v d = (if v \<noteq> [] then v else d)"

record invocationAcc =
  invocationID :: string
  stepID :: string
  toolName :: string
  argsHash :: string
  idempotencyKey :: string
  outcome :: string
  result :: bytes
  timestamp :: string

definition acc0 :: "string \<Rightarrow> invocationAcc" where
  "acc0 key = \<lparr>invocationID = [], stepID = [], toolName = [], argsHash = [], idempotencyKey = key,
     outcome = [], result = [], timestamp = []\<rparr>"

definition acc_update :: "EventType \<Rightarrow> payload \<Rightarrow> invocationAcc \<Rightarrow> invocationAcc" where
  "acc_update t p acc =
     (let v = getString p ''invocation_id''; a1 = (if v \<noteq> [] then acc\<lparr>invocationID := v\<rparr> else acc);
          v = getString p ''step_id''; a2 = (if v \<noteq> [] then a1\<lparr>stepID := v\<rparr> else a1);
          v = getString p ''tool_name''; a3 = (if v \<noteq> [] then a2\<lparr>toolName := v\<rparr> else a2);
          v = getString p ''arguments_hash''; a4 = (if v \<noteq> [] then a3\<lparr>argsHash := v\<rparr> else a3);
          v = getString p ''started_at'';
          a5 = (if v \<noteq> [] \<and> timestamp a4 = [] then a4\<lparr>timestamp := v\<rparr> else a4);
          v = getString p ''finished_at''; a6 = (if v \<noteq> [] then a5\<lparr>timestamp := v\<rparr> else a5)
      in if t = ToolInvocationFinished
         then (let a7 = a6\<lparr>outcome := getString p ''outcome''\<rparr>
               in case p ''result'' of Some r \<Rightarrow> a7\<lparr>result := json_marshal r\<rparr> | None \<Rightarrow> a7)
         else a6)"

definition acc_step :: "(string \<rightharpoonup> invocationAcc) \<Rightarrow> JobEvent \<Rightarrow> (string \<rightharpoonup> invocationAcc)" where
  "acc_step byKey e =
     (if Ev_Type e \<noteq> ToolInvocationStarted \<and> Ev_Type e \<noteq> ToolInvocationFinished then byKey
      else (case keyed_payload (Ev_Payload e) of None \<Rightarrow> byKey
            | Some (key, p) \<Rightarrow>
                byKey(key \<mapsto> acc_update (Ev_Type e) p
                  (case byKey key of None \<Rightarrow> acc0 key | Some acc \<Rightarrow> acc))))"

definition invocation_of :: "string \<Rightarrow> string \<Rightarrow> invocationAcc \<Rightarrow> ToolInvocation" where
  "invocation_of jobID key acc =
     \<lparr>TI_ID = fallback (invocationID acc) key, TI_JobID = jobID, TI_IdempotencyKey = idempotencyKey acc,
      TI_StepID = stepID acc, TI_ToolName = toolName acc, TI_ArgsHash = argsHash acc,
      TI_Status = (if outcome acc \<noteq> [] then outcome acc else ''started''),
      TI_Result = result acc,
      TI_Committed = (outcome acc \<noteq> [] \<and> outcome acc = ''success''),
      TI_Timestamp = timestamp acc, TI_ExternalID = []\<rparr>"

text \<open>The keys of \<open>byKey\<close> are collected and sorted; listing the event keys instead gives the same set.\<close>

definition event_keys :: "JobEvent list \<Rightarrow> string list" where
  "event_keys events = List.map_filter (\<lambda>e. map_option fst (keyed_payload (Ev_Payload e))) events"

definition ListToolInvocations :: "string \<Rightarrow> JobEvent list \<Rightarrow> ToolInvocation list" where
  "ListToolInvocations jobID events =
     (let byKey = foldl acc_step Map.empty events;
          keys = sort (filter (\<lambda>k. byKey k \<noteq> None) (remdups (event_keys events)))
      in map (\<lambda>key. invocation_of jobID key (the (byKey key))) keys)"

section \<open>Properties\<close>

lemma check_all_finished_iff:
  "check_all_finished lm fm keys = None \<longleftrightarrow>
     (\<forall>k \<in> set keys. \<forall>p. fm k = Some p \<longrightarrow> check_finished lm k p = None)"
  by (induction keys) (auto split: option.splits)

lemma check_committed_iff:
  "check_committed fm ledger = None \<longleftrightarrow> (\<forall>ti \<in> set ledger. TI_Committed ti \<longrightarrow> fm (TI_IdempotencyKey ti) \<noteq> None)"
  by (induction ledger) auto

text \<open>
  \<open>ValidateLedgerConsistency\<close> does not depend on the order in which Go walks its map: it accepts
  exactly when every finished invocation has a ledger entry with the same tool name (where
  the event names one) that is committed if the event reports success, and every committed
  entry has a finished event.
\<close>

theorem ledger_consistency_spec:
  assumes "set order = dom (finished_map events)"
  shows "ValidateLedgerConsistency order events ledger = None \<longleftrightarrow>
     (\<forall>k p. finished_map events k = Some p \<longrightarrow>
        (\<exists>ti. ledger_map ledger k = Some ti
           \<and> (\<forall>n. str_field p ''tool_name'' = Some n \<longrightarrow> n \<noteq> [] \<longrightarrow> n = TI_ToolName ti)
           \<and> (str_field p ''outcome'' = Some ''success'' \<longrightarrow> TI_Committed ti)))
     \<and> (\<forall>ti \<in> set ledger. TI_Committed ti \<longrightarrow> finished_map events (TI_IdempotencyKey ti) \<noteq> None)"
proof -
  have cf: "check_finished lm k p = None \<longleftrightarrow> (\<exists>ti. lm k = Some ti
      \<and> (\<forall>n. str_field p ''tool_name'' = Some n \<longrightarrow> n \<noteq> [] \<longrightarrow> n = TI_ToolName ti)
      \<and> (str_field p ''outcome'' = Some ''success'' \<longrightarrow> TI_Committed ti))" for lm k p
    by (auto simp: check_finished_def split: option.splits)
  have "ValidateLedgerConsistency order events ledger = None \<longleftrightarrow>
      check_all_finished (ledger_map ledger) (finished_map events) order = None
      \<and> check_committed (finished_map events) ledger = None"
    by (simp add: ValidateLedgerConsistency_def Let_def split: option.splits)
  then show ?thesis
    using assms unfolding check_all_finished_iff check_committed_iff cf by blast
qed

theorem ledger_consistency_spec_witness:
  "ValidateLedgerConsistency [] [] [\<lparr>TI_ID = ''1'', TI_JobID = ''j'', TI_IdempotencyKey = ''k'', TI_StepID = [],
     TI_ToolName = ''t'', TI_ArgsHash = [], TI_Status = ''success'', TI_Result = [], TI_Committed = True,
     TI_Timestamp = [], TI_ExternalID = []\<rparr>] \<noteq> None"
  using ledger_consistency_spec [of "[]" "[]"] by (simp add: finished_map_def)

lemma finished_map_fields:
  "finished_map es = foldl (\<lambda>fm (t, d). if t = ''tool_invocation_finished'' then
     (case keyed_payload d of Some (key, m) \<Rightarrow> fm(key \<mapsto> m) | None \<Rightarrow> fm) else fm)
     Map.empty (map (\<lambda>e. (PE_Type e, PE_Payload e)) es)"
  by (simp add: finished_map_def finished_step_def [abs_def] foldl_map)

lemma finished_map_snoc:
  "finished_map (es @ [to_proof_event e]) = (if Ev_Type e = ToolInvocationFinished
     then (case keyed_payload (Ev_Payload e) of Some (key, m) \<Rightarrow> (finished_map es)(key \<mapsto> m) | None \<Rightarrow> finished_map es)
     else finished_map es)"
  by (cases "keyed_payload (Ev_Payload e)") (auto simp: finished_map_def finished_step_def to_proof_event_def)

lemma adapter_fields:
  "map (\<lambda>e. (PE_Type e, PE_Payload e)) (proofJobStoreAdapter_ListEvents off es)
     = map (\<lambda>e. (PE_Type e, PE_Payload e)) (map to_proof_event es)"
proof -
  have "map (\<lambda>e. (PE_Type e, PE_Payload e)) (normalize_from off prev xs) = map (\<lambda>e. (PE_Type e, PE_Payload e)) xs"
    for prev xs
    by (induction off prev xs rule: normalize_from.induct) (simp_all add: Let_def)
  then show ?thesis
    by (simp add: proofJobStoreAdapter_ListEvents_def normalizeProofEventHashes_def Let_def)
qed

text \<open>All invocation events with one key that name a tool name the same tool.\<close>

definition agree_on_tools :: "(string \<Rightarrow> string) \<Rightarrow> JobEvent list \<Rightarrow> bool" where
  "agree_on_tools names events \<longleftrightarrow> list_all (\<lambda>e. case keyed_payload (Ev_Payload e) of
     Some (k, p) \<Rightarrow> getString p ''tool_name'' \<in> {[], names k} | None \<Rightarrow> True) events"

lemma acc_update_simps:
  "idempotencyKey (acc_update t p acc) = idempotencyKey acc"
  "outcome (acc_update t p acc) = (if t = ToolInvocationFinished then getString p ''outcome'' else outcome acc)"
  "toolName (acc_update t p acc) = (if getString p ''tool_name'' \<noteq> [] then getString p ''tool_name'' else toolName acc)"
  by (simp_all add: acc_update_def Let_def split: option.split)

text \<open>What the fold over the events knows of the accumulator of a key, \<open>fm\<close> being the finished map.\<close>

definition acc_matches :: "(string \<Rightarrow> string) \<Rightarrow> (string \<rightharpoonup> payload) \<Rightarrow> (string \<rightharpoonup> invocationAcc) \<Rightarrow> string \<Rightarrow> bool" where
  "acc_matches names fm bk k \<longleftrightarrow> (case bk k of
       None \<Rightarrow> fm k = None
     | Some acc \<Rightarrow> idempotencyKey acc = k \<and> toolName acc \<in> {[], names k}
         \<and> (case fm k of None \<Rightarrow> outcome acc = []
            | Some p \<Rightarrow> outcome acc = getString p ''outcome'' \<and> getString p ''tool_name'' \<in> {[], toolName acc}))"

lemma acc_matches_step:
  assumes "acc_matches names (finished_map es) bk k" and "agree_on_tools names [e]"
  shows "acc_matches names (finished_map (es @ [to_proof_event e])) (acc_step bk e) k"
proof (cases "keyed_payload (Ev_Payload e)")
  case None
  then show ?thesis using assms(1)
    by (simp add: finished_map_snoc acc_step_def)
next
  case (Some kp)
  obtain k' p where kp: "kp = (k', p)" by (cases kp)
  have names: "getString p ''tool_name'' \<in> {[], names k'}"
    using assms(2) Some kp by (simp add: agree_on_tools_def)
  show ?thesis
  proof (cases "k' = k \<and> (Ev_Type e = ToolInvocationStarted \<or> Ev_Type e = ToolInvocationFinished)")
    case True
    then show ?thesis using assms(1) names Some kp
      by (cases "bk k"; cases "finished_map es k")
        (auto simp: acc_matches_def finished_map_snoc acc_step_def acc_update_simps acc0_def)
  next
    case False
    then show ?thesis using assms(1) Some kp
      by (cases "bk k") (auto simp: acc_matches_def finished_map_snoc acc_step_def)
  qed
qed

lemma acc_matches_run:
  "agree_on_tools names es \<Longrightarrow>
     acc_matches names (finished_map (map to_proof_event es)) (foldl acc_step Map.empty es) k"
proof (induction es rule: rev_induct)
  case Nil
  then show ?case by (simp add: acc_matches_def finished_map_def)
next
  case (snoc e es)
  then show ?case using acc_matches_step by (simp add: agree_on_tools_def)
qed

lemma acc_keys: "foldl acc_step Map.empty es k \<noteq> None \<Longrightarrow> k \<in> set (event_keys es)"
proof (induction es rule: rev_induct)
  case (snoc e es)
  then show ?case
    by (auto simp: acc_step_def event_keys_def map_filter_def split: if_splits option.splits prod.splits)
qed simp

lemma ledger_map_keys:
  assumes "distinct ks" and "\<And>k. k \<in> set ks \<Longrightarrow> TI_IdempotencyKey (f k) = k"
  shows "ledger_map (map f ks) k = (if k \<in> set ks then Some (f k) else None)"
  using assms
proof (induction ks rule: rev_induct)
  case (snoc x ks)
  then show ?case by (auto simp: ledger_map_def)
qed (simp add: ledger_map_def)

text \<open>
  C21. The ledger the service rebuilds from the events passes its own consistency check, for every
  stream in which the invocation events of one idempotency key do not name two different
  tools, and whatever order the check walks its map in.
\<close>

theorem rebuilt_ledger_is_consistent:
  assumes "agree_on_tools names events"
    and "set order = dom (finished_map (proofJobStoreAdapter_ListEvents off events))"
  shows "ValidateLedgerConsistency order (proofJobStoreAdapter_ListEvents off events)
     (ListToolInvocations jobID events) = None"
proof -
  let ?bk = "foldl acc_step Map.empty events" and ?fm = "finished_map (map to_proof_event events)"
  let ?ks = "sort (filter (\<lambda>k. ?bk k \<noteq> None) (remdups (event_keys events)))"
  let ?f = "\<lambda>k. invocation_of jobID k (the (?bk k))"
  have fm: "finished_map (proofJobStoreAdapter_ListEvents off events) = ?fm"
    by (simp only: finished_map_fields adapter_fields)
  have m: "acc_matches names ?fm ?bk k" for k using acc_matches_run [OF assms(1)] .
  have key: "TI_IdempotencyKey (?f k) = k" if "k \<in> set ?ks" for k
    using that m [of k] by (auto simp: invocation_of_def acc_matches_def)
  have ks: "k \<in> set ?ks \<longleftrightarrow> ?bk k \<noteq> None" for k using acc_keys by auto
  have lm: "ledger_map (map ?f ?ks) k = (if ?bk k \<noteq> None then Some (?f k) else None)" for k
    using ledger_map_keys [of ?ks ?f, OF _ key] ks by simp
  have L: "ListToolInvocations jobID events = map ?f ?ks" by (simp add: ListToolInvocations_def Let_def)
  show ?thesis
    unfolding ledger_consistency_spec [OF assms(2)] fm L lm
  proof (intro conjI allI impI ballI)
    fix k p assume p: "?fm k = Some p"
    with m [of k] obtain acc where "?bk k = Some acc" "outcome acc = getString p ''outcome''"
      "getString p ''tool_name'' \<in> {[], toolName acc}"
      by (auto simp: acc_matches_def split: option.splits)
    then show "\<exists>ti. (if ?bk k \<noteq> None then Some (?f k) else None) = Some ti
        \<and> (\<forall>n. str_field p ''tool_name'' = Some n \<longrightarrow> n \<noteq> [] \<longrightarrow> n = TI_ToolName ti)
        \<and> (str_field p ''outcome'' = Some ''success'' \<longrightarrow> TI_Committed ti)"
      by (auto simp: invocation_of_def getString_def)
  next
    fix ti assume "ti \<in> set (map ?f ?ks)" and c: "TI_Committed ti"
    then obtain k where k: "k \<in> set ?ks" "ti = ?f k" by auto
    with c m [of k] have "?fm k \<noteq> None"
      by (auto simp: acc_matches_def invocation_of_def split: option.splits)
    then show "?fm (TI_IdempotencyKey ti) \<noteq> None" using key k by simp
  qed
qed

text \<open>One finished invocation, with the payload \<open>{"idempotency_key":"k","tool_name":"t","outcome":"success"}\<close>.\<close>

definition ex_payload :: bytes where
  "ex_payload = (let q = (\<lambda>s. [CHR 0x22] @ s @ [CHR 0x22])
     in ''{'' @ q ''idempotency_key'' @ '':'' @ q ''k'' @ '','' @ q ''tool_name'' @ '':'' @ q ''t''
        @ '','' @ q ''outcome'' @ '':'' @ q ''success'' @ ''}'')"

definition ex_invocations :: "JobEvent list" where
  "ex_invocations = [JobEvent0\<lparr>Ev_Type := ToolInvocationFinished, Ev_Payload := ex_payload\<rparr>]"

lemma ex_payload_parse:
  "json_parse ex_payload = Some (JObj [(''idempotency_key'', JStr ''k''), (''tool_name'', JStr ''t''), (''outcome'', JStr ''success'')])"
  by code_simp

lemma ex_payload_key:
  "keyed_payload ex_payload = Some (''k'', [''outcome'' \<mapsto> JStr ''success'', ''tool_name'' \<mapsto> JStr ''t'', ''idempotency_key'' \<mapsto> JStr ''k''])"
  by (auto simp: keyed_payload_def unmarshal_map_def ex_payload_parse str_field_def)

theorem rebuilt_ledger_is_consistent_witness:
  "ValidateLedgerConsistency [''k''] (proofJobStoreAdapter_ListEvents 0 ex_invocations)
     (ListToolInvocations ''j'' ex_invocations) = None"
proof (rule rebuilt_ledger_is_consistent)
  show "agree_on_tools (\<lambda>_. ''t'') ex_invocations"
    by (simp add: agree_on_tools_def ex_invocations_def ex_payload_key getString_def str_field_def)
  have "finished_map (map to_proof_event ex_invocations) = [''k'' \<mapsto> [''outcome'' \<mapsto> JStr ''success'', ''tool_name'' \<mapsto> JStr ''t'', ''idempotency_key'' \<mapsto> JStr ''k'']]"
    by (simp add: finished_map_def finished_step_def ex_invocations_def to_proof_event_def ex_payload_key)
  then have "finished_map (proofJobStoreAdapter_ListEvents 0 ex_invocations) = [''k'' \<mapsto> [''outcome'' \<mapsto> JStr ''success'', ''tool_name'' \<mapsto> JStr ''t'', ''idempotency_key'' \<mapsto> JStr ''k'']]"
    by (simp only: finished_map_fields adapter_fields)
  then show "set [''k''] = dom (finished_map (proofJobStoreAdapter_ListEvents 0 ex_invocations))" by simp
qed

end
