(* ===== verification/Tool_Ledger.thy ===== *)
theory Tool_Ledger
  imports Event_Store Go_Float
begin

text \<open>
  The execution ledger of tool calls, \<open>internal/agent/runtime/executor\<close>: the record store
  (\<open>invocation_store.go\<close>, \<open>invocation_mem.go\<close>), the ledger that decides whether a tool may
  run (\<open>ledger.go\<close>, \<open>ledger_store.go\<close>), its keys (\<open>invocation.go\<close>, \<open>step_identity.go\<close>), the
  atomic commit protocol (\<open>atomic_commit.go\<close>), the effect store (\<open>effect_store_mem.go\<close>), and
  the lease check of \<open>internal/app/api/attempt_validator.go\<close>.

  The Go interface \<open>ToolInvocationStore\<close> is a record of operations; the ledger is defined over
  such a record, its at-most-once argument is made once in the locale \<open>invocation_store\<close>
  from the interface's laws, and the in-memory store interprets it.
\<close>

section \<open>Records\<close>

abbreviation ToolInvocationStatusStarted :: string where
  "ToolInvocationStatusStarted \<equiv> ''started''"

abbreviation ToolInvocationStatusSuccess :: string where
  "ToolInvocationStatusSuccess \<equiv> ''success''"

abbreviation ToolInvocationStatusFailure :: string where
  "ToolInvocationStatusFailure \<equiv> ''failure''"

abbreviation ToolInvocationStatusTimeout :: string where
  "ToolInvocationStatusTimeout \<equiv> ''timeout''"

abbreviation ToolInvocationStatusConfirmed :: string where
  "ToolInvocationStatusConfirmed \<equiv> ''confirmed''"

record ToolInvocationRecord =
  TR_InvocationID :: string
  TR_JobID :: string
  TR_StepID :: string
  TR_ToolName :: string
  TR_ArgsHash :: string
  TR_IdempotencyKey :: string
  TR_Status :: string
  TR_Result :: bytes
  TR_Committed :: bool
  TR_CreatedAt :: gotime
  TR_UpdatedAt :: gotime
  TR_ConfirmedAt :: "gotime option"
  TR_ExternalID :: string

definition ToolInvocationRecord0 :: ToolInvocationRecord where
  "ToolInvocationRecord0 = \<lparr>TR_InvocationID = [], TR_JobID = [], TR_StepID = [], TR_ToolName = [], TR_ArgsHash = [],
     TR_IdempotencyKey = [], TR_Status = [], TR_Result = [], TR_Committed = False, TR_CreatedAt = zero_time,
     TR_UpdatedAt = zero_time, TR_ConfirmedAt = None, TR_ExternalID = []\<rparr>"

text \<open>The interface; an error is its text.\<close>

record 's ToolInvocationStore =
  GetByJobAndIdempotencyKey :: "'s \<Rightarrow> string \<Rightarrow> string \<Rightarrow> string + ToolInvocationRecord option"
  SetStarted :: "ToolInvocationRecord \<Rightarrow> 's \<Rightarrow> string option \<times> 's"
  SetFinished :: "string \<Rightarrow> string \<Rightarrow> bytes \<Rightarrow> bool \<Rightarrow> string \<Rightarrow> 's \<Rightarrow> string option \<times> 's"

section \<open>In-memory store\<close>

type_synonym ToolInvocationStoreMem = "string \<rightharpoonup> ToolInvocationRecord"

definition NewToolInvocationStoreMem :: ToolInvocationStoreMem where
  "NewToolInvocationStoreMem = Map.empty"

definition mem_GetByJobAndIdempotencyKey ::
  "ToolInvocationStoreMem \<Rightarrow> string \<Rightarrow> string \<Rightarrow> string + ToolInvocationRecord option" where
  "mem_GetByJobAndIdempotencyKey s jobID idempotencyKey = Inr
     (case s idempotencyKey of None \<Rightarrow> None
      | Some r \<Rightarrow> if TR_JobID r \<noteq> jobID then None else Some r)"

definition mem_SetStarted ::
  "ToolInvocationRecord \<Rightarrow> ToolInvocationStoreMem \<Rightarrow> string option \<times> ToolInvocationStoreMem" where
  "mem_SetStarted r s =
     (let key = TR_IdempotencyKey r
      in if key = [] then (None, s)
         else (case s key of
             Some existing \<Rightarrow> if TR_Committed existing then (None, s) else (None, s(key \<mapsto> r))
           | None \<Rightarrow> (None, s(key \<mapsto> r))))"

definition mem_SetFinished ::
  "string \<Rightarrow> string \<Rightarrow> bytes \<Rightarrow> bool \<Rightarrow> string \<Rightarrow> ToolInvocationStoreMem \<Rightarrow> string option \<times> ToolInvocationStoreMem" where
  "mem_SetFinished idempotencyKey status result committed externalID s =
     (let r = (case s idempotencyKey of Some r \<Rightarrow> r
               | None \<Rightarrow> ToolInvocationRecord0\<lparr>TR_IdempotencyKey := idempotencyKey\<rparr>)
      in (None, s(idempotencyKey \<mapsto> r\<lparr>TR_Status := status, TR_Result := result, TR_Committed := committed,
                                     TR_ExternalID := externalID\<rparr>)))"

text \<open>The map is walked in an arbitrary order.\<close>

definition mem_ListByJobID :: "string list \<Rightarrow> ToolInvocationStoreMem \<Rightarrow> string \<Rightarrow> ToolInvocationRecord list" where
  "mem_ListByJobID order s jobID =
     filter (\<lambda>r. TR_JobID r = jobID) (List.map_filter s order)"

definition mem_invocations :: "ToolInvocationStoreMem ToolInvocationStore" where
  "mem_invocations = \<lparr>GetByJobAndIdempotencyKey = mem_GetByJobAndIdempotencyKey,
     SetStarted = mem_SetStarted, SetFinished = mem_SetFinished\<rparr>"

section \<open>Ledger\<close>

datatype InvocationDecision =
    InvocationDecisionAllowExecute
  | InvocationDecisionReturnRecordedResult
  | InvocationDecisionWaitOtherWorker
  | InvocationDecisionRejected

text \<open>
  \<open>json.Unmarshal\<close> into a struct of string fields: a member is stored in the field with its name,
  or else with its name up to ASCII case; \<open>null\<close> stores nothing; any other value for a field is an
  error; members that match no field are skipped.
\<close>

definition lower_char :: "char \<Rightarrow> char" where
  "lower_char c = (if 65 \<le> byte c \<and> byte c \<le> 90 then char_of (byte c + 32) else c)"

definition match_field :: "string list \<Rightarrow> string \<Rightarrow> string option" where
  "match_field tags k = (if k \<in> set tags then Some k
     else List.find (\<lambda>t. map lower_char t = map lower_char k) tags)"

fun store_members :: "string list \<Rightarrow> (string \<times> json) list \<Rightarrow> (string \<Rightarrow> string) \<Rightarrow> (string \<Rightarrow> string) option" where
  "store_members tags [] st = Some st"
| "store_members tags ((k, v) # ms) st =
     (case match_field tags k of None \<Rightarrow> store_members tags ms st
      | Some t \<Rightarrow> (case v of JStr s \<Rightarrow> store_members tags ms (st(t := s))
                  | JNull \<Rightarrow> store_members tags ms st
                  | _ \<Rightarrow> None))"

definition unmarshal_strings :: "string list \<Rightarrow> bytes \<Rightarrow> (string \<Rightarrow> string) option" where
  "unmarshal_strings tags data = (case json_parse data of
       Some (JObj ms) \<Rightarrow> store_members tags ms (\<lambda>_. [])
     | Some JNull \<Rightarrow> Some (\<lambda>_. [])
     | _ \<Rightarrow> None)"

abbreviation ledger_payload_tags :: "string list" where
  "ledger_payload_tags \<equiv> [''invocation_id'', ''job_id'', ''step_id'', ''tool_name'', ''idempotency_key'']"

text \<open>\<open>UnmarshalPayload\<close> leaves the struct alone when the payload is nil, here the empty text.\<close>

definition ledger_payload_key :: "JobEvent \<Rightarrow> string option" where
  "ledger_payload_key e = (if Ev_Payload e = [] then Some []
     else map_option (\<lambda>f. f ''idempotency_key'') (unmarshal_strings ledger_payload_tags (Ev_Payload e)))"

text \<open>The backward scan of \<open>hasOrphanedAcquired\<close>, on the reversed event list.\<close>

fun orphan_scan :: "string \<Rightarrow> bool \<Rightarrow> JobEvent list \<Rightarrow> bool" where
  "orphan_scan key acquiredFound [] = acquiredFound"
| "orphan_scan key acquiredFound (e # es) =
     (if Ev_Type e = LedgerCommitted \<and> ledger_payload_key e = Some key then False
      else if Ev_Type e = LedgerAcquired \<and> ledger_payload_key e = Some key then orphan_scan key True es
      else orphan_scan key acquiredFound es)"

text \<open>The event sink: \<open>None\<close> when it is not configured, otherwise what its \<open>ListEvents\<close> returns.\<close>

type_synonym ledger_sink = "(string + JobEvent list) option"

definition hasOrphanedAcquired :: "ledger_sink \<Rightarrow> string \<Rightarrow> bool" where
  "hasOrphanedAcquired eventSink idempotencyKey = (case eventSink of
       None \<Rightarrow> False
     | Some (Inl err) \<Rightarrow> False
     | Some (Inr events) \<Rightarrow> orphan_scan idempotencyKey False (rev events))"

record acquire_args =
  aq_jobID :: string
  aq_stepID :: string
  aq_toolName :: string
  aq_argsHash :: string
  aq_idempotencyKey :: string
  aq_replayResult :: bytes

text \<open>The first part of \<open>Acquire\<close>: every decision but the permission to execute.\<close>

definition acquire_lookup ::
  "'s ToolInvocationStore \<Rightarrow> ledger_sink \<Rightarrow> 's \<Rightarrow> acquire_args
     \<Rightarrow> (InvocationDecision \<times> ToolInvocationRecord option \<times> string option) option" where
  "acquire_lookup store eventSink s a =
     (if aq_replayResult a \<noteq> [] then
        Some (InvocationDecisionReturnRecordedResult,
          Some (ToolInvocationRecord0\<lparr>TR_JobID := aq_jobID a, TR_StepID := aq_stepID a, TR_ToolName := aq_toolName a,
            TR_ArgsHash := aq_argsHash a, TR_IdempotencyKey := aq_idempotencyKey a, TR_Result := aq_replayResult a,
            TR_Committed := True, TR_Status := ToolInvocationStatusSuccess\<rparr>), None)
      else (case GetByJobAndIdempotencyKey store s (aq_jobID a) (aq_idempotencyKey a) of
          Inl err \<Rightarrow> Some (InvocationDecisionRejected, None, Some err)
        | Inr rec \<Rightarrow>
            (case rec of
               Some r \<Rightarrow>
                 if TR_Committed r
                    \<and> (TR_Status r = ToolInvocationStatusSuccess \<or> TR_Status r = ToolInvocationStatusConfirmed)
                    \<and> TR_Result r \<noteq> []
                 then Some (InvocationDecisionReturnRecordedResult, Some r, None)
                 else if \<not> TR_Committed r then Some (InvocationDecisionWaitOtherWorker, None, None)
                 else if hasOrphanedAcquired eventSink (aq_idempotencyKey a)
                 then Some (InvocationDecisionWaitOtherWorker, None, None) else None
             | None \<Rightarrow>
                 if hasOrphanedAcquired eventSink (aq_idempotencyKey a)
                 then Some (InvocationDecisionWaitOtherWorker, None, None) else None)))"

definition new_invocation :: "string \<Rightarrow> acquire_args \<Rightarrow> ToolInvocationRecord" where
  "new_invocation uuid a = ToolInvocationRecord0\<lparr>TR_InvocationID := uuid, TR_JobID := aq_jobID a,
     TR_StepID := aq_stepID a, TR_ToolName := aq_toolName a, TR_ArgsHash := aq_argsHash a,
     TR_IdempotencyKey := aq_idempotencyKey a, TR_Status := ToolInvocationStatusStarted\<rparr>"

text \<open>The second part, a second call of the store: record the start and allow the execution.\<close>

definition acquire_start ::
  "'s ToolInvocationStore \<Rightarrow> string \<Rightarrow> 's \<Rightarrow> acquire_args
     \<Rightarrow> (InvocationDecision \<times> ToolInvocationRecord option \<times> string option) \<times> 's" where
  "acquire_start store uuid s a = (case SetStarted store (new_invocation uuid a) s of
       (Some err, s') \<Rightarrow> ((InvocationDecisionRejected, None, Some err), s')
     | (None, s') \<Rightarrow> ((InvocationDecisionAllowExecute, Some (new_invocation uuid a), None), s'))"

definition Acquire ::
  "'s ToolInvocationStore \<Rightarrow> ledger_sink \<Rightarrow> string \<Rightarrow> 's \<Rightarrow> acquire_args
     \<Rightarrow> (InvocationDecision \<times> ToolInvocationRecord option \<times> string option) \<times> 's" where
  "Acquire store eventSink uuid s a = (case acquire_lookup store eventSink s a of
       Some d \<Rightarrow> (d, s)
     | None \<Rightarrow> acquire_start store uuid s a)"

text \<open>
  The check of \<open>attempt_validator.go\<close>: \<open>cur\<close> is the event store's current attempt of the job; the
  in-memory store returns it without an error.
\<close>

definition ValidateAttempt :: "go_context option \<Rightarrow> string \<Rightarrow> JobStoreError option" where
  "ValidateAttempt ctx cur =
     (let want = AttemptIDFromContext ctx
      in if want = [] then None else if cur \<noteq> want then Some ErrStaleAttempt else None)"

datatype commit_error = CommitFenced JobStoreError | CommitStore string

text \<open>
  \<open>Commit\<close>; \<open>validator\<close> is the configured check of a job id, \<open>ctxJob\<close> the job id in the context.
  The invocation id is not used.
\<close>

definition Commit ::
  "'s ToolInvocationStore \<Rightarrow> (string \<Rightarrow> JobStoreError option) option \<Rightarrow> string \<Rightarrow> 's \<Rightarrow> string \<Rightarrow> bytes
     \<Rightarrow> commit_error option \<times> 's" where
  "Commit store validator ctxJob s idempotencyKey result =
     (case (case validator of None \<Rightarrow> None | Some v \<Rightarrow> if ctxJob \<noteq> [] then v ctxJob else None) of
        Some err \<Rightarrow> (Some (CommitFenced err), s)
      | None \<Rightarrow>
          (case SetFinished store idempotencyKey ToolInvocationStatusSuccess result True [] s of
             (err, s') \<Rightarrow> (map_option CommitStore err, s')))"

definition Recover :: "'s ToolInvocationStore \<Rightarrow> 's \<Rightarrow> string \<Rightarrow> string \<Rightarrow> bytes option" where
  "Recover store s jobID idempotencyKey = (case GetByJobAndIdempotencyKey store s jobID idempotencyKey of
       Inr (Some r) \<Rightarrow> if \<not> TR_Committed r \<or> TR_Result r = [] then None else Some (TR_Result r)
     | _ \<Rightarrow> None)"

section \<open>Keys\<close>

abbreviation nul :: string where
  "nul \<equiv> [CHR 0x00]"

text \<open>
  \<open>canonicalizeMap\<close> copies a map, and an empty nested map becomes a nil one, which \<open>json.Marshal\<close>
  writes as \<open>null\<close>; slices are not entered.
\<close>

fun canonicalize :: "json \<Rightarrow> json" where
  "canonicalize (JObj ms) = (if ms = [] then JNull else JObj (map (\<lambda>(k, v). (k, canonicalize v)) ms))"
| "canonicalize v = v"

definition args_text :: "(string \<times> json) list \<Rightarrow> bytes" where
  "args_text args = (if args = [] then [] else json_marshal (canonicalize (JObj args)))"

definition IdempotencyKey :: "string \<Rightarrow> string \<Rightarrow> string \<Rightarrow> (string \<times> json) list \<Rightarrow> string" where
  "IdempotencyKey jobID nodeID toolName args =
     sha256_hex (jobID @ nul @ nodeID @ nul @ toolName @ nul @ args_text args)"

definition ArgumentsHash :: "(string \<times> json) list \<Rightarrow> string" where
  "ArgumentsHash args = (if args = [] then []
     else take 16 (sha256_hex (json_marshal (canonicalize (JObj args)))))"

definition DeterministicStepID :: "string \<Rightarrow> string \<Rightarrow> int \<Rightarrow> string \<Rightarrow> string" where
  "DeterministicStepID jobID decisionID index nodeType =
     take 16 (sha256_hex (jobID @ nul @ decisionID @ nul @ dec_int index @ nul @ nodeType))"

definition PlanDecisionID :: "bytes \<Rightarrow> string" where
  "PlanDecisionID taskGraphState = (if taskGraphState = [] then [] else take 16 (sha256_hex taskGraphState))"

definition ToolInvocationID :: "string \<Rightarrow> string \<Rightarrow> string" where
  "ToolInvocationID invocationID idempotencyKey = (if invocationID \<noteq> [] then invocationID else idempotencyKey)"

section \<open>Effect store\<close>

text \<open>
  The copies that \<open>copyRecord\<close> makes are the values themselves here.  \<open>PutEffect\<close> stamps the record
  with the time and files it under its two keys.
\<close>

record EffectRecord =
  EF_JobID :: string
  EF_CommandID :: string
  EF_IdempotencyKey :: string
  EF_Kind :: string
  EF_Input :: bytes
  EF_Output :: bytes
  EF_Error :: string
  EF_Metadata :: "(string \<times> json) list"
  EF_CreatedAt :: gotime

record EffectStoreMem =
  ef_byKey :: "string \<rightharpoonup> EffectRecord"
  ef_byJob :: "string \<rightharpoonup> EffectRecord list"

definition NewEffectStoreMem :: EffectStoreMem where
  "NewEffectStoreMem = \<lparr>ef_byKey = Map.empty, ef_byJob = Map.empty\<rparr>"

definition keyID :: "string \<Rightarrow> string \<Rightarrow> string" where
  "keyID jobID idempotencyKey = jobID @ nul @ idempotencyKey"

definition keyCmd :: "string \<Rightarrow> string \<Rightarrow> string" where
  "keyCmd jobID commandID = jobID @ nul @ ''cmd'' @ nul @ commandID"

definition PutEffect :: "gotime \<Rightarrow> EffectStoreMem \<Rightarrow> EffectRecord \<Rightarrow> EffectStoreMem" where
  "PutEffect now s r =
     (if EF_JobID r = [] then s
      else let c = r\<lparr>EF_CreatedAt := now\<rparr>;
               k1 = (if EF_IdempotencyKey r \<noteq> []
                     then (ef_byKey s)(keyID (EF_JobID r) (EF_IdempotencyKey r) \<mapsto> c) else ef_byKey s);
               k2 = (if EF_CommandID r \<noteq> [] then k1(keyCmd (EF_JobID r) (EF_CommandID r) \<mapsto> c) else k1);
               old = (case ef_byJob s (EF_JobID r) of None \<Rightarrow> [] | Some rs \<Rightarrow> rs)
           in s\<lparr>ef_byKey := k2, ef_byJob := (ef_byJob s)(EF_JobID r \<mapsto> old @ [c])\<rparr>)"

definition GetEffectByJobAndIdempotencyKey :: "EffectStoreMem \<Rightarrow> string \<Rightarrow> string \<Rightarrow> EffectRecord option" where
  "GetEffectByJobAndIdempotencyKey s jobID idempotencyKey =
     (if jobID = [] \<or> idempotencyKey = [] then None else ef_byKey s (keyID jobID idempotencyKey))"

definition GetEffectByJobAndCommandID :: "EffectStoreMem \<Rightarrow> string \<Rightarrow> string \<Rightarrow> EffectRecord option" where
  "GetEffectByJobAndCommandID s jobID commandID =
     (if jobID = [] \<or> commandID = [] then None else ef_byKey s (keyCmd jobID commandID))"

section \<open>At most one permission per key\<close>

text \<open>
  What the ledger relies on of its store.  A key is free when no job has a record under it.  The laws
  are about success and failure of the writes: a failing write changes no record.
\<close>

locale invocation_store =
  fixes store :: "'s ToolInvocationStore"
  assumes started_free: "\<forall>j. GetByJobAndIdempotencyKey store s j (TR_IdempotencyKey r) = Inr None \<Longrightarrow>
      TR_IdempotencyKey r \<noteq> [] \<Longrightarrow> SetStarted store r s = (None, s') \<Longrightarrow>
      GetByJobAndIdempotencyKey store s' (TR_JobID r) (TR_IdempotencyKey r) = Inr (Some r)"
    and started_other: "TR_IdempotencyKey r \<noteq> k \<Longrightarrow>
      GetByJobAndIdempotencyKey store (snd (SetStarted store r s)) j k = GetByJobAndIdempotencyKey store s j k"
    and started_committed: "GetByJobAndIdempotencyKey store s j k = Inr (Some r0) \<Longrightarrow> TR_Committed r0 \<Longrightarrow>
      GetByJobAndIdempotencyKey store (snd (SetStarted store r s)) j k = Inr (Some r0)"
    and finished_get: "GetByJobAndIdempotencyKey store s j k = Inr (Some r0) \<Longrightarrow>
      SetFinished store k st res c x s = (None, s') \<Longrightarrow>
      GetByJobAndIdempotencyKey store s' j k =
        Inr (Some (r0\<lparr>TR_Status := st, TR_Result := res, TR_Committed := c, TR_ExternalID := x\<rparr>))"
    and finished_err: "SetFinished store k' st res c x s = (Some err, s') \<Longrightarrow>
      GetByJobAndIdempotencyKey store s' j k = GetByJobAndIdempotencyKey store s j k"
    and finished_other: "k' \<noteq> k \<Longrightarrow>
      GetByJobAndIdempotencyKey store (snd (SetFinished store k' st res c x s)) j k
        = GetByJobAndIdempotencyKey store s j k"

text \<open>
  The calls that may follow on a ledger: acquisitions and commits of any key, where key \<open>k\<close> belongs to
  job \<open>j\<close> and its commits carry a result.
\<close>

inductive ledger_step :: "'s ToolInvocationStore \<Rightarrow> string \<Rightarrow> string \<Rightarrow> 's \<Rightarrow> 's \<Rightarrow> bool" for store j k where
  lg_acquire: "aq_idempotencyKey a = k \<longrightarrow> aq_jobID a = j \<Longrightarrow>
     ledger_step store j k s (snd (Acquire store sink uuid s a))"
| lg_commit: "key = k \<longrightarrow> result \<noteq> [] \<Longrightarrow>
     ledger_step store j k s (snd (Commit store validator ctxJob s key result))"

text \<open>The record of a key that has been handed out: in flight, or committed with a usable result.\<close>

definition handed_out :: "'s ToolInvocationStore \<Rightarrow> 's \<Rightarrow> string \<Rightarrow> string \<Rightarrow> bool" where
  "handed_out store s j k \<longleftrightarrow> (case GetByJobAndIdempotencyKey store s j k of
       Inr (Some r) \<Rightarrow> \<not> TR_Committed r \<or> (TR_Status r = ToolInvocationStatusSuccess \<and> TR_Result r \<noteq> [])
     | _ \<Rightarrow> False)"

lemma new_invocation_simps [simp]:
  "TR_JobID (new_invocation u a) = aq_jobID a" "TR_IdempotencyKey (new_invocation u a) = aq_idempotencyKey a"
  "TR_Committed (new_invocation u a) = False" "TR_InvocationID (new_invocation u a) = u"
  by (simp_all add: new_invocation_def ToolInvocationRecord0_def)

lemma acquire_start_state: "snd (acquire_start store u s a) = snd (SetStarted store (new_invocation u a) s)"
  by (simp add: acquire_start_def split: prod.split option.split)

lemma handed_out_blocks:
  "handed_out store s j k \<Longrightarrow> aq_jobID a = j \<Longrightarrow> aq_idempotencyKey a = k \<Longrightarrow> acquire_lookup store sink s a \<noteq> None"
  by (auto simp: handed_out_def acquire_lookup_def split: sum.splits option.splits)

lemma Acquire_allows:
  "fst (fst (Acquire store sink u s a)) = InvocationDecisionAllowExecute \<Longrightarrow>
     acquire_lookup store sink s a = None \<and> (\<exists>s'. SetStarted store (new_invocation u a) s = (None, s')
       \<and> snd (Acquire store sink u s a) = s')"
  by (auto simp: Acquire_def acquire_lookup_def acquire_start_def split: option.splits prod.splits sum.splits if_splits)

lemma Commit_cases:
  obtains (fenced) e where "Commit store v cj s key res = (Some (CommitFenced e), s)"
  | (stored) e s' where "SetFinished store key ToolInvocationStatusSuccess res True [] s = (e, s')"
      "Commit store v cj s key res = (map_option CommitStore e, s')"
proof (cases "case v of None \<Rightarrow> None | Some v \<Rightarrow> if cj \<noteq> [] then v cj else None")
  case None
  show ?thesis
    by (rule stored [of "fst (SetFinished store key ToolInvocationStatusSuccess res True [] s)"
          "snd (SetFinished store key ToolInvocationStatusSuccess res True [] s)"])
      (simp, simp only: Commit_def None option.case, simp add: case_prod_unfold)
next
  case (Some e)
  show ?thesis by (rule fenced [of e]) (simp only: Commit_def Some option.case)
qed

context invocation_store begin

lemma handed_out_start:
  assumes "handed_out store s j k" and "aq_idempotencyKey a = k \<longrightarrow> aq_jobID a = j"
  shows "handed_out store (snd (Acquire store sink u s a)) j k"
proof (cases "acquire_lookup store sink s a")
  case None
  then have "aq_idempotencyKey a \<noteq> k" using handed_out_blocks [OF assms(1)] assms(2) by blast
  then have "GetByJobAndIdempotencyKey store (snd (Acquire store sink u s a)) j k = GetByJobAndIdempotencyKey store s j k"
    using None started_other [of "new_invocation u a" k s j] by (simp add: Acquire_def acquire_start_state)
  then show ?thesis using assms(1) by (simp add: handed_out_def)
qed (use assms(1) in \<open>simp add: Acquire_def\<close>)

lemma handed_out_commit:
  assumes "handed_out store s j k" and "key = k \<longrightarrow> res \<noteq> []"
  shows "handed_out store (snd (Commit store v cj s key res)) j k"
proof (cases rule: Commit_cases [of store v cj s key res])
  case (stored e s')
  show ?thesis
  proof (cases "key = k \<and> e = None")
    case True
    obtain r where "GetByJobAndIdempotencyKey store s j k = Inr (Some r)"
      using assms(1) by (auto simp: handed_out_def split: sum.splits option.splits)
    from finished_get [OF this] True stored assms(2) show ?thesis by (auto simp: handed_out_def)
  next
    case False
    have "GetByJobAndIdempotencyKey store s' j k = GetByJobAndIdempotencyKey store s j k"
    proof (cases e)
      case None
      with False have "key \<noteq> k" by simp
      from finished_other [OF this, of ToolInvocationStatusSuccess res True "[]" s j] stored(1)
      show ?thesis by (simp only: snd_conv)
    next
      case (Some x)
      from finished_err [OF stored(1) [unfolded Some]] show ?thesis .
    qed
    then show ?thesis using assms(1) stored(2) by (simp add: handed_out_def)
  qed
qed (use assms(1) in simp)

lemma handed_out_run: "(ledger_step store j k)\<^sup>*\<^sup>* s s' \<Longrightarrow> handed_out store s j k \<Longrightarrow> handed_out store s' j k"
  by (induction rule: rtranclp_induct)
    (auto elim!: ledger_step.cases intro: handed_out_start handed_out_commit)

lemma allowed_is_handed_out:
  assumes "fst (fst (Acquire store sink u s a)) = InvocationDecisionAllowExecute"
    and "\<forall>j. GetByJobAndIdempotencyKey store s j (aq_idempotencyKey a) = Inr None" and "aq_idempotencyKey a \<noteq> []"
  shows "handed_out store (snd (Acquire store sink u s a)) (aq_jobID a) (aq_idempotencyKey a)"
  using Acquire_allows [OF assms(1)] started_free [of s "new_invocation u a"] assms(2,3)
  by (auto simp: handed_out_def)

lemma allowed_once:
  assumes "fst (fst (Acquire store sink u s a)) = InvocationDecisionAllowExecute"
    and "\<forall>j. GetByJobAndIdempotencyKey store s j (aq_idempotencyKey a) = Inr None" and "aq_idempotencyKey a \<noteq> []"
    and "(ledger_step store (aq_jobID a) (aq_idempotencyKey a))\<^sup>*\<^sup>* (snd (Acquire store sink u s a)) s'"
    and "aq_jobID a' = aq_jobID a" and "aq_idempotencyKey a' = aq_idempotencyKey a"
  shows "fst (fst (Acquire store sink' u' s' a')) \<noteq> InvocationDecisionAllowExecute"
proof -
  have 1: "acquire_lookup store sink' s' a' \<noteq> None"
    by (rule handed_out_blocks [OF handed_out_run [OF assms(4) allowed_is_handed_out [OF assms(1-3)]] assms(5,6)])
  show ?thesis
  proof
    assume "fst (fst (Acquire store sink' u' s' a')) = InvocationDecisionAllowExecute"
    from Acquire_allows [OF this] 1 show False by simp
  qed
qed

end

interpretation mem_store: invocation_store mem_invocations
proof
  fix s s' :: ToolInvocationStoreMem and r assume "\<forall>j. GetByJobAndIdempotencyKey mem_invocations s j (TR_IdempotencyKey r) = Inr None"
    and "TR_IdempotencyKey r \<noteq> []" and "SetStarted mem_invocations r s = (None, s')"
  then show "GetByJobAndIdempotencyKey mem_invocations s' (TR_JobID r) (TR_IdempotencyKey r) = Inr (Some r)"
    by (auto simp: mem_invocations_def mem_GetByJobAndIdempotencyKey_def mem_SetStarted_def Let_def
        split: option.splits if_splits)
qed (auto simp: mem_invocations_def mem_GetByJobAndIdempotencyKey_def mem_SetStarted_def mem_SetFinished_def Let_def
    split: option.splits if_splits)

text \<open>
  C6. At most one execution per idempotency key: once the in-memory ledger has allowed an execution under
  a fresh key, it allows no other one under that key, through any sequence of acquisitions and
  commits by any workers for any keys, as long as the key is used by its own job and its
  commits carry a result.
\<close>

theorem ledger_allows_once:
  assumes "fst (fst (Acquire mem_invocations sink u s a)) = InvocationDecisionAllowExecute"
    and "s (aq_idempotencyKey a) = None" and "aq_idempotencyKey a \<noteq> []"
    and "(ledger_step mem_invocations (aq_jobID a) (aq_idempotencyKey a))\<^sup>*\<^sup>* (snd (Acquire mem_invocations sink u s a)) s'"
    and "aq_jobID a' = aq_jobID a" and "aq_idempotencyKey a' = aq_idempotencyKey a"
  shows "fst (fst (Acquire mem_invocations sink' u' s' a')) \<noteq> InvocationDecisionAllowExecute"
proof (rule mem_store.allowed_once [OF assms(1) _ assms(3-6)])
  show "\<forall>j. GetByJobAndIdempotencyKey mem_invocations s j (aq_idempotencyKey a) = Inr None"
    using assms(2) by (simp add: mem_invocations_def mem_GetByJobAndIdempotencyKey_def)
qed

section \<open>A committed result is returned\<close>

text \<open>Later calls that do not commit key \<open>k\<close> again.\<close>

inductive later_ledger_step :: "'s ToolInvocationStore \<Rightarrow> string \<Rightarrow> 's \<Rightarrow> 's \<Rightarrow> bool" for store k where
  ll_acquire: "later_ledger_step store k s (snd (Acquire store sink uuid s a))"
| ll_commit: "key \<noteq> k \<Longrightarrow> later_ledger_step store k s (snd (Commit store validator ctxJob s key result))"

context invocation_store begin

lemma committed_step:
  assumes "later_ledger_step store k s s'" and "GetByJobAndIdempotencyKey store s j k = Inr (Some r)" and "TR_Committed r"
  shows "GetByJobAndIdempotencyKey store s' j k = Inr (Some r)"
  using assms(1)
proof cases
  case (ll_acquire sink u a)
  then show ?thesis using assms(2,3) started_committed [OF assms(2,3)]
    by (cases "acquire_lookup store sink s a") (simp_all add: Acquire_def acquire_start_state)
next
  case (ll_commit key v cj res)
  show ?thesis
  proof (cases rule: Commit_cases [of store v cj s key res])
    case (stored e s'')
    then show ?thesis using ll_commit assms(2) finished_other [OF ll_commit(2), of ToolInvocationStatusSuccess res True "[]" s j]
      by (simp only: snd_conv)
  qed (use ll_commit assms(2) in simp)
qed

lemma committed_run:
  "(later_ledger_step store k)\<^sup>*\<^sup>* s s' \<Longrightarrow> GetByJobAndIdempotencyKey store s j k = Inr (Some r) \<Longrightarrow> TR_Committed r \<Longrightarrow>
     GetByJobAndIdempotencyKey store s' j k = Inr (Some r)"
  by (induction rule: rtranclp_induct) (auto intro: committed_step)

lemma commit_stores:
  assumes "Commit store v cj s k res = (None, s')" and "GetByJobAndIdempotencyKey store s j k = Inr (Some r)"
  shows "\<exists>r'. GetByJobAndIdempotencyKey store s' j k = Inr (Some r') \<and> TR_Committed r' \<and> TR_Result r' = res
     \<and> TR_Status r' = ToolInvocationStatusSuccess \<and> TR_InvocationID r' = TR_InvocationID r"
proof (cases rule: Commit_cases [of store v cj s k res])
  case (stored e s'')
  then have "SetFinished store k ToolInvocationStatusSuccess res True [] s = (None, s')" using assms(1) by simp
  from finished_get [OF assms(2) this] show ?thesis by simp
qed (use assms(1) in simp)

lemma recorded_result:
  assumes "Commit store v cj s k res = (None, s1)" and "GetByJobAndIdempotencyKey store s j k = Inr (Some r)"
    and "res \<noteq> []" and "(later_ledger_step store k)\<^sup>*\<^sup>* s1 s2" and "aq_jobID a = j" and "aq_idempotencyKey a = k"
    and "aq_replayResult a = []"
  shows "\<exists>r'. Acquire store sink u s2 a = ((InvocationDecisionReturnRecordedResult, Some r', None), s2)
      \<and> TR_Result r' = res \<and> TR_InvocationID r' = TR_InvocationID r" and "Recover store s2 j k = Some res"
proof -
  obtain r' where r': "GetByJobAndIdempotencyKey store s1 j k = Inr (Some r')" "TR_Committed r'" "TR_Result r' = res"
    "TR_Status r' = ToolInvocationStatusSuccess" "TR_InvocationID r' = TR_InvocationID r"
    using commit_stores [OF assms(1,2)] by blast
  note g = committed_run [OF assms(4) r'(1,2)]
  show "Recover store s2 j k = Some res" using g r' assms(3) by (simp add: Recover_def)
  show "\<exists>r'. Acquire store sink u s2 a = ((InvocationDecisionReturnRecordedResult, Some r', None), s2)
      \<and> TR_Result r' = res \<and> TR_InvocationID r' = TR_InvocationID r"
    using g r' assms(3,5-7) by (simp add: Acquire_def acquire_lookup_def)
qed

end

text \<open>
  C7. Replay gets what was committed: after a commit with a result, and any later acquisitions of any key
  and commits of other keys, an acquisition of the key returns the recorded result instead of
  an execution permission and leaves the store alone, and \<open>Recover\<close> returns the same result.
\<close>

theorem committed_result_is_replayed:
  assumes "fst (fst (Acquire mem_invocations sink0 u0 s0 a)) = InvocationDecisionAllowExecute"
    and "s0 (aq_idempotencyKey a) = None" and "aq_idempotencyKey a \<noteq> []"
    and "Commit mem_invocations v cj (snd (Acquire mem_invocations sink0 u0 s0 a)) (aq_idempotencyKey a) res = (None, s1)"
    and "res \<noteq> []" and "(later_ledger_step mem_invocations (aq_idempotencyKey a))\<^sup>*\<^sup>* s1 s2"
    and "aq_replayResult a = []"
  shows "(\<exists>r. Acquire mem_invocations sink u s2 a = ((InvocationDecisionReturnRecordedResult, Some r, None), s2)
      \<and> TR_Result r = res \<and> TR_InvocationID r = u0)
    \<and> Recover mem_invocations s2 (aq_jobID a) (aq_idempotencyKey a) = Some res"
proof -
  have free: "\<forall>j. GetByJobAndIdempotencyKey mem_invocations s0 j (aq_idempotencyKey a) = Inr None"
    using assms(2) by (simp add: mem_invocations_def mem_GetByJobAndIdempotencyKey_def)
  obtain s' where "SetStarted mem_invocations (new_invocation u0 a) s0 = (None, s')"
    "snd (Acquire mem_invocations sink0 u0 s0 a) = s'" using Acquire_allows [OF assms(1)] by blast
  then have "GetByJobAndIdempotencyKey mem_invocations (snd (Acquire mem_invocations sink0 u0 s0 a)) (aq_jobID a) (aq_idempotencyKey a)
      = Inr (Some (new_invocation u0 a))"
    using mem_store.started_free [of s0 "new_invocation u0 a" s'] free assms(3) by simp
  from mem_store.recorded_result [OF assms(4) this assms(5,6) refl refl assms(7)] show ?thesis by simp
qed

text \<open>
  \<open>Acquire\<close> reads the record and writes it in two separate calls of the store.  When two workers
  interleave them on a key that is free, both are allowed to execute; one after the other,
  the second has to wait.
\<close>

theorem interleaved_acquires_both_allowed:
  assumes "s (aq_idempotencyKey a) = None" and "aq_idempotencyKey a \<noteq> []" and "aq_replayResult a = []"
    and "\<not> hasOrphanedAcquired sink (aq_idempotencyKey a)"
  shows "acquire_lookup mem_invocations sink s a = None
    \<and> fst (fst (acquire_start mem_invocations u1 s a)) = InvocationDecisionAllowExecute
    \<and> fst (fst (acquire_start mem_invocations u2 (snd (acquire_start mem_invocations u1 s a)) a)) = InvocationDecisionAllowExecute
    \<and> fst (fst (Acquire mem_invocations sink u2 (snd (Acquire mem_invocations sink u1 s a)) a)) = InvocationDecisionWaitOtherWorker"
proof -
  have look: "acquire_lookup mem_invocations sink s a = None"
    using assms by (simp add: acquire_lookup_def mem_invocations_def mem_GetByJobAndIdempotencyKey_def)
  have start: "acquire_start mem_invocations u t a = ((InvocationDecisionAllowExecute, Some (new_invocation u a), None),
      t(aq_idempotencyKey a \<mapsto> new_invocation u a))"
    if "\<forall>r. t (aq_idempotencyKey a) = Some r \<longrightarrow> \<not> TR_Committed r" for t u
    using that assms(2)
    by (auto simp: acquire_start_def mem_invocations_def mem_SetStarted_def Let_def split: option.splits)
  have "Acquire mem_invocations sink u1 s a = acquire_start mem_invocations u1 s a" using look by (simp add: Acquire_def)
  then have "snd (Acquire mem_invocations sink u1 s a) = s(aq_idempotencyKey a \<mapsto> new_invocation u1 a)"
    using start [of s u1] assms(1) by simp
  then have "fst (fst (Acquire mem_invocations sink u2 (snd (Acquire mem_invocations sink u1 s a)) a)) = InvocationDecisionWaitOtherWorker"
    using assms(3) by (simp add: Acquire_def acquire_lookup_def mem_invocations_def mem_GetByJobAndIdempotencyKey_def)
  then show ?thesis using look start [of s u1] start [of "s(aq_idempotencyKey a \<mapsto> new_invocation u1 a)" u2] assms(1)
    by simp
qed

section \<open>Concrete runs\<close>

definition ex_acquire :: acquire_args where
  "ex_acquire = \<lparr>aq_jobID = ''j'', aq_stepID = ''s'', aq_toolName = ''pay'', aq_argsHash = [],
     aq_idempotencyKey = ''k'', aq_replayResult = []\<rparr>"

definition ex_started :: ToolInvocationStoreMem where
  "ex_started = snd (Acquire mem_invocations None ''u1'' NewToolInvocationStoreMem ex_acquire)"

definition ex_committed :: ToolInvocationStoreMem where
  "ex_committed = snd (Commit mem_invocations None ''j'' ex_started ''k'' ''{}'')"

lemmas ex_ledger_defs = ex_acquire_def ex_started_def ex_committed_def NewToolInvocationStoreMem_def mem_invocations_def
  mem_GetByJobAndIdempotencyKey_def mem_SetStarted_def mem_SetFinished_def Acquire_def acquire_lookup_def
  acquire_start_def hasOrphanedAcquired_def Commit_def

lemma ex_first_allowed:
  "fst (fst (Acquire mem_invocations None ''u1'' NewToolInvocationStoreMem ex_acquire)) = InvocationDecisionAllowExecute"
  by (simp add: ex_ledger_defs new_invocation_def Let_def)

theorem ledger_allows_once_witness:
  "fst (fst (Acquire mem_invocations None ''u2'' ex_committed ex_acquire)) \<noteq> InvocationDecisionAllowExecute"
proof (rule ledger_allows_once [OF ex_first_allowed])
  show "(ledger_step mem_invocations (aq_jobID ex_acquire) (aq_idempotencyKey ex_acquire))\<^sup>*\<^sup>*
      (snd (Acquire mem_invocations None ''u1'' NewToolInvocationStoreMem ex_acquire)) ex_committed"
    unfolding ex_committed_def ex_started_def by (intro r_into_rtranclp ledger_step.lg_commit) simp
qed (simp_all add: ex_acquire_def NewToolInvocationStoreMem_def)

theorem committed_result_is_replayed_witness:
  "Recover mem_invocations ex_committed ''j'' ''k'' = Some ''{}''"
proof -
  have c: "Commit mem_invocations None ''j'' (snd (Acquire mem_invocations None ''u1'' NewToolInvocationStoreMem ex_acquire))
      (aq_idempotencyKey ex_acquire) ''{}'' = (None, ex_committed)"
    by (simp add: ex_ledger_defs new_invocation_def Let_def)
  show ?thesis
    using committed_result_is_replayed [OF ex_first_allowed _ _ c, of ex_committed None "''u2''"]
    by (simp add: ex_acquire_def NewToolInvocationStoreMem_def)
qed

theorem interleaved_acquires_both_allowed_witness:
  "fst (fst (acquire_start mem_invocations ''u2'' ex_started ex_acquire)) = InvocationDecisionAllowExecute
   \<and> fst (fst (Acquire mem_invocations None ''u2'' ex_started ex_acquire)) = InvocationDecisionWaitOtherWorker"
proof -
  have "snd (acquire_start mem_invocations ''u1'' NewToolInvocationStoreMem ex_acquire) = ex_started"
    by (simp add: ex_ledger_defs Let_def)
  then show ?thesis
    using interleaved_acquires_both_allowed [of NewToolInvocationStoreMem ex_acquire None "''u1''" "''u2''"]
    by (simp add: ex_acquire_def ex_started_def NewToolInvocationStoreMem_def hasOrphanedAcquired_def)
qed

end
