(* ===== verification/Go_Value.thy ===== *)
theory Go_Value
  imports Go_Float
begin

text \<open>
  Values of Go's empty interface type, their encoding and decoding by \<open>encoding/json\<close>, and
  string maps of such values, \<open>map[string]any\<close>, kept as association lists in key order, so that
  equal maps are equal lists.
\<close>

text \<open>
  A Go \<open>interface{}\<close>: JSON-like values, an instant with its zone, and values that \<open>json.Marshal\<close>
  refuses (channels, functions, NaN).
\<close>

datatype goval =
    GNil
  | GBool bool
  | GNum string
  | GStr string
  | GTime int gotime
  | GList "goval list"
  | GMap "(string \<times> goval) list"
  | GOpaque

fun goval_json :: "goval \<Rightarrow> json option" where
  "goval_json GNil = Some JNull"
| "goval_json (GBool b) = Some (JBool b)"
| "goval_json (GNum n) = Some (JNum n)"
| "goval_json (GStr s) = Some (JStr s)"
| "goval_json (GTime off t) = Some (JStr (rfc3339nano off t))"
| "goval_json (GList xs) = map_option JArr (those (map goval_json xs))"
| "goval_json (GMap ms) =
     map_option (\<lambda>vs. JObj (zip (map fst ms) vs)) (those (map (\<lambda>(k, v). goval_json v) ms))"
| "goval_json GOpaque = None"

text \<open>\<open>b, _ := json.Marshal(v)\<close>: no bytes when the value is refused.\<close>

definition go_marshal :: "goval \<Rightarrow> bytes" where
  "go_marshal v = (case goval_json v of Some j \<Rightarrow> json_marshal j | None \<Rightarrow> [])"

fun json_goval :: "json \<Rightarrow> goval" where
  "json_goval JNull = GNil"
| "json_goval (JBool b) = GBool b"
| "json_goval (JNum n) = GNum n"
| "json_goval (JStr s) = GStr s"
| "json_goval (JArr xs) = GList (map json_goval xs)"
| "json_goval (JObj ms) = GMap (map (\<lambda>(k, v). (k, json_goval v)) ms)"

section \<open>Maps\<close>

type_synonym gomap = "(string \<times> goval) list"

text \<open>\<open>m[k] = v\<close>, and \<open>for k, v := range r { m[k] = v }\<close>.\<close>

definition gput :: "string \<Rightarrow> goval \<Rightarrow> gomap \<Rightarrow> gomap" where
  "gput k v m = insort_key fst (k, v) (filter (\<lambda>(k', _). k' \<noteq> k) m)"

definition gmerge :: "gomap \<Rightarrow> gomap \<Rightarrow> gomap" where
  "gmerge m r = foldl (\<lambda>m (k, v). gput k v m) m r"

text \<open>\<open>json.Marshal\<close> of a map, with the error dropped, and \<open>json.Unmarshal\<close> into a nil map: \<open>None\<close> is an error.\<close>

definition marshal_map :: "gomap \<Rightarrow> bytes" where
  "marshal_map m = go_marshal (GMap m)"

datatype decoded = DecodeError | NilMap | MapOf gomap

definition decode_map :: "bytes \<Rightarrow> decoded" where
  "decode_map b = (case json_parse b of
       Some (JObj ms) \<Rightarrow> MapOf (map_entries (map (\<lambda>(k, v). (k, json_goval v)) ms))
     | Some JNull \<Rightarrow> NilMap
     | _ \<Rightarrow> DecodeError)"

text \<open>A map that survives being written as JSON and read back, as one of strings, booleans and float64 values does.\<close>

definition json_stable :: "gomap \<Rightarrow> bool" where
  "json_stable m \<longleftrightarrow> marshal_map m \<noteq> [] \<and> decode_map (marshal_map m) = MapOf m"

end
