(* ===== verification/Tool_Node.thy ===== *)
theory Tool_Node
  imports Tool_Ledger Go_Value
begin

text \<open>
  The tool node of a job's graph, \<open>ToolNodeAdapter\<close> in \<open>node_adapter.go\<close>: the function that
  decides, for one step of a job, whether a recorded result is injected or the tool is run, and
  that writes effects, events and the ledger around the call.  Metrics, tracing spans and sleeping are
  left out.  The tool, the resource verifier, the policy checker and the rate limiter are
  interfaces of the program: they are functions in the adapter record.  An event sink is a
  log; \<open>ta_sink_ok\<close> says which appends succeed.
\<close>

definition FormatStartedAt :: "gotime \<Rightarrow> string" where
  "FormatStartedAt t = rfc3339nano 0 (t - t mod Second)"

definition str_contains :: "string \<Rightarrow> string \<Rightarrow> bool" where
  "str_contains s sub = list_ex (\<lambda>i. take (length sub) (drop i s) = sub) [0..<Suc (length s)]"

section \<open>Types\<close>

datatype StepResultType =
    StepResultSuccess
  | StepResultPure
  | StepResultSideEffectCommitted
  | StepResultRetryableFailure
  | StepResultPermanentFailure
  | StepResultCompensatableFailure
  | StepResultCompensated

text \<open>An error of a tool: its text, and whether a retryable failure or \<open>ErrRetryable\<close> is in its chain.\<close>

record tool_error =
  te_text :: string
  te_retryable :: bool

datatype node_error =
    StepFailure StepResultType string
  | CapabilityRequiresApproval string
  | ToolError tool_error
  | LedgerError string
  | SinkError

record RetryPolicy =
  MaxRetries :: nat
  Backoff :: duration
  RetryableErrors :: "string list"

definition IsRetryable :: "tool_error \<Rightarrow> RetryPolicy option \<Rightarrow> bool" where
  "IsRetryable err policy = (case policy of None \<Rightarrow> False
     | Some p \<Rightarrow> te_retryable err
         \<or> (RetryableErrors p \<noteq> [] \<and> list_ex (\<lambda>sub. str_contains (te_text err) sub) (RetryableErrors p)))"

record ToolResult =
  RS_Done :: bool
  RS_State :: goval
  RS_Output :: string
  RS_Err :: string

record StateChangeForVerify =
  SC_ResourceType :: string
  SC_ResourceID :: string
  SC_Operation :: string
  SC_ExternalRef :: string

datatype ReplayVerificationMode = ReplayVerificationStrict | ReplayVerificationWarn | ReplayVerificationHumanInLoop

datatype sink_event =
    EvToolInvocationStarted string string string string string
  | EvToolInvocationFinished string string string string bytes string
  | EvCommandEmitted string string bytes
  | EvCommandCommitted string string bytes string
  | EvToolCalled string string bytes
  | EvToolReturned string bytes
  | EvToolResultSummarized string string string string

record 's ledgerStore =
  ls_store :: "'s ToolInvocationStore"
  ls_attemptValidator :: "(string \<Rightarrow> JobStoreError option) option"
  ls_eventSink :: ledger_sink

text \<open>What the context of a call carries.\<close>

record node_ctx =
  nc_jobID :: string
  nc_stepID :: string
  nc_pending :: "string list option"
  nc_completed :: "(string \<rightharpoonup> bytes) option"
  nc_changes :: "string \<rightharpoonup> StateChangeForVerify list"
  nc_approved :: "string list"

text \<open>A call of the tool: the attempt, the name, the configuration, the state; result and error.\<close>

type_synonym tool_exec = "nat \<Rightarrow> string \<Rightarrow> (string \<times> json) list \<Rightarrow> goval \<Rightarrow> ToolResult \<times> tool_error option"

record 's ToolNodeAdapter =
  ta_tools :: tool_exec
  ta_ToolEventSink :: bool
  ta_CommandEventSink :: bool
  ta_sink_ok :: "sink_event \<Rightarrow> bool"
  ta_InvocationLedger :: "'s ledgerStore option"
  ta_InvocationStore :: "'s ToolInvocationStore option"
  ta_EffectStore :: bool
  ta_CapabilityPolicyChecker ::
    "(string \<Rightarrow> string \<Rightarrow> string \<Rightarrow> string \<Rightarrow> string list \<Rightarrow> bool \<times> bool \<times> string option) option"
  ta_ToolCapabilityFunc :: "(string \<Rightarrow> string) option"
  ta_ResourceVerifier :: "(string \<Rightarrow> string \<Rightarrow> StateChangeForVerify \<Rightarrow> bool \<times> string option) option"
  ta_ReplayVerificationMode :: ReplayVerificationMode
  ta_RetryPolicy :: "RetryPolicy option"
  ta_RateLimiter :: "(string \<Rightarrow> string option) option"

text \<open>
  The state a call works on: the invocation records, the effects, the events written, the execution keys
  the tool was run with, the payload's results, and the agent's session.
\<close>

record 's node_state =
  nd_inv :: 's
  nd_eff :: EffectStoreMem
  nd_log :: "sink_event list"
  nd_runs :: "string list"
  nd_results :: "string \<rightharpoonup> goval"
  nd_messages :: "(string \<times> string) list"
  nd_calls :: "(string \<times> string \<times> string) list"

text \<open>What a call brings from outside: fresh ids, clock readings, the zone, whether an agent session is there.\<close>

record node_env =
  nv_uuid1 :: string
  nv_uuid2 :: string
  nv_started :: gotime
  nv_finished :: gotime
  nv_now :: gotime
  nv_zone :: int
  nv_session :: bool

section \<open>Writing\<close>

definition emit :: "'s ToolNodeAdapter \<Rightarrow> sink_event \<Rightarrow> 's node_state \<Rightarrow> 's node_state" where
  "emit ad ev st = (if ta_sink_ok ad ev then st\<lparr>nd_log := nd_log st @ [ev]\<rparr> else st)"

text \<open>Appends whose error is ignored.\<close>

definition tool_event :: "'s ToolNodeAdapter \<Rightarrow> string \<Rightarrow> sink_event \<Rightarrow> 's node_state \<Rightarrow> 's node_state" where
  "tool_event ad jobID ev st = (if ta_ToolEventSink ad \<and> jobID \<noteq> [] then emit ad ev st else st)"

definition truncateStr :: "string \<Rightarrow> nat \<Rightarrow> string" where
  "truncateStr s mx = (if mx = 0 \<or> length s \<le> mx then s else trim_space (take mx s) @ ''...'')"

definition attachToolEvidence :: "(string \<times> goval) list \<Rightarrow> string \<Rightarrow> (string \<times> goval) list" where
  "attachToolEvidence m idempotencyKey = (if idempotencyKey = [] then m
     else filter (\<lambda>(k, _). k \<noteq> ''_evidence'') m
       @ [(''_evidence'', GMap [(''tool_invocation_ids'', GList [GStr idempotencyKey])])])"

text \<open>The recorded bytes decoded into a map (a fresh one if they are no object) as the step's result.\<close>

definition inject_result :: "string \<Rightarrow> string \<Rightarrow> bytes \<Rightarrow> 's node_state \<Rightarrow> 's node_state" where
  "inject_result taskID idempotencyKey resultBytes st =
     (let nodeResult = (case json_parse resultBytes of
            Some (JObj ms) \<Rightarrow> map (\<lambda>(k, v). (k, json_goval v)) ms | _ \<Rightarrow> [])
      in st\<lparr>nd_results := (nd_results st)(taskID \<mapsto> GMap (attachToolEvidence nodeResult idempotencyKey))\<rparr>)"

definition extractExternalID :: "string \<Rightarrow> goval \<Rightarrow> string" where
  "extractExternalID output state =
     (let from_output = (if output = [] then [] else
            (case unmarshal_map output of
               Some m \<Rightarrow> (case str_field m ''external_id'' of Some i \<Rightarrow> i | None \<Rightarrow> []) | None \<Rightarrow> []))
      in if from_output \<noteq> [] then from_output
         else (case state of GMap ms \<Rightarrow>
                 (case map_of (rev ms) ''external_id'' of Some (GStr i) \<Rightarrow> i | _ \<Rightarrow> [])
               | _ \<Rightarrow> []))"

fun confirm_changes ::
  "ReplayVerificationMode \<Rightarrow> (StateChangeForVerify \<Rightarrow> bool \<times> string option) \<Rightarrow> StateChangeForVerify list
     \<Rightarrow> node_error option" where
  "confirm_changes mode verify [] = None"
| "confirm_changes mode verify (c # cs) =
     (case verify c of (ok, err) \<Rightarrow>
       (if err = None \<and> ok then confirm_changes mode verify cs
        else if mode = ReplayVerificationWarn then None
        else if mode = ReplayVerificationHumanInLoop
        then Some (StepFailure StepResultPermanentFailure ''replay verification failed: human-in-loop required'')
        else Some (StepFailure StepResultPermanentFailure
          (case err of Some e \<Rightarrow> e
           | None \<Rightarrow> ''confirmation failed: resource '' @ SC_ResourceType c @ '' '' @ SC_ResourceID c @ '' '' @ SC_Operation c))))"

definition runConfirmation ::
  "'s ToolNodeAdapter \<Rightarrow> string \<Rightarrow> string \<Rightarrow> StateChangeForVerify list \<Rightarrow> node_error option" where
  "runConfirmation ad jobID taskID stepChanges = (case ta_ResourceVerifier ad of
       None \<Rightarrow> None
     | Some verify \<Rightarrow> confirm_changes (ta_ReplayVerificationMode ad) (verify jobID taskID) stepChanges)"

definition writeCatchUpFinished ::
  "'s ToolNodeAdapter \<Rightarrow> string \<Rightarrow> string \<Rightarrow> string \<Rightarrow> string \<Rightarrow> bytes \<Rightarrow> 's node_state \<Rightarrow> node_error option \<times> 's node_state" where
  "writeCatchUpFinished ad taskID nodeIDForEvent idempotencyKey argsHash resultBytes st =
     (let nodeID = (if nodeIDForEvent = [] then taskID else nodeIDForEvent);
          fin = EvToolInvocationFinished nodeID (''catchup-'' @ idempotencyKey) idempotencyKey ''success'' resultBytes [];
          com = EvCommandCommitted nodeID taskID resultBytes argsHash
      in if ta_ToolEventSink ad \<and> \<not> ta_sink_ok ad fin then (Some SinkError, st)
         else let st1 = (if ta_ToolEventSink ad then emit ad fin st else st)
              in if ta_CommandEventSink ad \<and> \<not> ta_sink_ok ad com then (Some SinkError, st1)
                 else (None, if ta_CommandEventSink ad then emit ad com st1 else st1))"

section \<open>Running the tool\<close>

text \<open>
  The retry loop: at most \<open>1 + MaxRetries\<close> calls, each with the state the failed one before it
  returned.  The last component counts the calls.
\<close>

fun tool_attempts ::
  "(nat \<Rightarrow> goval \<Rightarrow> ToolResult \<times> tool_error option) \<Rightarrow> RetryPolicy option \<Rightarrow> nat \<Rightarrow> nat \<Rightarrow> goval
     \<Rightarrow> ToolResult \<times> tool_error option \<times> nat" where
  "tool_attempts run policy 0 attempt state = (case run attempt state of (r, e) \<Rightarrow> (r, e, 1))"
| "tool_attempts run policy (Suc n) attempt state = (case run attempt state of
       (r, None) \<Rightarrow> (r, None, 1)
     | (r, Some err) \<Rightarrow>
         if \<not> IsRetryable err policy then (r, Some err, 1)
         else (case tool_attempts run policy n (Suc attempt) (if RS_State r \<noteq> GNil then RS_State r else state) of
             (r', e', k) \<Rightarrow> (r', e', Suc k)))"

record node_call =
  cl_jobID :: string
  cl_taskID :: string
  cl_toolName :: string
  cl_cfg :: "(string \<times> json) list"
  cl_key :: string
  cl_argsHash :: string
  cl_invocationID :: string
  cl_node :: string

abbreviation call_input :: "node_call \<Rightarrow> bytes" where
  "call_input c \<equiv> json_marshal (JObj (cl_cfg c))"

text \<open>Without a ledger the record store is told of the start and of the outcome directly.\<close>

definition without_ledger ::
  "'s ToolNodeAdapter \<Rightarrow> node_call \<Rightarrow> ('s ToolInvocationStore \<Rightarrow> 's \<Rightarrow> string option \<times> 's) \<Rightarrow> 's node_state \<Rightarrow> 's node_state" where
  "without_ledger ad c call st = (case ta_InvocationStore ad of
       Some store \<Rightarrow> if ta_InvocationLedger ad = None \<and> cl_jobID c \<noteq> []
         then st\<lparr>nd_inv := snd (call store (nd_inv st))\<rparr> else st
     | None \<Rightarrow> st)"

definition started_record :: "node_call \<Rightarrow> ToolInvocationRecord" where
  "started_record c = ToolInvocationRecord0\<lparr>TR_InvocationID := cl_invocationID c, TR_JobID := cl_jobID c,
     TR_StepID := cl_taskID c, TR_ToolName := cl_toolName c, TR_ArgsHash := cl_argsHash c,
     TR_IdempotencyKey := cl_key c, TR_Status := ToolInvocationStatusStarted\<rparr>"

text \<open>The events before the call; a \<open>command_emitted\<close> that cannot be written stops the step.\<close>

definition begin_events ::
  "'s ToolNodeAdapter \<Rightarrow> node_env \<Rightarrow> node_call \<Rightarrow> 's node_state \<Rightarrow> node_error option \<times> 's node_state" where
  "begin_events ad env c st =
     (let jobID = cl_jobID c;
          cmd = EvCommandEmitted (cl_node c) (cl_taskID c) (call_input c);
          st1 = tool_event ad jobID (EvToolInvocationStarted (cl_node c) (cl_invocationID c) (cl_toolName c)
                  (cl_argsHash c) (FormatStartedAt (nv_started env))) st
      in if ta_CommandEventSink ad \<and> jobID \<noteq> [] \<and> \<not> ta_sink_ok ad cmd then (Some SinkError, st1)
         else (None, tool_event ad jobID (EvToolCalled (cl_node c) (cl_toolName c) (call_input c))
                (if ta_CommandEventSink ad \<and> jobID \<noteq> [] then emit ad cmd st1 else st1)))"

definition check_capability ::
  "'s ToolNodeAdapter \<Rightarrow> node_ctx \<Rightarrow> node_call \<Rightarrow> 's node_state \<Rightarrow> node_error option \<times> 's node_state" where
  "check_capability ad ctx c st = (case ta_CapabilityPolicyChecker ad of
       None \<Rightarrow> (None, st)
     | Some check \<Rightarrow>
         if cl_jobID c = [] then (None, st)
         else
           (let capability = (case ta_ToolCapabilityFunc ad of Some f \<Rightarrow> f (cl_toolName c) | None \<Rightarrow> cl_toolName c);
                denyMsg = ''capability denied: '' @ capability
            in case check (cl_jobID c) (cl_toolName c) capability (cl_key c) (nc_approved ctx) of
                 (allowed, requiredApproval, Some e) \<Rightarrow> (Some (StepFailure StepResultPermanentFailure e), st)
               | (allowed, requiredApproval, None) \<Rightarrow>
                   if allowed then (None, st)
                   else if requiredApproval then (Some (CapabilityRequiresApproval (''cap-approval-'' @ cl_key c)), st)
                   else (Some (StepFailure StepResultPermanentFailure denyMsg),
                     tool_event ad (cl_jobID c) (EvToolResultSummarized (cl_node c) (cl_toolName c) denyMsg denyMsg)
                      (tool_event ad (cl_jobID c) (EvToolInvocationFinished (cl_node c) (cl_invocationID c) (cl_key c)
                         ''failure'' [] denyMsg) st))))"

definition rate_limit :: "'s ToolNodeAdapter \<Rightarrow> node_call \<Rightarrow> node_error option" where
  "rate_limit ad c = (case ta_RateLimiter ad of None \<Rightarrow> None
     | Some wait \<Rightarrow> (case wait (cl_toolName c) of None \<Rightarrow> None
         | Some e \<Rightarrow> Some (StepFailure StepResultRetryableFailure (''rate limit wait failed: '' @ e))))"

text \<open>Everything before the tool is called.\<close>

definition exec_begin ::
  "'s ToolNodeAdapter \<Rightarrow> node_env \<Rightarrow> node_ctx \<Rightarrow> node_call \<Rightarrow> 's node_state \<Rightarrow> node_error option \<times> 's node_state" where
  "exec_begin ad env ctx c st =
     (case begin_events ad env c (without_ledger ad c (\<lambda>store. SetStarted store (started_record c)) st) of
        (Some err, st1) \<Rightarrow> (Some err, st1)
      | (None, st1) \<Rightarrow>
          (case check_capability ad ctx c st1 of
             (Some err, st2) \<Rightarrow> (Some err, st2)
           | (None, st2) \<Rightarrow> (rate_limit ad c, st2)))"

definition session_call :: "node_env \<Rightarrow> node_call \<Rightarrow> string \<Rightarrow> 's node_state \<Rightarrow> 's node_state" where
  "session_call env c output st = (if nv_session env
     then st\<lparr>nd_calls := nd_calls st @ [(cl_toolName c, if cl_cfg c \<noteq> [] then call_input c else [], output)]\<rparr> else st)"

definition put_result :: "node_call \<Rightarrow> (string \<times> goval) list \<Rightarrow> 's node_state \<Rightarrow> 's node_state" where
  "put_result c m st = st\<lparr>nd_results := (nd_results st)(cl_taskID c \<mapsto> GMap m)\<rparr>"

text \<open>After the last attempt failed.\<close>

definition exec_failed ::
  "'s ToolNodeAdapter \<Rightarrow> node_env \<Rightarrow> node_call \<Rightarrow> tool_error \<Rightarrow> 's node_state \<Rightarrow> node_error option \<times> 's node_state" where
  "exec_failed ad env c err st =
     (let jobID = cl_jobID c; msg = te_text err; errJson = json_marshal (JObj [(''error'', JStr msg)])
      in (Some (ToolError err),
          session_call env c (''error: '' @ msg)
           (tool_event ad jobID (EvToolResultSummarized (cl_node c) (cl_toolName c) (truncateStr msg 200) msg)
            (tool_event ad jobID (EvToolReturned (cl_node c) errJson)
             (tool_event ad jobID (EvToolInvocationFinished (cl_node c) (cl_invocationID c) (cl_key c) ''failure'' [] msg)
              (put_result c [(''error'', GStr msg), (''at'', GTime (nv_zone env) (nv_now env))]
               (without_ledger ad c (\<lambda>store. SetFinished store (cl_key c) ToolInvocationStatusFailure errJson False []) st)))))))"

definition node_result :: "ToolResult \<Rightarrow> (string \<times> goval) list" where
  "node_result r = [(''done'', GBool (RS_Done r)), (''state'', RS_State r), (''output'', GStr (RS_Output r)), (''error'', GStr (RS_Err r))]"

definition put_effect ::
  "'s ToolNodeAdapter \<Rightarrow> node_env \<Rightarrow> node_call \<Rightarrow> ToolResult \<Rightarrow> bytes \<Rightarrow> 's node_state \<Rightarrow> 's node_state" where
  "put_effect ad env c r resultBytes st =
     (let externalID = extractExternalID (RS_Output r) (RS_State r);
          metadata = (''tool_name'', JStr (cl_toolName c)) # (if externalID \<noteq> [] then [(''external_id'', JStr externalID)] else [])
      in if ta_EffectStore ad \<and> cl_jobID c \<noteq> [] then
           st\<lparr>nd_eff := PutEffect (nv_now env) (nd_eff st) \<lparr>EF_JobID = cl_jobID c, EF_CommandID = cl_node c,
              EF_IdempotencyKey = cl_key c, EF_Kind = ''tool'', EF_Input = call_input c, EF_Output = resultBytes,
              EF_Error = RS_Err r, EF_Metadata = metadata, EF_CreatedAt = zero_time\<rparr>\<rparr>
         else st)"

definition settle ::
  "'s ToolNodeAdapter \<Rightarrow> node_call \<Rightarrow> bytes \<Rightarrow> string \<Rightarrow> 's node_state \<Rightarrow> 's node_state" where
  "settle ad c resultBytes externalID st = (case ta_InvocationLedger ad of
       Some l \<Rightarrow> if cl_jobID c = [] then st
         else st\<lparr>nd_inv := snd (Commit (ls_store l) (ls_attemptValidator l) (cl_jobID c) (nd_inv st) (cl_key c) resultBytes)\<rparr>
     | None \<Rightarrow> without_ledger ad c (\<lambda>store. SetFinished store (cl_key c) ToolInvocationStatusSuccess resultBytes True externalID) st)"

definition returned_events :: "'s ToolNodeAdapter \<Rightarrow> node_env \<Rightarrow> node_call \<Rightarrow> ToolResult \<Rightarrow> 's node_state \<Rightarrow> 's node_state" where
  "returned_events ad env c r st =
     (let summary = (if RS_Err r \<noteq> [] then truncateStr (''error: '' @ RS_Err r) 200 else truncateStr (RS_Output r) 200);
          msg = (if RS_Err r \<noteq> [] then ''error: '' @ RS_Err r else RS_Output r);
          st1 = tool_event ad (cl_jobID c) (EvToolResultSummarized (cl_node c) (cl_toolName c) summary (RS_Err r))
                 (tool_event ad (cl_jobID c) (EvToolReturned (cl_node c)
                   (json_marshal (JObj [(''output'', JStr (RS_Output r)), (''error'', JStr (RS_Err r)), (''done'', JBool (RS_Done r))]))) st)
      in session_call env c msg
           (if nv_session env \<and> msg \<noteq> [] then st1\<lparr>nd_messages := nd_messages st1 @ [(''tool'', msg)]\<rparr> else st1))"

definition committed_event :: "'s ToolNodeAdapter \<Rightarrow> node_call \<Rightarrow> bytes \<Rightarrow> 's node_state \<Rightarrow> 's node_state" where
  "committed_event ad c resultBytes st = (if ta_CommandEventSink ad \<and> cl_jobID c \<noteq> []
     then emit ad (EvCommandCommitted (cl_node c) (cl_taskID c) resultBytes (cl_argsHash c)) st else st)"

text \<open>After success: first the effect, then the events, then the ledger, then the payload.\<close>

definition exec_done ::
  "'s ToolNodeAdapter \<Rightarrow> node_env \<Rightarrow> node_call \<Rightarrow> ToolResult \<Rightarrow> 's node_state \<Rightarrow> node_error option \<times> 's node_state" where
  "exec_done ad env c r st =
     (let resultBytes = go_marshal (GMap (node_result r))
      in (None,
          returned_events ad env c r
           (put_result c (attachToolEvidence (node_result r) (cl_key c))
            (settle ad c resultBytes (extractExternalID (RS_Output r) (RS_State r))
             (committed_event ad c resultBytes
              (tool_event ad (cl_jobID c) (EvToolInvocationFinished (cl_node c) (cl_invocationID c) (cl_key c) ''success'' resultBytes [])
               (put_effect ad env c r resultBytes st)))))))"

definition max_attempts :: "RetryPolicy option \<Rightarrow> nat" where
  "max_attempts policy = (case policy of Some p \<Rightarrow> if MaxRetries p > 0 then 1 + MaxRetries p else 1 | None \<Rightarrow> 1)"

definition runNodeExecute ::
  "'s ToolNodeAdapter \<Rightarrow> node_env \<Rightarrow> node_ctx \<Rightarrow> string \<Rightarrow> string \<Rightarrow> (string \<times> json) list \<Rightarrow> string \<Rightarrow> string
     \<Rightarrow> ToolInvocationRecord option \<Rightarrow> 's node_state \<Rightarrow> node_error option \<times> 's node_state" where
  "runNodeExecute ad env ctx taskID toolName cfg idempotencyKey argsHash ledgerRec st =
     (let node = (if nc_stepID ctx = [] then taskID else nc_stepID ctx);
          state = (case nd_results st taskID of
              Some (GMap m) \<Rightarrow> (case map_of (rev m) ''state'' of Some v \<Rightarrow> v | None \<Rightarrow> GNil) | _ \<Rightarrow> GNil);
          invocationID = (case ledgerRec of Some r \<Rightarrow> TR_InvocationID r | None \<Rightarrow> nv_uuid2 env);
          c = \<lparr>cl_jobID = nc_jobID ctx, cl_taskID = taskID, cl_toolName = toolName, cl_cfg = cfg, cl_key = idempotencyKey,
               cl_argsHash = argsHash, cl_invocationID = invocationID, cl_node = node\<rparr>
      in case exec_begin ad env ctx c st of
           (Some err, st1) \<Rightarrow> (Some err, st1)
         | (None, st1) \<Rightarrow>
             (case tool_attempts (\<lambda>i s. ta_tools ad i toolName cfg s) (ta_RetryPolicy ad)
                     (max_attempts (ta_RetryPolicy ad) - 1) 0 state of
                (r, e, k) \<Rightarrow>
                  (let st2 = st1\<lparr>nd_runs := nd_runs st1 @ replicate k idempotencyKey\<rparr>
                   in case e of Some err \<Rightarrow> exec_failed ad env c err st2
                      | None \<Rightarrow> exec_done ad env c r st2)))"

section \<open>The node\<close>

text \<open>
  An invocation that the event stream shows as started and not finished is never run again: its
  result is recovered from the ledger or the record store, or the step fails for good.
\<close>

definition pending_result :: "'s ToolNodeAdapter \<Rightarrow> string \<Rightarrow> string \<Rightarrow> 's \<Rightarrow> bytes" where
  "pending_result ad jobID idempotencyKey s =
     (let recovered = (case ta_InvocationLedger ad of
            Some l \<Rightarrow> if jobID \<noteq> [] then (case Recover (ls_store l) s jobID idempotencyKey of Some b \<Rightarrow> b | None \<Rightarrow> []) else []
          | None \<Rightarrow> [])
      in if recovered \<noteq> [] then recovered
         else (case ta_InvocationStore ad of
             Some store \<Rightarrow> if jobID \<noteq> [] then
                 (case GetByJobAndIdempotencyKey store s jobID idempotencyKey of
                    Inr (Some r) \<Rightarrow> if TR_Committed r \<and> TR_Result r \<noteq> [] then TR_Result r else [] | _ \<Rightarrow> [])
               else []
           | None \<Rightarrow> []))"

text \<open>A result found outside the event stream: confirmed, written back to the events, then handed to \<open>k\<close>.\<close>

definition catch_up ::
  "'s ToolNodeAdapter \<Rightarrow> node_ctx \<Rightarrow> string \<Rightarrow> string \<Rightarrow> string \<Rightarrow> StateChangeForVerify list \<Rightarrow> bytes
     \<Rightarrow> ('s node_state \<Rightarrow> 's node_state) \<Rightarrow> 's node_state \<Rightarrow> node_error option \<times> 's node_state" where
  "catch_up ad ctx taskID idempotencyKey argsHash stepChanges resultBytes k st =
     (case runConfirmation ad (nc_jobID ctx) taskID stepChanges of
        Some err \<Rightarrow> (Some err, st)
      | None \<Rightarrow>
          (case writeCatchUpFinished ad taskID (nc_stepID ctx) idempotencyKey argsHash resultBytes st of
             (Some err, st1) \<Rightarrow> (Some err, st1)
           | (None, st1) \<Rightarrow> (None, k st1)))"

definition run_pending ::
  "'s ToolNodeAdapter \<Rightarrow> node_ctx \<Rightarrow> string \<Rightarrow> string \<Rightarrow> string \<Rightarrow> StateChangeForVerify list \<Rightarrow> 's node_state
     \<Rightarrow> node_error option \<times> 's node_state" where
  "run_pending ad ctx taskID idempotencyKey argsHash stepChanges st =
     (let resultBytes = pending_result ad (nc_jobID ctx) idempotencyKey (nd_inv st)
      in if resultBytes = []
         then (Some (StepFailure StepResultPermanentFailure (''invocation in flight or lost, idempotency_key='' @ idempotencyKey)), st)
         else catch_up ad ctx taskID idempotencyKey argsHash stepChanges resultBytes
           (inject_result taskID idempotencyKey resultBytes) st)"

text \<open>With a ledger, the ledger decides.\<close>

definition run_ledger ::
  "'s ToolNodeAdapter \<Rightarrow> 's ledgerStore \<Rightarrow> node_env \<Rightarrow> node_ctx \<Rightarrow> string \<Rightarrow> string \<Rightarrow> (string \<times> json) list \<Rightarrow> string \<Rightarrow> string
     \<Rightarrow> StateChangeForVerify list \<Rightarrow> 's node_state \<Rightarrow> node_error option \<times> 's node_state" where
  "run_ledger ad l env ctx taskID toolName cfg idempotencyKey argsHash stepChanges st =
     (let replayResult = (case nc_completed ctx of
            Some m \<Rightarrow> (case m idempotencyKey of Some b \<Rightarrow> b | None \<Rightarrow> []) | None \<Rightarrow> []);
          a = \<lparr>aq_jobID = nc_jobID ctx, aq_stepID = taskID, aq_toolName = toolName, aq_argsHash = argsHash,
               aq_idempotencyKey = idempotencyKey, aq_replayResult = replayResult\<rparr>
      in case Acquire (ls_store l) (ls_eventSink l) (nv_uuid1 env) (nd_inv st) a of
           ((decision, rec, err), inv') \<Rightarrow>
             (let st1 = st\<lparr>nd_inv := inv'\<rparr>
              in case err of Some e \<Rightarrow> (Some (LedgerError e), st1)
                 | None \<Rightarrow>
                   (case decision of
                      InvocationDecisionReturnRecordedResult \<Rightarrow>
                        (case runConfirmation ad (nc_jobID ctx) taskID stepChanges of
                           Some e \<Rightarrow> (Some e, st1)
                         | None \<Rightarrow> (None, inject_result taskID idempotencyKey
                             (case rec of Some r \<Rightarrow> TR_Result r | None \<Rightarrow> []) st1))
                    | InvocationDecisionWaitOtherWorker \<Rightarrow>
                        (Some (StepFailure StepResultRetryableFailure (''invocation in progress for '' @ idempotencyKey)), st1)
                    | InvocationDecisionRejected \<Rightarrow>
                        (Some (StepFailure StepResultPermanentFailure (''ledger rejected invocation '' @ idempotencyKey)), st1)
                    | InvocationDecisionAllowExecute \<Rightarrow>
                        runNodeExecute ad env ctx taskID toolName cfg idempotencyKey argsHash rec st1)))"

text \<open>Without one: the record store, the replayed results, the effect store, the payload, and then the tool.\<close>

definition committed_in_store :: "'s ToolNodeAdapter \<Rightarrow> string \<Rightarrow> string \<Rightarrow> 's \<Rightarrow> ('s ToolInvocationStore \<times> bytes) option" where
  "committed_in_store ad jobID idempotencyKey s = (case ta_InvocationStore ad of
       Some store \<Rightarrow> if jobID \<noteq> [] then
           (case GetByJobAndIdempotencyKey store s jobID idempotencyKey of
              Inr (Some r) \<Rightarrow>
                if TR_Committed r
                   \<and> (TR_Status r = ToolInvocationStatusSuccess \<or> TR_Status r = ToolInvocationStatusConfirmed)
                   \<and> TR_Result r \<noteq> []
                then Some (store, TR_Result r) else None
            | _ \<Rightarrow> None)
         else None
     | None \<Rightarrow> None)"

definition stored_effect :: "'s ToolNodeAdapter \<Rightarrow> string \<Rightarrow> string \<Rightarrow> EffectStoreMem \<Rightarrow> bytes option" where
  "stored_effect ad jobID idempotencyKey eff = (if ta_EffectStore ad \<and> jobID \<noteq> [] then
       (case GetEffectByJobAndIdempotencyKey eff jobID idempotencyKey of
          Some e \<Rightarrow> if EF_Output e \<noteq> [] then Some (EF_Output e) else None | None \<Rightarrow> None)
     else None)"

definition already_done :: "goval option \<Rightarrow> bool" where
  "already_done prev = (case prev of Some (GMap m) \<Rightarrow> ''done'' \<in> set (map fst m) \<or> ''output'' \<in> set (map fst m) | _ \<Rightarrow> False)"

definition mark_store :: "'s ToolNodeAdapter \<Rightarrow> string \<Rightarrow> bytes \<Rightarrow> 's node_state \<Rightarrow> 's node_state" where
  "mark_store ad idempotencyKey b st = (case ta_InvocationStore ad of
       Some store \<Rightarrow> st\<lparr>nd_inv := snd (SetFinished store idempotencyKey ToolInvocationStatusSuccess b True [] (nd_inv st))\<rparr>
     | None \<Rightarrow> st)"

text \<open>An effect is only looked up when the job id is not empty, and then there is no ledger to commit to.\<close>

definition run_unledgered ::
  "'s ToolNodeAdapter \<Rightarrow> node_env \<Rightarrow> node_ctx \<Rightarrow> string \<Rightarrow> string \<Rightarrow> (string \<times> json) list \<Rightarrow> string \<Rightarrow> string
     \<Rightarrow> StateChangeForVerify list \<Rightarrow> 's node_state \<Rightarrow> node_error option \<times> 's node_state" where
  "run_unledgered ad env ctx taskID toolName cfg idempotencyKey argsHash stepChanges st =
     (case committed_in_store ad (nc_jobID ctx) idempotencyKey (nd_inv st) of
        Some (store, b) \<Rightarrow>
          (case runConfirmation ad (nc_jobID ctx) taskID stepChanges of
             Some e \<Rightarrow> (Some e, st)
           | None \<Rightarrow> (None, inject_result taskID idempotencyKey b
               (st\<lparr>nd_inv := snd (SetFinished store idempotencyKey ToolInvocationStatusConfirmed b True [] (nd_inv st))\<rparr>)))
      | None \<Rightarrow>
      (case (case nc_completed ctx of Some m \<Rightarrow> m idempotencyKey | None \<Rightarrow> None) of
        Some b \<Rightarrow>
          (case runConfirmation ad (nc_jobID ctx) taskID stepChanges of
             Some e \<Rightarrow> (Some e, st)
           | None \<Rightarrow> (None, inject_result taskID idempotencyKey b st))
      | None \<Rightarrow>
      (case stored_effect ad (nc_jobID ctx) idempotencyKey (nd_eff st) of
        Some b \<Rightarrow> catch_up ad ctx taskID idempotencyKey argsHash stepChanges b
          (\<lambda>st1. inject_result taskID idempotencyKey b (mark_store ad idempotencyKey b st1)) st
      | None \<Rightarrow>
          if already_done (nd_results st taskID) then (None, st)
          else runNodeExecute ad env ctx taskID toolName cfg idempotencyKey argsHash None st)))"

definition step_of :: "node_ctx \<Rightarrow> string \<Rightarrow> string" where
  "step_of ctx taskID = (if nc_stepID ctx = [] then taskID else nc_stepID ctx)"

definition runNode ::
  "'s ToolNodeAdapter \<Rightarrow> node_env \<Rightarrow> node_ctx \<Rightarrow> string \<Rightarrow> string \<Rightarrow> (string \<times> json) list \<Rightarrow> 's node_state
     \<Rightarrow> node_error option \<times> 's node_state" where
  "runNode ad env ctx taskID toolName cfg st =
     (let jobID = nc_jobID ctx;
          stepIDForLedger = step_of ctx taskID;
          idempotencyKey = IdempotencyKey jobID stepIDForLedger toolName cfg;
          argsHash = ArgumentsHash cfg;
          stepChanges = (case nc_changes ctx stepIDForLedger of Some cs \<Rightarrow> cs
            | None \<Rightarrow> (case nc_changes ctx taskID of Some cs \<Rightarrow> cs | None \<Rightarrow> []))
      in if (case nc_pending ctx of Some ks \<Rightarrow> idempotencyKey \<in> set ks | None \<Rightarrow> False)
         then run_pending ad ctx taskID idempotencyKey argsHash stepChanges st
         else (case ta_InvocationLedger ad of
             Some l \<Rightarrow> if jobID \<noteq> []
               then run_ledger ad l env ctx taskID toolName cfg idempotencyKey argsHash stepChanges st
               else run_unledgered ad env ctx taskID toolName cfg idempotencyKey argsHash stepChanges st
           | None \<Rightarrow> run_unledgered ad env ctx taskID toolName cfg idempotencyKey argsHash stepChanges st))"

text \<open>The key a tool is told to pass to external systems.\<close>

definition StepIdempotencyKeyForExternal :: "go_context option \<Rightarrow> string \<Rightarrow> string \<Rightarrow> string" where
  "StepIdempotencyKeyForExternal ctx jobID stepID =
     (let attemptID = AttemptIDFromContext ctx; a = (if attemptID = [] then ''0'' else attemptID)
      in ''aetheris:'' @ jobID @ '':'' @ stepID @ '':'' @ a)"

section \<open>What a run does to the ledger\<close>

lemma emit_frame [simp]:
  "nd_inv (emit ad ev st) = nd_inv st" "nd_runs (emit ad ev st) = nd_runs st"
  "nd_inv (tool_event ad j ev st) = nd_inv st" "nd_runs (tool_event ad j ev st) = nd_runs st"
  by (simp_all add: emit_def tool_event_def)

lemma inject_frame [simp]:
  "nd_inv (inject_result t k b st) = nd_inv st" "nd_runs (inject_result t k b st) = nd_runs st"
  by (simp_all add: inject_result_def Let_def)

lemma catch_up_frame:
  assumes "writeCatchUpFinished ad t n k h b st = (e, st')"
  shows "nd_inv st' = nd_inv st" "nd_runs st' = nd_runs st"
  using assms by (auto simp: writeCatchUpFinished_def Let_def split: if_splits)

lemma run_pending_frame:
  "nd_inv (snd (run_pending ad ctx t k h cs st)) = nd_inv st \<and> nd_runs (snd (run_pending ad ctx t k h cs st)) = nd_runs st"
proof (cases "writeCatchUpFinished ad t (nc_stepID ctx) k h (pending_result ad (nc_jobID ctx) k (nd_inv st)) st")
  case (Pair e st')
  from catch_up_frame [OF this] show ?thesis
    by (simp add: run_pending_def catch_up_def Let_def Pair split: option.split)
qed

lemma session_frame [simp]:
  "nd_inv (session_call env c out st) = nd_inv st" "nd_runs (session_call env c out st) = nd_runs st"
  "nd_inv (put_result c m st) = nd_inv st" "nd_runs (put_result c m st) = nd_runs st"
  "nd_inv (committed_event ad c b st) = nd_inv st" "nd_runs (committed_event ad c b st) = nd_runs st"
  "nd_runs (without_ledger ad c f st) = nd_runs st" "nd_runs (settle ad c b x st) = nd_runs st"
  by (simp_all add: session_call_def put_result_def committed_event_def without_ledger_def settle_def split: option.split)

lemma effect_frame [simp]:
  "nd_inv (put_effect ad env c r b st) = nd_inv st" "nd_runs (put_effect ad env c r b st) = nd_runs st"
  "nd_inv (returned_events ad env c r st) = nd_inv st" "nd_runs (returned_events ad env c r st) = nd_runs st"
  by (simp_all add: put_effect_def returned_events_def Let_def)

lemma without_ledger_frame:
  "ta_InvocationLedger ad \<noteq> None \<or> cl_jobID c = [] \<Longrightarrow> without_ledger ad c f st = st"
  by (auto simp: without_ledger_def split: option.split)

lemma begin_frame:
  "nd_inv (snd (begin_events ad env c st)) = nd_inv st" "nd_runs (snd (begin_events ad env c st)) = nd_runs st"
  "nd_inv (snd (check_capability ad ctx c st)) = nd_inv st" "nd_runs (snd (check_capability ad ctx c st)) = nd_runs st"
  by (simp_all add: begin_events_def check_capability_def Let_def split: option.split prod.split)

lemma exec_begin_frame:
  assumes "ta_InvocationLedger ad \<noteq> None \<or> cl_jobID c = []"
  shows "nd_inv (snd (exec_begin ad env ctx c st)) = nd_inv st \<and> nd_runs (snd (exec_begin ad env ctx c st)) = nd_runs st"
  using begin_frame(1,2) [of ad env c st] begin_frame(3,4) [of ad ctx c "snd (begin_events ad env c st)"]
  unfolding exec_begin_def without_ledger_frame [OF assms]
  by (simp add: case_prod_unfold split: option.split)

lemma exec_failed_frame:
  assumes "ta_InvocationLedger ad \<noteq> None \<or> cl_jobID c = []"
  shows "nd_inv (snd (exec_failed ad env c err st)) = nd_inv st"
    and "nd_runs (snd (exec_failed ad env c err st)) = nd_runs st" and "fst (exec_failed ad env c err st) = Some (ToolError err)"
  by (simp_all add: exec_failed_def Let_def without_ledger_frame [OF assms])

lemma exec_done_frame:
  assumes "ta_InvocationLedger ad = Some l"
  shows "nd_inv (snd (exec_done ad env c r st)) = (if cl_jobID c = [] then nd_inv st
      else snd (Commit (ls_store l) (ls_attemptValidator l) (cl_jobID c) (nd_inv st) (cl_key c) (go_marshal (GMap (node_result r)))))"
    and "nd_runs (snd (exec_done ad env c r st)) = nd_runs st" and "fst (exec_done ad env c r st) = None"
  using assms by (simp_all add: exec_done_def Let_def settle_def)

text \<open>The tool was allowed to leave a state that cannot be written as JSON only if this fails.\<close>

definition serialisable :: "'s ToolNodeAdapter \<Rightarrow> string \<Rightarrow> (string \<times> json) list \<Rightarrow> bool" where
  "serialisable ad toolName cfg \<longleftrightarrow>
     (\<forall>i s r. ta_tools ad i toolName cfg s = (r, None) \<longrightarrow> goval_json (RS_State r) \<noteq> None)"

lemma node_result_bytes: "goval_json (RS_State r) \<noteq> None \<Longrightarrow> go_marshal (GMap (node_result r)) \<noteq> []"
  by (auto simp: go_marshal_def node_result_def)

lemma tool_attempts_ok:
  "tool_attempts run policy n i s = (r, None, k) \<Longrightarrow> \<exists>i s. run i s = (r, None)"
  by (induction run policy n i s arbitrary: k rule: tool_attempts.induct)
    (auto split: prod.splits option.splits if_splits)

lemma runNodeExecute_inv:
  assumes "ta_InvocationLedger ad = Some l"
  shows "nd_inv (snd (runNodeExecute ad env ctx t tn cfg k h rec st)) = nd_inv st
    \<or> (\<exists>r i s. ta_tools ad i tn cfg s = (r, None) \<and> fst (runNodeExecute ad env ctx t tn cfg k h rec st) = None
        \<and> nd_inv (snd (runNodeExecute ad env ctx t tn cfg k h rec st))
          = snd (Commit (ls_store l) (ls_attemptValidator l) (nc_jobID ctx) (nd_inv st) k (go_marshal (GMap (node_result r)))))"
proof -
  define c where "c = \<lparr>cl_jobID = nc_jobID ctx, cl_taskID = t, cl_toolName = tn, cl_cfg = cfg, cl_key = k,
    cl_argsHash = h, cl_invocationID = (case rec of Some r \<Rightarrow> TR_InvocationID r | None \<Rightarrow> nv_uuid2 env),
    cl_node = (if nc_stepID ctx = [] then t else nc_stepID ctx)\<rparr>"
  define state where "state = (case nd_results st t of
    Some (GMap m) \<Rightarrow> (case map_of (rev m) ''state'' of Some v \<Rightarrow> v | None \<Rightarrow> GNil) | _ \<Rightarrow> GNil)"
  have L: "ta_InvocationLedger ad \<noteq> None \<or> cl_jobID c = []" using assms by simp
  obtain b st1 where b: "exec_begin ad env ctx c st = (b, st1)" by (cases "exec_begin ad env ctx c st")
  have i1: "nd_inv st1 = nd_inv st" using exec_begin_frame [OF L] b by (metis snd_conv)
  obtain r e n where ta: "tool_attempts (\<lambda>i s. ta_tools ad i tn cfg s) (ta_RetryPolicy ad)
      (max_attempts (ta_RetryPolicy ad) - 1) 0 state = (r, e, n)" by (metis prod_cases3)
  have eq: "runNodeExecute ad env ctx t tn cfg k h rec st = (case b of Some err \<Rightarrow> (Some err, st1)
     | None \<Rightarrow> (case e of Some err \<Rightarrow> exec_failed ad env c err (st1\<lparr>nd_runs := nd_runs st1 @ replicate n k\<rparr>)
               | None \<Rightarrow> exec_done ad env c r (st1\<lparr>nd_runs := nd_runs st1 @ replicate n k\<rparr>)))"
    unfolding runNodeExecute_def Let_def c_def [symmetric] state_def [symmetric] b ta
    by (simp split: option.split)
  show ?thesis
  proof (cases "b = None \<and> e = None")
    case True
    then obtain i s where "ta_tools ad i tn cfg s = (r, None)" using tool_attempts_ok ta by blast
    then show ?thesis
      using True eq i1 exec_done_frame [OF assms, of env c r "st1\<lparr>nd_runs := nd_runs st1 @ replicate n k\<rparr>"]
      by (auto simp: c_def)
  next
    case False
    then show ?thesis
      using eq i1 exec_failed_frame(1) [OF L, of env _ "st1\<lparr>nd_runs := nd_runs st1 @ replicate n k\<rparr>"]
      by (auto split: option.splits)
  qed
qed

section \<open>The tool runs once per key\<close>

definition call_args :: "node_ctx \<Rightarrow> string \<Rightarrow> string \<Rightarrow> string \<Rightarrow> string \<Rightarrow> acquire_args" where
  "call_args ctx t tn h k = \<lparr>aq_jobID = nc_jobID ctx, aq_stepID = t, aq_toolName = tn, aq_argsHash = h,
     aq_idempotencyKey = k, aq_replayResult = (case nc_completed ctx of
       Some m \<Rightarrow> (case m k of Some b \<Rightarrow> b | None \<Rightarrow> []) | None \<Rightarrow> [])\<rparr>"

lemma call_args_simps [simp]:
  "aq_jobID (call_args ctx t tn h k) = nc_jobID ctx" "aq_idempotencyKey (call_args ctx t tn h k) = k"
  by (simp_all add: call_args_def)

abbreviation acquire_call :: "'s ledgerStore \<Rightarrow> node_env \<Rightarrow> node_ctx \<Rightarrow> string \<Rightarrow> string \<Rightarrow> string \<Rightarrow> string \<Rightarrow> 's
     \<Rightarrow> (InvocationDecision \<times> ToolInvocationRecord option \<times> string option) \<times> 's" where
  "acquire_call l env ctx t tn h k s \<equiv> Acquire (ls_store l) (ls_eventSink l) (nv_uuid1 env) s (call_args ctx t tn h k)"

lemma run_ledger_not_allowed:
  assumes "fst (fst (acquire_call l env ctx t tn h k (nd_inv st))) \<noteq> InvocationDecisionAllowExecute"
  shows "nd_inv (snd (run_ledger ad l env ctx t tn cfg k h cs st)) = snd (acquire_call l env ctx t tn h k (nd_inv st))
    \<and> nd_runs (snd (run_ledger ad l env ctx t tn cfg k h cs st)) = nd_runs st"
  using assms unfolding run_ledger_def Let_def call_args_def [symmetric]
  by (simp add: case_prod_unfold split: option.split InvocationDecision.split)

lemma run_ledger_allowed:
  assumes "fst (fst (acquire_call l env ctx t tn h k (nd_inv st))) = InvocationDecisionAllowExecute"
  obtains rec where "run_ledger ad l env ctx t tn cfg k h cs st
     = runNodeExecute ad env ctx t tn cfg k h rec (st\<lparr>nd_inv := snd (acquire_call l env ctx t tn h k (nd_inv st))\<rparr>)"
proof -
  have "snd (snd (fst (acquire_call l env ctx t tn h k (nd_inv st)))) = None"
    using assms by (auto simp: Acquire_def acquire_lookup_def acquire_start_def split: option.splits prod.splits sum.splits if_splits)
  then show thesis
    using that assms unfolding run_ledger_def Let_def call_args_def [symmetric]
    by (simp add: case_prod_unfold)
qed

text \<open>The workers share an in-memory record store through their ledgers.\<close>

abbreviation ledgered :: "ToolInvocationStoreMem ToolNodeAdapter \<Rightarrow> bool" where
  "ledgered ad \<equiv> \<exists>l. ta_InvocationLedger ad = Some l \<and> ls_store l = mem_invocations"

abbreviation call_key :: "node_ctx \<Rightarrow> string \<Rightarrow> string \<Rightarrow> (string \<times> json) list \<Rightarrow> string" where
  "call_key ctx t tn cfg \<equiv> IdempotencyKey (nc_jobID ctx) (step_of ctx t) tn cfg"

text \<open>
  One worker's use of the shared records: a whole run of some tool node, or a run that dies right after
  it was allowed to execute, before or after the tool did its work.  Key \<open>k\<close> belongs to job \<open>j\<close>.
\<close>

inductive worker_step :: "string \<Rightarrow> string \<Rightarrow> ToolInvocationStoreMem \<Rightarrow> ToolInvocationStoreMem \<Rightarrow> bool" for j k where
  wk_run: "ledgered ad \<Longrightarrow> call_key ctx t tn cfg = k \<longrightarrow> nc_jobID ctx = j \<and> serialisable ad tn cfg \<Longrightarrow>
     worker_step j k (nd_inv st) (nd_inv (snd (runNode ad env ctx t tn cfg st)))"
| wk_crash: "aq_idempotencyKey a = k \<longrightarrow> aq_jobID a = j \<Longrightarrow>
     worker_step j k s (snd (Acquire mem_invocations sink u s a))"

lemma runNodeExecute_no_job:
  assumes "nc_jobID ctx = []" and "ta_InvocationLedger ad = Some l"
  shows "nd_inv (snd (runNodeExecute ad env ctx t tn cfg k h rec st)) = nd_inv st"
proof -
  have L: "ta_InvocationLedger ad \<noteq> None \<or> cl_jobID c = []" for c using assms(2) by simp
  show ?thesis
    unfolding runNodeExecute_def Let_def
    using exec_begin_frame [OF L] exec_failed_frame(1) [OF L] exec_done_frame(1) [OF assms(2)] assms(1)
    by (fastforce simp: case_prod_unfold split: option.split)
qed

lemma run_unledgered_no_job:
  assumes "nc_jobID ctx = []" and "ta_InvocationLedger ad = Some l"
  shows "nd_inv (snd (run_unledgered ad env ctx t tn cfg k h cs st)) = nd_inv st"
  using assms(1) runNodeExecute_no_job [OF assms]
  by (simp add: run_unledgered_def committed_in_store_def stored_effect_def split: option.split)

text \<open>A run either leaves the records alone or acquires its key and possibly commits to it.\<close>

lemma runNode_inv_cases:
  assumes "ta_InvocationLedger ad = Some l"
  shows "nd_inv (snd (runNode ad env ctx t tn cfg st)) = nd_inv st
    \<or> nd_inv (snd (runNode ad env ctx t tn cfg st))
        = snd (acquire_call l env ctx t tn (ArgumentsHash cfg) (call_key ctx t tn cfg) (nd_inv st))
    \<or> (\<exists>r i s. ta_tools ad i tn cfg s = (r, None)
        \<and> fst (fst (acquire_call l env ctx t tn (ArgumentsHash cfg) (call_key ctx t tn cfg) (nd_inv st))) = InvocationDecisionAllowExecute
        \<and> nd_inv (snd (runNode ad env ctx t tn cfg st)) = snd (Commit (ls_store l) (ls_attemptValidator l) (nc_jobID ctx)
            (snd (acquire_call l env ctx t tn (ArgumentsHash cfg) (call_key ctx t tn cfg) (nd_inv st)))
            (call_key ctx t tn cfg) (go_marshal (GMap (node_result r)))))"
proof -
  define k where "k = call_key ctx t tn cfg"
  define cs where "cs = (case nc_changes ctx (step_of ctx t) of Some cs \<Rightarrow> cs
    | None \<Rightarrow> (case nc_changes ctx t of Some cs \<Rightarrow> cs | None \<Rightarrow> []))"
  define h where "h = ArgumentsHash cfg"
  have eq: "runNode ad env ctx t tn cfg st =
      (if (case nc_pending ctx of Some ks \<Rightarrow> k \<in> set ks | None \<Rightarrow> False) then run_pending ad ctx t k h cs st
       else if nc_jobID ctx \<noteq> [] then run_ledger ad l env ctx t tn cfg k h cs st
       else run_unledgered ad env ctx t tn cfg k h cs st)"
    unfolding runNode_def Let_def k_def [symmetric] cs_def [symmetric] h_def [symmetric] assms by simp
  show ?thesis
  proof (cases "fst (fst (acquire_call l env ctx t tn h k (nd_inv st))) = InvocationDecisionAllowExecute")
    case True
    then obtain rec where "run_ledger ad l env ctx t tn cfg k h cs st
        = runNodeExecute ad env ctx t tn cfg k h rec (st\<lparr>nd_inv := snd (acquire_call l env ctx t tn h k (nd_inv st))\<rparr>)"
      by (rule run_ledger_allowed)
    then show ?thesis
      using eq True run_pending_frame [of ad ctx t k h cs st] run_unledgered_no_job [OF _ assms, of ctx env t tn cfg k h cs st]
        runNodeExecute_inv [OF assms, of env ctx t tn cfg k h rec "st\<lparr>nd_inv := snd (acquire_call l env ctx t tn h k (nd_inv st))\<rparr>"]
      by (auto simp: k_def [symmetric] h_def [symmetric])
  next
    case False
    show ?thesis
      using eq run_ledger_not_allowed [OF False, of ad cfg cs] run_pending_frame [of ad ctx t k h cs st]
        run_unledgered_no_job [OF _ assms, of ctx env t tn cfg k h cs st]
      by (auto simp: k_def [symmetric] h_def [symmetric])
  qed
qed

lemma worker_step_ledger: "worker_step j k s s' \<Longrightarrow> (ledger_step mem_invocations j k)\<^sup>*\<^sup>* s s'"
proof (induction rule: worker_step.induct)
  case (wk_crash a s sink u)
  then show ?case by (intro r_into_rtranclp ledger_step.lg_acquire)
next
  case (wk_run ad ctx t tn cfg st env)
  then obtain l where l: "ta_InvocationLedger ad = Some l" "ls_store l = mem_invocations" by blast
  let ?a = "acquire_call l env ctx t tn (ArgumentsHash cfg) (call_key ctx t tn cfg) (nd_inv st)"
  have acq: "ledger_step mem_invocations j k (nd_inv st) (snd ?a)"
    unfolding l(2) by (rule ledger_step.lg_acquire) (use wk_run in simp)
  from runNode_inv_cases [OF l(1), of env ctx t tn cfg st] show ?case
  proof (elim disjE exE conjE)
    fix r i s assume tool: "ta_tools ad i tn cfg s = (r, None)"
      and eq: "nd_inv (snd (runNode ad env ctx t tn cfg st)) = snd (Commit (ls_store l) (ls_attemptValidator l) (nc_jobID ctx)
            (snd ?a) (call_key ctx t tn cfg) (go_marshal (GMap (node_result r))))"
    have "ledger_step mem_invocations j k (snd ?a) (nd_inv (snd (runNode ad env ctx t tn cfg st)))"
      unfolding eq l(2) by (rule ledger_step.lg_commit)
        (use wk_run tool node_result_bytes in \<open>auto simp: serialisable_def\<close>)
    with acq show ?thesis by auto
  qed (use acq in auto)
qed

lemma worker_run_ledger: "(worker_step j k)\<^sup>*\<^sup>* s s' \<Longrightarrow> (ledger_step mem_invocations j k)\<^sup>*\<^sup>* s s'"
  by (induction rule: rtranclp_induct) (auto dest: worker_step_ledger)

lemma runNode_key_cases:
  assumes "ta_InvocationLedger ad = Some l" and "nc_jobID ctx \<noteq> []"
  obtains (pending) cs where "case nc_pending ctx of Some ks \<Rightarrow> call_key ctx t tn cfg \<in> set ks | None \<Rightarrow> False"
      "runNode ad env ctx t tn cfg st = run_pending ad ctx t (call_key ctx t tn cfg) (ArgumentsHash cfg) cs st"
  | (asked) cs where "\<not> (case nc_pending ctx of Some ks \<Rightarrow> call_key ctx t tn cfg \<in> set ks | None \<Rightarrow> False)"
      "runNode ad env ctx t tn cfg st = run_ledger ad l env ctx t tn cfg (call_key ctx t tn cfg) (ArgumentsHash cfg) cs st"
proof -
  define P where "P = (case nc_pending ctx of Some ks \<Rightarrow> call_key ctx t tn cfg \<in> set ks | None \<Rightarrow> False)"
  define cs where "cs = (case nc_changes ctx (step_of ctx t) of Some cs \<Rightarrow> cs
    | None \<Rightarrow> (case nc_changes ctx t of Some cs \<Rightarrow> cs | None \<Rightarrow> []))"
  have eq: "runNode ad env ctx t tn cfg st =
      (if P then run_pending ad ctx t (call_key ctx t tn cfg) (ArgumentsHash cfg) cs st
       else run_ledger ad l env ctx t tn cfg (call_key ctx t tn cfg) (ArgumentsHash cfg) cs st)"
    unfolding runNode_def Let_def P_def [symmetric] cs_def [symmetric] assms(1) using assms(2) by simp
  show thesis
  proof (cases P)
    case True
    with eq show thesis by (intro pending [of cs]) (simp_all add: P_def [symmetric])
  next
    case False
    with eq show thesis by (intro asked [of cs]) (simp_all add: P_def [symmetric])
  qed
qed

lemma confirm_no_tool_error: "runConfirmation ad j t cs \<noteq> Some (ToolError e)"
proof -
  have "confirm_changes m v xs \<noteq> Some (ToolError e)" for m v xs
    by (induction m v xs rule: confirm_changes.induct) (auto split: prod.splits)
  then show ?thesis by (auto simp: runConfirmation_def split: option.splits)
qed

lemma run_pending_no_tool_error: "fst (run_pending ad ctx t k h cs st) \<noteq> Some (ToolError e)"
proof -
  let ?w = "writeCatchUpFinished ad t (nc_stepID ctx) k h (pending_result ad (nc_jobID ctx) k (nd_inv st)) st"
  have "fst ?w \<noteq> Some (ToolError e)" by (simp add: writeCatchUpFinished_def Let_def)
  then show ?thesis using confirm_no_tool_error [of ad "nc_jobID ctx" t cs]
    by (cases ?w) (auto simp: run_pending_def catch_up_def Let_def split: option.split)
qed

lemma run_ledger_no_tool_error:
  "fst (fst (acquire_call l env ctx t tn h k (nd_inv st))) \<noteq> InvocationDecisionAllowExecute \<Longrightarrow>
     fst (run_ledger ad l env ctx t tn cfg k h cs st) \<noteq> Some (ToolError e)"
  using confirm_no_tool_error [of ad "nc_jobID ctx" t cs] unfolding run_ledger_def Let_def call_args_def [symmetric]
  by (auto simp: case_prod_unfold split: option.split InvocationDecision.split)

lemma ran_only_if_allowed:
  assumes "ta_InvocationLedger ad = Some l" and "nc_jobID ctx \<noteq> []"
    and "nd_runs (snd (runNode ad env ctx t tn cfg st)) \<noteq> nd_runs st
      \<or> fst (runNode ad env ctx t tn cfg st) = Some (ToolError e)"
  shows "\<exists>rec. fst (fst (acquire_call l env ctx t tn (ArgumentsHash cfg) (call_key ctx t tn cfg) (nd_inv st))) = InvocationDecisionAllowExecute
    \<and> runNode ad env ctx t tn cfg st = runNodeExecute ad env ctx t tn cfg (call_key ctx t tn cfg) (ArgumentsHash cfg) rec
        (st\<lparr>nd_inv := snd (acquire_call l env ctx t tn (ArgumentsHash cfg) (call_key ctx t tn cfg) (nd_inv st))\<rparr>)"
proof (rule runNode_key_cases [OF assms(1,2), of t tn cfg env st])
  fix cs assume "runNode ad env ctx t tn cfg st = run_pending ad ctx t (call_key ctx t tn cfg) (ArgumentsHash cfg) cs st"
  then show ?thesis
    using assms(3) run_pending_frame run_pending_no_tool_error by metis
next
  fix cs assume eq: "runNode ad env ctx t tn cfg st = run_ledger ad l env ctx t tn cfg (call_key ctx t tn cfg) (ArgumentsHash cfg) cs st"
  show ?thesis
  proof (cases "fst (fst (acquire_call l env ctx t tn (ArgumentsHash cfg) (call_key ctx t tn cfg) (nd_inv st))) = InvocationDecisionAllowExecute")
    case True
    then show ?thesis using run_ledger_allowed [OF True, of ad cfg cs] eq by metis
  next
    case False
    then show ?thesis
      using assms(3) eq run_ledger_not_allowed [OF False, of ad cfg cs] run_ledger_no_tool_error [OF False] by metis
  qed
qed

lemma runNodeExecute_steps:
  assumes "ta_InvocationLedger ad = Some l" and "ls_store l = mem_invocations" and "serialisable ad tn cfg"
  shows "(ledger_step mem_invocations j k)\<^sup>*\<^sup>* (nd_inv st) (nd_inv (snd (runNodeExecute ad env ctx t tn cfg k h rec st)))"
  using runNodeExecute_inv [OF assms(1), of env ctx t tn cfg k h rec st]
proof (elim disjE exE conjE)
  fix r i s assume "ta_tools ad i tn cfg s = (r, None)"
    and eq: "nd_inv (snd (runNodeExecute ad env ctx t tn cfg k h rec st))
      = snd (Commit (ls_store l) (ls_attemptValidator l) (nc_jobID ctx) (nd_inv st) k (go_marshal (GMap (node_result r))))"
  then have "go_marshal (GMap (node_result r)) \<noteq> []"
    using assms(3) by (intro node_result_bytes) (auto simp: serialisable_def)
  then show ?thesis unfolding eq assms(2) by (intro r_into_rtranclp ledger_step.lg_commit) simp
qed simp

text \<open>
  C1. A tool runs in one call of its node at most: when a run of the node has called the tool under a fresh
  key, then after any runs and crashes of any workers that share the record store through their
  ledgers, another run with the same key does not call the tool, provided that the results the tool
  leaves for this key can be written as JSON.
\<close>

theorem tool_runs_once:
  assumes "ledgered ad" and "nc_jobID ctx = j" and "j \<noteq> []" and "call_key ctx t tn cfg = k"
    and "nd_inv st k = None" and "serialisable ad tn cfg"
    and "nd_runs (snd (runNode ad env ctx t tn cfg st)) \<noteq> nd_runs st"
    and "(worker_step j k)\<^sup>*\<^sup>* (nd_inv (snd (runNode ad env ctx t tn cfg st))) (nd_inv st2)"
    and "ledgered ad2" and "nc_jobID ctx2 = j" and "call_key ctx2 t2 tn2 cfg2 = k"
  shows "nd_runs (snd (runNode ad2 env2 ctx2 t2 tn2 cfg2 st2)) = nd_runs st2"
proof (rule ccontr)
  assume ran: "nd_runs (snd (runNode ad2 env2 ctx2 t2 tn2 cfg2 st2)) \<noteq> nd_runs st2"
  obtain l where l: "ta_InvocationLedger ad = Some l" "ls_store l = mem_invocations" using assms(1) by blast
  obtain l2 where l2: "ta_InvocationLedger ad2 = Some l2" "ls_store l2 = mem_invocations" using assms(9) by blast
  let ?a = "acquire_call l env ctx t tn (ArgumentsHash cfg) k (nd_inv st)"
  have job: "nc_jobID ctx \<noteq> []" "nc_jobID ctx2 \<noteq> []" using assms(2,3,10) by auto
  obtain rec where a: "fst (fst ?a) = InvocationDecisionAllowExecute"
    and eq: "runNode ad env ctx t tn cfg st = runNodeExecute ad env ctx t tn cfg k (ArgumentsHash cfg) rec (st\<lparr>nd_inv := snd ?a\<rparr>)"
    using ran_only_if_allowed [OF l(1) job(1) disjI1, OF assms(7)] unfolding assms(4) by blast
  have a2: "fst (fst (acquire_call l2 env2 ctx2 t2 tn2 (ArgumentsHash cfg2) k (nd_inv st2))) = InvocationDecisionAllowExecute"
    using ran_only_if_allowed [OF l2(1) job(2) disjI1, OF ran] unfolding assms(11) by blast
  have "(ledger_step mem_invocations j k)\<^sup>*\<^sup>* (snd ?a) (nd_inv (snd (runNode ad env ctx t tn cfg st)))"
    using runNodeExecute_steps [OF l assms(6), of j k "st\<lparr>nd_inv := snd ?a\<rparr>" env ctx t "ArgumentsHash cfg" rec]
    by (simp add: eq)
  then have run: "(ledger_step mem_invocations j k)\<^sup>*\<^sup>* (snd ?a) (nd_inv st2)"
    using worker_run_ledger [OF assms(8)] by (rule rtranclp_trans)
  have "k \<noteq> []" using assms(4) sha256_hex_nonempty by (auto simp: IdempotencyKey_def)
  have free: "\<forall>j. GetByJobAndIdempotencyKey mem_invocations (nd_inv st) j k = Inr None"
    using assms(5) by (simp add: mem_invocations_def mem_GetByJobAndIdempotencyKey_def)
  have "fst (fst (Acquire mem_invocations (ls_eventSink l2) (nv_uuid1 env2) (nd_inv st2)
      (call_args ctx2 t2 tn2 (ArgumentsHash cfg2) k))) \<noteq> InvocationDecisionAllowExecute"
    by (rule mem_store.allowed_once [OF a [unfolded l(2)]])
      (use free run assms(2,10) \<open>k \<noteq> []\<close> in \<open>simp_all add: l(2)\<close>)
  with a2 show False by (simp add: l2(2))
qed

section \<open>A failed or interrupted call keeps its key\<close>

definition in_flight :: "ToolInvocationStoreMem \<Rightarrow> string \<Rightarrow> string \<Rightarrow> bool" where
  "in_flight s j k \<longleftrightarrow> (case s k of Some r \<Rightarrow> TR_JobID r = j \<and> \<not> TR_Committed r | None \<Rightarrow> False)"

lemmas mem_call_defs = mem_invocations_def mem_GetByJobAndIdempotencyKey_def mem_SetStarted_def mem_SetFinished_def

lemma in_flight_lookup:
  "in_flight s j k \<Longrightarrow> aq_jobID a = j \<Longrightarrow> aq_idempotencyKey a = k \<Longrightarrow>
     (aq_replayResult a = [] \<longrightarrow> acquire_lookup mem_invocations sink s a = Some (InvocationDecisionWaitOtherWorker, None, None))
     \<and> acquire_lookup mem_invocations sink s a \<noteq> None"
  by (auto simp: in_flight_def acquire_lookup_def mem_call_defs split: option.splits)

lemma in_flight_acquire:
  assumes "in_flight s j k" and "aq_idempotencyKey a = k \<longrightarrow> aq_jobID a = j"
  shows "in_flight (snd (Acquire mem_invocations sink u s a)) j k"
proof (cases "acquire_lookup mem_invocations sink s a")
  case None
  then have "aq_idempotencyKey a \<noteq> k" using in_flight_lookup [OF assms(1), of a sink] assms(2) by auto
  then show ?thesis using None assms(1)
    by (simp add: Acquire_def acquire_start_state in_flight_def mem_call_defs Let_def split: option.splits)
qed (use assms(1) in \<open>simp add: Acquire_def\<close>)

lemma in_flight_commit:
  "in_flight s j k \<Longrightarrow> key \<noteq> k \<Longrightarrow> in_flight (snd (Commit mem_invocations v cj s key res)) j k"
  by (cases rule: Commit_cases [of mem_invocations v cj s key res])
    (auto simp: in_flight_def mem_call_defs Let_def)

lemma in_flight_worker: "worker_step j k s s' \<Longrightarrow> in_flight s j k \<Longrightarrow> in_flight s' j k"
proof (induction rule: worker_step.induct)
  case (wk_crash a s sink u)
  then show ?case by (simp add: in_flight_acquire)
next
  case (wk_run ad ctx t tn cfg st env)
  then obtain l where l: "ta_InvocationLedger ad = Some l" "ls_store l = mem_invocations" by blast
  let ?a = "acquire_call l env ctx t tn (ArgumentsHash cfg) (call_key ctx t tn cfg) (nd_inv st)"
  have acq: "in_flight (snd ?a) j k"
    unfolding l(2) by (rule in_flight_acquire [OF wk_run.prems]) (use wk_run.hyps in simp)
  from runNode_inv_cases [OF l(1), of env ctx t tn cfg st] show ?case
  proof (elim disjE exE conjE)
    fix r i s assume "fst (fst ?a) = InvocationDecisionAllowExecute"
      and eq: "nd_inv (snd (runNode ad env ctx t tn cfg st)) = snd (Commit (ls_store l) (ls_attemptValidator l) (nc_jobID ctx)
            (snd ?a) (call_key ctx t tn cfg) (go_marshal (GMap (node_result r))))"
    have "acquire_lookup mem_invocations (ls_eventSink l) (nd_inv st) (call_args ctx t tn (ArgumentsHash cfg) (call_key ctx t tn cfg)) = None"
      using Acquire_allows [OF \<open>fst (fst ?a) = InvocationDecisionAllowExecute\<close>] l(2) by simp
    moreover have "nc_jobID ctx = j" if "call_key ctx t tn cfg = k" using that wk_run.hyps(2) by simp
    ultimately have "call_key ctx t tn cfg \<noteq> k"
      using in_flight_lookup [OF wk_run.prems, of "call_args ctx t tn (ArgumentsHash cfg) (call_key ctx t tn cfg)" "ls_eventSink l"]
      by (metis call_args_simps)
    with in_flight_commit [OF acq] show ?thesis unfolding eq l(2) by simp
  qed (use acq wk_run.prems in simp_all)
qed

lemma in_flight_workers: "(worker_step j k)\<^sup>*\<^sup>* s s' \<Longrightarrow> in_flight s j k \<Longrightarrow> in_flight s' j k"
  by (induction rule: rtranclp_induct) (auto intro: in_flight_worker)

lemma allowed_in_flight:
  assumes "fst (fst (Acquire mem_invocations sink u s a)) = InvocationDecisionAllowExecute"
    and "s (aq_idempotencyKey a) = None" and "aq_idempotencyKey a \<noteq> []"
  shows "in_flight (snd (Acquire mem_invocations sink u s a)) (aq_jobID a) (aq_idempotencyKey a)"
  using Acquire_allows [OF assms(1)] assms(2,3)
  by (auto simp: in_flight_def mem_invocations_def mem_SetStarted_def Let_def)

text \<open>
  A call that failed, or that died between the permission and the commit, blocks its key: after the tool
  returned an error under a fresh key, or a worker was allowed to run it and crashed, and any further
  runs and crashes of workers, every run of a node with that key ends in a step failure without
  calling the tool and without any effect, unless the event stream brings a result.  In particular the
  effect store, which may hold the finished tool's output, is not consulted.
\<close>

theorem failed_call_blocks_key:
  assumes "ta_InvocationLedger ad = Some l" and "ls_store l = mem_invocations" and "nc_jobID ctx = j" and "j \<noteq> []"
    and "call_key ctx t tn cfg = k" and "nd_inv st k = None"
    and "fst (runNode ad env ctx t tn cfg st) = Some (ToolError e) \<and> s1 = nd_inv (snd (runNode ad env ctx t tn cfg st))
      \<or> fst (fst (acquire_call l env ctx t tn (ArgumentsHash cfg) k (nd_inv st))) = InvocationDecisionAllowExecute
         \<and> s1 = snd (acquire_call l env ctx t tn (ArgumentsHash cfg) k (nd_inv st))"
    and "(worker_step j k)\<^sup>*\<^sup>* s1 (nd_inv st2)"
    and "ledgered ad2" and "ta_InvocationStore ad2 \<in> {None, Some mem_invocations}"
    and "nc_jobID ctx2 = j" and "call_key ctx2 t2 tn2 cfg2 = k"
    and "case nc_completed ctx2 of Some m \<Rightarrow> m k = None | None \<Rightarrow> True"
  shows "runNode ad2 env2 ctx2 t2 tn2 cfg2 st2 =
     (Some (if (case nc_pending ctx2 of Some ks \<Rightarrow> k \<in> set ks | None \<Rightarrow> False)
            then StepFailure StepResultPermanentFailure (''invocation in flight or lost, idempotency_key='' @ k)
            else StepFailure StepResultRetryableFailure (''invocation in progress for '' @ k)), st2)"
proof -
  let ?a = "acquire_call l env ctx t tn (ArgumentsHash cfg) k (nd_inv st)"
  have job: "nc_jobID ctx \<noteq> []" "nc_jobID ctx2 \<noteq> []" using assms(3,4,11) by auto
  have k: "k \<noteq> []" using assms(5) sha256_hex_nonempty by (auto simp: IdempotencyKey_def)
  have s1: "fst (fst ?a) = InvocationDecisionAllowExecute \<and> s1 = snd ?a"
  proof (cases "fst (runNode ad env ctx t tn cfg st) = Some (ToolError e) \<and> s1 = nd_inv (snd (runNode ad env ctx t tn cfg st))")
    case True
    then obtain rec where a: "fst (fst ?a) = InvocationDecisionAllowExecute"
      and eq: "runNode ad env ctx t tn cfg st = runNodeExecute ad env ctx t tn cfg k (ArgumentsHash cfg) rec (st\<lparr>nd_inv := snd ?a\<rparr>)"
      using ran_only_if_allowed [OF assms(1) job(1) disjI2, OF conjunct1, OF True] unfolding assms(5) by blast
    have "nd_inv (snd (runNode ad env ctx t tn cfg st)) = snd ?a"
      using runNodeExecute_inv [OF assms(1), of env ctx t tn cfg k "ArgumentsHash cfg" rec "st\<lparr>nd_inv := snd ?a\<rparr>"] True
      unfolding eq by auto
    then show ?thesis using a True by simp
  qed (use assms(7) in blast)
  have "in_flight s1 j k"
    using allowed_in_flight [of "ls_eventSink l" "nv_uuid1 env" "nd_inv st" "call_args ctx t tn (ArgumentsHash cfg) k"]
      s1 assms(2,3,6) k by simp
  then have fl: "in_flight (nd_inv st2) j k" using in_flight_workers [OF assms(8)] by blast
  obtain l2 where l2: "ta_InvocationLedger ad2 = Some l2" "ls_store l2 = mem_invocations" using assms(9) by blast
  have rep: "aq_replayResult (call_args ctx2 t2 tn2 (ArgumentsHash cfg2) k) = []"
    using assms(13) by (simp add: call_args_def split: option.splits)
  have acq: "acquire_call l2 env2 ctx2 t2 tn2 (ArgumentsHash cfg2) k (nd_inv st2)
      = ((InvocationDecisionWaitOtherWorker, None, None), nd_inv st2)"
    using in_flight_lookup [OF fl, of "call_args ctx2 t2 tn2 (ArgumentsHash cfg2) k" "ls_eventSink l2"] rep assms(11)
    by (simp add: Acquire_def l2(2))
  have none: "pending_result ad2 j k (nd_inv st2) = []"
    using fl assms(10) l2 by (auto simp: pending_result_def Recover_def mem_call_defs in_flight_def split: option.splits)
  show ?thesis
  proof (rule runNode_key_cases [OF l2(1) job(2), of t2 tn2 cfg2 env2 st2])
    fix cs assume "case nc_pending ctx2 of Some ks \<Rightarrow> call_key ctx2 t2 tn2 cfg2 \<in> set ks | None \<Rightarrow> False"
      and "runNode ad2 env2 ctx2 t2 tn2 cfg2 st2 = run_pending ad2 ctx2 t2 (call_key ctx2 t2 tn2 cfg2) (ArgumentsHash cfg2) cs st2"
    then show ?thesis unfolding assms(12) using none by (simp add: run_pending_def assms(11))
  next
    fix cs assume "\<not> (case nc_pending ctx2 of Some ks \<Rightarrow> call_key ctx2 t2 tn2 cfg2 \<in> set ks | None \<Rightarrow> False)"
      and "runNode ad2 env2 ctx2 t2 tn2 cfg2 st2 = run_ledger ad2 l2 env2 ctx2 t2 tn2 cfg2 (call_key ctx2 t2 tn2 cfg2) (ArgumentsHash cfg2) cs st2"
    then show ?thesis unfolding assms(12) using acq unfolding run_ledger_def Let_def call_args_def [symmetric]
      by simp
  qed
qed

section \<open>Concrete runs\<close>

definition ex_ledger :: "ToolInvocationStoreMem ledgerStore" where
  "ex_ledger = \<lparr>ls_store = mem_invocations, ls_attemptValidator = None, ls_eventSink = None\<rparr>"

definition ex_adapter :: "tool_exec \<Rightarrow> ToolInvocationStoreMem ToolNodeAdapter" where
  "ex_adapter tools = \<lparr>ta_tools = tools, ta_ToolEventSink = False, ta_CommandEventSink = False, ta_sink_ok = (\<lambda>_. True),
     ta_InvocationLedger = Some ex_ledger, ta_InvocationStore = None, ta_EffectStore = True,
     ta_CapabilityPolicyChecker = None, ta_ToolCapabilityFunc = None, ta_ResourceVerifier = None,
     ta_ReplayVerificationMode = ReplayVerificationStrict, ta_RetryPolicy = None, ta_RateLimiter = None\<rparr>"

definition ex_result :: ToolResult where
  "ex_result = \<lparr>RS_Done = True, RS_State = GNil, RS_Output = ''ok'', RS_Err = []\<rparr>"

definition ex_tool :: tool_exec where
  "ex_tool i n cfg state = (ex_result, None)"

definition ex_bad_tool :: tool_exec where
  "ex_bad_tool i n cfg state = (ex_result, Some \<lparr>te_text = ''boom'', te_retryable = False\<rparr>)"

definition ex_nctx :: node_ctx where
  "ex_nctx = \<lparr>nc_jobID = ''j'', nc_stepID = [], nc_pending = None, nc_completed = None, nc_changes = Map.empty, nc_approved = []\<rparr>"

definition ex_nenv :: node_env where
  "ex_nenv = \<lparr>nv_uuid1 = ''u1'', nv_uuid2 = ''u2'', nv_started = 1, nv_finished = 2, nv_now = 3, nv_zone = 0, nv_session = False\<rparr>"

definition ex_nstate :: "ToolInvocationStoreMem node_state" where
  "ex_nstate = \<lparr>nd_inv = Map.empty, nd_eff = NewEffectStoreMem, nd_log = [], nd_runs = [], nd_results = Map.empty,
     nd_messages = [], nd_calls = []\<rparr>"

abbreviation ex_run :: "tool_exec \<Rightarrow> ToolInvocationStoreMem node_state \<Rightarrow> node_error option \<times> ToolInvocationStoreMem node_state" where
  "ex_run tools st \<equiv> runNode (ex_adapter tools) ex_nenv ex_nctx ''t'' ''pay'' [] st"

abbreviation ex_key :: string where
  "ex_key \<equiv> IdempotencyKey ''j'' ''t'' ''pay'' []"

lemma ex_key_nonempty [simp]: "ex_key \<noteq> []"
  by (simp add: IdempotencyKey_def sha256_hex_nonempty)

lemma ex_ctx_simps [simp]:
  "nc_jobID ex_nctx = ''j''" "step_of ex_nctx ''t'' = ''t''" "nc_pending ex_nctx = None" "nc_completed ex_nctx = None"
  by (simp_all add: ex_nctx_def step_of_def)

lemma ex_adapter_ledger [simp]: "ta_InvocationLedger (ex_adapter tools) = Some ex_ledger" "ls_store ex_ledger = mem_invocations"
  by (simp_all add: ex_adapter_def ex_ledger_def)

lemma ex_acquire_allowed:
  "acquire_call ex_ledger ex_nenv ex_nctx ''t'' ''pay'' (ArgumentsHash []) ex_key (nd_inv ex_nstate) =
     ((InvocationDecisionAllowExecute, Some (new_invocation ''u1'' (call_args ex_nctx ''t'' ''pay'' (ArgumentsHash []) ex_key)), None),
      Map.empty(ex_key \<mapsto> new_invocation ''u1'' (call_args ex_nctx ''t'' ''pay'' (ArgumentsHash []) ex_key)))"
  by (simp add: Acquire_def acquire_lookup_def acquire_start_def ex_ledger_def mem_call_defs ex_nstate_def
      ex_nenv_def hasOrphanedAcquired_def call_args_def ex_nctx_def Let_def)

lemma ex_run_executes:
  obtains rec where "ex_run tools ex_nstate = runNodeExecute (ex_adapter tools) ex_nenv ex_nctx ''t'' ''pay'' [] ex_key (ArgumentsHash []) rec
     (ex_nstate\<lparr>nd_inv := snd (acquire_call ex_ledger ex_nenv ex_nctx ''t'' ''pay'' (ArgumentsHash []) ex_key (nd_inv ex_nstate))\<rparr>)"
proof -
  have allowed: "fst (fst (acquire_call ex_ledger ex_nenv ex_nctx ''t'' ''pay'' (ArgumentsHash []) ex_key (nd_inv ex_nstate)))
      = InvocationDecisionAllowExecute" by (simp only: ex_acquire_allowed fst_conv)
  show thesis
  proof (rule runNode_key_cases [of "ex_adapter tools" ex_ledger ex_nctx "''t''" "''pay''" "[]" ex_nenv ex_nstate])
    fix cs assume eq: "ex_run tools ex_nstate = run_ledger (ex_adapter tools) ex_ledger ex_nenv ex_nctx ''t'' ''pay'' []
        (call_key ex_nctx ''t'' ''pay'' []) (ArgumentsHash []) cs ex_nstate"
    show thesis by (rule run_ledger_allowed [OF allowed, of "ex_adapter tools" "[]" cs]) (use that eq in simp)
  qed simp_all
qed

lemma ex_execute:
  "nd_runs (snd (runNodeExecute (ex_adapter ex_tool) ex_nenv ex_nctx ''t'' ''pay'' [] k h rec st)) = nd_runs st @ [k]"
  "fst (runNodeExecute (ex_adapter ex_bad_tool) ex_nenv ex_nctx ''t'' ''pay'' [] k h rec st)
     = Some (ToolError \<lparr>te_text = ''boom'', te_retryable = False\<rparr>)"
proof -
  have b: "exec_begin (ex_adapter tools) ex_nenv ex_nctx c st' = (None, st')" for tools c st'
    by (simp add: exec_begin_def begin_events_def check_capability_def rate_limit_def without_ledger_def
        tool_event_def ex_adapter_def Let_def)
  have t: "ta_tools (ex_adapter tools) = tools" "ta_RetryPolicy (ex_adapter tools) = None" for tools
    by (simp_all add: ex_adapter_def)
  show "nd_runs (snd (runNodeExecute (ex_adapter ex_tool) ex_nenv ex_nctx ''t'' ''pay'' [] k h rec st)) = nd_runs st @ [k]"
    by (simp add: runNodeExecute_def Let_def b t max_attempts_def ex_tool_def exec_done_frame)
  show "fst (runNodeExecute (ex_adapter ex_bad_tool) ex_nenv ex_nctx ''t'' ''pay'' [] k h rec st)
     = Some (ToolError \<lparr>te_text = ''boom'', te_retryable = False\<rparr>)"
    by (simp add: runNodeExecute_def Let_def b t max_attempts_def ex_bad_tool_def exec_failed_frame)
qed

theorem tool_runs_once_witness:
  "nd_runs (snd (ex_run ex_tool ex_nstate)) = [ex_key]
   \<and> nd_runs (snd (ex_run ex_tool (snd (ex_run ex_tool ex_nstate)))) = [ex_key]"
proof -
  obtain rec where "ex_run ex_tool ex_nstate = runNodeExecute (ex_adapter ex_tool) ex_nenv ex_nctx ''t'' ''pay'' [] ex_key (ArgumentsHash []) rec
     (ex_nstate\<lparr>nd_inv := snd (acquire_call ex_ledger ex_nenv ex_nctx ''t'' ''pay'' (ArgumentsHash []) ex_key (nd_inv ex_nstate))\<rparr>)"
    by (rule ex_run_executes)
  then have 1: "nd_runs (snd (ex_run ex_tool ex_nstate)) = [ex_key]" by (simp add: ex_execute(1)) (simp add: ex_nstate_def)
  have "nd_runs (snd (ex_run ex_tool (snd (ex_run ex_tool ex_nstate)))) = nd_runs (snd (ex_run ex_tool ex_nstate))"
  proof (rule tool_runs_once [of "ex_adapter ex_tool" ex_nctx "''j''" "''t''" "''pay''" "[]" ex_key ex_nstate ex_nenv])
    show "serialisable (ex_adapter ex_tool) ''pay'' []"
      by (simp add: serialisable_def ex_adapter_def ex_tool_def ex_result_def)
    show "nd_inv ex_nstate ex_key = None" by (simp add: ex_nstate_def)
    show "nd_runs (snd (ex_run ex_tool ex_nstate)) \<noteq> nd_runs ex_nstate" by (simp only: 1) (simp add: ex_nstate_def)
  qed simp_all
  with 1 show ?thesis by simp
qed

theorem failed_call_blocks_key_witness:
  "fst (ex_run ex_tool (snd (ex_run ex_bad_tool ex_nstate)))
     = Some (StepFailure StepResultRetryableFailure (''invocation in progress for '' @ ex_key))"
proof -
  obtain rec where "ex_run ex_bad_tool ex_nstate = runNodeExecute (ex_adapter ex_bad_tool) ex_nenv ex_nctx ''t'' ''pay'' [] ex_key (ArgumentsHash []) rec
     (ex_nstate\<lparr>nd_inv := snd (acquire_call ex_ledger ex_nenv ex_nctx ''t'' ''pay'' (ArgumentsHash []) ex_key (nd_inv ex_nstate))\<rparr>)"
    by (rule ex_run_executes)
  then have 1: "fst (ex_run ex_bad_tool ex_nstate) = Some (ToolError \<lparr>te_text = ''boom'', te_retryable = False\<rparr>)"
    by (simp add: ex_execute(2))
  have st: "ta_InvocationStore (ex_adapter ex_tool) = None" by (simp add: ex_adapter_def)
  have "ex_run ex_tool (snd (ex_run ex_bad_tool ex_nstate)) =
     (Some (if (case nc_pending ex_nctx of Some ks \<Rightarrow> ex_key \<in> set ks | None \<Rightarrow> False)
            then StepFailure StepResultPermanentFailure (''invocation in flight or lost, idempotency_key='' @ ex_key)
            else StepFailure StepResultRetryableFailure (''invocation in progress for '' @ ex_key)), snd (ex_run ex_bad_tool ex_nstate))"
    by (rule failed_call_blocks_key [of "ex_adapter ex_bad_tool" ex_ledger ex_nctx "''j''" "''t''" "''pay''" "[]" ex_key ex_nstate ex_nenv
          "\<lparr>te_text = ''boom'', te_retryable = False\<rparr>" "nd_inv (snd (ex_run ex_bad_tool ex_nstate))"])
      (simp_all add: 1 st, simp add: ex_nstate_def)
  then show ?thesis by simp
qed

end
