(* ===== verification/Durability_Store.thy ===== *)
theory Durability_Store
  imports Event_Log Go_Value
begin

text \<open>
  The persistence layer of the durability SDK, \<open>sdk/durability/core\<close>: the types of \<open>types.go\<close>, the
  \<open>Store\<close> interface of \<open>store.go\<close> as a record of operations, its in-memory implementation, and the
  contract a runner relies on as a locale.  The operations that read the clock take the reading
  as their first argument.
\<close>

section \<open>Types\<close>

datatype JobState = StateCreated | StateRunning | StateWaiting | StateCompleted | StateFailed | StateCancelled

datatype SdkEventType =
    EventJobCreated | EventJobStarted | EventJobCompleted | EventJobFailed | EventJobCancelled
  | EventStepStarted | EventStepFinished | EventStepFailed | EventStepRetried | EventStepSkipped
  | EventCheckpointSaved | EventCheckpointLoaded | EventEffectRecorded
  | EventOther string

record SdkEvent =
  SE_ID :: string
  SE_JobID :: string
  SE_Type :: SdkEventType
  SE_StepID :: string
  SE_Payload :: bytes
  SE_Version :: int
  SE_CreatedAt :: gotime
  SE_PrevHash :: string
  SE_Hash :: string

definition SdkEvent0 :: SdkEvent where
  "SdkEvent0 = \<lparr>SE_ID = [], SE_JobID = [], SE_Type = EventOther [], SE_StepID = [], SE_Payload = [], SE_Version = 0,
     SE_CreatedAt = zero_time, SE_PrevHash = [], SE_Hash = []\<rparr>"

record SdkJob =
  SJ_ID :: string
  SJ_Name :: string
  SJ_State :: JobState
  SJ_Version :: int
  SJ_Input :: bytes
  SJ_Result :: bytes
  SJ_Error :: string
  SJ_CreatedAt :: gotime
  SJ_UpdatedAt :: gotime
  SJ_CompletedSteps :: "string \<rightharpoonup> bytes"

record Checkpoint =
  CP_JobID :: string
  CP_StepID :: string
  CP_State :: bytes
  CP_Version :: int
  CP_CreatedAt :: gotime

section \<open>The interface\<close>

text \<open>
  An append returns a version together with an optional error, as in Go, because callers use the version
  even where they drop the error.  Other errors are texts.
\<close>

datatype append_error = ErrVersionMismatch_sdk | AppendFailed string

record 's Store =
  AppendEvent :: "gotime \<Rightarrow> string \<Rightarrow> int \<Rightarrow> SdkEvent \<Rightarrow> 's \<Rightarrow> (int \<times> append_error option) \<times> 's"
  SdkListEvents :: "'s \<Rightarrow> string \<Rightarrow> string + (SdkEvent list \<times> int)"
  SaveJob :: "SdkJob \<Rightarrow> 's \<Rightarrow> string option \<times> 's"
  LoadJob :: "'s \<Rightarrow> string \<Rightarrow> string + SdkJob option"
  SaveCheckpoint :: "gotime \<Rightarrow> string \<Rightarrow> string \<Rightarrow> bytes \<Rightarrow> int \<Rightarrow> 's \<Rightarrow> string option \<times> 's"
  LoadCheckpoint :: "'s \<Rightarrow> string \<Rightarrow> string + Checkpoint option"

section \<open>In-memory store\<close>

record MemoryStore =
  ms_jobs :: "string \<rightharpoonup> SdkJob"
  ms_events :: "string \<rightharpoonup> SdkEvent list"
  ms_checkpoints :: "string \<rightharpoonup> Checkpoint"

definition NewSdkMemoryStore :: MemoryStore where
  "NewSdkMemoryStore = \<lparr>ms_jobs = Map.empty, ms_events = Map.empty, ms_checkpoints = Map.empty\<rparr>"

definition sdk_stream :: "MemoryStore \<Rightarrow> string \<Rightarrow> SdkEvent list" where
  "sdk_stream s jobID = (case ms_events s jobID of None \<Rightarrow> [] | Some es \<Rightarrow> es)"

definition ms_AppendEvent ::
  "gotime \<Rightarrow> string \<Rightarrow> int \<Rightarrow> SdkEvent \<Rightarrow> MemoryStore \<Rightarrow> (int \<times> append_error option) \<times> MemoryStore" where
  "ms_AppendEvent now jobID expectedVersion event s =
     (let current = sdk_stream s jobID
      in if int (length current) \<noteq> expectedVersion
         then ((int (length current), Some ErrVersionMismatch_sdk), s)
         else (let v = int (length current) + 1;
                   e1 = event\<lparr>SE_JobID := jobID, SE_Version := v\<rparr>;
                   e2 = (if SE_CreatedAt e1 = zero_time then e1\<lparr>SE_CreatedAt := now\<rparr> else e1);
                   e3 = (if SE_ID e2 = [] then e2\<lparr>SE_ID := jobID @ ''-'' @ dec_int v\<rparr> else e2)
               in ((v, None), s\<lparr>ms_events := (ms_events s)(jobID \<mapsto> current @ [e3])\<rparr>)))"

definition ms_ListEvents :: "MemoryStore \<Rightarrow> string \<Rightarrow> string + (SdkEvent list \<times> int)" where
  "ms_ListEvents s jobID = Inr (sdk_stream s jobID, int (length (sdk_stream s jobID)))"

text \<open>
  The stored copy shares the map of completed steps with the caller's job; every caller writes to that map
  only between two saves of the same job, so the copy is a value here.
\<close>

definition ms_SaveJob :: "SdkJob \<Rightarrow> MemoryStore \<Rightarrow> string option \<times> MemoryStore" where
  "ms_SaveJob job s = (None, s\<lparr>ms_jobs := (ms_jobs s)(SJ_ID job \<mapsto> job)\<rparr>)"

definition ms_LoadJob :: "MemoryStore \<Rightarrow> string \<Rightarrow> string + SdkJob option" where
  "ms_LoadJob s jobID = Inr (ms_jobs s jobID)"

definition ms_SaveCheckpoint ::
  "gotime \<Rightarrow> string \<Rightarrow> string \<Rightarrow> bytes \<Rightarrow> int \<Rightarrow> MemoryStore \<Rightarrow> string option \<times> MemoryStore" where
  "ms_SaveCheckpoint now jobID stepID state version s =
     (None, s\<lparr>ms_checkpoints := (ms_checkpoints s)(jobID \<mapsto>
        \<lparr>CP_JobID = jobID, CP_StepID = stepID, CP_State = state, CP_Version = version, CP_CreatedAt = now\<rparr>)\<rparr>)"

definition ms_LoadCheckpoint :: "MemoryStore \<Rightarrow> string \<Rightarrow> string + Checkpoint option" where
  "ms_LoadCheckpoint s jobID = Inr (ms_checkpoints s jobID)"

definition mem_durability :: "MemoryStore Store" where
  "mem_durability = \<lparr>AppendEvent = ms_AppendEvent, SdkListEvents = ms_ListEvents, SaveJob = ms_SaveJob,
     LoadJob = ms_LoadJob, SaveCheckpoint = ms_SaveCheckpoint, LoadCheckpoint = ms_LoadCheckpoint\<rparr>"

lemmas ms_defs = mem_durability_def ms_AppendEvent_def ms_ListEvents_def ms_SaveJob_def ms_LoadJob_def
  ms_SaveCheckpoint_def ms_LoadCheckpoint_def

section \<open>Versions\<close>

text \<open>The append as a versioned log: the error carries the version it reports.\<close>

definition sdk_app :: "gotime \<Rightarrow> MemoryStore \<Rightarrow> string \<Rightarrow> int \<Rightarrow> SdkEvent \<Rightarrow> ((int \<times> append_error) + int) \<times> MemoryStore" where
  "sdk_app now s j v e = (case ms_AppendEvent now j v e s of
       ((n, None), s') \<Rightarrow> (Inr n, s') | ((n, Some x), s') \<Rightarrow> (Inl (n, x), s'))"

text \<open>The operations that leave the event streams alone.\<close>

inductive sdk_other :: "MemoryStore \<Rightarrow> MemoryStore \<Rightarrow> bool" where
  sdk_save: "sdk_other s (snd (ms_SaveJob job s))"
| sdk_checkpoint: "sdk_other s (snd (ms_SaveCheckpoint now j i b v s))"

interpretation sdk_log: versioned_log sdk_app sdk_other sdk_stream
proof
  fix c s j v e n s' assume "sdk_app c s j v e = (Inr n, s')"
  then show "v = int (length (sdk_stream s j)) \<and> n = v + 1 \<and> (\<exists>e'. sdk_stream s' j = sdk_stream s j @ [e'])"
    by (auto simp: sdk_app_def ms_AppendEvent_def Let_def sdk_stream_def split: if_splits)
next
  fix s s' assume "sdk_other s s'"
  then show "sdk_stream s' = sdk_stream s"
    by (auto elim!: sdk_other.cases simp: sdk_stream_def ms_SaveJob_def ms_SaveCheckpoint_def)
qed (auto simp: sdk_app_def ms_AppendEvent_def Let_def sdk_stream_def split: if_splits)

section \<open>The contract\<close>

locale durability_store =
  fixes store :: "'s Store"
  assumes save_load: "SaveJob store job s = (None, s') \<Longrightarrow> LoadJob store s' (SJ_ID job) = Inr (Some job)"
    and save_fail: "SaveJob store job s = (Some e, s') \<Longrightarrow> LoadJob store s' = LoadJob store s"
    and save_keeps: "LoadCheckpoint store (snd (SaveJob store job s)) = LoadCheckpoint store s"
    and append_keeps: "LoadJob store (snd (AppendEvent store now j v ev s)) = LoadJob store s"
      "LoadCheckpoint store (snd (AppendEvent store now j v ev s)) = LoadCheckpoint store s"
    and checkpoint_load: "SaveCheckpoint store now j i b v s = (None, s') \<Longrightarrow>
      LoadCheckpoint store s' j = Inr (Some \<lparr>CP_JobID = j, CP_StepID = i, CP_State = b, CP_Version = v, CP_CreatedAt = now\<rparr>)"
    and checkpoint_fail: "SaveCheckpoint store now j i b v s = (Some e, s') \<Longrightarrow> LoadCheckpoint store s' = LoadCheckpoint store s"
    and checkpoint_keeps: "LoadJob store (snd (SaveCheckpoint store now j i b v s)) = LoadJob store s"

lemma mem_loads:
  "LoadJob mem_durability s j = Inr (ms_jobs s j)" "LoadCheckpoint mem_durability s j = Inr (ms_checkpoints s j)"
  by (simp_all add: ms_defs)

interpretation sdk_mem: durability_store mem_durability
  by unfold_locales (auto simp: ms_defs Let_def fun_eq_iff)

end
