(* ===== verification/Durability_Runner.thy ===== *)
theory Durability_Runner
  imports Durability_Store
begin

text \<open>
  The runner of the durability SDK, \<open>sdk/durability/core/runner.go\<close>: \<open>Start\<close>, \<open>Execute\<close> with its
  retries and checkpoints, over any \<open>Store\<close>.  A run keeps, beside the current store, every
  state the store went through: a crash leaves one of those behind, and nothing else.  The step
  functions are the user's: they are arguments, and may answer differently on every call.

  Two things are left out.  \<open>Execute\<close> panics where a step adds keys to the nil map that an input of \<open>null\<close>
  decodes to; \<open>Start\<close> never writes such an input, and the model starts from the empty map.  A panic
  of a step function ends the process, which is the crash that \<open>wd_past\<close> accounts for.
\<close>

section \<open>Runs\<close>

record 's world =
  wd_store :: 's
  wd_past :: "'s list"
  wd_calls :: "string list"

text \<open>A call of the store: its new state is one a crash can leave behind.\<close>

definition effect :: "('s \<Rightarrow> 'r \<times> 's) \<Rightarrow> 's world \<Rightarrow> 'r \<times> 's world" where
  "effect f w = (case f (wd_store w) of (r, s') \<Rightarrow> (r, w\<lparr>wd_store := s', wd_past := wd_past w @ [s']\<rparr>))"

text \<open>Clock readings, one per state of the store, and whether the context is done when a retry waits.\<close>

record run_env =
  rn_now :: "nat \<Rightarrow> gotime"
  rn_cancelled :: "nat \<Rightarrow> bool"

abbreviation clock :: "run_env \<Rightarrow> 's world \<Rightarrow> gotime" where
  "clock env w \<equiv> rn_now env (length (wd_past w))"

record StepContext =
  SX_JobID :: string
  SX_StepID :: string
  SX_State :: gomap
  SX_Version :: int

text \<open>A step function; its first argument counts the calls made so far, so it need not be a function of the state.\<close>

type_synonym StepFunc = "nat \<Rightarrow> StepContext \<Rightarrow> gomap \<Rightarrow> string + gomap"

record Step =
  ST_ID :: string
  ST_Name :: string
  ST_Fn :: StepFunc
  ST_MaxRetries :: int
  ST_RetryDelay :: duration

datatype exec_error =
    ELoadJob string | EJobNotFound | EJobCancelled string | EListEvents string | ELoadCheckpoint string
  | EUnmarshalCheckpoint | ESaveRunning string | EAppendStarted append_error | EContext
  | EStepFailed string string | ESaveCheckpoint string | ESaveProgress string | ESaveCompleted string

definition emit_event ::
  "'s Store \<Rightarrow> run_env \<Rightarrow> string \<Rightarrow> SdkEventType \<Rightarrow> string \<Rightarrow> bytes \<Rightarrow> int \<Rightarrow> 's world \<Rightarrow> (int \<times> append_error option) \<times> 's world" where
  "emit_event store env jobID t stepID payload version w =
     effect (AppendEvent store (clock env w) jobID version
       (SdkEvent0\<lparr>SE_Type := t, SE_StepID := stepID, SE_Payload := payload\<rparr>)) w"

section \<open>One step\<close>

datatype attempt_outcome = StepDone gomap | StepErr string | CtxDone

text \<open>
  The retry loop with \<open>Suc n\<close> attempts left; \<open>mx\<close> is the number of attempts in all.  The returned version is
  that of the last retry event, whether it was written or refused.
\<close>

primrec step_attempts ::
  "'s Store \<Rightarrow> run_env \<Rightarrow> string \<Rightarrow> Step \<Rightarrow> gomap \<Rightarrow> int \<Rightarrow> nat \<Rightarrow> int \<Rightarrow> int \<Rightarrow> 's world
     \<Rightarrow> (attempt_outcome \<times> int) \<times> 's world" where
  "step_attempts store env jobID step state mx 0 attempt v w = ((StepErr [], v), w)"
| "step_attempts store env jobID step state mx (Suc n) attempt v w =
     (if attempt > 0 \<and> ST_RetryDelay step > 0 \<and> rn_cancelled env (length (wd_calls w)) then ((CtxDone, v), w)
      else (let ctx = \<lparr>SX_JobID = jobID, SX_StepID = ST_ID step, SX_State = state, SX_Version = v\<rparr>;
                w1 = w\<lparr>wd_calls := wd_calls w @ [ST_ID step]\<rparr>
            in case ST_Fn step (length (wd_calls w)) ctx state of
                 Inr r \<Rightarrow> ((StepDone r, v), w1)
               | Inl err \<Rightarrow>
                   if attempt < mx - 1 then
                     (case emit_event store env jobID EventStepRetried (ST_ID step)
                         (json_marshal (JObj [(''attempt'', JNum (dec_int (attempt + 1))), (''error'', JStr err),
                            (''max_retries'', JNum (dec_int mx))])) v w1 of
                        ((v', _), w2) \<Rightarrow> step_attempts store env jobID step state mx n (attempt + 1) v' w2)
                   else ((StepErr err, v), w1)))"

definition max_tries :: "Step \<Rightarrow> int" where
  "max_tries step = (if ST_MaxRetries step \<le> 0 then 1 else ST_MaxRetries step)"

definition fail_step ::
  "'s Store \<Rightarrow> run_env \<Rightarrow> Step \<Rightarrow> string \<Rightarrow> SdkJob \<Rightarrow> 's world \<Rightarrow> (exec_error + (gomap \<times> SdkJob)) \<times> 's world" where
  "fail_step store env step err job w =
     (case emit_event store env (SJ_ID job) EventStepFailed (ST_ID step)
             (json_marshal (JObj [(''error'', JStr err)])) (SJ_Version job) w of
        ((v, _), w1) \<Rightarrow>
          (Inl (EStepFailed (ST_ID step) err),
           snd (effect (SaveJob store (job\<lparr>SJ_Version := v, SJ_State := StateFailed, SJ_Error := err,
             SJ_UpdatedAt := clock env w1\<rparr>)) w1)))"

text \<open>
  After the step function succeeded: \<open>step_finished\<close>, the checkpoint, \<open>checkpoint_saved\<close>, the job.  The errors of
  the two appends are dropped; the version they return is kept.  Keys are listed in map order.
\<close>

definition output_keys :: "gomap \<Rightarrow> bytes" where
  "output_keys m = json_marshal (JObj [(''output_keys'', JArr (map (\<lambda>(k, _). JStr k) m))])"

definition finish_step ::
  "'s Store \<Rightarrow> run_env \<Rightarrow> Step \<Rightarrow> gomap \<Rightarrow> gomap \<Rightarrow> SdkJob \<Rightarrow> 's world \<Rightarrow> (exec_error + (gomap \<times> SdkJob)) \<times> 's world" where
  "finish_step store env step stepResult state job w =
     (case emit_event store env (SJ_ID job) EventStepFinished (ST_ID step) (output_keys stepResult) (SJ_Version job) w of
        ((v, _), w1) \<Rightarrow>
        (case effect (SaveCheckpoint store (clock env w1) (SJ_ID job) (ST_ID step) (marshal_map state) v) w1 of
           (Some e, w2) \<Rightarrow> (Inl (ESaveCheckpoint e), w2)
         | (None, w2) \<Rightarrow>
           (case emit_event store env (SJ_ID job) EventCheckpointSaved (ST_ID step) [] v w2 of
              ((v', _), w3) \<Rightarrow>
              (let job' = job\<lparr>SJ_Version := v', SJ_CompletedSteps := (SJ_CompletedSteps job)(ST_ID step \<mapsto> marshal_map state),
                     SJ_UpdatedAt := clock env w3\<rparr>
               in case effect (SaveJob store job') w3 of
                    (Some e, w4) \<Rightarrow> (Inl (ESaveProgress e), w4)
                  | (None, w4) \<Rightarrow> (Inr (state, job'), w4)))))"

definition run_step ::
  "'s Store \<Rightarrow> run_env \<Rightarrow> Step \<Rightarrow> gomap \<Rightarrow> SdkJob \<Rightarrow> 's world \<Rightarrow> (exec_error + (gomap \<times> SdkJob)) \<times> 's world" where
  "run_step store env step state job w =
     (case emit_event store env (SJ_ID job) EventStepStarted (ST_ID step)
             (json_marshal (JObj [(''step_name'', JStr (ST_Name step))])) (SJ_Version job) w of
        ((v, Some e), w1) \<Rightarrow> (Inl (EAppendStarted e), w1)
      | ((v, None), w1) \<Rightarrow>
          (case step_attempts store env (SJ_ID job) step state (max_tries step) (nat (max_tries step)) 0 v w1 of
             ((CtxDone, v'), w2) \<Rightarrow> (Inl EContext, w2)
           | ((StepErr err, v'), w2) \<Rightarrow> fail_step store env step err (job\<lparr>SJ_Version := v'\<rparr>) w2
           | ((StepDone r, v'), w2) \<Rightarrow> finish_step store env step r (gmerge state r) (job\<lparr>SJ_Version := v'\<rparr>) w2))"

fun run_steps ::
  "'s Store \<Rightarrow> run_env \<Rightarrow> Step list \<Rightarrow> gomap \<Rightarrow> SdkJob \<Rightarrow> 's world \<Rightarrow> (exec_error + (gomap \<times> SdkJob)) \<times> 's world" where
  "run_steps store env [] state job w = (Inr (state, job), w)"
| "run_steps store env (step # steps) state job w = (case run_step store env step state job w of
       (Inl e, w1) \<Rightarrow> (Inl e, w1)
     | (Inr (state', job'), w1) \<Rightarrow> run_steps store env steps state' job' w1)"

section \<open>Execute\<close>

definition initial_state :: "bytes \<Rightarrow> gomap" where
  "initial_state input = (if input = [] then [] else (case decode_map input of MapOf m \<Rightarrow> m | _ \<Rightarrow> []))"

text \<open>The index of the step after the checkpoint's, 0 if no step has its id.\<close>

fun index_after :: "string \<Rightarrow> Step list \<Rightarrow> nat option" where
  "index_after i [] = None"
| "index_after i (step # steps) = (if ST_ID step = i then Some 1 else map_option Suc (index_after i steps))"

text \<open>The state and the index a run starts from; \<open>None\<close> when the checkpoint does not decode.\<close>

definition resume_point :: "Checkpoint option \<Rightarrow> bytes \<Rightarrow> Step list \<Rightarrow> (gomap \<times> nat) option" where
  "resume_point cp input steps = (case cp of
       None \<Rightarrow> Some (initial_state input, 0)
     | Some c \<Rightarrow>
         (let startIdx = (case index_after (CP_StepID c) steps of Some i \<Rightarrow> i | None \<Rightarrow> 0)
          in if CP_State c = [] then Some (initial_state input, startIdx)
             else (case decode_map (CP_State c) of
                 DecodeError \<Rightarrow> None
               | NilMap \<Rightarrow> Some (initial_state input, startIdx)
               | MapOf m \<Rightarrow> Some (m, startIdx))))"

definition complete_job ::
  "'s Store \<Rightarrow> run_env \<Rightarrow> gomap \<Rightarrow> SdkJob \<Rightarrow> 's world \<Rightarrow> (exec_error + gomap option) \<times> 's world" where
  "complete_job store env state job w =
     (case effect (SaveJob store (job\<lparr>SJ_State := StateCompleted, SJ_Result := marshal_map state, SJ_UpdatedAt := clock env w\<rparr>)) w of
        (Some e, w1) \<Rightarrow> (Inl (ESaveCompleted e), w1)
      | (None, w1) \<Rightarrow>
          (Inr (Some state), snd (emit_event store env (SJ_ID job) EventJobCompleted [] (output_keys state) (SJ_Version job) w1)))"

definition run_job ::
  "'s Store \<Rightarrow> run_env \<Rightarrow> SdkJob \<Rightarrow> Step list \<Rightarrow> gomap \<Rightarrow> nat \<Rightarrow> 's world \<Rightarrow> (exec_error + gomap option) \<times> 's world" where
  "run_job store env job steps state startIdx w =
     (let job' = job\<lparr>SJ_State := StateRunning, SJ_UpdatedAt := clock env w\<rparr>
      in case effect (SaveJob store job') w of
           (Some e, w1) \<Rightarrow> (Inl (ESaveRunning e), w1)
         | (None, w1) \<Rightarrow>
             (case run_steps store env (drop startIdx steps) state job' w1 of
                (Inl e, w2) \<Rightarrow> (Inl e, w2)
              | (Inr (state', job''), w2) \<Rightarrow> complete_job store env state' job'' w2))"

text \<open>The result \<open>Inr None\<close> is the nil map: a completed job without a readable result.\<close>

definition stored_result :: "bytes \<Rightarrow> gomap option" where
  "stored_result b = (if b = [] then None else (case decode_map b of MapOf m \<Rightarrow> Some m | _ \<Rightarrow> None))"

definition Execute ::
  "'s Store \<Rightarrow> run_env \<Rightarrow> string \<Rightarrow> Step list \<Rightarrow> 's world \<Rightarrow> (exec_error + gomap option) \<times> 's world" where
  "Execute store env jobID steps w =
     (let s = wd_store w
      in case LoadJob store s jobID of
           Inl e \<Rightarrow> (Inl (ELoadJob e), w)
         | Inr None \<Rightarrow> (Inl EJobNotFound, w)
         | Inr (Some job) \<Rightarrow>
             if SJ_State job = StateCompleted then (Inr (stored_result (SJ_Result job)), w)
             else if SJ_State job = StateCancelled then (Inl (EJobCancelled jobID), w)
             else (case SdkListEvents store s jobID of
                 Inl e \<Rightarrow> (Inl (EListEvents e), w)
               | Inr (_, storeVersion) \<Rightarrow>
                   (case LoadCheckpoint store s jobID of
                      Inl e \<Rightarrow> (Inl (ELoadCheckpoint e), w)
                    | Inr cp \<Rightarrow>
                        (case resume_point cp (SJ_Input job) steps of
                           None \<Rightarrow> (Inl EUnmarshalCheckpoint, w)
                         | Some (state, startIdx) \<Rightarrow>
                             run_job store env (job\<lparr>SJ_Version := storeVersion\<rparr>) steps state startIdx w))))"

text \<open>\<open>Start\<close>: the job id is made of the name and the clock's nanoseconds since 1970.\<close>

datatype start_error = EMarshalInput | ESaveJob string | EAppendCreated append_error | ESaveVersion string

definition start_id :: "string \<Rightarrow> gotime \<Rightarrow> string" where
  "start_id name now = ''job-'' @ name @ ''-'' @ dec_int (now - 62135596800 * Second)"

definition Start_sdk ::
  "'s Store \<Rightarrow> run_env \<Rightarrow> string \<Rightarrow> gomap option \<Rightarrow> 's world \<Rightarrow> (start_error + SdkJob) \<times> 's world" where
  "Start_sdk store env name input w =
     (let jobID = start_id name (clock env w);
          inputBytes = (case input of None \<Rightarrow> [] | Some m \<Rightarrow> marshal_map m);
          job = \<lparr>SJ_ID = jobID, SJ_Name = name, SJ_State = StateCreated, SJ_Version = 0, SJ_Input = inputBytes,
                 SJ_Result = [], SJ_Error = [], SJ_CreatedAt = clock env w, SJ_UpdatedAt = clock env w,
                 SJ_CompletedSteps = Map.empty\<rparr>
      in if input \<noteq> None \<and> inputBytes = [] then (Inl EMarshalInput, w)
         else (case effect (SaveJob store job) w of
             (Some e, w1) \<Rightarrow> (Inl (ESaveJob e), w1)
           | (None, w1) \<Rightarrow>
               (case emit_event store env jobID EventJobCreated [] (json_marshal (JObj [(''name'', JStr name)])) 0 w1 of
                  ((v, Some e), w2) \<Rightarrow> (Inl (EAppendCreated e), w2)
                | ((v, None), w2) \<Rightarrow>
                    (let job' = job\<lparr>SJ_Version := v, SJ_UpdatedAt := clock env w2\<rparr>
                     in case effect (SaveJob store job') w2 of
                          (Some e, w3) \<Rightarrow> (Inl (ESaveVersion e), w3)
                        | (None, w3) \<Rightarrow> (Inr job', w3)))))"

definition Resume_sdk :: "'s Store \<Rightarrow> run_env \<Rightarrow> string \<Rightarrow> Step list \<Rightarrow> 's world \<Rightarrow> (exec_error + gomap option) \<times> 's world" where
  "Resume_sdk = Execute"

definition GetJob :: "'s Store \<Rightarrow> 's \<Rightarrow> string \<Rightarrow> string + SdkJob option" where
  "GetJob store s jobID = LoadJob store s jobID"

definition GetEvents :: "'s Store \<Rightarrow> 's \<Rightarrow> string \<Rightarrow> string + SdkEvent list" where
  "GetEvents store s jobID = (case SdkListEvents store s jobID of Inl e \<Rightarrow> Inl e | Inr (es, _) \<Rightarrow> Inr es)"

section \<open>Runs against a plan\<close>

text \<open>
  What an undisturbed run would compute: a plan fixes the steps, the initial state and the answer \<open>pn_out\<close> of
  each step.  A run follows the plan when every successful call of a step function gives the planned answer;
  calls may still fail, in any number and at any time.
\<close>

record plan =
  pn_out :: "string \<Rightarrow> gomap \<Rightarrow> gomap"
  pn_steps :: "Step list"
  pn_init :: gomap
  pn_job :: string

definition state_after :: "plan \<Rightarrow> nat \<Rightarrow> gomap" where
  "state_after p n = foldl (\<lambda>st step. gmerge st (pn_out p (ST_ID step) st)) (pn_init p) (take n (pn_steps p))"

abbreviation final_state :: "plan \<Rightarrow> gomap" where
  "final_state p \<equiv> state_after p (length (pn_steps p))"

definition follows :: "plan \<Rightarrow> bool" where
  "follows p \<longleftrightarrow> (\<forall>step\<in>set (pn_steps p). \<forall>n ctx st r. ST_Fn step n ctx st = Inr r \<longrightarrow> r = pn_out p (ST_ID step) st)"

text \<open>Ids are distinct, and the states survive being written to a checkpoint.\<close>

definition well_planned :: "plan \<Rightarrow> bool" where
  "well_planned p \<longleftrightarrow> follows p \<and> distinct (map ST_ID (pn_steps p))
     \<and> list_all (\<lambda>n. json_stable (state_after p n)) [0..<Suc (length (pn_steps p))]"

text \<open>What a job and a checkpoint of the plan look like; the checkpoint is of step \<open>n\<close> or a later one.\<close>

definition job_ok :: "plan \<Rightarrow> SdkJob \<Rightarrow> bool" where
  "job_ok p job \<longleftrightarrow> SJ_ID job = pn_job p \<and> initial_state (SJ_Input job) = pn_init p \<and> SJ_State job \<noteq> StateCancelled
     \<and> (SJ_State job = StateCompleted \<longrightarrow> SJ_Result job = marshal_map (final_state p))"

definition checkpoint_ok :: "plan \<Rightarrow> nat \<Rightarrow> Checkpoint \<Rightarrow> bool" where
  "checkpoint_ok p n c \<longleftrightarrow> (\<exists>i<length (pn_steps p). n \<le> Suc i \<and> CP_StepID c = ST_ID (pn_steps p ! i)
     \<and> CP_State c = marshal_map (state_after p (Suc i)))"

definition on_plan :: "'s Store \<Rightarrow> plan \<Rightarrow> nat \<Rightarrow> 's \<Rightarrow> bool" where
  "on_plan store p n s \<longleftrightarrow>
     (case LoadJob store s (pn_job p) of Inl _ \<Rightarrow> True | Inr None \<Rightarrow> False | Inr (Some job) \<Rightarrow> job_ok p job)
   \<and> (case LoadCheckpoint store s (pn_job p) of
        Inl _ \<Rightarrow> True | Inr None \<Rightarrow> n = 0 | Inr (Some c) \<Rightarrow> checkpoint_ok p n c)"

text \<open>From \<open>w\<close> to \<open>w'\<close> the store went through states of \<open>P\<close> only and the calls were of steps in \<open>A\<close>.\<close>

definition adds :: "('s \<Rightarrow> bool) \<Rightarrow> string set \<Rightarrow> 's world \<Rightarrow> 's world \<Rightarrow> bool" where
  "adds P A w w' \<longleftrightarrow> (\<exists>ps cs. wd_past w' = wd_past w @ ps \<and> (\<forall>s\<in>set ps. P s)
     \<and> wd_calls w' = wd_calls w @ cs \<and> set cs \<subseteq> A \<and> P (wd_store w'))"

lemma adds_refl: "P (wd_store w) \<Longrightarrow> adds P A w w"
  by (auto simp: adds_def)

lemma adds_trans:
  assumes "adds P A w1 w2" and "adds P A w2 w3" shows "adds P A w1 w3"
proof -
  obtain ps cs where 1: "wd_past w2 = wd_past w1 @ ps" "\<forall>s\<in>set ps. P s" "wd_calls w2 = wd_calls w1 @ cs" "set cs \<subseteq> A"
    using assms(1) unfolding adds_def by blast
  obtain qs ds where 2: "wd_past w3 = wd_past w2 @ qs" "\<forall>s\<in>set qs. P s" "wd_calls w3 = wd_calls w2 @ ds" "set ds \<subseteq> A"
    "P (wd_store w3)"
    using assms(2) unfolding adds_def by blast
  show ?thesis unfolding adds_def
    by (rule exI [of _ "ps @ qs"], rule exI [of _ "cs @ ds"]) (use 1 2 in auto)
qed

lemma adds_effect: "effect f w = (r, w') \<Longrightarrow> P (snd (f (wd_store w))) \<Longrightarrow> adds P A w w'"
  by (auto simp: adds_def effect_def split: prod.splits)

lemma adds_store: "adds P A w w' \<Longrightarrow> P (wd_store w')"
  by (auto simp: adds_def)

lemma adds_call: "P (wd_store w) \<Longrightarrow> c \<in> A \<Longrightarrow> adds P A w (w\<lparr>wd_calls := wd_calls w @ [c]\<rparr>)"
  by (auto simp: adds_def)

lemma adds_mono: "adds P A w w' \<Longrightarrow> A \<subseteq> B \<Longrightarrow> adds P B w w'"
  by (auto simp: adds_def)

lemma state_after_Suc:
  "n < length (pn_steps p) \<Longrightarrow>
     state_after p (Suc n) = gmerge (state_after p n) (pn_out p (ST_ID (pn_steps p ! n)) (state_after p n))"
  by (simp add: state_after_def take_Suc_conv_app_nth)

lemma index_after_nth:
  "distinct (map ST_ID steps) \<Longrightarrow> i < length steps \<Longrightarrow> index_after (ST_ID (steps ! i)) steps = Some (Suc i)"
proof (induction steps arbitrary: i)
  case (Cons step steps)
  then show ?case by (cases i) auto
qed simp

context durability_store
begin

lemma emit_on_plan:
  "emit_event store env j t i b v w = (r, w') \<Longrightarrow> on_plan store p n (wd_store w) \<Longrightarrow> adds (on_plan store p n) A w w'"
  unfolding emit_event_def by (erule adds_effect) (simp add: on_plan_def append_keeps)

lemma save_on_plan:
  assumes "effect (SaveJob store job) w = (r, w')" and "on_plan store p n (wd_store w)" and "job_ok p job"
  shows "adds (on_plan store p n) A w w'"
proof (rule adds_effect [OF assms(1)])
  obtain e s' where s': "SaveJob store job (wd_store w) = (e, s')" by (cases "SaveJob store job (wd_store w)")
  have cp: "LoadCheckpoint store s' = LoadCheckpoint store (wd_store w)"
    using save_keeps [of job "wd_store w"] s' by simp
  have "case LoadJob store s' (pn_job p) of Inl _ \<Rightarrow> True | Inr None \<Rightarrow> False | Inr (Some job') \<Rightarrow> job_ok p job'"
  proof (cases e)
    case None
    have "pn_job p = SJ_ID job" using assms(3) by (simp add: job_ok_def)
    then show ?thesis using save_load [OF s' [unfolded None]] assms(3) by simp
  next
    case (Some x)
    then show ?thesis using save_fail [OF s' [unfolded Some]] assms(2) by (simp add: on_plan_def)
  qed
  then show "on_plan store p n (snd (SaveJob store job (wd_store w)))"
    using assms(2) cp s' by (simp add: on_plan_def)
qed

lemma checkpoint_on_plan:
  assumes "effect (SaveCheckpoint store now (pn_job p) (ST_ID (pn_steps p ! i)) (marshal_map (state_after p (Suc i))) v) w = (r, w')"
    and "on_plan store p n (wd_store w)" and "i < length (pn_steps p)" and "n \<le> Suc i"
  shows "adds (on_plan store p n) A w w'"
proof (rule adds_effect [OF assms(1)])
  let ?f = "SaveCheckpoint store now (pn_job p) (ST_ID (pn_steps p ! i)) (marshal_map (state_after p (Suc i))) v (wd_store w)"
  obtain e s' where s': "?f = (e, s')" by (cases ?f)
  have job: "LoadJob store s' = LoadJob store (wd_store w)"
    using checkpoint_keeps [of now "pn_job p" "ST_ID (pn_steps p ! i)" "marshal_map (state_after p (Suc i))" v "wd_store w"] s' by simp
  show "on_plan store p n (snd ?f)"
  proof (cases e)
    case None
    then have "LoadCheckpoint store s' (pn_job p) = Inr (Some \<lparr>CP_JobID = pn_job p, CP_StepID = ST_ID (pn_steps p ! i),
        CP_State = marshal_map (state_after p (Suc i)), CP_Version = v, CP_CreatedAt = now\<rparr>)"
      using checkpoint_load s' by blast
    then show ?thesis using assms job s' by (auto simp: on_plan_def checkpoint_ok_def)
  next
    case (Some x)
    then have "LoadCheckpoint store s' = LoadCheckpoint store (wd_store w)" using checkpoint_fail s' by blast
    then show ?thesis using assms(2) job s' by (simp add: on_plan_def)
  qed
qed

lemma step_attempts_on_plan:
  assumes "on_plan store p n (wd_store w)" and "ST_ID step \<in> A"
    and "step_attempts store env j step state mx k a v w = ((out, v'), w')"
  shows "adds (on_plan store p n) A w w'
     \<and> (\<forall>r. out = StepDone r \<longrightarrow> (\<exists>m ctx. ST_Fn step m ctx state = Inr r))"
  using assms(1,3)
proof (induction k arbitrary: a v w)
  case 0
  then show ?case by (auto simp: adds_refl)
next
  case (Suc k)
  let ?ctx = "\<lparr>SX_JobID = j, SX_StepID = ST_ID step, SX_State = state, SX_Version = v\<rparr>"
  let ?w1 = "w\<lparr>wd_calls := wd_calls w @ [ST_ID step]\<rparr>"
  show ?case
  proof (cases "a > 0 \<and> ST_RetryDelay step > 0 \<and> rn_cancelled env (length (wd_calls w))")
    case True
    then show ?thesis using Suc.prems by (auto simp: adds_refl)
  next
    case False
    have call: "adds (on_plan store p n) A w ?w1" by (rule adds_call) (use Suc.prems assms(2) in auto)
    show ?thesis
    proof (cases "ST_Fn step (length (wd_calls w)) ?ctx state")
      case (Inr r)
      then show ?thesis using Suc.prems call False by (auto simp: Let_def)
    next
      case (Inl err)
      show ?thesis
      proof (cases "a < mx - 1")
        case False
        then show ?thesis using Suc.prems call Inl \<open>\<not> (a > 0 \<and> _)\<close> by (auto simp: Let_def)
      next
        case True
        obtain x e w2 where em: "emit_event store env j EventStepRetried (ST_ID step)
            (json_marshal (JObj [(''attempt'', JNum (dec_int (a + 1))), (''error'', JStr err),
               (''max_retries'', JNum (dec_int mx))])) v ?w1 = ((x, e), w2)"
          by (metis surj_pair)
        have retry: "adds (on_plan store p n) A ?w1 w2"
          using emit_on_plan [OF em] Suc.prems(1) by simp
        have rest: "step_attempts store env j step state mx k (a + 1) x w2 = ((out, v'), w')"
          using Suc.prems(2) Inl True False em \<open>\<not> (a > 0 \<and> _)\<close> by (simp add: Let_def)
        show ?thesis
          using Suc.IH [OF adds_store [OF retry] rest] call retry by (blast intro: adds_trans)
      qed
    qed
  qed
qed

lemma finish_step_on_plan:
  assumes "on_plan store p n (wd_store w)" and "job_ok p job" and "SJ_State job \<noteq> StateCompleted"
    and "i < length (pn_steps p)" and "n \<le> Suc i" and "state = state_after p (Suc i)"
    and "finish_step store env (pn_steps p ! i) r state job w = (res, w')"
  shows "adds (on_plan store p n) A w w'
    \<and> (\<forall>st job'. res = Inr (st, job') \<longrightarrow> st = state \<and> job_ok p job' \<and> SJ_State job' \<noteq> StateCompleted)"
proof -
  let ?id = "ST_ID (pn_steps p ! i)"
  have id: "SJ_ID job = pn_job p" using assms(2) by (simp add: job_ok_def)
  obtain v x w1 where e1: "emit_event store env (pn_job p) EventStepFinished ?id (output_keys r) (SJ_Version job) w = ((v, x), w1)"
    by (metis surj_pair)
  obtain y w2 where e2: "effect (SaveCheckpoint store (clock env w1) (pn_job p) ?id (marshal_map state) v) w1 = (y, w2)"
    by (metis surj_pair)
  obtain v' z w3 where e3: "emit_event store env (pn_job p) EventCheckpointSaved ?id [] v w2 = ((v', z), w3)"
    by (metis surj_pair)
  let ?job = "job\<lparr>SJ_Version := v', SJ_CompletedSteps := (SJ_CompletedSteps job)(?id \<mapsto> marshal_map state),
       SJ_UpdatedAt := clock env w3\<rparr>"
  obtain u w4 where e4: "effect (SaveJob store ?job) w3 = (u, w4)" by (metis surj_pair)
  have ok: "job_ok p ?job" "SJ_State ?job \<noteq> StateCompleted" using assms(2,3) by (simp_all add: job_ok_def)
  have a1: "adds (on_plan store p n) A w w1" by (rule emit_on_plan [OF e1 assms(1)])
  have a2: "adds (on_plan store p n) A w1 w2"
    using checkpoint_on_plan [OF e2 [unfolded assms(6)] adds_store [OF a1] assms(4,5)] .
  have a3: "adds (on_plan store p n) A w2 w3" by (rule emit_on_plan [OF e3 adds_store [OF a2]])
  have a4: "adds (on_plan store p n) A w3 w4" by (rule save_on_plan [OF e4 adds_store [OF a3] ok(1)])
  note a13 = adds_trans [OF a1 adds_trans [OF a2 a3]]
  show ?thesis
  proof (cases y)
    case Some
    then show ?thesis using assms(7) e1 e2 id adds_trans [OF a1 a2] by (auto simp: finish_step_def)
  next
    case None
    then show ?thesis using assms(7) e1 e2 e3 e4 id ok adds_trans [OF a13 a4]
      by (cases u) (auto simp: finish_step_def Let_def)
  qed
qed

lemma fail_step_on_plan:
  assumes "on_plan store p n (wd_store w)" and "job_ok p job"
    and "fail_step store env step err job w = (res, w')"
  shows "adds (on_plan store p n) A w w' \<and> (\<exists>e. res = Inl e)"
proof -
  obtain v x w1 where e1: "emit_event store env (SJ_ID job) EventStepFailed (ST_ID step)
      (json_marshal (JObj [(''error'', JStr err)])) (SJ_Version job) w = ((v, x), w1)"
    by (metis surj_pair)
  let ?job = "job\<lparr>SJ_Version := v, SJ_State := StateFailed, SJ_Error := err, SJ_UpdatedAt := clock env w1\<rparr>"
  obtain u w2 where e2: "effect (SaveJob store ?job) w1 = (u, w2)" by (metis surj_pair)
  have "job_ok p ?job" using assms(2) by (simp add: job_ok_def)
  then show ?thesis
    using emit_on_plan [OF e1 assms(1), where A = A] save_on_plan [OF e2, where A = A] assms(3) e1 e2
    by (auto simp: fail_step_def adds_store intro: adds_trans)
qed

lemma run_step_on_plan:
  assumes "on_plan store p n (wd_store w)" and "job_ok p job" and "SJ_State job \<noteq> StateCompleted" and "follows p"
    and "i < length (pn_steps p)" and "n \<le> Suc i" and "ST_ID (pn_steps p ! i) \<in> A"
    and "run_step store env (pn_steps p ! i) (state_after p i) job w = (res, w')"
  shows "adds (on_plan store p n) A w w'
    \<and> (\<forall>st job'. res = Inr (st, job') \<longrightarrow> st = state_after p (Suc i) \<and> job_ok p job' \<and> SJ_State job' \<noteq> StateCompleted)"
proof -
  let ?step = "pn_steps p ! i"
  obtain v x w1 where e1: "emit_event store env (SJ_ID job) EventStepStarted (ST_ID ?step)
      (json_marshal (JObj [(''step_name'', JStr (ST_Name ?step))])) (SJ_Version job) w = ((v, x), w1)"
    by (metis surj_pair)
  have a1: "adds (on_plan store p n) A w w1" by (rule emit_on_plan [OF e1 assms(1)])
  obtain out v' w2 where e2: "step_attempts store env (SJ_ID job) ?step (state_after p i) (max_tries ?step)
      (nat (max_tries ?step)) 0 v w1 = ((out, v'), w2)"
    by (metis surj_pair)
  note a2 = step_attempts_on_plan [OF adds_store [OF a1] assms(7) e2]
  have job: "job_ok p (job\<lparr>SJ_Version := v'\<rparr>)" "SJ_State (job\<lparr>SJ_Version := v'\<rparr>) \<noteq> StateCompleted"
    using assms(2,3) by (simp_all add: job_ok_def)
  show ?thesis
  proof (cases x)
    case Some
    then show ?thesis using assms(8) e1 a1 by (auto simp: run_step_def)
  next
    case None
    note on2 = adds_store [OF conjunct1 [OF a2]]
    show ?thesis
    proof (cases out)
      case (StepDone r)
      then obtain m ctx where "ST_Fn ?step m ctx (state_after p i) = Inr r" using a2 by blast
      then have "r = pn_out p (ST_ID ?step) (state_after p i)"
        using assms(4,5) by (auto simp: follows_def)
      then have st: "gmerge (state_after p i) r = state_after p (Suc i)"
        using assms(5) by (simp add: state_after_Suc)
      show ?thesis
        using finish_step_on_plan [OF on2 job assms(5,6) st, of env r res w' A] a1 a2 e1 e2 None StepDone assms(8)
        by (auto simp: run_step_def st intro: adds_trans)
    next
      case (StepErr err)
      then show ?thesis
        using fail_step_on_plan [OF on2 job(1), of env ?step err res w' A] a1 a2 e1 e2 None assms(8)
        by (auto simp: run_step_def intro: adds_trans)
    next
      case CtxDone
      then show ?thesis using a1 a2 e1 e2 None assms(8) by (auto simp: run_step_def intro: adds_trans)
    qed
  qed
qed

lemma run_steps_on_plan:
  assumes "on_plan store p n (wd_store w)" and "job_ok p job" and "SJ_State job \<noteq> StateCompleted" and "follows p"
    and "n \<le> Suc i" and "ST_ID ` set (drop i (pn_steps p)) \<subseteq> A" and "i \<le> length (pn_steps p)"
    and "run_steps store env (drop i (pn_steps p)) (state_after p i) job w = (res, w')"
  shows "adds (on_plan store p n) A w w' \<and> (\<forall>st job'. res = Inr (st, job') \<longrightarrow> st = final_state p \<and> job_ok p job')"
  using assms
proof (induction "length (pn_steps p) - i" arbitrary: i job w)
  case 0
  then show ?case by (auto simp: adds_refl)
next
  case (Suc k)
  then have i: "i < length (pn_steps p)" by simp
  let ?step = "pn_steps p ! i"
  have split: "drop i (pn_steps p) = ?step # drop (Suc i) (pn_steps p)" using i by (simp add: Cons_nth_drop_Suc)
  obtain r w1 where e1: "run_step store env ?step (state_after p i) job w = (r, w1)" by (metis surj_pair)
  have in_A: "ST_ID ?step \<in> A" "ST_ID ` set (drop (Suc i) (pn_steps p)) \<subseteq> A" using Suc.prems(6) split by auto
  note a1 = run_step_on_plan [OF Suc.prems(1-4) i Suc.prems(5) in_A(1) e1]
  show ?case
  proof (cases r)
    case (Inl e)
    then show ?thesis using Suc.prems(8) a1 e1 split by auto
  next
    case (Inr sj)
    obtain st job' where sj: "sj = (st, job')" by (cases sj)
    have st: "st = state_after p (Suc i)" "job_ok p job'" "SJ_State job' \<noteq> StateCompleted" using a1 Inr sj by auto
    have run: "run_steps store env (drop (Suc i) (pn_steps p)) (state_after p (Suc i)) job' w1 = (res, w')"
      using Suc.prems(8) e1 Inr sj st split by simp
    have "adds (on_plan store p n) A w1 w' \<and> (\<forall>st job'. res = Inr (st, job') \<longrightarrow> st = final_state p \<and> job_ok p job')"
      by (rule Suc.hyps(1) [OF _ adds_store [OF conjunct1 [OF a1]] st(2,3) Suc.prems(4) _ in_A(2) _ run])
        (use Suc.hyps(2) Suc.prems(5) i in auto)
    then show ?thesis using a1 by (blast intro: adds_trans)
  qed
qed

lemma complete_job_on_plan:
  assumes "on_plan store p n (wd_store w)" and "job_ok p job"
    and "complete_job store env (final_state p) job w = (res, w')"
  shows "adds (on_plan store p n) A w w' \<and> (\<forall>r. res = Inr r \<longrightarrow> r = Some (final_state p))"
proof -
  let ?job = "job\<lparr>SJ_State := StateCompleted, SJ_Result := marshal_map (final_state p), SJ_UpdatedAt := clock env w\<rparr>"
  obtain x w1 where e1: "effect (SaveJob store ?job) w = (x, w1)" by (metis surj_pair)
  have "job_ok p ?job" using assms(2) by (simp add: job_ok_def)
  note a1 = save_on_plan [OF e1 assms(1) this]
  show ?thesis
  proof (cases x)
    case None
    have a2: "adds (on_plan store p n) A w1 (snd (emit_event store env (SJ_ID job) EventJobCompleted []
        (output_keys (final_state p)) (SJ_Version job) w1))"
      by (rule emit_on_plan [OF surjective_pairing adds_store [OF a1]])
    show ?thesis using assms(3) e1 None adds_trans [OF a1 a2] by (auto simp: complete_job_def)
  next
    case Some
    then show ?thesis using assms(3) e1 a1 by (auto simp: complete_job_def)
  qed
qed

lemma run_job_on_plan:
  assumes "on_plan store p n (wd_store w)" and "job_ok p job" and "follows p"
    and "n \<le> Suc i" and "ST_ID ` set (drop i (pn_steps p)) \<subseteq> A" and "i \<le> length (pn_steps p)"
    and "run_job store env job (pn_steps p) (state_after p i) i w = (res, w')"
  shows "adds (on_plan store p n) A w w' \<and> (\<forall>r. res = Inr r \<longrightarrow> r = Some (final_state p))"
proof -
  let ?job = "job\<lparr>SJ_State := StateRunning, SJ_UpdatedAt := clock env w\<rparr>"
  obtain x w1 where e1: "effect (SaveJob store ?job) w = (x, w1)" by (metis surj_pair)
  have job: "job_ok p ?job" "SJ_State ?job \<noteq> StateCompleted" using assms(2) by (simp_all add: job_ok_def)
  note a1 = save_on_plan [OF e1 assms(1) job(1), where A = A]
  obtain y w2 where e2: "run_steps store env (drop i (pn_steps p)) (state_after p i) ?job w1 = (y, w2)"
    by (metis surj_pair)
  note a2 = run_steps_on_plan [OF adds_store [OF a1] job assms(3-6) e2]
  show ?thesis
  proof (cases "x = None \<and> is_ok y")
    case True
    then obtain st job'' where yy: "y = Inr (st, job'')" by (cases y) auto
    then have y: "y = Inr (final_state p, job'')" "job_ok p job''" using conjunct2 [OF a2] by blast+
    have "complete_job store env (final_state p) job'' w2 = (res, w')"
      using assms(7) e1 e2 True y by (auto simp: run_job_def Let_def)
    note a3 = complete_job_on_plan [OF adds_store [OF conjunct1 [OF a2]] y(2) this, where A = A]
    show ?thesis using adds_trans [OF adds_trans [OF a1 conjunct1 [OF a2]] conjunct1 [OF a3]] a3 by simp
  next
    case False
    have a12: "adds (on_plan store p n) A w w2" by (rule adds_trans [OF a1 conjunct1 [OF a2]])
    consider (save) e where "x = Some e" | (step) e where "x = None" "y = Inl e"
      using False by (cases x; cases y) auto
    then show ?thesis
    proof cases
      case save
      then have "res = Inl (ESaveRunning e)" "w' = w1" using assms(7) e1 unfolding run_job_def Let_def by simp_all
      then show ?thesis using a1 by blast
    next
      case step
      then have "res = Inl e" "w' = w2" using assms(7) e1 e2 unfolding run_job_def Let_def by simp_all
      then show ?thesis using a12 by blast
    qed
  qed
qed

end

lemma stable_at:
  assumes "well_planned p" and "n \<le> length (pn_steps p)"
  shows "marshal_map (state_after p n) \<noteq> []" and "decode_map (marshal_map (state_after p n)) = MapOf (state_after p n)"
  using assms by (auto simp: well_planned_def json_stable_def list_all_iff less_Suc_eq_le simp del: upt_Suc)

text \<open>Where a run takes up: after step \<open>n\<close> at the earliest, in the state the plan has there.\<close>

lemma resume_on_plan:
  assumes "well_planned p" and "cp = None \<Longrightarrow> n = 0" and "\<And>c. cp = Some c \<Longrightarrow> checkpoint_ok p n c"
    and "initial_state input = pn_init p"
  shows "\<exists>i. n \<le> i \<and> i \<le> length (pn_steps p) \<and> resume_point cp input (pn_steps p) = Some (state_after p i, i)"
proof (cases cp)
  case None
  then show ?thesis using assms by (auto simp: resume_point_def state_after_def)
next
  case (Some c)
  then obtain i where i: "i < length (pn_steps p)" "n \<le> Suc i" "CP_StepID c = ST_ID (pn_steps p ! i)"
      "CP_State c = marshal_map (state_after p (Suc i))"
    using assms(3) by (auto simp: checkpoint_ok_def)
  have "index_after (CP_StepID c) (pn_steps p) = Some (Suc i)"
    using index_after_nth i assms(1) by (simp add: well_planned_def)
  then show ?thesis using Some i stable_at [OF assms(1), of "Suc i"]
    by (intro exI [of _ "Suc i"]) (auto simp: resume_point_def)
qed

context durability_store
begin

lemma Execute_on_plan:
  assumes "well_planned p" and "on_plan store p n (wd_store w)"
    and "Execute store env (pn_job p) (pn_steps p) w = (res, w')"
  shows "adds (on_plan store p n) (ST_ID ` set (drop n (pn_steps p))) w w' \<and> (\<forall>r. res = Inr r \<longrightarrow> r = Some (final_state p))"
proof (cases "\<exists>job es v cp. LoadJob store (wd_store w) (pn_job p) = Inr (Some job) \<and> SJ_State job \<noteq> StateCompleted
     \<and> SJ_State job \<noteq> StateCancelled \<and> SdkListEvents store (wd_store w) (pn_job p) = Inr (es, v)
     \<and> LoadCheckpoint store (wd_store w) (pn_job p) = Inr cp")
  case True
  then obtain job es v cp where loaded: "LoadJob store (wd_store w) (pn_job p) = Inr (Some job)"
      "SJ_State job \<noteq> StateCompleted" "SJ_State job \<noteq> StateCancelled"
      "SdkListEvents store (wd_store w) (pn_job p) = Inr (es, v)" "LoadCheckpoint store (wd_store w) (pn_job p) = Inr cp"
    by blast
  have job: "job_ok p (job\<lparr>SJ_Version := v\<rparr>)" using assms(2) loaded by (simp add: on_plan_def job_ok_def)
  have "\<exists>i. n \<le> i \<and> i \<le> length (pn_steps p) \<and> resume_point cp (SJ_Input job) (pn_steps p) = Some (state_after p i, i)"
    by (rule resume_on_plan [OF assms(1)]) (use assms(2) loaded in \<open>auto simp: on_plan_def job_ok_def\<close>)
  then obtain i where i: "n \<le> i" "i \<le> length (pn_steps p)"
      "resume_point cp (SJ_Input job) (pn_steps p) = Some (state_after p i, i)" by blast
  have "run_job store env (job\<lparr>SJ_Version := v\<rparr>) (pn_steps p) (state_after p i) i w = (res, w')"
    using assms(3) loaded i by (simp add: Execute_def)
  moreover have "ST_ID ` set (drop i (pn_steps p)) \<subseteq> ST_ID ` set (drop n (pn_steps p))"
    using i(1) by (intro image_mono set_drop_subset_set_drop)
  moreover have "follows p" "n \<le> Suc i" using assms(1) i(1) by (simp_all add: well_planned_def)
  ultimately show ?thesis using run_job_on_plan [OF assms(2) job _ _ _ i(2)] by blast
next
  case False
  have "w' = w \<and> (\<forall>r. res = Inr r \<longrightarrow> r = Some (final_state p))"
    using assms(3) False assms(2) stable_at [OF assms(1), of "length (pn_steps p)"]
    by (auto simp: Execute_def Let_def on_plan_def job_ok_def stored_result_def
        split: sum.splits option.splits if_splits prod.splits)
  then show ?thesis using assms(2) by (simp add: adds_refl)
qed

end

section \<open>Crashes\<close>

text \<open>
  The states the store can be in after any number of runs of \<open>Execute\<close>, each of them cut off after any of its
  effects or at its end.  The number of calls of step functions made before a run is arbitrary.
\<close>

inductive crash_reach :: "'s Store \<Rightarrow> string \<Rightarrow> Step list \<Rightarrow> 's \<Rightarrow> 's \<Rightarrow> bool"
  for store :: "'s Store" and j :: string and steps :: "Step list" and s0 :: 's where
  crash_start: "crash_reach store j steps s0 s0"
| crash_run: "crash_reach store j steps s0 s1 \<Longrightarrow>
    Execute store env j steps \<lparr>wd_store = s1, wd_past = [], wd_calls = cs\<rparr> = (res, w') \<Longrightarrow>
    s2 \<in> set (s1 # wd_past w') \<Longrightarrow> crash_reach store j steps s0 s2"

text \<open>A world in which a run begins.\<close>

abbreviation fresh_world :: "'s \<Rightarrow> string list \<Rightarrow> 's world" where
  "fresh_world s cs \<equiv> \<lparr>wd_store = s, wd_past = [], wd_calls = cs\<rparr>"

context durability_store
begin

lemma crash_reach_on_plan:
  assumes "crash_reach store (pn_job p) (pn_steps p) s0 s" and "well_planned p" and "on_plan store p n s0"
  shows "on_plan store p n s"
  using assms(1)
proof induction
  case crash_start
  then show ?case by (rule assms(3))
next
  case (crash_run s1 env cs res w' s2)
  have "on_plan store p n (wd_store (fresh_world s1 cs))" using crash_run.IH by simp
  note a = Execute_on_plan [OF assms(2) this crash_run.hyps(2)]
  have "\<forall>s\<in>set (wd_past w'). on_plan store p n s" using a unfolding adds_def by auto
  then show ?case using crash_run.hyps(3) crash_run.IH by auto
qed

text \<open>A checkpoint seen once bounds every later run from below.\<close>

lemma on_plan_raise:
  assumes "on_plan store p n s" and "well_planned p" and "LoadCheckpoint store s (pn_job p) = Inr (Some c)"
    and "CP_StepID c = ST_ID (pn_steps p ! i)" and "i < length (pn_steps p)"
  shows "on_plan store p (Suc i) s"
proof -
  obtain k where k: "k < length (pn_steps p)" "CP_StepID c = ST_ID (pn_steps p ! k)"
      "CP_State c = marshal_map (state_after p (Suc k))"
    using assms(1,3) by (auto simp: on_plan_def checkpoint_ok_def)
  then have "k = i"
    using assms(2,4,5) by (simp add: well_planned_def distinct_conv_nth) (metis nth_map)
  then show ?thesis using assms(1,3) k by (auto simp: on_plan_def checkpoint_ok_def)
qed

lemma Start_on_plan:
  assumes "Start_sdk store env name (Some (pn_init p)) w = (Inr job, w')" and "well_planned p" and "pn_job p = SJ_ID job"
    and "LoadCheckpoint store (wd_store w) (SJ_ID job) = Inr None"
  shows "on_plan store p 0 (wd_store w')"
proof -
  define j where "j = start_id name (clock env w)"
  define job0 where "job0 = \<lparr>SJ_ID = j, SJ_Name = name, SJ_State = StateCreated, SJ_Version = 0,
      SJ_Input = marshal_map (pn_init p), SJ_Result = [], SJ_Error = [], SJ_CreatedAt = clock env w,
      SJ_UpdatedAt = clock env w, SJ_CompletedSteps = Map.empty\<rparr>"
  have init: "initial_state (marshal_map (pn_init p)) = pn_init p" "marshal_map (pn_init p) \<noteq> []"
    using stable_at [OF assms(2), of 0] by (simp_all add: initial_state_def state_after_def)
  obtain x w1 where e1: "effect (SaveJob store job0) w = (x, w1)" by (metis surj_pair)
  obtain v y w2 where e2: "emit_event store env j EventJobCreated [] (json_marshal (JObj [(''name'', JStr name)])) 0 w1
      = ((v, y), w2)" by (metis surj_pair)
  define job1 where "job1 = job0\<lparr>SJ_Version := v, SJ_UpdatedAt := clock env w2\<rparr>"
  obtain z w3 where e3: "effect (SaveJob store job1) w2 = (z, w3)" by (metis surj_pair)
  have start: "x = None" "y = None" "z = None" "job = job1" "w' = w3"
    using assms(1) init e1 e2 e3
    by (auto simp: Start_sdk_def Let_def j_def [symmetric] job0_def [symmetric] job1_def [symmetric] split: option.splits)
  have id: "SJ_ID job0 = j" "SJ_ID job1 = j" "pn_job p = j"
    using assms(3) start by (simp_all add: job0_def job1_def)
  have s3: "SaveJob store job1 (wd_store w2) = (None, wd_store w3)"
    using e3 start by (auto simp: effect_def split: prod.splits)
  have "LoadCheckpoint store (wd_store w3) = LoadCheckpoint store (wd_store w)"
    using e1 e2 e3 save_keeps [of job0 "wd_store w"] save_keeps [of job1 "wd_store w2"]
    by (auto simp: effect_def emit_event_def append_keeps split: prod.splits dest!: arg_cong [where f = snd])
  then have "LoadCheckpoint store (wd_store w3) j = Inr None" using assms(4) start id by simp
  moreover have "LoadJob store (wd_store w3) j = Inr (Some job1)" using save_load [OF s3] id by simp
  moreover have "job_ok p job1" using init id by (simp add: job_ok_def job1_def job0_def)
  ultimately show ?thesis using id start by (simp add: on_plan_def)
qed

end

section \<open>Progress on the in-memory store\<close>

text \<open>From call \<open>m\<close> on, every call of a step function succeeds.\<close>

definition reliable_from :: "nat \<Rightarrow> plan \<Rightarrow> bool" where
  "reliable_from m p \<longleftrightarrow> (\<forall>step\<in>set (pn_steps p). \<forall>n\<ge>m. \<forall>ctx st. ST_Fn step n ctx st = Inr (pn_out p (ST_ID step) st))"

text \<open>The version a run holds is the length of the stream, so that none of its appends is refused.\<close>

definition synced :: "SdkJob \<Rightarrow> MemoryStore world \<Rightarrow> bool" where
  "synced job w \<longleftrightarrow> SJ_Version job = int (length (sdk_stream (wd_store w) (SJ_ID job)))"

lemma effect_past: "effect f w = (r, w') \<Longrightarrow> wd_past w' = wd_past w @ [wd_store w']"
  by (auto simp: effect_def split: prod.splits)

text \<open>Among the states \<open>ss\<close> is one whose checkpoint is of step \<open>i\<close>.\<close>

definition ckpt_in :: "string \<Rightarrow> string \<Rightarrow> MemoryStore list \<Rightarrow> bool" where
  "ckpt_in j i ss \<longleftrightarrow> (\<exists>s\<in>set ss. \<exists>c. ms_checkpoints s j = Some c \<and> CP_StepID c = i)"

lemma ckpt_in_append [simp]: "ckpt_in j i (ss @ ts) \<longleftrightarrow> ckpt_in j i ss \<or> ckpt_in j i ts"
  by (auto simp: ckpt_in_def)

lemma mem_emit:
  assumes "v = int (length (sdk_stream (wd_store w) j))"
  obtains w' where "emit_event mem_durability env j t i b v w = ((v + 1, None), w')"
    and "v + 1 = int (length (sdk_stream (wd_store w') j))" and "wd_calls w' = wd_calls w"
    and "wd_past w' = wd_past w @ [wd_store w']"
  using assms by (auto simp: emit_event_def effect_def ms_defs Let_def sdk_stream_def)

lemma mem_save:
  obtains w' where "effect (SaveJob mem_durability job) w = (None, w')"
    and "sdk_stream (wd_store w') = sdk_stream (wd_store w)" and "wd_calls w' = wd_calls w"
    and "ms_jobs (wd_store w') (SJ_ID job) = Some job" and "wd_past w' = wd_past w @ [wd_store w']"
  by (auto simp: effect_def ms_defs sdk_stream_def fun_eq_iff)

lemma mem_checkpoint:
  obtains w' where "effect (SaveCheckpoint mem_durability now j i b v) w = (None, w')"
    and "sdk_stream (wd_store w') = sdk_stream (wd_store w)" and "wd_calls w' = wd_calls w"
    and "ms_checkpoints (wd_store w') j = Some \<lparr>CP_JobID = j, CP_StepID = i, CP_State = b, CP_Version = v, CP_CreatedAt = now\<rparr>"
    and "wd_past w' = wd_past w @ [wd_store w']"
  by (auto simp: effect_def ms_defs sdk_stream_def fun_eq_iff)

lemma mem_finish_step:
  assumes "synced job w"
  obtains job' w' ps where "finish_step mem_durability env step r state job w = (Inr (state, job'), w')"
    and "synced job' w'" and "SJ_ID job' = SJ_ID job" and "wd_calls w' = wd_calls w"
    and "wd_past w' = wd_past w @ ps" and "ckpt_in (SJ_ID job) (ST_ID step) ps"
proof -
  let ?j = "SJ_ID job" and ?id = "ST_ID step"
  have v: "SJ_Version job = int (length (sdk_stream (wd_store w) ?j))" using assms by (simp add: synced_def)
  obtain w1 where e1: "emit_event mem_durability env ?j EventStepFinished ?id (output_keys r) (SJ_Version job) w
      = ((SJ_Version job + 1, None), w1)" "SJ_Version job + 1 = int (length (sdk_stream (wd_store w1) ?j))"
      "wd_calls w1 = wd_calls w" "wd_past w1 = wd_past w @ [wd_store w1]"
    by (rule mem_emit [OF v])
  obtain w2 where e2: "effect (SaveCheckpoint mem_durability (clock env w1) ?j ?id (marshal_map state) (SJ_Version job + 1)) w1
      = (None, w2)" "sdk_stream (wd_store w2) = sdk_stream (wd_store w1)" "wd_calls w2 = wd_calls w1"
      "ms_checkpoints (wd_store w2) ?j = Some \<lparr>CP_JobID = ?j, CP_StepID = ?id, CP_State = marshal_map state,
         CP_Version = SJ_Version job + 1, CP_CreatedAt = clock env w1\<rparr>" "wd_past w2 = wd_past w1 @ [wd_store w2]"
    by (rule mem_checkpoint)
  have v2: "SJ_Version job + 1 = int (length (sdk_stream (wd_store w2) ?j))" using e1(2) e2(2) by simp
  obtain w3 where e3: "emit_event mem_durability env ?j EventCheckpointSaved ?id [] (SJ_Version job + 1) w2
      = ((SJ_Version job + 1 + 1, None), w3)" "SJ_Version job + 1 + 1 = int (length (sdk_stream (wd_store w3) ?j))"
      "wd_calls w3 = wd_calls w2" "wd_past w3 = wd_past w2 @ [wd_store w3]"
    by (rule mem_emit [OF v2])
  let ?job = "job\<lparr>SJ_Version := SJ_Version job + 1 + 1,
      SJ_CompletedSteps := (SJ_CompletedSteps job)(?id \<mapsto> marshal_map state), SJ_UpdatedAt := clock env w3\<rparr>"
  obtain w4 where e4: "effect (SaveJob mem_durability ?job) w3 = (None, w4)"
      "sdk_stream (wd_store w4) = sdk_stream (wd_store w3)" "wd_calls w4 = wd_calls w3" "wd_past w4 = wd_past w3 @ [wd_store w4]"
    by (rule mem_save)
  have "ckpt_in ?j ?id [wd_store w1, wd_store w2, wd_store w3, wd_store w4]"
    unfolding ckpt_in_def by (rule bexI [of _ "wd_store w2"]) (use e2(4) in simp_all)
  then show thesis
    by (intro that [of ?job w4 "[wd_store w1, wd_store w2, wd_store w3, wd_store w4]"])
      (use e1 e2 e3 e4 in \<open>auto simp: finish_step_def Let_def synced_def\<close>)
qed

lemma max_tries_Suc: "\<exists>k. nat (max_tries step) = Suc k"
  by (rule exI [of _ "nat (max_tries step) - 1"]) (simp add: max_tries_def)

lemma mem_run_step:
  assumes "synced job w" and "reliable_from m p" and "m \<le> length (wd_calls w)" and "step \<in> set (pn_steps p)"
  obtains job' w' ps where
    "run_step mem_durability env step state job w = (Inr (gmerge state (pn_out p (ST_ID step) state), job'), w')"
    and "synced job' w'" and "SJ_ID job' = SJ_ID job" and "wd_calls w' = wd_calls w @ [ST_ID step]"
    and "wd_past w' = wd_past w @ ps" and "ckpt_in (SJ_ID job) (ST_ID step) ps"
proof -
  let ?j = "SJ_ID job" and ?id = "ST_ID step" and ?r = "pn_out p (ST_ID step) state"
  have v: "SJ_Version job = int (length (sdk_stream (wd_store w) ?j))" using assms(1) by (simp add: synced_def)
  obtain w1 where e1: "emit_event mem_durability env ?j EventStepStarted ?id
        (json_marshal (JObj [(''step_name'', JStr (ST_Name step))])) (SJ_Version job) w = ((SJ_Version job + 1, None), w1)"
      "SJ_Version job + 1 = int (length (sdk_stream (wd_store w1) ?j))" "wd_calls w1 = wd_calls w"
      "wd_past w1 = wd_past w @ [wd_store w1]"
    by (rule mem_emit [OF v])
  let ?w2 = "w1\<lparr>wd_calls := wd_calls w1 @ [?id]\<rparr>"
  obtain k where k: "nat (max_tries step) = Suc k" using max_tries_Suc by blast
  have fn: "ST_Fn step (length (wd_calls w1)) ctx state = Inr ?r" for ctx
    using assms(2-4) e1(3) by (simp add: reliable_from_def)
  have e2: "step_attempts mem_durability env ?j step state (max_tries step) (nat (max_tries step)) 0 (SJ_Version job + 1) w1
      = ((StepDone ?r, SJ_Version job + 1), ?w2)"
    unfolding k by (simp add: fn Let_def)
  have "synced (job\<lparr>SJ_Version := SJ_Version job + 1\<rparr>) ?w2" using e1(2) by (simp add: synced_def)
  then obtain job' w' ps where e3: "finish_step mem_durability env step ?r (gmerge state ?r) (job\<lparr>SJ_Version := SJ_Version job + 1\<rparr>) ?w2
      = (Inr (gmerge state ?r, job'), w')" "synced job' w'" "SJ_ID job' = SJ_ID (job\<lparr>SJ_Version := SJ_Version job + 1\<rparr>)"
      "wd_calls w' = wd_calls ?w2" "wd_past w' = wd_past ?w2 @ ps"
      "ckpt_in (SJ_ID (job\<lparr>SJ_Version := SJ_Version job + 1\<rparr>)) ?id ps"
    by (rule mem_finish_step)
  show thesis by (rule that [of job' w' "wd_store w1 # ps"]) (use e1 e2 e3 in \<open>auto simp: run_step_def ckpt_in_def\<close>)
qed

lemma mem_run_steps:
  assumes "synced job w" and "reliable_from m p" and "m \<le> length (wd_calls w)" and "set steps \<subseteq> set (pn_steps p)"
  shows "\<exists>job' w' ps. run_steps mem_durability env steps state job w
      = (Inr (foldl (\<lambda>st step. gmerge st (pn_out p (ST_ID step) st)) state steps, job'), w')
    \<and> synced job' w' \<and> SJ_ID job' = SJ_ID job \<and> wd_calls w' = wd_calls w @ map ST_ID steps
    \<and> wd_past w' = wd_past w @ ps \<and> (\<forall>step\<in>set steps. ckpt_in (SJ_ID job) (ST_ID step) ps)"
  using assms
proof (induction steps arbitrary: state job w)
  case (Cons step steps)
  let ?state = "gmerge state (pn_out p (ST_ID step) state)"
  obtain job1 w1 ps where 1: "run_step mem_durability env step state job w = (Inr (?state, job1), w1)"
      "synced job1 w1" "SJ_ID job1 = SJ_ID job" "wd_calls w1 = wd_calls w @ [ST_ID step]"
      "wd_past w1 = wd_past w @ ps" "ckpt_in (SJ_ID job) (ST_ID step) ps"
    by (rule mem_run_step [of job w m p step env state]) (use Cons.prems in auto)
  have "\<exists>job' w' qs. run_steps mem_durability env steps ?state job1 w1
      = (Inr (foldl (\<lambda>st step. gmerge st (pn_out p (ST_ID step) st)) ?state steps, job'), w')
    \<and> synced job' w' \<and> SJ_ID job' = SJ_ID job1 \<and> wd_calls w' = wd_calls w1 @ map ST_ID steps
    \<and> wd_past w' = wd_past w1 @ qs \<and> (\<forall>step\<in>set steps. ckpt_in (SJ_ID job1) (ST_ID step) qs)"
    by (rule Cons.IH) (use 1 Cons.prems in auto)
  then obtain job2 w2 qs where 2: "run_steps mem_durability env steps ?state job1 w1
      = (Inr (foldl (\<lambda>st step. gmerge st (pn_out p (ST_ID step) st)) ?state steps, job2), w2)"
      "synced job2 w2" "SJ_ID job2 = SJ_ID job1" "wd_calls w2 = wd_calls w1 @ map ST_ID steps"
      "wd_past w2 = wd_past w1 @ qs" "\<forall>step\<in>set steps. ckpt_in (SJ_ID job1) (ST_ID step) qs"
    by blast
  show ?case
    by (rule exI [of _ job2], rule exI [of _ w2], rule exI [of _ "ps @ qs"]) (use 1 2 in auto)
qed simp

lemma state_after_rest:
  "foldl (\<lambda>st step. gmerge st (pn_out p (ST_ID step) st)) (state_after p i) (drop i (pn_steps p)) = final_state p"
  unfolding state_after_def by (simp add: foldl_append [symmetric] del: foldl_append)

lemma mem_run_job:
  assumes "synced job w" and "reliable_from m p" and "m \<le> length (wd_calls w)"
  shows "\<exists>w' job'. run_job mem_durability env job (pn_steps p) (state_after p i) i w = (Inr (Some (final_state p)), w')
    \<and> wd_calls w' = wd_calls w @ map ST_ID (drop i (pn_steps p))
    \<and> ms_jobs (wd_store w') (SJ_ID job) = Some job' \<and> SJ_State job' = StateCompleted
    \<and> (\<forall>step\<in>set (drop i (pn_steps p)). ckpt_in (SJ_ID job) (ST_ID step) (wd_past w'))"
proof -
  let ?job = "job\<lparr>SJ_State := StateRunning, SJ_UpdatedAt := clock env w\<rparr>"
  obtain w1 where e1: "effect (SaveJob mem_durability ?job) w = (None, w1)"
      "sdk_stream (wd_store w1) = sdk_stream (wd_store w)" "wd_calls w1 = wd_calls w"
    by (rule mem_save)
  have "synced ?job w1" using assms(1) e1(2) by (simp add: synced_def)
  then obtain job2 w2 ps where e2: "run_steps mem_durability env (drop i (pn_steps p)) (state_after p i) ?job w1
        = (Inr (final_state p, job2), w2)" "synced job2 w2" "SJ_ID job2 = SJ_ID ?job"
      "wd_calls w2 = wd_calls w1 @ map ST_ID (drop i (pn_steps p))"
      "wd_past w2 = wd_past w1 @ ps" "\<forall>step\<in>set (drop i (pn_steps p)). ckpt_in (SJ_ID job) (ST_ID step) ps"
    using mem_run_steps [of ?job w1 m p "drop i (pn_steps p)" env "state_after p i"] assms(2,3) e1(3)
    by (auto simp: state_after_rest dest: in_set_dropD)
  let ?job3 = "job2\<lparr>SJ_State := StateCompleted, SJ_Result := marshal_map (final_state p), SJ_UpdatedAt := clock env w2\<rparr>"
  obtain w3 where e3: "effect (SaveJob mem_durability ?job3) w2 = (None, w3)"
      "sdk_stream (wd_store w3) = sdk_stream (wd_store w2)" "wd_calls w3 = wd_calls w2"
      "ms_jobs (wd_store w3) (SJ_ID ?job3) = Some ?job3" "wd_past w3 = wd_past w2 @ [wd_store w3]"
    by (rule mem_save)
  obtain x w4 where e4: "emit_event mem_durability env (SJ_ID job2) EventJobCompleted [] (output_keys (final_state p))
      (SJ_Version job2) w3 = (x, w4)" by (metis surj_pair)
  have "ms_jobs (wd_store w4) = ms_jobs (wd_store w3)" "wd_calls w4 = wd_calls w3" "wd_past w4 = wd_past w3 @ [wd_store w4]"
    using e4 by (auto simp: emit_event_def effect_def ms_defs Let_def split: if_splits)
  then show ?thesis
    by (intro exI [of _ w4] exI [of _ ?job3]) (use e1 e2 e3 e4 in \<open>simp add: run_job_def complete_job_def Let_def\<close>)
qed

lemma mem_Execute:
  assumes "on_plan mem_durability p n s" and "well_planned p" and "reliable_from m p" and "m \<le> length cs"
  shows "\<exists>w' job'. Execute mem_durability env (pn_job p) (pn_steps p) (fresh_world s cs) = (Inr (Some (final_state p)), w')
    \<and> ms_jobs (wd_store w') (pn_job p) = Some job' \<and> SJ_State job' = StateCompleted
    \<and> (ms_checkpoints s (pn_job p) = None \<longrightarrow> (\<exists>job. ms_jobs s (pn_job p) = Some job \<and> SJ_State job \<noteq> StateCompleted) \<longrightarrow>
        (\<forall>step\<in>set (pn_steps p). ckpt_in (pn_job p) (ST_ID step) (wd_past w')))"
proof -
  obtain job where job: "ms_jobs s (pn_job p) = Some job" "job_ok p job"
    using assms(1) by (auto simp: on_plan_def mem_loads split: option.splits)
  show ?thesis
  proof (cases "SJ_State job = StateCompleted")
    case True
    then show ?thesis using job stable_at [OF assms(2), of "length (pn_steps p)"]
      by (simp add: Execute_def Let_def mem_loads stored_result_def job_ok_def)
  next
    case False
    let ?v = "int (length (sdk_stream s (pn_job p)))"
    have "\<exists>i. n \<le> i \<and> i \<le> length (pn_steps p)
        \<and> resume_point (ms_checkpoints s (pn_job p)) (SJ_Input job) (pn_steps p) = Some (state_after p i, i)"
      by (rule resume_on_plan [OF assms(2)])
        (use assms(1) job in \<open>auto simp: on_plan_def mem_loads job_ok_def split: option.splits\<close>)
    then obtain i where i: "resume_point (ms_checkpoints s (pn_job p)) (SJ_Input job) (pn_steps p) = Some (state_after p i, i)"
      by blast
    then have i0: "ms_checkpoints s (pn_job p) = None \<Longrightarrow> i = 0" by (simp add: resume_point_def)
    have ev: "SdkListEvents mem_durability s (pn_job p) = Inr (sdk_stream s (pn_job p), ?v)" by (simp add: ms_defs)
    have id: "SJ_ID job = pn_job p" "SJ_State job \<noteq> StateCancelled" using job by (simp_all add: job_ok_def)
    have exec: "Execute mem_durability env (pn_job p) (pn_steps p) (fresh_world s cs)
        = run_job mem_durability env (job\<lparr>SJ_Version := ?v\<rparr>) (pn_steps p) (state_after p i) i (fresh_world s cs)"
      using job False id i ev by (simp add: Execute_def Let_def mem_loads)
    show ?thesis
      unfolding exec
      using mem_run_job [of "job\<lparr>SJ_Version := ?v\<rparr>" "fresh_world s cs" m p env i] assms(3,4) id i0
      by (fastforce simp: synced_def)
  qed
qed

section \<open>Properties\<close>

text \<open>
  C23. Crash recovery gives the planned result, over the in-memory store.  The steps have distinct ids and are deterministic
  (whenever one succeeds, its result depends on its id and on the state only), and the planned states, the one before the first
  step and the one after each step, read back from their JSON text as they were.  A job was started with the first of these states as its
  input, under an id that had no checkpoint, and the store then went through any number of runs over the same
  steps, each cut off at any of its store operations (or failing by itself).  When a run then returns a result,
  it is the state that one undisturbed pass through the steps computes.
\<close>

theorem crash_resume_gives_planned_result:
  assumes "well_planned p" and "Start_sdk mem_durability env0 name (Some (pn_init p)) w0 = (Inr job, w1)"
    and "pn_job p = SJ_ID job" and "ms_checkpoints (wd_store w0) (SJ_ID job) = None"
    and "crash_reach mem_durability (SJ_ID job) (pn_steps p) (wd_store w1) s"
    and "Execute mem_durability env (SJ_ID job) (pn_steps p) (fresh_world s cs) = (Inr r, w)"
  shows "r = Some (final_state p)"
proof -
  have "on_plan mem_durability p 0 (wd_store w1)"
    by (rule sdk_mem.Start_on_plan [OF assms(2,1,3)]) (simp add: mem_loads assms(4))
  then have "on_plan mem_durability p 0 s"
    using sdk_mem.crash_reach_on_plan assms(1,3,5) by metis
  then show ?thesis using sdk_mem.Execute_on_plan [OF assms(1), of 0 "fresh_world s cs"] assms(3,6) by simp
qed

text \<open>
  C24. A checkpointed step is not executed again, over the in-memory store.  The steps have distinct ids and are deterministic
  (whenever one succeeds, its result depends on its id and on the state only), the planned states read back from
  their JSON text as they were, and the job was started with the first of them under an id that had no checkpoint.  Once the store,
  after any runs cut off anywhere, holds the checkpoint of step \<open>i\<close>, every run over the same steps started from any state reached
  later calls only steps after \<open>i\<close>, whether it completes, fails or crashes.
\<close>

theorem checkpointed_steps_not_rerun:
  assumes "well_planned p" and "Start_sdk mem_durability env0 name (Some (pn_init p)) w0 = (Inr job, w1)"
    and "pn_job p = SJ_ID job" and "ms_checkpoints (wd_store w0) (SJ_ID job) = None"
    and "crash_reach mem_durability (SJ_ID job) (pn_steps p) (wd_store w1) s"
    and "ms_checkpoints s (SJ_ID job) = Some c" and "CP_StepID c = ST_ID (pn_steps p ! i)" and "i < length (pn_steps p)"
    and "crash_reach mem_durability (SJ_ID job) (pn_steps p) s s'"
    and "Execute mem_durability env (SJ_ID job) (pn_steps p) (fresh_world s' cs) = (res, w)"
  shows "\<exists>ds. wd_calls w = cs @ ds \<and> set ds \<subseteq> ST_ID ` set (drop (Suc i) (pn_steps p))
     \<and> (\<forall>k\<le>i. ST_ID (pn_steps p ! k) \<notin> set ds)"
proof -
  have "on_plan mem_durability p 0 (wd_store w1)"
    by (rule sdk_mem.Start_on_plan [OF assms(2,1,3)]) (simp add: mem_loads assms(4))
  then have "on_plan mem_durability p 0 s"
    using sdk_mem.crash_reach_on_plan assms(1,3,5) by metis
  then have "on_plan mem_durability p (Suc i) s"
    by (rule sdk_mem.on_plan_raise [OF _ assms(1) _ assms(7,8)]) (simp add: mem_loads assms(3,6))
  then have "on_plan mem_durability p (Suc i) s'"
    using sdk_mem.crash_reach_on_plan assms(1,3,9) by metis
  then have "on_plan mem_durability p (Suc i) (wd_store (fresh_world s' cs))" by simp
  then have "adds (on_plan mem_durability p (Suc i)) (ST_ID ` set (drop (Suc i) (pn_steps p))) (fresh_world s' cs) w"
    using sdk_mem.Execute_on_plan [OF assms(1)] assms(3,10) by metis
  then obtain ds where ds: "wd_calls w = cs @ ds" "set ds \<subseteq> ST_ID ` set (drop (Suc i) (pn_steps p))"
    by (auto simp: adds_def)
  have "distinct (map ST_ID (take (Suc i) (pn_steps p)) @ map ST_ID (drop (Suc i) (pn_steps p)))"
    using assms(1) by (simp add: well_planned_def flip: map_append)
  moreover have "ST_ID (pn_steps p ! k) \<in> ST_ID ` set (take (Suc i) (pn_steps p))" if "k \<le> i" for k
    by (rule imageI, subst in_set_conv_nth, rule exI [of _ k]) (use that assms(8) in simp)
  ultimately have "ST_ID (pn_steps p ! k) \<notin> ST_ID ` set (drop (Suc i) (pn_steps p))" if "k \<le> i" for k
    using that by auto
  then show ?thesis using ds by blast
qed

text \<open>
  C25. Recovery makes progress, over the in-memory store.  The steps have distinct ids and are deterministic (whenever one
  succeeds, its result depends on its id and on the state only), the planned states read back from their JSON text as they
  were, and the job was started with the first of them under an id that had no checkpoint.  From every state that runs
  cut off anywhere leave, a run in which no call of a step function fails any more returns the planned result and leaves the
  job completed.
\<close>

theorem recovery_completes_job:
  assumes "well_planned p" and "Start_sdk mem_durability env0 name (Some (pn_init p)) w0 = (Inr job, w1)"
    and "pn_job p = SJ_ID job" and "ms_checkpoints (wd_store w0) (SJ_ID job) = None"
    and "crash_reach mem_durability (SJ_ID job) (pn_steps p) (wd_store w1) s" and "reliable_from (length cs) p"
  shows "\<exists>w job'. Execute mem_durability env (SJ_ID job) (pn_steps p) (fresh_world s cs) = (Inr (Some (final_state p)), w)
     \<and> ms_jobs (wd_store w) (SJ_ID job) = Some job' \<and> SJ_State job' = StateCompleted"
proof -
  have "on_plan mem_durability p 0 (wd_store w1)"
    by (rule sdk_mem.Start_on_plan [OF assms(2,1,3)]) (simp add: mem_loads assms(4))
  then have "on_plan mem_durability p 0 s"
    using sdk_mem.crash_reach_on_plan assms(1,3,5) by metis
  then show ?thesis using mem_Execute [OF _ assms(1,6) order_refl] assms(3) by metis
qed

lemma effect_calls [simp]: "wd_calls (snd (effect f w)) = wd_calls w"
  by (simp add: effect_def split: prod.splits)

lemma step_attempts_calls:
  "\<exists>k\<le>n. wd_calls (snd (step_attempts store env j step state mx n a v w)) = wd_calls w @ replicate k (ST_ID step)"
proof (induction n arbitrary: a v w)
  case (Suc n)
  let ?w1 = "w\<lparr>wd_calls := wd_calls w @ [ST_ID step]\<rparr>"
  let ?run = "step_attempts store env j step state mx (Suc n) a v w"
  consider (ctx) "snd ?run = w" | (last) "snd ?run = ?w1"
    | (retry) v' w2 where "snd ?run = snd (step_attempts store env j step state mx n (a + 1) v' w2)"
        "wd_calls w2 = wd_calls ?w1"
    by (fastforce simp: Let_def emit_event_def split: sum.splits prod.splits if_splits dest: arg_cong [where f = "wd_calls \<circ> snd"])
  then show ?case
  proof cases
    case ctx
    then show ?thesis by (intro exI [of _ 0]) simp
  next
    case last
    then show ?thesis by (intro exI [of _ 1]) simp
  next
    case retry
    then obtain k where "k \<le> n" "wd_calls (snd ?run) = wd_calls w2 @ replicate k (ST_ID step)"
      using Suc.IH [of "a + 1" v' w2] by metis
    then show ?thesis using retry(2) by (intro exI [of _ "Suc k"]) simp
  qed
qed simp

text \<open>
  A run of a step calls its function at most \<open>MaxRetries\<close> times, once if that is not positive, over any store and
  whatever the outcome.
\<close>

theorem step_calls_bounded:
  "\<exists>k. int k \<le> max 1 (ST_MaxRetries step)
     \<and> wd_calls (snd (run_step store env step state job w)) = wd_calls w @ replicate k (ST_ID step)"
proof -
  obtain v x w1 where e1: "emit_event store env (SJ_ID job) EventStepStarted (ST_ID step)
      (json_marshal (JObj [(''step_name'', JStr (ST_Name step))])) (SJ_Version job) w = ((v, x), w1)"
    by (metis surj_pair)
  then have c1: "wd_calls w1 = wd_calls w" by (metis effect_calls emit_event_def snd_conv)
  have zero: ?thesis if "wd_calls (snd (run_step store env step state job w)) = wd_calls w"
    by (rule exI [of _ 0]) (simp add: that)
  obtain out v' w2 where e2: "step_attempts store env (SJ_ID job) step state (max_tries step)
      (nat (max_tries step)) 0 v w1 = ((out, v'), w2)"
    by (metis surj_pair)
  obtain k where k: "k \<le> nat (max_tries step)" "wd_calls w2 = wd_calls w @ replicate k (ST_ID step)"
    using step_attempts_calls [of "nat (max_tries step)" store env "SJ_ID job" step state "max_tries step" 0 v w1] e2 c1
    by auto
  have "int k \<le> max 1 (ST_MaxRetries step)" using k(1) by (auto simp: max_tries_def split: if_splits)
  moreover have "wd_calls (snd (run_step store env step state job w)) = wd_calls w2" if "x = None"
    using e1 e2 that
    by (auto simp: run_step_def fail_step_def finish_step_def emit_event_def Let_def split: attempt_outcome.split prod.split option.split)
      (metis effect_calls snd_conv)+
  moreover have "wd_calls (snd (run_step store env step state job w)) = wd_calls w" if "x \<noteq> None"
    using e1 that c1 by (auto simp: run_step_def)
  ultimately show ?thesis using k(2) zero by (cases x) auto
qed

section \<open>A payment job\<close>

text \<open>Two steps; the second one, the charge, fails twice before it goes through.\<close>

definition pay_steps :: "Step list" where
  "pay_steps =
     [\<lparr>ST_ID = ''a'', ST_Name = ''validate'', ST_Fn = \<lambda>n ctx st. Inr [(''ok'', GBool True)],
       ST_MaxRetries = 0, ST_RetryDelay = 0\<rparr>,
      \<lparr>ST_ID = ''b'', ST_Name = ''charge'', ST_Fn = \<lambda>n ctx st. if n < 2 then Inl ''down'' else Inr [(''paid'', GStr ''42'')],
       ST_MaxRetries = 0, ST_RetryDelay = 0\<rparr>]"

definition pay_plan :: plan where
  "pay_plan = \<lparr>pn_out = \<lambda>i st. if i = ''a'' then [(''ok'', GBool True)] else [(''paid'', GStr ''42'')],
     pn_steps = pay_steps, pn_init = [(''order'', GStr ''7'')], pn_job = ''job-pay-0''\<rparr>"

definition pay_env :: run_env where
  "pay_env = \<lparr>rn_now = \<lambda>_. 62135596800 * Second, rn_cancelled = \<lambda>_. False\<rparr>"

definition pay_start :: "(start_error + SdkJob) \<times> MemoryStore world" where
  "pay_start = Start_sdk mem_durability pay_env ''pay'' (Some (pn_init pay_plan)) (fresh_world NewSdkMemoryStore [])"

definition pay_job :: SdkJob where
  "pay_job = projr (fst pay_start)"

lemma pay_well_planned: "well_planned pay_plan"
proof -
  have "follows pay_plan" by (auto simp: follows_def pay_plan_def pay_steps_def split: if_splits)
  moreover have "distinct (map ST_ID (pn_steps pay_plan))" by (simp add: pay_plan_def pay_steps_def)
  moreover have "list_all (\<lambda>n. json_stable (state_after pay_plan n)) [0..<Suc (length (pn_steps pay_plan))]" by code_simp
  ultimately show ?thesis unfolding well_planned_def by blast
qed

lemma pay_reliable: "reliable_from (length [''x'', ''x'']) pay_plan"
  by (auto simp: reliable_from_def pay_plan_def pay_steps_def)

lemma pay_result: "final_state pay_plan = [(''ok'', GBool True), (''order'', GStr ''7''), (''paid'', GStr ''42'')]"
  by code_simp

lemma pay_id: "start_id ''pay'' (62135596800 * Second) = ''job-pay-0''"
  by code_simp

lemma pay_input: "marshal_map (pn_init pay_plan) \<noteq> []"
  by code_simp

lemmas start_defs = Start_sdk_def emit_event_def effect_def ms_defs Let_def sdk_stream_def SdkEvent0_def NewSdkMemoryStore_def

lemma pay_started:
  "pay_start = (Inr pay_job, snd pay_start)" "SJ_ID pay_job = ''job-pay-0''" "SJ_State pay_job = StateCreated"
  "ms_jobs (wd_store (snd pay_start)) ''job-pay-0'' = Some pay_job" "ms_checkpoints (wd_store (snd pay_start)) = Map.empty"
  by (simp_all add: pay_job_def pay_start_def start_defs pay_env_def pay_id [simplified] pay_input del: json_marshal.simps)

lemmas pay_run = pay_started(1) [unfolded pay_start_def]

lemma pay_plan_job: "pn_job pay_plan = SJ_ID pay_job"
  by (simp add: pay_started pay_plan_def)

lemma pay_no_checkpoint: "ms_checkpoints (wd_store (fresh_world NewSdkMemoryStore [])) (SJ_ID pay_job) = None"
  by (simp add: NewSdkMemoryStore_def)

text \<open>A crash right after the first step's checkpoint was saved.\<close>

lemma pay_crash:
  obtains s c where "crash_reach mem_durability (SJ_ID pay_job) (pn_steps pay_plan) (wd_store (snd pay_start)) s"
    and "ms_checkpoints s (SJ_ID pay_job) = Some c" and "CP_StepID c = ST_ID (pn_steps pay_plan ! 0)"
proof -
  let ?s1 = "wd_store (snd pay_start)"
  have "on_plan mem_durability pay_plan 0 ?s1"
    by (rule sdk_mem.Start_on_plan [OF pay_started(1) [unfolded pay_start_def] pay_well_planned pay_plan_job, folded pay_start_def])
      (simp add: mem_loads NewSdkMemoryStore_def)
  from mem_Execute [OF this pay_well_planned pay_reliable order_refl]
  obtain w where w: "Execute mem_durability pay_env (pn_job pay_plan) (pn_steps pay_plan) (fresh_world ?s1 [''x'', ''x''])
        = (Inr (Some (final_state pay_plan)), w)"
      "\<forall>step\<in>set (pn_steps pay_plan). ckpt_in (pn_job pay_plan) (ST_ID step) (wd_past w)"
    using pay_started pay_plan_job by force
  have "pn_steps pay_plan ! 0 \<in> set (pn_steps pay_plan)" by (simp add: pay_plan_def pay_steps_def)
  then obtain s c where "s \<in> set (wd_past w)" "ms_checkpoints s (pn_job pay_plan) = Some c"
      "CP_StepID c = ST_ID (pn_steps pay_plan ! 0)"
    using w(2) unfolding ckpt_in_def by blast
  moreover have "crash_reach mem_durability (pn_job pay_plan) (pn_steps pay_plan) ?s1 s" if "s \<in> set (wd_past w)" for s
    by (rule crash_run [OF crash_start w(1)]) (simp add: that)
  ultimately show thesis using that pay_plan_job by metis
qed

theorem crash_resume_gives_planned_result_witness:
  "\<exists>s w c. ms_checkpoints s (SJ_ID pay_job) = Some c \<and> CP_StepID c = ''a''
     \<and> Execute mem_durability pay_env (SJ_ID pay_job) (pn_steps pay_plan) (fresh_world s [''x'', ''x''])
         = (Inr (Some [(''ok'', GBool True), (''order'', GStr ''7''), (''paid'', GStr ''42'')]), w)"
proof -
  obtain s c where s: "crash_reach mem_durability (SJ_ID pay_job) (pn_steps pay_plan) (wd_store (snd pay_start)) s"
      "ms_checkpoints s (SJ_ID pay_job) = Some c" "CP_StepID c = ST_ID (pn_steps pay_plan ! 0)"
    by (rule pay_crash)
  have "on_plan mem_durability pay_plan 0 s"
    using sdk_mem.crash_reach_on_plan [OF s(1) [folded pay_plan_job] pay_well_planned]
      sdk_mem.Start_on_plan [OF pay_run pay_well_planned pay_plan_job, folded pay_start_def]
    by (simp add: mem_loads NewSdkMemoryStore_def)
  then obtain r w where w: "Execute mem_durability pay_env (SJ_ID pay_job) (pn_steps pay_plan) (fresh_world s [''x'', ''x'']) = (Inr r, w)"
    using mem_Execute [OF _ pay_well_planned pay_reliable order_refl] pay_plan_job by metis
  have "r = Some (final_state pay_plan)"
    by (rule crash_resume_gives_planned_result [OF pay_well_planned pay_run pay_plan_job pay_no_checkpoint
        s(1) [unfolded pay_start_def] w])
  then show ?thesis using w s by (auto simp: pay_result) (auto simp: pay_plan_def pay_steps_def)
qed

theorem checkpointed_steps_not_rerun_witness:
  "\<exists>s c. ms_checkpoints s (SJ_ID pay_job) = Some c \<and> CP_StepID c = ''a'' \<and>
     (\<exists>ds. wd_calls (snd (Execute mem_durability pay_env (SJ_ID pay_job) (pn_steps pay_plan) (fresh_world s [])))
        = [] @ ds \<and> set ds \<subseteq> {''b''})"
proof -
  obtain s c where s: "crash_reach mem_durability (SJ_ID pay_job) (pn_steps pay_plan) (wd_store (snd pay_start)) s"
      "ms_checkpoints s (SJ_ID pay_job) = Some c" "CP_StepID c = ST_ID (pn_steps pay_plan ! 0)"
    by (rule pay_crash)
  have "0 < length (pn_steps pay_plan)" by (simp add: pay_plan_def pay_steps_def)
  from checkpointed_steps_not_rerun [OF pay_well_planned pay_run pay_plan_job pay_no_checkpoint
      s(1) [unfolded pay_start_def] s(2,3) this crash_start surjective_pairing]
  have "\<exists>ds. wd_calls (snd (Execute mem_durability pay_env (SJ_ID pay_job) (pn_steps pay_plan) (fresh_world s [])))
        = [] @ ds \<and> set ds \<subseteq> {''b''}"
    by (fastforce simp: pay_plan_def pay_steps_def)
  then show ?thesis using s by (auto simp: pay_plan_def pay_steps_def)
qed

theorem recovery_completes_job_witness:
  "\<exists>w job. Execute mem_durability pay_env (SJ_ID pay_job) (pn_steps pay_plan) (fresh_world (wd_store (snd pay_start)) [''x'', ''x''])
       = (Inr (Some (final_state pay_plan)), w)
     \<and> ms_jobs (wd_store w) (SJ_ID pay_job) = Some job \<and> SJ_State job = StateCompleted"
  unfolding pay_start_def
  by (rule recovery_completes_job [OF pay_well_planned pay_run pay_plan_job pay_no_checkpoint crash_start pay_reliable])

text \<open>
  A step whose result cannot be encoded as JSON succeeds all the same, and its checkpoint holds no state: a run that
  takes up there skips the step and starts from the job's input, without the results of this and the earlier steps.
\<close>

theorem unserialisable_state_is_lost:
  assumes "finish_step mem_durability env step r state job w = (Inr res, w')" and "marshal_map state = []"
    and "index_after (ST_ID step) steps = Some i"
  shows "fst res = state \<and> resume_point (ms_checkpoints (wd_store w') (SJ_ID job)) input steps = Some (initial_state input, i)"
  using assms
  by (auto simp: finish_step_def emit_event_def effect_def ms_defs Let_def resume_point_def split: if_splits)

theorem unserialisable_state_is_lost_witness:
  "resume_point (ms_checkpoints (wd_store (snd (finish_step mem_durability pay_env (pay_steps ! 0) [(''conn'', GOpaque)]
       [(''conn'', GOpaque), (''order'', GStr ''7'')] (pay_job\<lparr>SJ_Version := 0\<rparr>) (fresh_world NewSdkMemoryStore [])))) (SJ_ID pay_job))
     (marshal_map (pn_init pay_plan)) pay_steps = Some (pn_init pay_plan, 1)"
proof -
  let ?st = "[(''conn'', GOpaque), (''order'', GStr ''7'')]"
  let ?run = "finish_step mem_durability pay_env (pay_steps ! 0) [(''conn'', GOpaque)] ?st (pay_job\<lparr>SJ_Version := 0\<rparr>)
      (fresh_world NewSdkMemoryStore [])"
  have run: "?run = (Inr (projr (fst ?run)), snd ?run)"
    by (simp add: finish_step_def emit_event_def effect_def ms_defs Let_def del: json_marshal.simps)
  have "marshal_map ?st = []" by code_simp
  moreover have "index_after (ST_ID (pay_steps ! 0)) pay_steps = Some 1" by (simp add: pay_steps_def)
  moreover have "initial_state (marshal_map (pn_init pay_plan)) = pn_init pay_plan" by code_simp
  ultimately show ?thesis
    using unserialisable_state_is_lost [OF run, of pay_steps 1
        "marshal_map (pn_init pay_plan)"]
    by simp
qed

end
