(* ===== verification/Idempotent_Tool.thy ===== *)
theory Idempotent_Tool
  imports Durability_Runner
begin

text \<open>
  At-most-once execution of side effects in the durability SDK, \<open>sdk/durability/idempotent/tool.go\<close>: a wrapped
  function keeps a ledger job per idempotency key in the same kind of \<open>Store\<close> as the runner.  As for the
  runner, a call records every state of the store it goes through, so that a crash is one of these states.
  The mutex of \<open>Tool\<close> is never taken by the code.
\<close>

section \<open>Wrap\<close>

text \<open>A function under the wrapper; its first argument counts the executions so far.  The nil map is \<open>None\<close>.\<close>

type_synonym tool_fn = "nat \<Rightarrow> gomap option \<Rightarrow> string + gomap option"

datatype idem_error = ELoadLedger string | ESaveAcquired string | EAppendAcquired append_error | EExec string | ESaveCommitted string

definition ledger_id :: "string \<Rightarrow> string \<Rightarrow> string" where
  "ledger_id toolName key = ''ledger:'' @ toolName @ '':'' @ key"

definition marshal_opt :: "gomap option \<Rightarrow> bytes" where
  "marshal_opt m = (case m of None \<Rightarrow> ''null'' | Some x \<Rightarrow> marshal_map x)"

definition ledger_payload :: "string \<Rightarrow> string \<Rightarrow> bytes" where
  "ledger_payload toolName key = json_marshal (JObj [(''idempotency_key'', JStr key), (''tool_name'', JStr toolName)])"

text \<open>The job to acquire with; that of an interrupted run is first reset, whatever the store answers.\<close>

definition acquire_job :: "'s Store \<Rightarrow> string \<Rightarrow> string \<Rightarrow> SdkJob option \<Rightarrow> 's world \<Rightarrow> SdkJob \<times> 's world" where
  "acquire_job store toolName ledgerJobID jo w = (case jo of
       None \<Rightarrow> (\<lparr>SJ_ID = ledgerJobID, SJ_Name = ''idempotent:'' @ toolName, SJ_State = StateRunning, SJ_Version = 0,
          SJ_Input = [], SJ_Result = [], SJ_Error = [], SJ_CreatedAt = zero_time, SJ_UpdatedAt = zero_time,
          SJ_CompletedSteps = Map.empty\<rparr>, w)
     | Some job \<Rightarrow>
         if SJ_State job = StateRunning
         then (let job1 = job\<lparr>SJ_State := StateCreated, SJ_Error := []\<rparr>
               in (job1\<lparr>SJ_State := StateRunning\<rparr>, snd (effect (SaveJob store job1) w)))
         else (job\<lparr>SJ_State := StateRunning\<rparr>, w))"

definition wrap_commit ::
  "'s Store \<Rightarrow> run_env \<Rightarrow> string \<Rightarrow> string \<Rightarrow> gomap option \<Rightarrow> SdkJob \<Rightarrow> 's world \<Rightarrow> (idem_error + gomap option) \<times> 's world" where
  "wrap_commit store env toolName key result job w =
     (case effect (SaveJob store (job\<lparr>SJ_State := StateCompleted, SJ_Result := marshal_opt result,
             SJ_UpdatedAt := SJ_CreatedAt job\<rparr>)) w of
        (Some e, w1) \<Rightarrow> (Inl (ESaveCommitted e), w1)
      | (None, w1) \<Rightarrow>
          (Inr result, snd (emit_event store env (ledger_id toolName key) (EventOther ''ledger_committed'') []
             (ledger_payload toolName key) (SJ_Version job) w1)))"

definition wrap_execute ::
  "'s Store \<Rightarrow> run_env \<Rightarrow> string \<Rightarrow> tool_fn \<Rightarrow> string \<Rightarrow> gomap option \<Rightarrow> SdkJob \<Rightarrow> 's world \<Rightarrow> (idem_error + gomap option) \<times> 's world" where
  "wrap_execute store env toolName fn key input job w =
     (let w1 = w\<lparr>wd_calls := wd_calls w @ [ledger_id toolName key]\<rparr>
      in case fn (length (wd_calls w)) input of
           Inl e \<Rightarrow> (Inl (EExec e), snd (effect (SaveJob store (job\<lparr>SJ_State := StateFailed, SJ_Error := e\<rparr>)) w1))
         | Inr result \<Rightarrow> wrap_commit store env toolName key result job w1)"

definition wrap_acquire ::
  "'s Store \<Rightarrow> run_env \<Rightarrow> string \<Rightarrow> tool_fn \<Rightarrow> string \<Rightarrow> gomap option \<Rightarrow> SdkJob \<Rightarrow> 's world \<Rightarrow> (idem_error + gomap option) \<times> 's world" where
  "wrap_acquire store env toolName fn key input job0 w =
     (let job = job0\<lparr>SJ_Input := marshal_opt input\<rparr>
      in case effect (SaveJob store job) w of
           (Some e, w1) \<Rightarrow> (Inl (ESaveAcquired e), w1)
         | (None, w1) \<Rightarrow>
             (case emit_event store env (ledger_id toolName key) (EventOther ''ledger_acquired'') []
                     (ledger_payload toolName key) (SJ_Version job) w1 of
                ((_, Some e), w2) \<Rightarrow> (Inl (EAppendAcquired e), w2)
              | ((_, None), w2) \<Rightarrow>
                  wrap_execute store env toolName fn key input (job\<lparr>SJ_Version := SJ_Version job + 1\<rparr>) w2))"

definition Wrap ::
  "'s Store \<Rightarrow> run_env \<Rightarrow> string \<Rightarrow> tool_fn \<Rightarrow> string \<Rightarrow> gomap option \<Rightarrow> 's world \<Rightarrow> (idem_error + gomap option) \<times> 's world" where
  "Wrap store env toolName fn key input w =
     (let ledgerJobID = ledger_id toolName key
      in case LoadJob store (wd_store w) ledgerJobID of
           Inl e \<Rightarrow> (Inl (ELoadLedger e), w)
         | Inr jo \<Rightarrow>
             (case jo of
                Some job \<Rightarrow> if SJ_State job = StateCompleted then (Inr (stored_result (SJ_Result job)), w)
                  else (case acquire_job store toolName ledgerJobID jo w of
                      (job', w1) \<Rightarrow> wrap_acquire store env toolName fn key input job' w1)
              | None \<Rightarrow> (case acquire_job store toolName ledgerJobID jo w of
                      (job', w1) \<Rightarrow> wrap_acquire store env toolName fn key input job' w1)))"

definition WrapSimple ::
  "'s Store \<Rightarrow> run_env \<Rightarrow> string \<Rightarrow> (nat \<Rightarrow> gomap option \<Rightarrow> string + goval) \<Rightarrow> string \<Rightarrow> gomap option \<Rightarrow> 's world
     \<Rightarrow> (idem_error + gomap option) \<times> 's world" where
  "WrapSimple store env toolName fn key input w =
     Wrap store env toolName (\<lambda>n i. case fn n i of Inl e \<Rightarrow> Inl e | Inr v \<Rightarrow> Inr (Some [(''result'', v)])) key input w"

section \<open>The contract\<close>

text \<open>A ledger needs more of its store than a runner: a save touches no other job.\<close>

locale ledger_store = durability_store +
  assumes save_other: "SJ_ID job \<noteq> j \<Longrightarrow> LoadJob store (snd (SaveJob store job s)) j = LoadJob store s j"

interpretation mem_ledger: ledger_store mem_durability
  by unfold_locales (auto simp: ms_defs)

text \<open>Jobs are stored under their own id.\<close>

definition own_ids :: "'s Store \<Rightarrow> 's \<Rightarrow> bool" where
  "own_ids store s \<longleftrightarrow> (\<forall>j job. LoadJob store s j = Inr (Some job) \<longrightarrow> SJ_ID job = j)"

definition committed_as :: "'s Store \<Rightarrow> string \<Rightarrow> bytes \<Rightarrow> 's \<Rightarrow> bool" where
  "committed_as store j b s \<longleftrightarrow> (\<exists>job. LoadJob store s j = Inr (Some job) \<and> SJ_State job = StateCompleted \<and> SJ_Result job = b)"

text \<open>The states that calls of wrapped tools lead to, completed or cut off.\<close>

inductive wrap_reach :: "'s Store \<Rightarrow> 's \<Rightarrow> 's \<Rightarrow> bool" for store :: "'s Store" and s0 :: 's where
  wrap_start: "wrap_reach store s0 s0"
| wrap_call: "wrap_reach store s0 s1 \<Longrightarrow> Wrap store env toolName fn key input (fresh_world s1 cs) = (res, w') \<Longrightarrow>
    s2 \<in> set (s1 # wd_past w') \<Longrightarrow> wrap_reach store s0 s2"

text \<open>A call keeps what saves and appends under its ledger id keep.\<close>

lemma emit_adds:
  assumes "emit_event store env k t i b v w = (r, w')" and "P (wd_store w)"
    and "\<And>now v e s. P s \<Longrightarrow> P (snd (AppendEvent store now k v e s))"
  shows "adds P A w w'"
  using assms unfolding emit_event_def by (auto elim!: adds_effect)

lemma wrap_execute_adds:
  assumes "P (wd_store w)" and "SJ_ID job = ledger_id tn key" and "wrap_execute store env tn fn key input job w = (res, w')"
    and save: "\<And>job s. P s \<Longrightarrow> SJ_ID job = ledger_id tn key \<Longrightarrow> P (snd (SaveJob store job s))"
    and app: "\<And>now v e s. P s \<Longrightarrow> P (snd (AppendEvent store now (ledger_id tn key) v e s))"
  shows "adds P UNIV w w'"
proof -
  let ?k = "ledger_id tn key" and ?w1 = "w\<lparr>wd_calls := wd_calls w @ [ledger_id tn key]\<rparr>"
  have call: "adds P UNIV w ?w1" by (rule adds_call) (use assms(1) in auto)
  show ?thesis
  proof (cases "fn (length (wd_calls w)) input")
    case (Inl e)
    let ?save = "SaveJob store (job\<lparr>SJ_State := StateFailed, SJ_Error := e\<rparr>)"
    have "adds P UNIV ?w1 (snd (effect ?save ?w1))"
      by (rule adds_effect [OF surjective_pairing]) (use assms(1,2) save in simp)
    then show ?thesis using assms(3) Inl call by (auto simp: wrap_execute_def Let_def intro: adds_trans)
  next
    case (Inr r)
    let ?save = "SaveJob store (job\<lparr>SJ_State := StateCompleted, SJ_Result := marshal_opt r, SJ_UpdatedAt := SJ_CreatedAt job\<rparr>)"
    obtain x w2 where e1: "effect ?save ?w1 = (x, w2)" by (metis surj_pair)
    have a1: "adds P UNIV ?w1 w2" by (rule adds_effect [OF e1]) (use assms(1,2) save in simp)
    obtain y w3 where e2: "emit_event store env ?k (EventOther ''ledger_committed'') [] (ledger_payload tn key)
        (SJ_Version job) w2 = (y, w3)" by (metis surj_pair)
    have a2: "adds P UNIV w2 w3" by (rule emit_adds [OF e2 adds_store [OF a1] app])
    have "w' = w2 \<or> w' = w3" using assms(3) Inr e1 e2
      by (cases x) (auto simp: wrap_execute_def wrap_commit_def Let_def)
    then show ?thesis using call a1 a2 by (blast intro: adds_trans)
  qed
qed

lemma Wrap_adds:
  assumes "P (wd_store w)" and "Wrap store env tn fn key input w = (res, w')"
    and own: "\<And>s job. P s \<Longrightarrow> LoadJob store s (ledger_id tn key) = Inr (Some job) \<Longrightarrow> SJ_ID job = ledger_id tn key"
    and save: "\<And>job s. P s \<Longrightarrow> SJ_ID job = ledger_id tn key \<Longrightarrow> P (snd (SaveJob store job s))"
    and app: "\<And>now v e s. P s \<Longrightarrow> P (snd (AppendEvent store now (ledger_id tn key) v e s))"
  shows "adds P UNIV w w'"
proof (cases "\<exists>jo. LoadJob store (wd_store w) (ledger_id tn key) = Inr jo \<and> (\<forall>job. jo = Some job \<longrightarrow> SJ_State job \<noteq> StateCompleted)")
  case False
  then have "w' = w" using assms(2) by (auto simp: Wrap_def Let_def split: sum.splits option.splits if_splits)
  then show ?thesis using assms(1) by (simp add: adds_refl)
next
  case True
  let ?k = "ledger_id tn key"
  obtain jo where jo: "LoadJob store (wd_store w) ?k = Inr jo" "\<forall>job. jo = Some job \<longrightarrow> SJ_State job \<noteq> StateCompleted"
    using True by blast
  obtain job0 w1 where e0: "acquire_job store tn ?k jo w = (job0, w1)" by (metis surj_pair)
  have id: "SJ_ID job0 = ?k"
    using e0 own [OF assms(1)] jo(1) by (auto simp: acquire_job_def Let_def split: option.splits if_splits)
  have a0: "adds P UNIV w w1"
  proof -
    have "adds P UNIV w (snd (effect (SaveJob store job1) w))" if "SJ_ID job1 = ?k" for job1
      by (rule adds_effect [OF surjective_pairing]) (rule save [OF assms(1) that])
    then show ?thesis using e0 own [OF assms(1)] jo(1) assms(1)
      by (auto simp: acquire_job_def Let_def adds_refl split: option.splits if_splits)
  qed
  let ?job = "job0\<lparr>SJ_Input := marshal_opt input\<rparr>"
  obtain x w2 where e1: "effect (SaveJob store ?job) w1 = (x, w2)" by (metis surj_pair)
  have a1: "adds P UNIV w1 w2" by (rule adds_effect [OF e1]) (use save adds_store [OF a0] id in simp)
  obtain v y w3 where e2: "emit_event store env ?k (EventOther ''ledger_acquired'') [] (ledger_payload tn key)
      (SJ_Version ?job) w2 = ((v, y), w3)" by (metis surj_pair)
  have a2: "adds P UNIV w2 w3" by (rule emit_adds [OF e2 adds_store [OF a1] app])
  obtain out w4 where e3: "wrap_execute store env tn fn key input (?job\<lparr>SJ_Version := SJ_Version ?job + 1\<rparr>) w3 = (out, w4)"
    by (metis surj_pair)
  have a3: "adds P UNIV w3 w4"
    by (rule wrap_execute_adds [OF adds_store [OF a2] _ e3 save app]) (use id in simp_all)
  have "Wrap store env tn fn key input w = wrap_acquire store env tn fn key input job0 w1"
    using jo e0 by (auto simp: Wrap_def Let_def split: option.splits)
  then have "w' = w2 \<or> w' = w3 \<or> w' = w4"
    using assms(2) e1 e2 e3 by (cases x; cases y) (auto simp: wrap_acquire_def Let_def)
  then show ?thesis using a0 a1 a2 a3 by (blast intro: adds_trans)
qed

section \<open>Commits last\<close>

lemma Wrap_completed:
  "committed_as store (ledger_id tn key) b (wd_store w) \<Longrightarrow> Wrap store env tn fn key input w = (Inr (stored_result b), w)"
  by (auto simp: Wrap_def committed_as_def Let_def)

context ledger_store
begin

lemma own_save: "own_ids store s \<Longrightarrow> own_ids store (snd (SaveJob store job s))"
proof (cases "SaveJob store job s")
  case (Pair e s')
  assume own: "own_ids store s"
  show ?thesis
  proof (cases e)
    case None
    have "LoadJob store s' (SJ_ID job) = Inr (Some job)" by (rule save_load [OF Pair [unfolded None]])
    moreover have "LoadJob store s' j = LoadJob store s j" if "j \<noteq> SJ_ID job" for j
      using save_other [of job j s] that Pair by simp
    ultimately show ?thesis using own Pair unfolding own_ids_def by (metis Inr_inject option.inject snd_conv)
  next
    case (Some x)
    then show ?thesis using save_fail [OF Pair [unfolded Some]] own Pair by (simp add: own_ids_def)
  qed
qed

lemma own_append: "own_ids store s \<Longrightarrow> own_ids store (snd (AppendEvent store now j v e s))"
  by (simp add: own_ids_def append_keeps)

lemma committed_save:
  "committed_as store j b s \<Longrightarrow> SJ_ID job \<noteq> j \<Longrightarrow> committed_as store j b (snd (SaveJob store job s))"
  by (simp add: committed_as_def save_other)

lemma committed_append: "committed_as store j b s \<Longrightarrow> committed_as store j b (snd (AppendEvent store now k v e s))"
  by (simp add: committed_as_def append_keeps)

lemma Wrap_own:
  "own_ids store (wd_store w) \<Longrightarrow> Wrap store env tn fn key input w = (res, w') \<Longrightarrow> adds (own_ids store) UNIV w w'"
  by (rule Wrap_adds) (auto simp: own_save own_append, auto simp: own_ids_def)

lemma wrap_reach_own: "wrap_reach store s0 s \<Longrightarrow> own_ids store s0 \<Longrightarrow> own_ids store s"
proof (induction rule: wrap_reach.induct)
  case (wrap_call s1 env tn fn key input cs res w' s2)
  have "own_ids store (wd_store (fresh_world s1 cs))" using wrap_call.IH wrap_call.prems by simp
  from Wrap_own [OF this wrap_call.hyps(2)] show ?case
    using wrap_call.hyps(3) wrap_call.IH wrap_call.prems by (auto simp: adds_def)
qed

lemma wrap_reach_committed:
  "wrap_reach store s0 s \<Longrightarrow> own_ids store s0 \<Longrightarrow> committed_as store j b s0 \<Longrightarrow> committed_as store j b s"
proof (induction rule: wrap_reach.induct)
  case (wrap_call s1 env tn fn key input cs res w' s2)
  let ?w = "fresh_world s1 cs"
  have own: "own_ids store s1" using wrap_reach_own wrap_call.hyps(1) wrap_call.prems(1) by blast
  have c: "committed_as store j b s1" using wrap_call.IH wrap_call.prems by blast
  show ?case
  proof (cases "ledger_id tn key = j")
    case True
    then have "w' = ?w" using Wrap_completed [of store tn key b ?w env fn input] c wrap_call.hyps(2) by simp
    then show ?thesis using wrap_call.hyps(3) c by simp
  next
    case False
    have "adds (\<lambda>s. own_ids store s \<and> committed_as store j b s) UNIV ?w w'"
      by (rule Wrap_adds [OF _ wrap_call.hyps(2)])
        (use own c False in \<open>auto simp: own_save own_append committed_append intro: committed_save, auto simp: own_ids_def\<close>)
    then show ?thesis using wrap_call.hyps(3) c by (auto simp: adds_def)
  qed
qed simp

lemma wrap_execute_commits:
  assumes "wrap_execute store env tn fn key input job w = (Inr r, w')" and "SJ_ID job = ledger_id tn key"
  shows "committed_as store (ledger_id tn key) (marshal_opt r) (wd_store w')"
proof -
  let ?w1 = "w\<lparr>wd_calls := wd_calls w @ [ledger_id tn key]\<rparr>"
  let ?job = "job\<lparr>SJ_State := StateCompleted, SJ_Result := marshal_opt r, SJ_UpdatedAt := SJ_CreatedAt job\<rparr>"
  obtain x w2 where e1: "effect (SaveJob store ?job) ?w1 = (x, w2)" by (metis surj_pair)
  obtain y w3 where e2: "emit_event store env (ledger_id tn key) (EventOther ''ledger_committed'') [] (ledger_payload tn key)
        (SJ_Version job) w2 = (y, w3)" by (metis surj_pair)
  have fn: "fn (length (wd_calls w)) input = Inr r"
    using assms(1) by (auto simp: wrap_execute_def wrap_commit_def Let_def split: sum.splits prod.splits option.splits)
  have "x = None" "w' = w3"
    using assms(1) e1 e2 fn by (cases x; auto simp: wrap_execute_def wrap_commit_def Let_def)+
  moreover have "SaveJob store ?job (wd_store w) = (x, wd_store w2)" using e1 by (auto simp: effect_def split: prod.splits)
  ultimately have "LoadJob store (wd_store w2) (ledger_id tn key) = Inr (Some ?job)"
    using save_load [of ?job "wd_store w"] assms(2) by simp
  then have "committed_as store (ledger_id tn key) (marshal_opt r) (wd_store w2)" by (simp add: committed_as_def)
  then have "committed_as store (ledger_id tn key) (marshal_opt r) (wd_store w3)"
    using e2 committed_append by (auto simp: emit_event_def effect_def split: prod.splits) (metis snd_conv)
  then show ?thesis using \<open>w' = w3\<close> by simp
qed

lemma Wrap_commits:
  assumes "own_ids store (wd_store w)" and "Wrap store env tn fn key input w = (Inr r, w')"
  shows "own_ids store (wd_store w') \<and> (\<exists>b. committed_as store (ledger_id tn key) b (wd_store w') \<and> (stored_result b = r \<or> b = marshal_opt r))"
proof -
  let ?k = "ledger_id tn key"
  have own: "own_ids store (wd_store w')" using Wrap_own [OF assms] by (rule adds_store)
  show ?thesis
  proof (cases "\<exists>b. committed_as store ?k b (wd_store w)")
    case True
    then obtain b where b: "committed_as store ?k b (wd_store w)" by blast
    then have "w' = w" "stored_result b = r" using Wrap_completed [OF b] assms(2) by auto
    then show ?thesis using own b by auto
  next
    case False
    obtain jo where jo: "LoadJob store (wd_store w) ?k = Inr jo"
      using assms(2) by (cases "LoadJob store (wd_store w) ?k") (auto simp: Wrap_def Let_def)
    obtain job0 w1 where e0: "acquire_job store tn ?k jo w = (job0, w1)" by (metis surj_pair)
    have id: "SJ_ID job0 = ?k"
      using e0 jo assms(1) by (auto simp: acquire_job_def own_ids_def Let_def split: option.splits if_splits)
    have "wrap_acquire store env tn fn key input job0 w1 = (Inr r, w')"
      using assms(2) jo e0 False by (auto simp: Wrap_def Let_def committed_as_def split: option.splits if_splits)
    then obtain w3 where "wrap_execute store env tn fn key input (job0\<lparr>SJ_Input := marshal_opt input, SJ_Version := SJ_Version job0 + 1\<rparr>) w3 = (Inr r, w')"
      by (auto simp: wrap_acquire_def Let_def split: prod.splits option.splits)
    then have "committed_as store ?k (marshal_opt r) (wd_store w')"
      by (rule wrap_execute_commits) (simp add: id)
    then show ?thesis using own by blast
  qed
qed

end

lemma mem_new_own: "own_ids mem_durability NewSdkMemoryStore"
  by (simp add: own_ids_def mem_loads NewSdkMemoryStore_def)

section \<open>Interrupted calls\<close>

text \<open>The ledger job is open but its version is not that of its stream, so that no append will be accepted.\<close>

definition stuck :: "string \<Rightarrow> MemoryStore \<Rightarrow> bool" where
  "stuck j s \<longleftrightarrow> (\<exists>job. ms_jobs s j = Some job \<and> SJ_ID job = j \<and> SJ_State job \<noteq> StateCompleted
     \<and> SJ_Version job \<noteq> int (length (sdk_stream s j)))"

lemma stuck_Wrap:
  assumes "stuck (ledger_id tn key) (wd_store w)" and "Wrap mem_durability env tn fn key input w = (res, w')"
  shows "res = Inl (EAppendAcquired ErrVersionMismatch_sdk) \<and> wd_calls w' = wd_calls w
     \<and> (\<exists>ps. wd_past w' = wd_past w @ ps \<and> (\<forall>s\<in>set ps. stuck (ledger_id tn key) s))"
proof -
  let ?k = "ledger_id tn key"
  obtain job where job: "ms_jobs (wd_store w) ?k = Some job" "SJ_ID job = ?k" "SJ_State job \<noteq> StateCompleted"
      "SJ_Version job \<noteq> int (length (sdk_stream (wd_store w) ?k))"
    using assms(1) by (auto simp: stuck_def)
  have save: "stuck ?k (s\<lparr>ms_jobs := (ms_jobs s)(?k \<mapsto> x)\<rparr>)"
    if "SJ_ID x = ?k" "SJ_State x \<noteq> StateCompleted" "SJ_Version x \<noteq> int (length (sdk_stream s ?k))" for x s
    using that by (simp add: stuck_def sdk_stream_def)
  show ?thesis
    using job assms(2) save
    by (cases "SJ_State job = StateRunning")
      (auto simp: Wrap_def wrap_acquire_def acquire_job_def emit_event_def effect_def ms_defs Let_def sdk_stream_def
        split: if_splits)
qed

lemma stuck_reach:
  "wrap_reach mem_durability s0 s \<Longrightarrow> own_ids mem_durability s0 \<Longrightarrow> stuck j s0 \<Longrightarrow> stuck j s"
proof (induction rule: wrap_reach.induct)
  case (wrap_call s1 env tn fn key input cs res w' s2)
  let ?w = "fresh_world s1 cs"
  have own: "own_ids mem_durability s1" using mem_ledger.wrap_reach_own wrap_call.hyps(1) wrap_call.prems(1) by blast
  have st: "stuck j s1" using wrap_call.IH wrap_call.prems by blast
  show ?case
  proof (cases "ledger_id tn key = j")
    case True
    then show ?thesis using stuck_Wrap [OF _ wrap_call.hyps(2)] st wrap_call.hyps(3) by auto
  next
    case False
    have save: "stuck j (snd (SaveJob mem_durability job s))" if "stuck j s" "SJ_ID job = ledger_id tn key" for job s
      using that False by (auto simp: stuck_def ms_defs sdk_stream_def)
    have app: "stuck j (snd (AppendEvent mem_durability now (ledger_id tn key) v e s))" if "stuck j s" for now v e s
      using that False by (auto simp: stuck_def ms_defs sdk_stream_def Let_def)
    have "adds (\<lambda>s. own_ids mem_durability s \<and> stuck j s) UNIV ?w w'"
      by (rule Wrap_adds [OF _ wrap_call.hyps(2)])
        (use own st save app in \<open>auto simp: mem_ledger.own_save mem_ledger.own_append\<close>, auto simp: own_ids_def)
    then show ?thesis using wrap_call.hyps(3) st by (auto simp: adds_def)
  qed
qed simp

lemma acquired_is_stuck:
  assumes "ms_jobs s0 (ledger_id tn key) = None" and "sdk_stream s0 (ledger_id tn key) = []"
  shows "stuck (ledger_id tn key) (wd_past (snd (Wrap mem_durability env tn fn key input (fresh_world s0 cs))) ! 1)"
    and "1 < length (wd_past (snd (Wrap mem_durability env tn fn key input (fresh_world s0 cs))))"
  using assms
  by (auto simp: Wrap_def wrap_acquire_def acquire_job_def wrap_execute_def wrap_commit_def emit_event_def effect_def ms_defs
      Let_def sdk_stream_def stuck_def split: sum.splits option.splits)

section \<open>Properties\<close>

text \<open>
  C26. A wrapped call that returned is never executed again: from then on, after any calls of wrapped tools with any keys,
  completed or cut off by a crash, the key answers with the same result and touches neither the store nor the function.
  The result must survive its encoding as JSON, and the store have been used through the wrapper only.
\<close>

theorem wrapped_call_executes_once:
  assumes "wrap_reach mem_durability NewSdkMemoryStore s0"
    and "Wrap mem_durability env tn fn key input (fresh_world s0 cs) = (Inr r, w)" and "stored_result (marshal_opt r) = r"
    and "wrap_reach mem_durability (wd_store w) s"
  shows "Wrap mem_durability env' tn fn' key input' (fresh_world s ds) = (Inr r, fresh_world s ds)"
proof -
  have own: "own_ids mem_durability (wd_store (fresh_world s0 cs))"
    using mem_ledger.wrap_reach_own [OF assms(1) mem_new_own] by simp
  from mem_ledger.Wrap_commits [OF own assms(2)]
  obtain b where b: "own_ids mem_durability (wd_store w)" "committed_as mem_durability (ledger_id tn key) b (wd_store w)"
      "stored_result b = r" using assms(3) by auto
  then have "committed_as mem_durability (ledger_id tn key) b (wd_store (fresh_world s ds))"
    using mem_ledger.wrap_reach_committed assms(4) by simp
  then show ?thesis using Wrap_completed b(3) by metis
qed

text \<open>
  Ledger ids do not separate tool names from keys: a tool name with a colon shares its ledger with another tool, and gets
  that tool's result without being executed.
\<close>

theorem colliding_keys_share_result:
  assumes "wrap_reach mem_durability NewSdkMemoryStore s0"
    and "Wrap mem_durability env t1 fn (t2 @ '':'' @ key) input (fresh_world s0 cs) = (Inr r, w)"
    and "stored_result (marshal_opt r) = r" and "wrap_reach mem_durability (wd_store w) s"
  shows "Wrap mem_durability env' (t1 @ '':'' @ t2) fn' key input' (fresh_world s ds) = (Inr r, fresh_world s ds)"
proof -
  have own: "own_ids mem_durability (wd_store (fresh_world s0 cs))"
    using mem_ledger.wrap_reach_own [OF assms(1) mem_new_own] by simp
  from mem_ledger.Wrap_commits [OF own assms(2)]
  obtain b where b: "own_ids mem_durability (wd_store w)" "committed_as mem_durability (ledger_id t1 (t2 @ '':'' @ key)) b (wd_store w)"
      "stored_result b = r" using assms(3) by auto
  then have "committed_as mem_durability (ledger_id (t1 @ '':'' @ t2) key) b (wd_store (fresh_world s ds))"
    using mem_ledger.wrap_reach_committed assms(4) by (simp add: ledger_id_def)
  then show ?thesis using Wrap_completed b(3) by metis
qed

text \<open>
  The second state of the store in the first call of a key is the one between \<open>acquired\<close> and \<open>committed\<close>: the
  function has not finished.  After a crash there, and any further calls and crashes, each call of the key fails with a
  version mismatch and never executes the function, because the crash left version 0 in the job and one event in its
  stream.
\<close>

theorem crash_after_acquire_blocks_key:
  assumes "wrap_reach mem_durability NewSdkMemoryStore s0"
    and "ms_jobs s0 (ledger_id tn key) = None" and "sdk_stream s0 (ledger_id tn key) = []"
    and "s1 = wd_past (snd (Wrap mem_durability env tn fn key input (fresh_world s0 cs))) ! 1"
    and "wrap_reach mem_durability s1 s"
  shows "fst (Wrap mem_durability env' tn fn' key input' (fresh_world s ds)) = Inl (EAppendAcquired ErrVersionMismatch_sdk)
     \<and> wd_calls (snd (Wrap mem_durability env' tn fn' key input' (fresh_world s ds))) = ds"
proof -
  have "wrap_reach mem_durability NewSdkMemoryStore s1"
    by (rule wrap_call [OF assms(1) surjective_pairing [of "Wrap mem_durability env tn fn key input (fresh_world s0 cs)"]])
      (use acquired_is_stuck(2) [OF assms(2,3)] nth_mem assms(4) in auto)
  then have own: "own_ids mem_durability s1" using mem_ledger.wrap_reach_own mem_new_own by blast
  have "stuck (ledger_id tn key) s1" using acquired_is_stuck(1) [OF assms(2,3)] assms(4) by blast
  then have "stuck (ledger_id tn key) s" using stuck_reach assms(5) own by blast
  then have "stuck (ledger_id tn key) (wd_store (fresh_world s ds))" by simp
  from stuck_Wrap [OF this surjective_pairing] show ?thesis by (auto simp: prod_eq_iff)
qed

text \<open>
  A call whose function reported an error leaves the key free: the next call executes the function, and returns and
  records its result.
\<close>

theorem failed_execution_is_retried:
  assumes "ms_jobs s0 (ledger_id tn key) = None" and "sdk_stream s0 (ledger_id tn key) = []"
    and "Wrap mem_durability env tn fn key input (fresh_world s0 cs) = (Inl (EExec e), w)"
    and "fn' (length ds) input' = Inr r"
  shows "\<exists>w'. Wrap mem_durability env' tn fn' key input' (fresh_world (wd_store w) ds) = (Inr r, w')
     \<and> wd_calls w' = ds @ [ledger_id tn key] \<and> committed_as mem_durability (ledger_id tn key) (marshal_opt r) (wd_store w')"
proof -
  have "\<exists>job. ms_jobs (wd_store w) (ledger_id tn key) = Some job \<and> SJ_State job = StateFailed \<and> SJ_Version job = 1
      \<and> SJ_ID job = ledger_id tn key \<and> length (sdk_stream (wd_store w) (ledger_id tn key)) = 1"
    using assms(1-3)
    by (auto simp: Wrap_def wrap_acquire_def acquire_job_def wrap_execute_def wrap_commit_def emit_event_def effect_def
        ms_defs Let_def sdk_stream_def split: sum.splits option.splits)
  then obtain job where job: "ms_jobs (wd_store w) (ledger_id tn key) = Some job" "SJ_State job = StateFailed"
      "SJ_Version job = 1" "SJ_ID job = ledger_id tn key" "length (sdk_stream (wd_store w) (ledger_id tn key)) = 1" by blast
  then show ?thesis
    using assms(4)
    by (auto simp: Wrap_def wrap_acquire_def acquire_job_def wrap_execute_def wrap_commit_def emit_event_def effect_def
        ms_defs Let_def sdk_stream_def committed_as_def)
qed

section \<open>A mailer\<close>

text \<open>The wrapped function of the package's documentation.\<close>

definition mail_fn :: tool_fn where
  "mail_fn n input = (if n = 1 then Inl ''smtp'' else Inr (Some [(''sent'', GBool True)]))"

lemmas wrap_defs = Wrap_def wrap_acquire_def acquire_job_def wrap_execute_def wrap_commit_def emit_event_def effect_def
  ms_defs Let_def sdk_stream_def NewSdkMemoryStore_def mail_fn_def

lemma mail_sent:
  "Wrap mem_durability pay_env tn mail_fn key None (fresh_world NewSdkMemoryStore []) = (Inr (Some [(''sent'', GBool True)]),
     snd (Wrap mem_durability pay_env tn mail_fn key None (fresh_world NewSdkMemoryStore [])))"
  by (simp add: wrap_defs del: json_marshal.simps)

lemma mail_readable: "stored_result (marshal_opt (Some [(''sent'', GBool True)])) = Some [(''sent'', GBool True)]"
  by code_simp

theorem wrapped_call_executes_once_witness:
  "Wrap mem_durability pay_env ''send-email'' (\<lambda>_ _. Inl ''boom'') ''order-123'' None
       (fresh_world (wd_store (snd (Wrap mem_durability pay_env ''send-email'' mail_fn ''order-123'' None (fresh_world NewSdkMemoryStore [])))) [])
     = (Inr (Some [(''sent'', GBool True)]),
        fresh_world (wd_store (snd (Wrap mem_durability pay_env ''send-email'' mail_fn ''order-123'' None (fresh_world NewSdkMemoryStore [])))) [])"
  by (rule wrapped_call_executes_once [OF wrap_start mail_sent mail_readable wrap_start])

theorem colliding_keys_share_result_witness:
  "Wrap mem_durability pay_env (''mail'' @ '':'' @ ''eu'') (\<lambda>_ _. Inl ''boom'') ''7'' None
       (fresh_world (wd_store (snd (Wrap mem_durability pay_env ''mail'' mail_fn (''eu'' @ '':'' @ ''7'') None (fresh_world NewSdkMemoryStore [])))) [])
     = (Inr (Some [(''sent'', GBool True)]),
        fresh_world (wd_store (snd (Wrap mem_durability pay_env ''mail'' mail_fn (''eu'' @ '':'' @ ''7'') None (fresh_world NewSdkMemoryStore [])))) [])"
  by (rule colliding_keys_share_result [OF wrap_start mail_sent mail_readable wrap_start])

theorem crash_after_acquire_blocks_key_witness:
  "fst (Wrap mem_durability pay_env ''mail'' mail_fn ''7'' None
       (fresh_world (wd_past (snd (Wrap mem_durability pay_env ''mail'' mail_fn ''7'' None (fresh_world NewSdkMemoryStore []))) ! 1) []))
     = Inl (EAppendAcquired ErrVersionMismatch_sdk)"
  by (rule conjunct1 [OF crash_after_acquire_blocks_key [OF wrap_start _ _ refl wrap_start]])
    (simp_all add: NewSdkMemoryStore_def sdk_stream_def)

theorem failed_execution_is_retried_witness:
  "\<exists>w. Wrap mem_durability pay_env ''mail'' mail_fn ''7'' None
       (fresh_world (wd_store (snd (Wrap mem_durability pay_env ''mail'' mail_fn ''7'' None (fresh_world NewSdkMemoryStore [''x''])))) [''x'', ''x''])
     = (Inr (Some [(''sent'', GBool True)]), w) \<and> wd_calls w = [''x'', ''x''] @ [ledger_id ''mail'' ''7'']"
proof -
  let ?run = "Wrap mem_durability pay_env ''mail'' mail_fn ''7'' None (fresh_world NewSdkMemoryStore [''x''])"
  have run: "?run = (Inl (EExec ''smtp''), snd ?run)" by (simp add: wrap_defs del: json_marshal.simps)
  show ?thesis
    using failed_execution_is_retried [OF _ _ run, of mail_fn "[''x'', ''x'']" None "Some [(''sent'', GBool True)]" pay_env]
    by (auto simp: NewSdkMemoryStore_def sdk_stream_def mail_fn_def)
qed

end
