(* ===== verification/Task_Graph.thy ===== *)
theory Task_Graph
  imports Go_Value "HOL-Library.Char_ord" "HOL-Library.List_Lexorder"
begin

text \<open>
  Task graphs and the order their nodes run in: the graph of \<open>internal/agent/planner/task_graph.go\<close>, the topological
  order, the level groups and the compilation to steps of \<open>internal/agent/runtime/executor/steppable.go\<close>,
  and the registry of node adapters it looks the node types up in.
\<close>

record TaskNode =
  TN_ID :: string
  TN_Type :: string
  TN_Config :: gomap
  TN_ToolName :: string
  TN_Workflow :: string

record TaskEdge =
  TE_From :: string
  TE_To :: string

record TaskGraph =
  TG_Nodes :: "TaskNode list"
  TG_Edges :: "TaskEdge list"

datatype 'e graph_error = GraphEmpty | GraphCycle | NodeMissing string | UnknownNodeType string string | RunnerFailed string 'e

section \<open>Topological order\<close>

text \<open>The set of node ids, in an arbitrary order: every use of it is sorted or order-independent.\<close>

definition node_set :: "TaskGraph \<Rightarrow> string list" where
  "node_set g = remdups (map TN_ID (TG_Nodes g))"

definition in_degree :: "string list \<Rightarrow> TaskEdge list \<Rightarrow> string \<Rightarrow> int" where
  "in_degree nodes edges v = (if v \<in> set nodes then int (length (filter (\<lambda>e. TE_To e = v) edges)) else 0)"

text \<open>The edges out of \<open>u\<close>, in the order of the graph's list, each counted off at its target.\<close>

fun relax_edges :: "string list \<Rightarrow> string \<Rightarrow> TaskEdge list \<Rightarrow> (string \<Rightarrow> int) \<Rightarrow> string list \<Rightarrow> (string \<Rightarrow> int) \<times> string list" where
  "relax_edges nodes u [] deg queue = (deg, queue)"
| "relax_edges nodes u (e # es) deg queue =
     (if TE_From e \<noteq> u then relax_edges nodes u es deg queue
      else if TE_To e \<notin> set nodes then relax_edges nodes u es deg queue
      else (let deg' = deg(TE_To e := deg (TE_To e) - 1)
            in relax_edges nodes u es deg' (if deg' (TE_To e) = 0 then queue @ [TE_To e] else queue)))"

text \<open>The loop, with a bound on the number of its rounds; \<open>None\<close> when the bound is too small.\<close>

fun topo_loop :: "nat \<Rightarrow> string list \<Rightarrow> TaskEdge list \<Rightarrow> (string \<Rightarrow> int) \<Rightarrow> string list \<Rightarrow> string list \<Rightarrow> string list option" where
  "topo_loop n nodes edges deg [] order = Some order"
| "topo_loop 0 nodes edges deg (u # queue) order = None"
| "topo_loop (Suc n) nodes edges deg (u # queue) order =
     (case relax_edges nodes u edges deg queue of
        (deg', queue') \<Rightarrow> topo_loop n nodes edges deg' (sort queue') (order @ [u]))"

text \<open>\<open>None\<close> is a nil graph.  A round takes one node for good, so that as many rounds as nodes are enough.\<close>

definition TopoOrder :: "TaskGraph option \<Rightarrow> 'e graph_error + string list" where
  "TopoOrder go = (case go of None \<Rightarrow> Inr []
     | Some g \<Rightarrow>
         if TG_Nodes g = [] then Inr []
         else (let nodes = node_set g; deg = in_degree nodes (TG_Edges g);
                   queue = sort (filter (\<lambda>v. deg v = 0) nodes)
               in case topo_loop (length nodes) nodes (TG_Edges g) deg queue [] of
                    None \<Rightarrow> Inl GraphCycle
                  | Some order \<Rightarrow> if length order \<noteq> length nodes then Inl GraphCycle else Inr order))"

section \<open>Levels\<close>

text \<open>The sources of the edges into a node, known nodes or not.\<close>

definition preds_of :: "TaskGraph \<Rightarrow> string \<Rightarrow> string list" where
  "preds_of g v = (if v \<in> set (node_set g) then map TE_From (filter (\<lambda>e. TE_To e = v) (TG_Edges g)) else [])"

text \<open>Reading a missing key of the level map gives 0.\<close>

definition level_at :: "(string \<rightharpoonup> nat) \<Rightarrow> string \<Rightarrow> nat" where
  "level_at m v = (case m v of None \<Rightarrow> 0 | Some l \<Rightarrow> l)"

definition level_from :: "(string \<rightharpoonup> nat) \<Rightarrow> string list \<Rightarrow> nat" where
  "level_from m ps = foldl (\<lambda>mx p. if level_at m p + 1 > mx then level_at m p + 1 else mx) 0 ps"

fun assign_levels :: "TaskGraph \<Rightarrow> string list \<Rightarrow> (string \<rightharpoonup> nat) \<Rightarrow> (string \<rightharpoonup> nat)" where
  "assign_levels g [] m = m"
| "assign_levels g (v # vs) m =
     assign_levels g vs (m(v \<mapsto> (if preds_of g v = [] then 0 else level_from m (preds_of g v))))"

definition LevelGroups :: "TaskGraph option \<Rightarrow> 'e graph_error + string list list" where
  "LevelGroups go = (case TopoOrder go of Inl e \<Rightarrow> Inl e
     | Inr order \<Rightarrow>
         if order = [] then Inr []
         else (let m = assign_levels (the go) order Map.empty; maxLevel = foldl max 0 (map (level_at m) order)
               in Inr (map (\<lambda>l. sort (filter (\<lambda>v. level_at m v = l) order)) [0..<Suc maxLevel])))"

section \<open>Compilation to steps\<close>

text \<open>
  An adapter turns a node into a runner or fails; \<open>None\<close> in the registry is a nil adapter stored under the type.
  The registry is a value: it is only written through \<open>Register\<close>.
\<close>

type_synonym ('r, 'e) NodeAdapter = "TaskNode \<Rightarrow> 'e + 'r"

type_synonym ('r, 'e) NodeAdapterRegistry = "string \<rightharpoonup> ('r, 'e) NodeAdapter option"

definition NewNodeAdapterRegistry :: "('r, 'e) NodeAdapterRegistry option \<Rightarrow> ('r, 'e) NodeAdapterRegistry" where
  "NewNodeAdapterRegistry base = (case base of None \<Rightarrow> Map.empty | Some m \<Rightarrow> m)"

definition Register :: "('r, 'e) NodeAdapterRegistry option \<Rightarrow> string \<Rightarrow> ('r, 'e) NodeAdapter option \<Rightarrow> ('r, 'e) NodeAdapterRegistry option" where
  "Register r nodeType adapter = map_option (\<lambda>m. m(nodeType \<mapsto> adapter)) r"

definition Registry_Get :: "('r, 'e) NodeAdapterRegistry option \<Rightarrow> string \<Rightarrow> ('r, 'e) NodeAdapter option option" where
  "Registry_Get r nodeType = (case r of None \<Rightarrow> None | Some m \<Rightarrow> m nodeType)"

record 'r SteppableStep =
  SS_NodeID :: string
  SS_NodeType :: string
  SS_Run :: 'r

text \<open>The node of an id: the last one of the list.\<close>

definition node_by_id :: "TaskGraph \<Rightarrow> string \<Rightarrow> TaskNode option" where
  "node_by_id g id' = map_of (rev (map (\<lambda>n. (TN_ID n, n)) (TG_Nodes g))) id'"

fun compile_steps :: "('r, 'e) NodeAdapterRegistry \<Rightarrow> TaskGraph \<Rightarrow> string list \<Rightarrow> 'e graph_error + 'r SteppableStep list" where
  "compile_steps r g [] = Inr []"
| "compile_steps r g (v # vs) =
     (case node_by_id g v of None \<Rightarrow> Inl (NodeMissing v)
      | Some node \<Rightarrow>
          (case Registry_Get (Some r) (TN_Type node) of
             Some (Some adapter) \<Rightarrow>
               (case adapter node of Inl e \<Rightarrow> Inl (RunnerFailed v e)
                | Inr run \<Rightarrow>
                    (case compile_steps r g vs of Inl e \<Rightarrow> Inl e
                     | Inr steps \<Rightarrow> Inr (\<lparr>SS_NodeID = v, SS_NodeType = TN_Type node, SS_Run = run\<rparr> # steps)))
           | _ \<Rightarrow> Inl (UnknownNodeType (TN_Type node) v)))"

definition CompileSteppable :: "('r, 'e) NodeAdapterRegistry option \<Rightarrow> TaskGraph option \<Rightarrow> 'e graph_error + 'r SteppableStep list" where
  "CompileSteppable registry go = (case go of None \<Rightarrow> Inl GraphEmpty
     | Some g \<Rightarrow>
         if TG_Nodes g = [] then Inl GraphEmpty
         else (case TopoOrder go of Inl e \<Rightarrow> Inl e
               | Inr order \<Rightarrow> compile_steps (case registry of None \<Rightarrow> NewNodeAdapterRegistry None | Some r \<Rightarrow> r) g order))"

section \<open>The order is topological, and the least one\<close>

text \<open>
  An order of all nodes in which the source of every edge stands before its target.  A source that is no node
  stands nowhere, so that a graph with such an edge into a node has no order.
\<close>

definition topological :: "TaskGraph \<Rightarrow> string list \<Rightarrow> bool" where
  "topological g xs \<longleftrightarrow> distinct xs \<and> set xs = set (node_set g) \<and>
     (\<forall>p a s. xs = p @ a # s \<longrightarrow> (\<forall>e\<in>set (TG_Edges g). TE_To e = a \<longrightarrow> TE_From e \<in> set p))"

text \<open>A node all of whose sources have run.\<close>

definition ready :: "string list \<Rightarrow> TaskEdge list \<Rightarrow> string set \<Rightarrow> string \<Rightarrow> bool" where
  "ready nodes edges rs v \<longleftrightarrow> v \<in> set nodes \<and> (\<forall>e\<in>set edges. TE_To e = v \<longrightarrow> TE_From e \<in> rs)"

text \<open>An order that always takes the least ready node.\<close>

definition greedy :: "string list \<Rightarrow> TaskEdge list \<Rightarrow> string list \<Rightarrow> bool" where
  "greedy nodes edges order \<longleftrightarrow> (\<forall>p a s. order = p @ a # s \<longrightarrow> a \<notin> set p \<and> ready nodes edges (set p) a
     \<and> (\<forall>b. ready nodes edges (set p) b \<longrightarrow> b \<notin> set p \<longrightarrow> a \<le> b))"

definition edge_count :: "string \<Rightarrow> string \<Rightarrow> TaskEdge list \<Rightarrow> int" where
  "edge_count u v es = int (length (filter (\<lambda>e. TE_From e = u \<and> TE_To e = v) es))"

lemma edge_count_simps [simp]:
  "edge_count u v [] = 0"
  "edge_count u v (e # es) = (if TE_From e = u \<and> TE_To e = v then 1 else 0) + edge_count u v es"
  "0 \<le> edge_count u v es"
  by (simp_all add: edge_count_def)

lemma relax_edges_spec:
  assumes "relax_edges nodes u es deg queue = (deg', queue')" and "\<forall>v\<in>set nodes. edge_count u v es \<le> deg v"
  shows "(\<forall>v\<in>set nodes. deg' v = deg v - edge_count u v es) \<and>
    (\<exists>new. queue' = queue @ new \<and> distinct new \<and> set new = {v \<in> set nodes. 0 < edge_count u v es \<and> deg v = edge_count u v es})"
  using assms
proof (induction es arbitrary: deg queue)
  case Nil
  then show ?case by auto
next
  case (Cons e es)
  show ?case
  proof (cases "TE_From e = u \<and> TE_To e \<in> set nodes")
    case False
    then have "relax_edges nodes u es deg queue = (deg', queue')" using Cons.prems(1) by (auto split: if_splits)
    moreover have same: "edge_count u v (e # es) = edge_count u v es" if "v \<in> set nodes" for v using False that by auto
    ultimately have ih: "(\<forall>v\<in>set nodes. deg' v = deg v - edge_count u v es) \<and> (\<exists>new. queue' = queue @ new \<and> distinct new
        \<and> set new = {v \<in> set nodes. 0 < edge_count u v es \<and> deg v = edge_count u v es})"
      using Cons.IH Cons.prems(2) by auto
    then show ?thesis using same by (auto cong: conj_cong)
  next
    case True
    define t where "t = TE_To e"
    let ?deg = "deg(t := deg t - 1)"
    let ?queue = "if ?deg t = 0 then queue @ [t] else queue"
    have run: "relax_edges nodes u es ?deg ?queue = (deg', queue')"
      using Cons.prems(1) True by (auto simp: Let_def t_def split: if_splits)
    have cnt: "edge_count u v (e # es) = (if v = t then 1 else 0) + edge_count u v es" for v
      using True by (simp add: t_def)
    have le: "\<forall>v\<in>set nodes. edge_count u v es \<le> ?deg v" using Cons.prems(2) cnt by auto
    obtain new where new: "\<forall>v\<in>set nodes. deg' v = ?deg v - edge_count u v es" "queue' = ?queue @ new" "distinct new"
        "set new = {v \<in> set nodes. 0 < edge_count u v es \<and> ?deg v = edge_count u v es}"
      using Cons.IH [OF run le] by blast
    have t: "t \<in> set nodes" "0 \<le> edge_count u t es" using True by (simp_all add: t_def)
    have "edge_count u t es \<le> ?deg t" using le t(1) by blast
    then have "edge_count u t es \<le> deg t - 1" by simp
    then have set_eq: "set ((if ?deg t = 0 then [t] else []) @ new)
        = {v \<in> set nodes. 0 < edge_count u v (e # es) \<and> deg v = edge_count u v (e # es)}" (is "?L = ?R")
    proof (intro set_eqI)
      fix v
      show "v \<in> ?L \<longleftrightarrow> v \<in> ?R"
      proof (cases "v = t")
        case True
        have "t \<in> set new \<longleftrightarrow> 0 < edge_count u t es \<and> deg t - 1 = edge_count u t es" using new(4) t(1) by simp
        then have "v \<in> ?L \<longleftrightarrow> deg t = 1 \<or> 0 < edge_count u t es \<and> deg t - 1 = edge_count u t es" using True by simp
        also have "\<dots> \<longleftrightarrow> deg t = 1 + edge_count u t es"
          using \<open>edge_count u t es \<le> deg t - 1\<close> t(2) by arith
        also have "\<dots> \<longleftrightarrow> v \<in> ?R" using True t by (simp add: cnt add_pos_nonneg del: edge_count_simps(2))
        finally show ?thesis .
      next
        case False
        have "v \<in> set new \<longleftrightarrow> v \<in> set nodes \<and> 0 < edge_count u v es \<and> deg v = edge_count u v es" using new(4) False by simp
        then show ?thesis using False by (simp add: cnt del: edge_count_simps(2))
      qed
    qed
    have dist: "distinct ((if ?deg t = 0 then [t] else []) @ new)" using new(3,4) t by auto
    have q: "queue' = queue @ (if ?deg t = 0 then [t] else []) @ new" using new(2) by simp
    show ?thesis
      by (intro conjI exI [of _ "(if ?deg t = 0 then [t] else []) @ new"] q dist set_eq) (use new(1) cnt in auto)
  qed
qed

definition topo_inv :: "string list \<Rightarrow> TaskEdge list \<Rightarrow> (string \<Rightarrow> int) \<Rightarrow> string list \<Rightarrow> string list \<Rightarrow> bool" where
  "topo_inv nodes edges deg queue order \<longleftrightarrow> distinct (order @ queue) \<and> set (order @ queue) \<subseteq> set nodes \<and> sorted queue
     \<and> (\<forall>v\<in>set nodes. deg v = int (length (filter (\<lambda>e. TE_To e = v \<and> TE_From e \<notin> set order) edges)))
     \<and> (\<forall>v\<in>set nodes. deg v = 0 \<longleftrightarrow> v \<in> set (order @ queue)) \<and> greedy nodes edges order"

lemma topo_inv_ready:
  assumes "topo_inv nodes edges deg queue order" and "v \<in> set nodes"
  shows "ready nodes edges (set order) v \<longleftrightarrow> v \<in> set (order @ queue)"
proof -
  have "ready nodes edges (set order) v \<longleftrightarrow> filter (\<lambda>e. TE_To e = v \<and> TE_From e \<notin> set order) edges = []"
    using assms(2) by (auto simp: ready_def filter_empty_conv)
  then show ?thesis using assms by (auto simp: topo_inv_def)
qed

lemma greedy_snoc:
  assumes "greedy nodes edges order" and "u \<notin> set order" and "ready nodes edges (set order) u"
    and "\<And>b. ready nodes edges (set order) b \<Longrightarrow> b \<notin> set order \<Longrightarrow> u \<le> b"
  shows "greedy nodes edges (order @ [u])"
  unfolding greedy_def
proof (intro allI impI)
  fix p a s assume eq: "order @ [u] = p @ a # s"
  show "a \<notin> set p \<and> ready nodes edges (set p) a \<and> (\<forall>b. ready nodes edges (set p) b \<longrightarrow> b \<notin> set p \<longrightarrow> a \<le> b)"
  proof (cases s rule: rev_cases)
    case Nil
    then show ?thesis using eq assms by auto
  next
    case (snoc s' x)
    then have "order = p @ a # s'" using eq by simp
    then show ?thesis using assms(1) unfolding greedy_def by blast
  qed
qed

lemma topo_inv_step:
  assumes inv: "topo_inv nodes edges deg (u # queue) order" and run: "relax_edges nodes u edges deg queue = (deg', queue')"
  shows "topo_inv nodes edges deg' (sort queue') (order @ [u])"
proof -
  have dist: "distinct (order @ u # queue)" and sub: "set (order @ u # queue) \<subseteq> set nodes" and srt: "sorted (u # queue)"
    and deg: "\<And>v. v \<in> set nodes \<Longrightarrow> deg v = int (length (filter (\<lambda>e. TE_To e = v \<and> TE_From e \<notin> set order) edges))"
    and zero: "\<And>v. v \<in> set nodes \<Longrightarrow> deg v = 0 \<longleftrightarrow> v \<in> set (order @ u # queue)" and greedy: "greedy nodes edges order"
    using inv unfolding topo_inv_def by auto
  have u: "u \<notin> set order" "u \<in> set nodes" using dist sub by auto
  have split: "deg v = int (length (filter (\<lambda>e. TE_To e = v \<and> TE_From e \<notin> set (order @ [u])) edges)) + edge_count u v edges"
    if "v \<in> set nodes" for v
  proof -
    have "length (filter (\<lambda>e. TE_To e = v \<and> TE_From e \<notin> set order) es) =
        length (filter (\<lambda>e. TE_To e = v \<and> TE_From e \<notin> set (order @ [u])) es) + nat (edge_count u v es)" for es
      by (induction es) (use u(1) in \<open>auto simp: nat_add_distrib\<close>)
    then show ?thesis using deg [OF that] by simp
  qed
  have le: "\<forall>v\<in>set nodes. edge_count u v edges \<le> deg v" using split by simp
  obtain new where deg': "\<forall>v\<in>set nodes. deg' v = deg v - edge_count u v edges" and q': "queue' = queue @ new"
      and new: "distinct new" "set new = {v \<in> set nodes. 0 < edge_count u v edges \<and> deg v = edge_count u v edges}"
    using relax_edges_spec [OF run le] by blast
  have fresh: "set new \<inter> set (order @ u # queue) = {}"
  proof (rule ccontr)
    assume "set new \<inter> set (order @ u # queue) \<noteq> {}"
    then obtain v where "v \<in> set nodes" "0 < deg v" "v \<in> set (order @ u # queue)" using new(2) by fastforce
    then show False using zero by force
  qed
  have zero': "deg' v = 0 \<longleftrightarrow> v \<in> set (order @ [u] @ queue @ new)" if v: "v \<in> set nodes" for v
  proof (cases "deg v = 0")
    case True
    have "edge_count u v edges = 0" using True bspec [OF le v] edge_count_simps(3) [of u v edges] by linarith
    then show ?thesis using True zero [OF v] deg' v by auto
  next
    case False
    have "deg' v = 0 \<longleftrightarrow> deg v = edge_count u v edges" using deg' v by auto
    also have "\<dots> \<longleftrightarrow> v \<in> set new" unfolding new(2) using v False by (auto simp: less_le)
    finally show ?thesis using False zero [OF v] by auto
  qed
  have least: "u \<le> b" if "ready nodes edges (set order) b" "b \<notin> set order" for b
    using topo_inv_ready [OF inv, of b] that srt by (auto simp: ready_def)
  have "greedy nodes edges (order @ [u])"
    by (rule greedy_snoc [OF greedy u(1) _ least]) (use topo_inv_ready [OF inv u(2)] in auto)
  moreover have "distinct ((order @ [u]) @ sort queue')" using dist fresh new(1) q' by auto
  moreover have "set ((order @ [u]) @ sort queue') \<subseteq> set nodes" using sub new(2) q' by auto
  moreover have "\<forall>v\<in>set nodes. deg' v = int (length (filter (\<lambda>e. TE_To e = v \<and> TE_From e \<notin> set (order @ [u])) edges))"
    using deg' split by simp
  moreover have "\<forall>v\<in>set nodes. deg' v = 0 \<longleftrightarrow> v \<in> set ((order @ [u]) @ sort queue')" using zero' q' by auto
  ultimately show ?thesis unfolding topo_inv_def by (intro conjI) simp_all
qed

lemma topo_loop_spec:
  assumes "topo_inv nodes edges deg queue order" and "length nodes \<le> n + length order" and "distinct nodes"
  shows "\<exists>res deg'. topo_loop n nodes edges deg queue order = Some res \<and> topo_inv nodes edges deg' [] res"
  using assms(1,2)
proof (induction n nodes edges deg queue order rule: topo_loop.induct)
  case (1 n nodes edges deg order)
  then show ?case by auto
next
  case (2 nodes edges deg u queue order)
  have "distinct (order @ u # queue)" "set (order @ u # queue) \<subseteq> set nodes" using 2 by (auto simp: topo_inv_def)
  then have "length (order @ u # queue) \<le> card (set nodes)" using card_mono [of "set nodes"] by (metis List.finite_set distinct_card)
  then show ?case using 2 card_length [of nodes] by simp
next
  case (3 n nodes edges deg u queue order)
  obtain deg' queue' where r: "relax_edges nodes u edges deg queue = (deg', queue')" by (metis surj_pair)
  have "\<exists>res deg''. topo_loop n nodes edges deg' (sort queue') (order @ [u]) = Some res \<and> topo_inv nodes edges deg'' [] res"
    by (rule 3(1) [OF r [symmetric] topo_inv_step [OF 3(2) r]]) (use 3(3) in simp)
  then show ?case using r by simp
qed

lemma node_set_distinct [simp]: "distinct (node_set g)"
  by (simp add: node_set_def)

lemma topo_start:
  "topo_inv (node_set g) edges (in_degree (node_set g) edges) (sort (filter (\<lambda>v. in_degree (node_set g) edges v = 0) (node_set g))) []"
  by (auto simp: topo_inv_def in_degree_def greedy_def)

text \<open>What the loop yields: a greedy order that leaves no ready node out.\<close>

lemma topo_loop_result:
  obtains order where
    "topo_loop (length (node_set g)) (node_set g) (TG_Edges g) (in_degree (node_set g) (TG_Edges g))
       (sort (filter (\<lambda>v. in_degree (node_set g) (TG_Edges g) v = 0) (node_set g))) [] = Some order"
    and "distinct order" and "set order \<subseteq> set (node_set g)" and "greedy (node_set g) (TG_Edges g) order"
    and "\<And>v. ready (node_set g) (TG_Edges g) (set order) v \<Longrightarrow> v \<in> set order"
proof -
  obtain order deg' where 1: "topo_loop (length (node_set g)) (node_set g) (TG_Edges g) (in_degree (node_set g) (TG_Edges g))
       (sort (filter (\<lambda>v. in_degree (node_set g) (TG_Edges g) v = 0) (node_set g))) [] = Some order"
      "topo_inv (node_set g) (TG_Edges g) deg' [] order"
    using topo_loop_spec [OF topo_start [of g "TG_Edges g"], where n = "length (node_set g)"] by auto
  show thesis
    by (rule that [OF 1(1)]) (use 1(2) topo_inv_ready [OF 1(2)] in \<open>auto simp: topo_inv_def ready_def\<close>)
qed

lemma topological_prefix_ready:
  "topological g (p @ b # t) \<Longrightarrow> ready (node_set g) (TG_Edges g) (set p) b \<and> b \<notin> set p"
  by (auto simp: topological_def ready_def)

lemma topological_covered:
  assumes "topological g xs" and "\<And>v. ready (node_set g) (TG_Edges g) rs v \<Longrightarrow> v \<in> rs"
  shows "set xs \<subseteq> rs"
proof -
  have "xs = p @ s \<Longrightarrow> set p \<subseteq> rs" for p s
  proof (induction p arbitrary: s rule: rev_induct)
    case (snoc b p)
    then have "set p \<subseteq> rs" and eq: "xs = p @ b # s" by auto
    moreover have "ready (node_set g) (TG_Edges g) (set p) b"
      using topological_prefix_ready assms(1) eq by blast
    ultimately have "ready (node_set g) (TG_Edges g) rs b" by (auto simp: ready_def)
    then show ?case using assms(2) \<open>set p \<subseteq> rs\<close> by simp
  qed simp
  then show ?thesis by (metis append_Nil2)
qed

lemma prefix_less: "a < b \<Longrightarrow> (p @ a # s :: 'a :: linorder list) < p @ b # t"
  by (induction p) auto

lemma greedy_least:
  assumes "greedy (node_set g) (TG_Edges g) order" and "topological g xs" and "length order = length xs"
  shows "order \<le> xs"
proof (cases "order = xs")
  case False
  then obtain p a s b t where split: "order = p @ [a] @ s" "xs = p @ [b] @ t" "a \<noteq> b"
    using same_length_different assms(3) by blast
  have "ready (node_set g) (TG_Edges g) (set p) b \<and> b \<notin> set p"
    using topological_prefix_ready assms(2) split(2) by simp
  then have "a \<le> b" using assms(1) split(1) unfolding greedy_def by auto
  then have "p @ a # s < p @ b # t" using split(3) by (intro prefix_less) simp
  then show ?thesis using split by simp
qed simp

lemma greedy_topological:
  "greedy (node_set g) (TG_Edges g) order \<Longrightarrow> distinct order \<Longrightarrow> set order = set (node_set g) \<Longrightarrow> topological g order"
  by (fastforce simp: greedy_def topological_def ready_def)

lemma topological_length: "topological g xs \<Longrightarrow> length xs = length (node_set g)"
  by (metis distinct_card node_set_distinct topological_def)

lemma TopoOrder_correct:
  "case (TopoOrder (Some g) :: 'e graph_error + string list) of
     Inr order \<Rightarrow> topological g order \<and> (\<forall>xs. topological g xs \<longrightarrow> order \<le> xs)
   | Inl e \<Rightarrow> e = GraphCycle \<and> (\<nexists>xs. topological g xs)"
proof -
  obtain order where loop: "topo_loop (length (node_set g)) (node_set g) (TG_Edges g) (in_degree (node_set g) (TG_Edges g))
       (sort (filter (\<lambda>v. in_degree (node_set g) (TG_Edges g) v = 0) (node_set g))) [] = Some order"
    and order: "distinct order" "set order \<subseteq> set (node_set g)" "greedy (node_set g) (TG_Edges g) order"
    and closed: "\<And>v. ready (node_set g) (TG_Edges g) (set order) v \<Longrightarrow> v \<in> set order"
    by (rule topo_loop_result [of g]) blast
  have len: "length order = length (node_set g) \<longleftrightarrow> set order = set (node_set g)"
    using order(1,2) by (metis card_subset_eq distinct_card List.finite_set node_set_distinct)
  show ?thesis
  proof (cases "TG_Nodes g = []")
    case True
    then show ?thesis by (auto simp: TopoOrder_def topological_def node_set_def)
  next
    case nonempty: False
    show ?thesis
    proof (cases "set order = set (node_set g)")
      case True
      have "topological g order" by (rule greedy_topological [OF order(3,1) True])
      moreover have "order \<le> xs" if "topological g xs" for xs
        using greedy_least [OF order(3) that] topological_length that len True by simp
      ultimately show ?thesis using loop nonempty len True by (simp add: TopoOrder_def Let_def)
    next
      case False
      have "\<not> topological g xs" for xs
        using topological_covered [of g xs, OF _ closed] False order(2) by (auto simp: topological_def)
      then show ?thesis using loop nonempty len False by (simp add: TopoOrder_def Let_def)
    qed
  qed
qed

section \<open>Levels grow along the edges\<close>

lemma level_from_fold:
  "foldl (\<lambda>mx p. if level_at m p + 1 > mx then level_at m p + 1 else mx) a ps = fold max (map (\<lambda>p. level_at m p + 1) ps) a"
  by (induction ps arbitrary: a) (auto simp: max_def)

lemma level_from_ge: "p \<in> set ps \<Longrightarrow> level_at m p < level_from m ps"
proof -
  have "x \<in> set xs \<Longrightarrow> x \<le> fold max xs a" for x :: nat and xs a
    by (metis Max.set_eq_fold Max_ge List.finite_set list.set_intros(2))
  then show "p \<in> set ps \<Longrightarrow> level_at m p < level_from m ps"
    unfolding level_from_def level_from_fold by (metis (mono_tags, lifting) Suc_eq_plus1 Suc_le_lessD image_eqI list.set_map)
qed

lemma level_from_attained:
  assumes "ps \<noteq> []" shows "\<exists>p\<in>set ps. level_from m ps = Suc (level_at m p)"
proof -
  have "fold max xs a = a \<or> fold max xs a \<in> set xs" for xs :: "nat list" and a
    by (induction xs arbitrary: a) (auto simp: max_def)
  moreover obtain q where "q \<in> set ps" using assms by (cases ps) auto
  ultimately show ?thesis using level_from_ge [of q ps m] unfolding level_from_def level_from_fold
    by (metis (mono_tags, lifting) Suc_eq_plus1 imageE list.set_map not_less_zero)
qed

lemma level_from_cong: "(\<And>p. p \<in> set ps \<Longrightarrow> level_at m p = level_at m' p) \<Longrightarrow> level_from m ps = level_from m' ps"
  unfolding level_from_def level_from_fold by (metis (mono_tags, lifting) map_eq_conv)

definition leveled :: "TaskGraph \<Rightarrow> (string \<rightharpoonup> nat) \<Rightarrow> bool" where
  "leveled g m \<longleftrightarrow> (\<forall>v\<in>dom m. set (preds_of g v) \<subseteq> dom m
     \<and> m v = Some (if preds_of g v = [] then 0 else level_from m (preds_of g v)))"

lemma leveled_upd:
  assumes "leveled g m" and "v \<notin> dom m" and "set (preds_of g v) \<subseteq> dom m"
  shows "leveled g (m(v \<mapsto> (if preds_of g v = [] then 0 else level_from m (preds_of g v))))" (is "leveled g ?m")
proof -
  have cong: "level_from ?m ps = level_from m ps" if "set ps \<subseteq> dom m" for ps
    by (rule level_from_cong) (use that assms(2) in \<open>auto simp: level_at_def\<close>)
  show ?thesis
    unfolding leveled_def
  proof
    fix u assume "u \<in> dom ?m"
    show "set (preds_of g u) \<subseteq> dom ?m \<and> ?m u = Some (if preds_of g u = [] then 0 else level_from ?m (preds_of g u))"
    proof (cases "u = v")
      case True
      then show ?thesis using assms(3) cong by auto
    next
      case False
      then have u: "set (preds_of g u) \<subseteq> dom m" "m u = Some (if preds_of g u = [] then 0 else level_from m (preds_of g u))"
        using assms(1) \<open>u \<in> dom ?m\<close> unfolding leveled_def by auto
      then show ?thesis using False cong [OF u(1)] by auto
    qed
  qed
qed

lemma assign_levels_spec:
  assumes "leveled g m" and "distinct vs" and "dom m \<inter> set vs = {}"
    and "\<And>p a s. vs = p @ a # s \<Longrightarrow> set (preds_of g a) \<subseteq> dom m \<union> set p"
  shows "leveled g (assign_levels g vs m) \<and> dom (assign_levels g vs m) = dom m \<union> set vs"
  using assms
proof (induction vs arbitrary: m)
  case (Cons v vs)
  let ?m = "m(v \<mapsto> (if preds_of g v = [] then 0 else level_from m (preds_of g v)))"
  have preds: "set (preds_of g v) \<subseteq> dom m" using Cons.prems(4) [of "[]" v vs] by simp
  have "leveled g (assign_levels g vs ?m) \<and> dom (assign_levels g vs ?m) = dom ?m \<union> set vs"
  proof (rule Cons.IH)
    show "leveled g ?m" by (rule leveled_upd [OF Cons.prems(1) _ preds]) (use Cons.prems(3) in auto)
    show "distinct vs" "dom ?m \<inter> set vs = {}" using Cons.prems(2,3) by auto
    fix p a s assume "vs = p @ a # s"
    then show "set (preds_of g a) \<subseteq> dom ?m \<union> set p" using Cons.prems(4) [of "v # p" a s] by auto
  qed
  then show ?case by auto
qed simp

lemma LevelGroups_levels:
  assumes "LevelGroups (Some g) = Inr groups" and "TG_Nodes g \<noteq> []"
  obtains order m n where "topological g order" and "leveled g m" and "dom m = set order" and "order \<noteq> []"
    and "n = foldl max 0 (map (level_at m) order)"
    and "groups = map (\<lambda>l. sort (filter (\<lambda>v. level_at m v = l) order)) [0..<Suc n]"
proof -
  obtain order where order: "(TopoOrder (Some g) :: 'a graph_error + string list) = Inr order"
    using assms(1) by (cases "TopoOrder (Some g) :: 'a graph_error + string list") (auto simp: LevelGroups_def)
  have top: "topological g order" using TopoOrder_correct [where 'e = 'a, of g] order by simp
  then have ne: "order \<noteq> []" using assms(2) by (auto simp: topological_def node_set_def)
  let ?m = "assign_levels g order Map.empty"
  have "leveled g ?m \<and> dom ?m = dom (Map.empty :: string \<rightharpoonup> nat) \<union> set order"
  proof (rule assign_levels_spec)
    show "leveled g Map.empty" by (simp add: leveled_def)
    show "distinct order" using top by (simp add: topological_def)
    fix p a s assume "order = p @ a # s"
    then show "set (preds_of g a) \<subseteq> dom (Map.empty :: string \<rightharpoonup> nat) \<union> set p" using top by (auto simp: topological_def preds_of_def)
  qed simp
  then show thesis
    using that [OF top, of ?m "foldl max 0 (map (level_at ?m) order)"] ne assms(1) order
    by (simp add: LevelGroups_def Let_def)
qed

lemma leveled_pred: "leveled g m \<Longrightarrow> v \<in> dom m \<Longrightarrow> u \<in> set (preds_of g v) \<Longrightarrow> u \<in> dom m \<and> level_at m u < level_at m v"
  using level_from_ge [of u "preds_of g v" m] by (auto simp: leveled_def level_at_def)

lemma leveled_pos:
  assumes "leveled g m" and "v \<in> dom m" and "0 < level_at m v"
  shows "\<exists>u\<in>set (preds_of g v). u \<in> dom m \<and> level_at m v = Suc (level_at m u)"
proof -
  have v: "m v = Some (if preds_of g v = [] then 0 else level_from m (preds_of g v))" "set (preds_of g v) \<subseteq> dom m"
    using assms(1,2) unfolding leveled_def by auto
  then have "preds_of g v \<noteq> []" using assms(3) by (auto simp: level_at_def)
  from level_from_attained [OF this, of m] show ?thesis using v \<open>preds_of g v \<noteq> []\<close> by (auto simp: level_at_def)
qed

lemma leveled_below: "leveled g m \<Longrightarrow> v \<in> dom m \<Longrightarrow> i \<le> level_at m v \<Longrightarrow> \<exists>u\<in>dom m. level_at m u = i"
proof (induction "level_at m v" arbitrary: v)
  case (Suc l)
  then show ?case using leveled_pos [of g m v] by (metis le_Suc_eq nat.inject zero_less_Suc)
qed auto

lemma distinct_concat_map:
  "(\<And>l. distinct (f l)) \<Longrightarrow> (\<And>l k x. x \<in> set (f l) \<Longrightarrow> x \<in> set (f k) \<Longrightarrow> l = k) \<Longrightarrow> distinct (concat (map f [0..<n]))"
  by (induction n) fastforce+

lemma foldl_max_nat: "foldl max (a :: nat) xs = Max (set (a # xs))"
  by (metis Max.set_eq_fold foldl_conv_fold max.commute ext)

lemma LevelGroups_correct:
  assumes "(LevelGroups (Some g) :: 'e graph_error + string list list) = Inr groups"
  shows "distinct (concat groups) \<and> set (concat groups) = set (node_set g)
    \<and> (\<forall>i<length groups. groups ! i \<noteq> [] \<and> sorted (groups ! i) \<and> (\<forall>v\<in>set (groups ! i).
         (\<forall>u\<in>set (preds_of g v). \<exists>k<i. u \<in> set (groups ! k)) \<and> (0 < i \<longrightarrow> (\<exists>u\<in>set (preds_of g v). u \<in> set (groups ! (i - 1))))))"
proof (cases "TG_Nodes g = []")
  case True
  then show ?thesis using assms by (auto simp: LevelGroups_def TopoOrder_def node_set_def)
next
  case False
  obtain order m n where top: "topological g order" and m: "leveled g m" "dom m = set order" and ne: "order \<noteq> []"
    and n: "n = foldl max 0 (map (level_at m) order)"
    and groups: "groups = map (\<lambda>l. sort (filter (\<lambda>v. level_at m v = l) order)) [0..<Suc n]"
    by (rule LevelGroups_levels [OF assms False])
  have le: "level_at m v \<le> n" if "v \<in> set order" for v
    unfolding n foldl_max_nat using that by (intro Max_ge) auto
  have nth: "i < length groups \<Longrightarrow> set (groups ! i) = {v \<in> set order. level_at m v = i}" for i
    unfolding groups by (simp del: upt_Suc)
  have len: "length groups = Suc n" by (simp add: groups)
  have "n \<in> set (0 # map (level_at m) order)" unfolding n foldl_max_nat by (intro Max_in) auto
  then obtain w where w: "w \<in> set order" "level_at m w = n" using ne le by (cases order) force+
  have full: "groups ! i \<noteq> []" if "i < length groups" for i
  proof -
    have "w \<in> dom m" "i \<le> level_at m w" using w m(2) that len by auto
    then obtain u where "u \<in> set order" "level_at m u = i" using leveled_below [OF m(1)] m(2) by blast
    then have "u \<in> set (groups ! i)" using nth [OF that] by simp
    then show ?thesis by auto
  qed
  have "distinct (concat groups)"
    unfolding groups using top by (intro distinct_concat_map) (auto simp: topological_def)
  moreover have "set (concat groups) = set (node_set g)"
    using top le unfolding groups by (auto simp: topological_def less_Suc_eq_le simp del: upt_Suc)
  moreover have "sorted (groups ! i)" if "i < length groups" for i
    using that unfolding groups by (simp del: upt_Suc)
  moreover have "\<exists>k<i. u \<in> set (groups ! k)" if "i < length groups" "v \<in> set (groups ! i)" "u \<in> set (preds_of g v)" for i v u
    using leveled_pred [OF m(1), of v u] that nth m(2) by (intro exI [of _ "level_at m u"]) auto
  moreover have "\<exists>u\<in>set (preds_of g v). u \<in> set (groups ! (i - 1))" if "i < length groups" "v \<in> set (groups ! i)" "0 < i" for i v
    using leveled_pos [OF m(1), of v] that nth [of i] nth [of "i - 1"] m(2) by force
  ultimately show ?thesis using full by blast
qed

section \<open>Properties\<close>

text \<open>
  \<open>TopoOrder\<close> is right in both directions: it succeeds exactly on the graphs that have a topological order, and then
  returns the least one in the order of strings.
\<close>

theorem TopoOrder_spec:
  "case (TopoOrder (Some g) :: 'e graph_error + string list) of
     Inr order \<Rightarrow> topological g order \<and> (\<forall>xs. topological g xs \<longrightarrow> order \<le> xs)
   | Inl e \<Rightarrow> e = GraphCycle \<and> (\<nexists>xs. topological g xs)"
  by (rule TopoOrder_correct)

text \<open>
  The level groups partition the nodes into sorted, non-empty groups; all sources of a node are in earlier groups, so
  that a group can run in parallel, and no node waits for nothing: past the first group each has a source in the
  group just before its own.
\<close>

theorem LevelGroups_spec:
  assumes "(LevelGroups (Some g) :: 'e graph_error + string list list) = Inr groups"
  shows "distinct (concat groups) \<and> set (concat groups) = set (node_set g)
    \<and> (\<forall>i<length groups. groups ! i \<noteq> [] \<and> sorted (groups ! i) \<and> (\<forall>v\<in>set (groups ! i).
         (\<forall>u\<in>set (preds_of g v). \<exists>k<i. u \<in> set (groups ! k)) \<and> (0 < i \<longrightarrow> (\<exists>u\<in>set (preds_of g v). u \<in> set (groups ! (i - 1))))))"
  using assms by (rule LevelGroups_correct)

text \<open>
  A compiled plan runs the nodes in topological order: its steps are the nodes of \<open>TopoOrder\<close>, each with the type of its
  node and the runner its adapter built.
\<close>

theorem CompileSteppable_order:
  fixes registry :: "('r, 'e) NodeAdapterRegistry option"
  assumes "CompileSteppable registry (Some g) = Inr steps"
  shows "topological g (map SS_NodeID steps) \<and> (\<forall>step\<in>set steps. \<exists>r node adapter. registry = Some r
     \<and> node_by_id g (SS_NodeID step) = Some node \<and> SS_NodeType step = TN_Type node
     \<and> r (TN_Type node) = Some (Some adapter) \<and> adapter node = Inr (SS_Run step))"
proof -
  have steps: "map SS_NodeID steps = order \<and> (\<forall>step\<in>set steps. \<exists>node adapter. node_by_id g (SS_NodeID step) = Some node
      \<and> SS_NodeType step = TN_Type node \<and> r (TN_Type node) = Some (Some adapter) \<and> adapter node = Inr (SS_Run step))"
    if "compile_steps r g order = Inr steps" for r :: "('r, 'e) NodeAdapterRegistry" and order and steps :: "'r SteppableStep list"
    using that
    by (induction order arbitrary: steps) (fastforce simp: Registry_Get_def split: option.splits sum.splits)+
  obtain order where order: "(TopoOrder (Some g) :: 'e graph_error + string list) = Inr order"
      "compile_steps (case registry of None \<Rightarrow> NewNodeAdapterRegistry None | Some r \<Rightarrow> r) g order = Inr steps" "TG_Nodes g \<noteq> []"
    using assms by (auto simp: CompileSteppable_def split: if_splits sum.splits)
  have top: "topological g order" using TopoOrder_correct [where 'e = 'e, of g] order(1) by simp
  then have "order \<noteq> []" using order(3) by (auto simp: topological_def node_set_def)
  show ?thesis
  proof (cases registry)
    case None
    have "\<And>v. compile_steps (Map.empty :: ('r, 'e) NodeAdapterRegistry) g order = Inr steps \<Longrightarrow> order = []"
      using steps by (cases order) (auto simp: Registry_Get_def split: option.splits)
    then show ?thesis using order(2) \<open>order \<noteq> []\<close> None by (simp add: NewNodeAdapterRegistry_def)
  next
    case (Some r)
    then show ?thesis using steps [of r order steps] order(2) top by auto
  qed
qed

section \<open>A diamond\<close>

definition diamond :: TaskGraph where
  "diamond = \<lparr>TG_Nodes = map (\<lambda>i. \<lparr>TN_ID = i, TN_Type = ''tool'', TN_Config = [], TN_ToolName = i, TN_Workflow = []\<rparr>)
       [''d'', ''c'', ''b'', ''a''],
     TG_Edges = map (\<lambda>(u, v). \<lparr>TE_From = u, TE_To = v\<rparr>) [(''a'', ''b''), (''a'', ''c''), (''b'', ''d''), (''c'', ''d'')]\<rparr>"

theorem TopoOrder_spec_witness:
  "(TopoOrder (Some diamond) :: unit graph_error + string list) = Inr [''a'', ''b'', ''c'', ''d'']
     \<and> topological diamond [''a'', ''b'', ''c'', ''d'']"
proof -
  have run: "(TopoOrder (Some diamond) :: unit graph_error + string list) = Inr [''a'', ''b'', ''c'', ''d'']" by code_simp
  show ?thesis using TopoOrder_spec [where 'e = unit, of diamond] by (simp add: run)
qed

theorem LevelGroups_spec_witness:
  "(LevelGroups (Some diamond) :: unit graph_error + string list list) = Inr [[''a''], [''b'', ''c''], [''d'']]
     \<and> distinct (concat [[''a''], [''b'', ''c''], [''d'']])"
proof -
  have run: "(LevelGroups (Some diamond) :: unit graph_error + string list list) = Inr [[''a''], [''b'', ''c''], [''d'']]" by code_simp
  show ?thesis using LevelGroups_spec [OF run] run by blast
qed

theorem CompileSteppable_order_witness:
  "topological diamond (map SS_NodeID (projr (CompileSteppable (Some [''tool'' \<mapsto> Some (\<lambda>n. (Inr (TN_ID n) :: unit + string))]) (Some diamond))))"
proof -
  let ?run = "CompileSteppable (Some [''tool'' \<mapsto> Some (\<lambda>n. (Inr (TN_ID n) :: unit + string))]) (Some diamond)"
  have "is_ok ?run" by code_simp
  then have run: "?run = Inr (projr ?run)" by (auto simp: is_ok_iff)
  show ?thesis using CompileSteppable_order [OF run] by blast
qed

end
