(* ===== verification/Go_Struct.thy ===== *)
theory Go_Struct
  imports Go_Value
begin

text \<open>
  Decoding of a JSON text into a Go struct by \<open>encoding/json\<close>, as the replay builder does it with every payload:
  fields are matched by name without regard to case, a member of another type than its field is an
  error, \<open>null\<close> leaves a field alone, and a \<open>json.RawMessage\<close> keeps the bytes the value was written with.
\<close>

section \<open>The members of an object\<close>

text \<open>
  A text split at a separator that stands outside strings and brackets.  The arguments are the
  separator, the depth of brackets, whether a string is open, and the current piece backwards.
\<close>

fun split_top :: "char \<Rightarrow> nat \<Rightarrow> bool \<Rightarrow> string \<Rightarrow> string \<Rightarrow> string list" where
  "split_top sep d q acc [] = [rev acc]"
| "split_top sep d True acc (c # s) =
     (if c = CHR 0x5C then (case s of [] \<Rightarrow> [rev (c # acc)] | e # s' \<Rightarrow> split_top sep d True (e # c # acc) s')
      else split_top sep d (c \<noteq> CHR 0x22) (c # acc) s)"
| "split_top sep d False acc (c # s) =
     (if c = CHR 0x22 then split_top sep d True (c # acc) s
      else if c \<in> set ''{['' then split_top sep (Suc d) False (c # acc) s
      else if c \<in> set ''}]'' then split_top sep (d - 1) False (c # acc) s
      else if c = sep \<and> d = 0 then rev acc # split_top sep 0 False [] s
      else split_top sep d False (c # acc) s)"

definition trim_ws :: "string \<Rightarrow> string" where
  "trim_ws s = rev (dropWhile (\<lambda>c. is_ws c) (rev (dropWhile (\<lambda>c. is_ws c) s)))"

text \<open>The text of a valid JSON document without white space around it; unlike for dynamic values, no number is out of range.\<close>

definition json_text :: "bytes \<Rightarrow> bytes option" where
  "json_text b = (case lex LNorm b of None \<Rightarrow> None
     | Some ts \<Rightarrow> (case parse [] EValue (map (\<lambda>t. case t of TNum _ \<Rightarrow> TNum ''0'' | _ \<Rightarrow> t) ts) of
         None \<Rightarrow> None | Some _ \<Rightarrow> Some (trim_ws b)))"

definition raw_string :: "bytes \<Rightarrow> string" where
  "raw_string r = (case unquote (butlast (tl r)) of Some s \<Rightarrow> s | None \<Rightarrow> [])"

definition raw_elems :: "bytes \<Rightarrow> bytes list" where
  "raw_elems r = (let inner = butlast (tl r)
     in if trim_ws inner = [] then [] else map trim_ws (split_top CHR '','' 0 False [] inner))"

definition raw_member :: "bytes \<Rightarrow> string \<times> bytes" where
  "raw_member m = (case split_top CHR '':'' 0 False [] m of
     [] \<Rightarrow> ([], []) | k # _ \<Rightarrow> (raw_string (trim_ws k), trim_ws (drop (Suc (length k)) m)))"

text \<open>The members of a text: none for \<open>null\<close>, an error for anything else than an object.\<close>

definition decode_object :: "bytes \<Rightarrow> (string \<times> bytes) list option" where
  "decode_object b = (case json_text b of None \<Rightarrow> None
     | Some r \<Rightarrow> if r = ''null'' then Some []
               else if hd r = CHR ''{'' then Some (map raw_member (raw_elems r)) else None)"

section \<open>Fields\<close>

text \<open>Case folding of names: ASCII letters, and the two other letters of Unicode that fold to ASCII (long s and the Kelvin sign).\<close>

fun fold_name :: "string \<Rightarrow> string" where
  "fold_name [] = []"
| "fold_name (c # s) =
     (if c = CHR 0xC5 \<and> s \<noteq> [] \<and> hd s = CHR 0xBF then CHR ''s'' # fold_name (tl s)
      else if c = CHR 0xE2 \<and> take 2 s = [CHR 0x84, CHR 0xAA] then CHR ''k'' # fold_name (drop 2 s)
      else (if 65 \<le> byte c \<and> byte c \<le> 90 then char_of (byte c + 32) else c) # fold_name s)"

definition field_raws :: "string \<Rightarrow> (string \<times> bytes) list \<Rightarrow> bytes list" where
  "field_raws name ms = map snd (filter (\<lambda>(k, _). fold_name k = fold_name name) ms)"

text \<open>A string field; \<open>None\<close> is a type error.\<close>

definition set_string :: "string option \<Rightarrow> bytes \<Rightarrow> string option" where
  "set_string x r = (case x of None \<Rightarrow> None
     | Some old \<Rightarrow> if r = ''null'' then Some old else if hd r = CHR 0x22 then Some (raw_string r) else None)"

definition string_field :: "string \<Rightarrow> (string \<times> bytes) list \<Rightarrow> string option" where
  "string_field name ms = foldl set_string (Some []) (field_raws name ms)"

text \<open>A \<open>json.RawMessage\<close> field, empty when the member is absent.\<close>

definition raw_field :: "string \<Rightarrow> (string \<times> bytes) list \<Rightarrow> bytes" where
  "raw_field name ms = (case rev (field_raws name ms) of [] \<Rightarrow> [] | r # _ \<Rightarrow> r)"

text \<open>An integer field: the literal must be an integer in the 64-bit range.\<close>

definition int_literal :: "bytes \<Rightarrow> int option" where
  "int_literal r = (let neg = r \<noteq> [] \<and> hd r = CHR ''-''; ds = (if neg then tl r else r);
       n = (if neg then - digits_int ds else digits_int ds)
     in if all_digits ds \<and> - (2 ^ 63) \<le> n \<and> n < 2 ^ 63 then Some n else None)"

definition set_int :: "int option \<Rightarrow> bytes \<Rightarrow> int option" where
  "set_int x r = (case x of None \<Rightarrow> None | Some old \<Rightarrow> if r = ''null'' then Some old else int_literal r)"

definition int_field :: "string \<Rightarrow> (string \<times> bytes) list \<Rightarrow> int option" where
  "int_field name ms = foldl set_int (Some 0) (field_raws name ms)"

text \<open>The elements of a slice field; \<open>null\<close> gives the nil slice.  Only the last of several members with the name counts.\<close>

definition elems_of :: "bytes \<Rightarrow> bytes list option" where
  "elems_of r = (if r = [] \<or> r = ''null'' then Some [] else if hd r = CHR ''['' then Some (raw_elems r) else None)"

definition elems_field :: "string \<Rightarrow> (string \<times> bytes) list \<Rightarrow> bytes list option" where
  "elems_field name ms = elems_of (raw_field name ms)"

text \<open>The entries of a map field; the outer \<open>None\<close> is a type error, the inner one the nil map.\<close>

definition entries_of :: "bytes \<Rightarrow> (string \<times> bytes) list option option" where
  "entries_of r = (if r = [] \<or> r = ''null'' then Some None
     else if hd r = CHR ''{'' then Some (Some (map raw_member (raw_elems r))) else None)"

definition entries_field :: "string \<Rightarrow> (string \<times> bytes) list \<Rightarrow> (string \<times> bytes) list option option" where
  "entries_field name ms = entries_of (raw_field name ms)"

text \<open>A raw message written out again: compact, with the HTML characters escaped; an invalid text is an error.\<close>

fun compact_text :: "bool \<Rightarrow> string \<Rightarrow> string" where
  "compact_text q [] = []"
| "compact_text False (c # s) = (if is_ws c then compact_text False s else c # compact_text (c = CHR 0x22) s)"
| "compact_text True (c # s) =
     (if c = CHR 0x5C then c # (case s of [] \<Rightarrow> [] | e # s' \<Rightarrow> e # compact_text True s')
      else if c \<in> set ''<>&'' then u_escape (byte c) @ compact_text True s
      else if c = CHR 0xE2 \<and> take 2 s = [CHR 0x80, CHR 0xA8] then u_escape 8232 @ compact_text True (drop 2 s)
      else if c = CHR 0xE2 \<and> take 2 s = [CHR 0x80, CHR 0xA9] then u_escape 8233 @ compact_text True (drop 2 s)
      else c # compact_text (c \<noteq> CHR 0x22) s)"

definition marshal_raw :: "bytes \<Rightarrow> bytes option" where
  "marshal_raw r = (if r = [] then Some ''null'' else map_option (compact_text False) (json_text r))"

text \<open>An object and an array written out: members in the order given, their texts as they are.\<close>

definition fields_text :: "(string \<times> bytes) list \<Rightarrow> bytes" where
  "fields_text ms = ''{'' @ joined '','' (map (\<lambda>(k, t). json_quote k @ '':'' @ t) ms) @ ''}''"

definition array_text :: "bytes list \<Rightarrow> bytes" where
  "array_text ts = ''['' @ joined '','' ts @ '']''"

section \<open>Maps and sets in key order\<close>

text \<open>A Go map, and a set kept as a map to empty structs, as lists without repetition in key order: equal maps are equal lists.\<close>

definition mput :: "string \<Rightarrow> 'a \<Rightarrow> (string \<times> 'a) list \<Rightarrow> (string \<times> 'a) list" where
  "mput k v m = insort_key fst (k, v) (filter (\<lambda>(k', _). k' \<noteq> k) m)"

definition sput :: "string \<Rightarrow> string list \<Rightarrow> string list" where
  "sput k xs = insort k (filter (\<lambda>k'. k' \<noteq> k) xs)"

definition sdel :: "string \<Rightarrow> string list \<Rightarrow> string list" where
  "sdel k xs = filter (\<lambda>k'. k' \<noteq> k) xs"

lemma set_sput [simp]: "set (sput k xs) = insert k (set xs)"
  by (auto simp: sput_def set_insort_key)

lemma set_sdel [simp]: "set (sdel k xs) = set xs - {k}"
  by (auto simp: sdel_def)

lemma map_of_insort: "k \<notin> fst ` set m \<Longrightarrow> map_of (insort_key fst (k, v) m) k' = (if k' = k then Some v else map_of m k')"
  by (induction m) auto

lemma map_of_mput [simp]: "map_of (mput k v m) k' = (if k' = k then Some v else map_of m k')"
proof -
  have "map_of (mput k v m) k' = (if k' = k then Some v else map_of (filter (\<lambda>(k', _). k' \<noteq> k) m) k')"
    unfolding mput_def by (rule map_of_insort) auto
  then show ?thesis by (simp add: map_of_filter_ne)
qed

end
