(* ===== verification/Replay.thy ===== *)
theory Replay
  imports Go_Struct Job_Event
begin

text \<open>
  Rebuilding the execution context of a job from its events, \<open>internal/agent/replay/replay.go\<close>, with and without a
  snapshot, the snapshots themselves, the event iterator of \<open>history.go\<close>, and the worker's snapshot job.
  Sets and maps are the ordered lists of \<open>Go_Struct\<close>; the two maps that a snapshot may leave nil are options.
\<close>

section \<open>The context\<close>

record StateChangeRecord =
  SC_ResourceType :: string
  SC_ResourceID :: string
  SC_Operation :: string
  SC_StepID :: string
  SC_ToolName :: string
  SC_Version :: string
  SC_Etag :: string
  SC_ExternalRef :: string

text \<open>A phase is a Go \<open>int\<close>, read back from a snapshot without a check.\<close>

type_synonym ExecutionPhase = int

abbreviation (input) PhaseUnknown :: ExecutionPhase where "PhaseUnknown \<equiv> 0"
abbreviation (input) PhasePlanning :: ExecutionPhase where "PhasePlanning \<equiv> 1"
abbreviation (input) PhaseExecuting :: ExecutionPhase where "PhaseExecuting \<equiv> 2"
abbreviation (input) PhaseCompleted :: ExecutionPhase where "PhaseCompleted \<equiv> 3"
abbreviation (input) PhaseFailed :: ExecutionPhase where "PhaseFailed \<equiv> 4"
abbreviation (input) PhaseCancelled :: ExecutionPhase where "PhaseCancelled \<equiv> 5"
abbreviation (input) PhaseWaiting :: ExecutionPhase where "PhaseWaiting \<equiv> 6"

record ReplayContext =
  RC_TaskGraphState :: bytes
  RC_CursorNode :: string
  RC_PayloadResults :: bytes
  RC_CompletedNodeIDs :: "string list"
  RC_PayloadResultsByNode :: "(string \<times> bytes) list"
  RC_CompletedCommandIDs :: "string list"
  RC_CommandResults :: "(string \<times> bytes) list"
  RC_CompletedToolInvocations :: "(string \<times> bytes) list"
  RC_PendingToolInvocations :: "string list"
  RC_StateChangesByStep :: "(string \<times> StateChangeRecord list) list"
  RC_ApprovedCorrelationKeys :: "string list"
  RC_WorkingMemorySnapshot :: bytes
  RC_PendingWaitNode :: string
  RC_Phase :: ExecutionPhase
  RC_RecordedTime :: "(string \<times> int) list option"
  RC_RecordedRandom :: "(string \<times> bytes) list"
  RC_RecordedUUID :: "(string \<times> string) list option"
  RC_RecordedHTTP :: "(string \<times> bytes) list"

definition ReplayContext0 :: ReplayContext where
  "ReplayContext0 = \<lparr>RC_TaskGraphState = [], RC_CursorNode = [], RC_PayloadResults = [], RC_CompletedNodeIDs = [],
     RC_PayloadResultsByNode = [], RC_CompletedCommandIDs = [], RC_CommandResults = [], RC_CompletedToolInvocations = [],
     RC_PendingToolInvocations = [], RC_StateChangesByStep = [], RC_ApprovedCorrelationKeys = [],
     RC_WorkingMemorySnapshot = [], RC_PendingWaitNode = [], RC_Phase = PhaseUnknown, RC_RecordedTime = Some [],
     RC_RecordedRandom = [], RC_RecordedUUID = Some [], RC_RecordedHTTP = []\<rparr>"

section \<open>One event\<close>

text \<open>One function per case of the switch: a payload that does not decode leaves the context alone.\<close>

definition on_tool_started :: "bytes \<Rightarrow> ReplayContext \<Rightarrow> ReplayContext" where
  "on_tool_started b rc = (case Option.bind (decode_object b) (string_field ''idempotency_key'') of
       None \<Rightarrow> rc
     | Some key \<Rightarrow> if key = [] then rc
         else rc\<lparr>RC_PendingToolInvocations := sput key (RC_PendingToolInvocations rc)\<rparr>)"

definition on_plan_generated :: "bytes \<Rightarrow> ReplayContext \<Rightarrow> ReplayContext" where
  "on_plan_generated b rc = (case decode_object b of None \<Rightarrow> rc
     | Some ms \<Rightarrow> if raw_field ''task_graph'' ms = [] then rc else rc\<lparr>RC_TaskGraphState := raw_field ''task_graph'' ms\<rparr>)"

definition on_node_finished :: "bytes \<Rightarrow> ReplayContext \<Rightarrow> ReplayContext" where
  "on_node_finished b rc = (case decode_object b of None \<Rightarrow> rc
     | Some ms \<Rightarrow>
         (case (string_field ''node_id'' ms, string_field ''step_id'' ms, string_field ''result_type'' ms) of
            (Some nodeID, Some stepID, Some resultType) \<Rightarrow>
              if resultType \<notin> set ['''', ''success'', ''pure'', ''side_effect_committed'', ''compensated''] then rc
              else (let results = raw_field ''payload_results'' ms;
                        rc1 = rc\<lparr>RC_CompletedNodeIDs := sput (if stepID \<noteq> [] then stepID else nodeID) (RC_CompletedNodeIDs rc),
                                 RC_CursorNode := nodeID\<rparr>
                    in if results = [] then rc1
                       else rc1\<lparr>RC_PayloadResults := results,
                                RC_PayloadResultsByNode := mput nodeID results (RC_PayloadResultsByNode rc1)\<rparr>)
          | _ \<Rightarrow> rc))"

definition on_command_committed :: "bytes \<Rightarrow> ReplayContext \<Rightarrow> ReplayContext" where
  "on_command_committed b rc = (case decode_object b of None \<Rightarrow> rc
     | Some ms \<Rightarrow>
         (case (string_field ''node_id'' ms, string_field ''command_id'' ms) of
            (Some nodeID, Some commandID) \<Rightarrow>
              (let cmdID = (if commandID = [] then nodeID else commandID); result = raw_field ''result'' ms;
                   rc1 = rc\<lparr>RC_CompletedCommandIDs := sput cmdID (RC_CompletedCommandIDs rc)\<rparr>
               in if result = [] then rc1 else rc1\<lparr>RC_CommandResults := mput cmdID result (RC_CommandResults rc1)\<rparr>)
          | _ \<Rightarrow> rc))"

definition on_tool_finished :: "bytes \<Rightarrow> ReplayContext \<Rightarrow> ReplayContext" where
  "on_tool_finished b rc = (case decode_object b of None \<Rightarrow> rc
     | Some ms \<Rightarrow>
         (case (string_field ''idempotency_key'' ms, string_field ''outcome'' ms) of
            (Some key, Some outcome) \<Rightarrow>
              (let rc1 = (if key \<noteq> [] then rc\<lparr>RC_PendingToolInvocations := sdel key (RC_PendingToolInvocations rc)\<rparr> else rc);
                   result = raw_field ''result'' ms
               in if outcome \<noteq> ''success'' \<or> key = [] then rc1
                  else rc1\<lparr>RC_CompletedToolInvocations :=
                        mput key (if result \<noteq> [] then result else ''{}'') (RC_CompletedToolInvocations rc1)\<rparr>)
          | _ \<Rightarrow> rc))"

definition decode_change :: "bytes \<Rightarrow> StateChangeRecord option" where
  "decode_change b = (case decode_object b of None \<Rightarrow> None
     | Some ms \<Rightarrow>
         (case those (map (\<lambda>n. string_field n ms) [''resource_type'', ''resource_id'', ''operation'', ''step_id'', ''tool_name'',
                 ''version'', ''etag'', ''external_ref'']) of
            Some [a, b, c, d, e, f, g, h] \<Rightarrow> Some \<lparr>SC_ResourceType = a, SC_ResourceID = b, SC_Operation = c, SC_StepID = d,
               SC_ToolName = e, SC_Version = f, SC_Etag = g, SC_ExternalRef = h\<rparr>
          | _ \<Rightarrow> None))"

definition decode_changes :: "bytes list option \<Rightarrow> StateChangeRecord list option" where
  "decode_changes rs = Option.bind rs (\<lambda>rs. those (map decode_change rs))"

definition on_state_changed :: "bytes \<Rightarrow> ReplayContext \<Rightarrow> ReplayContext" where
  "on_state_changed b rc = (case decode_object b of None \<Rightarrow> rc
     | Some ms \<Rightarrow>
         (case (string_field ''node_id'' ms, decode_changes (elems_field ''state_changes'' ms)) of
            (Some nodeID, Some changes) \<Rightarrow>
              if nodeID = [] \<or> changes = [] then rc
              else rc\<lparr>RC_StateChangesByStep := mput nodeID
                    ((case map_of (RC_StateChangesByStep rc) nodeID of None \<Rightarrow> [] | Some cs \<Rightarrow> cs) @ changes)
                    (RC_StateChangesByStep rc)\<rparr>
          | _ \<Rightarrow> rc))"

text \<open>\<open>ParseJobWaitingPayload\<close>: the node id and the resumption context; \<open>None\<close> is an error.\<close>

definition ParseJobWaitingPayload :: "bytes \<Rightarrow> (string \<times> bytes) option" where
  "ParseJobWaitingPayload b = (if b = [] then Some ([], [])
     else (case decode_object b of None \<Rightarrow> None
       | Some ms \<Rightarrow>
           (case those (map (\<lambda>n. string_field n ms) [''node_id'', ''wait_type'', ''correlation_key'', ''wait_kind'', ''reason'', ''expires_at'']) of
              Some (nodeID # _) \<Rightarrow> Some (nodeID, raw_field ''resumption_context'' ms)
            | _ \<Rightarrow> None)))"

definition working_memory :: "bytes \<Rightarrow> bytes option" where
  "working_memory ctx = (case unmarshal_map ctx of None \<Rightarrow> None
     | Some resumption \<Rightarrow>
         (case resumption ''memory_snapshot'' of
            Some (JObj ms) \<Rightarrow>
              (case map_of (rev ms) ''working_memory'' of
                 None \<Rightarrow> None | Some JNull \<Rightarrow> None
               | Some (JStr s) \<Rightarrow> Some s
               | Some j \<Rightarrow> Some (json_marshal j))
          | _ \<Rightarrow> None))"

definition on_job_waiting :: "bytes \<Rightarrow> ReplayContext \<Rightarrow> ReplayContext" where
  "on_job_waiting b rc = (case ParseJobWaitingPayload b of None \<Rightarrow> rc
     | Some (nodeID, ctx) \<Rightarrow>
         if ctx = [] then rc
         else (let rc1 = (if nodeID \<noteq> [] then rc\<lparr>RC_PendingWaitNode := nodeID\<rparr> else rc)
               in case working_memory ctx of None \<Rightarrow> rc1 | Some wm \<Rightarrow> rc1\<lparr>RC_WorkingMemorySnapshot := wm\<rparr>))"

definition on_wait_completed :: "bytes \<Rightarrow> ReplayContext \<Rightarrow> ReplayContext" where
  "on_wait_completed b rc = (case decode_object b of None \<Rightarrow> rc
     | Some ms \<Rightarrow>
         (case (string_field ''node_id'' ms, string_field ''correlation_key'' ms) of
            (Some nodeID, Some key) \<Rightarrow>
              if nodeID = [] then rc
              else (let p = raw_field ''payload'' ms
                    in rc\<lparr>RC_CompletedNodeIDs := sput nodeID (RC_CompletedNodeIDs rc), RC_CursorNode := nodeID,
                          RC_CompletedCommandIDs := sput nodeID (RC_CompletedCommandIDs rc), RC_PendingWaitNode := [],
                          RC_ApprovedCorrelationKeys :=
                            (if key \<noteq> [] then sput key (RC_ApprovedCorrelationKeys rc) else RC_ApprovedCorrelationKeys rc),
                          RC_CommandResults := mput nodeID (if p \<noteq> [] then p else ''{}'') (RC_CommandResults rc)\<rparr>)
          | _ \<Rightarrow> rc))"

text \<open>The next two write to a map that may be nil: \<open>None\<close> is the panic of that write.\<close>

definition on_timer_fired :: "bytes \<Rightarrow> ReplayContext \<Rightarrow> ReplayContext option" where
  "on_timer_fired b rc = (case decode_object b of None \<Rightarrow> Some rc
     | Some ms \<Rightarrow>
         (case (string_field ''effect_id'' ms, int_field ''unix_nano'' ms) of
            (Some i, Some t) \<Rightarrow>
              if i = [] then Some rc else map_option (\<lambda>m. rc\<lparr>RC_RecordedTime := Some (mput i t m)\<rparr>) (RC_RecordedTime rc)
          | _ \<Rightarrow> Some rc))"

definition on_uuid_recorded :: "bytes \<Rightarrow> ReplayContext \<Rightarrow> ReplayContext option" where
  "on_uuid_recorded b rc = (case decode_object b of None \<Rightarrow> Some rc
     | Some ms \<Rightarrow>
         (case (string_field ''effect_id'' ms, string_field ''uuid'' ms) of
            (Some i, Some u) \<Rightarrow>
              if i = [] then Some rc else map_option (\<lambda>m. rc\<lparr>RC_RecordedUUID := Some (mput i u m)\<rparr>) (RC_RecordedUUID rc)
          | _ \<Rightarrow> Some rc))"

definition on_random_recorded :: "bytes \<Rightarrow> ReplayContext \<Rightarrow> ReplayContext" where
  "on_random_recorded b rc = (case decode_object b of None \<Rightarrow> rc
     | Some ms \<Rightarrow>
         (case string_field ''effect_id'' ms of
            Some i \<Rightarrow> if i = [] then rc
              else rc\<lparr>RC_RecordedRandom := mput i (raw_field ''values'' ms) (RC_RecordedRandom rc)\<rparr>
          | None \<Rightarrow> rc))"

definition on_http_recorded :: "bytes \<Rightarrow> ReplayContext \<Rightarrow> ReplayContext" where
  "on_http_recorded b rc = (case decode_object b of None \<Rightarrow> rc
     | Some ms \<Rightarrow>
         (case string_field ''effect_id'' ms of
            Some i \<Rightarrow> if i = [] then rc
              else rc\<lparr>RC_RecordedHTTP := mput i (raw_field ''response'' ms) (RC_RecordedHTTP rc)\<rparr>
          | None \<Rightarrow> rc))"

definition replay_event :: "JobEvent \<Rightarrow> ReplayContext \<Rightarrow> ReplayContext option" where
  "replay_event e rc =
     (let t = Ev_Type e; b = Ev_Payload e
      in if t = ToolInvocationStarted then Some (on_tool_started b rc)
         else if t = PlanGenerated then Some (on_plan_generated b rc)
         else if t = NodeFinished then Some (on_node_finished b rc)
         else if t = CommandCommitted then Some (on_command_committed b rc)
         else if t = ToolInvocationFinished then Some (on_tool_finished b rc)
         else if t = StateChanged then Some (on_state_changed b rc)
         else if t = JobWaiting then Some (on_job_waiting b rc)
         else if t = WaitCompleted then Some (on_wait_completed b rc)
         else if t = TimerFired then on_timer_fired b rc
         else if t = RandomRecorded then Some (on_random_recorded b rc)
         else if t = UUIDRecorded then on_uuid_recorded b rc
         else if t = HTTPRecorded then Some (on_http_recorded b rc)
         else Some rc)"

fun replay_events :: "JobEvent list \<Rightarrow> ReplayContext \<Rightarrow> ReplayContext option" where
  "replay_events [] rc = Some rc"
| "replay_events (e # es) rc = Option.bind (replay_event e rc) (replay_events es)"

definition phase_of :: "EventType \<Rightarrow> ReplayContext \<Rightarrow> ExecutionPhase" where
  "phase_of lastType rc =
     (if lastType = JobCompleted then PhaseCompleted else if lastType = JobFailed then PhaseFailed
      else if lastType = JobCancelled then PhaseCancelled else if lastType = JobWaiting then PhaseWaiting
      else if RC_TaskGraphState rc \<noteq> [] then PhaseExecuting else PhasePlanning)"

section \<open>The builder\<close>

text \<open>The part of the job store the builder reads; a snapshot is a version and its bytes.\<close>

record ReplayStore =
  RS_ListEvents :: "string \<Rightarrow> string + JobEvent list"
  RS_GetLatestSnapshot :: "string \<Rightarrow> string + (int \<times> bytes) option"

datatype replay_error = ListFailed string | NilMapPanic

text \<open>\<open>Inr None\<close> is the nil context without an error.\<close>

definition BuildFromEvents :: "ReplayStore option \<Rightarrow> string \<Rightarrow> replay_error + ReplayContext option" where
  "BuildFromEvents st jobID = (case st of None \<Rightarrow> Inr None
     | Some store \<Rightarrow>
         (case RS_ListEvents store jobID of Inl e \<Rightarrow> Inl (ListFailed e)
          | Inr events \<Rightarrow>
              if events = [] then Inr None
              else (case replay_events events ReplayContext0 of None \<Rightarrow> Inl NilMapPanic
                    | Some rc \<Rightarrow>
                        if RC_TaskGraphState rc = [] then Inr None
                        else Inr (Some (rc\<lparr>RC_Phase := phase_of (Ev_Type (last events)) rc\<rparr>)))))"

section \<open>Snapshots\<close>

definition decode_strings :: "bytes list option \<Rightarrow> string list option" where
  "decode_strings rs = Option.bind rs (\<lambda>rs. those (map (set_string (Some [])) rs))"

definition decode_entries :: "(bytes \<Rightarrow> 'a option) \<Rightarrow> (string \<times> bytes) list option option \<Rightarrow> (string \<times> 'a) list option option" where
  "decode_entries f es = (case es of None \<Rightarrow> None | Some None \<Rightarrow> Some None
     | Some (Some ms) \<Rightarrow> map_option (\<lambda>vs. Some (fold (\<lambda>(k, v). mput k v) (zip (map fst ms) vs) [])) (those (map (\<lambda>(k, r). f r) ms)))"

abbreviation (input) raws_of :: "string \<Rightarrow> (string \<times> bytes) list \<Rightarrow> (string \<times> bytes) list option option" where
  "raws_of name ms \<equiv> decode_entries Some (entries_field name ms)"

abbreviation (input) strings_of :: "string \<Rightarrow> (string \<times> bytes) list \<Rightarrow> string list option" where
  "strings_of name ms \<equiv> decode_strings (elems_field name ms)"

definition map_or_empty :: "'a list option option \<Rightarrow> 'a list" where
  "map_or_empty m = (case m of Some (Some x) \<Rightarrow> x | _ \<Rightarrow> [])"

definition string_or_empty :: "string option \<Rightarrow> string" where
  "string_or_empty x = (case x of None \<Rightarrow> [] | Some s \<Rightarrow> s)"

definition set_of :: "string list option \<Rightarrow> string list" where
  "set_of xs = (case xs of None \<Rightarrow> [] | Some ys \<Rightarrow> fold sput ys [])"

text \<open>Every field of the payload must decode; one that does not is an error.\<close>

definition payload_ok :: "(string \<times> bytes) list \<Rightarrow> bool" where
  "payload_ok ms \<longleftrightarrow> list_all (\<lambda>n. string_field n ms \<noteq> None) [''cursor_node'', ''pending_wait_node'']
     \<and> list_all (\<lambda>n. strings_of n ms \<noteq> None)
         [''completed_node_ids'', ''completed_command_ids'', ''pending_tool_invocations'', ''approved_correlation_keys'']
     \<and> list_all (\<lambda>n. entries_field n ms \<noteq> None)
         [''payload_results_by_node'', ''command_results'', ''completed_tool_invocations'', ''state_changes_by_step'',
          ''recorded_random'', ''recorded_http'']
     \<and> int_field ''phase'' ms \<noteq> None
     \<and> decode_entries (set_int (Some 0)) (entries_field ''recorded_time'' ms) \<noteq> None
     \<and> decode_entries (set_string (Some [])) (entries_field ''recorded_uuid'' ms) \<noteq> None"

text \<open>The changes of a step are decoded on their own: a step whose changes do not decode is left out.\<close>

definition decode_step_changes :: "(string \<times> bytes) list \<Rightarrow> (string \<times> StateChangeRecord list) list" where
  "decode_step_changes es = fold (\<lambda>(k, r). case decode_changes (elems_of r) of None \<Rightarrow> id | Some cs \<Rightarrow> mput k cs) es []"

definition deserializeSnapshot :: "bytes \<Rightarrow> ReplayContext option" where
  "deserializeSnapshot b = (if b = [] then None else (case decode_object b of None \<Rightarrow> None
     | Some ms \<Rightarrow>
         if \<not> payload_ok ms then None
         else Some \<lparr>RC_TaskGraphState = raw_field ''task_graph_state'' ms,
           RC_CursorNode = string_or_empty (string_field ''cursor_node'' ms),
           RC_PayloadResults = raw_field ''payload_results'' ms,
           RC_CompletedNodeIDs = set_of (strings_of ''completed_node_ids'' ms),
           RC_PayloadResultsByNode = map_or_empty (raws_of ''payload_results_by_node'' ms),
           RC_CompletedCommandIDs = set_of (strings_of ''completed_command_ids'' ms),
           RC_CommandResults = map_or_empty (raws_of ''command_results'' ms),
           RC_CompletedToolInvocations = map_or_empty (raws_of ''completed_tool_invocations'' ms),
           RC_PendingToolInvocations = set_of (strings_of ''pending_tool_invocations'' ms),
           RC_StateChangesByStep = decode_step_changes (map_or_empty (raws_of ''state_changes_by_step'' ms)),
           RC_ApprovedCorrelationKeys = set_of (strings_of ''approved_correlation_keys'' ms),
           RC_WorkingMemorySnapshot = raw_field ''working_memory_snapshot'' ms,
           RC_PendingWaitNode = string_or_empty (string_field ''pending_wait_node'' ms),
           RC_Phase = (case int_field ''phase'' ms of None \<Rightarrow> 0 | Some n \<Rightarrow> n),
           RC_RecordedTime = (case decode_entries (set_int (Some 0)) (entries_field ''recorded_time'' ms) of Some m \<Rightarrow> m | None \<Rightarrow> None),
           RC_RecordedRandom = map_or_empty (raws_of ''recorded_random'' ms),
           RC_RecordedUUID = (case decode_entries (set_string (Some [])) (entries_field ''recorded_uuid'' ms) of Some m \<Rightarrow> m | None \<Rightarrow> None),
           RC_RecordedHTTP = map_or_empty (raws_of ''recorded_http'' ms)\<rparr>))"

text \<open>A map written out; \<open>None\<close> when a value has no text.\<close>

definition map_text :: "('a \<Rightarrow> bytes option) \<Rightarrow> (string \<times> 'a) list \<Rightarrow> bytes option" where
  "map_text f m = map_option (\<lambda>ts. fields_text (zip (map fst m) ts)) (those (map (\<lambda>(k, v). f v) m))"

definition change_text :: "StateChangeRecord \<Rightarrow> bytes" where
  "change_text c = fields_text ([(''resource_type'', json_quote (SC_ResourceType c)), (''resource_id'', json_quote (SC_ResourceID c)),
       (''operation'', json_quote (SC_Operation c))]
     @ map (\<lambda>(k, v). (k, json_quote v)) (filter (\<lambda>(k, v). v \<noteq> [])
         [(''step_id'', SC_StepID c), (''tool_name'', SC_ToolName c), (''version'', SC_Version c), (''etag'', SC_Etag c),
          (''external_ref'', SC_ExternalRef c)]))"

text \<open>A field of the written payload: its name, whether it is empty and so left out, and its text, \<open>None\<close> if it has none.\<close>

definition snapshot_fields :: "ReplayContext \<Rightarrow> (string \<times> bool \<times> bytes option) list" where
  "snapshot_fields rc =
     [(''task_graph_state'', RC_TaskGraphState rc = [], marshal_raw (RC_TaskGraphState rc)),
      (''cursor_node'', RC_CursorNode rc = [], Some (json_quote (RC_CursorNode rc))),
      (''payload_results'', RC_PayloadResults rc = [], marshal_raw (RC_PayloadResults rc)),
      (''completed_node_ids'', RC_CompletedNodeIDs rc = [], Some (array_text (map json_quote (RC_CompletedNodeIDs rc)))),
      (''payload_results_by_node'', RC_PayloadResultsByNode rc = [], map_text marshal_raw (RC_PayloadResultsByNode rc)),
      (''completed_command_ids'', RC_CompletedCommandIDs rc = [], Some (array_text (map json_quote (RC_CompletedCommandIDs rc)))),
      (''command_results'', RC_CommandResults rc = [], map_text marshal_raw (RC_CommandResults rc)),
      (''completed_tool_invocations'', RC_CompletedToolInvocations rc = [], map_text marshal_raw (RC_CompletedToolInvocations rc)),
      (''pending_tool_invocations'', RC_PendingToolInvocations rc = [], Some (array_text (map json_quote (RC_PendingToolInvocations rc)))),
      (''state_changes_by_step'', RC_StateChangesByStep rc = [],
         map_text (\<lambda>cs. Some (array_text (map change_text cs))) (RC_StateChangesByStep rc)),
      (''approved_correlation_keys'', RC_ApprovedCorrelationKeys rc = [], Some (array_text (map json_quote (RC_ApprovedCorrelationKeys rc)))),
      (''working_memory_snapshot'', RC_WorkingMemorySnapshot rc = [], marshal_raw (RC_WorkingMemorySnapshot rc)),
      (''pending_wait_node'', RC_PendingWaitNode rc = [], Some (json_quote (RC_PendingWaitNode rc))),
      (''phase'', RC_Phase rc = 0, Some (dec_int (RC_Phase rc))),
      (''recorded_time'', RC_RecordedTime rc \<in> {None, Some []}, map_text (\<lambda>t. Some (dec_int t)) (map_or_empty (Some (RC_RecordedTime rc)))),
      (''recorded_random'', RC_RecordedRandom rc = [], map_text marshal_raw (RC_RecordedRandom rc)),
      (''recorded_uuid'', RC_RecordedUUID rc \<in> {None, Some []}, map_text (\<lambda>u. Some (json_quote u)) (map_or_empty (Some (RC_RecordedUUID rc)))),
      (''recorded_http'', RC_RecordedHTTP rc = [], map_text marshal_raw (RC_RecordedHTTP rc))]"

text \<open>
  The snapshot of a context, empty for the nil context; \<open>None\<close> when a raw message in it is not JSON, as the working
  memory may be.  Sets are written in key order; the code writes them in the order of a map's iteration.
\<close>

definition SerializeReplayContext :: "ReplayContext option \<Rightarrow> bytes option" where
  "SerializeReplayContext r = (case r of None \<Rightarrow> Some []
     | Some rc \<Rightarrow>
         (let fs = filter (\<lambda>(n, omit, t). \<not> omit) (snapshot_fields rc)
          in map_option (\<lambda>ts. fields_text (zip (map fst fs) ts)) (those (map (\<lambda>(n, omit, t). t) fs))))"

definition applyIncrementalEvents :: "ReplayContext option \<Rightarrow> JobEvent list \<Rightarrow> ReplayContext option" where
  "applyIncrementalEvents r events = (let rc = (case r of None \<Rightarrow> ReplayContext0 | Some rc \<Rightarrow> rc)
     in case replay_events events rc of None \<Rightarrow> None
        | Some rc' \<Rightarrow> Some (rc'\<lparr>RC_Phase := phase_of (if events = [] then [] else Ev_Type (last events)) rc'\<rparr>))"

definition clamp_version :: "int \<Rightarrow> nat \<Rightarrow> nat" where
  "clamp_version v n = (if v < 0 then 0 else if v > int n then n else nat v)"

definition BuildFromSnapshot :: "ReplayStore option \<Rightarrow> string \<Rightarrow> replay_error + ReplayContext option" where
  "BuildFromSnapshot st jobID = (case st of None \<Rightarrow> Inr None
     | Some store \<Rightarrow>
         (case RS_GetLatestSnapshot store jobID of
            Inl _ \<Rightarrow> BuildFromEvents st jobID
          | Inr None \<Rightarrow> BuildFromEvents st jobID
          | Inr (Some (version, snapshot)) \<Rightarrow>
              (case deserializeSnapshot snapshot of None \<Rightarrow> BuildFromEvents st jobID
               | Some rc \<Rightarrow>
                   (case RS_ListEvents store jobID of Inl e \<Rightarrow> Inl (ListFailed e)
                    | Inr events \<Rightarrow>
                        (let incremental = drop (clamp_version version (length events)) events
                         in if incremental = [] then Inr (Some rc)
                            else (case applyIncrementalEvents (Some rc) incremental of
                                None \<Rightarrow> Inl NilMapPanic | Some rc' \<Rightarrow> Inr (Some rc')))))))"

text \<open>
  The worker's snapshot job, \<open>triggerSnapshotsForHighEventJobs\<close> of \<open>internal/app/worker/app.go\<close>: the context is built from one read of
  the stream, the version is taken from a second one.
\<close>

definition snapshot_job :: "JobEvent list \<Rightarrow> JobEvent list \<Rightarrow> (int \<times> bytes) option" where
  "snapshot_job first_read second_read =
     (case BuildFromEvents (Some \<lparr>RS_ListEvents = \<lambda>_. Inr first_read, RS_GetLatestSnapshot = \<lambda>_. Inr None\<rparr>) [] of
        Inr (Some rc) \<Rightarrow> map_option (Pair (int (length second_read))) (SerializeReplayContext (Some rc))
      | _ \<Rightarrow> None)"

section \<open>The iterator\<close>

record JobHistory =
  JH_events :: "JobEvent list"
  JH_idx :: nat

definition NewJobHistory :: "ReplayStore option \<Rightarrow> string \<Rightarrow> string + JobHistory" where
  "NewJobHistory st jobID = (case st of None \<Rightarrow> Inr \<lparr>JH_events = [], JH_idx = 0\<rparr>
     | Some store \<Rightarrow>
         if jobID = [] then Inr \<lparr>JH_events = [], JH_idx = 0\<rparr>
         else (case RS_ListEvents store jobID of Inl e \<Rightarrow> Inl e | Inr es \<Rightarrow> Inr \<lparr>JH_events = es, JH_idx = 0\<rparr>))"

definition JH_Next :: "JobHistory \<Rightarrow> JobEvent option \<times> JobHistory" where
  "JH_Next h = (if JH_idx h \<ge> length (JH_events h) then (None, h)
     else (Some (JH_events h ! JH_idx h), h\<lparr>JH_idx := JH_idx h + 1\<rparr>))"

definition JH_Peek :: "JobHistory \<Rightarrow> JobEvent option" where
  "JH_Peek h = (if JH_idx h \<ge> length (JH_events h) then None else Some (JH_events h ! JH_idx h))"

definition JH_Index :: "JobHistory \<Rightarrow> nat" where
  "JH_Index h = JH_idx h"

definition JH_Len :: "JobHistory \<Rightarrow> nat" where
  "JH_Len h = length (JH_events h)"

section \<open>Nil maps\<close>

text \<open>The same context up to the maps a snapshot may leave nil.\<close>

definition with_maps :: "(string \<times> int) list option \<Rightarrow> (string \<times> string) list option \<Rightarrow> ReplayContext \<Rightarrow> ReplayContext" where
  "with_maps t u rc = rc\<lparr>RC_RecordedTime := t, RC_RecordedUUID := u\<rparr>"

definition nil_or :: "'a list option \<Rightarrow> 'a list option \<Rightarrow> bool" where
  "nil_or x y \<longleftrightarrow> x = y \<or> x = None \<and> y = Some []"

definition same_context :: "ReplayContext \<Rightarrow> ReplayContext \<Rightarrow> bool" where
  "same_context rc rc' \<longleftrightarrow> rc = with_maps (RC_RecordedTime rc) (RC_RecordedUUID rc) rc'
     \<and> nil_or (RC_RecordedTime rc) (RC_RecordedTime rc') \<and> nil_or (RC_RecordedUUID rc) (RC_RecordedUUID rc')"

lemma with_maps_simps [simp]:
  "RC_RecordedTime (with_maps t u rc) = t" "RC_RecordedUUID (with_maps t u rc) = u"
  "RC_TaskGraphState (with_maps t u rc) = RC_TaskGraphState rc"
  "with_maps t u (with_maps t' u' rc) = with_maps t u rc"
  "with_maps t u (rc\<lparr>RC_Phase := ph\<rparr>) = (with_maps t u rc)\<lparr>RC_Phase := ph\<rparr>"
  by (simp_all add: with_maps_def)

text \<open>Every event but two neither reads nor writes these maps.\<close>

lemma on_event_with_maps:
  "on_tool_started b (with_maps t u rc) = with_maps t u (on_tool_started b rc)"
  "on_plan_generated b (with_maps t u rc) = with_maps t u (on_plan_generated b rc)"
  "on_node_finished b (with_maps t u rc) = with_maps t u (on_node_finished b rc)"
  "on_command_committed b (with_maps t u rc) = with_maps t u (on_command_committed b rc)"
  "on_tool_finished b (with_maps t u rc) = with_maps t u (on_tool_finished b rc)"
  "on_state_changed b (with_maps t u rc) = with_maps t u (on_state_changed b rc)"
  "on_job_waiting b (with_maps t u rc) = with_maps t u (on_job_waiting b rc)"
  "on_wait_completed b (with_maps t u rc) = with_maps t u (on_wait_completed b rc)"
  "on_random_recorded b (with_maps t u rc) = with_maps t u (on_random_recorded b rc)"
  "on_http_recorded b (with_maps t u rc) = with_maps t u (on_http_recorded b rc)"
  by (simp_all add: with_maps_def on_tool_started_def on_plan_generated_def on_node_finished_def on_command_committed_def
      on_tool_finished_def on_state_changed_def on_job_waiting_def on_wait_completed_def on_random_recorded_def
      on_http_recorded_def Let_def split: option.split prod.split)

lemma on_event_maps:
  "RC_RecordedTime (on_tool_started b rc) = RC_RecordedTime rc \<and> RC_RecordedUUID (on_tool_started b rc) = RC_RecordedUUID rc"
  "RC_RecordedTime (on_plan_generated b rc) = RC_RecordedTime rc \<and> RC_RecordedUUID (on_plan_generated b rc) = RC_RecordedUUID rc"
  "RC_RecordedTime (on_node_finished b rc) = RC_RecordedTime rc \<and> RC_RecordedUUID (on_node_finished b rc) = RC_RecordedUUID rc"
  "RC_RecordedTime (on_command_committed b rc) = RC_RecordedTime rc \<and> RC_RecordedUUID (on_command_committed b rc) = RC_RecordedUUID rc"
  "RC_RecordedTime (on_tool_finished b rc) = RC_RecordedTime rc \<and> RC_RecordedUUID (on_tool_finished b rc) = RC_RecordedUUID rc"
  "RC_RecordedTime (on_state_changed b rc) = RC_RecordedTime rc \<and> RC_RecordedUUID (on_state_changed b rc) = RC_RecordedUUID rc"
  "RC_RecordedTime (on_job_waiting b rc) = RC_RecordedTime rc \<and> RC_RecordedUUID (on_job_waiting b rc) = RC_RecordedUUID rc"
  "RC_RecordedTime (on_wait_completed b rc) = RC_RecordedTime rc \<and> RC_RecordedUUID (on_wait_completed b rc) = RC_RecordedUUID rc"
  "RC_RecordedTime (on_random_recorded b rc) = RC_RecordedTime rc \<and> RC_RecordedUUID (on_random_recorded b rc) = RC_RecordedUUID rc"
  "RC_RecordedTime (on_http_recorded b rc) = RC_RecordedTime rc \<and> RC_RecordedUUID (on_http_recorded b rc) = RC_RecordedUUID rc"
  by (simp_all add: on_tool_started_def on_plan_generated_def on_node_finished_def on_command_committed_def
      on_tool_finished_def on_state_changed_def on_job_waiting_def on_wait_completed_def on_random_recorded_def
      on_http_recorded_def Let_def split: option.split prod.split)

lemma same_context_f:
  assumes "\<And>t u rc. f (with_maps t u rc) = with_maps t u (f rc)"
    and "\<And>rc. RC_RecordedTime (f rc) = RC_RecordedTime rc \<and> RC_RecordedUUID (f rc) = RC_RecordedUUID rc"
    and "same_context rc rc'"
  shows "same_context (f rc) (f rc')"
  using assms(3) assms(2) [of rc] assms(2) [of rc'] assms(1) unfolding same_context_def by metis

lemma on_timer_fired_entry:
  obtains (skip) "\<And>rc. on_timer_fired b rc = Some rc"
  | (entry) i t where "\<And>rc. on_timer_fired b rc = map_option (\<lambda>m. rc\<lparr>RC_RecordedTime := Some (mput i t m)\<rparr>) (RC_RecordedTime rc)"
proof (cases "decode_object b")
  case None
  then show thesis by (intro skip) (simp add: on_timer_fired_def)
next
  case (Some ms)
  show thesis
  proof (cases "string_field ''effect_id'' ms = None \<or> string_field ''effect_id'' ms = Some [] \<or> int_field ''unix_nano'' ms = None")
    case True
    then show thesis using Some by (intro skip) (auto simp: on_timer_fired_def split: option.splits)
  next
    case False
    then obtain i t where "string_field ''effect_id'' ms = Some i" "i \<noteq> []" "int_field ''unix_nano'' ms = Some t" by auto
    then show thesis using Some by (intro entry [of i t]) (simp add: on_timer_fired_def)
  qed
qed

lemma same_context_timer:
  assumes "same_context rc rc'" and "on_timer_fired b rc = Some r"
  shows "\<exists>r'. on_timer_fired b rc' = Some r' \<and> same_context r r'"
proof (cases b rule: on_timer_fired_entry)
  case skip
  then show ?thesis using assms by simp
next
  case (entry i t)
  then obtain m where m: "RC_RecordedTime rc = Some m" "r = rc\<lparr>RC_RecordedTime := Some (mput i t m)\<rparr>"
    using assms(2) by auto
  have m': "RC_RecordedTime rc' = Some m" using m(1) assms(1) by (auto simp: same_context_def nil_or_def)
  have rc: "rc = with_maps (RC_RecordedTime rc) (RC_RecordedUUID rc) rc'" using assms(1) by (simp add: same_context_def)
  have "rc\<lparr>RC_RecordedTime := Some x\<rparr> = with_maps (Some x) (RC_RecordedUUID rc) (rc'\<lparr>RC_RecordedTime := Some x\<rparr>)" for x
    by (subst rc) (simp add: with_maps_def)
  then have "same_context r (rc'\<lparr>RC_RecordedTime := Some (mput i t m)\<rparr>)"
    using m(2) assms(1) by (simp add: same_context_def nil_or_def)
  then show ?thesis using entry m' by simp
qed

lemma on_uuid_recorded_entry:
  obtains (skip) "\<And>rc. on_uuid_recorded b rc = Some rc"
  | (entry) i t where "\<And>rc. on_uuid_recorded b rc = map_option (\<lambda>m. rc\<lparr>RC_RecordedUUID := Some (mput i t m)\<rparr>) (RC_RecordedUUID rc)"
proof (cases "decode_object b")
  case None
  then show thesis by (intro skip) (simp add: on_uuid_recorded_def)
next
  case (Some ms)
  show thesis
  proof (cases "string_field ''effect_id'' ms = None \<or> string_field ''effect_id'' ms = Some [] \<or> string_field ''uuid'' ms = None")
    case True
    then show thesis using Some by (intro skip) (auto simp: on_uuid_recorded_def split: option.splits)
  next
    case False
    then obtain i t where "string_field ''effect_id'' ms = Some i" "i \<noteq> []" "string_field ''uuid'' ms = Some t" by auto
    then show thesis using Some by (intro entry [of i t]) (simp add: on_uuid_recorded_def)
  qed
qed

lemma same_context_uuid:
  assumes "same_context rc rc'" and "on_uuid_recorded b rc = Some r"
  shows "\<exists>r'. on_uuid_recorded b rc' = Some r' \<and> same_context r r'"
proof (cases b rule: on_uuid_recorded_entry)
  case skip
  then show ?thesis using assms by simp
next
  case (entry i t)
  then obtain m where m: "RC_RecordedUUID rc = Some m" "r = rc\<lparr>RC_RecordedUUID := Some (mput i t m)\<rparr>"
    using assms(2) by auto
  have m': "RC_RecordedUUID rc' = Some m" using m(1) assms(1) by (auto simp: same_context_def nil_or_def)
  have rc: "rc = with_maps (RC_RecordedTime rc) (RC_RecordedUUID rc) rc'" using assms(1) by (simp add: same_context_def)
  have "rc\<lparr>RC_RecordedUUID := Some x\<rparr> = with_maps (RC_RecordedTime rc) (Some x) (rc'\<lparr>RC_RecordedUUID := Some x\<rparr>)" for x
    by (subst rc) (simp add: with_maps_def)
  then have "same_context r (rc'\<lparr>RC_RecordedUUID := Some (mput i t m)\<rparr>)"
    using m(2) assms(1) by (simp add: same_context_def nil_or_def)
  then show ?thesis using entry m' by simp
qed

lemma same_context_event:
  assumes "same_context rc rc'" and "replay_event e rc = Some r"
  shows "\<exists>r'. replay_event e rc' = Some r' \<and> same_context r r'"
proof -
  note cong = same_context_f [OF _ _ assms(1)]
  show ?thesis
    using assms(2) same_context_timer [OF assms(1)] same_context_uuid [OF assms(1)] assms(1)
    by (auto simp: replay_event_def Let_def intro!: cong simp: on_event_with_maps on_event_maps split: if_splits)
qed

lemma same_context_events:
  "same_context rc rc' \<Longrightarrow> replay_events es rc = Some r \<Longrightarrow> \<exists>r'. replay_events es rc' = Some r' \<and> same_context r r'"
proof (induction es arbitrary: rc rc')
  case (Cons e es)
  then obtain r1 where r1: "replay_event e rc = Some r1" "replay_events es r1 = Some r" by (auto simp: bind_eq_Some_conv)
  obtain r1' where "replay_event e rc' = Some r1'" "same_context r1 r1'"
    using same_context_event [OF Cons.prems(1) r1(1)] by blast
  then show ?case using Cons.IH [OF _ r1(2)] by auto
qed simp

lemma replay_events_append: "replay_events (xs @ ys) rc = Option.bind (replay_events xs rc) (replay_events ys)"
  by (induction xs arbitrary: rc) (auto split: Option.bind_split)

text \<open>Without nil maps there is no panic, and none of the maps becomes nil.\<close>

definition no_nil :: "ReplayContext \<Rightarrow> bool" where
  "no_nil rc \<longleftrightarrow> RC_RecordedTime rc \<noteq> None \<and> RC_RecordedUUID rc \<noteq> None"

lemma replay_event_no_nil: "no_nil rc \<Longrightarrow> \<exists>r. replay_event e rc = Some r \<and> no_nil r"
  by (auto simp: replay_event_def no_nil_def Let_def on_event_maps on_timer_fired_def on_uuid_recorded_def
      split: option.split)

lemma replay_events_no_nil: "no_nil rc \<Longrightarrow> \<exists>r. replay_events es rc = Some r \<and> no_nil r"
proof (induction es arbitrary: rc)
  case (Cons e es)
  then show ?case using replay_event_no_nil [of rc e] by fastforce
qed simp

lemma no_nil_start [simp]: "no_nil ReplayContext0"
  by (simp add: no_nil_def ReplayContext0_def)

text \<open>The task graph is never emptied again.\<close>

lemma replay_event_graph: "replay_event e rc = Some r \<Longrightarrow> RC_TaskGraphState rc \<noteq> [] \<Longrightarrow> RC_TaskGraphState r \<noteq> []"
  by (auto simp: replay_event_def Let_def on_tool_started_def on_plan_generated_def on_node_finished_def on_command_committed_def
      on_tool_finished_def on_state_changed_def on_job_waiting_def on_wait_completed_def on_random_recorded_def
      on_http_recorded_def on_timer_fired_def on_uuid_recorded_def split: if_splits option.splits prod.splits)

lemma replay_events_graph: "replay_events es rc = Some r \<Longrightarrow> RC_TaskGraphState rc \<noteq> [] \<Longrightarrow> RC_TaskGraphState r \<noteq> []"
proof (induction es arbitrary: rc)
  case (Cons e es)
  then obtain r1 where "replay_event e rc = Some r1" "replay_events es r1 = Some r" by (auto simp: bind_eq_Some_conv)
  then show ?case using Cons replay_event_graph by blast
qed simp

section \<open>Invocations\<close>

text \<open>What an event says of the invocation with a key: that it was started, or finished, with which result.\<close>

definition starts :: "string \<Rightarrow> JobEvent \<Rightarrow> bool" where
  "starts key e \<longleftrightarrow> Ev_Type e = ToolInvocationStarted \<and> key \<noteq> []
     \<and> Option.bind (decode_object (Ev_Payload e)) (string_field ''idempotency_key'') = Some key"

definition finish_of :: "JobEvent \<Rightarrow> (string \<times> string \<times> bytes) option" where
  "finish_of e = (if Ev_Type e \<noteq> ToolInvocationFinished then None
     else Option.bind (decode_object (Ev_Payload e)) (\<lambda>ms.
       case (string_field ''idempotency_key'' ms, string_field ''outcome'' ms) of
         (Some key, Some outcome) \<Rightarrow> if key = [] then None else Some (key, outcome, raw_field ''result'' ms)
       | _ \<Rightarrow> None))"

definition finishes :: "string \<Rightarrow> JobEvent \<Rightarrow> bool" where
  "finishes key e \<longleftrightarrow> map_option fst (finish_of e) = Some key"

definition result_of :: "string \<Rightarrow> JobEvent \<Rightarrow> bytes option" where
  "result_of key e = (case finish_of e of
       Some (k, outcome, r) \<Rightarrow> if k = key \<and> outcome = ''success'' then Some (if r \<noteq> [] then r else ''{}'') else None
     | None \<Rightarrow> None)"

text \<open>An invocation is open when it was started and not finished since; its result is that of its last successful end.\<close>

definition open_invocation :: "string \<Rightarrow> JobEvent list \<Rightarrow> bool" where
  "open_invocation key events \<longleftrightarrow> (\<exists>xs e ys. events = xs @ e # ys \<and> starts key e \<and> \<not> list_ex (finishes key) ys)"

definition committed_result :: "string \<Rightarrow> JobEvent list \<Rightarrow> bytes option" where
  "committed_result key events = (case List.map_filter (result_of key) (rev events) of [] \<Rightarrow> None | r # _ \<Rightarrow> Some r)"

lemma on_event_invocations:
  "RC_PendingToolInvocations (on_plan_generated b rc) = RC_PendingToolInvocations rc \<and> RC_CompletedToolInvocations (on_plan_generated b rc) = RC_CompletedToolInvocations rc"
  "RC_PendingToolInvocations (on_node_finished b rc) = RC_PendingToolInvocations rc \<and> RC_CompletedToolInvocations (on_node_finished b rc) = RC_CompletedToolInvocations rc"
  "RC_PendingToolInvocations (on_command_committed b rc) = RC_PendingToolInvocations rc \<and> RC_CompletedToolInvocations (on_command_committed b rc) = RC_CompletedToolInvocations rc"
  "RC_PendingToolInvocations (on_state_changed b rc) = RC_PendingToolInvocations rc \<and> RC_CompletedToolInvocations (on_state_changed b rc) = RC_CompletedToolInvocations rc"
  "RC_PendingToolInvocations (on_job_waiting b rc) = RC_PendingToolInvocations rc \<and> RC_CompletedToolInvocations (on_job_waiting b rc) = RC_CompletedToolInvocations rc"
  "RC_PendingToolInvocations (on_wait_completed b rc) = RC_PendingToolInvocations rc \<and> RC_CompletedToolInvocations (on_wait_completed b rc) = RC_CompletedToolInvocations rc"
  "RC_PendingToolInvocations (on_random_recorded b rc) = RC_PendingToolInvocations rc \<and> RC_CompletedToolInvocations (on_random_recorded b rc) = RC_CompletedToolInvocations rc"
  "RC_PendingToolInvocations (on_http_recorded b rc) = RC_PendingToolInvocations rc \<and> RC_CompletedToolInvocations (on_http_recorded b rc) = RC_CompletedToolInvocations rc"
  by (simp_all add: on_plan_generated_def on_node_finished_def on_command_committed_def
      on_state_changed_def on_job_waiting_def on_wait_completed_def on_random_recorded_def
      on_http_recorded_def Let_def split: option.split prod.split)

lemma on_timer_invocations:
  "on_timer_fired b rc = Some r \<Longrightarrow> RC_PendingToolInvocations r = RC_PendingToolInvocations rc \<and> RC_CompletedToolInvocations r = RC_CompletedToolInvocations rc"
  "on_uuid_recorded b rc = Some r \<Longrightarrow> RC_PendingToolInvocations r = RC_PendingToolInvocations rc \<and> RC_CompletedToolInvocations r = RC_CompletedToolInvocations rc"
  by (auto simp: on_timer_fired_def on_uuid_recorded_def split: option.splits if_splits)

lemma on_tool_started_invocations:
  "Ev_Type e = ToolInvocationStarted \<Longrightarrow>
     set (RC_PendingToolInvocations (on_tool_started (Ev_Payload e) rc)) = set (RC_PendingToolInvocations rc) \<union> {k. starts k e}
     \<and> RC_CompletedToolInvocations (on_tool_started (Ev_Payload e) rc) = RC_CompletedToolInvocations rc"
  by (auto simp: on_tool_started_def starts_def split: option.splits)

lemma on_tool_finished_invocations:
  assumes "Ev_Type e = ToolInvocationFinished"
  shows "set (RC_PendingToolInvocations (on_tool_finished (Ev_Payload e) rc)) = set (RC_PendingToolInvocations rc) - {k. finishes k e}
     \<and> map_of (RC_CompletedToolInvocations (on_tool_finished (Ev_Payload e) rc)) k
        = (case result_of k e of None \<Rightarrow> map_of (RC_CompletedToolInvocations rc) k | Some r \<Rightarrow> Some r)"
proof (cases "finish_of e")
  case None
  then have "on_tool_finished (Ev_Payload e) rc = rc"
    using assms by (auto simp: finish_of_def on_tool_finished_def Let_def split: option.splits if_splits Option.bind_splits)
  then show ?thesis using None by (auto simp: finishes_def result_of_def)
next
  case (Some f)
  obtain key outcome r where f: "f = (key, outcome, r)" by (cases f)
  obtain ms where ms: "decode_object (Ev_Payload e) = Some ms" "string_field ''idempotency_key'' ms = Some key"
      "string_field ''outcome'' ms = Some outcome" "key \<noteq> []" "raw_field ''result'' ms = r"
    using Some f assms by (auto simp: finish_of_def split: option.splits if_splits Option.bind_splits)
  then show ?thesis using Some f by (auto simp: on_tool_finished_def finishes_def result_of_def Let_def)
qed

lemma other_event:
  "Ev_Type e \<noteq> ToolInvocationStarted \<Longrightarrow> \<not> starts k e" "Ev_Type e \<noteq> ToolInvocationFinished \<Longrightarrow> \<not> finishes k e"
  "Ev_Type e \<noteq> ToolInvocationFinished \<Longrightarrow> result_of k e = None"
  by (simp_all add: starts_def finishes_def finish_of_def result_of_def)

lemma replay_event_invocations:
  assumes "replay_event e rc = Some r"
  shows "set (RC_PendingToolInvocations r) = (set (RC_PendingToolInvocations rc) \<union> {k. starts k e}) - {k. finishes k e}
    \<and> map_of (RC_CompletedToolInvocations r) k
        = (case result_of k e of None \<Rightarrow> map_of (RC_CompletedToolInvocations rc) k | Some x \<Rightarrow> Some x)"
proof -
  consider (start) "Ev_Type e = ToolInvocationStarted" | (finish) "Ev_Type e = ToolInvocationFinished"
    | (other) "Ev_Type e \<noteq> ToolInvocationStarted" "Ev_Type e \<noteq> ToolInvocationFinished" by blast
  then show ?thesis
  proof cases
    case start
    then have "r = on_tool_started (Ev_Payload e) rc" using assms by (simp add: replay_event_def)
    then show ?thesis using start on_tool_started_invocations [OF start, of rc] other_event [of e] by auto
  next
    case finish
    then have "r = on_tool_finished (Ev_Payload e) rc" using assms by (simp add: replay_event_def)
    then show ?thesis using finish on_tool_finished_invocations [OF finish, of rc k] other_event [of e] by auto
  next
    case other
    have "RC_PendingToolInvocations r = RC_PendingToolInvocations rc \<and> RC_CompletedToolInvocations r = RC_CompletedToolInvocations rc"
      using assms other on_timer_invocations
      by (auto simp: replay_event_def Let_def on_event_invocations split: if_splits)
    then show ?thesis using other other_event [of e] by simp
  qed
qed

lemma open_invocation_snoc:
  "open_invocation key (es @ [e]) \<longleftrightarrow> (open_invocation key es \<or> starts key e) \<and> \<not> finishes key e"
proof -
  have no_both: "starts key e \<Longrightarrow> \<not> finishes key e" by (auto simp: starts_def finishes_def finish_of_def)
  show ?thesis
  proof
    assume "open_invocation key (es @ [e])"
    then obtain xs x ys where 1: "es @ [e] = xs @ x # ys" "starts key x" "\<not> list_ex (finishes key) ys"
      by (auto simp: open_invocation_def)
    show "(open_invocation key es \<or> starts key e) \<and> \<not> finishes key e"
    proof (cases ys rule: rev_cases)
      case Nil
      then show ?thesis using 1 no_both by auto
    next
      case (snoc zs z)
      then show ?thesis using 1 unfolding open_invocation_def by auto
    qed
  next
    assume r: "(open_invocation key es \<or> starts key e) \<and> \<not> finishes key e"
    show "open_invocation key (es @ [e])"
    proof (cases "starts key e")
      case True
      then show ?thesis unfolding open_invocation_def by (intro exI [of _ es] exI [of _ e] exI [of _ "[]"]) simp
    next
      case False
      then obtain xs x ys where "es = xs @ x # ys" "starts key x" "\<not> list_ex (finishes key) ys"
        using r by (auto simp: open_invocation_def)
      then show ?thesis unfolding open_invocation_def using r
        by (intro exI [of _ xs] exI [of _ x] exI [of _ "ys @ [e]"]) simp
    qed
  qed
qed

lemma committed_result_snoc:
  "committed_result key (es @ [e]) = (case result_of key e of None \<Rightarrow> committed_result key es | Some r \<Rightarrow> Some r)"
  by (simp add: committed_result_def List.map_filter_simps split: option.split)

lemma replay_events_invocations:
  "replay_events es ReplayContext0 = Some rc \<Longrightarrow>
     (k \<in> set (RC_PendingToolInvocations rc) \<longleftrightarrow> open_invocation k es)
     \<and> map_of (RC_CompletedToolInvocations rc) k = committed_result k es"
proof (induction es arbitrary: rc rule: rev_induct)
  case Nil
  then show ?case by (auto simp: ReplayContext0_def open_invocation_def committed_result_def List.map_filter_simps)
next
  case (snoc e es)
  then obtain r1 where r1: "replay_events es ReplayContext0 = Some r1" "replay_event e r1 = Some rc"
    by (auto simp: replay_events_append bind_eq_Some_conv)
  show ?case
    using snoc.IH [OF r1(1)] replay_event_invocations [OF r1(2), of k]
    by (auto simp: open_invocation_snoc committed_result_snoc split: option.split)
qed

section \<open>Properties\<close>

text \<open>The context without its phase, for a stream.\<close>

lemma BuildFromEvents_unfold:
  "RS_ListEvents store jobID = Inr events \<Longrightarrow> events \<noteq> [] \<Longrightarrow>
     \<exists>rc. replay_events events ReplayContext0 = Some rc \<and> no_nil rc \<and>
       BuildFromEvents (Some store) jobID = Inr (if RC_TaskGraphState rc = [] then None
         else Some (rc\<lparr>RC_Phase := phase_of (Ev_Type (last events)) rc\<rparr>))"
  using replay_events_no_nil [OF no_nil_start, of events] by (auto simp: BuildFromEvents_def)

lemma same_context_phase:
  "same_context rc rc' \<Longrightarrow> same_context (rc\<lparr>RC_Phase := phase_of t rc\<rparr>) (rc'\<lparr>RC_Phase := phase_of t rc'\<rparr>)"
proof -
  assume s: "same_context rc rc'"
  then have "RC_TaskGraphState rc = RC_TaskGraphState rc'" unfolding same_context_def by (metis with_maps_simps(3))
  then have "phase_of t rc = phase_of t rc'" by (simp add: phase_of_def)
  then show ?thesis using s unfolding same_context_def by simp
qed

lemma on_event_phase:
  "on_tool_started b (rc\<lparr>RC_Phase := ph\<rparr>) = (on_tool_started b rc)\<lparr>RC_Phase := ph\<rparr>"
  "on_plan_generated b (rc\<lparr>RC_Phase := ph\<rparr>) = (on_plan_generated b rc)\<lparr>RC_Phase := ph\<rparr>"
  "on_node_finished b (rc\<lparr>RC_Phase := ph\<rparr>) = (on_node_finished b rc)\<lparr>RC_Phase := ph\<rparr>"
  "on_command_committed b (rc\<lparr>RC_Phase := ph\<rparr>) = (on_command_committed b rc)\<lparr>RC_Phase := ph\<rparr>"
  "on_tool_finished b (rc\<lparr>RC_Phase := ph\<rparr>) = (on_tool_finished b rc)\<lparr>RC_Phase := ph\<rparr>"
  "on_state_changed b (rc\<lparr>RC_Phase := ph\<rparr>) = (on_state_changed b rc)\<lparr>RC_Phase := ph\<rparr>"
  "on_job_waiting b (rc\<lparr>RC_Phase := ph\<rparr>) = (on_job_waiting b rc)\<lparr>RC_Phase := ph\<rparr>"
  "on_wait_completed b (rc\<lparr>RC_Phase := ph\<rparr>) = (on_wait_completed b rc)\<lparr>RC_Phase := ph\<rparr>"
  "on_random_recorded b (rc\<lparr>RC_Phase := ph\<rparr>) = (on_random_recorded b rc)\<lparr>RC_Phase := ph\<rparr>"
  "on_http_recorded b (rc\<lparr>RC_Phase := ph\<rparr>) = (on_http_recorded b rc)\<lparr>RC_Phase := ph\<rparr>"
  by (simp_all add: on_tool_started_def on_plan_generated_def on_node_finished_def on_command_committed_def
      on_tool_finished_def on_state_changed_def on_job_waiting_def on_wait_completed_def on_random_recorded_def
      on_http_recorded_def Let_def split: option.split prod.split)

lemma phase_irrelevant: "replay_event e (rc\<lparr>RC_Phase := ph\<rparr>) = map_option (\<lambda>r. r\<lparr>RC_Phase := ph\<rparr>) (replay_event e rc)"
proof -
  have "on_timer_fired b (rc\<lparr>RC_Phase := ph\<rparr>) = map_option (\<lambda>r. r\<lparr>RC_Phase := ph\<rparr>) (on_timer_fired b rc)" for b
    by (cases b rule: on_timer_fired_entry; cases "RC_RecordedTime rc") simp_all
  moreover have "on_uuid_recorded b (rc\<lparr>RC_Phase := ph\<rparr>) = map_option (\<lambda>r. r\<lparr>RC_Phase := ph\<rparr>) (on_uuid_recorded b rc)" for b
    by (cases b rule: on_uuid_recorded_entry; cases "RC_RecordedUUID rc") simp_all
  ultimately show ?thesis by (simp add: replay_event_def Let_def on_event_phase)
qed

lemma phase_irrelevant_events:
  "replay_events es (rc\<lparr>RC_Phase := ph\<rparr>) = map_option (\<lambda>r. r\<lparr>RC_Phase := ph\<rparr>) (replay_events es rc)"
  by (induction es arbitrary: rc) (auto simp: phase_irrelevant split: Option.bind_split)

text \<open>
  Replay from a snapshot is replay from the start, if the snapshot decodes to the context built from the events it covers.
\<close>

theorem snapshot_replay_is_full_replay:
  assumes "RS_ListEvents store jobID = Inr events" and "RS_GetLatestSnapshot store jobID = Inr (Some (v, b))"
    and "0 \<le> v" and "v \<le> int (length events)"
    and "BuildFromEvents (Some (store\<lparr>RS_ListEvents := \<lambda>_. Inr (take (nat v) events)\<rparr>)) jobID = Inr (Some rc0)"
    and "deserializeSnapshot b = Some rc" and "same_context rc rc0"
  shows "(BuildFromSnapshot (Some store) jobID = Inl NilMapPanic \<and> \<not> no_nil rc)
    \<or> (\<exists>rc1 rc2. BuildFromSnapshot (Some store) jobID = Inr (Some rc1) \<and> BuildFromEvents (Some store) jobID = Inr (Some rc2)
        \<and> same_context rc1 rc2)"
proof -
  let ?pre = "take (nat v) events" and ?suf = "drop (nat v) events"
  have clamp: "clamp_version v (length events) = nat v" using assms(3,4) by (simp add: clamp_version_def)
  have "?pre \<noteq> []" using assms(5) by (auto simp: BuildFromEvents_def)
  then obtain p where p: "replay_events ?pre ReplayContext0 = Some p" "no_nil p"
      "RC_TaskGraphState p \<noteq> []" "rc0 = p\<lparr>RC_Phase := phase_of (Ev_Type (last ?pre)) p\<rparr>"
    using BuildFromEvents_unfold [of "store\<lparr>RS_ListEvents := \<lambda>_. Inr ?pre\<rparr>" jobID ?pre] assms(5)
    by (auto split: if_splits)
  have "events \<noteq> []" using \<open>?pre \<noteq> []\<close> by auto
  then obtain q where q: "replay_events events ReplayContext0 = Some q"
      "BuildFromEvents (Some store) jobID = Inr (if RC_TaskGraphState q = [] then None
         else Some (q\<lparr>RC_Phase := phase_of (Ev_Type (last events)) q\<rparr>))"
    using BuildFromEvents_unfold [of store jobID events] assms(1) by blast
  have pq: "replay_events ?suf p = Some q"
    using q(1) p(1) replay_events_append [of ?pre ?suf ReplayContext0] by simp
  have full: "BuildFromEvents (Some store) jobID = Inr (Some (q\<lparr>RC_Phase := phase_of (Ev_Type (last events)) q\<rparr>))"
    using q(2) replay_events_graph [OF pq p(3)] by simp
  show ?thesis
  proof (cases "?suf = []")
    case True
    then have "BuildFromSnapshot (Some store) jobID = Inr (Some rc)"
      using assms(1,2,6) clamp by (simp add: BuildFromSnapshot_def)
    moreover have "p = q" "?pre = events" using True pq by auto
    ultimately show ?thesis using full p(4) assms(7) by simp
  next
    case False
    have last: "last ?suf = last events" using False by (simp add: last_drop)
    have run: "BuildFromSnapshot (Some store) jobID = (case replay_events ?suf rc of None \<Rightarrow> Inl NilMapPanic
        | Some r \<Rightarrow> Inr (Some (r\<lparr>RC_Phase := phase_of (Ev_Type (last events)) r\<rparr>)))"
      using assms(1,2,6) clamp False last
      by (auto simp: BuildFromSnapshot_def applyIncrementalEvents_def Let_def split: option.split)
    show ?thesis
    proof (cases "replay_events ?suf rc")
      case None
      then show ?thesis using run replay_events_no_nil [of rc ?suf] by auto
    next
      case (Some r)
      obtain r' where r': "replay_events ?suf rc0 = Some r'" "same_context r r'"
        using same_context_events [OF assms(7) Some] by blast
      define ph where "ph = phase_of (Ev_Type (last ?pre)) p"
      have "r' = q\<lparr>RC_Phase := ph\<rparr>" using r'(1) p(4) pq by (simp add: ph_def phase_irrelevant_events)
      then have "r'\<lparr>RC_Phase := phase_of (Ev_Type (last events)) r'\<rparr> = q\<lparr>RC_Phase := phase_of (Ev_Type (last events)) q\<rparr>"
        by (simp add: phase_of_def)
      then show ?thesis using run Some full same_context_phase [OF r'(2), of "Ev_Type (last events)"] by simp
    qed
  qed
qed

text \<open>
  The context's view of tool invocations is that of the stream: an invocation is pending exactly when it
  was started and not finished since, and its recorded result is that of the last successful end.
\<close>

theorem replay_invocations_spec:
  assumes "BuildFromEvents (Some store) jobID = Inr (Some rc)" and "RS_ListEvents store jobID = Inr events"
  shows "(key \<in> set (RC_PendingToolInvocations rc) \<longleftrightarrow> open_invocation key events)
     \<and> map_of (RC_CompletedToolInvocations rc) key = committed_result key events"
proof -
  have "events \<noteq> []" using assms by (auto simp: BuildFromEvents_def)
  then obtain r where "replay_events events ReplayContext0 = Some r" "rc = r\<lparr>RC_Phase := phase_of (Ev_Type (last events)) r\<rparr>"
    using BuildFromEvents_unfold [OF assms(2)] assms(1) by (auto split: if_splits)
  then show ?thesis using replay_events_invocations [of events r key] by simp
qed

text \<open>
  A snapshot that recorded no timer leaves the map of timers nil, and the next timer event after it makes the builder
  write to that nil map and panic, while the full replay of the same stream succeeds.
\<close>

theorem timer_after_snapshot_panics:
  assumes "RS_ListEvents store jobID = Inr events" and "RS_GetLatestSnapshot store jobID = Inr (Some (v, b))"
    and "0 \<le> v" and "v < int (length events)" and "deserializeSnapshot b = Some rc" and "RC_RecordedTime rc = None"
    and "Ev_Type (events ! nat v) = TimerFired" and "decode_object (Ev_Payload (events ! nat v)) = Some ms"
    and "string_field ''effect_id'' ms = Some i" and "i \<noteq> []" and "int_field ''unix_nano'' ms = Some t"
  shows "BuildFromSnapshot (Some store) jobID = Inl NilMapPanic \<and> BuildFromEvents (Some store) jobID \<noteq> Inl NilMapPanic"
proof -
  have split: "drop (nat v) events = events ! nat v # drop (Suc (nat v)) events"
    using assms(3,4) by (intro Cons_nth_drop_Suc [symmetric]) simp
  have "replay_event (events ! nat v) rc = None"
    using assms(6-11) by (simp add: replay_event_def on_timer_fired_def)
  then have "replay_events (drop (nat v) events) rc = None" unfolding split by simp
  moreover have "clamp_version v (length events) = nat v" using assms(3,4) by (simp add: clamp_version_def)
  ultimately have "BuildFromSnapshot (Some store) jobID = Inl NilMapPanic"
    using assms(1,2,5) split by (simp add: BuildFromSnapshot_def applyIncrementalEvents_def)
  moreover have "events \<noteq> []" using assms(3,4) by auto
  ultimately show ?thesis using BuildFromEvents_unfold [OF assms(1)] by auto
qed

text \<open>
  The worker reads the stream twice when it takes a snapshot.  Events appended between the two reads are counted in the
  snapshot's version but are not in its context, so that replay from it never sees them.
\<close>

theorem snapshot_race_loses_events:
  assumes "snapshot_job first_read (first_read @ late) = Some (v, b)" and "deserializeSnapshot b = Some rc"
    and "RS_ListEvents store jobID = Inr (first_read @ late)" and "RS_GetLatestSnapshot store jobID = Inr (Some (v, b))"
  shows "BuildFromSnapshot (Some store) jobID = Inr (Some rc)"
proof -
  have "v = int (length (first_read @ late))"
    using assms(1) by (auto simp: snapshot_job_def split: sum.splits option.splits)
  then show ?thesis using assms(2-4) by (simp add: BuildFromSnapshot_def clamp_version_def Let_def)
qed

section \<open>A small stream\<close>

definition rp_event :: "EventType \<Rightarrow> (string \<times> bytes) list \<Rightarrow> JobEvent" where
  "rp_event t ms = JobEvent0\<lparr>Ev_Type := t, Ev_Payload := fields_text ms\<rparr>"

definition rp_plan :: JobEvent where
  "rp_plan = rp_event PlanGenerated [(''task_graph'', ''{}'')]"

definition rp_start :: JobEvent where
  "rp_start = rp_event ToolInvocationStarted [(''idempotency_key'', json_quote ''k'')]"

definition rp_finish :: JobEvent where
  "rp_finish = rp_event ToolInvocationFinished [(''idempotency_key'', json_quote ''k''), (''outcome'', json_quote ''success'')]"

definition rp_timer :: JobEvent where
  "rp_timer = rp_event TimerFired [(''effect_id'', json_quote ''t''), (''unix_nano'', ''7'')]"

text \<open>The snapshot of the first two events, as it is written, and as it is read back.\<close>

definition rp_snapshot :: bytes where
  "rp_snapshot = fields_text [(''task_graph_state'', ''{}''), (''pending_tool_invocations'', array_text [json_quote ''k'']), (''phase'', ''2'')]"

definition rp_context :: ReplayContext where
  "rp_context = ReplayContext0\<lparr>RC_TaskGraphState := ''{}'', RC_PendingToolInvocations := [''k''], RC_Phase := PhaseExecuting,
     RC_RecordedTime := None, RC_RecordedUUID := None\<rparr>"

definition rp_store :: "JobEvent list \<Rightarrow> int \<Rightarrow> ReplayStore" where
  "rp_store es v = \<lparr>RS_ListEvents = \<lambda>_. Inr es, RS_GetLatestSnapshot = \<lambda>_. Inr (Some (v, rp_snapshot))\<rparr>"

lemma rp_replayed: "replay_events [rp_plan, rp_start] ReplayContext0
    = Some (ReplayContext0\<lparr>RC_TaskGraphState := ''{}'', RC_PendingToolInvocations := [''k'']\<rparr>)"
  by code_simp

lemma rp_written: "SerializeReplayContext (Some (ReplayContext0\<lparr>RC_TaskGraphState := ''{}'', RC_PendingToolInvocations := [''k''],
    RC_Phase := PhaseExecuting\<rparr>)) = Some rp_snapshot"
  by code_simp

lemma rp_read: "deserializeSnapshot rp_snapshot = Some rp_context"
  by code_simp

lemma rp_prefix: "BuildFromEvents (Some st) j = Inr (Some (ReplayContext0\<lparr>RC_TaskGraphState := ''{}'',
    RC_PendingToolInvocations := [''k''], RC_Phase := PhaseExecuting\<rparr>))" if "RS_ListEvents st j = Inr [rp_plan, rp_start]"
  using that rp_replayed by (simp add: BuildFromEvents_def phase_of_def rp_start_def rp_event_def JobEvent0_def del: replay_events.simps)

theorem replay_invocations_spec_witness:
  "\<exists>rc. BuildFromEvents (Some (rp_store [rp_plan, rp_start] 0)) ''j'' = Inr (Some rc)
     \<and> ''k'' \<in> set (RC_PendingToolInvocations rc) \<and> open_invocation ''k'' [rp_plan, rp_start]"
proof -
  let ?st = "rp_store [rp_plan, rp_start] 0"
  have run: "BuildFromEvents (Some ?st) ''j'' = Inr (Some (ReplayContext0\<lparr>RC_TaskGraphState := ''{}'',
      RC_PendingToolInvocations := [''k''], RC_Phase := PhaseExecuting\<rparr>))"
    by (rule rp_prefix) (simp add: rp_store_def)
  show ?thesis
    using replay_invocations_spec [OF run, of "[rp_plan, rp_start]" "''k''"] run by (simp add: rp_store_def)
qed

theorem timer_after_snapshot_panics_witness:
  "BuildFromSnapshot (Some (rp_store [rp_plan, rp_start, rp_timer] 2)) ''j'' = Inl NilMapPanic"
proof -
  have payload: "decode_object (Ev_Payload rp_timer) = Some [(''effect_id'', json_quote ''t''), (''unix_nano'', ''7'')]" by code_simp
  have fields: "string_field ''effect_id'' [(''effect_id'', json_quote ''t''), (''unix_nano'', ''7'')] = Some ''t''"
    "int_field ''unix_nano'' [(''effect_id'', json_quote ''t''), (''unix_nano'', ''7'')] = Some 7" by code_simp+
  show ?thesis
    by (rule conjunct1 [OF timer_after_snapshot_panics [of "rp_store [rp_plan, rp_start, rp_timer] 2" "''j''"
          "[rp_plan, rp_start, rp_timer]" 2 rp_snapshot rp_context, OF _ _ _ _ rp_read _ _ _ fields(1) _ fields(2)]])
      (simp_all add: rp_store_def rp_context_def payload, simp_all add: rp_timer_def rp_event_def JobEvent0_def)
qed

theorem snapshot_race_loses_events_witness:
  "snapshot_job [rp_plan, rp_start] ([rp_plan, rp_start] @ [rp_finish]) = Some (3, rp_snapshot)
     \<and> BuildFromSnapshot (Some (rp_store ([rp_plan, rp_start] @ [rp_finish]) 3)) ''j'' = Inr (Some rp_context)
     \<and> ''k'' \<in> set (RC_PendingToolInvocations rp_context) \<and> \<not> open_invocation ''k'' ([rp_plan, rp_start] @ [rp_finish])"
proof -
  have snap: "snapshot_job [rp_plan, rp_start] ([rp_plan, rp_start] @ [rp_finish]) = Some (3, rp_snapshot)"
    using rp_prefix [of "\<lparr>RS_ListEvents = \<lambda>_. Inr [rp_plan, rp_start], RS_GetLatestSnapshot = \<lambda>_. Inr None\<rparr>" "[]"] rp_written
    by (simp add: snapshot_job_def)
  have "BuildFromSnapshot (Some (rp_store ([rp_plan, rp_start] @ [rp_finish]) 3)) ''j'' = Inr (Some rp_context)"
    by (rule snapshot_race_loses_events [OF snap rp_read]) (simp_all add: rp_store_def)
  moreover have "''k'' \<in> set (RC_PendingToolInvocations rp_context)" by (simp add: rp_context_def)
  moreover have "finishes ''k'' rp_finish" by code_simp
  ultimately show ?thesis using snap open_invocation_snoc [of "''k''" "[rp_plan, rp_start]" rp_finish] by blast
qed

end
