(* ===== verification/Go_Time.thy ===== *)
theory Go_Time
  imports Go_Json "HOL-Library.Monad_Syntax"
begin

text \<open>
  Reading an RFC 3339 text as Go's \<open>time\<close> package does: \<open>time.Parse(time.RFC3339, s)\<close>, which also takes an hour of
  one digit, a comma before the fraction and an offset of 24 hours, and the strict form that \<open>time.Time\<close>
  is decoded from JSON with.  The result is the offset of the zone in seconds and the instant.
\<close>

text \<open>Days since 1 January of year 1, the inverse of \<open>civil_from_days\<close>.\<close>

definition days_from_civil :: "int \<Rightarrow> int \<Rightarrow> int \<Rightarrow> int" where
  "days_from_civil y m d =
     (let y' = (if m \<le> 2 then y - 1 else y); yoe = y' mod 400; mp = (m + 9) mod 12;
          doy = (153 * mp + 2) div 5 + d - 1; doe = yoe * 365 + yoe div 4 - yoe div 100 + doy
      in y' div 400 * 146097 + doe - 306)"

definition isLeap :: "int \<Rightarrow> bool" where
  "isLeap y \<longleftrightarrow> y mod 4 = 0 \<and> (y mod 100 \<noteq> 0 \<or> y mod 400 = 0)"

definition daysIn :: "int \<Rightarrow> int \<Rightarrow> int" where
  "daysIn m y = (if m = 2 then (if isLeap y then 29 else 28) else if m \<in> {4, 6, 9, 11} then 30 else 31)"

text \<open>Two digits, or where \<open>fixed\<close> is not set also one; the value and the rest.\<close>

fun getnum :: "bool \<Rightarrow> string \<Rightarrow> (int \<times> string) option" where
  "getnum fixed (a # b # s) =
     (if \<not> is_digit a then None
      else if is_digit b then Some (10 * (byte a - 48) + (byte b - 48), s)
      else if fixed then None else Some (byte a - 48, b # s))"
| "getnum fixed [a] = (if is_digit a \<and> \<not> fixed then Some (byte a - 48, []) else None)"
| "getnum fixed [] = None"

fun lit_char :: "char \<Rightarrow> string \<Rightarrow> string option" where
  "lit_char c (x # s) = (if x = c then Some s else None)"
| "lit_char c [] = None"

text \<open>The fraction of a second: nine digits count.\<close>

definition parse_fraction :: "bool \<Rightarrow> string \<Rightarrow> int \<times> string" where
  "parse_fraction lenient s =
     (if 2 \<le> length s \<and> (hd s = CHR ''.'' \<or> lenient \<and> hd s = CHR '','') \<and> is_digit (s ! 1)
      then (let ds = takeWhile is_digit (tl s)
            in (digits_int (take 9 (ds @ replicate 9 CHR ''0'')), dropWhile is_digit (tl s)))
      else (0, s))"

definition parse_zone :: "bool \<Rightarrow> string \<Rightarrow> int option" where
  "parse_zone lenient s =
     (if s = ''Z'' then Some 0
      else if length s \<noteq> 6 \<or> (hd s \<noteq> CHR ''+'' \<and> hd s \<noteq> CHR ''-'') then None
      else do {
        (h, s1) \<leftarrow> getnum True (tl s);
        s2 \<leftarrow> lit_char CHR '':'' s1;
        (m, s3) \<leftarrow> getnum True s2;
        (if h \<le> (if lenient then 24 else 23) \<and> m \<le> (if lenient then 60 else 59)
         then Some ((if hd s = CHR ''-'' then - 1 else 1) * ((h * 60 + m) * 60)) else None)
      })"

definition parse_rfc3339 :: "bool \<Rightarrow> string \<Rightarrow> (int \<times> gotime) option" where
  "parse_rfc3339 lenient s = do {
     (c, s1) \<leftarrow> getnum True s;
     (yy, s2) \<leftarrow> getnum True s1;
     s3 \<leftarrow> lit_char CHR ''-'' s2;
     (m, s4) \<leftarrow> getnum True s3;
     s5 \<leftarrow> lit_char CHR ''-'' s4;
     (d, s6) \<leftarrow> getnum True s5;
     s7 \<leftarrow> lit_char CHR ''T'' s6;
     (h, s8) \<leftarrow> getnum (\<not> lenient) s7;
     s9 \<leftarrow> lit_char CHR '':'' s8;
     (mi, s10) \<leftarrow> getnum True s9;
     s11 \<leftarrow> lit_char CHR '':'' s10;
     (sec, s12) \<leftarrow> getnum True s11;
     (let y = c * 100 + yy; (ns, s13) = parse_fraction lenient s12
      in do {
        off \<leftarrow> parse_zone lenient s13;
        (if 1 \<le> m \<and> m \<le> 12 \<and> 1 \<le> d \<and> d \<le> daysIn m y \<and> h \<le> 23 \<and> mi \<le> 59 \<and> sec \<le> 59
         then Some (off, (days_from_civil y m d * 86400 + h * 3600 + mi * 60 + sec - off) * Second + ns)
         else None)
      })
   }"

text \<open>The instant without its fraction, as \<open>Format(time.RFC3339)\<close> writes it.\<close>

definition rfc3339 :: "int \<Rightarrow> gotime \<Rightarrow> string" where
  "rfc3339 off t = rfc3339nano off (t - t mod Second)"

lemma days_civil_examples:
  "days_from_civil 1 1 1 = 0" "civil_from_days (days_from_civil 2026 3 15) = (2026, 3, 15)"
  "parse_rfc3339 False ''2026-03-15T07:08:09.5+01:00'' = Some (3600, (days_from_civil 2026 3 15 * 86400 + 22089) * Second + 500000000)"
  "parse_rfc3339 False ''2026-02-29T00:00:00Z'' = None"
  "parse_rfc3339 True ''2026-03-15T7:08:09Z'' = parse_rfc3339 True ''2026-03-15T07:08:09Z''"
  by code_simp+

end
