(* ===== verification/Sha_Eval.thy ===== *)
theory Sha_Eval
  imports Sha256
begin

text \<open>
  SHA-256 on integers, equal to the digest on machine words, which the simplifier evaluates; known answers of
  FIPS 180-4 check both.
\<close>

definition wrap_high :: "int \<Rightarrow> int \<Rightarrow> int \<Rightarrow> int" where
  "wrap_high x c d = x * c - d * 4294967296 + d"

definition rr :: "nat \<Rightarrow> nat \<Rightarrow> int \<Rightarrow> int" where
  "rr n m x = wrap_high x (2 ^ m) (drop_bit n x)"

type_synonym int_state = "int \<times> int \<times> int \<times> int \<times> int \<times> int \<times> int \<times> int"

fun int_round :: "int_state \<Rightarrow> int \<Rightarrow> int_state" where
  "int_round (a, b, c, d, e, f, g, h) kw =
     (let t1 = h + (rr 6 26 e XOR rr 11 21 e XOR rr 25 7 e) + (g XOR (e AND (f XOR g))) + kw
      in (take_bit 32 (t1 + (rr 2 30 a XOR rr 13 19 a XOR rr 22 10 a) + ((a AND b) XOR (c AND (a XOR b)))), a, b, c,
          take_bit 32 (d + t1), e, f, g))"

definition next_window :: "int list \<Rightarrow> int list" where
  "next_window ws = tl ws @ [take_bit 32 (hd ws
     + (rr 7 25 (ws ! 1) XOR rr 18 14 (ws ! 1) XOR drop_bit 3 (ws ! 1)) + ws ! 9
     + (rr 17 15 (ws ! 14) XOR rr 19 13 (ws ! 14) XOR drop_bit 10 (ws ! 14)))]"

primrec int_schedule :: "nat \<Rightarrow> int list \<Rightarrow> int list" where
  "int_schedule 0 ws = ws"
| "int_schedule (Suc n) ws = hd ws # int_schedule n (next_window ws)"

lemma uint_rotr32:
  assumes "n + m = 32"
  shows "uint (rotr32 n x) = rr n m (uint x)"
proof -
  have m: "32 - n = m" using assms by simp
  have "uint (rotr32 n x) = push_bit m (take_bit n (uint x)) OR drop_bit n (uint x)"
    using assms unfolding rotr32_def m
    by (intro bit_eqI) (auto simp: bit_simps dest: bit_imp_le_length)
  also have "\<dots> = push_bit m (take_bit n (uint x)) + drop_bit n (uint x)"
  proof (rule disjunctive_add [symmetric])
    show "\<not> bit (push_bit m (take_bit n (uint x))) k \<or> \<not> bit (drop_bit n (uint x)) k" for k
      using assms by (auto simp: bit_simps dest: bit_imp_le_length)
  qed
  also have "push_bit m (take_bit n (uint x)) = uint x * 2 ^ m - drop_bit n (uint x) * 2 ^ (n + m)"
    by (simp add: take_bit_eq_mod push_bit_eq_mult drop_bit_eq_div minus_div_mult_eq_mod [symmetric] algebra_simps power_add)
  finally show ?thesis unfolding assms by (simp add: rr_def wrap_high_def)
qed

lemma uint_plus: "uint (x + y :: u32) = take_bit 32 (uint x + uint y)"
  by (simp add: uint_word_ariths take_bit_eq_mod)

lemma uint_drop_bit32: "uint (drop_bit n (x :: u32)) = drop_bit n (uint x)"
  by (rule bit_eqI) (auto simp: bit_simps dest: bit_imp_le_length)

lemma word_xor_eqs:
  fixes a b c :: u32
  shows "(a AND b) XOR (NOT a AND c) = c XOR (a AND (b XOR c))"
    and "(a AND b) XOR (a AND c) XOR (b AND c) = (a AND b) XOR (c AND (a XOR b))"
  by (rule bit_word_eqI; auto simp: bit_simps)+

fun ints_of :: "sha_state \<Rightarrow> int_state" where
  "ints_of (a, b, c, d, e, f, g, h) = (uint a, uint b, uint c, uint d, uint e, uint f, uint g, uint h)"

lemma int_round: "int_round (ints_of s) (uint k + uint w) = ints_of (sha_round s (k, w))"
proof -
  obtain a b c d e f g h where s: "s = (a, b, c, d, e, f, g, h)" by (cases s) auto
  show ?thesis
    unfolding s ints_of.simps int_round.simps sha_round.simps Let_def word_xor_eqs prod.inject
    by (simp add: uint_plus unsigned_xor_eq unsigned_and_eq uint_rotr32 take_bit_eq_mod mod_simps ac_simps)
qed

lemma int_rounds: "foldl int_round (ints_of s) (map (\<lambda>(k, w). uint k + uint w) kws) = ints_of (foldl sha_round s kws)"
proof (induction kws arbitrary: s)
  case (Cons kw kws)
  then show ?case using int_round [of s "fst kw" "snd kw"] by (simp add: case_prod_beta del: int_round.simps sha_round.simps)
qed simp

lemma uint_next_word:
  "uint (w + (rotr32 7 x XOR rotr32 18 x XOR drop_bit 3 x) + y + (rotr32 17 z XOR rotr32 19 z XOR drop_bit 10 z))
    = take_bit 32 (uint w + (rr 7 25 (uint x) XOR rr 18 14 (uint x) XOR drop_bit 3 (uint x)) + uint y
      + (rr 17 15 (uint z) XOR rr 19 13 (uint z) XOR drop_bit 10 (uint z)))"
  by (simp add: uint_plus uint_rotr32 unsigned_xor_eq uint_drop_bit32 take_bit_eq_mod mod_simps)

lemma sha_schedule_window:
  assumes "length ws = 16"
  shows "map uint (sha_schedule n (pre @ ws)) = map uint pre @ int_schedule n (map uint ws)"
  using assms
proof (induction n arbitrary: pre ws)
  case (Suc n)
  obtain w vs where ws: "ws = w # vs" "length vs = 15" using Suc.prems by (cases ws) auto
  have t: "length (pre @ ws) = length pre + 16" using Suc.prems by simp
  have nth: "(pre @ ws) ! (length pre + 16 - k) = ws ! m" if "16 - k = m" "k \<le> 16" for k m
  proof -
    have "length pre + 16 - k = length pre + m" using that by simp
    then show ?thesis by (simp only: nth_append_length_plus)
  qed
  have idx: "(pre @ ws) ! (length pre + 16 - 15) = ws ! 1" "(pre @ ws) ! (length pre + 16 - 2) = ws ! 14"
    "(pre @ ws) ! (length pre + 16 - 16) = ws ! 0" "(pre @ ws) ! (length pre + 16 - 7) = ws ! 9"
    by (rule nth; simp)+
  have at: "map uint ws ! 1 = uint (ws ! 1)" "map uint ws ! 9 = uint (ws ! 9)" "map uint ws ! 14 = uint (ws ! 14)"
    by (rule nth_map; simp add: ws)+
  define new where "new = w + (rotr32 7 (ws ! 1) XOR rotr32 18 (ws ! 1) XOR drop_bit 3 (ws ! 1)) + ws ! 9
    + (rotr32 17 (ws ! 14) XOR rotr32 19 (ws ! 14) XOR drop_bit 10 (ws ! 14))"
  have step: "sha_schedule (Suc n) (pre @ ws) = sha_schedule n ((pre @ [w]) @ (vs @ [new]))"
    unfolding sha_schedule.simps Let_def t idx new_def by (simp only: ws(1) nth_Cons_0 append_assoc append_Cons append_Nil)
  have "next_window (map uint ws) = map uint (vs @ [new])"
    unfolding next_window_def uint_next_word list.map map_append at new_def by (simp only: ws(1) list.map list.sel)
  then have "map uint pre @ int_schedule (Suc n) (map uint ws) = map uint (pre @ [w]) @ int_schedule n (map uint (vs @ [new]))"
    by (simp add: ws(1))
  also have "\<dots> = map uint (sha_schedule n ((pre @ [w]) @ (vs @ [new])))"
    by (rule Suc.IH [symmetric]) (simp add: ws)
  finally show ?case by (simp only: step)
qed simp

fun int_add :: "int_state \<Rightarrow> int_state \<Rightarrow> int_state" where
  "int_add (a, b, c, d, e, f, g, h) (a', b', c', d', e', f', g', h') =
     (take_bit 32 (a + a'), take_bit 32 (b + b'), take_bit 32 (c + c'), take_bit 32 (d + d'),
      take_bit 32 (e + e'), take_bit 32 (f + f'), take_bit 32 (g + g'), take_bit 32 (h + h'))"

lemma int_add: "int_add (ints_of s) (ints_of t) = ints_of (sha_add s t)"
  by (cases s rule: ints_of.cases; cases t rule: ints_of.cases) (simp add: uint_plus)

definition int_block :: "int_state \<Rightarrow> int list \<Rightarrow> int_state" where
  "int_block s ws = int_add s (foldl int_round s (map2 (+) (map uint sha_K) (int_schedule 48 ws)))"

lemma int_block:
  assumes "length ws = 16"
  shows "int_block (ints_of s) (map uint ws) = ints_of (sha_block s ws)"
proof -
  have "map2 (+) (map uint sha_K) (int_schedule 48 (map uint ws)) = map (\<lambda>(k, w). uint k + uint w) (zip sha_K (sha_schedule 48 ws))"
    using sha_schedule_window [OF assms, of 48 "[]", symmetric] by (simp add: zip_map1 zip_map2 case_prod_beta comp_def)
  then show ?thesis
    by (simp add: int_block_def sha_block_def int_rounds int_add)
qed

fun int_blocks :: "int_state \<Rightarrow> int list \<Rightarrow> nat \<Rightarrow> int_state" where
  "int_blocks s ws 0 = s"
| "int_blocks s ws (Suc n) = int_blocks (int_block s (take 16 ws)) (drop 16 ws) n"

lemma int_blocks: "16 * n \<le> length ws \<Longrightarrow> int_blocks (ints_of s) (map uint ws) n = ints_of (sha_blocks s ws n)"
proof (induction n arbitrary: s ws)
  case (Suc n)
  then have "length (take 16 ws) = 16" by simp
  then have "int_block (ints_of s) (map uint (take 16 ws)) = ints_of (sha_block s (take 16 ws))" by (rule int_block)
  then show ?case using Suc.IH [of "drop 16 ws"] Suc.prems by (simp add: take_map drop_map)
qed simp

fun int_words :: "nat list \<Rightarrow> int list" where
  "int_words (a # b # c # d # xs) = int (a * 16777216 + b * 65536 + c * 256 + d) # int_words xs"
| "int_words _ = []"

lemma int_words: "\<forall>x\<in>set xs. x < 256 \<Longrightarrow> map uint (be_words xs) = int_words xs"
proof (induction xs rule: be_words.induct)
  case (1 a b c d xs)
  then have "a * 16777216 + b * 65536 + c * 256 + d < 2 ^ 32" by simp
  moreover have "n < 2 ^ 32 \<Longrightarrow> uint (word_of_nat n :: u32) = int n" for n
    by (simp add: unsigned_of_nat take_bit_nat_eq_self)
  ultimately have "uint (word_of_nat (a * 16777216 + b * 65536 + c * 256 + d) :: u32) = int (a * 16777216 + b * 65536 + c * 256 + d)"
    by blast
  then show ?case using 1 by simp
qed auto

lemma length_be_words: "length (be_words xs) = length xs div 4"
  by (induction xs rule: be_words.induct) auto

definition int_hex :: "int \<Rightarrow> string" where
  "int_hex w = map (\<lambda>i. hex_digit (nat (drop_bit i w mod 16))) [28, 24, 20, 16, 12, 8, 4, 0]"

lemma int_hex: "int_hex (uint w) = hex_u32 w"
proof -
  have "nat (uint v mod 16) = unat v mod 16" for v :: u32 by (simp add: nat_mod_distrib)
  then have "nat (drop_bit i (uint w) mod 16) = unat (drop_bit i w) mod 16" for i
    by (simp add: uint_drop_bit32 [symmetric])
  then show ?thesis by (simp add: int_hex_def hex_u32_def)
qed

fun int_hex_state :: "int_state \<Rightarrow> string" where
  "int_hex_state (a, b, c, d, e, f, g, h) = int_hex a @ int_hex b @ int_hex c @ int_hex d @ int_hex e @ int_hex f @ int_hex g @ int_hex h"

lemma int_hex_state: "int_hex_state (ints_of s) = hex_state s"
  by (cases s rule: ints_of.cases) (simp add: int_hex)

definition int_sha256 :: "bytes \<Rightarrow> int_state" where
  "int_sha256 m = (let p = sha_pad (map of_char m) in int_blocks (ints_of sha_H0) (int_words p) (length p div 64))"

lemma sha256_hex_int: "sha256_hex m = int_hex_state (int_sha256 m)"
proof -
  let ?p = "sha_pad (map of_char m)"
  have "\<forall>x\<in>set ?p. x < 256" by (auto simp: sha_pad_def be_bytes_def)
  moreover have "16 * (length ?p div 64) \<le> length (be_words ?p)" by (simp add: length_be_words)
  ultimately show ?thesis
    using int_blocks [of "length ?p div 64" "be_words ?p"] by (simp add: int_sha256_def sha256_hex_def Let_def int_words int_hex_state)
qed

definition low32 :: "int \<Rightarrow> int \<Rightarrow> int" where
  "low32 x d = x - d * 4294967296"

lemma take_bit_eval: "take_bit 32 (x :: int) = low32 x (drop_bit 32 x)"
  by (simp add: low32_def take_bit_eq_mod drop_bit_eq_div minus_div_mult_eq_mod)

lemma rr_eval:
  "rr 2 30 x = wrap_high x 1073741824 (drop_bit 2 x)" "rr 6 26 x = wrap_high x 67108864 (drop_bit 6 x)"
  "rr 7 25 x = wrap_high x 33554432 (drop_bit 7 x)" "rr 11 21 x = wrap_high x 2097152 (drop_bit 11 x)"
  "rr 13 19 x = wrap_high x 524288 (drop_bit 13 x)" "rr 17 15 x = wrap_high x 32768 (drop_bit 17 x)"
  "rr 18 14 x = wrap_high x 16384 (drop_bit 18 x)" "rr 19 13 x = wrap_high x 8192 (drop_bit 19 x)"
  "rr 22 10 x = wrap_high x 1024 (drop_bit 22 x)" "rr 25 7 x = wrap_high x 128 (drop_bit 25 x)"
  by (simp_all add: rr_def)

lemma drop_bit_1:
  "drop_bit 1 (numeral (Num.Bit0 n) :: int) = numeral n" "drop_bit 1 (numeral (Num.Bit1 n) :: int) = numeral n"
  "drop_bit i (0 :: int) = 0" "drop_bit 1 (1 :: int) = 0"
  by (simp_all add: drop_bit_eq_div)

lemma drop_bit_numeral_one: "drop_bit (numeral k) (1 :: int) = 0"
  by (simp only: drop_bit_eq_div) (rule div_pos_pos_trivial, simp, rule one_less_power, simp_all)

definition int_K :: "int list" where
  "int_K =
    [1116352408, 1899447441, 3049323471, 3921009573, 961987163, 1508970993, 2453635748, 2870763221,
     3624381080, 310598401, 607225278, 1426881987, 1925078388, 2162078206, 2614888103, 3248222580,
     3835390401, 4022224774, 264347078, 604807628, 770255983, 1249150122, 1555081692, 1996064986,
     2554220882, 2821834349, 2952996808, 3210313671, 3336571891, 3584528711, 113926993, 338241895,
     666307205, 773529912, 1294757372, 1396182291, 1695183700, 1986661051, 2177026350, 2456956037,
     2730485921, 2820302411, 3259730800, 3345764771, 3516065817, 3600352804, 4094571909, 275423344,
     430227734, 506948616, 659060556, 883997877, 958139571, 1322822218, 1537002063, 1747873779,
     1955562222, 2024104815, 2227730452, 2361852424, 2428436474, 2756734187, 3204031479, 3329325298]"

lemma int_K: "map uint sha_K = int_K"
  by (simp add: sha_K_def int_K_def)

definition int_H0 :: int_state where
  "int_H0 = (1779033703, 3144134277, 1013904242, 2773480762, 1359893119, 2600822924, 528734635, 1541459225)"

lemma int_H0: "ints_of sha_H0 = int_H0"
  by (simp add: sha_H0_def int_H0_def)

text \<open>Rounds and schedule in one pass over the constants, on a window of sixteen words.\<close>

primrec int_rounds_on :: "int list \<Rightarrow> int list \<Rightarrow> int_state \<Rightarrow> int_state" where
  "int_rounds_on [] ws s = s"
| "int_rounds_on (k # ks) ws s = int_rounds_on ks (next_window ws) (int_round s (k + hd ws))"

lemma length_next_window: "length ws = 16 \<Longrightarrow> length (next_window ws) = 16"
  by (simp add: next_window_def)

lemma int_schedule_prefix:
  assumes "length ws = 16"
  shows "take (n + 16) (int_schedule (n + m) ws) = int_schedule n ws"
  using assms
proof (induction n arbitrary: ws)
  case 0
  then show ?case
  proof (induction m arbitrary: ws)
    case (Suc m)
    then obtain w vs where ws: "ws = w # vs" "length vs = 15" by (cases ws) auto
    have "take 16 (int_schedule m (next_window ws)) = next_window ws"
      using Suc.IH [of "next_window ws"] Suc.prems by (simp add: length_next_window)
    then have "take 15 (take 16 (int_schedule m (next_window ws))) = take 15 (next_window ws)" by (rule arg_cong)
    then have "take 15 (int_schedule m (next_window ws)) = take 15 (next_window ws)" by simp
    then show ?case using ws by (simp add: next_window_def)
  qed simp
next
  case (Suc n)
  have "take (n + 16) (int_schedule (n + m) (next_window ws)) = int_schedule n (next_window ws)"
    by (rule Suc.IH) (rule length_next_window [OF Suc.prems])
  then show ?case by (simp only: add_Suc int_schedule.simps take_Suc_Cons)
qed

lemma int_rounds_on:
  assumes "length ws = 16"
  shows "int_rounds_on ks ws s = foldl int_round s (map2 (+) ks (int_schedule (length ks) ws))"
  using assms by (induction ks arbitrary: ws s) (simp_all add: length_next_window)

lemma next_window_eval:
  "next_window [w0, w1, w2, w3, w4, w5, w6, w7, w8, w9, wa, wb, wc, wd, we, wz] =
     [w1, w2, w3, w4, w5, w6, w7, w8, w9, wa, wb, wc, wd, we, wz,
      take_bit 32 (w0 + (rr 7 25 w1 XOR rr 18 14 w1 XOR drop_bit 3 w1) + w9 + (rr 17 15 we XOR rr 19 13 we XOR drop_bit 10 we))]"
  by (simp add: next_window_def)

lemma length_int_schedule: "length ws = 16 \<Longrightarrow> length (int_schedule n ws) = n + 16"
  by (induction n arbitrary: ws) (simp_all add: length_next_window)

lemma int_block_eval:
  assumes "length ws = 16"
  shows "int_block s ws = int_add s (int_rounds_on int_K ws s)"
proof -
  have "length int_K = 64" by (simp add: int_K_def)
  moreover have "zip ks xs = zip ks (take (length ks) xs)" for ks xs :: "int list"
    by (induction ks arbitrary: xs) (auto simp: zip_Cons1 split: list.split)
  then have "zip int_K (int_schedule 64 ws) = zip int_K (take (length int_K) (int_schedule 64 ws))" .
  moreover have "take 64 (int_schedule 64 ws) = int_schedule 48 ws" using int_schedule_prefix [OF assms, of 48 16] by simp
  ultimately show ?thesis by (simp add: int_block_def int_K int_rounds_on [OF assms])
qed

text \<open>The rules that evaluate a block on literals, for \<open>simp only\<close>.\<close>

lemmas int_block_rules =
  rel_simps arith_simps drop_bit_numeral_bit0 drop_bit_numeral_bit1 drop_bit_1 drop_bit_numeral_one
  diff_numeral_simps diff_numeral_special diff_0_right diff_self xor_numerals and_numerals pred_numeral_simps
  numeral_One one_plus_numeral numeral_plus_one one_add_one add_0_right add_0_left
  mult_zero_right mult_zero_left mult_1_right mult_1_left
  xor.left_neutral xor.right_neutral and_zero_eq zero_and_eq xor_self_eq and.idem
  rr_eval next_window_eval list.sel int_rounds_on.simps take_bit_eval low32_def wrap_high_def Let_def
  int_round.simps int_add.simps int_K_def

lemma be_bytes_8:
  "be_bytes 8 n = [n div 72057594037927936 mod 256, n div 281474976710656 mod 256, n div 1099511627776 mod 256,
     n div 4294967296 mod 256, n div 16777216 mod 256, n div 65536 mod 256, n div 256 mod 256, n mod 256]"
  by (simp add: be_bytes_def upt_rec)

lemma replicate_more: "replicate (numeral k) x = x # replicate (pred_numeral k) x"
  by (simp add: numeral_eq_Suc)

lemmas sha_pad_rules = sha_pad_def be_bytes_8 replicate_more

lemma int_blocks_step:
  "int_blocks s (w0 # w1 # w2 # w3 # w4 # w5 # w6 # w7 # w8 # w9 # wa # wb # wc # wd # we # wz # ws) (Suc n) =
     int_blocks (int_add s (int_rounds_on int_K [w0, w1, w2, w3, w4, w5, w6, w7, w8, w9, wa, wb, wc, wd, we, wz] s)) ws n"
  by (simp add: int_block_eval)

lemma int_blocks_numeral: "int_blocks s ws (numeral k) = int_blocks s ws (Suc (pred_numeral k))"
  "int_blocks s ws 1 = int_blocks s ws (Suc 0)"
  by (simp_all add: numeral_eq_Suc)

lemmas int_blocks_rules = int_blocks_numeral int_blocks_step int_blocks.simps(1) int_H0_def int_block_rules

lemma sha256_hex_eval:
  assumes "sha_pad (map of_char m) = bs" and "int_words bs = ws" and "length bs div 64 = n"
    and "int_blocks int_H0 ws n = s" and "int_hex_state s = t"
  shows "sha256_hex m = t"
  using assms by (simp add: sha256_hex_int int_sha256_def Let_def int_H0)

text \<open>The two test vectors of FIPS 180-4.\<close>

lemma sha256_abc: "sha256_hex ''abc'' = ''ba7816bf8f01cfea414140de5dae2223b00361a396177a9cb410ff61f20015ad''"
  apply (rule sha256_hex_eval)
      apply (simp add: sha_pad_rules)
     apply simp
    apply simp
   apply (simp only: int_blocks_rules)
  apply code_simp
  done

lemma sha256_two_blocks:
  "sha256_hex ''abcdbcdecdefdefgefghfghighijhijkijkljklmklmnlmnomnopnopq''
    = ''248d6a61d20638b8e5c026930c3e6039a33ce45964ff2167f6ecedd419db06c1''"
  apply (rule sha256_hex_eval)
      apply (simp add: sha_pad_rules)
     apply simp
    apply simp
   apply (simp only: int_blocks_rules)
  apply code_simp
  done

end
