(* ===== verification/Agent_Session.thy ===== *)
theory Agent_Session
  imports Go_Struct Go_Time
begin

text \<open>
  Agents and their sessions, \<open>internal/agent/runtime\<close>: the session (\<open>session.go\<close>), its serialisable state and the
  in-memory store of states (\<open>state.go\<close>), the agent's status (\<open>agent.go\<close>), the manager (\<open>manager.go\<close>) and the
  scheduler that wakes agents (\<open>scheduler.go\<close>).  A method that holds the session's or agent's lock is one step.
  Instants are written in the zone of the process, given by its offset.
\<close>

section \<open>Sessions\<close>

record Message =
  MS_Role :: string
  MS_Content :: string
  MS_Time :: gotime

record MemoryBlock =
  MB_ID :: string
  MB_Type :: string
  MB_Key :: string
  MB_Content :: string
  MB_Metadata :: gomap
  MB_CreatedAt :: gotime
  MB_UpdatedAt :: gotime

record ToolCallRecord =
  TC_ToolName :: string
  TC_Input :: string
  TC_Output :: string
  TC_At :: gotime

record Session =
  SE_ID :: string
  SE_AgentID :: string
  SE_TenantID :: string
  SE_Messages :: "Message list"
  SE_MemoryBlocks :: "MemoryBlock list"
  SE_Variables :: gomap
  SE_ToolCalls :: "ToolCallRecord list"
  SE_Scratchpad :: string
  SE_CurrentTask :: string
  SE_LastCheckpoint :: string
  SE_CreatedAt :: gotime
  SE_UpdatedAt :: gotime

text \<open>The identifier of a session without one is fresh: \<open>uuid\<close>.\<close>

definition NewSession :: "gotime \<Rightarrow> string \<Rightarrow> string \<Rightarrow> string \<Rightarrow> Session" where
  "NewSession now uuid id' agentID =
     \<lparr>SE_ID = (if id' = [] then ''session-'' @ uuid else id'), SE_AgentID = agentID, SE_TenantID = ''default'',
      SE_Messages = [], SE_MemoryBlocks = [], SE_Variables = [], SE_ToolCalls = [], SE_Scratchpad = [], SE_CurrentTask = [],
      SE_LastCheckpoint = [], SE_CreatedAt = now, SE_UpdatedAt = now\<rparr>"

definition NewSessionWithTenant :: "gotime \<Rightarrow> string \<Rightarrow> string \<Rightarrow> string \<Rightarrow> string \<Rightarrow> Session" where
  "NewSessionWithTenant now uuid id' agentID tenantID =
     (NewSession now uuid id' agentID)\<lparr>SE_TenantID := (if tenantID = [] then ''default'' else tenantID)\<rparr>"

definition AddMessage :: "gotime \<Rightarrow> string \<Rightarrow> string \<Rightarrow> Session \<Rightarrow> Session" where
  "AddMessage now role content s = s\<lparr>SE_UpdatedAt := now,
     SE_Messages := SE_Messages s @ [\<lparr>MS_Role = role, MS_Content = content, MS_Time = now\<rparr>]\<rparr>"

definition SetVariable :: "gotime \<Rightarrow> string \<Rightarrow> goval \<Rightarrow> Session \<Rightarrow> Session" where
  "SetVariable now key value s = s\<lparr>SE_UpdatedAt := now, SE_Variables := gput key value (SE_Variables s)\<rparr>"

definition GetVariable :: "string \<Rightarrow> Session \<Rightarrow> goval option" where
  "GetVariable key s = map_of (SE_Variables s) key"

definition AddToolCall :: "gotime \<Rightarrow> string \<Rightarrow> string \<Rightarrow> string \<Rightarrow> Session \<Rightarrow> Session" where
  "AddToolCall now toolName input output s = s\<lparr>SE_UpdatedAt := now,
     SE_ToolCalls := SE_ToolCalls s @ [\<lparr>TC_ToolName = toolName, TC_Input = input, TC_Output = output, TC_At = now\<rparr>]\<rparr>"

definition SetScratchpad :: "gotime \<Rightarrow> string \<Rightarrow> Session \<Rightarrow> Session" where
  "SetScratchpad now t s = s\<lparr>SE_UpdatedAt := now, SE_Scratchpad := t\<rparr>"

definition SetCurrentTask :: "gotime \<Rightarrow> string \<Rightarrow> Session \<Rightarrow> Session" where
  "SetCurrentTask now t s = s\<lparr>SE_UpdatedAt := now, SE_CurrentTask := t\<rparr>"

definition SetLastCheckpoint :: "gotime \<Rightarrow> string \<Rightarrow> Session \<Rightarrow> Session" where
  "SetLastCheckpoint now cp s = s\<lparr>SE_UpdatedAt := now, SE_LastCheckpoint := cp\<rparr>"

definition SetTenantID :: "gotime \<Rightarrow> string \<Rightarrow> Session \<Rightarrow> Session" where
  "SetTenantID now tenantID s = s\<lparr>SE_TenantID := tenantID, SE_UpdatedAt := now\<rparr>"

definition AddMemoryBlock :: "gotime \<Rightarrow> MemoryBlock \<Rightarrow> Session \<Rightarrow> Session" where
  "AddMemoryBlock now b s = s\<lparr>SE_UpdatedAt := now,
     SE_MemoryBlocks := SE_MemoryBlocks s @ [b\<lparr>MB_CreatedAt := now, MB_UpdatedAt := now\<rparr>]\<rparr>"

fun GetMemoryBlock :: "string \<Rightarrow> MemoryBlock list \<Rightarrow> MemoryBlock option" where
  "GetMemoryBlock id' [] = None"
| "GetMemoryBlock id' (b # bs) = (if MB_ID b = id' then Some b else GetMemoryBlock id' bs)"

definition GetMemoryBlocksByType :: "string \<Rightarrow> Session \<Rightarrow> MemoryBlock list" where
  "GetMemoryBlocksByType memType s = filter (\<lambda>b. MB_Type b = memType) (SE_MemoryBlocks s)"

text \<open>The first block with the identifier goes.\<close>

fun drop_block :: "string \<Rightarrow> MemoryBlock list \<Rightarrow> MemoryBlock list option" where
  "drop_block id' [] = None"
| "drop_block id' (b # bs) = (if MB_ID b = id' then Some bs else map_option (Cons b) (drop_block id' bs))"

definition RemoveMemoryBlock :: "gotime \<Rightarrow> string \<Rightarrow> Session \<Rightarrow> bool \<times> Session" where
  "RemoveMemoryBlock now id' s = (case drop_block id' (SE_MemoryBlocks s) of
       None \<Rightarrow> (False, s) | Some bs \<Rightarrow> (True, s\<lparr>SE_MemoryBlocks := bs, SE_UpdatedAt := now\<rparr>))"

section \<open>The state of an agent\<close>

record AgentState =
  AS_AgentID :: string
  AS_SessionID :: string
  AS_Messages :: "Message list"
  AS_Variables :: gomap
  AS_ToolCalls :: "ToolCallRecord list"
  AS_Scratchpad :: string
  AS_LastCheckpoint :: string
  AS_UpdatedAt :: gotime

definition SessionToAgentState :: "Session \<Rightarrow> AgentState" where
  "SessionToAgentState s = \<lparr>AS_AgentID = SE_AgentID s, AS_SessionID = SE_ID s, AS_Messages = SE_Messages s,
     AS_Variables = SE_Variables s, AS_ToolCalls = SE_ToolCalls s, AS_Scratchpad = SE_Scratchpad s,
     AS_LastCheckpoint = SE_LastCheckpoint s, AS_UpdatedAt = SE_UpdatedAt s\<rparr>"

definition ApplyAgentState :: "AgentState \<Rightarrow> Session \<Rightarrow> Session" where
  "ApplyAgentState st s = s\<lparr>
     SE_Messages := (if AS_Messages st \<noteq> [] then AS_Messages st else SE_Messages s),
     SE_Variables := (if AS_Variables st \<noteq> [] then AS_Variables st else SE_Variables s),
     SE_ToolCalls := (if AS_ToolCalls st \<noteq> [] then AS_ToolCalls st else SE_ToolCalls s),
     SE_Scratchpad := (if AS_Scratchpad st \<noteq> [] then AS_Scratchpad st else SE_Scratchpad s),
     SE_LastCheckpoint := AS_LastCheckpoint st, SE_UpdatedAt := AS_UpdatedAt st\<rparr>"

type_synonym agentStateStoreMem = "string \<rightharpoonup> AgentState"

definition stateKey :: "string \<Rightarrow> string \<Rightarrow> string" where
  "stateKey agentID sessionID = agentID @ [CHR 0x00] @ sessionID"

definition SaveAgentState :: "string \<Rightarrow> string \<Rightarrow> AgentState option \<Rightarrow> agentStateStoreMem \<Rightarrow> agentStateStoreMem" where
  "SaveAgentState agentID sessionID st m = (case st of None \<Rightarrow> m
     | Some a \<Rightarrow> m(stateKey agentID sessionID \<mapsto> a\<lparr>AS_AgentID := agentID, AS_SessionID := sessionID\<rparr>))"

definition LoadAgentState :: "string \<Rightarrow> string \<Rightarrow> agentStateStoreMem \<Rightarrow> AgentState option" where
  "LoadAgentState agentID sessionID m = m (stateKey agentID sessionID)"

section \<open>The state as JSON\<close>

text \<open>
  \<open>json.Marshal\<close> of a state: fields in the order of the struct, the optional ones left out when empty; a nil slice of
  messages is \<open>null\<close>.  \<open>None\<close> is the error of a variable that has no JSON form.
\<close>

definition time_json :: "int \<Rightarrow> gotime \<Rightarrow> bytes" where
  "time_json zone t = json_quote (rfc3339nano zone t)"

definition message_text :: "int \<Rightarrow> Message \<Rightarrow> bytes" where
  "message_text zone m = fields_text [(''role'', json_quote (MS_Role m)), (''content'', json_quote (MS_Content m)),
     (''time'', time_json zone (MS_Time m))]"

definition tool_call_text :: "int \<Rightarrow> ToolCallRecord \<Rightarrow> bytes" where
  "tool_call_text zone c = fields_text ([(''tool_name'', json_quote (TC_ToolName c))]
     @ (if TC_Input c = [] then [] else [(''input'', json_quote (TC_Input c))])
     @ (if TC_Output c = [] then [] else [(''output'', json_quote (TC_Output c))])
     @ [(''at'', time_json zone (TC_At c))])"

definition state_text :: "int \<Rightarrow> AgentState \<Rightarrow> bytes option" where
  "state_text zone st =
     (let vars = marshal_map (AS_Variables st)
      in if AS_Variables st \<noteq> [] \<and> vars = [] then None
         else Some (fields_text ([(''agent_id'', json_quote (AS_AgentID st)), (''session_id'', json_quote (AS_SessionID st)),
             (''messages'', if AS_Messages st = [] then ''null'' else array_text (map (message_text zone) (AS_Messages st)))]
           @ (if AS_Variables st = [] then [] else [(''variables'', vars)])
           @ (if AS_ToolCalls st = [] then [] else [(''tool_calls'', array_text (map (tool_call_text zone) (AS_ToolCalls st)))])
           @ (if AS_Scratchpad st = [] then [] else [(''scratchpad'', json_quote (AS_Scratchpad st))])
           @ (if AS_LastCheckpoint st = [] then [] else [(''last_checkpoint'', json_quote (AS_LastCheckpoint st))])
           @ [(''updated_at'', time_json zone (AS_UpdatedAt st))])))"

text \<open>A \<open>time.Time\<close> field: \<open>null\<close> leaves it, a string must be a strict RFC 3339 text.  The zone of the text is forgotten.\<close>

definition set_time :: "gotime option \<Rightarrow> bytes \<Rightarrow> gotime option" where
  "set_time x r = (case x of None \<Rightarrow> None
     | Some old \<Rightarrow> if r = ''null'' then Some old
                else if hd r = CHR 0x22 then map_option snd (parse_rfc3339 False (butlast (tl r))) else None)"

definition time_field :: "string \<Rightarrow> (string \<times> bytes) list \<Rightarrow> gotime option" where
  "time_field name ms = foldl set_time (Some 0) (field_raws name ms)"

definition decode_message :: "bytes \<Rightarrow> Message option" where
  "decode_message b = do {
     ms \<leftarrow> decode_object b;
     r \<leftarrow> string_field ''role'' ms;
     c \<leftarrow> string_field ''content'' ms;
     t \<leftarrow> time_field ''time'' ms;
     Some \<lparr>MS_Role = r, MS_Content = c, MS_Time = t\<rparr>
   }"

definition decode_tool_call :: "bytes \<Rightarrow> ToolCallRecord option" where
  "decode_tool_call b = do {
     ms \<leftarrow> decode_object b;
     n \<leftarrow> string_field ''tool_name'' ms;
     i \<leftarrow> string_field ''input'' ms;
     out \<leftarrow> string_field ''output'' ms;
     t \<leftarrow> time_field ''at'' ms;
     Some \<lparr>TC_ToolName = n, TC_Input = i, TC_Output = out, TC_At = t\<rparr>
   }"

text \<open>A field of type \<open>map[string]any\<close>.\<close>

definition vars_field :: "string \<Rightarrow> (string \<times> bytes) list \<Rightarrow> gomap option" where
  "vars_field name ms = foldl (\<lambda>x r. do {
       m \<leftarrow> x;
       (case decode_map r of DecodeError \<Rightarrow> None | NilMap \<Rightarrow> Some [] | MapOf m' \<Rightarrow> Some (gmerge m m'))
     }) (Some []) (field_raws name ms)"

definition decode_state :: "bytes \<Rightarrow> AgentState option" where
  "decode_state b = do {
     ms \<leftarrow> decode_object b;
     a \<leftarrow> string_field ''agent_id'' ms;
     s \<leftarrow> string_field ''session_id'' ms;
     msgs \<leftarrow> Option.bind (elems_field ''messages'' ms) (\<lambda>rs. those (map decode_message rs));
     vars \<leftarrow> vars_field ''variables'' ms;
     calls \<leftarrow> Option.bind (elems_field ''tool_calls'' ms) (\<lambda>rs. those (map decode_tool_call rs));
     pad \<leftarrow> string_field ''scratchpad'' ms;
     cp \<leftarrow> string_field ''last_checkpoint'' ms;
     t \<leftarrow> time_field ''updated_at'' ms;
     Some \<lparr>AS_AgentID = a, AS_SessionID = s, AS_Messages = msgs, AS_Variables = vars, AS_ToolCalls = calls,
           AS_Scratchpad = pad, AS_LastCheckpoint = cp, AS_UpdatedAt = t\<rparr>
   }"

section \<open>Agents\<close>

datatype AgentStatus = StatusIdle | StatusRunning | StatusWaitingTool | StatusSuspended | StatusFailed

definition status_name :: "AgentStatus \<Rightarrow> string" where
  "status_name s = (case s of StatusIdle \<Rightarrow> ''idle'' | StatusRunning \<Rightarrow> ''running'' | StatusWaitingTool \<Rightarrow> ''waiting_tool''
     | StatusSuspended \<Rightarrow> ''suspended'' | StatusFailed \<Rightarrow> ''failed'')"

record Agent =
  AG_ID :: string
  AG_Name :: string
  AG_Session :: "Session option"
  AG_Status :: AgentStatus

definition NewAgent :: "string \<Rightarrow> string \<Rightarrow> string \<Rightarrow> Session option \<Rightarrow> Agent" where
  "NewAgent uuid id' name session = (let i = (if id' = [] then ''agent-'' @ uuid else id')
     in \<lparr>AG_ID = i, AG_Name = (if name = [] then i else name), AG_Session = session, AG_Status = StatusIdle\<rparr>)"

definition SetStatus :: "AgentStatus \<Rightarrow> Agent \<Rightarrow> Agent" where
  "SetStatus st a = a\<lparr>AG_Status := st\<rparr>"

definition Take :: "Agent \<Rightarrow> bool \<times> Agent" where
  "Take a = (if AG_Status a \<in> {StatusIdle, StatusSuspended} then (True, a\<lparr>AG_Status := StatusRunning\<rparr>) else (False, a))"

definition Release :: "Agent \<Rightarrow> Agent" where
  "Release a = (if AG_Status a \<in> {StatusRunning, StatusWaitingTool} then a\<lparr>AG_Status := StatusIdle\<rparr> else a)"

section \<open>Manager and scheduler\<close>

text \<open>The agents by identifier; the pointers a caller keeps are the entries themselves.\<close>

type_synonym Manager = "string \<rightharpoonup> Agent"

definition Manager_Create :: "gotime \<Rightarrow> string \<Rightarrow> string \<Rightarrow> string \<Rightarrow> Session option \<Rightarrow> Manager \<Rightarrow> Agent \<times> Manager" where
  "Manager_Create now uuid uuid2 name session m =
     (let i = ''agent-'' @ uuid;
          s = (case session of None \<Rightarrow> NewSession now uuid2 [] i | Some s \<Rightarrow> s);
          s' = (if SE_AgentID s = [] then s\<lparr>SE_AgentID := i\<rparr> else s);
          a = NewAgent uuid i name (Some s')
      in (a, m(i \<mapsto> a)))"

text \<open>The session passed in is changed even when the identifier is taken.\<close>

definition Manager_Register ::
  "gotime \<Rightarrow> string \<Rightarrow> string \<Rightarrow> string \<Rightarrow> string \<Rightarrow> Session option \<Rightarrow> Manager \<Rightarrow> (string + Agent) \<times> Manager" where
  "Manager_Register now uuid uuid2 id' name session m =
     (let i = (if id' = [] then ''agent-'' @ uuid else id');
          s = (case session of None \<Rightarrow> NewSession now uuid2 [] i | Some s \<Rightarrow> s);
          a = NewAgent uuid i name (Some (s\<lparr>SE_AgentID := i\<rparr>))
      in if m i \<noteq> None then (Inl (''agent '' @ json_quote i @ '' is already registered''), m) else (Inr a, m(i \<mapsto> a)))"

definition Manager_Get :: "string \<Rightarrow> Manager \<Rightarrow> Agent option" where
  "Manager_Get id' m = m id'"

definition Manager_Delete :: "string \<Rightarrow> Manager \<Rightarrow> Manager" where
  "Manager_Delete id' m = m(id' := None)"

text \<open>Taking the agent, which is what decides whether the callback runs; the callback is called after it, without a lock.\<close>

definition wake_take :: "string \<Rightarrow> Manager \<Rightarrow> bool \<times> Manager" where
  "wake_take id' m = (case m id' of None \<Rightarrow> (False, m)
     | Some a \<Rightarrow> (case Take a of (ok, a') \<Rightarrow> (ok, m(id' \<mapsto> a'))))"

definition resume_take :: "string \<Rightarrow> Manager \<Rightarrow> bool \<times> Manager" where
  "resume_take id' m = (case m id' of None \<Rightarrow> (False, m)
     | Some a \<Rightarrow> (case Take (Release a) of (ok, a') \<Rightarrow> (ok, m(id' \<mapsto> a'))))"

definition call_run :: "(string \<Rightarrow> Manager \<Rightarrow> Manager) option \<Rightarrow> string \<Rightarrow> bool \<times> Manager \<Rightarrow> Manager" where
  "call_run run id' r = (if fst r then (case run of None \<Rightarrow> snd r | Some f \<Rightarrow> f id' (snd r)) else snd r)"

definition WakeAgent :: "(string \<Rightarrow> Manager \<Rightarrow> Manager) option \<Rightarrow> string \<Rightarrow> Manager \<Rightarrow> Manager" where
  "WakeAgent run id' m = call_run run id' (wake_take id' m)"

definition Scheduler_Resume :: "(string \<Rightarrow> Manager \<Rightarrow> Manager) option \<Rightarrow> string \<Rightarrow> Manager \<Rightarrow> Manager" where
  "Scheduler_Resume run id' m = call_run run id' (resume_take id' m)"

definition Scheduler_Suspend :: "string \<Rightarrow> Manager \<Rightarrow> Manager" where
  "Scheduler_Suspend id' m = (case m id' of None \<Rightarrow> m | Some a \<Rightarrow> m(id' \<mapsto> SetStatus StatusSuspended a))"

definition Scheduler_Stop :: "string \<Rightarrow> Manager \<Rightarrow> Manager" where
  "Scheduler_Stop id' m = (case m id' of None \<Rightarrow> m | Some a \<Rightarrow> m(id' \<mapsto> SetStatus StatusIdle a))"

section \<open>Runs of one agent\<close>

text \<open>
  The agent with the number of its runs in progress.  A run starts with a take that succeeds and ends when the
  callback gives the agent back, as \<open>RunForJob\<close> does with its deferred \<open>SetStatus(StatusIdle)\<close>.
\<close>

datatype sched_call = CallWake | CallResume | CallSuspend | CallStop | RunEnds

fun sched_step :: "string \<Rightarrow> sched_call \<Rightarrow> Manager \<times> nat \<Rightarrow> Manager \<times> nat" where
  "sched_step id' CallWake (m, n) = (case wake_take id' m of (ok, m') \<Rightarrow> (m', if ok then Suc n else n))"
| "sched_step id' CallResume (m, n) = (case resume_take id' m of (ok, m') \<Rightarrow> (m', if ok then Suc n else n))"
| "sched_step id' CallSuspend (m, n) = (Scheduler_Suspend id' m, n)"
| "sched_step id' CallStop (m, n) = (Scheduler_Stop id' m, n)"
| "sched_step id' RunEnds (m, n) = (if n = 0 then (m, n) else (Scheduler_Stop id' m, n - 1))"

definition sched_run :: "string \<Rightarrow> sched_call list \<Rightarrow> Manager \<times> nat \<Rightarrow> Manager \<times> nat" where
  "sched_run id' cs s = foldl (\<lambda>s c. sched_step id' c s) s cs"

text \<open>Calls that respect a run: an agent is resumed, suspended or stopped only while no run is in progress.\<close>

fun polite :: "string \<Rightarrow> sched_call list \<Rightarrow> Manager \<times> nat \<Rightarrow> bool" where
  "polite id' [] s = True"
| "polite id' (c # cs) s = ((c \<in> {CallWake, RunEnds} \<or> snd s = 0) \<and> polite id' cs (sched_step id' c s))"

definition exclusive :: "string \<Rightarrow> Manager \<times> nat \<Rightarrow> bool" where
  "exclusive id' s \<longleftrightarrow> snd s \<le> 1 \<and> (0 < snd s \<longrightarrow> (\<exists>a. fst s id' = Some a \<and> AG_Status a = StatusRunning))"

lemma sched_step_exclusive:
  assumes "exclusive id' s" and "c \<in> {CallWake, RunEnds} \<or> snd s = 0"
  shows "exclusive id' (sched_step id' c s)"
  using assms
  by (cases s; cases c)
    (auto simp: exclusive_def wake_take_def resume_take_def Take_def Release_def Scheduler_Suspend_def Scheduler_Stop_def
      SetStatus_def split: option.splits if_splits)

text \<open> However WakeAgent is called, and however the other calls are, as long as they do not meet a run in progress, an agent never has two runs at once.\<close>

theorem wake_runs_agent_once:
  assumes "polite id' cs (m, 0)"
  shows "snd (sched_run id' cs (m, 0)) \<le> 1"
proof -
  have "polite id' cs s \<Longrightarrow> exclusive id' s \<Longrightarrow> exclusive id' (sched_run id' cs s)" for s
    unfolding sched_run_def
  proof (induction cs arbitrary: s)
    case (Cons c cs)
    then show ?case using sched_step_exclusive [of id' s c] by simp
  qed simp
  then show ?thesis using assms by (force simp: exclusive_def)
qed

lemma sched_run_Cons: "sched_run id' (c # cs) s = sched_run id' cs (sched_step id' c s)"
  by (simp add: sched_run_def)

text \<open>
   Resume takes the agent from a run in progress: it releases a running agent and takes it again, so that a second
  run starts, and Suspend followed by WakeAgent does the same.
\<close>

theorem resume_starts_second_run:
  assumes "m id' = Some a" and "AG_Status a = StatusRunning"
  shows "snd (sched_step id' CallResume (m, n)) = Suc n \<and> snd (sched_run id' [CallSuspend, CallWake] (m, n)) = Suc n
     \<and> snd (sched_step id' CallWake (m, n)) = n"
  using assms
  by (simp add: sched_run_def resume_take_def wake_take_def Release_def Take_def Scheduler_Suspend_def SetStatus_def)

definition ex_agent :: Agent where
  "ex_agent = NewAgent ''u'' ''a'' ''a'' None"

theorem wake_runs_agent_once_witness:
  "polite ''a'' [CallWake, CallWake, RunEnds, CallSuspend, CallResume] ([''a'' \<mapsto> ex_agent], 0)
     \<and> snd (sched_run ''a'' [CallWake, CallWake, RunEnds, CallSuspend, CallResume] ([''a'' \<mapsto> ex_agent], 0)) \<le> 1"
proof -
  have "polite ''a'' [CallWake, CallWake, RunEnds, CallSuspend, CallResume] ([''a'' \<mapsto> ex_agent], 0)"
    by (simp add: wake_take_def Take_def Scheduler_Stop_def SetStatus_def Scheduler_Suspend_def ex_agent_def NewAgent_def)
  then show ?thesis using wake_runs_agent_once by blast
qed

theorem resume_starts_second_run_witness:
  "snd (sched_step ''a'' CallResume ([''a'' \<mapsto> ex_agent\<lparr>AG_Status := StatusRunning\<rparr>], 1)) = 2"
  using resume_starts_second_run [of "[''a'' \<mapsto> ex_agent\<lparr>AG_Status := StatusRunning\<rparr>]" "''a''" "ex_agent\<lparr>AG_Status := StatusRunning\<rparr>" 1]
  by simp

section \<open>Restoring a session\<close>

text \<open>
  The state of a session read back from the store restores the session itself, and makes a fresh session of the same agent
  agree on everything the state holds; memory blocks, tenant and task are not part of it.
\<close>

lemma stored_state_restores_session:
  assumes "SE_ID s \<noteq> []"
  shows "map_option (\<lambda>st. ApplyAgentState st s)
      (LoadAgentState (SE_AgentID s) (SE_ID s) (SaveAgentState (SE_AgentID s) (SE_ID s) (Some (SessionToAgentState s)) m)) = Some s"
    and "map_option (\<lambda>st. SessionToAgentState (ApplyAgentState st (NewSession now uuid (SE_ID s) (SE_AgentID s))))
      (LoadAgentState (SE_AgentID s) (SE_ID s) (SaveAgentState (SE_AgentID s) (SE_ID s) (Some (SessionToAgentState s)) m))
      = Some (SessionToAgentState s)"
  using assms by (auto simp: LoadAgentState_def SaveAgentState_def ApplyAgentState_def SessionToAgentState_def NewSession_def)

end
