(* ===== verification/Checkpoint.thy ===== *)
theory Checkpoint
  imports Task_Graph Agent_Session
begin

text \<open>
  What a run of a job leaves behind to be resumed from: the JSON form of a task graph (\<open>Marshal\<close> and \<open>Unmarshal\<close> of
  \<open>internal/agent/planner/task_graph.go\<close>) and the checkpoints of \<open>internal/agent/runtime/checkpoint.go\<close> with their in-memory store.
\<close>

section \<open>Task graphs as JSON\<close>

text \<open>A graph with the nilness of its two slices, which its JSON form, and so the identity of the plan, depends on.\<close>

record GraphDoc =
  GD_Graph :: TaskGraph
  GD_NilNodes :: bool
  GD_NilEdges :: bool

definition node_text :: "TaskNode \<Rightarrow> bytes option" where
  "node_text n = (let cfg = marshal_map (TN_Config n)
     in if TN_Config n \<noteq> [] \<and> cfg = [] then None
        else Some (fields_text ([(''id'', json_quote (TN_ID n)), (''type'', json_quote (TN_Type n))]
          @ (if TN_Config n = [] then [] else [(''config'', cfg)])
          @ (if TN_ToolName n = [] then [] else [(''tool_name'', json_quote (TN_ToolName n))])
          @ (if TN_Workflow n = [] then [] else [(''workflow'', json_quote (TN_Workflow n))]))))"

definition edge_text :: "TaskEdge \<Rightarrow> bytes" where
  "edge_text e = fields_text [(''from'', json_quote (TE_From e)), (''to'', json_quote (TE_To e))]"

text \<open>\<open>graphBytes, _ := taskGraph.Marshal()\<close>: no bytes when a configuration has no JSON form.\<close>

definition Graph_Marshal :: "GraphDoc \<Rightarrow> bytes" where
  "Graph_Marshal d = (case those (map node_text (TG_Nodes (GD_Graph d))) of None \<Rightarrow> []
     | Some ns \<Rightarrow> fields_text
         [(''nodes'', if GD_NilNodes d then ''null'' else array_text ns),
          (''edges'', if GD_NilEdges d then ''null'' else array_text (map edge_text (TG_Edges (GD_Graph d))))])"

definition decode_node :: "bytes \<Rightarrow> TaskNode option" where
  "decode_node b = do {
     ms \<leftarrow> decode_object b;
     i \<leftarrow> string_field ''id'' ms;
     t \<leftarrow> string_field ''type'' ms;
     cfg \<leftarrow> vars_field ''config'' ms;
     tn \<leftarrow> string_field ''tool_name'' ms;
     wf \<leftarrow> string_field ''workflow'' ms;
     Some \<lparr>TN_ID = i, TN_Type = t, TN_Config = cfg, TN_ToolName = tn, TN_Workflow = wf\<rparr>
   }"

definition decode_edge :: "bytes \<Rightarrow> TaskEdge option" where
  "decode_edge b = do {
     ms \<leftarrow> decode_object b;
     f \<leftarrow> string_field ''from'' ms;
     t \<leftarrow> string_field ''to'' ms;
     Some \<lparr>TE_From = f, TE_To = t\<rparr>
   }"

definition nil_field :: "string \<Rightarrow> (string \<times> bytes) list \<Rightarrow> bool" where
  "nil_field name ms \<longleftrightarrow> raw_field name ms \<in> {[], ''null''}"

definition Graph_Unmarshal :: "bytes \<Rightarrow> GraphDoc option" where
  "Graph_Unmarshal b = do {
     ms \<leftarrow> decode_object b;
     ns \<leftarrow> Option.bind (elems_field ''nodes'' ms) (\<lambda>rs. those (map decode_node rs));
     es \<leftarrow> Option.bind (elems_field ''edges'' ms) (\<lambda>rs. those (map decode_edge rs));
     Some \<lparr>GD_Graph = \<lparr>TG_Nodes = ns, TG_Edges = es\<rparr>, GD_NilNodes = nil_field ''nodes'' ms, GD_NilEdges = nil_field ''edges'' ms\<rparr>
   }"

section \<open>Checkpoints\<close>

record Checkpoint =
  CP_ID :: string
  CP_AgentID :: string
  CP_SessionID :: string
  CP_JobID :: string
  CP_TaskGraphState :: bytes
  CP_MemoryState :: bytes
  CP_CursorNode :: string
  CP_PayloadResults :: bytes
  CP_CreatedAt :: gotime
  CP_ExpiresAt :: "gotime option"

definition NewNodeCheckpoint ::
  "gotime \<Rightarrow> string \<Rightarrow> string \<Rightarrow> string \<Rightarrow> string \<Rightarrow> bytes \<Rightarrow> bytes \<Rightarrow> bytes \<Rightarrow> Checkpoint" where
  "NewNodeCheckpoint now agentID sessionID jobID cursorNode taskGraphState payloadResults memoryState =
     \<lparr>CP_ID = [], CP_AgentID = agentID, CP_SessionID = sessionID, CP_JobID = jobID, CP_TaskGraphState = taskGraphState,
      CP_MemoryState = memoryState, CP_CursorNode = cursorNode, CP_PayloadResults = payloadResults, CP_CreatedAt = now,
      CP_ExpiresAt = None\<rparr>"

definition NewCheckpoint :: "gotime \<Rightarrow> string \<Rightarrow> string \<Rightarrow> bytes \<Rightarrow> bytes \<Rightarrow> Checkpoint" where
  "NewCheckpoint now agentID sessionID taskGraphState memoryState =
     NewNodeCheckpoint now agentID sessionID [] [] taskGraphState [] memoryState"

text \<open>The store keeps copies, and gives out copies: values here.\<close>

type_synonym checkpointStoreMem = "string \<rightharpoonup> Checkpoint"

definition cp_Save :: "string \<Rightarrow> Checkpoint \<Rightarrow> checkpointStoreMem \<Rightarrow> string \<times> checkpointStoreMem" where
  "cp_Save uuid cp m = (let i = (if CP_ID cp = [] then ''cp-'' @ uuid else CP_ID cp) in (i, m(i \<mapsto> cp\<lparr>CP_ID := i\<rparr>)))"

definition cp_Load :: "string \<Rightarrow> checkpointStoreMem \<Rightarrow> Checkpoint option" where
  "cp_Load i m = m i"

text \<open>The order is that of the map's iteration, given by the list of keys.\<close>

definition cp_ListByAgent :: "string list \<Rightarrow> string \<Rightarrow> checkpointStoreMem \<Rightarrow> Checkpoint list" where
  "cp_ListByAgent keys agentID m = filter (\<lambda>cp. CP_AgentID cp = agentID) (List.map_filter m keys)"

definition expired_at :: "gotime \<Rightarrow> Checkpoint \<Rightarrow> bool" where
  "expired_at olderThan cp \<longleftrightarrow> CP_CreatedAt cp < olderThan
     \<or> (case CP_ExpiresAt cp of None \<Rightarrow> False | Some t \<Rightarrow> t < olderThan)"

definition cp_Cleanup :: "string list \<Rightarrow> gotime \<Rightarrow> checkpointStoreMem \<Rightarrow> nat \<times> checkpointStoreMem" where
  "cp_Cleanup keys olderThan m =
     (let toDelete = filter (\<lambda>k. case m k of None \<Rightarrow> False | Some cp \<Rightarrow> expired_at olderThan cp) keys
      in (length toDelete, foldl (\<lambda>m k. m(k := None)) m toDelete))"

lemma cp_load_saved [simp]: "cp_Load (fst (cp_Save uuid cp m)) (snd (cp_Save uuid cp m)) = Some (cp\<lparr>CP_ID := fst (cp_Save uuid cp m)\<rparr>)"
  by (simp add: cp_Save_def cp_Load_def Let_def)

lemma deleted_keys: "foldl (\<lambda>m k. m(k := None)) m ks k' = (if k' \<in> set ks then None else m k')"
  by (induction ks arbitrary: m) auto

text \<open>A cleanup removes exactly the checkpoints created or expiring before the given time, whatever order it meets them in.\<close>

lemma cleanup_spec:
  assumes "set keys = dom m"
  shows "snd (cp_Cleanup keys olderThan m) k = (case m k of None \<Rightarrow> None | Some cp \<Rightarrow> if expired_at olderThan cp then None else Some cp)"
  using assms by (auto simp: cp_Cleanup_def Let_def deleted_keys split: option.splits)

end
