(* ===== verification/Dag_Runner.thy ===== *)
theory Dag_Runner
  imports Tool_Node Replay Checkpoint
begin

text \<open>
  The runner of a job's graph, \<open>internal/agent/runtime/executor/runner.go\<close>: \<open>RunForJob\<close> with its three ways into a job
  (a checkpoint, the events of the job, neither), the event-driven \<open>Advance\<close>, and the run loop with its waits, its parallel
  levels and its failures.  Node runners and the interfaces the runner calls are functions in the runner's record,
  acting on a world of any type.  Metrics, spans and logs are left out; of an error of a library only its kind is kept.

  Goroutines of a level run one after the other, in an order the world decides; a clock reading is a function of the call
  site and the world.
\<close>

section \<open>Errors of a step\<close>

text \<open>An error with its chain of wrapped errors.\<close>

datatype goerr =
    TextError string
  | ErrRetryable
  | ErrPermanent
  | ErrCompensatable
  | DeadlineExceeded
  | Wrapped string goerr
  | StepFailed StepResultType "goerr option" string
  | ApprovalRequired string
  | SignalWaitRequired string string

definition result_type_name :: "StepResultType \<Rightarrow> string" where
  "result_type_name t = (case t of StepResultSuccess \<Rightarrow> ''success'' | StepResultPure \<Rightarrow> ''pure''
     | StepResultSideEffectCommitted \<Rightarrow> ''side_effect_committed'' | StepResultRetryableFailure \<Rightarrow> ''retryable_failure''
     | StepResultPermanentFailure \<Rightarrow> ''permanent_failure'' | StepResultCompensatableFailure \<Rightarrow> ''compensatable_failure''
     | StepResultCompensated \<Rightarrow> ''compensated'')"

fun Error_text :: "goerr \<Rightarrow> string" where
  "Error_text (TextError s) = s"
| "Error_text ErrRetryable = ''retryable''"
| "Error_text ErrPermanent = ''permanent''"
| "Error_text ErrCompensatable = ''compensatable''"
| "Error_text DeadlineExceeded = ''context deadline exceeded''"
| "Error_text (Wrapped s e) = s"
| "Error_text (StepFailed t None n) = result_type_name t"
| "Error_text (StepFailed t (Some e) n) = Error_text e"
| "Error_text (ApprovalRequired k) = ''capability requires approval: '' @ k"
| "Error_text (SignalWaitRequired k r) =
     ''signal wait required: '' @ (if r = [] then ''signal_wait'' else r) @ '' ('' @ k @ '')''"

fun err_chain :: "goerr \<Rightarrow> goerr list" where
  "err_chain (Wrapped s e) = Wrapped s e # err_chain e"
| "err_chain (StepFailed t (Some e) n) = StepFailed t (Some e) n # err_chain e"
| "err_chain e = [e]"

text \<open>\<open>errors.As\<close>: the first error of the chain that has the type.\<close>

definition as_error :: "(goerr \<Rightarrow> 'a option) \<Rightarrow> goerr \<Rightarrow> 'a option" where
  "as_error f e = (case List.map_filter f (err_chain e) of [] \<Rightarrow> None | x # _ \<Rightarrow> Some x)"

definition as_step_failure :: "goerr \<Rightarrow> StepResultType option" where
  "as_step_failure = as_error (\<lambda>e. case e of StepFailed t _ _ \<Rightarrow> Some t | _ \<Rightarrow> None)"

definition isStepFailure :: "StepResultType \<Rightarrow> bool" where
  "isStepFailure t \<longleftrightarrow> t \<in> {StepResultRetryableFailure, StepResultPermanentFailure, StepResultCompensatableFailure}"

definition ClassifyError :: "goerr option \<Rightarrow> StepResultType \<times> string" where
  "ClassifyError runErr = (case runErr of None \<Rightarrow> (StepResultSuccess, [])
     | Some e \<Rightarrow>
         (case as_step_failure e of Some t \<Rightarrow> (t, Error_text e)
          | None \<Rightarrow>
              if ErrRetryable \<in> set (err_chain e) then (StepResultRetryableFailure, Error_text e)
              else if ErrCompensatable \<in> set (err_chain e) then (StepResultCompensatableFailure, Error_text e)
              else (StepResultPermanentFailure, Error_text e)))"

text \<open>The result of a step, with a timeout as a retryable failure.\<close>

definition classify_run :: "goerr option \<Rightarrow> StepResultType \<times> string" where
  "classify_run runErr = (case runErr of
       Some e \<Rightarrow> if DeadlineExceeded \<in> set (err_chain e) then (StepResultRetryableFailure, ''step timeout'') else ClassifyError runErr
     | None \<Rightarrow> ClassifyError runErr)"

definition signalWaitFromError :: "goerr option \<Rightarrow> (string \<times> string) option" where
  "signalWaitFromError runErr = (case runErr of None \<Rightarrow> None
     | Some e \<Rightarrow>
         (case as_error (\<lambda>e. case e of ApprovalRequired k \<Rightarrow> Some k | _ \<Rightarrow> None) e of
            Some (c # k) \<Rightarrow> Some (c # k, ''capability_approval'')
          | _ \<Rightarrow>
             (case as_error (\<lambda>e. case e of SignalWaitRequired k r \<Rightarrow> Some (k, r) | _ \<Rightarrow> None) e of
                Some (c # k, r) \<Rightarrow> Some (c # k, if r = [] then ''signal_wait'' else r)
              | _ \<Rightarrow> None)))"

section \<open>Node types\<close>

abbreviation (input) NodeTool :: string where "NodeTool \<equiv> ''tool''"
abbreviation (input) NodeLLM :: string where "NodeLLM \<equiv> ''llm''"
abbreviation (input) NodeWait :: string where "NodeWait \<equiv> ''wait''"
abbreviation (input) NodeApproval :: string where "NodeApproval \<equiv> ''approval''"
abbreviation (input) NodeCondition :: string where "NodeCondition \<equiv> ''condition''"

definition isWaitLikeNodeType :: "string \<Rightarrow> bool" where
  "isWaitLikeNodeType nodeType \<longleftrightarrow> nodeType = NodeWait \<or> nodeType = NodeApproval \<or> nodeType = NodeCondition"

definition waitDefaultsForNodeType :: "string \<Rightarrow> string \<times> string" where
  "waitDefaultsForNodeType nodeType =
     (if nodeType = NodeApproval then (''signal'', ''approval_required'')
      else if nodeType = NodeCondition then (''condition'', ''wait_condition'') else (''signal'', []))"

section \<open>Payload and context of a step\<close>

text \<open>The results may be the nil map.\<close>

record DAGPayload =
  PL_Goal :: string
  PL_AgentID :: string
  PL_SessionID :: string
  PL_Results :: "gomap option"

definition NewAgentDAGPayload :: "string \<Rightarrow> string \<Rightarrow> string \<Rightarrow> DAGPayload" where
  "NewAgentDAGPayload goal agentID sessionID = \<lparr>PL_Goal = goal, PL_AgentID = agentID, PL_SessionID = sessionID, PL_Results = Some []\<rparr>"

definition results_of :: "DAGPayload \<Rightarrow> gomap" where
  "results_of p = (case PL_Results p of None \<Rightarrow> [] | Some m \<Rightarrow> m)"

definition put_node_result :: "string \<Rightarrow> goval \<Rightarrow> DAGPayload \<Rightarrow> DAGPayload" where
  "put_node_result nodeID v p = p\<lparr>PL_Results := Some (gput nodeID v (results_of p))\<rparr>"

text \<open>\<open>json.Marshal\<close> of the results: \<open>None\<close> is an error, the nil map is \<open>null\<close>.\<close>

definition results_text :: "gomap option \<Rightarrow> bytes option" where
  "results_text r = (case r of None \<Rightarrow> Some ''null'' | Some m \<Rightarrow> (if marshal_map m = [] then None else Some (marshal_map m)))"

text \<open>\<open>json.Unmarshal\<close> into the results of a fresh payload: \<open>None\<close> is an error.\<close>

definition load_results :: "bytes \<Rightarrow> DAGPayload \<Rightarrow> DAGPayload option" where
  "load_results b p = (if b = [] then Some p else
     (case decode_map b of DecodeError \<Rightarrow> None
      | NilMap \<Rightarrow> Some (p\<lparr>PL_Results := None\<rparr>)
      | MapOf m \<Rightarrow> Some (p\<lparr>PL_Results := Some (gmerge (results_of p) m)\<rparr>)))"

text \<open>What the runner puts into the context of a step.  An absent value is \<open>None\<close>.\<close>

record step_ctx =
  SX_JobID :: string
  SX_TenantID :: string
  SX_StepID :: string
  SX_Completed :: "(string \<times> bytes) list option"
  SX_Pending :: "string list option"
  SX_Changes :: "(string \<times> StateChangeForVerify list) list option"
  SX_Approved :: "string list option"
  SX_ReplayClock :: bool
  SX_ReplayRNG :: bool
  SX_Timeout :: "duration option"
  SX_IsReplay :: "bool option"
  SX_RecordedEffects :: bool
  SX_Runtime :: bool

text \<open>
  A node runner gets the context and the payload and acts on the agent and the world.  It panics, or leaves the payload it
  was given in some state and returns a payload (nil is \<open>None\<close>) and an error.
\<close>

datatype node_outcome = NodePanics DAGPayload string | NodeReturns DAGPayload "DAGPayload option" "goerr option"

record 'w host =
  H_agent :: Agent
  H_world :: 'w

type_synonym 'w NodeRunner = "step_ctx \<Rightarrow> DAGPayload \<Rightarrow> 'w host \<Rightarrow> node_outcome \<times> 'w host"

section \<open>The interfaces of the runner\<close>

text \<open>The calls of the event sink, one constructor per method; the runner ignores the errors of all of them.\<close>

datatype node_event =
    NodeStartedCall string string int string
  | NodeFinishedCall string string bytes int string int StepResultType string string string
  | StepCommittedCall string string string string string
  | StateCheckpointedCall string string bytes bytes "string list"
  | JobWaitingCall string string string string "int \<times> gotime" string bytes
  | JobCompletedCall string string
  | JobFailedCall string string StepResultType string
  | ReasoningSnapshotCall string bytes
  | StepCompensatedCall string string string string string

record 'w jobStoreForRunner =
  JP_UpdateCursor :: "string \<Rightarrow> string \<Rightarrow> 'w \<Rightarrow> 'w"
  JP_UpdateStatus :: "string \<Rightarrow> int \<Rightarrow> 'w \<Rightarrow> 'w"

record 'w checkpointStore =
  CS_Save :: "Checkpoint \<Rightarrow> 'w \<Rightarrow> (string + string) \<times> 'w"
  CS_Load :: "string \<Rightarrow> 'w \<Rightarrow> string + Checkpoint option"

datatype OperationKind = Deterministic | SideEffect | External

record ReplayDecision =
  RD_Kind :: OperationKind
  RD_Inject :: bool
  RD_Result :: bytes

type_synonym ReplayPolicy = "string \<Rightarrow> string \<Rightarrow> string \<Rightarrow> ReplayContext option \<Rightarrow> ReplayDecision"

text \<open>Every node type is a side effect to the default policy, of package \<open>replay/sandbox\<close>.\<close>

definition kindForNodeType :: "string \<Rightarrow> OperationKind" where
  "kindForNodeType nodeType = SideEffect"

definition DefaultPolicy :: ReplayPolicy where
  "DefaultPolicy nodeID commandID nodeType replayCtx = (case replayCtx of
       None \<Rightarrow> \<lparr>RD_Kind = kindForNodeType nodeType, RD_Inject = False, RD_Result = []\<rparr>
     | Some rc \<Rightarrow>
         (case map_of (RC_CommandResults rc) commandID of
            Some (c # r) \<Rightarrow> \<lparr>RD_Kind = SideEffect, RD_Inject = True, RD_Result = c # r\<rparr>
          | _ \<Rightarrow> \<lparr>RD_Kind = SideEffect, RD_Inject = False, RD_Result = []\<rparr>))"

type_synonym StepValidator = "string \<Rightarrow> string \<Rightarrow> string \<Rightarrow> string \<Rightarrow> goerr option"

type_synonym 'w CompensationFunc = "string \<Rightarrow> string \<Rightarrow> string \<Rightarrow> string \<Rightarrow> 'w host \<Rightarrow> 'w host"

record 'w Runner =
  RN_registry :: "('w NodeRunner, goerr) NodeAdapterRegistry option"
  RN_checkpointStore :: "'w checkpointStore option"
  RN_jobStore :: "'w jobStoreForRunner option"
  RN_nodeEventSink :: "(node_event \<Rightarrow> 'w \<Rightarrow> 'w) option"
  RN_recordedEffects :: bool
  RN_compensation :: "(string \<Rightarrow> 'w CompensationFunc option) option"
  RN_replayBuilder :: "(string \<Rightarrow> 'w \<Rightarrow> replay_error + ReplayContext option) option"
  RN_replayPolicy :: "ReplayPolicy option"
  RN_stepTimeout :: duration
  RN_stepValidators :: "StepValidator option list"
  RN_maxParallelSteps :: int
  RN_run :: "string \<Rightarrow> 'w host \<Rightarrow> string option \<times> 'w host"
  RN_order :: "nat list \<Rightarrow> 'w host \<Rightarrow> nat list"
  RN_now :: "nat \<Rightarrow> 'w \<Rightarrow> gotime"
  RN_uuid :: "'w \<Rightarrow> string"
  RN_zone :: int

record JobForRunner =
  JR_ID :: string
  JR_AgentID :: string
  JR_Goal :: string
  JR_Cursor :: string
  JR_TenantID :: string

text \<open>The errors \<open>RunForJob\<close> returns.\<close>

datatype run_error =
    JobWaitingErr
  | NilAgentOrJob
  | PlainRunFailed string
  | RecoverCheckpointFailed string
  | GraphDecodeFailed
  | CompileFailed "goerr graph_error"
  | PayloadDecodeFailed
  | SerializeFailed
  | SaveCheckpointFailed string
  | ReplayForbidden string
  | NoPlanGenerated
  | StepError string StepResultType goerr
  | ParallelError string goerr

datatype run_outcome = Returns "run_error option" | Panics

abbreviation (input) statusCompleted :: int where "statusCompleted \<equiv> 2"
abbreviation (input) statusFailed :: int where "statusFailed \<equiv> 3"
abbreviation (input) statusWaiting :: int where "statusWaiting \<equiv> 5"
abbreviation (input) statusParked :: int where "statusParked \<equiv> 6"

section \<open>Small steps of the runner\<close>

definition emit_node :: "'w Runner \<Rightarrow> node_event \<Rightarrow> 'w host \<Rightarrow> 'w host" where
  "emit_node R ev h = (case RN_nodeEventSink R of None \<Rightarrow> h | Some f \<Rightarrow> h\<lparr>H_world := f ev (H_world h)\<rparr>)"

definition update_status :: "'w Runner \<Rightarrow> string \<Rightarrow> int \<Rightarrow> 'w host \<Rightarrow> 'w host" where
  "update_status R jobID st h = (case RN_jobStore R of None \<Rightarrow> h | Some js \<Rightarrow> h\<lparr>H_world := JP_UpdateStatus js jobID st (H_world h)\<rparr>)"

definition update_cursor :: "'w Runner \<Rightarrow> string \<Rightarrow> string \<Rightarrow> 'w host \<Rightarrow> 'w host" where
  "update_cursor R jobID cp h = (case RN_jobStore R of None \<Rightarrow> h | Some js \<Rightarrow> h\<lparr>H_world := JP_UpdateCursor js jobID cp (H_world h)\<rparr>)"

definition writeTerminalCompleted :: "'w Runner \<Rightarrow> string \<Rightarrow> string \<Rightarrow> 'w host \<Rightarrow> 'w host" where
  "writeTerminalCompleted R jobID goal h = update_status R jobID statusCompleted (emit_node R (JobCompletedCall jobID goal) h)"

definition writeTerminalFailed :: "'w Runner \<Rightarrow> string \<Rightarrow> string \<Rightarrow> StepResultType \<Rightarrow> string \<Rightarrow> 'w host \<Rightarrow> 'w host" where
  "writeTerminalFailed R jobID reason t nodeID h = update_status R jobID statusFailed (emit_node R (JobFailedCall jobID reason t nodeID) h)"

definition session_id :: "'w host \<Rightarrow> string" where
  "session_id h = (case AG_Session (H_agent h) of None \<Rightarrow> [] | Some s \<Rightarrow> SE_ID s)"

text \<open>Saving the checkpoint of a node, noting it in the session and moving the job's cursor; an error fails the job.\<close>

definition save_checkpoint ::
  "'w Runner \<Rightarrow> string \<Rightarrow> string \<Rightarrow> bytes \<Rightarrow> bytes \<Rightarrow> 'w host \<Rightarrow> run_error option \<times> 'w host" where
  "save_checkpoint R jobID nodeID graphBytes payloadResults h = (case RN_checkpointStore R of None \<Rightarrow> (None, h)
     | Some cs \<Rightarrow>
         (let cp = NewNodeCheckpoint (RN_now R 1 (H_world h)) (AG_ID (H_agent h)) (session_id h) jobID nodeID graphBytes payloadResults []
          in case CS_Save cs cp (H_world h) of
               (Inl e, w) \<Rightarrow> (Some (SaveCheckpointFailed e), update_status R jobID statusFailed (h\<lparr>H_world := w\<rparr>))
             | (Inr cpID, w) \<Rightarrow>
                 (let a = H_agent h; a' = a\<lparr>AG_Session := map_option (SetLastCheckpoint (RN_now R 2 w) cpID) (AG_Session a)\<rparr>
                  in (None, update_cursor R jobID cpID \<lparr>H_agent = a', H_world = w\<rparr>))))"

fun runStepValidators :: "StepValidator option list \<Rightarrow> string \<Rightarrow> string \<Rightarrow> string \<Rightarrow> string \<Rightarrow> goerr option" where
  "runStepValidators [] jobID stepID nodeID nodeType = None"
| "runStepValidators (None # vs) jobID stepID nodeID nodeType = runStepValidators vs jobID stepID nodeID nodeType"
| "runStepValidators (Some v # vs) jobID stepID nodeID nodeType =
     (case v jobID stepID nodeID nodeType of Some e \<Rightarrow> Some e | None \<Rightarrow> runStepValidators vs jobID stepID nodeID nodeType)"

definition SetMaxParallelSteps :: "int \<Rightarrow> 'w Runner \<Rightarrow> 'w Runner" where
  "SetMaxParallelSteps n R = R\<lparr>RN_maxParallelSteps := (if n < 0 then 0 else n)\<rparr>"

definition SetStepValidators :: "StepValidator option list \<Rightarrow> 'w Runner \<Rightarrow> 'w Runner" where
  "SetStepValidators vs R = R\<lparr>RN_stepValidators := vs\<rparr>"

text \<open>The last step of a node id wins, as in the map the code fills.\<close>

definition node_index :: "'r SteppableStep list \<Rightarrow> string \<Rightarrow> nat option" where
  "node_index steps nodeID = map_of (rev (zip (map SS_NodeID steps) [0..<length steps])) nodeID"

definition step_id_at :: "string \<Rightarrow> string \<Rightarrow> 'r SteppableStep list \<Rightarrow> nat \<Rightarrow> string" where
  "step_id_at jobID decisionID steps i = DeterministicStepID jobID decisionID (int i) (SS_NodeType (steps ! i))"

definition step_done :: "string \<Rightarrow> string \<Rightarrow> 'r SteppableStep list \<Rightarrow> string list \<Rightarrow> nat \<Rightarrow> bool" where
  "step_done jobID decisionID steps completed i \<longleftrightarrow>
     step_id_at jobID decisionID steps i \<in> set completed \<or> SS_NodeID (steps ! i) \<in> set completed"

fun level_batch :: "string list list \<Rightarrow> (string \<Rightarrow> nat option) \<Rightarrow> (nat \<Rightarrow> bool) \<Rightarrow> nat list" where
  "level_batch [] idx fin = []"
| "level_batch (level # levels) idx fin =
     (let indices = filter (\<lambda>i. \<not> fin i) (List.map_filter idx level)
      in if indices \<noteq> [] then indices else level_batch levels idx fin)"

text \<open>The level groups are nil when there are none or the graph has a cycle.\<close>

definition nextRunnableBatch ::
  "int \<Rightarrow> 'r SteppableStep list \<Rightarrow> string list list option \<Rightarrow> string list \<Rightarrow> string \<Rightarrow> string \<Rightarrow> nat list" where
  "nextRunnableBatch maxParallel steps levelGroups completed jobID decisionID =
     (let fin = step_done jobID decisionID steps completed
      in case levelGroups of
           Some levels \<Rightarrow> if 0 < maxParallel then level_batch levels (node_index steps) fin
                         else take 1 (filter (\<lambda>i. \<not> fin i) [0..<length steps])
         | None \<Rightarrow> take 1 (filter (\<lambda>i. \<not> fin i) [0..<length steps]))"

definition level_groups :: "TaskGraph \<Rightarrow> string list list option" where
  "level_groups g = (case (LevelGroups (Some g) :: goerr graph_error + string list list) of
       Inr (l # ls) \<Rightarrow> Some (l # ls) | _ \<Rightarrow> None)"

section \<open>Running one step\<close>

definition tenant_of :: "JobForRunner \<Rightarrow> string" where
  "tenant_of j = (if JR_TenantID j = [] then ''default'' else JR_TenantID j)"

definition nonempty :: "'a list \<Rightarrow> 'a list option" where
  "nonempty xs = (if xs = [] then None else Some xs)"

definition changes_for_verify :: "ReplayContext \<Rightarrow> (string \<times> StateChangeForVerify list) list" where
  "changes_for_verify rc = map (\<lambda>(n, cs). (n, map (\<lambda>c. \<lparr>StateChangeForVerify.SC_ResourceType = StateChangeRecord.SC_ResourceType c,
     SC_ResourceID = StateChangeRecord.SC_ResourceID c, SC_Operation = StateChangeRecord.SC_Operation c,
     SC_ExternalRef = StateChangeRecord.SC_ExternalRef c\<rparr>) cs)) (RC_StateChangesByStep rc)"

text \<open>
  The context of a step.  \<open>Advance\<close> does not pass the approved keys on; a parallel level does not pass the replay mark,
  the recorded effects and the runtime context.
\<close>

definition step_context :: "'w Runner \<Rightarrow> JobForRunner \<Rightarrow> string \<Rightarrow> ReplayContext option \<Rightarrow> bool \<Rightarrow> bool \<Rightarrow> step_ctx" where
  "step_context R j stepID rc approvals parallel =
     \<lparr>SX_JobID = JR_ID j, SX_TenantID = tenant_of j, SX_StepID = stepID,
      SX_Completed = Option.bind rc (\<lambda>r. nonempty (RC_CompletedToolInvocations r)),
      SX_Pending = Option.bind rc (\<lambda>r. nonempty (RC_PendingToolInvocations r)),
      SX_Changes = Option.bind rc (\<lambda>r. nonempty (changes_for_verify r)),
      SX_Approved = (if approvals then Option.bind rc (\<lambda>r. nonempty (RC_ApprovedCorrelationKeys r)) else None),
      SX_ReplayClock = (rc \<noteq> None), SX_ReplayRNG = (rc \<noteq> None),
      SX_Timeout = (if 0 < RN_stepTimeout R then Some (RN_stepTimeout R) else None),
      SX_IsReplay = (if parallel then None else Some (rc \<noteq> None)),
      SX_RecordedEffects = (\<not> parallel \<and> (RN_recordedEffects R \<or> rc \<noteq> None)),
      SX_Runtime = (\<not> parallel)\<rparr>"

text \<open>Validators first; \<open>None\<close> is a panic of the node, else the payload it returned and its error.\<close>

definition run_node ::
  "'w Runner \<Rightarrow> string \<Rightarrow> step_ctx \<Rightarrow> 'w NodeRunner SteppableStep \<Rightarrow> DAGPayload \<Rightarrow> 'w host
     \<Rightarrow> (DAGPayload option \<times> goerr option) option \<times> 'w host" where
  "run_node R jobID ctx step p h =
     (case runStepValidators (RN_stepValidators R) jobID (SX_StepID ctx) (SS_NodeID step) (SS_NodeType step) of
        Some e \<Rightarrow> (Some (Some p, Some e), h)
      | None \<Rightarrow>
          (case SS_Run step ctx p h of
             (NodePanics _ _, h1) \<Rightarrow> (None, h1)
           | (NodeReturns _ r e, h1) \<Rightarrow> (Some (r, e), h1)))"

definition commit_type :: "string \<Rightarrow> StepResultType" where
  "commit_type nodeType = (if nodeType = NodeTool then StepResultSideEffectCommitted else StepResultPure)"

text \<open>
  The error that asks for a signal: \<open>job_waiting\<close> with the results so far.  With a sink, a nil payload is
  dereferenced: \<open>None\<close> is that panic.
\<close>

definition resumption_fields :: "string \<Rightarrow> bytes \<Rightarrow> string \<Rightarrow> (string \<times> bytes) list \<Rightarrow> bytes" where
  "resumption_fields nodeID results decisionID extra =
     fields_text ([(''cursor_node'', json_quote nodeID)] @ extra
       @ [(''payload_results'', results), (''plan_decision_id'', json_quote decisionID)])"

definition Hour :: duration where
  "Hour = 3600 * Second"

definition signal_wait ::
  "'w Runner \<Rightarrow> string \<Rightarrow> string \<Rightarrow> bytes \<Rightarrow> DAGPayload option \<Rightarrow> string \<times> string \<Rightarrow> 'w host \<Rightarrow> run_outcome \<times> 'w host" where
  "signal_wait R jobID nodeID graphBytes payload wait h =
     (case RN_nodeEventSink R of
        None \<Rightarrow> (Returns (Some JobWaitingErr), update_status R jobID statusWaiting h)
      | Some _ \<Rightarrow>
          (case payload of None \<Rightarrow> (Panics, h)
           | Some p \<Rightarrow>
              (case results_text (PL_Results p) of
                 None \<Rightarrow> (Returns (Some SerializeFailed), update_status R jobID statusFailed h)
               | Some results \<Rightarrow>
                   (Returns (Some JobWaitingErr), update_status R jobID statusWaiting
                      (emit_node R (JobWaitingCall jobID nodeID ''signal'' (snd wait)
                           (RN_zone R, RN_now R 3 (H_world h) + 24 * Hour) (fst wait)
                           (resumption_fields nodeID results (PlanDecisionID graphBytes) [])) h)))))"

section \<open>What changed\<close>

text \<open>A decoded object, the nil map when it is no object; keys in order, where the code follows the map's iteration.\<close>

definition decoded_map :: "bytes \<Rightarrow> gomap" where
  "decoded_map b = (case decode_map b of MapOf m \<Rightarrow> m | _ \<Rightarrow> [])"

definition opt_marshal :: "goval option \<Rightarrow> bytes" where
  "opt_marshal v = (case v of None \<Rightarrow> ''null'' | Some x \<Rightarrow> go_marshal x)"

definition ChangedKeysFromState :: "bytes \<Rightarrow> bytes \<Rightarrow> string list" where
  "ChangedKeysFromState before after =
     filter (\<lambda>k. opt_marshal (map_of (decoded_map before) k) \<noteq> opt_marshal (map_of (decoded_map after) k)) (map fst (decoded_map after))"

definition extractStateKeys :: "bytes \<Rightarrow> bytes \<Rightarrow> string list \<times> string list" where
  "extractStateKeys before after =
     (map fst (decoded_map before),
      filter (\<lambda>k. case map_of (decoded_map before) k of None \<Rightarrow> True
                | Some v \<Rightarrow> go_marshal v \<noteq> opt_marshal (map_of (decoded_map after) k)) (map fst (decoded_map after)))"

text \<open>The reasoning snapshot, its keys in order; \<open>None\<close> when it has no JSON form and is not written.\<close>

definition evidence_of :: "goval option \<Rightarrow> goval option" where
  "evidence_of v = (case v of Some (GMap m) \<Rightarrow> (case map_of m ''_evidence'' of Some GNil \<Rightarrow> None | x \<Rightarrow> x) | _ \<Rightarrow> None)"

definition some_text :: "string \<Rightarrow> goval option \<Rightarrow> (string \<times> bytes option) list" where
  "some_text k v = (case v of None \<Rightarrow> [] | Some x \<Rightarrow> [(k, if go_marshal x = [] then None else Some (go_marshal x))])"

definition reasoning_snapshot ::
  "'w Runner \<Rightarrow> JobForRunner \<Rightarrow> 'r SteppableStep \<Rightarrow> string \<Rightarrow> int \<Rightarrow> gotime \<Rightarrow> bytes \<Rightarrow> bytes \<Rightarrow> gomap \<Rightarrow> bytes option" where
  "reasoning_snapshot R j step stepID durationMs now stateBefore payloadResults results =
     (let v = map_of results (SS_NodeID step); (ins, outs) = extractStateKeys stateBefore payloadResults;
          llm = SS_NodeType step = NodeLLM; keys = (\<lambda>ks. Some (array_text (map json_quote ks)));
          fs = [(''duration_ms'', Some (dec_int durationMs))]
            @ some_text ''evidence'' (evidence_of v)
            @ [(''goal'', Some (json_quote (JR_Goal j)))]
            @ (if ins = [] then [] else [(''input_keys'', keys ins)])
            @ (if llm then [(''llm_request'', Some (json_quote (JR_Goal j)))] else [])
            @ (if llm \<and> v \<noteq> Some GNil then some_text ''llm_response'' v else [])
            @ [(''node_id'', Some (json_quote (SS_NodeID step))), (''node_type'', Some (json_quote (SS_NodeType step)))]
            @ (if outs = [] then [] else [(''output_keys'', keys outs)])
            @ (if payloadResults = [] then [] else [(''state_after'', marshal_raw payloadResults)])
            @ (if stateBefore = [] then [] else [(''state_before'', marshal_raw stateBefore)])
            @ [(''step_id'', Some (json_quote stepID)), (''timestamp'', Some (json_quote (rfc3339 (RN_zone R) now)))]
            @ (if SS_NodeType step = NodeTool then [(''tool_name'', Some (json_quote (SS_NodeID step)))] else [])
      in map_option (\<lambda>ts. fields_text (zip (map fst fs) ts)) (those (map snd fs)))"

section \<open>After the node has run\<close>

text \<open>
  Result type, \<open>node_finished\<close>, then either compensation and the end of the job, or the commit events and the checkpoint.
  The result is the error to return, or the payload to go on with.
\<close>

definition payload_or_empty :: "DAGPayload option \<Rightarrow> DAGPayload" where
  "payload_or_empty r = (case r of None \<Rightarrow> NewAgentDAGPayload [] [] []
     | Some p \<Rightarrow> p\<lparr>PL_Results := Some (results_of p)\<rparr>)"

definition state_str :: "StepResultType \<Rightarrow> string" where
  "state_str t = (if t \<in> {StepResultSuccess, StepResultPure, StepResultSideEffectCommitted, StepResultCompensated}
     then ''ok'' else result_type_name t)"

definition run_result :: "string \<Rightarrow> goerr option \<Rightarrow> StepResultType \<times> string" where
  "run_result nodeType runErr = (case classify_run runErr of (t, reason) \<Rightarrow>
     (if t = StepResultSuccess then commit_type nodeType else t, reason))"

definition compensate ::
  "'w Runner \<Rightarrow> string \<Rightarrow> string \<Rightarrow> string \<Rightarrow> StepResultType \<Rightarrow> string \<Rightarrow> 'w host \<Rightarrow> 'w host" where
  "compensate R jobID nodeID stepID t reason h =
     (if t = StepResultCompensatableFailure
      then (case RN_compensation R of None \<Rightarrow> h
        | Some reg \<Rightarrow> (case reg nodeID of None \<Rightarrow> h
            | Some f \<Rightarrow> emit_node R (StepCompensatedCall jobID nodeID stepID stepID reason) (f jobID nodeID stepID stepID h)))
      else h)"

definition commit_step ::
  "'w Runner \<Rightarrow> JobForRunner \<Rightarrow> 'r SteppableStep \<Rightarrow> string \<Rightarrow> bool \<Rightarrow> int \<Rightarrow> bytes \<Rightarrow> bytes \<Rightarrow> gomap \<Rightarrow> 'w host \<Rightarrow> 'w host" where
  "commit_step R j step stepID snapshot durationMs stateBefore payloadResults results h =
     (let h1 = emit_node R (StepCommittedCall (JR_ID j) (SS_NodeID step) stepID stepID []) h;
          h2 = emit_node R (StateCheckpointedCall (JR_ID j) (SS_NodeID step) stateBefore payloadResults
                 (ChangedKeysFromState stateBefore payloadResults)) h1
      in if \<not> snapshot then h2
         else (case reasoning_snapshot R j step stepID durationMs (RN_now R 5 (H_world h2)) stateBefore payloadResults results of
                 None \<Rightarrow> h2 | Some b \<Rightarrow> emit_node R (ReasoningSnapshotCall (JR_ID j) b) h2))"

definition settle_run ::
  "'w Runner \<Rightarrow> JobForRunner \<Rightarrow> 'r SteppableStep \<Rightarrow> string \<Rightarrow> bool \<Rightarrow> bytes \<Rightarrow> bytes \<Rightarrow> gotime
     \<Rightarrow> DAGPayload option \<Rightarrow> goerr option \<Rightarrow> 'w host \<Rightarrow> (run_error + DAGPayload) \<times> 'w host" where
  "settle_run R j step stepID snapshot graphBytes stateBefore started payload runErr h =
     (let jobID = JR_ID j; nodeID = SS_NodeID step;
          durationMs = (RN_now R 4 (H_world h) - started) div 1000000;
          (t, reason) = run_result (SS_NodeType step) runErr;
          p = payload_or_empty payload
      in case results_text (PL_Results p) of
           None \<Rightarrow> (Inl SerializeFailed, update_status R jobID statusFailed h)
         | Some results \<Rightarrow>
             (let h1 = emit_node R (NodeFinishedCall jobID nodeID results durationMs (state_str t) 1 t reason stepID []) h
              in if isStepFailure t
                 then (let e = (case runErr of Some e \<Rightarrow> e | None \<Rightarrow> TextError []);
                           h2 = compensate R jobID nodeID stepID t reason h1
                       in (Inl (StepError nodeID t e), writeTerminalFailed R jobID (Error_text e) t nodeID h2))
                 else (let h2 = commit_step R j step stepID snapshot durationMs stateBefore results (results_of p) h1
                       in case save_checkpoint R jobID nodeID graphBytes results h2 of
                            (Some e, h3) \<Rightarrow> (Inl e, h3) | (None, h3) \<Rightarrow> (Inr p, h3))))"

section \<open>Recorded results\<close>

datatype replay_action = InjectRecorded bytes | Refuse | RunNow

definition replay_action_for :: "'w Runner \<Rightarrow> ReplayContext option \<Rightarrow> 'r SteppableStep \<Rightarrow> replay_action" where
  "replay_action_for R replayCtx step = (case replayCtx of None \<Rightarrow> RunNow
     | Some rc \<Rightarrow>
         (case RN_replayPolicy R of
            Some decide \<Rightarrow>
              (let d = decide (SS_NodeID step) (SS_NodeID step) (SS_NodeType step) (Some rc)
               in if RD_Inject d \<and> RD_Result d \<noteq> [] then InjectRecorded (RD_Result d)
                  else if \<not> RD_Inject d \<and> RD_Kind d \<in> {SideEffect, External} then Refuse else RunNow)
          | None \<Rightarrow>
              if SS_NodeID step \<in> set (RC_CompletedCommandIDs rc)
              then InjectRecorded (case map_of (RC_CommandResults rc) (SS_NodeID step) of None \<Rightarrow> [] | Some r \<Rightarrow> r)
              else RunNow))"

definition any_value :: "json \<Rightarrow> goval" where
  "any_value v = (case v of JObj ms \<Rightarrow> GMap (map_entries (map (\<lambda>(k, v). (k, json_goval v)) ms)) | _ \<Rightarrow> json_goval v)"

definition inject_recorded ::
  "'w Runner \<Rightarrow> JobForRunner \<Rightarrow> 'r SteppableStep \<Rightarrow> string \<Rightarrow> bytes \<Rightarrow> string list \<Rightarrow> bytes \<Rightarrow> DAGPayload \<Rightarrow> 'w host
     \<Rightarrow> (run_error + DAGPayload) \<times> 'w host" where
  "inject_recorded R j step stepID graphBytes completed result p h =
     (let jobID = JR_ID j; nodeID = SS_NodeID step;
          p1 = (if result = [] then p
                else (case json_parse result of None \<Rightarrow> p | Some v \<Rightarrow> put_node_result nodeID (any_value v) p))
      in case results_text (PL_Results p1) of
           None \<Rightarrow> (Inl SerializeFailed, update_status R jobID statusFailed h)
         | Some results \<Rightarrow>
             (let h1 = (if stepID \<in> set completed then h
                 else emit_node R (StepCommittedCall jobID nodeID stepID nodeID [])
                   (emit_node R (NodeFinishedCall jobID nodeID results 0 [] 0 (commit_type (SS_NodeType step)) [] stepID []) h))
              in case save_checkpoint R jobID nodeID graphBytes results h1 of
                   (Some e, h2) \<Rightarrow> (Inl e, h2) | (None, h2) \<Rightarrow> (Inr p1, h2)))"

section \<open>One event-driven step\<close>

datatype adv_result = AdvDone | AdvMore | AdvStops run_outcome

definition ReplayContext_TaskGraph :: "ReplayContext \<Rightarrow> GraphDoc option option" where
  "ReplayContext_TaskGraph rc = (if RC_TaskGraphState rc = [] then Some None
     else (case Graph_Unmarshal (RC_TaskGraphState rc) of None \<Rightarrow> None | Some d \<Rightarrow> Some (Some d)))"

text \<open>The step is run: \<open>Advance\<close> does not ask whether its node is one that waits.\<close>

definition advance_run ::
  "'w Runner \<Rightarrow> JobForRunner \<Rightarrow> ReplayContext \<Rightarrow> bytes \<Rightarrow> 'w NodeRunner SteppableStep \<Rightarrow> string \<Rightarrow> DAGPayload \<Rightarrow> 'w host
     \<Rightarrow> adv_result \<times> 'w host" where
  "advance_run R j rc graphBytes step stepID p h =
     (let jobID = JR_ID j
      in case results_text (PL_Results p) of
           None \<Rightarrow> (AdvStops (Returns (Some SerializeFailed)), update_status R jobID statusFailed h)
         | Some stateBefore \<Rightarrow>
             (let h1 = emit_node R (NodeStartedCall jobID (SS_NodeID step) 1 []) h; started = RN_now R 0 (H_world h1)
              in case run_node R jobID (step_context R j stepID (Some rc) False False) step p h1 of
                   (None, h2) \<Rightarrow> (AdvStops Panics, h2)
                 | (Some (payload, runErr), h2) \<Rightarrow>
                     (case signalWaitFromError runErr of
                        Some wait \<Rightarrow> (case signal_wait R jobID (SS_NodeID step) graphBytes payload wait h2 of
                                        (out, h3) \<Rightarrow> (AdvStops out, h3))
                      | None \<Rightarrow>
                          (case settle_run R j step stepID False graphBytes stateBefore started payload runErr h2 of
                             (Inl e, h3) \<Rightarrow> (AdvStops (Returns (Some e)), h3)
                           | (Inr _, h3) \<Rightarrow> (AdvMore, h3)))))"

definition advance_steps ::
  "'w Runner \<Rightarrow> JobForRunner \<Rightarrow> ReplayContext \<Rightarrow> GraphDoc \<Rightarrow> 'w NodeRunner SteppableStep list \<Rightarrow> DAGPayload \<Rightarrow> 'w host
     \<Rightarrow> adv_result \<times> 'w host" where
  "advance_steps R j rc gd steps p h =
     (let jobID = JR_ID j; completed = RC_CompletedNodeIDs rc; graphBytes = Graph_Marshal gd; decisionID = PlanDecisionID graphBytes
      in case filter (\<lambda>i. \<not> step_done jobID decisionID steps completed i) [0..<length steps] of
           [] \<Rightarrow> (AdvDone, writeTerminalCompleted R jobID (JR_Goal j) h)
         | i # _ \<Rightarrow>
             (let step = steps ! i; stepID = step_id_at jobID decisionID steps i
              in case replay_action_for R (Some rc) step of
                   InjectRecorded result \<Rightarrow>
                     (case inject_recorded R j step stepID graphBytes completed result p h of
                        (Inl e, h1) \<Rightarrow> (AdvStops (Returns (Some e)), h1) | (Inr _, h1) \<Rightarrow> (AdvMore, h1))
                 | Refuse \<Rightarrow> (AdvStops (Returns (Some (ReplayForbidden (SS_NodeID step)))), update_status R jobID statusFailed h)
                 | RunNow \<Rightarrow> advance_run R j rc graphBytes step stepID p h))"

definition Advance :: "'w Runner \<Rightarrow> JobForRunner \<Rightarrow> ReplayContext option \<Rightarrow> 'w host \<Rightarrow> adv_result \<times> 'w host" where
  "Advance R j state h = (case state of None \<Rightarrow> (AdvDone, h)
     | Some rc \<Rightarrow>
         (case ReplayContext_TaskGraph rc of
            Some (Some gd) \<Rightarrow>
              (case CompileSteppable (RN_registry R) (Some (GD_Graph gd)) of
                 Inl e \<Rightarrow> (AdvStops (Returns (Some (CompileFailed e))), h)
               | Inr steps \<Rightarrow>
                   (case load_results (RC_PayloadResults rc) (NewAgentDAGPayload (JR_Goal j) (AG_ID (H_agent h)) (session_id h)) of
                      None \<Rightarrow> (AdvStops (Returns (Some PayloadDecodeFailed)), update_status R (JR_ID j) statusFailed h)
                    | Some p \<Rightarrow> advance_steps R j rc gd steps p h))
          | _ \<Rightarrow> (AdvDone, h)))"

section \<open>Nodes that wait\<close>

text \<open>The configuration of the first node with the id that has one; an empty configuration counts as nil.\<close>

definition node_config :: "TaskGraph \<Rightarrow> string \<Rightarrow> gomap" where
  "node_config g nodeID = (case filter (\<lambda>n. TN_ID n = nodeID \<and> TN_Config n \<noteq> []) (TG_Nodes g) of [] \<Rightarrow> [] | n # _ \<Rightarrow> TN_Config n)"

definition cfg_string :: "gomap \<Rightarrow> string \<Rightarrow> string" where
  "cfg_string cfg key = (case map_of cfg key of Some (GStr s) \<Rightarrow> s | _ \<Rightarrow> [])"

definition wait_expiry :: "'w Runner \<Rightarrow> gomap \<Rightarrow> 'w host \<Rightarrow> int \<times> gotime" where
  "wait_expiry R cfg h =
     (let fallback = (RN_zone R, RN_now R 6 (H_world h) + 24 * Hour)
      in case map_of cfg ''expires_at'' of
           Some (GStr e) \<Rightarrow> (case parse_rfc3339 True e of Some (off, t) \<Rightarrow> if t = zero_time then fallback else (off, t) | None \<Rightarrow> fallback)
         | _ \<Rightarrow> fallback)"

definition wait_kind_reason :: "string \<Rightarrow> gomap \<Rightarrow> string \<times> string" where
  "wait_kind_reason nodeType cfg = (case waitDefaultsForNodeType nodeType of (k, r) \<Rightarrow>
     (if cfg_string cfg ''wait_kind'' = [] then k else cfg_string cfg ''wait_kind'',
      if cfg_string cfg ''reason'' = [] then r else cfg_string cfg ''reason''))"

definition wait_correlation :: "'w Runner \<Rightarrow> gomap \<Rightarrow> string \<Rightarrow> 'w host \<Rightarrow> string" where
  "wait_correlation R cfg waitKind h =
     (if waitKind = ''message'' \<and> cfg_string cfg ''channel'' \<noteq> [] then cfg_string cfg ''channel''
      else if cfg_string cfg ''correlation_key'' \<noteq> [] then cfg_string cfg ''correlation_key''
      else ''wait-'' @ RN_uuid R (H_world h))"

text \<open>The memory of the agent at the wait; \<open>None\<close> when it has no JSON form.\<close>

definition memory_snapshot :: "'w Runner \<Rightarrow> 'w host \<Rightarrow> (string \<times> bytes) list option" where
  "memory_snapshot R h = (case AG_Session (H_agent h) of None \<Rightarrow> Some []
     | Some s \<Rightarrow>
         (case Option.bind (state_text (RN_zone R) (SessionToAgentState s)) marshal_raw of
            None \<Rightarrow> None
          | Some wm \<Rightarrow> Some [(''memory_snapshot'', fields_text
               [(''snapshot_at'', json_quote (rfc3339 (RN_zone R) (RN_now R 7 (H_world h)))), (''working_memory'', wm)])]))"

definition wait_status :: "TaskGraph \<Rightarrow> string \<Rightarrow> int" where
  "wait_status g nodeID =
     (if list_ex (\<lambda>n. TN_ID n = nodeID \<and> map_of (TN_Config n) ''park'' = Some (GBool True)) (TG_Nodes g) then statusParked else statusWaiting)"

definition wait_node ::
  "'w Runner \<Rightarrow> JobForRunner \<Rightarrow> TaskGraph \<Rightarrow> bytes \<Rightarrow> 'r SteppableStep \<Rightarrow> DAGPayload \<Rightarrow> 'w host \<Rightarrow> run_outcome \<times> 'w host" where
  "wait_node R j g graphBytes step p h =
     (let jobID = JR_ID j; nodeID = SS_NodeID step; cfg = node_config g nodeID;
          (waitKind, reason) = wait_kind_reason (SS_NodeType step) cfg;
          stop = (\<lambda>h. (Returns (Some JobWaitingErr), update_status R jobID (wait_status g nodeID) h));
          failed = (Returns (Some SerializeFailed), update_status R jobID statusFailed h)
      in case RN_nodeEventSink R of None \<Rightarrow> stop h
         | Some _ \<Rightarrow>
             (case (memory_snapshot R h, results_text (PL_Results p)) of
                (Some extra, Some results) \<Rightarrow>
                  stop (emit_node R (JobWaitingCall jobID nodeID waitKind reason (wait_expiry R cfg h) (wait_correlation R cfg waitKind h)
                    (resumption_fields nodeID results (PlanDecisionID graphBytes) extra)) h)
              | _ \<Rightarrow> failed))"

section \<open>Parallel levels\<close>

text \<open>What one goroutine sends: the payload as the node left it, and its error; a panic is caught.\<close>

definition run_goroutine ::
  "'w Runner \<Rightarrow> JobForRunner \<Rightarrow> ReplayContext option \<Rightarrow> string \<Rightarrow> 'w NodeRunner SteppableStep list \<Rightarrow> DAGPayload \<Rightarrow> nat \<Rightarrow> 'w host
     \<Rightarrow> (nat \<times> DAGPayload \<times> goerr option) \<times> 'w host" where
  "run_goroutine R j rc decisionID steps p i h =
     (let step = steps ! i; stepID = step_id_at (JR_ID j) decisionID steps i; copy = p\<lparr>PL_Results := Some (results_of p)\<rparr>
      in case runStepValidators (RN_stepValidators R) (JR_ID j) stepID (SS_NodeID step) (SS_NodeType step) of
           Some e \<Rightarrow> ((i, copy, Some e), h)
         | None \<Rightarrow>
             (case SS_Run step (step_context R j stepID rc True True) copy h of
                (NodePanics q msg, h1) \<Rightarrow> ((i, q, Some (TextError (''panic in step execution: '' @ msg))), h1)
              | (NodeReturns q _ e, h1) \<Rightarrow> ((i, q, e), h1)))"

fun run_goroutines ::
  "'w Runner \<Rightarrow> JobForRunner \<Rightarrow> ReplayContext option \<Rightarrow> string \<Rightarrow> 'w NodeRunner SteppableStep list \<Rightarrow> DAGPayload \<Rightarrow> nat list
     \<Rightarrow> 'w host \<Rightarrow> (nat \<times> DAGPayload \<times> goerr option) list \<times> 'w host" where
  "run_goroutines R j rc decisionID steps p [] h = ([], h)"
| "run_goroutines R j rc decisionID steps p (i # is) h =
     (case run_goroutine R j rc decisionID steps p i h of
        (r, h1) \<Rightarrow> (case run_goroutines R j rc decisionID steps p is h1 of (rs, h2) \<Rightarrow> (r # rs, h2)))"

definition emit_all :: "'w Runner \<Rightarrow> node_event list \<Rightarrow> 'w host \<Rightarrow> 'w host" where
  "emit_all R evs h = foldl (\<lambda>h ev. emit_node R ev h) h evs"

text \<open>The events of a step that succeeded, with the given results.\<close>

definition level_events :: "string \<Rightarrow> string \<Rightarrow> 'r SteppableStep list \<Rightarrow> bytes \<Rightarrow> nat \<Rightarrow> node_event list" where
  "level_events jobID decisionID steps results i =
     (let nodeID = SS_NodeID (steps ! i); stepID = step_id_at jobID decisionID steps i
      in [NodeFinishedCall jobID nodeID results 0 ''ok'' 1 (commit_type (SS_NodeType (steps ! i))) [] stepID [],
          StepCommittedCall jobID nodeID stepID stepID []])"

text \<open>A failed level: the siblings that succeeded are recorded with their own results, then the first failure.\<close>

definition level_failed ::
  "'w Runner \<Rightarrow> JobForRunner \<Rightarrow> string \<Rightarrow> 'r SteppableStep list \<Rightarrow> (nat \<times> DAGPayload \<times> goerr option) list \<Rightarrow> nat \<Rightarrow> goerr
     \<Rightarrow> 'w host \<Rightarrow> run_error \<times> 'w host" where
  "level_failed R j decisionID steps results i e h =
     (let jobID = JR_ID j; nodeID = SS_NodeID (steps ! i); (t, reason) = classify_run (Some e);
          siblings = concat (map (\<lambda>(k, q, _). level_events jobID decisionID steps
            (case results_text (PL_Results q) of None \<Rightarrow> ''{}'' | Some b \<Rightarrow> b) k) (filter (\<lambda>(_, _, err). err = None) results));
          failure = NodeFinishedCall jobID nodeID ''{}'' 0 (result_type_name t) 1 t reason (step_id_at jobID decisionID steps i) []
      in (ParallelError nodeID e, update_status R jobID statusFailed (emit_all R (siblings @ [failure]) h)))"

text \<open>The results of the nodes, in the order of their ids, into the payload.\<close>

definition result_for :: "'r SteppableStep list \<Rightarrow> (nat \<times> DAGPayload \<times> goerr option) list \<Rightarrow> string \<Rightarrow> (nat \<times> DAGPayload) option" where
  "result_for steps results nodeID =
     (case filter (\<lambda>(i, _, _). SS_NodeID (steps ! i) = nodeID) results of [] \<Rightarrow> None | (i, q, _) # _ \<Rightarrow> Some (i, q))"

definition merge_node :: "'r SteppableStep list \<Rightarrow> (nat \<times> DAGPayload \<times> goerr option) list \<Rightarrow> string \<Rightarrow> DAGPayload \<Rightarrow> DAGPayload" where
  "merge_node steps results nodeID p = (case result_for steps results nodeID of None \<Rightarrow> p
     | Some (i, q) \<Rightarrow> (case map_of (results_of q) nodeID of None \<Rightarrow> p | Some v \<Rightarrow> put_node_result nodeID v p))"

text \<open>A level whose goroutines come in in the given order.\<close>

definition level_in_order ::
  "'w Runner \<Rightarrow> JobForRunner \<Rightarrow> ReplayContext option \<Rightarrow> string \<Rightarrow> bytes \<Rightarrow> 'w NodeRunner SteppableStep list \<Rightarrow> nat list
     \<Rightarrow> string list \<Rightarrow> DAGPayload \<Rightarrow> nat list \<Rightarrow> 'w host \<Rightarrow> (run_error + DAGPayload \<times> string list) \<times> 'w host" where
  "level_in_order R j rc decisionID graphBytes steps batch completed p order h1 =
     (let jobID = JR_ID j; (results, h2) = run_goroutines R j rc decisionID steps p order h1
      in case filter (\<lambda>(_, _, e). e \<noteq> None) results of
           (i, _, e) # _ \<Rightarrow>
             (case level_failed R j decisionID steps results i (the e) h2 of (err, h3) \<Rightarrow> (Inl err, h3))
         | [] \<Rightarrow>
             (let done_ids = sort (map (\<lambda>(i, _, _). SS_NodeID (steps ! i)) results);
                  p1 = fold (merge_node steps results) done_ids p
              in case results_text (PL_Results p1) of
                   None \<Rightarrow> (Inl SerializeFailed, update_status R jobID statusFailed h2)
                 | Some merged \<Rightarrow>
                     (let finished = List.map_filter (\<lambda>n. map_option fst (result_for steps results n)) done_ids;
                          h3 = emit_all R (concat (map (level_events jobID decisionID steps merged) finished)) h2;
                          completed1 = fold sput (map (step_id_at jobID decisionID steps) finished) completed;
                          cursor = SS_NodeID (steps ! fold max (tl batch) (hd batch))
                      in case save_checkpoint R jobID cursor graphBytes merged h3 of
                           (Some e, h4) \<Rightarrow> (Inl e, h4) | (None, h4) \<Rightarrow> (Inr (p1, completed1), h4))))"

definition runParallelLevel ::
  "'w Runner \<Rightarrow> JobForRunner \<Rightarrow> ReplayContext option \<Rightarrow> string \<Rightarrow> bytes \<Rightarrow> 'w NodeRunner SteppableStep list \<Rightarrow> nat list
     \<Rightarrow> string list \<Rightarrow> DAGPayload \<Rightarrow> 'w host \<Rightarrow> (run_error + DAGPayload \<times> string list) \<times> 'w host" where
  "runParallelLevel R j rc decisionID graphBytes steps batch completed p h =
     (let ids = sort (map (\<lambda>i. SS_NodeID (steps ! i)) batch);
          h1 = emit_all R (map (\<lambda>n. NodeStartedCall (JR_ID j) n 1 []) ids) h
      in level_in_order R j rc decisionID graphBytes steps batch completed p (RN_order R batch h1) h1)"

section \<open>The run loop\<close>

record 'w loop_state =
  LP_payload :: DAGPayload
  LP_completed :: "string list"
  LP_host :: "'w host"

datatype 'w round = Continue "'w loop_state" | Stop run_outcome "'w host"

definition loop_step ::
  "'w Runner \<Rightarrow> JobForRunner \<Rightarrow> bytes \<Rightarrow> 'w NodeRunner SteppableStep \<Rightarrow> string \<Rightarrow> ReplayContext option \<Rightarrow> bytes \<Rightarrow> 'w loop_state \<Rightarrow> 'w round" where
  "loop_step R j graphBytes step stepID rc stateBefore st =
     (let started = RN_now R 0 (H_world (LP_host st))
      in case run_node R (JR_ID j) (step_context R j stepID rc True False) step (LP_payload st) (LP_host st) of
           (None, h1) \<Rightarrow> Stop Panics h1
         | (Some (payload, runErr), h1) \<Rightarrow>
             (case signalWaitFromError runErr of
                Some wait \<Rightarrow> (case signal_wait R (JR_ID j) (SS_NodeID step) graphBytes payload wait h1 of (out, h2) \<Rightarrow> Stop out h2)
              | None \<Rightarrow>
                  (case settle_run R j step stepID True graphBytes stateBefore started payload runErr h1 of
                     (Inl e, h2) \<Rightarrow> Stop (Returns (Some e)) h2
                   | (Inr p, h2) \<Rightarrow> Continue \<lparr>LP_payload = p, LP_completed = sput (SS_NodeID step) (sput stepID (LP_completed st)),
                       LP_host = h2\<rparr>)))"

definition sequential_round ::
  "'w Runner \<Rightarrow> JobForRunner \<Rightarrow> TaskGraph \<Rightarrow> bytes \<Rightarrow> 'w NodeRunner SteppableStep list \<Rightarrow> ReplayContext option \<Rightarrow> nat \<Rightarrow> 'w loop_state
     \<Rightarrow> 'w round" where
  "sequential_round R j g graphBytes steps rc i st =
     (let jobID = JR_ID j; decisionID = PlanDecisionID graphBytes; step = steps ! i; stepID = step_id_at jobID decisionID steps i;
          p = LP_payload st; h = LP_host st
      in case replay_action_for R rc step of
           InjectRecorded result \<Rightarrow>
             (case inject_recorded R j step stepID graphBytes (LP_completed st) result p h of
                (Inl e, h1) \<Rightarrow> Stop (Returns (Some e)) h1
              | (Inr p1, h1) \<Rightarrow> Continue \<lparr>LP_payload = p1, LP_completed = sput stepID (LP_completed st), LP_host = h1\<rparr>)
         | Refuse \<Rightarrow> Stop (Returns (Some (ReplayForbidden (SS_NodeID step)))) (update_status R jobID statusFailed h)
         | RunNow \<Rightarrow>
             if step_done jobID decisionID steps (LP_completed st) i then Continue st
             else (case results_text (PL_Results p) of
                     None \<Rightarrow> Stop (Returns (Some SerializeFailed)) (update_status R jobID statusFailed h)
                   | Some stateBefore \<Rightarrow>
                       (let h1 = emit_node R (NodeStartedCall jobID (SS_NodeID step) 1 []) h
                        in if isWaitLikeNodeType (SS_NodeType step)
                           then (case wait_node R j g graphBytes step p h1 of (out, h2) \<Rightarrow> Stop out h2)
                           else loop_step R j graphBytes step stepID rc stateBefore (st\<lparr>LP_host := h1\<rparr>))))"

definition loop_round ::
  "'w Runner \<Rightarrow> JobForRunner \<Rightarrow> TaskGraph \<Rightarrow> bytes \<Rightarrow> 'w NodeRunner SteppableStep list \<Rightarrow> ReplayContext option \<Rightarrow> 'w loop_state \<Rightarrow> 'w round" where
  "loop_round R j g graphBytes steps rc st =
     (let jobID = JR_ID j; decisionID = PlanDecisionID graphBytes;
          batch = nextRunnableBatch (RN_maxParallelSteps R) steps (level_groups g) (LP_completed st) jobID decisionID
      in if batch = [] then Stop (Returns None) (writeTerminalCompleted R jobID (JR_Goal j) (LP_host st))
         else if 1 < length batch \<and> 0 < RN_maxParallelSteps R \<and> \<not> list_ex (\<lambda>i. isWaitLikeNodeType (SS_NodeType (steps ! i))) batch
         then (case runParallelLevel R j rc decisionID graphBytes steps batch (LP_completed st) (LP_payload st) (LP_host st) of
                 (Inl e, h) \<Rightarrow> Stop (Returns (Some e)) h
               | (Inr (p, completed), h) \<Rightarrow> Continue \<lparr>LP_payload = p, LP_completed = completed, LP_host = h\<rparr>)
         else sequential_round R j g graphBytes steps rc (hd batch) st)"

text \<open>The loop with a bound on its rounds; \<open>None\<close> when the bound is too small.\<close>

fun run_loop ::
  "nat \<Rightarrow> 'w Runner \<Rightarrow> JobForRunner \<Rightarrow> TaskGraph \<Rightarrow> bytes \<Rightarrow> 'w NodeRunner SteppableStep list \<Rightarrow> ReplayContext option \<Rightarrow> 'w loop_state
     \<Rightarrow> (run_outcome \<times> 'w host) option" where
  "run_loop 0 R j g graphBytes steps rc st = None"
| "run_loop (Suc n) R j g graphBytes steps rc st =
     (case loop_round R j g graphBytes steps rc st of
        Stop out h \<Rightarrow> Some (out, h) | Continue st' \<Rightarrow> run_loop n R j g graphBytes steps rc st')"

section \<open>A job\<close>

definition hasReplayProgress :: "ReplayContext option \<Rightarrow> bool" where
  "hasReplayProgress r = (case r of None \<Rightarrow> False
     | Some rc \<Rightarrow> RC_CompletedCommandIDs rc \<noteq> [] \<or> RC_CompletedNodeIDs rc \<noteq> [] \<or> RC_CompletedToolInvocations rc \<noteq> []
         \<or> RC_PendingToolInvocations rc \<noteq> [] \<or> RC_CommandResults rc \<noteq> [])"

definition apply_memory :: "ReplayContext \<Rightarrow> 'w host \<Rightarrow> 'w host" where
  "apply_memory rc h = (if RC_WorkingMemorySnapshot rc = [] then h
     else (case decode_state (RC_WorkingMemorySnapshot rc) of None \<Rightarrow> h
       | Some st \<Rightarrow> h\<lparr>H_agent := (H_agent h)\<lparr>AG_Session := map_option (ApplyAgentState st) (AG_Session (H_agent h))\<rparr>\<rparr>))"

text \<open>The event-driven loop, with a bound on its rounds: it ends with an outcome, or breaks off when no context can be built.\<close>

datatype advance_exit = AdvExit run_outcome | AdvBreak

fun advance_loop ::
  "nat \<Rightarrow> bool \<Rightarrow> 'w Runner \<Rightarrow> JobForRunner \<Rightarrow> (string \<Rightarrow> 'w \<Rightarrow> replay_error + ReplayContext option) \<Rightarrow> ReplayContext \<Rightarrow> 'w host
     \<Rightarrow> (advance_exit \<times> 'w host) option" where
  "advance_loop 0 from_events R j build rc h = None"
| "advance_loop (Suc n) from_events R j build rc h =
     (case Advance R j (Some rc) h of
        (AdvStops out, h1) \<Rightarrow> Some (AdvExit out, h1)
      | (AdvDone, h1) \<Rightarrow> Some (AdvExit (Returns None), h1)
      | (AdvMore, h1) \<Rightarrow>
          (case build (JR_ID j) (H_world h1) of
             Inl NilMapPanic \<Rightarrow> Some (AdvExit Panics, h1)
           | Inl (ListFailed _) \<Rightarrow> Some (AdvBreak, h1)
           | Inr None \<Rightarrow> Some (AdvBreak, h1)
           | Inr (Some rc') \<Rightarrow>
               if from_events
               then (if RC_Phase rc' = PhaseWaiting
                     then Some (AdvExit (Returns (Some JobWaitingErr)), update_status R (JR_ID j) statusWaiting h1)
                     else advance_loop n from_events R j build rc' (apply_memory rc' h1))
               else advance_loop n from_events R j build rc' h1))"

definition start_loop ::
  "nat \<Rightarrow> 'w Runner \<Rightarrow> JobForRunner \<Rightarrow> GraphDoc \<Rightarrow> 'w NodeRunner SteppableStep list \<Rightarrow> string list \<Rightarrow> DAGPayload \<Rightarrow> 'w host
     \<Rightarrow> (run_outcome \<times> 'w host) option" where
  "start_loop n R j gd steps completed p h =
     run_loop n R j (GD_Graph gd) (Graph_Marshal gd) steps None \<lparr>LP_payload = p, LP_completed = completed, LP_host = h\<rparr>"

text \<open>
  The steps a checkpoint stands for: all up to the cursor's node, by node id, and by step id too; every node, and no
  step id, when the cursor's node is not among the steps.
\<close>

definition checkpoint_completed :: "string \<Rightarrow> string \<Rightarrow> 'r SteppableStep list \<Rightarrow> string \<Rightarrow> string list" where
  "checkpoint_completed jobID decisionID steps cursor =
     (let ids = map SS_NodeID steps; k = length (takeWhile (\<lambda>n. n \<noteq> cursor) ids);
          startIndex = (if k < length ids then Suc k else 0)
      in fold sput (map (step_id_at jobID decisionID steps) [0..<startIndex]) (fold sput (take (Suc k) ids) []))"

definition checkpoint_context :: "Checkpoint \<Rightarrow> string list \<Rightarrow> ReplayContext" where
  "checkpoint_context cp completed = ReplayContext0\<lparr>RC_TaskGraphState := CP_TaskGraphState cp, RC_CursorNode := CP_CursorNode cp,
     RC_PayloadResults := CP_PayloadResults cp, RC_CompletedNodeIDs := completed, RC_Phase := PhaseExecuting,
     RC_RecordedTime := None, RC_RecordedUUID := None\<rparr>"

definition run_from_checkpoint ::
  "nat \<Rightarrow> 'w Runner \<Rightarrow> JobForRunner \<Rightarrow> 'w checkpointStore \<Rightarrow> 'w host \<Rightarrow> (run_outcome \<times> 'w host) option" where
  "run_from_checkpoint n R j cs h =
     (let failed = (\<lambda>e. Some (Returns (Some e), update_status R (JR_ID j) statusFailed h))
      in case CS_Load cs (JR_Cursor j) (H_world h) of
           Inr (Some cp) \<Rightarrow>
             (case Graph_Unmarshal (CP_TaskGraphState cp) of None \<Rightarrow> failed GraphDecodeFailed
              | Some gd \<Rightarrow>
                  (case CompileSteppable (RN_registry R) (Some (GD_Graph gd)) of Inl e \<Rightarrow> failed (CompileFailed e)
                   | Inr steps \<Rightarrow>
                       (case load_results (CP_PayloadResults cp) (NewAgentDAGPayload (JR_Goal j) (AG_ID (H_agent h)) (session_id h)) of
                          None \<Rightarrow> failed PayloadDecodeFailed
                        | Some p \<Rightarrow>
                            (let completed = checkpoint_completed (JR_ID j) (PlanDecisionID (CP_TaskGraphState cp)) steps (CP_CursorNode cp)
                             in case RN_replayBuilder R of
                                  None \<Rightarrow> start_loop n R j gd steps completed p h
                                | Some build \<Rightarrow>
                                    (case build (JR_ID j) (H_world h) of
                                       Inl NilMapPanic \<Rightarrow> Some (Panics, h)
                                     | r \<Rightarrow>
                                        (let completed' = (case r of Inr (Some fresh) \<Rightarrow> fold sput (RC_CompletedNodeIDs fresh) completed
                                                             | _ \<Rightarrow> completed)
                                         in case advance_loop n False R j build (checkpoint_context cp completed') h of
                                              None \<Rightarrow> None
                                            | Some (AdvExit out, h1) \<Rightarrow> Some (out, h1)
                                            | Some (AdvBreak, h1) \<Rightarrow> start_loop n R j gd steps completed' p h1))))))
         | _ \<Rightarrow> failed (RecoverCheckpointFailed (JR_Cursor j)))"

text \<open>
  Without a cursor the plan must be in the events.  When the event-driven loop breaks off, the context it lost is read
  once more, which is a nil dereference.
\<close>

definition run_recovered ::
  "nat \<Rightarrow> 'w Runner \<Rightarrow> JobForRunner \<Rightarrow> (string \<Rightarrow> 'w \<Rightarrow> replay_error + ReplayContext option) \<Rightarrow> ReplayContext \<Rightarrow> GraphDoc \<Rightarrow> 'w host
     \<Rightarrow> (run_outcome \<times> 'w host) option" where
  "run_recovered n R j build rc gd h =
     (let failed = (\<lambda>e h. Some (Returns (Some e), update_status R (JR_ID j) statusFailed h));
          compiled = (\<lambda>k h. case CompileSteppable (RN_registry R) (Some (GD_Graph gd)) of
             Inl e \<Rightarrow> failed (CompileFailed e) h | Inr steps \<Rightarrow> k steps)
      in if hasReplayProgress (Some rc)
         then (case advance_loop n True R j build rc h of
                 None \<Rightarrow> None
               | Some (AdvExit out, h1) \<Rightarrow> Some (out, h1)
               | Some (AdvBreak, h1) \<Rightarrow> compiled (\<lambda>_. Some (Panics, h1)) h1)
         else compiled (\<lambda>steps.
                case load_results (RC_PayloadResults rc) (NewAgentDAGPayload (JR_Goal j) (AG_ID (H_agent h)) (session_id h)) of
                  None \<Rightarrow> failed PayloadDecodeFailed h
                | Some p \<Rightarrow> start_loop n R j gd steps (RC_CompletedNodeIDs rc) p h) h)"

definition run_from_events ::
  "nat \<Rightarrow> 'w Runner \<Rightarrow> JobForRunner \<Rightarrow> 'w host \<Rightarrow> (run_outcome \<times> 'w host) option" where
  "run_from_events n R j h =
     (let no_plan = Some (Returns (Some NoPlanGenerated), update_status R (JR_ID j) statusFailed h)
      in case RN_replayBuilder R of None \<Rightarrow> no_plan
         | Some build \<Rightarrow>
             (case build (JR_ID j) (H_world h) of
                Inl NilMapPanic \<Rightarrow> Some (Panics, h)
              | Inr (Some rc) \<Rightarrow>
                  (case ReplayContext_TaskGraph rc of
                     Some (Some gd) \<Rightarrow>
                       (let h1 = apply_memory rc h
                        in if RC_Phase rc = PhaseWaiting
                           then Some (Returns (Some JobWaitingErr), update_status R (JR_ID j) statusWaiting h1)
                           else run_recovered n R j build rc gd h1)
                   | _ \<Rightarrow> no_plan)
              | _ \<Rightarrow> no_plan))"

definition set_agent_status :: "AgentStatus \<Rightarrow> 'w host \<Rightarrow> 'w host" where
  "set_agent_status st h = h\<lparr>H_agent := SetStatus st (H_agent h)\<rparr>"

text \<open>The agent is idle again however the run ends; the bound is for both loops.\<close>

definition RunForJob :: "nat \<Rightarrow> 'w Runner \<Rightarrow> JobForRunner option \<Rightarrow> 'w host \<Rightarrow> (run_outcome \<times> 'w host) option" where
  "RunForJob n R jo h = (case jo of None \<Rightarrow> Some (Returns (Some NilAgentOrJob), h)
     | Some j \<Rightarrow>
         (case (RN_checkpointStore R, RN_jobStore R) of
            (Some cs, Some _) \<Rightarrow>
              (let h1 = set_agent_status StatusRunning h
               in map_option (\<lambda>(out, h2). (out, set_agent_status StatusIdle h2))
                    (if JR_Cursor j \<noteq> [] then run_from_checkpoint n R j cs h1 else run_from_events n R j h1))
          | _ \<Rightarrow> (case RN_run R (JR_Goal j) h of (e, h1) \<Rightarrow> Some (Returns (map_option PlainRunFailed e), h1))))"

end
