(* ===== verification/Dag_Schedule.thy ===== *)
theory Dag_Schedule
  imports Dag_Runner
begin

text \<open>
  Which steps of a plan the runner picks next, and why its loop ends: the next batch, with and without parallel levels,
  and the set of undone steps as the measure of a round.
\<close>

section \<open>Steps and their indices\<close>

lemma node_index_nth:
  assumes "distinct (map SS_NodeID steps)" and "i < length steps"
  shows "node_index steps (SS_NodeID (steps ! i)) = Some i"
proof -
  have "distinct (map fst (rev (zip (map SS_NodeID steps) [0..<length steps])))"
    using assms(1) by (simp add: rev_map [symmetric])
  moreover have "(SS_NodeID (steps ! i), i) \<in> set (rev (zip (map SS_NodeID steps) [0..<length steps]))"
    using assms(2) by (auto simp: set_zip intro!: exI [of _ i])
  ultimately show ?thesis unfolding node_index_def by (simp only: map_of_eq_Some_iff)
qed

lemma node_index_Some:
  assumes "node_index steps v = Some i"
  shows "i < length steps \<and> SS_NodeID (steps ! i) = v"
  using map_of_SomeD [OF assms [unfolded node_index_def]] by (auto simp: set_zip)

lemma level_batch_spec:
  assumes "i \<in> set (level_batch levels idx fin)"
  obtains k v where "k < length levels" and "v \<in> set (levels ! k)" and "idx v = Some i" and "\<not> fin i"
    and "\<And>k' v' i'. k' < k \<Longrightarrow> v' \<in> set (levels ! k') \<Longrightarrow> idx v' = Some i' \<Longrightarrow> fin i'"
  using assms
proof (induction levels arbitrary: thesis)
  case (Cons level levels)
  show ?case
  proof (cases "filter (\<lambda>i. \<not> fin i) (List.map_filter idx level) = []")
    case True
    then have "i \<in> set (level_batch levels idx fin)" using Cons.prems(2) by simp
    then obtain k v where k: "k < length levels" "v \<in> set (levels ! k)" "idx v = Some i" "\<not> fin i"
      and below: "\<And>k' v' i'. k' < k \<Longrightarrow> v' \<in> set (levels ! k') \<Longrightarrow> idx v' = Some i' \<Longrightarrow> fin i'"
      using Cons.IH by blast
    have first: "v' \<in> set level \<Longrightarrow> idx v' = Some i' \<Longrightarrow> fin i'" for v' i'
      using True by (auto simp: filter_empty_conv List.map_filter_def)
    show ?thesis
      by (rule Cons.prems(1) [of "Suc k" v])
        (use k below first in \<open>auto simp: less_Suc_eq_0_disj\<close>)
  next
    case False
    then have "i \<in> set (filter (\<lambda>i. \<not> fin i) (List.map_filter idx level))" using Cons.prems(2) by (simp add: Let_def)
    then obtain v where "v \<in> set level" "idx v = Some i" "\<not> fin i" by (auto simp: List.map_filter_def)
    then show ?thesis by (intro Cons.prems(1) [of 0 v]) auto
  qed
qed simp

lemma level_batch_empty:
  "level_batch levels idx fin = [] \<longleftrightarrow> (\<forall>v\<in>set (concat levels). \<forall>i. idx v = Some i \<longrightarrow> fin i)"
proof (induction levels)
  case (Cons level levels)
  have "filter (\<lambda>i. \<not> fin i) (List.map_filter idx level) = [] \<longleftrightarrow> (\<forall>v\<in>set level. \<forall>i. idx v = Some i \<longrightarrow> fin i)"
    by (auto simp: List.map_filter_def filter_empty_conv)
  then show ?case using Cons by (auto simp: Let_def)
qed simp

lemma first_undone:
  assumes "take 1 (filter (\<lambda>i. \<not> fin i) [0..<n]) = b" and "i \<in> set b"
  shows "i < n \<and> \<not> fin i \<and> (\<forall>k<i. fin k)"
proof -
  obtain rest where "filter (\<lambda>i. \<not> fin i) [0..<n] = i # rest"
    using assms by (cases "filter (\<lambda>i. \<not> fin i) [0..<n]") auto
  then obtain us vs where split: "[0..<n] = us @ i # vs" "\<forall>u\<in>set us. fin u" "\<not> fin i"
    by (auto simp: filter_eq_Cons_iff)
  have "sorted_wrt (<) (us @ i # vs)" using split(1) sorted_wrt_upt [of 0 n] by metis
  then have above: "\<forall>k\<in>set vs. i < k" by (simp add: sorted_wrt_append)
  have "k \<in> set [0..<n] \<longleftrightarrow> k \<in> set us \<or> k = i \<or> k \<in> set vs" for k
    unfolding split(1) by auto
  then have mem: "k < n \<longleftrightarrow> k \<in> set us \<or> k = i \<or> k \<in> set vs" for k by simp
  have "fin k" if "k < i" for k
  proof -
    have "k < n" using that mem [of i] by simp
    then show ?thesis using mem [of k] split(2) above that by auto
  qed
  then show ?thesis using split(3) mem [of i] by blast
qed


section \<open>The next batch\<close>

definition preds_done :: "TaskGraph \<Rightarrow> string \<Rightarrow> string \<Rightarrow> 'r SteppableStep list \<Rightarrow> string list \<Rightarrow> nat \<Rightarrow> bool" where
  "preds_done g jobID decisionID steps completed i \<longleftrightarrow>
     (\<forall>e\<in>set (TG_Edges g). TE_To e = SS_NodeID (steps ! i) \<longrightarrow>
        (\<exists>k<length steps. SS_NodeID (steps ! k) = TE_From e \<and> step_done jobID decisionID steps completed k))"

lemma level_groups_Some:
  assumes "level_groups g = Some levels"
  shows "(LevelGroups (Some g) :: goerr graph_error + string list list) = Inr levels"
  using assms by (auto simp: level_groups_def split: sum.splits list.splits)

lemma plan_nodes:
  assumes "topological g (map SS_NodeID steps)"
  shows "distinct (map SS_NodeID steps)" and "i < length steps \<Longrightarrow> SS_NodeID (steps ! i) \<in> set (node_set g)"
    and "v \<in> set (node_set g) \<Longrightarrow> \<exists>k<length steps. SS_NodeID (steps ! k) = v"
proof -
  have eq: "set (map SS_NodeID steps) = set (node_set g)" and d: "distinct (map SS_NodeID steps)"
    using assms by (simp_all add: topological_def)
  show "distinct (map SS_NodeID steps)" by (rule d)
  show "SS_NodeID (steps ! i) \<in> set (node_set g)" if "i < length steps"
    using that eq by (metis length_map nth_map nth_mem)
  show "\<exists>k<length steps. SS_NodeID (steps ! k) = v" if "v \<in> set (node_set g)"
    using that eq by (metis in_set_conv_nth length_map nth_map)
qed

text \<open>The source of an edge into a step is an earlier step.\<close>

lemma edge_earlier:
  assumes "topological g (map SS_NodeID steps)" and "i < length steps"
    and "e \<in> set (TG_Edges g)" and "TE_To e = SS_NodeID (steps ! i)"
  shows "\<exists>k<i. SS_NodeID (steps ! k) = TE_From e"
proof -
  have "map SS_NodeID steps = take i (map SS_NodeID steps) @ map SS_NodeID steps ! i # drop (Suc i) (map SS_NodeID steps)"
    by (rule id_take_nth_drop) (use assms(2) in simp)
  then have "TE_From e \<in> set (take i (map SS_NodeID steps))"
    using assms unfolding topological_def by (metis nth_map)
  then show ?thesis using assms(2) by (auto simp: in_set_conv_nth)
qed

lemma sequential_batch:
  assumes "topological g (map SS_NodeID steps)"
    and "i \<in> set (take 1 (filter (\<lambda>i. \<not> step_done jobID decisionID steps completed i) [0..<length steps]))"
  shows "i < length steps \<and> \<not> step_done jobID decisionID steps completed i \<and> preds_done g jobID decisionID steps completed i"
proof -
  have i: "i < length steps" "\<not> step_done jobID decisionID steps completed i"
      "\<forall>k<i. step_done jobID decisionID steps completed k"
    using first_undone [OF refl assms(2)] by auto
  show ?thesis
    unfolding preds_done_def using i edge_earlier [OF assms(1) i(1)] by (meson less_trans)
qed

lemma parallel_batch:
  assumes top: "topological g (map SS_NodeID steps)" and levels: "level_groups g = Some levels"
    and i: "i \<in> set (level_batch levels (node_index steps) (step_done jobID decisionID steps completed))"
  shows "i < length steps \<and> \<not> step_done jobID decisionID steps completed i \<and> preds_done g jobID decisionID steps completed i"
proof -
  from i obtain k v where k: "k < length levels" "v \<in> set (levels ! k)" "node_index steps v = Some i"
      "\<not> step_done jobID decisionID steps completed i"
    and below: "\<And>k' v' i'. k' < k \<Longrightarrow> v' \<in> set (levels ! k') \<Longrightarrow> node_index steps v' = Some i' \<Longrightarrow>
        step_done jobID decisionID steps completed i'"
    by (rule level_batch_spec) blast
  have v: "i < length steps" "SS_NodeID (steps ! i) = v" using node_index_Some [OF k(3)] by auto
  have groups: "v \<in> set (node_set g)" "\<forall>u\<in>set (preds_of g v). \<exists>k'<k. u \<in> set (levels ! k')"
    using LevelGroups_correct [OF level_groups_Some [OF levels]] k(1,2) plan_nodes(2) [OF top v(1)] v(2) by auto
  have "\<exists>i'<length steps. SS_NodeID (steps ! i') = TE_From e \<and> step_done jobID decisionID steps completed i'"
    if edge: "e \<in> set (TG_Edges g)" "TE_To e = v" for e
  proof -
    have "TE_From e \<in> set (preds_of g v)" using edge groups(1) by (auto simp: preds_of_def)
    then obtain k' where k': "k' < k" "TE_From e \<in> set (levels ! k')" using groups(2) by blast
    obtain i' where "i' < i" and i'': "SS_NodeID (steps ! i') = TE_From e"
      using edge_earlier [OF top v(1) edge(1)] edge(2) v(2) by auto
    then have i': "i' < length steps" "SS_NodeID (steps ! i') = TE_From e" using v(1) by simp_all
    then have "node_index steps (TE_From e) = Some i'" using node_index_nth [OF plan_nodes(1) [OF top] i'(1)] by simp
    then show ?thesis using below [OF k'] i' by blast
  qed
  then show ?thesis using v k(4) by (simp add: preds_done_def)
qed

lemma batch_spec:
  assumes "topological g (map SS_NodeID steps)"
    and "i \<in> set (nextRunnableBatch maxParallel steps (level_groups g) completed jobID decisionID)"
  shows "i < length steps \<and> \<not> step_done jobID decisionID steps completed i \<and> preds_done g jobID decisionID steps completed i"
proof (cases "level_groups g \<noteq> None \<and> 0 < maxParallel")
  case True
  then obtain levels where "level_groups g = Some levels" by auto
  then show ?thesis using assms(2) True parallel_batch [OF assms(1)] by (simp add: nextRunnableBatch_def Let_def)
next
  case False
  then have "i \<in> set (take 1 (filter (\<lambda>i. \<not> step_done jobID decisionID steps completed i) [0..<length steps]))"
    using assms(2) by (auto simp: nextRunnableBatch_def Let_def split: option.splits)
  then show ?thesis by (rule sequential_batch [OF assms(1)])
qed

lemma batch_empty:
  assumes "topological g (map SS_NodeID steps)"
  shows "nextRunnableBatch maxParallel steps (level_groups g) completed jobID decisionID = []
    \<longleftrightarrow> (\<forall>i<length steps. step_done jobID decisionID steps completed i)"
proof -
  have seq: "take 1 (filter (\<lambda>i. \<not> step_done jobID decisionID steps completed i) [0..<length steps]) = []
      \<longleftrightarrow> (\<forall>i<length steps. step_done jobID decisionID steps completed i)"
    by (auto simp: filter_empty_conv)
  have par: "level_batch levels (node_index steps) (step_done jobID decisionID steps completed) = []
      \<longleftrightarrow> (\<forall>i<length steps. step_done jobID decisionID steps completed i)" if "level_groups g = Some levels" for levels
  proof -
    have all: "set (concat levels) = set (node_set g)"
      using LevelGroups_correct [OF level_groups_Some [OF that]] by blast
    show ?thesis
      unfolding level_batch_empty all using plan_nodes [OF assms] node_index_nth node_index_Some by metis
  qed
  show ?thesis using seq par by (auto simp: nextRunnableBatch_def Let_def split: option.splits)
qed

section \<open>The run loop ends\<close>

text \<open>The goroutines of a level come in some order; nothing is lost or invented.\<close>

definition order_ok :: "'w Runner \<Rightarrow> bool" where
  "order_ok R \<longleftrightarrow> (\<forall>batch h. set (RN_order R batch h) = set batch)"

definition undone :: "string \<Rightarrow> string \<Rightarrow> 'r SteppableStep list \<Rightarrow> string list \<Rightarrow> nat set" where
  "undone jobID decisionID steps completed = {i. i < length steps \<and> \<not> step_done jobID decisionID steps completed i}"

lemma set_fold_sput [simp]: "set (fold sput ks xs) = set ks \<union> set xs"
  by (induction ks arbitrary: xs) auto

lemma step_done_mono: "set c \<subseteq> set c' \<Longrightarrow> step_done jobID decisionID steps c i \<Longrightarrow> step_done jobID decisionID steps c' i"
  by (auto simp: step_done_def)

lemma undone_less:
  assumes "set c \<subseteq> set c'" and "i \<in> undone jobID decisionID steps c" and "step_done jobID decisionID steps c' i"
  shows "card (undone jobID decisionID steps c') < card (undone jobID decisionID steps c)"
proof (rule psubset_card_mono)
  show "finite (undone jobID decisionID steps c)" by (simp add: undone_def)
  show "undone jobID decisionID steps c' \<subset> undone jobID decisionID steps c"
    using assms step_done_mono [OF assms(1)] unfolding undone_def by blast
qed

lemma run_goroutines_indices:
  "map fst (fst (run_goroutines R j rc dec steps p is h)) = is"
proof (induction "is" arbitrary: h)
  case (Cons i "is")
  have "fst (fst (run_goroutine R j rc dec steps p i h)) = i"
    by (auto simp: run_goroutine_def Let_def split: option.splits prod.splits node_outcome.splits)
  moreover have "run_goroutines R j rc dec steps p is h1 = (rs, h2) \<Longrightarrow> map fst rs = is" for h1 rs h2
    using Cons.IH [of h1] by simp
  ultimately show ?case by (auto split: prod.splits)
qed simp

lemma result_for_Some:
  assumes "(i, q, e) \<in> set results"
  obtains i' q' where "result_for steps results (SS_NodeID (steps ! i)) = Some (i', q')" and "i' \<in> fst ` set results"
    and "SS_NodeID (steps ! i') = SS_NodeID (steps ! i)"
proof -
  let ?f = "filter (\<lambda>(k, _, _). SS_NodeID (steps ! k) = SS_NodeID (steps ! i)) results"
  have "(i, q, e) \<in> set ?f" using assms by simp
  then obtain i' q' e' rest where f: "?f = (i', q', e') # rest" by (cases ?f) auto
  then have "(i', q', e') \<in> set ?f" by simp
  then have "(i', q', e') \<in> set results" "SS_NodeID (steps ! i') = SS_NodeID (steps ! i)" by auto
  then show ?thesis using f by (intro that [of i' q']) (auto simp: result_for_def rev_image_eqI)
qed

lemma parallel_progress:
  assumes "runParallelLevel R j rc dec gb steps batch completed p h = (Inr (p', completed'), h')"
    and "order_ok R" and "batch \<noteq> []"
  shows "set completed \<subseteq> set completed'" and "\<exists>i\<in>set batch. step_id_at (JR_ID j) dec steps i \<in> set completed'"
proof -
  define h1 where "h1 = emit_all R (map (\<lambda>n. NodeStartedCall (JR_ID j) n 1 []) (sort (map (\<lambda>i. SS_NodeID (steps ! i)) batch))) h"
  obtain results h2 where run: "run_goroutines R j rc dec steps p (RN_order R batch h1) h1 = (results, h2)" by fastforce
  define ids where "ids = sort (map (\<lambda>(i, _, _). SS_NodeID (steps ! i)) results)"
  define finished where "finished = List.map_filter (\<lambda>n. map_option fst (result_for steps results n)) ids"
  have completed': "completed' = fold sput (map (step_id_at (JR_ID j) dec steps) finished) completed"
    using assms(1) run
    by (auto simp: runParallelLevel_def level_in_order_def Let_def h1_def [symmetric] ids_def [symmetric] finished_def [symmetric]
        split: list.splits prod.splits option.splits)
  then show "set completed \<subseteq> set completed'" by simp
  have idx: "fst ` set results = set batch"
    using run_goroutines_indices [of R j rc dec steps p "RN_order R batch h1" h1] run assms(2)
    by (metis fst_conv list.set_map order_ok_def)
  then obtain r where "r \<in> set results" using assms(3) by (cases results) auto
  then obtain i q e where r: "(i, q, e) \<in> set results" by (metis prod_cases3)
  obtain i' q' where i': "result_for steps results (SS_NodeID (steps ! i)) = Some (i', q')" "i' \<in> fst ` set results"
    by (rule result_for_Some [OF r])
  have "SS_NodeID (steps ! i) \<in> set ids" using r by (force simp: ids_def)
  then have "i' \<in> set finished" using i'(1) unfolding finished_def List.map_filter_def by force
  then show "\<exists>i\<in>set batch. step_id_at (JR_ID j) dec steps i \<in> set completed'" using i'(2) idx completed' by auto
qed

lemma sequential_progress:
  assumes "sequential_round R j g gb steps rc i st = Continue st'"
    and "\<not> step_done (JR_ID j) (PlanDecisionID gb) steps (LP_completed st) i"
  shows "set (LP_completed st) \<subseteq> set (LP_completed st')" and "step_id_at (JR_ID j) (PlanDecisionID gb) steps i \<in> set (LP_completed st')"
  using assms
  by (auto simp: sequential_round_def loop_step_def Let_def split: replay_action.splits prod.splits sum.splits option.splits if_splits)

lemma round_progress:
  assumes "topological g (map SS_NodeID steps)" and "order_ok R" and "loop_round R j g gb steps rc st = Continue st'"
  shows "card (undone (JR_ID j) (PlanDecisionID gb) steps (LP_completed st'))
    < card (undone (JR_ID j) (PlanDecisionID gb) steps (LP_completed st))"
proof -
  define batch where "batch = nextRunnableBatch (RN_maxParallelSteps R) steps (level_groups g) (LP_completed st) (JR_ID j) (PlanDecisionID gb)"
  have batch: "i < length steps \<and> \<not> step_done (JR_ID j) (PlanDecisionID gb) steps (LP_completed st) i" if "i \<in> set batch" for i
    using batch_spec [OF assms(1)] that unfolding batch_def by blast
  have ne: "batch \<noteq> []" using assms(3) by (auto simp: loop_round_def Let_def batch_def)
  have round: "(\<exists>p completed h. runParallelLevel R j rc (PlanDecisionID gb) gb steps batch (LP_completed st) (LP_payload st) (LP_host st)
        = (Inr (p, completed), h) \<and> LP_completed st' = completed) \<or> sequential_round R j g gb steps rc (hd batch) st = Continue st'"
    using assms(3) ne by (auto simp: loop_round_def Let_def batch_def [symmetric] split: if_splits sum.splits prod.splits)
  obtain i where i: "i \<in> set batch" "set (LP_completed st) \<subseteq> set (LP_completed st')"
      "step_id_at (JR_ID j) (PlanDecisionID gb) steps i \<in> set (LP_completed st')"
    using round
  proof
    assume "\<exists>p completed h. runParallelLevel R j rc (PlanDecisionID gb) gb steps batch (LP_completed st) (LP_payload st) (LP_host st)
        = (Inr (p, completed), h) \<and> LP_completed st' = completed"
    then show ?thesis using parallel_progress [OF _ assms(2) ne] that by metis
  next
    assume "sequential_round R j g gb steps rc (hd batch) st = Continue st'"
    then show ?thesis using sequential_progress [of R j g gb steps rc "hd batch" st st'] batch [of "hd batch"] ne that
      by (metis hd_in_set)
  qed
  then show ?thesis by (intro undone_less [of _ _ i]) (use batch in \<open>auto simp: undone_def step_done_def\<close>)
qed

lemma run_loop_bound:
  assumes "topological g (map SS_NodeID steps)" and "order_ok R"
    and "card (undone (JR_ID j) (PlanDecisionID gb) steps (LP_completed st)) < n"
  shows "run_loop n R j g gb steps rc st \<noteq> None"
  using assms(3)
proof (induction n arbitrary: st)
  case (Suc n)
  show ?case
  proof (cases "loop_round R j g gb steps rc st")
    case (Continue st')
    then show ?thesis using Suc.IH [of st'] Suc.prems round_progress [OF assms(1,2) Continue] by simp
  qed simp
qed simp

end
