(* ===== verification/Dag_Demo.thy ===== *)
theory Dag_Demo
  imports Dag_Schedule Sha_Eval
begin

text \<open>A small job for closed examples: three nodes, one edge, a sink that keeps the calls it gets.\<close>

definition demo_node :: "string \<Rightarrow> string \<Rightarrow> TaskNode" where
  "demo_node i t = \<lparr>TN_ID = i, TN_Type = t, TN_Config = [], TN_ToolName = [], TN_Workflow = []\<rparr>"

definition demo_doc :: "string \<Rightarrow> GraphDoc" where
  "demo_doc t = \<lparr>GD_Graph = \<lparr>TG_Nodes = [demo_node ''a'' t, demo_node ''b'' t], TG_Edges = []\<rparr>, GD_NilNodes = False, GD_NilEdges = False\<rparr>"

type_synonym demo_world = "node_event list"

text \<open>A node that stores its result and touches nothing else.\<close>

definition demo_run :: "string \<Rightarrow> demo_world NodeRunner" where
  "demo_run i ctx p h = (let p' = put_node_result i (GBool True) p in (NodeReturns p' (Some p') None, h))"

definition demo_registry :: "(demo_world NodeRunner, goerr) NodeAdapterRegistry" where
  "demo_registry = [''tool'' \<mapsto> Some (\<lambda>n. Inr (demo_run (TN_ID n))), ''approval'' \<mapsto> Some (\<lambda>n. Inr (\<lambda>ctx p h. (NodeReturns p (Some p) None, h)))]"

definition demo_text :: bytes where
  "demo_text = ''{\"nodes\":[{\"id\":\"a\",\"type\":\"tool\"},{\"id\":\"b\",\"type\":\"tool\"}],\"edges\":[]}''"

definition demo_steps :: "string \<Rightarrow> demo_world NodeRunner SteppableStep list" where
  "demo_steps t = map (\<lambda>i. \<lparr>SS_NodeID = i, SS_NodeType = t, SS_Run = (if t = ''tool'' then demo_run i else (\<lambda>ctx p h. (NodeReturns p (Some p) None, h)))\<rparr>)
     [''a'', ''b'']"

lemma demo_marshal: "Graph_Marshal (demo_doc ''tool'') = demo_text"
  by code_simp

lemma demo_unmarshal: "Graph_Unmarshal demo_text = Some (demo_doc ''tool'')"
  by code_simp

lemma demo_order: "(TopoOrder (Some (GD_Graph (demo_doc ''tool''))) :: goerr graph_error + string list) = Inr [''a'', ''b'']"
  and demo_order_approval: "(TopoOrder (Some (GD_Graph (demo_doc ''approval''))) :: goerr graph_error + string list) = Inr [''a'', ''b'']"
  by code_simp+

lemma demo_compile:
  "CompileSteppable (Some demo_registry) (Some (GD_Graph (demo_doc ''tool''))) = Inr (demo_steps ''tool'')"
  "CompileSteppable (Some demo_registry) (Some (GD_Graph (demo_doc ''approval''))) = Inr (demo_steps ''approval'')"
  unfolding CompileSteppable_def option.case demo_order demo_order_approval
  by (simp_all add: demo_doc_def demo_node_def demo_steps_def demo_registry_def node_by_id_def Registry_Get_def)

lemma demo_decision: "PlanDecisionID demo_text = ''9fb81e7526886d2e''"
proof -
  have "sha256_hex demo_text = ''9fb81e7526886d2e7d174f8b5d0695fd90d07628de78da44db404248da43d1de''"
    unfolding demo_text_def
    apply (rule sha256_hex_eval)
        apply (simp add: sha_pad_rules)
       apply simp
      apply simp
     apply (simp only: int_blocks_rules)
    apply code_simp
    done
  then show ?thesis by (simp add: PlanDecisionID_def demo_text_def)
qed

lemma DeterministicStepID_eval:
  "dec_int i = d \<Longrightarrow> sha256_hex (j @ nul @ dec @ nul @ d @ nul @ t) = h \<Longrightarrow> DeterministicStepID j dec i t = take 16 h"
  by (simp add: DeterministicStepID_def)

lemma demo_take_0: "take 16 ''a320e8c18c4a628422cd12964a812c6b451626cf5a1bafc0c1e68cef3fc0373a'' = ''a320e8c18c4a6284''"
  by simp

lemma demo_id_a: "DeterministicStepID ''j'' ''9fb81e7526886d2e'' 0 ''tool'' = ''a320e8c18c4a6284''"
proof -
  have "sha256_hex (''j'' @ nul @ ''9fb81e7526886d2e'' @ nul @ ''0'' @ nul @ ''tool'') = ''a320e8c18c4a628422cd12964a812c6b451626cf5a1bafc0c1e68cef3fc0373a''"
    unfolding append_Cons append_Nil
    apply (rule sha256_hex_eval)
        apply (simp add: sha_pad_rules)
       apply simp
      apply simp
     apply (simp only: int_blocks_rules)
    apply code_simp
    done
  moreover have "dec_int 0 = ''0''" by code_simp
  ultimately show ?thesis using DeterministicStepID_eval by (metis demo_take_0)
qed

lemma demo_take_1: "take 16 ''b16333a629638f991444293352e495b73ea78459fe9aae93284f3474662dbf1b'' = ''b16333a629638f99''"
  by simp

lemma demo_id_b: "DeterministicStepID ''j'' ''9fb81e7526886d2e'' 1 ''tool'' = ''b16333a629638f99''"
proof -
  have "sha256_hex (''j'' @ nul @ ''9fb81e7526886d2e'' @ nul @ ''1'' @ nul @ ''tool'') = ''b16333a629638f991444293352e495b73ea78459fe9aae93284f3474662dbf1b''"
    unfolding append_Cons append_Nil
    apply (rule sha256_hex_eval)
        apply (simp add: sha_pad_rules)
       apply simp
      apply simp
     apply (simp only: int_blocks_rules)
    apply code_simp
    done
  moreover have "dec_int 1 = ''1''" by code_simp
  ultimately show ?thesis using DeterministicStepID_eval by (metis demo_take_1)
qed

section \<open>A runner\<close>

definition demo_checkpoint :: Checkpoint where
  "demo_checkpoint = NewNodeCheckpoint 0 ''agent'' [] ''j'' ''a'' demo_text [] []"

definition demo_checkpoints :: "demo_world checkpointStore" where
  "demo_checkpoints = \<lparr>CS_Save = (\<lambda>cp w. (Inr ''cp'', w)), CS_Load = (\<lambda>i w. Inr (Some demo_checkpoint))\<rparr>"

definition demo_jobs :: "demo_world jobStoreForRunner" where
  "demo_jobs = \<lparr>JP_UpdateCursor = (\<lambda>_ _ w. w), JP_UpdateStatus = (\<lambda>_ _ w. w)\<rparr>"

definition demo_runner ::
  "ReplayPolicy option \<Rightarrow> (string \<Rightarrow> demo_world \<Rightarrow> replay_error + ReplayContext option) option \<Rightarrow> int \<Rightarrow> demo_world Runner" where
  "demo_runner policy build n = \<lparr>RN_registry = Some demo_registry, RN_checkpointStore = Some demo_checkpoints,
     RN_jobStore = Some demo_jobs, RN_nodeEventSink = Some (#), RN_recordedEffects = False, RN_compensation = None,
     RN_replayBuilder = build, RN_replayPolicy = policy, RN_stepTimeout = 0, RN_stepValidators = [], RN_maxParallelSteps = n,
     RN_run = (\<lambda>_ h. (None, h)), RN_order = (\<lambda>batch _. batch), RN_now = (\<lambda>_ _. 0), RN_uuid = (\<lambda>_. ''u''), RN_zone = 0\<rparr>"

definition demo_job :: "string \<Rightarrow> JobForRunner" where
  "demo_job cursor = \<lparr>JR_ID = ''j'', JR_AgentID = ''agent'', JR_Goal = ''goal'', JR_Cursor = cursor, JR_TenantID = []\<rparr>"

definition demo_host :: "demo_world host" where
  "demo_host = \<lparr>H_agent = \<lparr>AG_ID = ''agent'', AG_Name = ''agent'', AG_Session = None, AG_Status = StatusIdle\<rparr>, H_world = []\<rparr>"

definition demo_context :: ReplayContext where
  "demo_context = ReplayContext0\<lparr>RC_TaskGraphState := demo_text, RC_Phase := PhaseExecuting\<rparr>"

definition demo_payload :: DAGPayload where
  "demo_payload = NewAgentDAGPayload ''goal'' ''agent'' []"

lemma demo_runner_simps [simp]:
  "RN_registry (demo_runner policy build n) = Some demo_registry" "RN_checkpointStore (demo_runner policy build n) = Some demo_checkpoints"
  "RN_jobStore (demo_runner policy build n) = Some demo_jobs" "RN_nodeEventSink (demo_runner policy build n) = Some (#)"
  "RN_replayBuilder (demo_runner policy build n) = build" "RN_replayPolicy (demo_runner policy build n) = policy"
  "RN_stepValidators (demo_runner policy build n) = []" "RN_maxParallelSteps (demo_runner policy build n) = n"
  "RN_order (demo_runner policy build n) batch h = batch"
  by (simp_all add: demo_runner_def)

lemma demo_job_simps [simp]: "JR_ID (demo_job c) = ''j''" "JR_Cursor (demo_job c) = c" "JR_Goal (demo_job c) = ''goal''"
  by (simp_all add: demo_job_def)

lemma demo_host_simps [simp]:
  "H_world demo_host = []" "AG_ID (H_agent demo_host) = ''agent''" "session_id demo_host = []" "AG_Session (H_agent demo_host) = None"
  by (simp_all add: demo_host_def session_id_def)

lemma demo_context_simps [simp]:
  "RC_TaskGraphState demo_context = demo_text" "RC_Phase demo_context = PhaseExecuting" "RC_CompletedNodeIDs demo_context = []"
  "RC_CommandResults demo_context = []" "RC_WorkingMemorySnapshot demo_context = []" "RC_PayloadResults demo_context = []"
  "RC_CompletedCommandIDs demo_context = []" "\<not> hasReplayProgress (Some demo_context)"
  by (simp_all add: demo_context_def ReplayContext0_def hasReplayProgress_def)

lemma demo_text_nonempty [simp]: "demo_text \<noteq> []"
  by (simp add: demo_text_def)

lemma demo_plan: "ReplayContext_TaskGraph demo_context = Some (Some (demo_doc ''tool''))"
  by (simp add: ReplayContext_TaskGraph_def demo_unmarshal)

lemma demo_steps_simps [simp]: "length (demo_steps t) = 2" "SS_NodeID (demo_steps t ! 0) = ''a''" "SS_NodeID (demo_steps t ! 1) = ''b''"
  "SS_NodeID (demo_steps t ! Suc 0) = ''b''" "i < 2 \<Longrightarrow> SS_NodeType (demo_steps t ! i) = t" "map SS_NodeID (demo_steps t) = [''a'', ''b'']"
  by (auto simp: demo_steps_def less_2_cases_iff)

lemma demo_step_ids [simp]:
  "step_id_at ''j'' (PlanDecisionID demo_text) (demo_steps ''tool'') 0 = ''a320e8c18c4a6284''"
  "step_id_at ''j'' (PlanDecisionID demo_text) (demo_steps ''tool'') (Suc 0) = ''b16333a629638f99''"
  using demo_id_a demo_id_b by (simp_all add: step_id_at_def demo_decision)

end
