(* ===== verification/Dag_Run.thy ===== *)
theory Dag_Run
  imports Dag_Demo
begin

text \<open>
  What a run of a job does: the run loop against a plain execution of the plan, resumption from a checkpoint, and the ways in
  which the event-driven path, the replay policy and the parallel levels of the runner depart from it.
\<close>

section \<open>Plain execution of a plan\<close>

text \<open>
  The reference: the steps of a list, one after the other, with no set of completed steps.  A waiting node or an error ends
  it; when all steps are through the job is completed.
\<close>

definition exec_step ::
  "'w Runner \<Rightarrow> JobForRunner \<Rightarrow> GraphDoc \<Rightarrow> 'w NodeRunner SteppableStep list \<Rightarrow> nat \<Rightarrow> DAGPayload \<Rightarrow> 'w host
     \<Rightarrow> (run_outcome + DAGPayload) \<times> 'w host" where
  "exec_step R j gd steps i p h =
     (let gb = Graph_Marshal gd; step = steps ! i; stepID = step_id_at (JR_ID j) (PlanDecisionID gb) steps i
      in case results_text (PL_Results p) of
           None \<Rightarrow> (Inl (Returns (Some SerializeFailed)), update_status R (JR_ID j) statusFailed h)
         | Some before \<Rightarrow>
             (let h1 = emit_node R (NodeStartedCall (JR_ID j) (SS_NodeID step) 1 []) h
              in if isWaitLikeNodeType (SS_NodeType step)
                 then (case wait_node R j (GD_Graph gd) gb step p h1 of (out, h2) \<Rightarrow> (Inl out, h2))
                 else (case run_node R (JR_ID j) (step_context R j stepID None True False) step p h1 of
                     (None, h2) \<Rightarrow> (Inl Panics, h2)
                   | (Some (r, e), h2) \<Rightarrow>
                       (case signalWaitFromError e of
                          Some wait \<Rightarrow> (case signal_wait R (JR_ID j) (SS_NodeID step) gb r wait h2 of (out, h3) \<Rightarrow> (Inl out, h3))
                        | None \<Rightarrow> (case settle_run R j step stepID True gb before (RN_now R 0 (H_world h1)) r e h2 of
                              (Inl err, h3) \<Rightarrow> (Inl (Returns (Some err)), h3)
                            | (Inr p', h3) \<Rightarrow> (Inr p', h3))))))"

fun exec_steps ::
  "'w Runner \<Rightarrow> JobForRunner \<Rightarrow> GraphDoc \<Rightarrow> 'w NodeRunner SteppableStep list \<Rightarrow> nat list \<Rightarrow> DAGPayload \<Rightarrow> 'w host \<Rightarrow> run_outcome \<times> 'w host" where
  "exec_steps R j gd steps [] p h = (Returns None, writeTerminalCompleted R (JR_ID j) (JR_Goal j) h)"
| "exec_steps R j gd steps (i # is) p h =
     (case exec_step R j gd steps i p h of
        (Inl out, h1) \<Rightarrow> (out, h1) | (Inr p1, h1) \<Rightarrow> exec_steps R j gd steps is p1 h1)"

text \<open>The ids of the plan's nodes and steps are all different: the truncated hashes do not collide.\<close>

definition ids_distinct :: "string \<Rightarrow> string \<Rightarrow> 'r SteppableStep list \<Rightarrow> bool" where
  "ids_distinct jobID decisionID steps \<longleftrightarrow>
     distinct (map SS_NodeID steps @ map (step_id_at jobID decisionID steps) [0..<length steps])"

definition undone_list :: "string \<Rightarrow> string \<Rightarrow> 'r SteppableStep list \<Rightarrow> string list \<Rightarrow> nat list" where
  "undone_list jobID decisionID steps completed = filter (\<lambda>i. \<not> step_done jobID decisionID steps completed i) [0..<length steps]"

lemma ids_distinct_nodes: "ids_distinct jobID dec steps \<Longrightarrow> distinct (map SS_NodeID steps)"
  by (simp add: ids_distinct_def)

lemma node_id_eq:
  "distinct (map SS_NodeID steps) \<Longrightarrow> a < length steps \<Longrightarrow> b < length steps \<Longrightarrow> SS_NodeID (steps ! a) = SS_NodeID (steps ! b) \<longleftrightarrow> a = b"
  by (metis length_map nth_eq_iff_index_eq nth_map)

lemma done_after_step:
  assumes "ids_distinct jobID dec steps" and "i < length steps" and "k < length steps"
  shows "step_done jobID dec steps (sput (SS_NodeID (steps ! i)) (sput (step_id_at jobID dec steps i) c)) k
    \<longleftrightarrow> k = i \<or> step_done jobID dec steps c k"
proof -
  have ids: "distinct (map (step_id_at jobID dec steps) [0..<length steps])"
      "set (map SS_NodeID steps) \<inter> set (map (step_id_at jobID dec steps) [0..<length steps]) = {}"
    using assms(1) by (auto simp: ids_distinct_def)
  have "SS_NodeID (steps ! k) = SS_NodeID (steps ! i) \<longleftrightarrow> k = i"
    by (rule node_id_eq [OF ids_distinct_nodes [OF assms(1)] assms(3,2)])
  moreover have "step_id_at jobID dec steps k = step_id_at jobID dec steps i \<longleftrightarrow> k = i"
    using ids(1) assms(2,3) by (auto simp: distinct_map inj_on_def)
  moreover have "step_id_at jobID dec steps a \<noteq> SS_NodeID (steps ! b)" if "a < length steps" "b < length steps" for a b
  proof
    assume eq: "step_id_at jobID dec steps a = SS_NodeID (steps ! b)"
    have "SS_NodeID (steps ! b) \<in> set (map SS_NodeID steps)" using that by simp
    moreover have "step_id_at jobID dec steps a \<in> set (map (step_id_at jobID dec steps) [0..<length steps])" using that by simp
    ultimately show False using ids(2) eq by auto
  qed
  ultimately show ?thesis using assms(2,3) unfolding step_done_def by (metis insert_iff set_sput)
qed

lemma undone_after_step:
  assumes "ids_distinct jobID dec steps" and "undone_list jobID dec steps c = i # is"
  shows "undone_list jobID dec steps (sput (SS_NodeID (steps ! i)) (sput (step_id_at jobID dec steps i) c)) = is"
proof -
  have "i \<in> set (undone_list jobID dec steps c)" by (simp add: assms(2))
  then have i: "i < length steps" by (simp add: undone_list_def)
  have "undone_list jobID dec steps (sput (SS_NodeID (steps ! i)) (sput (step_id_at jobID dec steps i) c))
      = filter (\<lambda>k. k \<noteq> i) (undone_list jobID dec steps c)"
    unfolding undone_list_def filter_filter by (rule filter_cong) (use done_after_step [OF assms(1) i] in auto)
  moreover have "distinct (i # is)" using assms(2) unfolding undone_list_def by (metis distinct_filter distinct_upt)
  ultimately show ?thesis using assms(2) by (auto simp: filter_id_conv)
qed

lemma sequential_round_exec:
  assumes "\<not> step_done (JR_ID j) (PlanDecisionID (Graph_Marshal gd)) steps (LP_completed st) i"
  shows "sequential_round R j (GD_Graph gd) (Graph_Marshal gd) steps None i st =
    (case exec_step R j gd steps i (LP_payload st) (LP_host st) of
       (Inl out, h) \<Rightarrow> Stop out h
     | (Inr p, h) \<Rightarrow> Continue \<lparr>LP_payload = p, LP_completed = sput (SS_NodeID (steps ! i))
           (sput (step_id_at (JR_ID j) (PlanDecisionID (Graph_Marshal gd)) steps i) (LP_completed st)), LP_host = h\<rparr>)"
  using assms
  by (simp add: sequential_round_def exec_step_def loop_step_def replay_action_for_def Let_def
      split: option.split prod.split sum.split)

lemma run_loop_exec:
  assumes "ids_distinct (JR_ID j) (PlanDecisionID (Graph_Marshal gd)) steps" and "RN_maxParallelSteps R \<le> 0"
    and "undone_list (JR_ID j) (PlanDecisionID (Graph_Marshal gd)) steps (LP_completed st) = is" and "length is < n"
  shows "run_loop n R j (GD_Graph gd) (Graph_Marshal gd) steps None st = Some (exec_steps R j gd steps is (LP_payload st) (LP_host st))"
  using assms(3,4)
proof (induction "is" arbitrary: st n)
  case Nil
  then obtain m where n: "n = Suc m" by (cases n) auto
  have "nextRunnableBatch (RN_maxParallelSteps R) steps (level_groups (GD_Graph gd)) (LP_completed st) (JR_ID j)
      (PlanDecisionID (Graph_Marshal gd)) = []"
    using Nil.prems(1) assms(2) by (auto simp: nextRunnableBatch_def undone_list_def Let_def split: option.splits)
  then show ?case using n by (simp add: loop_round_def Let_def)
next
  case (Cons i "is")
  let ?dec = "PlanDecisionID (Graph_Marshal gd)"
  obtain m where n: "n = Suc m" using Cons.prems(2) by (cases n) auto
  have batch: "nextRunnableBatch (RN_maxParallelSteps R) steps (level_groups (GD_Graph gd)) (LP_completed st) (JR_ID j) ?dec = [i]"
    using Cons.prems(1) assms(2) by (auto simp: nextRunnableBatch_def undone_list_def Let_def split: option.splits)
  have "i \<in> set (undone_list (JR_ID j) ?dec steps (LP_completed st))" using Cons.prems(1) by simp
  then have undone: "\<not> step_done (JR_ID j) ?dec steps (LP_completed st) i" by (simp add: undone_list_def)
  have round: "loop_round R j (GD_Graph gd) (Graph_Marshal gd) steps None st
      = sequential_round R j (GD_Graph gd) (Graph_Marshal gd) steps None i st"
    by (simp add: loop_round_def Let_def batch)
  obtain r h where ex: "exec_step R j gd steps i (LP_payload st) (LP_host st) = (r, h)" by fastforce
  show ?case
  proof (cases r)
    case (Inl out)
    then show ?thesis by (simp add: n round sequential_round_exec [OF undone] ex)
  next
    case (Inr p)
    let ?st = "\<lparr>LP_payload = p, LP_completed = sput (SS_NodeID (steps ! i)) (sput (step_id_at (JR_ID j) ?dec steps i) (LP_completed st)),
      LP_host = h\<rparr>"
    have "run_loop m R j (GD_Graph gd) (Graph_Marshal gd) steps None ?st = Some (exec_steps R j gd steps is p h)"
      using Cons.IH [of ?st m] undone_after_step [OF assms(1) Cons.prems(1)] Cons.prems(2) n by simp
    then show ?thesis by (simp add: n round sequential_round_exec [OF undone] ex Inr)
  qed
qed

lemma length_undone_list: "length (undone_list jobID dec steps c) \<le> length steps"
  unfolding undone_list_def by (metis length_filter_le length_upt diff_zero)

lemma start_loop_exec:
  assumes "ids_distinct (JR_ID j) (PlanDecisionID (Graph_Marshal gd)) steps" and "RN_maxParallelSteps R \<le> 0" and "length steps < n"
  shows "start_loop n R j gd steps completed p h =
    Some (exec_steps R j gd steps (undone_list (JR_ID j) (PlanDecisionID (Graph_Marshal gd)) steps completed) p h)"
  unfolding start_loop_def
  by (subst run_loop_exec [OF assms(1,2) refl]) (simp_all add: le_less_trans [OF length_undone_list assms(3)])

section \<open>Entering a job\<close>

lemma compiled_plan:
  assumes "CompileSteppable registry (Some g) = Inr steps"
  shows "topological g (map SS_NodeID steps)"
  using CompileSteppable_order [OF assms] by blast

lemma takeWhile_cursor:
  assumes "distinct xs" and "i < length xs"
  shows "length (takeWhile (\<lambda>n. n \<noteq> xs ! i) xs) = i"
proof -
  have "takeWhile (\<lambda>n. n \<noteq> xs ! i) xs = take i xs"
  proof -
    have "xs ! i \<notin> set (take i xs)" using assms by (auto simp: in_set_conv_nth nth_eq_iff_index_eq)
    then have "takeWhile (\<lambda>n. n \<noteq> xs ! i) (take i xs @ xs ! i # drop (Suc i) xs) = take i xs"
      by (subst takeWhile_append2) auto
    then show ?thesis using id_take_nth_drop [OF assms(2)] by simp
  qed
  then show ?thesis using assms(2) by simp
qed

lemma checkpoint_completed_set:
  assumes "distinct (map SS_NodeID steps)" and "i < length steps"
  shows "set (checkpoint_completed jobID dec steps (SS_NodeID (steps ! i)))
    = (\<lambda>k. SS_NodeID (steps ! k)) ` {..i} \<union> step_id_at jobID dec steps ` {..i}"
proof -
  have k: "length (takeWhile (\<lambda>n. n \<noteq> SS_NodeID (steps ! i)) (map SS_NodeID steps)) = i"
    using takeWhile_cursor [of "map SS_NodeID steps" i] assms by simp
  have "take (Suc i) (map SS_NodeID steps) = map (\<lambda>k. SS_NodeID (steps ! k)) [0..<Suc i]"
    using assms(2) by (intro nth_equalityI) (auto simp del: upt_Suc)
  then have "set (take (Suc i) (map SS_NodeID steps)) = (\<lambda>k. SS_NodeID (steps ! k)) ` {..i}"
    by (simp add: atLeast0LessThan lessThan_Suc_atMost del: upt_Suc)
  then show ?thesis
    unfolding checkpoint_completed_def Let_def k
    using assms(2) by (simp add: atLeast0LessThan lessThan_Suc_atMost Un_commute del: upt_Suc)
qed

lemma checkpoint_done_upto:
  assumes "distinct (map SS_NodeID steps)" and "i < length steps" and "k \<le> i"
  shows "step_done jobID dec steps (checkpoint_completed jobID dec steps (SS_NodeID (steps ! i))) k"
  unfolding step_done_def checkpoint_completed_set [OF assms(1,2)] using assms(3) by auto

lemma filter_above: "filter (\<lambda>k. i < k) [0..<n] = [Suc i..<n]"
  by (induction n) auto

lemma checkpoint_undone:
  assumes "ids_distinct jobID dec steps" and "i < length steps"
  shows "undone_list jobID dec steps (checkpoint_completed jobID dec steps (SS_NodeID (steps ! i))) = [Suc i..<length steps]"
proof -
  note nodes = ids_distinct_nodes [OF assms(1)]
  have ids: "distinct (map (step_id_at jobID dec steps) [0..<length steps])"
      "set (map SS_NodeID steps) \<inter> set (map (step_id_at jobID dec steps) [0..<length steps]) = {}"
    using assms(1) by (auto simp: ids_distinct_def)
  have "step_done jobID dec steps (checkpoint_completed jobID dec steps (SS_NodeID (steps ! i))) k \<longleftrightarrow> k \<le> i" if "k < length steps" for k
  proof
    assume "step_done jobID dec steps (checkpoint_completed jobID dec steps (SS_NodeID (steps ! i))) k"
    then consider m where "m \<le> i" "SS_NodeID (steps ! k) = SS_NodeID (steps ! m)"
      | m where "m \<le> i" "SS_NodeID (steps ! k) = step_id_at jobID dec steps m"
      | m where "m \<le> i" "step_id_at jobID dec steps k = SS_NodeID (steps ! m)"
      | m where "m \<le> i" "step_id_at jobID dec steps k = step_id_at jobID dec steps m"
      unfolding step_done_def checkpoint_completed_set [OF nodes assms(2)] by auto
    then show "k \<le> i"
    proof cases
      case 1
      then have "k = m" using node_id_eq [OF nodes that, of m] assms(2) by simp
      then show ?thesis using 1 by simp
    next
      case 2
      have "SS_NodeID (steps ! k) \<in> set (map SS_NodeID steps)" using that by simp
      moreover have "step_id_at jobID dec steps m \<in> set (map (step_id_at jobID dec steps) [0..<length steps])" using 2(1) assms(2) by simp
      ultimately show ?thesis using ids(2) 2(2) by (metis IntI empty_iff)
    next
      case 3
      then have "SS_NodeID (steps ! m) \<in> set (map SS_NodeID steps)" using assms(2) by simp
      moreover have "step_id_at jobID dec steps k \<in> set (map (step_id_at jobID dec steps) [0..<length steps])" using that by simp
      ultimately show ?thesis using ids(2) 3(2) by (metis IntI empty_iff)
    next
      case 4
      then have "k = m" using ids(1) that assms(2) by (auto simp: distinct_map inj_on_def)
      then show ?thesis using 4 by simp
    qed
  next
    assume "k \<le> i"
    then show "step_done jobID dec steps (checkpoint_completed jobID dec steps (SS_NodeID (steps ! i))) k"
      by (rule checkpoint_done_upto [OF nodes assms(2)])
  qed
  then have "undone_list jobID dec steps (checkpoint_completed jobID dec steps (SS_NodeID (steps ! i))) = filter (\<lambda>k. i < k) [0..<length steps]"
    unfolding undone_list_def by (intro filter_cong) auto
  also have "\<dots> = [Suc i..<length steps]" by (rule filter_above)
  finally show ?thesis .
qed

lemma host_status [simp]:
  "AG_ID (H_agent (set_agent_status st h)) = AG_ID (H_agent h)" "session_id (set_agent_status st h) = session_id h"
  "H_world (set_agent_status st h) = H_world h"
  by (simp_all add: set_agent_status_def SetStatus_def session_id_def)

lemma RunForJob_checkpoint:
  assumes "RN_checkpointStore R = Some cs" and "RN_jobStore R = Some js" and "JR_Cursor j \<noteq> []"
  shows "RunForJob n R (Some j) h = map_option (\<lambda>(out, h2). (out, set_agent_status StatusIdle h2))
    (run_from_checkpoint n R j cs (set_agent_status StatusRunning h))"
  using assms by (simp add: RunForJob_def Let_def)

lemma RunForJob_events:
  assumes "RN_checkpointStore R = Some cs" and "RN_jobStore R = Some js" and "JR_Cursor j = []"
  shows "RunForJob n R (Some j) h = map_option (\<lambda>(out, h2). (out, set_agent_status StatusIdle h2))
    (run_from_events n R j (set_agent_status StatusRunning h))"
  using assms by (simp add: RunForJob_def Let_def)

text \<open>Leaving a job: the outcome, and the agent idle.\<close>

definition leave :: "run_outcome \<times> 'w host \<Rightarrow> run_outcome \<times> 'w host" where
  "leave = (\<lambda>(out, h). (out, set_agent_status StatusIdle h))"

text \<open>The job a checkpoint belongs to, loaded and compiled.\<close>

definition checkpoint_loads ::
  "'w Runner \<Rightarrow> 'w checkpointStore \<Rightarrow> JobForRunner \<Rightarrow> 'w host \<Rightarrow> Checkpoint \<Rightarrow> GraphDoc \<Rightarrow> 'w NodeRunner SteppableStep list \<Rightarrow> DAGPayload \<Rightarrow> bool" where
  "checkpoint_loads R cs j h cp gd steps p \<longleftrightarrow> RN_checkpointStore R = Some cs \<and> RN_jobStore R \<noteq> None \<and> JR_Cursor j \<noteq> []
     \<and> CS_Load cs (JR_Cursor j) (H_world h) = Inr (Some cp) \<and> Graph_Unmarshal (CP_TaskGraphState cp) = Some gd
     \<and> CompileSteppable (RN_registry R) (Some (GD_Graph gd)) = Inr steps
     \<and> load_results (CP_PayloadResults cp) (NewAgentDAGPayload (JR_Goal j) (AG_ID (H_agent h)) (session_id h)) = Some p"

text \<open>The job's plan in its events, loaded and compiled.\<close>

definition plan_loads ::
  "'w Runner \<Rightarrow> (string \<Rightarrow> 'w \<Rightarrow> replay_error + ReplayContext option) \<Rightarrow> JobForRunner \<Rightarrow> 'w host \<Rightarrow> ReplayContext \<Rightarrow> GraphDoc
     \<Rightarrow> 'w NodeRunner SteppableStep list \<Rightarrow> bool" where
  "plan_loads R build j h rc gd steps \<longleftrightarrow> RN_checkpointStore R \<noteq> None \<and> RN_jobStore R \<noteq> None \<and> JR_Cursor j = []
     \<and> RN_replayBuilder R = Some build \<and> build (JR_ID j) (H_world h) = Inr (Some rc) \<and> RC_Phase rc \<noteq> PhaseWaiting
     \<and> ReplayContext_TaskGraph rc = Some (Some gd) \<and> CompileSteppable (RN_registry R) (Some (GD_Graph gd)) = Inr steps"

lemma run_from_checkpoint_plain:
  assumes "checkpoint_loads R cs j h cp gd steps p" and "RN_replayBuilder R = None"
  shows "RunForJob n R (Some j) h = map_option leave
    (start_loop n R j gd steps (checkpoint_completed (JR_ID j) (PlanDecisionID (CP_TaskGraphState cp)) steps (CP_CursorNode cp)) p
      (set_agent_status StatusRunning h))"
  using assms by (auto simp: checkpoint_loads_def RunForJob_checkpoint run_from_checkpoint_def Let_def leave_def)

lemma run_from_plan:
  assumes "plan_loads R build j h rc gd steps" and "RC_WorkingMemorySnapshot rc = []" and "\<not> hasReplayProgress (Some rc)"
    and "load_results (RC_PayloadResults rc) (NewAgentDAGPayload (JR_Goal j) (AG_ID (H_agent h)) (session_id h)) = Some p"
  shows "RunForJob n R (Some j) h = map_option leave
    (start_loop n R j gd steps (RC_CompletedNodeIDs rc) p (set_agent_status StatusRunning h))"
  using assms
  by (auto simp: plan_loads_def RunForJob_def run_from_events_def run_recovered_def apply_memory_def Let_def leave_def)

section \<open>Properties of the run loop\<close>

text \<open>
  C5. The scheduler of a plan is safe and complete: every step of the next batch exists, has not been done and has all the
  sources of its edges done, and the batch is empty exactly when every step is done.
\<close>

theorem batch_respects_dependencies:
  fixes registry :: "('r, 'e) NodeAdapterRegistry option"
  assumes "CompileSteppable registry (Some g) = Inr steps"
  shows "(\<forall>i\<in>set (nextRunnableBatch maxParallel steps (level_groups g) completed jobID decisionID).
      i < length steps \<and> \<not> step_done jobID decisionID steps completed i \<and> preds_done g jobID decisionID steps completed i)
    \<and> (nextRunnableBatch maxParallel steps (level_groups g) completed jobID decisionID = []
       \<longleftrightarrow> (\<forall>i<length steps. step_done jobID decisionID steps completed i))"
  using batch_spec [OF compiled_plan [OF assms]] batch_empty [OF compiled_plan [OF assms]] by blast

text \<open>
  C4. The run loop ends after at most one round per step and one more, whatever the nodes do and in whatever order the
  goroutines of a level come in.
\<close>

theorem run_loop_terminates:
  assumes "CompileSteppable (RN_registry R) (Some (GD_Graph gd)) = Inr steps" and "order_ok R"
  shows "start_loop (Suc (length steps)) R j gd steps completed p h \<noteq> None"
proof -
  have "card (undone (JR_ID j) (PlanDecisionID (Graph_Marshal gd)) steps completed) \<le> card {..<length steps}"
    by (intro card_mono) (auto simp: undone_def)
  then show ?thesis
    unfolding start_loop_def by (intro run_loop_bound [OF compiled_plan [OF assms(1)] assms(2)]) simp
qed

text \<open>
  C2. A job whose events hold nothing but its plan runs, without parallel steps, exactly the plan: each step once, in
  topological order, the payload passed from step to step, until a node waits, a step fails or all are through, unless
  the truncated hashes of the step identities collide.
\<close>

theorem fresh_job_runs_plan:
  assumes "plan_loads R build j h rc gd steps" and "RC_WorkingMemorySnapshot rc = []" and "\<not> hasReplayProgress (Some rc)"
    and "load_results (RC_PayloadResults rc) (NewAgentDAGPayload (JR_Goal j) (AG_ID (H_agent h)) (session_id h)) = Some p"
    and "RN_maxParallelSteps R \<le> 0" and "ids_distinct (JR_ID j) (PlanDecisionID (Graph_Marshal gd)) steps"
  shows "RunForJob (Suc (length steps)) R (Some j) h
    = Some (leave (exec_steps R j gd steps [0..<length steps] p (set_agent_status StatusRunning h)))"
proof -
  have "RC_CompletedNodeIDs rc = []" using assms(3) by (simp add: hasReplayProgress_def)
  then have "undone_list (JR_ID j) (PlanDecisionID (Graph_Marshal gd)) steps (RC_CompletedNodeIDs rc) = [0..<length steps]"
    by (simp add: undone_list_def step_done_def)
  then show ?thesis by (simp add: run_from_plan [OF assms(1-4)] start_loop_exec [OF assms(6,5)])
qed

text \<open>
  C3. A job resumed from the stored checkpoint of a step, without a replay builder and with a plan that is read and compiled, runs exactly
  the steps after it, in order, on the results of the checkpoint, until a node waits, a step fails or all are through. This is for a
  runner without parallel levels (its limit is at most 0), for a stored plan whose bytes are those that marshalling its graph gives, and
  unless the truncated hashes of the step identities collide with each other or with node ids.
\<close>

theorem checkpoint_resume_runs_rest:
  assumes "checkpoint_loads R cs j h cp gd steps p" and "RN_replayBuilder R = None" and "RN_maxParallelSteps R \<le> 0"
    and "Graph_Marshal gd = CP_TaskGraphState cp" and "i < length steps" and "CP_CursorNode cp = SS_NodeID (steps ! i)"
    and "ids_distinct (JR_ID j) (PlanDecisionID (CP_TaskGraphState cp)) steps"
  shows "RunForJob (Suc (length steps)) R (Some j) h
    = Some (leave (exec_steps R j gd steps [Suc i..<length steps] p (set_agent_status StatusRunning h)))"
  using checkpoint_undone [OF assms(7,5)]
  by (simp add: run_from_checkpoint_plain [OF assms(1,2)] assms(6) start_loop_exec [OF assms(7) [folded assms(4)] assms(3)]
      assms(4))

section \<open>Closed examples\<close>

lemma demo_ids_distinct: "ids_distinct ''j'' (PlanDecisionID demo_text) (demo_steps ''tool'')"
proof -
  have two: "[0..<length (demo_steps ''tool'')] = [0, Suc 0]" by (simp add: upt_rec)
  show ?thesis unfolding ids_distinct_def two by simp
qed

lemma demo_plan_loads:
  "plan_loads (demo_runner policy (Some (\<lambda>_ _. Inr (Some demo_context))) n) (\<lambda>_ _. Inr (Some demo_context)) (demo_job []) demo_host
     demo_context (demo_doc ''tool'') (demo_steps ''tool'')"
  by (simp add: plan_loads_def demo_plan demo_compile)

lemma demo_checkpoint_simps [simp]:
  "CP_TaskGraphState demo_checkpoint = demo_text" "CP_CursorNode demo_checkpoint = ''a''" "CP_PayloadResults demo_checkpoint = []"
  by (simp_all add: demo_checkpoint_def NewNodeCheckpoint_def)

lemma demo_checkpoint_loads:
  "checkpoint_loads (demo_runner policy build n) demo_checkpoints (demo_job ''cp'') demo_host demo_checkpoint (demo_doc ''tool'')
     (demo_steps ''tool'') demo_payload"
  by (simp add: checkpoint_loads_def demo_unmarshal demo_compile load_results_def demo_payload_def demo_checkpoints_def)

theorem batch_respects_dependencies_witness:
  "nextRunnableBatch 2 (demo_steps ''tool'') (level_groups (GD_Graph (demo_doc ''tool''))) [''a'', ''b''] ''j'' ''d'' = []"
  using batch_respects_dependencies [OF demo_compile(1)] by (simp add: step_done_def less_2_cases_iff)

theorem run_loop_terminates_witness:
  "start_loop 3 (demo_runner None None 4) (demo_job []) (demo_doc ''tool'') (demo_steps ''tool'') [] demo_payload demo_host \<noteq> None"
proof -
  have "order_ok (demo_runner None None 4)" by (simp add: order_ok_def)
  then show ?thesis
    using run_loop_terminates [of "demo_runner None None 4" "demo_doc ''tool''" "demo_steps ''tool''" "demo_job []" "[]" demo_payload demo_host]
    by (simp add: demo_compile numeral_3_eq_3)
qed

theorem fresh_job_runs_plan_witness:
  "RunForJob 3 (demo_runner None (Some (\<lambda>_ _. Inr (Some demo_context))) 0) (Some (demo_job [])) demo_host
    = Some (leave (exec_steps (demo_runner None (Some (\<lambda>_ _. Inr (Some demo_context))) 0) (demo_job []) (demo_doc ''tool'') (demo_steps ''tool'')
        [0, 1] demo_payload (set_agent_status StatusRunning demo_host)))"
  using fresh_job_runs_plan [OF demo_plan_loads [of None 0], of demo_payload] demo_ids_distinct
  by (simp add: load_results_def demo_payload_def demo_marshal numeral_3_eq_3 upt_rec)

theorem checkpoint_resume_runs_rest_witness:
  "RunForJob 3 (demo_runner None None 0) (Some (demo_job ''cp'')) demo_host
    = Some (leave (exec_steps (demo_runner None None 0) (demo_job ''cp'') (demo_doc ''tool'') (demo_steps ''tool'')
        [1] demo_payload (set_agent_status StatusRunning demo_host)))"
  using checkpoint_resume_runs_rest [OF demo_checkpoint_loads [of None None 0], of 0] demo_ids_distinct
  by (simp add: demo_marshal numeral_3_eq_3 upt_rec)

end
