(* ===== verification/Dag_Replay.thy ===== *)
theory Dag_Replay
  imports Dag_Run "HOL-Library.Multiset"
begin

text \<open>
  Where the ways into a job part company: the replay policy the applications install, the checkpoints of parallel levels, nodes that
  wait, tools that ask for approval, and the event-driven loop when the event store refuses or fails.
\<close>

section \<open>Tool nodes as runners\<close>

text \<open>\<open>ToNodeRunner\<close> of the tool adapter: every error comes with a nil payload.\<close>

definition node_context :: "step_ctx \<Rightarrow> node_ctx" where
  "node_context c = \<lparr>nc_jobID = SX_JobID c, nc_stepID = SX_StepID c, nc_pending = SX_Pending c,
     nc_completed = map_option map_of (SX_Completed c),
     nc_changes = (case SX_Changes c of None \<Rightarrow> Map.empty | Some m \<Rightarrow> map_of m),
     nc_approved = (case SX_Approved c of None \<Rightarrow> [] | Some ks \<Rightarrow> ks)\<rparr>"

definition node_goerr :: "string \<Rightarrow> node_error \<Rightarrow> goerr" where
  "node_goerr taskID e = (case e of
       StepFailure t s \<Rightarrow> StepFailed t (Some (TextError s)) taskID
     | CapabilityRequiresApproval k \<Rightarrow> ApprovalRequired k
     | ToolError te \<Rightarrow> if te_retryable te then Wrapped (te_text te) ErrRetryable else TextError (te_text te)
     | LedgerError s \<Rightarrow> TextError s
     | SinkError \<Rightarrow> TextError [])"

definition tool_runner ::
  "'s ToolNodeAdapter \<Rightarrow> ('w \<Rightarrow> node_env) \<Rightarrow> string \<Rightarrow> string \<Rightarrow> (string \<times> json) list \<Rightarrow> ('w \<Rightarrow> 's node_state) \<Rightarrow> ('s node_state \<Rightarrow> 'w \<Rightarrow> 'w)
     \<Rightarrow> 'w NodeRunner" where
  "tool_runner ad env taskID toolName cfg view upd ctx p h =
     (let st = (view (H_world h))\<lparr>nd_results := map_of (results_of p)\<rparr>
      in case runNode ad (env (H_world h)) (node_context ctx) taskID toolName cfg st of
           (err, st') \<Rightarrow>
             (let p' = (case nd_results st' taskID of None \<Rightarrow> p | Some v \<Rightarrow> put_node_result taskID v p)
              in (NodeReturns p' (if err = None then Some p' else None) (map_option (node_goerr taskID) err),
                  h\<lparr>H_world := upd st' (H_world h)\<rparr>)))"

text \<open>The runner of \<open>WaitNodeAdapter\<close>, \<open>ApprovalNodeAdapter\<close> and \<open>ConditionNodeAdapter\<close>: the payload as it is.\<close>

definition pass_runner :: "'w NodeRunner" where
  "pass_runner ctx p h = (NodeReturns p (Some p) None, h)"

section \<open>One event-driven step\<close>

lemma Graph_Unmarshal_Nil [simp]: "Graph_Unmarshal [] = None"
  by (simp add: Graph_Unmarshal_def decode_object_def json_text_def)

text \<open>A context with a plan that compiles and results that decode.\<close>

definition context_loads ::
  "'w Runner \<Rightarrow> JobForRunner \<Rightarrow> 'w host \<Rightarrow> ReplayContext \<Rightarrow> GraphDoc \<Rightarrow> 'w NodeRunner SteppableStep list \<Rightarrow> DAGPayload \<Rightarrow> bool" where
  "context_loads R j h rc gd steps p \<longleftrightarrow> ReplayContext_TaskGraph rc = Some (Some gd)
     \<and> CompileSteppable (RN_registry R) (Some (GD_Graph gd)) = Inr steps
     \<and> load_results (RC_PayloadResults rc) (NewAgentDAGPayload (JR_Goal j) (AG_ID (H_agent h)) (session_id h)) = Some p"

abbreviation (input) left_to_do :: "JobForRunner \<Rightarrow> GraphDoc \<Rightarrow> 'r SteppableStep list \<Rightarrow> string list \<Rightarrow> nat list" where
  "left_to_do j gd steps completed \<equiv> undone_list (JR_ID j) (PlanDecisionID (Graph_Marshal gd)) steps completed"

abbreviation (input) own_id :: "JobForRunner \<Rightarrow> GraphDoc \<Rightarrow> 'r SteppableStep list \<Rightarrow> nat \<Rightarrow> string" where
  "own_id j gd steps i \<equiv> step_id_at (JR_ID j) (PlanDecisionID (Graph_Marshal gd)) steps i"

lemma Advance_loaded:
  assumes "context_loads R j h rc gd steps p" and "left_to_do j gd steps (RC_CompletedNodeIDs rc) = i # rest"
  shows "Advance R j (Some rc) h = (case replay_action_for R (Some rc) (steps ! i) of
       InjectRecorded result \<Rightarrow>
         (case inject_recorded R j (steps ! i) (own_id j gd steps i) (Graph_Marshal gd) (RC_CompletedNodeIDs rc) result p h of
            (Inl e, h1) \<Rightarrow> (AdvStops (Returns (Some e)), h1) | (Inr _, h1) \<Rightarrow> (AdvMore, h1))
     | Refuse \<Rightarrow> (AdvStops (Returns (Some (ReplayForbidden (SS_NodeID (steps ! i))))), update_status R (JR_ID j) statusFailed h)
     | RunNow \<Rightarrow> advance_run R j rc (Graph_Marshal gd) (steps ! i) (own_id j gd steps i) p h)"
  using assms by (simp add: context_loads_def Advance_def advance_steps_def undone_list_def Let_def)

lemma default_policy_refuses:
  assumes "RN_replayPolicy R = Some DefaultPolicy" and "map_of (RC_CommandResults rc) (SS_NodeID step) \<in> {None, Some []}"
  shows "replay_action_for R (Some rc) step = Refuse"
  using assms by (auto simp: replay_action_for_def DefaultPolicy_def)

text \<open>What the events add to the steps of a checkpoint.\<close>

definition resumed_steps ::
  "(string \<Rightarrow> 'w \<Rightarrow> replay_error + ReplayContext option) \<Rightarrow> JobForRunner \<Rightarrow> Checkpoint \<Rightarrow> 'r SteppableStep list \<Rightarrow> 'w host \<Rightarrow> string list" where
  "resumed_steps build j cp steps h =
     (let c = checkpoint_completed (JR_ID j) (PlanDecisionID (CP_TaskGraphState cp)) steps (CP_CursorNode cp)
      in case build (JR_ID j) (H_world h) of Inr (Some fresh) \<Rightarrow> fold sput (RC_CompletedNodeIDs fresh) c | _ \<Rightarrow> c)"

lemma run_from_checkpoint_events:
  assumes "checkpoint_loads R cs j h cp gd steps p" and "RN_replayBuilder R = Some build"
    and "build (JR_ID j) (H_world h) \<noteq> Inl NilMapPanic"
  shows "RunForJob n R (Some j) h = map_option leave
    (case advance_loop n False R j build (checkpoint_context cp (resumed_steps build j cp steps h)) (set_agent_status StatusRunning h) of
       None \<Rightarrow> None
     | Some (AdvExit out, h1) \<Rightarrow> Some (out, h1)
     | Some (AdvBreak, h1) \<Rightarrow> start_loop n R j gd steps (resumed_steps build j cp steps h) p h1)"
  using assms unfolding resumed_steps_def Let_def
  by (auto simp: checkpoint_loads_def RunForJob_checkpoint run_from_checkpoint_def Let_def leave_def
      split: sum.split option.split replay_error.split)

lemma checkpoint_context_loads:
  assumes "checkpoint_loads R cs j h cp gd steps p"
  shows "context_loads R j (set_agent_status StatusRunning h) (checkpoint_context cp c) gd steps p"
  using assms Graph_Unmarshal_Nil
  by (auto simp: checkpoint_loads_def context_loads_def checkpoint_context_def ReplayContext_TaskGraph_def)

text \<open>
  C16. Under the default replay policy, which the applications install, no job is resumed from a checkpoint: when a step is
  left to do, the job fails with the error that replay may not run it, without having run anything.
\<close>

theorem default_policy_blocks_resume:
  assumes "checkpoint_loads R cs j h cp gd steps p" and "RN_jobStore R = Some js"
    and "RN_replayBuilder R = Some build" and "build (JR_ID j) (H_world h) \<noteq> Inl NilMapPanic"
    and "RN_replayPolicy R = Some DefaultPolicy"
    and "left_to_do j gd steps (resumed_steps build j cp steps h) = i # rest"
  shows "\<exists>h'. RunForJob (Suc n) R (Some j) h = Some (Returns (Some (ReplayForbidden (SS_NodeID (steps ! i)))), h')
    \<and> H_world h' = JP_UpdateStatus js (JR_ID j) statusFailed (H_world h)"
proof -
  let ?h = "set_agent_status StatusRunning h"
  let ?rc = "checkpoint_context cp (resumed_steps build j cp steps h)"
  have rc: "RC_CompletedNodeIDs ?rc = resumed_steps build j cp steps h" "RC_CommandResults ?rc = []"
    by (simp_all add: checkpoint_context_def ReplayContext0_def)
  have "replay_action_for R (Some ?rc) (steps ! i) = Refuse"
    by (rule default_policy_refuses [OF assms(5)]) (simp add: rc)
  then have "Advance R j (Some ?rc) ?h
      = (AdvStops (Returns (Some (ReplayForbidden (SS_NodeID (steps ! i))))), update_status R (JR_ID j) statusFailed ?h)"
    using Advance_loaded [OF checkpoint_context_loads [OF assms(1)], of _ i rest] assms(6) by (simp add: rc(1))
  then show ?thesis
    using run_from_checkpoint_events [OF assms(1,3,4), of "Suc n"] assms(2)
    by (simp add: leave_def update_status_def set_agent_status_def)
qed

section \<open>Nodes that wait\<close>

lemma emit_node_agent [simp]: "H_agent (emit_node R ev h) = H_agent h"
  by (simp add: emit_node_def split: option.split)

lemma results_of_text: "results_text (PL_Results p) \<noteq> None \<Longrightarrow> results_text (Some (results_of p)) \<noteq> None"
  by (cases "PL_Results p") (auto simp: results_of_def results_text_def marshal_map_def go_marshal_def)

definition saves_succeed :: "'w Runner \<Rightarrow> bool" where
  "saves_succeed R \<longleftrightarrow> (\<exists>cs. RN_checkpointStore R = Some cs \<and> (\<forall>cp w. \<exists>i w'. CS_Save cs cp w = (Inr i, w')))"

lemma save_checkpoint_ok:
  assumes "saves_succeed R"
  obtains h' where "save_checkpoint R jobID nodeID gb b h = (None, h')"
proof -
  obtain cs where cs: "RN_checkpointStore R = Some cs" "\<And>cp w. \<exists>i w'. CS_Save cs cp w = (Inr i, w')"
    using assms unfolding saves_succeed_def by blast
  obtain i w' where "CS_Save cs (NewNodeCheckpoint (RN_now R 1 (H_world h)) (AG_ID (H_agent h)) (session_id h) jobID nodeID gb b [])
      (H_world h) = (Inr i, w')" using cs(2) by blast
  then show ?thesis using that cs(1) by (simp add: save_checkpoint_def Let_def)
qed

lemma settle_success:
  assumes "saves_succeed R" and "results_text (PL_Results p) \<noteq> None"
  shows "\<exists>p' h'. settle_run R j step stepID snapshot gb before started (Some p) None h = (Inr p', h')"
proof -
  obtain b where b: "results_text (Some (results_of p)) = Some b" using results_of_text [OF assms(2)] by auto
  have ok: "\<not> isStepFailure (commit_type t)" for t by (simp add: commit_type_def isStepFailure_def)
  define h2 where "h2 = commit_step R j step stepID snapshot ((RN_now R 4 (H_world h) - started) div 1000000) before b (results_of p)
    (emit_node R (NodeFinishedCall (JR_ID j) (SS_NodeID step) b ((RN_now R 4 (H_world h) - started) div 1000000)
       (state_str (commit_type (SS_NodeType step))) 1 (commit_type (SS_NodeType step)) [] stepID []) h)"
  obtain h' where "save_checkpoint R (JR_ID j) (SS_NodeID step) gb b h2 = (None, h')" by (rule save_checkpoint_ok [OF assms(1)])
  then have "settle_run R j step stepID snapshot gb before started (Some p) None h
      = (Inr (p\<lparr>PL_Results := Some (results_of p)\<rparr>), h')"
    using b ok by (simp add: settle_run_def run_result_def classify_run_def ClassifyError_def payload_or_empty_def Let_def
        h2_def results_of_def)
  then show ?thesis by blast
qed

text \<open>
  The event-driven loop does not wait: an approval, wait or condition node that the run loop stops at with
  \<open>job_waiting\<close> is run by \<open>Advance\<close> as an ordinary step, recorded as finished, and the job goes on behind it.
\<close>

theorem advance_passes_wait_nodes:
  assumes "context_loads R j h rc gd steps p" and "left_to_do j gd steps (RC_CompletedNodeIDs rc) = i # rest"
    and "isWaitLikeNodeType (SS_NodeType (steps ! i))" and "SS_Run (steps ! i) = pass_runner"
    and "RN_replayPolicy R = None" and "SS_NodeID (steps ! i) \<notin> set (RC_CompletedCommandIDs rc)"
    and "RN_stepValidators R = []" and "saves_succeed R" and "results_text (PL_Results p) \<noteq> None"
    and "AG_Session (H_agent h) = None"
  shows "fst (Advance R j (Some rc) h) = AdvMore \<and> fst (exec_step R j gd steps i p h) = Inl (Returns (Some JobWaitingErr))"
proof
  obtain b where b: "results_text (PL_Results p) = Some b" using assms(9) by auto
  have act: "replay_action_for R (Some rc) (steps ! i) = RunNow" using assms(5,6) by (simp add: replay_action_for_def)
  have run: "run_node R k ctx (steps ! i) p h' = (Some (Some p, None), h')" for k ctx h'
    by (simp add: run_node_def assms(4,7) pass_runner_def)
  show "fst (Advance R j (Some rc) h) = AdvMore"
  proof -
    let ?h = "emit_node R (NodeStartedCall (JR_ID j) (SS_NodeID (steps ! i)) 1 []) h"
    obtain p' h' where "settle_run R j (steps ! i) (own_id j gd steps i) False (Graph_Marshal gd) b (RN_now R 0 (H_world ?h)) (Some p) None ?h
        = (Inr p', h')" using settle_success [OF assms(8,9)] by blast
    then show ?thesis
      by (simp add: Advance_loaded [OF assms(1,2)] act advance_run_def b run Let_def signalWaitFromError_def)
  qed
  show "fst (exec_step R j gd steps i p h) = Inl (Returns (Some JobWaitingErr))"
    using assms(3,10) b by (auto simp: exec_step_def wait_node_def memory_snapshot_def Let_def split: option.split prod.split)
qed

section \<open>Tools that ask for approval\<close>

text \<open>
  A tool that asks for approval takes the process down: its node returns the request with a nil payload, and the run
  loop and \<open>Advance\<close> dereference that payload to write \<open>job_waiting\<close>.  Neither of them passes approved keys to a step.
\<close>

theorem approval_request_panics:
  assumes "RN_nodeEventSink R = Some f" and "RN_stepValidators R = []"
    and "SS_Run (steps ! i) = tool_runner ad env taskID toolName cfg view upd" and "\<not> isWaitLikeNodeType (SS_NodeType (steps ! i))"
    and "h1 = emit_node R (NodeStartedCall (JR_ID j) (SS_NodeID (steps ! i)) 1 []) h"
    and "c = node_context (step_context R j (own_id j gd steps i) None True False)"
    and "fst (runNode ad (env (H_world h1)) c taskID toolName cfg ((view (H_world h1))\<lparr>nd_results := map_of (results_of p)\<rparr>))
      = Some (CapabilityRequiresApproval (x # key))"
    and "results_text (PL_Results p) \<noteq> None"
  shows "fst (exec_step R j gd steps i p h) = Inl Panics \<and> nc_approved c = []"
proof
  obtain b where b: "results_text (PL_Results p) = Some b" using assms(8) by auto
  let ?ctx = "step_context R j (own_id j gd steps i) None True False"
  have "\<exists>q h2. tool_runner ad env taskID toolName cfg view upd ?ctx p h1 = (NodeReturns q None (Some (ApprovalRequired (x # key))), h2)"
    using assms(7) unfolding assms(6) tool_runner_def Let_def by (auto simp: node_goerr_def split: prod.splits)
  then obtain q h2 where run: "tool_runner ad env taskID toolName cfg view upd ?ctx p h1
      = (NodeReturns q None (Some (ApprovalRequired (x # key))), h2)" by blast
  have wait: "signalWaitFromError (Some (ApprovalRequired (x # key))) = Some (x # key, ''capability_approval'')"
    by (simp add: signalWaitFromError_def as_error_def List.map_filter_def)
  show "fst (exec_step R j gd steps i p h) = Inl Panics"
    using assms(1,2,3,4) b run wait
    by (simp add: exec_step_def Let_def run_node_def signal_wait_def assms(5) [symmetric])
  show "nc_approved c = []" by (simp add: assms(6) node_context_def step_context_def)
qed

section \<open>When the event store fails\<close>

lemma advance_loop_more:
  assumes "Advance R j (Some rc) h = (AdvMore, h1)" and "build (JR_ID j) (H_world h1) = Inr (Some rc')"
    and "RC_Phase rc' \<noteq> PhaseWaiting"
  shows "advance_loop (Suc n) fe R j build rc h = advance_loop n fe R j build rc' (if fe then apply_memory rc' h1 else h1)"
  using assms by simp

text \<open>
  When the events cannot be read after a step of a job without a cursor, the run dereferences the context it has
  just lost and panics.
\<close>

theorem lost_context_panics:
  assumes "plan_loads R build j h rc gd steps" and "hasReplayProgress (Some rc)" and "RC_WorkingMemorySnapshot rc = []"
    and "Advance R j (Some rc) (set_agent_status StatusRunning h) = (AdvMore, h1)"
    and "build (JR_ID j) (H_world h1) = Inl (ListFailed e)"
  shows "RunForJob (Suc n) R (Some j) h = Some (Panics, set_agent_status StatusIdle h1)"
  using assms
  by (auto simp: plan_loads_def RunForJob_def run_from_events_def run_recovered_def apply_memory_def Let_def)

lemma inject_success:
  assumes "saves_succeed R" and "json_parse b \<noteq> None" and "b \<noteq> []"
    and "results_text (PL_Results (put_node_result (SS_NodeID step) (any_value (the (json_parse b))) p)) \<noteq> None"
  shows "\<exists>p' h'. inject_recorded R j step stepID gb completed b p h = (Inr p', h')"
proof -
  obtain v where v: "json_parse b = Some v" using assms(2) by auto
  obtain t where t: "results_text (PL_Results (put_node_result (SS_NodeID step) (any_value v) p)) = Some t" using assms(4) v by auto
  let ?h = "if stepID \<in> set completed then h
    else emit_node R (StepCommittedCall (JR_ID j) (SS_NodeID step) stepID (SS_NodeID step) [])
      (emit_node R (NodeFinishedCall (JR_ID j) (SS_NodeID step) t 0 [] 0 (commit_type (SS_NodeType step)) [] stepID []) h)"
  obtain h' where "save_checkpoint R (JR_ID j) (SS_NodeID step) gb t ?h = (None, h')" by (rule save_checkpoint_ok [OF assms(1)])
  then show ?thesis using assms(3) by (simp add: inject_recorded_def Let_def v t)
qed

text \<open>
  A worker whose appends are refused, as after losing its lease, never stops: with a recorded result to inject, the
  event-driven loop ignores the refusals, reads the same events again and injects the same result, for ever, saving a
  checkpoint each time.
\<close>

theorem refused_appends_loop_forever:
  assumes "\<And>w. build (JR_ID j) w = Inr (Some rc)" and "RC_Phase rc \<noteq> PhaseWaiting" and "RC_WorkingMemorySnapshot rc = []"
    and "\<And>h. \<exists>p. context_loads R j h rc gd steps p"
    and "left_to_do j gd steps (RC_CompletedNodeIDs rc) = i # rest"
    and "RN_replayPolicy R = Some DefaultPolicy" and "map_of (RC_CommandResults rc) (SS_NodeID (steps ! i)) = Some b"
    and "b \<noteq> []" and "json_parse b = Some v" and "saves_succeed R"
    and "\<And>h p. context_loads R j h rc gd steps p \<Longrightarrow>
      results_text (PL_Results (put_node_result (SS_NodeID (steps ! i)) (any_value v) p)) \<noteq> None"
  shows "advance_loop n fe R j build rc h = None"
proof (induction n arbitrary: h)
  case (Suc n)
  obtain p where p: "context_loads R j h rc gd steps p" using assms(4) by blast
  have act: "replay_action_for R (Some rc) (steps ! i) = InjectRecorded b"
    using assms(6-8) by (cases b) (auto simp: replay_action_for_def DefaultPolicy_def)
  have res: "results_text (PL_Results (put_node_result (SS_NodeID (steps ! i)) (any_value (the (json_parse b))) p)) \<noteq> None"
    using assms(11) [OF p] by (simp add: assms(9))
  obtain p' h' where "inject_recorded R j (steps ! i) (own_id j gd steps i) (Graph_Marshal gd) (RC_CompletedNodeIDs rc) b p h = (Inr p', h')"
    using inject_success [OF assms(10) _ assms(8) res] assms(9) by blast
  then have "Advance R j (Some rc) h = (AdvMore, h')" by (simp add: Advance_loaded [OF p assms(5)] act)
  then show ?case using Suc.IH assms(1-3) by (cases fe) (simp_all add: apply_memory_def)
qed simp

section \<open>Parallel levels\<close>

lemma fold_max_ge: "(x :: nat) \<in> set (a # xs) \<Longrightarrow> x \<le> fold max xs a"
  by (metis Max.set_eq_fold Max_ge List.finite_set)

lemma fold_max_in: "fold max xs (a :: nat) \<in> set (a # xs)"
  by (metis Max.set_eq_fold Max_in List.finite_set list.distinct(1) set_empty)

text \<open>
  The checkpoint of a parallel level stands for steps that have not run: its cursor is the step of the level with the
  highest index, and resuming from it takes every step of a lower index for done, so that one that belongs to a later
  level is never scheduled again.
\<close>

theorem parallel_checkpoint_skips_steps:
  fixes registry :: "('r, 'e) NodeAdapterRegistry option"
  assumes "CompileSteppable registry (Some g) = Inr steps"
    and "batch = nextRunnableBatch maxParallel steps (level_groups g) completed jobID dec"
    and "i \<in> set batch" and "k < i"
    and "c = checkpoint_completed jobID dec steps (SS_NodeID (steps ! fold max (tl batch) (hd batch)))" and "set c \<subseteq> set c'"
  shows "step_done jobID dec steps c' k \<and> k \<notin> set (nextRunnableBatch maxParallel steps (level_groups g) c' jobID dec)"
proof -
  note top = compiled_plan [OF assms(1)]
  let ?m = "fold max (tl batch) (hd batch)"
  have "batch \<noteq> []" using assms(3) by auto
  then have mem: "?m \<in> set batch" and ge: "i \<le> ?m"
    using fold_max_in [of "tl batch" "hd batch"] fold_max_ge [of i "hd batch" "tl batch"] assms(3) by simp_all
  have len: "?m < length steps" using batch_spec [OF top, of ?m] mem unfolding assms(2) by blast
  have "step_done jobID dec steps c k"
    unfolding assms(5) by (rule checkpoint_done_upto [OF plan_nodes(1) [OF top] len]) (use assms(4) ge in simp)
  then have "step_done jobID dec steps c' k" using step_done_mono [OF assms(6)] by blast
  then show ?thesis using batch_spec [OF top, of k] by blast
qed

section \<open>The order of a level\<close>

text \<open>A node whose outcome does not depend on the world and that leaves it alone.\<close>

definition quiet_run :: "'w Runner \<Rightarrow> JobForRunner \<Rightarrow> ReplayContext option \<Rightarrow> string \<Rightarrow> 'w NodeRunner SteppableStep list \<Rightarrow> DAGPayload \<Rightarrow> nat \<Rightarrow> bool" where
  "quiet_run R j rc dec steps p i \<longleftrightarrow> (\<forall>h h'. snd (run_goroutine R j rc dec steps p i h) = h
     \<and> fst (run_goroutine R j rc dec steps p i h) = fst (run_goroutine R j rc dec steps p i h'))"

lemma run_goroutines_quiet:
  assumes "\<forall>i\<in>set is. quiet_run R j rc dec steps p i"
  shows "run_goroutines R j rc dec steps p is h = (map (\<lambda>i. fst (run_goroutine R j rc dec steps p i h0)) is, h)"
  using assms
proof (induction "is" arbitrary: h)
  case (Cons i "is")
  have "run_goroutine R j rc dec steps p i h = (fst (run_goroutine R j rc dec steps p i h0), h)"
    using Cons.prems by (metis list.set_intros(1) prod.collapse quiet_run_def)
  then show ?case using Cons by simp
qed simp

lemma result_for_perm:
  assumes "mset results = mset results'" and "distinct (map (\<lambda>(i, _, _). SS_NodeID (steps ! i)) results)"
  shows "result_for steps results n = result_for steps results' n"
proof -
  let ?P = "\<lambda>(i, _, _). SS_NodeID (steps ! i) = n"
  have same: "mset (filter ?P results) = mset (filter ?P results')" using assms(1) by (metis mset_filter)
  have "length (filter ?P results) \<le> 1"
  proof (rule ccontr)
    assume "\<not> length (filter ?P results) \<le> 1"
    then obtain a b rest where f: "filter ?P results = a # b # rest"
      by (cases "filter ?P results"; cases "tl (filter ?P results)") auto
    have "distinct (map (\<lambda>(i, _, _). SS_NodeID (steps ! i)) (filter ?P results))" using assms(2) by (rule distinct_map_filter)
    moreover have "a \<in> set (filter ?P results)" "b \<in> set (filter ?P results)" using f by simp_all
    then have "?P a" "?P b" by (simp_all only: set_filter mem_Collect_eq)
    ultimately show False using f by (auto split: prod.splits)
  qed
  then have "filter ?P results = filter ?P results'"
  proof (cases "filter ?P results")
    case Nil
    then have "mset (filter ?P results') = {#}" using same by simp
    then show ?thesis using Nil by (simp only: mset_zero_iff)
  next
    case (Cons a rest)
    then have a: "filter ?P results = [a]" using \<open>length (filter ?P results) \<le> 1\<close> by simp
    then have "mset (filter ?P results') = {#a#}" using same by simp
    then show ?thesis using a by (metis mset_single_iff_right)
  qed
  then show ?thesis by (simp add: result_for_def)
qed

text \<open>
  C17. The result of a parallel level does not depend on the order its goroutines come in, if all of them succeed and none of them
  depends on or changes what the others see: payload, completed steps, events and checkpoint are the same.
\<close>

theorem parallel_level_order_independent:
  fixes steps :: "'w NodeRunner SteppableStep list"
  assumes "CompileSteppable registry (Some g) = Inr steps" and "mset order = mset batch" and "mset order' = mset batch"
    and "distinct batch" and "\<And>i. i \<in> set batch \<Longrightarrow> i < length steps"
    and "\<And>i. i \<in> set batch \<Longrightarrow> quiet_run R j rc dec steps p i"
    and "\<And>i. i \<in> set batch \<Longrightarrow> snd (snd (fst (run_goroutine R j rc dec steps p i h))) = None"
  shows "level_in_order R j rc dec gb steps batch completed p order h = level_in_order R j rc dec gb steps batch completed p order' h"
proof -
  define out where "out = (\<lambda>i. fst (run_goroutine R j rc dec steps p i h))"
  have sets: "set order = set batch" "set order' = set batch" using assms(2,3) by (metis set_mset_mset)+
  have runs: "run_goroutines R j rc dec steps p order h = (map out order, h)" "run_goroutines R j rc dec steps p order' h = (map out order', h)"
    unfolding out_def by (rule run_goroutines_quiet; use assms(6) sets in simp)+
  have first: "fst (out i) = i" for i
    using run_goroutines_indices [of R j rc dec steps p "[i]" h] by (auto simp: out_def split: prod.splits)
  have ids: "map (\<lambda>(i, _, _). SS_NodeID (steps ! i)) (map out xs) = map (\<lambda>i. SS_NodeID (steps ! i)) xs" for xs
    using first by (simp add: case_prod_beta)
  have ok: "filter (\<lambda>(_, _, e). e \<noteq> None) (map out xs) = []" if "set xs = set batch" for xs
    using that assms(7) by (fastforce simp: filter_empty_conv out_def case_prod_beta)
  have "inj_on (\<lambda>i. SS_NodeID (steps ! i)) (set batch)"
    using assms(5) node_id_eq [OF plan_nodes(1) [OF compiled_plan [OF assms(1)]]] by (auto intro!: inj_onI)
  moreover have "distinct order" using assms(2,4) by (metis mset_eq_imp_distinct_iff)
  ultimately have "distinct (map (\<lambda>(i, _, _). SS_NodeID (steps ! i)) (map out order))"
    unfolding ids by (simp add: distinct_map sets(1))
  then have result: "result_for steps (map out order) n = result_for steps (map out order') n" for n
    by (rule result_for_perm [rotated]) (use assms(2,3) in simp)
  have "sort (map (\<lambda>i. SS_NodeID (steps ! i)) order) = sort (map (\<lambda>i. SS_NodeID (steps ! i)) order')"
    by (rule properties_for_sort) (use assms(2,3) in simp_all)
  moreover have "merge_node steps (map out order) = merge_node steps (map out order')"
    by (intro ext) (simp add: merge_node_def result)
  ultimately show ?thesis
    by (simp only: level_in_order_def runs Let_def prod.case ids ok [OF sets(1)] ok [OF sets(2)] list.case result)
qed

section \<open>Closed examples\<close>

lemma demo_agent_idle [simp]: "AG_Session (H_agent (set_agent_status st demo_host)) = None"
  by (simp add: set_agent_status_def SetStatus_def)

lemma demo_left: "left_to_do (demo_job c) (demo_doc ''tool'') (demo_steps ''tool'') [] = [0, 1]"
  by (simp add: undone_list_def step_done_def upt_rec)

theorem default_policy_blocks_resume_witness:
  "\<exists>h'. RunForJob 3 (demo_runner (Some DefaultPolicy) (Some (\<lambda>_ _. Inr None)) 0) (Some (demo_job ''cp'')) demo_host
     = Some (Returns (Some (ReplayForbidden ''b'')), h')"
proof -
  let ?R = "demo_runner (Some DefaultPolicy) (Some (\<lambda>_ _. Inr None)) 0"
  have c: "resumed_steps (\<lambda>_ _. Inr None) (demo_job ''cp'') demo_checkpoint (demo_steps ''tool'') demo_host
      = checkpoint_completed ''j'' (PlanDecisionID demo_text) (demo_steps ''tool'') (SS_NodeID (demo_steps ''tool'' ! 0))"
    by (simp add: resumed_steps_def Let_def)
  have undone: "left_to_do (demo_job ''cp'') (demo_doc ''tool'') (demo_steps ''tool'')
      (resumed_steps (\<lambda>_ _. Inr None) (demo_job ''cp'') demo_checkpoint (demo_steps ''tool'') demo_host) = 1 # []"
    using checkpoint_undone [OF demo_ids_distinct, of 0] unfolding c by (simp add: demo_marshal upt_rec)
  have panic: "(\<lambda>_ _. Inr None) (JR_ID (demo_job ''cp'')) (H_world demo_host) \<noteq> (Inl NilMapPanic :: replay_error + ReplayContext option)" by simp
  show ?thesis
    using default_policy_blocks_resume [OF demo_checkpoint_loads [of "Some DefaultPolicy" "Some (\<lambda>_ _. Inr None)" 0], of demo_jobs, OF _ _ panic _ undone, of 2]
    by (auto simp: numeral_3_eq_3 numeral_2_eq_2)
qed

definition gate_doc :: GraphDoc where
  "gate_doc = \<lparr>GD_Graph = \<lparr>TG_Nodes = [demo_node ''a'' ''approval''], TG_Edges = []\<rparr>, GD_NilNodes = False, GD_NilEdges = False\<rparr>"

definition gate_text :: bytes where
  "gate_text = ''{\"nodes\":[{\"id\":\"a\",\"type\":\"approval\"}],\"edges\":[]}''"

definition gate_steps :: "demo_world NodeRunner SteppableStep list" where
  "gate_steps = [\<lparr>SS_NodeID = ''a'', SS_NodeType = ''approval'', SS_Run = pass_runner\<rparr>]"

lemma gate_unmarshal: "Graph_Unmarshal gate_text = Some gate_doc"
  by code_simp

lemma gate_compile: "CompileSteppable (Some demo_registry) (Some (GD_Graph gate_doc)) = Inr gate_steps"
proof -
  have order: "(TopoOrder (Some (GD_Graph gate_doc)) :: goerr graph_error + string list) = Inr [''a'']" by code_simp
  show ?thesis
    unfolding CompileSteppable_def option.case order
    by (simp add: gate_doc_def demo_node_def gate_steps_def demo_registry_def node_by_id_def Registry_Get_def pass_runner_def fun_eq_iff)
qed

lemma demo_saves: "saves_succeed (demo_runner policy build n)"
  by (simp add: saves_succeed_def demo_checkpoints_def)

lemma demo_results: "results_text (PL_Results demo_payload) = Some ''{}''"
  by code_simp

theorem advance_passes_wait_nodes_witness:
  "fst (Advance (demo_runner None None 0) (demo_job []) (Some (demo_context\<lparr>RC_TaskGraphState := gate_text\<rparr>)) demo_host) = AdvMore"
proof -
  let ?rc = "demo_context\<lparr>RC_TaskGraphState := gate_text\<rparr>"
  have rc: "RC_CompletedNodeIDs ?rc = []" "RC_CompletedCommandIDs ?rc = []" "RC_PayloadResults ?rc = []"
    by (simp_all add: demo_context_def ReplayContext0_def)
  have loads: "context_loads (demo_runner None None 0) (demo_job []) demo_host ?rc gate_doc gate_steps demo_payload"
    by (simp add: context_loads_def ReplayContext_TaskGraph_def gate_unmarshal gate_compile rc load_results_def demo_payload_def)
      (simp add: gate_text_def)
  have undone: "left_to_do (demo_job []) gate_doc gate_steps (RC_CompletedNodeIDs ?rc) = 0 # []"
    by (simp add: rc undone_list_def step_done_def gate_steps_def)
  show ?thesis
    using advance_passes_wait_nodes [OF loads undone] demo_saves [of None None 0]
    by (simp add: rc gate_steps_def isWaitLikeNodeType_def demo_results)
qed

definition gated_adapter :: "ToolInvocationStoreMem ToolNodeAdapter" where
  "gated_adapter = (ex_adapter ex_tool)\<lparr>ta_InvocationLedger := None, ta_EffectStore := False, ta_CapabilityPolicyChecker := Some (\<lambda>_ _ _ _ _. (False, True, None))\<rparr>"

definition gated_steps :: "demo_world NodeRunner SteppableStep list" where
  "gated_steps = [\<lparr>SS_NodeID = ''t'', SS_NodeType = ''tool'',
     SS_Run = tool_runner gated_adapter (\<lambda>_. ex_nenv) ''t'' ''pay'' [] (\<lambda>_. ex_nstate) (\<lambda>_ w. w)\<rparr>]"

theorem approval_request_panics_witness:
  "fst (exec_step (demo_runner None None 0) (demo_job []) (demo_doc ''tool'') gated_steps 0 demo_payload demo_host) = Inl Panics"
proof -
  let ?R = "demo_runner None None 0"
  define h1 where "h1 = emit_node ?R (NodeStartedCall (JR_ID (demo_job [])) (SS_NodeID (gated_steps ! 0)) 1 []) demo_host"
  define c where "c = node_context (step_context ?R (demo_job []) (own_id (demo_job []) (demo_doc ''tool'') gated_steps 0) None True False)"
  have ad: "ta_InvocationLedger gated_adapter = None" "ta_InvocationStore gated_adapter = None" "\<not> ta_EffectStore gated_adapter"
      "ta_ToolEventSink gated_adapter = False" "ta_CommandEventSink gated_adapter = False"
      "ta_CapabilityPolicyChecker gated_adapter = Some (\<lambda>_ _ _ _ _. (False, True, None))"
    by (simp_all add: gated_adapter_def ex_adapter_def)
  have ctx: "nc_jobID c = ''j''" "nc_pending c = None" "nc_completed c = None"
    by (simp_all add: c_def node_context_def step_context_def)
  have "\<exists>x key. fst (runNode gated_adapter ex_nenv c ''t'' ''pay'' [] (ex_nstate\<lparr>nd_results := map_of (results_of demo_payload)\<rparr>))
      = Some (CapabilityRequiresApproval (x # key))"
    by (simp add: runNode_def run_unledgered_def ctx ad committed_in_store_def runNodeExecute_def exec_begin_def begin_events_def
        check_capability_def without_ledger_def tool_event_def Let_def ex_nstate_def demo_payload_def NewAgentDAGPayload_def results_of_def
        stored_effect_def already_done_def)
  then obtain x key where asks: "fst (runNode gated_adapter ex_nenv c ''t'' ''pay'' [] (ex_nstate\<lparr>nd_results := map_of (results_of demo_payload)\<rparr>))
      = Some (CapabilityRequiresApproval (x # key))" by blast
  show ?thesis
    using approval_request_panics [of ?R "(#)" gated_steps 0 gated_adapter "\<lambda>_. ex_nenv" "''t''" "''pay''" "[]" "\<lambda>_. ex_nstate" "\<lambda>_ w. w"
        h1 "demo_job []" demo_host c "demo_doc ''tool''" demo_payload x key] asks
    by (simp add: gated_steps_def isWaitLikeNodeType_def demo_results h1_def c_def)
qed

definition lossy_context :: ReplayContext where
  "lossy_context = demo_context\<lparr>RC_CompletedCommandIDs := [''a'']\<rparr>"

definition lossy_build :: "string \<Rightarrow> demo_world \<Rightarrow> replay_error + ReplayContext option" where
  "lossy_build i w = (if w = [] then Inr (Some lossy_context) else Inl (ListFailed ''io''))"

lemma lossy_context_simps [simp]:
  "RC_TaskGraphState lossy_context = demo_text" "RC_Phase lossy_context = PhaseExecuting" "RC_CompletedNodeIDs lossy_context = []"
  "RC_CommandResults lossy_context = []" "RC_WorkingMemorySnapshot lossy_context = []" "RC_PayloadResults lossy_context = []"
  "RC_CompletedCommandIDs lossy_context = [''a'']" "hasReplayProgress (Some lossy_context)"
  by (simp_all add: lossy_context_def hasReplayProgress_def)

lemma demo_running [simp]: "AG_ID (H_agent (set_agent_status st demo_host)) = ''agent''" "session_id (set_agent_status st demo_host) = []"
  by simp_all

theorem lost_context_panics_witness:
  "\<exists>h. RunForJob 1 (demo_runner None (Some lossy_build) 0) (Some (demo_job [])) demo_host = Some (Panics, h)"
proof -
  let ?R = "demo_runner None (Some lossy_build) 0"
  let ?h = "set_agent_status StatusRunning demo_host"
  have plan: "ReplayContext_TaskGraph lossy_context = Some (Some (demo_doc ''tool''))"
    by (simp add: ReplayContext_TaskGraph_def demo_unmarshal)
  have plans: "plan_loads ?R lossy_build (demo_job []) demo_host lossy_context (demo_doc ''tool'') (demo_steps ''tool'')"
    by (simp add: plan_loads_def lossy_build_def plan demo_compile)
  have loads: "context_loads ?R (demo_job []) ?h lossy_context (demo_doc ''tool'') (demo_steps ''tool'') demo_payload"
    by (simp add: context_loads_def plan demo_compile load_results_def demo_payload_def)
  have act: "replay_action_for ?R (Some lossy_context) (demo_steps ''tool'' ! 0) = InjectRecorded []"
    by (simp add: replay_action_for_def)
  have "\<exists>h1. inject_recorded ?R (demo_job []) (demo_steps ''tool'' ! 0) sid gb [] [] demo_payload ?h = (Inr demo_payload, h1) \<and> H_world h1 \<noteq> []" for sid gb
    by (simp add: inject_recorded_def Let_def demo_results save_checkpoint_def demo_checkpoints_def update_cursor_def demo_jobs_def emit_node_def)
  then obtain h1 where step: "inject_recorded ?R (demo_job []) (demo_steps ''tool'' ! 0) (own_id (demo_job []) (demo_doc ''tool'') (demo_steps ''tool'') 0)
      (Graph_Marshal (demo_doc ''tool'')) [] [] demo_payload ?h = (Inr demo_payload, h1)" and h1: "H_world h1 \<noteq> []"
    by blast
  have undone: "left_to_do (demo_job []) (demo_doc ''tool'') (demo_steps ''tool'') (RC_CompletedNodeIDs lossy_context) = 0 # [1]"
    by (simp only: demo_left lossy_context_simps)
  have "Advance ?R (demo_job []) (Some lossy_context) ?h = (AdvMore, h1)"
    by (simp only: Advance_loaded [OF loads undone] act replay_action.case lossy_context_simps step prod.case sum.case)
  then show ?thesis
    using lost_context_panics [OF plans, of h1 "''io''" 0] h1 by (simp add: lossy_build_def)
qed

definition stuck_context :: ReplayContext where
  "stuck_context = demo_context\<lparr>RC_CommandResults := [(''a'', ''{}'')]\<rparr>"

theorem refused_appends_loop_forever_witness:
  "advance_loop 1000 True (demo_runner (Some DefaultPolicy) (Some (\<lambda>_ _. Inr (Some stuck_context))) 0) (demo_job []) (\<lambda>_ _. Inr (Some stuck_context))
     stuck_context demo_host = None"
proof -
  let ?R = "demo_runner (Some DefaultPolicy) (Some (\<lambda>_ _. Inr (Some stuck_context))) 0"
  let ?p = "\<lambda>h. NewAgentDAGPayload ''goal'' (AG_ID (H_agent h)) (session_id h)"
  have rc: "RC_TaskGraphState stuck_context = demo_text" "RC_Phase stuck_context = PhaseExecuting" "RC_CompletedNodeIDs stuck_context = []"
      "RC_CommandResults stuck_context = [(''a'', ''{}'')]" "RC_WorkingMemorySnapshot stuck_context = []" "RC_PayloadResults stuck_context = []"
    by (simp_all add: stuck_context_def)
  have loads: "context_loads ?R (demo_job []) h stuck_context (demo_doc ''tool'') (demo_steps ''tool'') p \<longleftrightarrow> p = ?p h" for h p
    by (auto simp: context_loads_def ReplayContext_TaskGraph_def rc demo_unmarshal demo_compile load_results_def)
  have parse: "json_parse ''{}'' = Some (JObj [])" by code_simp
  have shown: "results_text (Some [(''a'', GMap [])]) = Some ''{\"a\":{}}''" by code_simp
  have put: "PL_Results (put_node_result ''a'' (any_value (JObj [])) (?p h)) = Some [(''a'', GMap [])]" for h
    by (simp add: put_node_result_def NewAgentDAGPayload_def results_of_def any_value_def map_entries_def gput_def)
  show ?thesis
  proof (rule refused_appends_loop_forever [where i = 0 and rest = "[1]" and b = "''{}''" and v = "JObj []"
        and gd = "demo_doc ''tool''" and steps = "demo_steps ''tool''"])
    show "\<exists>p. context_loads ?R (demo_job []) h stuck_context (demo_doc ''tool'') (demo_steps ''tool'') p" for h by (simp add: loads)
    show "results_text (PL_Results (put_node_result (SS_NodeID (demo_steps ''tool'' ! 0)) (any_value (JObj [])) p)) \<noteq> None"
      if "context_loads ?R (demo_job []) h stuck_context (demo_doc ''tool'') (demo_steps ''tool'') p" for h p
      using that by (simp add: loads put shown)
  qed (use demo_left in \<open>simp_all add: rc parse demo_saves\<close>)
qed

definition fork_graph :: TaskGraph where
  "fork_graph = \<lparr>TG_Nodes = [demo_node ''a'' ''tool'', demo_node ''b'' ''tool'', demo_node ''z'' ''tool''],
     TG_Edges = [\<lparr>TE_From = ''a'', TE_To = ''b''\<rparr>]\<rparr>"

definition fork_steps :: "demo_world NodeRunner SteppableStep list" where
  "fork_steps = map (\<lambda>i. \<lparr>SS_NodeID = i, SS_NodeType = ''tool'', SS_Run = demo_run i\<rparr>) [''a'', ''b'', ''z'']"

lemma fork_compile: "CompileSteppable (Some demo_registry) (Some fork_graph) = Inr fork_steps"
proof -
  have order: "(TopoOrder (Some fork_graph) :: goerr graph_error + string list) = Inr [''a'', ''b'', ''z'']" by code_simp
  show ?thesis
    unfolding CompileSteppable_def option.case order
    by (simp add: fork_graph_def demo_node_def fork_steps_def demo_registry_def node_by_id_def Registry_Get_def)
qed

theorem parallel_checkpoint_skips_steps_witness:
  "nextRunnableBatch 2 fork_steps (level_groups fork_graph) [] ''j'' ''d'' = [0, 2]
   \<and> 1 \<notin> set (nextRunnableBatch 2 fork_steps (level_groups fork_graph) (checkpoint_completed ''j'' ''d'' fork_steps ''z'') ''j'' ''d'')"
proof -
  have levels: "level_groups fork_graph = Some [[''a'', ''z''], [''b'']]" by code_simp
  have batch: "nextRunnableBatch 2 fork_steps (level_groups fork_graph) [] ''j'' ''d'' = [0, 2]"
    by (simp add: nextRunnableBatch_def levels step_done_def node_index_def fork_steps_def upt_rec List.map_filter_simps Let_def)
  have cursor: "SS_NodeID (fork_steps ! fold max (tl [0, 2]) (hd [0, 2])) = ''z''" by (simp add: fork_steps_def)
  show ?thesis
    using parallel_checkpoint_skips_steps [OF fork_compile, of "[0, 2]" 2 "[]" "''j''" "''d''" 2 1
        "checkpoint_completed ''j'' ''d'' fork_steps ''z''" "checkpoint_completed ''j'' ''d'' fork_steps ''z''"]
    by (simp only: batch cursor) simp
qed

theorem parallel_level_order_independent_witness:
  "level_in_order (demo_runner None None 2) (demo_job []) None ''d'' demo_text (demo_steps ''tool'') [0, 1] [] demo_payload [0, 1] demo_host
    = level_in_order (demo_runner None None 2) (demo_job []) None ''d'' demo_text (demo_steps ''tool'') [0, 1] [] demo_payload [1, 0] demo_host"
proof -
  have run: "SS_Run (demo_steps ''tool'' ! i) = demo_run (SS_NodeID (demo_steps ''tool'' ! i))" if "i \<in> {0, 1}" for i
    using that by (auto simp: demo_steps_def)
  show ?thesis
    by (rule parallel_level_order_independent [OF demo_compile(1)])
      (auto simp: quiet_run_def run_goroutine_def run demo_run_def Let_def)
qed

end
