(* ===== verification/Json_Text.thy ===== *)
theory Json_Text
  imports Go_Struct
begin

text \<open>
  What the printers of JSON write, the decoders read: strings, and objects and arrays of texts, come back as they were,
  byte by byte.
\<close>

section \<open>The inside of a string\<close>

definition plain_char :: "char \<Rightarrow> bool" where
  "plain_char c \<longleftrightarrow> 32 \<le> byte c \<and> byte c \<notin> {34, 38, 60, 62, 92, 226}"

inductive str_body :: "bytes \<Rightarrow> bool" where
  Empty: "str_body []"
| Escape: "str_body q \<Longrightarrow> str_body (CHR 0x5C # c # q)"
| Plain: "plain_char c \<Longrightarrow> str_body q \<Longrightarrow> str_body (c # q)"
| Three: "plain_char x \<Longrightarrow> plain_char y \<Longrightarrow> [x, y] \<noteq> [CHR 0x80, CHR 0xA8] \<Longrightarrow> [x, y] \<noteq> [CHR 0x80, CHR 0xA9] \<Longrightarrow> str_body q
    \<Longrightarrow> str_body (CHR 0xE2 # x # y # q)"

lemma plain_char_simps [simp]:
  assumes "plain_char c"
  shows "c \<noteq> CHR 0x22" "c \<noteq> CHR 0x5C" "c \<noteq> CHR 0xE2" "c \<notin> set ''<>&''" "\<not> byte c < 32"
  using assms by (auto simp: plain_char_def)

lemma str_body_append: "str_body p \<Longrightarrow> str_body q \<Longrightarrow> str_body (p @ q)"
  by (induction p rule: str_body.induct) (auto intro: str_body.intros)

lemma str_body_plain: "list_all plain_char p \<Longrightarrow> str_body p"
  by (induction p) (auto intro: str_body.intros)

lemma map_nil [simp]: "map_option ((@) []) x = x"
  by (cases x) simp_all

lemma lex_body: "str_body q \<Longrightarrow> lex (LStr a) (q @ s) = lex (LStr (rev q @ a)) s"
  by (induction q arbitrary: a rule: str_body.induct) simp_all

lemma split_body: "str_body q \<Longrightarrow> split_top sep d True acc (q @ s) = split_top sep d True (rev q @ acc) s"
  by (induction q arbitrary: acc rule: str_body.induct) simp_all

lemma compact_plain: "plain_char c \<Longrightarrow> compact_text True (c # s) = c # compact_text True s"
  using plain_char_simps [of c] by (simp del: list.set(2))

lemma compact_three:
  assumes "plain_char x" "plain_char y" "[x, y] \<noteq> [CHR 0x80, CHR 0xA8]" "[x, y] \<noteq> [CHR 0x80, CHR 0xA9]"
  shows "compact_text True (CHR 0xE2 # x # y # s) = CHR 0xE2 # x # y # compact_text True s"
proof -
  have "compact_text True (CHR 0xE2 # x # y # s) = CHR 0xE2 # compact_text True (x # y # s)"
    using assms(3,4) by auto
  then show ?thesis by (simp only: compact_plain [OF assms(1)] compact_plain [OF assms(2)])
qed

lemma compact_body: "str_body q \<Longrightarrow> compact_text True (q @ s) = q @ compact_text True s"
proof (induction q rule: str_body.induct)
  case (Escape q c)
  then show ?case by simp
next
  case (Plain c q)
  then show ?case by (simp only: append_Cons compact_plain)
next
  case (Three x y q)
  show ?case by (simp only: append_Cons compact_three [OF Three.hyps(1-4)] Three.IH)
qed simp

section \<open>Quoting\<close>

definition cont :: "char \<Rightarrow> bool" where
  "cont c \<longleftrightarrow> 128 \<le> byte c \<and> byte c \<le> 191"

lemma cont_plain: "cont c \<Longrightarrow> plain_char c"
  by (simp add: cont_def plain_char_def)

lemma high_plain: "128 \<le> byte c \<Longrightarrow> byte c \<noteq> 226 \<Longrightarrow> plain_char c"
  by (simp add: plain_char_def)

text \<open>Which bytes may follow the first one of a three or four byte sequence.\<close>

definition second_ok :: "char \<Rightarrow> char \<Rightarrow> bool" where
  "second_ok c x \<longleftrightarrow> (if byte c = 224 then 160 else if byte c = 240 then 144 else 128) \<le> byte x
     \<and> byte x \<le> (if byte c = 237 then 159 else if byte c = 244 then 143 else 191)"

lemma second_cont: "second_ok c x \<Longrightarrow> cont x"
  by (auto simp: second_ok_def cont_def split: if_splits)

lemma utf8_len_eq:
  "utf8_len [] = 0"
  "utf8_len (c # s) =
     (if byte c < 128 then 1
      else if 194 \<le> byte c \<and> byte c \<le> 223 then (case s of x # _ \<Rightarrow> if cont x then 2 else 0 | _ \<Rightarrow> 0)
      else if 224 \<le> byte c \<and> byte c \<le> 239 then (case s of x # y # _ \<Rightarrow> if second_ok c x \<and> cont y then 3 else 0 | _ \<Rightarrow> 0)
      else if 240 \<le> byte c \<and> byte c \<le> 244 then
        (case s of x # y # z # _ \<Rightarrow> if second_ok c x \<and> cont y \<and> cont z then 4 else 0 | _ \<Rightarrow> 0)
      else 0)"
proof -
  show "utf8_len [] = 0" by (simp add: utf8_len_def)
  consider "s = []" | x where "s = [x]" | x y where "s = [x, y]" | x y z t where "s = x # y # z # t"
    by (metis list.exhaust)
  then show "utf8_len (c # s) =
     (if byte c < 128 then 1
      else if 194 \<le> byte c \<and> byte c \<le> 223 then (case s of x # _ \<Rightarrow> if cont x then 2 else 0 | _ \<Rightarrow> 0)
      else if 224 \<le> byte c \<and> byte c \<le> 239 then (case s of x # y # _ \<Rightarrow> if second_ok c x \<and> cont y then 3 else 0 | _ \<Rightarrow> 0)
      else if 240 \<le> byte c \<and> byte c \<le> 244 then
        (case s of x # y # z # _ \<Rightarrow> if second_ok c x \<and> cont y \<and> cont z then 4 else 0 | _ \<Rightarrow> 0)
      else 0)"
    by cases (simp_all only: utf8_len_def cont_byte_def Let_def list.case list.size nth_Cons_0 second_ok_def cont_def, simp_all add: numeral_2_eq_2 numeral_3_eq_3)
qed

lemma utf8_cases:
  assumes "utf8_len s = k" "0 < k"
  obtains c r where "s = c # r" "byte c < 128" "k = 1"
  | c x r where "s = c # x # r" "194 \<le> byte c" "byte c \<le> 223" "cont x" "k = 2"
  | c x y r where "s = c # x # y # r" "224 \<le> byte c" "byte c \<le> 239" "second_ok c x" "cont y" "k = 3"
  | c x y z r where "s = c # x # y # z # r" "240 \<le> byte c" "byte c \<le> 244" "second_ok c x" "cont y" "cont z" "k = 4"
proof (cases s)
  case (Cons c r)
  then show ?thesis
    using assms that
    by (auto simp: utf8_len_eq split: if_splits list.splits)
qed (use assms in \<open>simp add: utf8_len_eq\<close>)

lemma utf8_len_take:
  assumes "utf8_len s = k" "0 < k"
  shows "utf8_len (take k s @ r) = k"
  by (rule utf8_cases [OF assms]) (simp_all add: utf8_len_eq)

lemma utf8_len_le: "utf8_len s \<le> length s"
proof (cases "utf8_len s")
  case (Suc k)
  then have "0 < utf8_len s" by simp
  from utf8_cases [OF refl this] show ?thesis by cases simp_all
qed simp

text \<open>The text with every byte outside a well-formed sequence replaced by U+FFFD.\<close>

primrec clean_steps :: "nat \<Rightarrow> bytes \<Rightarrow> bytes" where
  "clean_steps 0 s = []"
| "clean_steps (Suc n) s =
     (case s of [] \<Rightarrow> []
      | c # s' \<Rightarrow> (let k = utf8_len s in if k = 0 then utf8_enc rune_error @ clean_steps n s' else take k s @ clean_steps n (drop k s)))"

definition clean :: "bytes \<Rightarrow> bytes" where
  "clean s = clean_steps (length s) s"

lemma hex_val_lower: "hex_val (hex_lower n) = Some (n mod 16)"
proof -
  have "n mod 16 \<in> {0, 1, 2, 3, 4, 5, 6, 7, 8, 9, 10, 11, 12, 13, 14, 15}"
    using pos_mod_bound [of 16 n] pos_mod_sign [of 16 n] by (simp; presburger)
  then show ?thesis by (auto simp: hex_val_def hex_lower_def)
qed

lemma getu4_hex:
  "getu4 (hex_lower a # hex_lower b # hex_lower c # hex_lower d # q) = Some (4096 * (a mod 16) + 256 * (b mod 16) + 16 * (c mod 16) + d mod 16)"
  by (simp only: getu4.simps hex_val_lower prod.case option.case)

lemma hex_digits:
  assumes "0 \<le> r" "r < (65536::int)"
  shows "4096 * (r div 4096 mod 16) + 256 * (r div 256 mod 16) + 16 * (r div 16 mod 16) + r mod 16 = r"
proof -
  have "r div 4096 mod 16 = r div 4096" using assms by (intro mod_pos_pos_trivial) auto
  moreover have "r = 16 * (r div 16) + r mod 16" by simp
  moreover have "r div 16 = 16 * (r div 256) + r div 16 mod 16" using div_mult_mod_eq [of "r div 16" 16] by (simp add: zdiv_zmult2_eq [symmetric])
  moreover have "r div 256 = 16 * (r div 4096) + r div 256 mod 16" using div_mult_mod_eq [of "r div 256" 16] by (simp add: zdiv_zmult2_eq [symmetric])
  ultimately show ?thesis by linarith
qed

lemma unquote_u:
  assumes "0 \<le> r" "r < 55296 \<or> 57344 \<le> r" "r < 65536"
  shows "unquote_steps (Suc m) (u_escape r @ q) = map_option ((@) (utf8_enc r)) (unquote_steps m q)"
proof -
  define h where "h = hex_lower (r div 4096) # hex_lower (r div 256) # hex_lower (r div 16) # hex_lower r # q"
  have g: "getu4 h = Some r" unfolding h_def getu4_hex by (simp only: hex_digits [OF assms(1,3)])
  have d: "drop 4 h = q" by (simp add: h_def)
  have s: "\<not> (55296 \<le> r \<and> r < 57344)" using assms by auto
  have "u_escape r @ q = CHR 0x5C # CHR ''u'' # h" by (simp add: u_escape_def h_def)
  then have "unquote_steps (Suc m) (u_escape r @ q) = unquote_steps (Suc m) (CHR 0x5C # CHR ''u'' # h)" by (rule arg_cong)
  also have "\<dots> = map_option ((@) (utf8_enc r)) (unquote_steps m q)"
    by (simp only: unquote_steps.simps list.case g d option.case s simp_thms if_True if_False)
  finally show ?thesis .
qed

lemma unquote_simple:
  "e \<noteq> CHR ''u'' \<Longrightarrow> simple_escape e = Some x \<Longrightarrow> unquote_steps (Suc m) (CHR 0x5C # e # q) = map_option ((#) x) (unquote_steps m q)"
  by (simp only: unquote_steps.simps list.case option.case simp_thms if_True if_False)

lemma utf8_enc_consts:
  "utf8_enc 8232 = [CHR 0xE2, CHR 0x80, CHR 0xA8]" "utf8_enc 8233 = [CHR 0xE2, CHR 0x80, CHR 0xA9]"
  by code_simp+

lemma map_option_single: "map_option ((@) [c]) x = map_option ((#) c) x"
  by (cases x) simp_all

lemma byte_consts:
  "byte c = 34 \<longleftrightarrow> c = CHR 0x22" "byte c = 38 \<longleftrightarrow> c = CHR ''&''" "byte c = 60 \<longleftrightarrow> c = CHR ''<''"
  "byte c = 62 \<longleftrightarrow> c = CHR ''>''" "byte c = 92 \<longleftrightarrow> c = CHR 0x5C" "byte c = 226 \<longleftrightarrow> c = CHR 0xE2"
  using of_char_eq_iff [of c "CHR 0x22", where ?'a = int] of_char_eq_iff [of c "CHR ''&''", where ?'a = int]
    of_char_eq_iff [of c "CHR ''<''", where ?'a = int] of_char_eq_iff [of c "CHR ''>''", where ?'a = int]
    of_char_eq_iff [of c "CHR 0x5C", where ?'a = int] of_char_eq_iff [of c "CHR 0xE2", where ?'a = int]
  by simp_all

lemma json_char_cases:
  "(\<exists>e. json_char c = [CHR 0x5C, e] \<and> e \<noteq> CHR ''u'' \<and> simple_escape e = Some c) \<or> json_char c = u_escape (byte c)
    \<or> json_char c = [c] \<and> c \<noteq> CHR 0x5C \<and> (byte c < 128 \<longrightarrow> plain_char c)"
proof (cases "c \<in> {CHR 0x22, CHR 0x5C, CHR 0x08, CHR 0x0C, CHR 0x0A, CHR 0x0D, CHR 0x09}")
  case True
  then show ?thesis by (auto simp: json_char_def simple_escape_def)
next
  case False
  show ?thesis
  proof (cases "byte c < 32 \<or> c \<in> set ''<>&''")
    case True
    then show ?thesis using False by (simp add: json_char_def)
  next
    case ok: False
    then have "32 \<le> byte c" "byte c \<noteq> 38" "byte c \<noteq> 60" "byte c \<noteq> 62" by (simp_all add: byte_consts)
    moreover have "byte c \<noteq> 34" "byte c \<noteq> 92" using False by (simp_all add: byte_consts)
    ultimately have "byte c < 128 \<longrightarrow> plain_char c" by (simp add: plain_char_def)
    then show ?thesis using False ok by (simp add: json_char_def)
  qed
qed

lemma unquote_json_char:
  assumes "byte c < 128"
  shows "unquote_steps (Suc m) (json_char c @ q) = map_option ((#) c) (unquote_steps m q)"
proof -
  have e: "utf8_enc (byte c) = [c]" using assms by (simp add: utf8_enc_def)
  have "0 \<le> byte c" by (simp add: of_char_def)
  then have u: "unquote_steps (Suc m) (u_escape (byte c) @ q) = map_option ((#) c) (unquote_steps m q)"
    using assms by (subst unquote_u) (simp_all add: e map_option_single del: append.simps)
  have p: "unquote_steps (Suc m) ([c] @ q) = map_option ((#) c) (unquote_steps m q)" if "c \<noteq> CHR 0x5C"
    using assms that by (simp add: utf8_len_eq map_option_single)
  from json_char_cases [of c]
  consider e where "json_char c = [CHR 0x5C, e]" "e \<noteq> CHR ''u''" "simple_escape e = Some c"
    | "json_char c = u_escape (byte c)" | "json_char c = [c]" "c \<noteq> CHR 0x5C"
    by blast
  then show ?thesis
  proof cases
    case 1
    then show ?thesis unfolding 1(1) append.simps by (intro unquote_simple)
  next
    case 2
    then show ?thesis using u by (simp only:)
  next
    case 3
    then show ?thesis unfolding 3(1) by (intro p)
  qed
qed

lemma json_char_length: "1 \<le> length (json_char c)"
  by (simp add: json_char_def u_escape_def)

lemma u_escape_body: "str_body (u_escape r)"
proof -
  have h: "plain_char (hex_lower n)" for n
  proof -
    have "nat (n mod 16) < length ''0123456789abcdef''"
      using pos_mod_bound [of 16 n] pos_mod_sign [of 16 n] by simp
    then have "hex_lower n \<in> set ''0123456789abcdef''" unfolding hex_lower_def by (rule nth_mem)
    then show ?thesis by (auto simp: plain_char_def)
  qed
  show ?thesis unfolding u_escape_def by (intro str_body.intros h)
qed

lemma json_char_body: "byte c < 128 \<Longrightarrow> str_body (json_char c)"
  using json_char_cases [of c] u_escape_body [of "byte c"] str_body.Escape [OF str_body.Empty] str_body.Plain [OF _ str_body.Empty] by metis

lemma take_seq_body:
  assumes "utf8_len s = k" "1 < k" "take 3 s \<noteq> [CHR 0xE2, CHR 0x80, CHR 0xA8]" "take 3 s \<noteq> [CHR 0xE2, CHR 0x80, CHR 0xA9]"
  shows "str_body (take k s)"
proof -
  have "0 < k" using assms by simp
  from utf8_cases [OF assms(1) this] show ?thesis
  proof cases
    case (2 c x r)
    then have "plain_char c" by (simp add: plain_char_def)
    with 2 show ?thesis by (auto intro: str_body.intros cont_plain)
  next
    case (3 c x y r)
    have x: "plain_char x" "plain_char y" using 3 by (auto intro: cont_plain second_cont)
    show ?thesis
    proof (cases "byte c = 226")
      case True
      then have "c = CHR 0xE2" by (simp add: byte_consts)
      with 3 assms x show ?thesis by (auto intro: str_body.intros)
    next
      case False
      with 3 have "plain_char c" by (simp add: plain_char_def)
      with 3 x show ?thesis by (auto intro: str_body.intros)
    qed
  next
    case (4 c x y z r)
    then have "plain_char c" by (simp add: plain_char_def)
    moreover have "plain_char x" "plain_char y" "plain_char z"
      using 4 by (auto intro: cont_plain second_cont)
    ultimately show ?thesis using 4 str_body_plain [of "[c, x, y, z]"] by simp
  qed (use assms in simp)
qed

lemma quote_steps_Nil [simp]: "quote_steps n [] = []" "clean_steps n [] = []"
  by (cases n; simp)+

lemma quote_cases:
  assumes "s \<noteq> []"
  obtains (Bad) c r where "s = c # r" "utf8_len s = 0"
    "\<And>n. quote_steps (Suc n) s = u_escape rune_error @ quote_steps n r" "\<And>n. clean_steps (Suc n) s = utf8_enc rune_error @ clean_steps n r"
  | (Ascii) c r where "s = c # r" "byte c < 128" "utf8_len s = 1"
    "\<And>n. quote_steps (Suc n) s = json_char c @ quote_steps n r" "\<And>n. clean_steps (Suc n) s = c # clean_steps n r"
  | (Line) z r where "z = 8232 \<or> z = 8233" "s = utf8_enc z @ r" "utf8_len s = 3"
    "\<And>n. quote_steps (Suc n) s = u_escape z @ quote_steps n r"
    "\<And>n. clean_steps (Suc n) s = utf8_enc z @ clean_steps n r"
  | (Seq) p r where "s = p @ r" "1 < utf8_len s" "length p = utf8_len s" "str_body p" "hd p \<noteq> CHR 0x5C"
    "\<And>n. quote_steps (Suc n) s = p @ quote_steps n r" "\<And>n. clean_steps (Suc n) s = p @ clean_steps n r"
proof -
  obtain c r where s: "s = c # r" using assms by (cases s) auto
  consider "utf8_len s = 0" | "utf8_len s = 1" | "1 < utf8_len s" by linarith
  then show ?thesis
  proof cases
    case 1
    then show ?thesis using Bad s by simp
  next
    case 2
    then have "0 < utf8_len s" by simp
    from utf8_cases [OF refl this] have "byte c < 128" using 2 s by cases auto
    then show ?thesis using Ascii 2 s by simp
  next
    case 3
    have l: "utf8_len (utf8_enc z @ t) = 3" if "z = 8232 \<or> z = 8233" for z t
      using that by (auto simp: utf8_enc_consts utf8_len_eq second_ok_def cont_def)
    consider "take 3 s = utf8_enc 8232" | "take 3 s = utf8_enc 8233"
      | "take 3 s \<noteq> utf8_enc 8232" "take 3 s \<noteq> utf8_enc 8233" by blast
    then show ?thesis
    proof cases
      case 1
      then have e: "s = utf8_enc 8232 @ drop 3 s" by (metis append_take_drop_id)
      have "utf8_len s = 3" by (subst e) (rule l, simp)
      then show ?thesis using 1 s by (intro Line [OF _ e]) (simp_all add: utf8_enc_consts)
    next
      case 2
      then have e: "s = utf8_enc 8233 @ drop 3 s" by (metis append_take_drop_id)
      have "utf8_len s = 3" by (subst e) (rule l, simp)
      then show ?thesis using 2 s by (intro Line [OF _ e]) (simp_all add: utf8_enc_consts)
    next
      case n: 3
      let ?k = "utf8_len s"
      have "?k \<noteq> 0" "?k \<noteq> 1" using 3 by simp_all
      have b: "str_body (take ?k s)" using take_seq_body [OF refl 3] n unfolding utf8_enc_consts by simp
      have h: "hd (take ?k s) \<noteq> CHR 0x5C" using 3 s by (auto simp: utf8_len_eq take_Cons split: nat.splits)
      show ?thesis
        by (rule Seq [OF append_take_drop_id [symmetric] 3 _ b h])
          (use n 3 s utf8_len_le [of s] in \<open>auto simp: utf8_enc_consts Let_def\<close>)
    qed
  qed
qed

lemma quote_steps_body: "str_body (quote_steps n s)"
proof (induction n arbitrary: s)
  case (Suc n)
  show ?case
  proof (cases "s = []")
    case False
    then show ?thesis
      by (rule quote_cases) (auto intro: str_body_append Suc.IH u_escape_body json_char_body simp del: quote_steps.simps)
  qed (simp add: str_body.Empty)
qed (simp add: str_body.Empty)

lemma unquote_seq:
  assumes "utf8_len (p @ r) = length p" "1 < length p" "hd p \<noteq> CHR 0x5C"
  shows "unquote_steps (Suc m) (p @ q) = map_option ((@) p) (unquote_steps m q)"
proof -
  obtain c p' where p: "p = c # p'" using assms by (cases p) auto
  have l: "utf8_len (c # p' @ q) = Suc (length p')"
    using utf8_len_take [OF assms(1), of q] assms(2) by (simp add: p)
  have "c \<noteq> CHR 0x5C" using assms(3) p by simp
  then show ?thesis by (simp add: p l)
qed

lemma unquote_quote:
  "length s \<le> n \<Longrightarrow> length (quote_steps n s) \<le> m \<Longrightarrow> unquote_steps m (quote_steps n s) = Some (clean_steps n s)"
proof (induction n arbitrary: s m)
  case (Suc n)
  show ?case
  proof (cases "s = []")
    case False
    then show ?thesis
    proof (cases rule: quote_cases)
      case (Bad c r)
      then obtain m' where "m = Suc m'" using Suc.prems by (cases m) (auto simp: u_escape_def)
      moreover have "length (u_escape rune_error) = 6" by (simp add: u_escape_def)
      ultimately show ?thesis
        using Bad(1) Suc.prems Suc.IH [of r m'] unfolding Bad(3,4) by (simp add: unquote_u del: unquote_steps.simps)
    next
      case (Ascii c r)
      then obtain m' where "m = Suc m'" using Suc.prems json_char_length [of c] by (cases m) auto
      then show ?thesis
        using Ascii(1,2) Suc.prems Suc.IH [of r m'] json_char_length [of c] unfolding Ascii(4,5)
        by (simp add: unquote_json_char del: unquote_steps.simps)
    next
      case (Line z r)
      then obtain m' where m: "m = Suc m'" using Suc.prems by (cases m) (auto simp: u_escape_def)
      have "length (u_escape z) = 6" "1 \<le> length (utf8_enc z)" using Line(1) by (auto simp: u_escape_def utf8_enc_consts)
      then have "unquote_steps m' (quote_steps n r) = Some (clean_steps n r)"
        using Line(2) Suc.prems(1) Suc.prems(2) [unfolded Line(4)] m by (intro Suc.IH) simp_all
      moreover have "0 \<le> z" "z < 55296" using Line(1) by auto
      ultimately show ?thesis unfolding Line(4,5) m by (simp add: unquote_u del: unquote_steps.simps)
    next
      case (Seq p r)
      then obtain m' where m: "m = Suc m'" using Suc.prems by (cases m) auto
      have "unquote_steps m' (quote_steps n r) = Some (clean_steps n r)"
        using Seq(1,2,3) Suc.prems(1) Suc.prems(2) [unfolded Seq(6)] m by (intro Suc.IH) simp_all
      then show ?thesis
        using unquote_seq [of p r m' "quote_steps n r"] Seq(1,2,3,5) unfolding Seq(6,7) m by (simp del: unquote_steps.simps)
    qed
  qed simp
qed simp

text \<open>A string that is well-formed UTF-8 is written and read back as it is; others come back with U+FFFD for the bad bytes.\<close>

lemma unquote_quoted: "unquote (quote_steps (length s) s) = Some (clean s)"
  unfolding unquote_def clean_def by (rule unquote_quote) simp_all

lemma raw_string_quote [simp]: "raw_string (json_quote s) = clean s"
  by (simp add: raw_string_def json_quote_def unquote_quoted)

lemma clean_ascii: "list_all (\<lambda>c. byte c < 128) s \<Longrightarrow> clean s = s"
  unfolding clean_def by (induction s) (simp_all add: utf8_len_eq)

lemma lex_quote: "lex LNorm (json_quote s @ q) = map_option ((#) (TStr (clean s))) (lex LNorm q)"
proof -
  have "lex (LStr []) (quote_steps (length s) s @ [CHR 0x22] @ q)
      = lex (LStr (rev (quote_steps (length s) s) @ [])) ([CHR 0x22] @ q)"
    by (rule lex_body, rule quote_steps_body)
  then show ?thesis by (simp add: json_quote_def lex_norm_def unquote_quoted) (cases "lex LNorm q"; simp)
qed

section \<open>Texts\<close>

text \<open>A text without white space outside strings, in the form the program writes; the number bounds the nesting.\<close>

inductive json_piece :: "nat \<Rightarrow> bytes \<Rightarrow> bool" where
  Quoted: "json_piece n (json_quote s)"
| Word: "t \<in> {''null'', ''true'', ''false''} \<Longrightarrow> json_piece n t"
| Number: "is_digit c \<or> c = CHR ''-'' \<Longrightarrow> list_all (\<lambda>x. is_digit x \<or> x \<in> set ''+-.eE'') r \<Longrightarrow> valid_number (c # r) \<Longrightarrow> json_piece n (c # r)"
| Array: "\<forall>t \<in> set ts. json_piece n t \<Longrightarrow> json_piece (Suc n) (array_text ts)"
| Object: "\<forall>t \<in> snd ` set ms. json_piece n t \<Longrightarrow> json_piece (Suc n) (fields_text ms)"

lemma json_piece_mono: "json_piece n t \<Longrightarrow> n \<le> m \<Longrightarrow> json_piece m t"
proof (induction arbitrary: m rule: json_piece.induct)
  case (Array ts n)
  then obtain k where "m = Suc k" "n \<le> k" by (cases m) auto
  with Array show ?case by (auto intro: json_piece.Array)
next
  case (Object ms n)
  then obtain k where "m = Suc k" "n \<le> k" by (cases m) auto
  with Object show ?case by (auto intro!: json_piece.Object)
qed (auto intro: json_piece.intros)

abbreviation piece :: "bytes \<Rightarrow> bool" where
  "piece t \<equiv> json_piece 9000 t"

subsection \<open>Ends\<close>

lemma joined_Cons: "xs \<noteq> [] \<Longrightarrow> joined sep (x # xs) = x @ sep @ joined sep xs"
  by (cases xs) simp_all

lemma json_piece_ends: "json_piece n t \<Longrightarrow> t \<noteq> [] \<and> \<not> is_ws (hd t) \<and> \<not> is_ws (last t)"
proof (induction rule: json_piece.induct)
  case (Number c r n)
  have d: "\<not> is_ws x" if "is_digit x \<or> x \<in> set ''+-.eE''" for x using that by auto
  have "last (c # r) \<in> insert c (set r)" by (cases r) auto
  with Number d show ?case by (auto simp: list_all_iff)
qed (auto simp: json_quote_def array_text_def fields_text_def)

lemma dropWhile_id: "xs \<noteq> [] \<Longrightarrow> \<not> P (hd xs) \<Longrightarrow> dropWhile P xs = xs"
  by (cases xs) simp_all

lemma trim_piece [simp]: "json_piece n t \<Longrightarrow> trim_ws t = t"
  using json_piece_ends [of n t] by (simp add: trim_ws_def dropWhile_id hd_rev)

subsection \<open>Tokens\<close>

abbreviation delim :: "bytes \<Rightarrow> bool" where
  "delim q \<equiv> q = [] \<or> hd q \<in> set '',]}''"

definition zero_tok :: "token \<Rightarrow> token" where
  "zero_tok t = (case t of TNum _ \<Rightarrow> TNum ''0'' | _ \<Rightarrow> t)"

lemma zero_tok_simps [simp]: "zero_tok (TPunct c) = TPunct c" "zero_tok (TStr s) = TStr s" "zero_tok (TWord w) = TWord w" "zero_tok (TNum w) = TNum ''0''"
  by (simp_all add: zero_tok_def)

definition after_value :: "json \<Rightarrow> frame list \<Rightarrow> token list \<Rightarrow> json option" where
  "after_value v fs rest = (case add_value v fs of Inl fs' \<Rightarrow> parse fs' EAfter rest | Inr r \<Rightarrow> if rest = [] then Some r else None)"

definition lexes :: "bytes \<Rightarrow> token list \<Rightarrow> bool" where
  "lexes t ts \<longleftrightarrow> (\<forall>q. delim q \<longrightarrow> lex LNorm (t @ q) = map_option ((@) ts) (lex LNorm q))"

definition parses :: "nat \<Rightarrow> token list \<Rightarrow> bool" where
  "parses n ts \<longleftrightarrow> (\<forall>fs ex rest. length fs + n \<le> maxNestingDepth \<longrightarrow> ex = EValue \<or> ex = EValueOrEnd \<longrightarrow>
     (\<exists>v. parse fs ex (map zero_tok ts @ rest) = after_value v fs rest))"

lemma map_option_comp: "map_option ((@) ys) (map_option ((@) xs) x) = map_option ((@) (ys @ xs)) x"
  by (cases x) simp_all

lemma map_option_Cons: "map_option ((#) y) x = map_option ((@) [y]) x"
  by (cases x) simp_all

lemma lex_punct: "c \<in> set ''{}[]:,'' \<Longrightarrow> lex LNorm (c # q) = map_option ((@) [TPunct c]) (lex LNorm q)"
  by (auto simp: lex_norm_def)

lemma lex_word_end: "delim q \<Longrightarrow> lex (LWord a) q = map_option ((@) [TWord (rev a)]) (lex LNorm q)"
  by (cases q) (auto simp: lex_norm_def map_option_comp map_option_Cons)

lemma lex_number:
  "list_all (\<lambda>x. is_digit x \<or> x \<in> set ''+-.eE'') r \<Longrightarrow> delim q \<Longrightarrow> valid_number (rev a @ r)
    \<Longrightarrow> lex (LNum a) (r @ q) = map_option ((@) [TNum (rev a @ r)]) (lex LNorm q)"
proof (induction r arbitrary: a)
  case Nil
  then show ?case
    by (cases q) (auto simp: lex_norm_def map_option_comp map_option_Cons)
next
  case (Cons x r)
  then have "lex (LNum a) ((x # r) @ q) = lex (LNum (x # a)) (r @ q)" by (cases "lex (LNum (x # a)) (r @ q)") auto
  with Cons show ?case by simp
qed

lemma lexes_comma: "lexes a ta \<Longrightarrow> lexes b tb \<Longrightarrow> lexes (a @ '','' @ b) (ta @ TPunct CHR '','' # tb)"
  by (simp add: lexes_def lex_punct map_option_comp del: lex.simps)

lemma lexes_bracketed:
  assumes "lexes b tb" "l \<in> set ''{[''" "r \<in> set ''}]''"
  shows "lexes ([l] @ b @ [r]) (TPunct l # tb @ [TPunct r])"
  unfolding lexes_def
proof (intro allI impI)
  fix q :: bytes assume q: "delim q"
  have l: "l \<in> set ''{}[]:,''" and r: "r \<in> set ''{}[]:,''" "delim (r # q)" using assms(2,3) by auto
  have "lex LNorm (b @ (r # q)) = map_option ((@) tb) (lex LNorm (r # q))"
    using assms(1) r(2) unfolding lexes_def by blast
  then show "lex LNorm (([l] @ b @ [r]) @ q) = map_option ((@) (TPunct l # tb @ [TPunct r])) (lex LNorm q)"
    using lex_punct [OF l, of "b @ r # q"] lex_punct [OF r(1), of q] by (simp add: map_option_comp del: lex.simps)
qed

lemma lexes_empty: "l \<in> set ''{['' \<Longrightarrow> r \<in> set ''}]'' \<Longrightarrow> lexes [l, r] [TPunct l, TPunct r]"
  using lexes_bracketed [of "[]" "[]" l r] by (simp add: lexes_def)

lemma lexes_member: "lexes t ts \<Longrightarrow> lexes (json_quote k @ '':'' @ t) (TStr (clean k) # TPunct CHR '':'' # ts)"
  by (simp add: lexes_def lex_quote lex_punct map_option_comp map_option_Cons del: lex.simps)

lemma parse_steps:
  "parse (FArr vs # fs) EAfter (TPunct CHR '']'' # rest) = after_value (JArr vs) fs rest"
  "parse (FArr vs # fs) EValueOrEnd (TPunct CHR '']'' # rest) = after_value (JArr vs) fs rest"
  "parse (FArr vs # fs) EAfter (TPunct CHR '','' # rest) = parse (FArr vs # fs) EValue rest"
  "parse (FObj ms k # fs) EAfter (TPunct CHR ''}'' # rest) = after_value (JObj ms) fs rest"
  "parse (FObj ms k # fs) EKeyOrEnd (TPunct CHR ''}'' # rest) = after_value (JObj ms) fs rest"
  "parse (FObj ms k # fs) EAfter (TPunct CHR '','' # rest) = parse (FObj ms k # fs) EKey rest"
  "ex = EKey \<or> ex = EKeyOrEnd \<Longrightarrow> parse (FObj ms k # fs) ex (TStr k' # TPunct CHR '':'' # ts) = parse (FObj ms k' # fs) EValue ts"
  "ex = EValue \<or> ex = EValueOrEnd \<Longrightarrow> length fs < maxNestingDepth \<Longrightarrow> parse fs ex (TPunct CHR ''['' # ts) = parse (FArr [] # fs) EValueOrEnd ts"
  "ex = EValue \<or> ex = EValueOrEnd \<Longrightarrow> length fs < maxNestingDepth \<Longrightarrow> parse fs ex (TPunct CHR ''{'' # ts) = parse (FObj [] [] # fs) EKeyOrEnd ts"
  by (auto simp: after_value_def close_value_def)

lemma after_steps:
  "after_value v (FArr vs # fs) rest = parse (FArr (vs @ [v]) # fs) EAfter rest"
  "after_value v (FObj ms k # fs) rest = parse (FObj (ms @ [(k, v)]) k # fs) EAfter rest"
  by (simp_all add: after_value_def add_value_def)

lemma elements_parse:
  assumes "ts \<noteq> []" "\<forall>t \<in> set ts. \<exists>tk. lexes t tk \<and> parses n tk"
  shows "\<exists>tk. lexes (joined '','' ts) tk
    \<and> (\<forall>vs fs ex rest. length fs + Suc n \<le> maxNestingDepth \<longrightarrow> ex = EValue \<or> ex = EValueOrEnd
        \<longrightarrow> (\<exists>v. parse (FArr vs # fs) ex (map zero_tok tk @ TPunct CHR '']'' # rest) = after_value v fs rest))"
  using assms
proof (induction ts rule: list_nonempty_induct)
  case (single t)
  then obtain tk where tk: "lexes t tk" "parses n tk" by auto
  have "\<exists>v. parse (FArr vs # fs) ex (map zero_tok tk @ TPunct CHR '']'' # rest) = after_value v fs rest"
    if "length fs + Suc n \<le> maxNestingDepth" "ex = EValue \<or> ex = EValueOrEnd" for vs fs ex rest
  proof -
    note t = that
    have "length (FArr vs # fs) + n \<le> maxNestingDepth" using t(1) by simp
    then obtain v where "parse (FArr vs # fs) ex (map zero_tok tk @ TPunct CHR '']'' # rest) = after_value v (FArr vs # fs) (TPunct CHR '']'' # rest)"
      using tk(2) t(2) unfolding parses_def by blast
    moreover have "after_value v (FArr vs # fs) (TPunct CHR '']'' # rest) = after_value (JArr (vs @ [v])) fs rest"
      by (simp only: after_steps parse_steps)
    ultimately show ?thesis by metis
  qed
  with tk(1) show ?case by (auto simp del: parse.simps)
next
  case (cons t ts)
  then obtain tk where tk: "lexes t tk" "parses n tk" by auto
  from cons.IH cons.prems obtain tks where tks: "lexes (joined '','' ts) tks"
    and rest: "\<And>vs fs ex rest. length fs + Suc n \<le> maxNestingDepth \<Longrightarrow> ex = EValue \<or> ex = EValueOrEnd
        \<Longrightarrow> \<exists>v. parse (FArr vs # fs) ex (map zero_tok tks @ TPunct CHR '']'' # rest) = after_value v fs rest"
    by fastforce
  have "\<exists>v. parse (FArr vs # fs) ex (map zero_tok (tk @ TPunct CHR '','' # tks) @ TPunct CHR '']'' # rest') = after_value v fs rest'"
    if "length fs + Suc n \<le> maxNestingDepth" "ex = EValue \<or> ex = EValueOrEnd" for vs fs ex rest'
  proof -
    note t = that
    have "length (FArr vs # fs) + n \<le> maxNestingDepth" using t(1) by simp
    then obtain v where v: "parse (FArr vs # fs) ex (map zero_tok tk @ TPunct CHR '','' # map zero_tok tks @ TPunct CHR '']'' # rest')
        = after_value v (FArr vs # fs) (TPunct CHR '','' # map zero_tok tks @ TPunct CHR '']'' # rest')"
      using tk(2) t(2) unfolding parses_def by blast
    have "after_value v (FArr vs # fs) (TPunct CHR '','' # map zero_tok tks @ TPunct CHR '']'' # rest')
        = parse (FArr (vs @ [v]) # fs) EValue (map zero_tok tks @ TPunct CHR '']'' # rest')"
      by (simp only: after_steps parse_steps)
    then show ?thesis using v rest [of fs EValue "vs @ [v]" rest'] t(1) by (simp del: parse.simps)
  qed
  moreover have "lexes (joined '','' (t # ts)) (tk @ TPunct CHR '','' # tks)"
    using lexes_comma [OF tk(1) tks] cons.hyps by (simp add: joined_Cons)
  ultimately show ?case by blast
qed

abbreviation member_text :: "string \<times> bytes \<Rightarrow> bytes" where
  "member_text \<equiv> \<lambda>(k, t). json_quote k @ '':'' @ t"

lemma members_parse:
  assumes "ms \<noteq> []" "\<forall>t \<in> snd ` set ms. \<exists>tk. lexes t tk \<and> parses n tk"
  shows "\<exists>tk. lexes (joined '','' (map member_text ms)) tk
    \<and> (\<forall>vs k fs ex rest. length fs + Suc n \<le> maxNestingDepth \<longrightarrow> ex = EKey \<or> ex = EKeyOrEnd
        \<longrightarrow> (\<exists>v. parse (FObj vs k # fs) ex (map zero_tok tk @ TPunct CHR ''}'' # rest) = after_value v fs rest))"
  using assms
proof (induction ms rule: list_nonempty_induct)
  case (single m)
  obtain key t where m: "m = (key, t)" by (cases m)
  with single obtain tk where tk: "lexes t tk" "parses n tk" by auto
  have "\<exists>v. parse (FObj vs k # fs) ex (map zero_tok (TStr (clean key) # TPunct CHR '':'' # tk) @ TPunct CHR ''}'' # rest) = after_value v fs rest"
    if "length fs + Suc n \<le> maxNestingDepth" "ex = EKey \<or> ex = EKeyOrEnd" for vs k fs ex rest
  proof -
    note t = that
    have "length (FObj vs (clean key) # fs) + n \<le> maxNestingDepth" using t(1) by simp
    then obtain v where "parse (FObj vs (clean key) # fs) EValue (map zero_tok tk @ TPunct CHR ''}'' # rest)
        = after_value v (FObj vs (clean key) # fs) (TPunct CHR ''}'' # rest)"
      using tk(2) unfolding parses_def by blast
    moreover have "after_value v (FObj vs (clean key) # fs) (TPunct CHR ''}'' # rest) = after_value (JObj (vs @ [(clean key, v)])) fs rest"
      by (simp only: after_steps parse_steps)
    ultimately show ?thesis using t(2) by (auto simp: parse_steps simp del: parse.simps)
  qed
  with lexes_member [OF tk(1), of key] show ?case unfolding m by (auto simp del: parse.simps)
next
  case (cons m ms)
  obtain key t where m: "m = (key, t)" by (cases m)
  with cons obtain tk where tk: "lexes t tk" "parses n tk" by auto
  from cons.IH cons.prems obtain tks where tks: "lexes (joined '','' (map member_text ms)) tks"
    and rest: "\<And>vs k fs ex rest. length fs + Suc n \<le> maxNestingDepth \<Longrightarrow> ex = EKey \<or> ex = EKeyOrEnd
        \<Longrightarrow> \<exists>v. parse (FObj vs k # fs) ex (map zero_tok tks @ TPunct CHR ''}'' # rest) = after_value v fs rest"
    by fastforce
  let ?tk = "TStr (clean key) # TPunct CHR '':'' # tk"
  have "\<exists>v. parse (FObj vs k # fs) ex (map zero_tok (?tk @ TPunct CHR '','' # tks) @ TPunct CHR ''}'' # rest') = after_value v fs rest'"
    if "length fs + Suc n \<le> maxNestingDepth" "ex = EKey \<or> ex = EKeyOrEnd" for vs k fs ex rest'
  proof -
    note t = that
    have "length (FObj vs (clean key) # fs) + n \<le> maxNestingDepth" using t(1) by simp
    then obtain v where v: "parse (FObj vs (clean key) # fs) EValue (map zero_tok tk @ TPunct CHR '','' # map zero_tok tks @ TPunct CHR ''}'' # rest')
        = after_value v (FObj vs (clean key) # fs) (TPunct CHR '','' # map zero_tok tks @ TPunct CHR ''}'' # rest')"
      using tk(2) unfolding parses_def by blast
    have "after_value v (FObj vs (clean key) # fs) (TPunct CHR '','' # map zero_tok tks @ TPunct CHR ''}'' # rest')
        = parse (FObj (vs @ [(clean key, v)]) (clean key) # fs) EKey (map zero_tok tks @ TPunct CHR ''}'' # rest')"
      by (simp only: after_steps parse_steps)
    then have "\<exists>w. parse (FObj vs (clean key) # fs) EValue (map zero_tok tk @ TPunct CHR '','' # map zero_tok tks @ TPunct CHR ''}'' # rest') = after_value w fs rest'"
      using v rest [of fs EKey "vs @ [(clean key, v)]" "clean key" rest'] t(1) by (simp del: parse.simps)
    then show ?thesis using t(2) by (auto simp: parse_steps simp del: parse.simps)
  qed
  moreover have "lexes (joined '','' (map member_text (m # ms))) (?tk @ TPunct CHR '','' # tks)"
    using lexes_comma [OF lexes_member [OF tk(1), of key] tks] cons.hyps by (simp add: joined_Cons m)
  ultimately show ?case by blast
qed

lemma piece_lexes:
  assumes "json_piece n t"
  shows "\<exists>ts. lexes t ts \<and> parses n ts"
  using assms
proof (induction rule: json_piece.induct)
  case (Quoted n s)
  have "lexes (json_quote s) [TStr (clean s)]" by (simp add: lexes_def lex_quote map_option_Cons)
  moreover have "parses n [TStr (clean s)]" by (auto simp: parses_def after_value_def)
  ultimately show ?case by blast
next
  case (Word t n)
  have "lexes t [TWord t]" using Word
    by (auto simp: lexes_def lex_norm_def option.map_comp comp_def lex_word_end)
  moreover have "parses n [TWord t]" using Word by (auto simp: parses_def after_value_def word_value_def)
  ultimately show ?case by blast
next
  case (Number c r n)
  have "\<not> is_ws c" "c \<noteq> CHR 0x22" "c \<notin> set ''{}[]:,''" using Number(1) by auto
  then have "lex_step LNorm c = Some ([], LNum [c])" using Number(1) unfolding lex_step.simps lex_norm_def by (simp only: if_True if_False)
  then have first: "lex LNorm (c # r @ q) = lex (LNum [c]) (r @ q)" for q
    by (simp del: lex_step.simps)
  have "lex LNorm (c # r @ q) = map_option ((@) [TNum (c # r)]) (lex LNorm q)" if "delim q" for q
    unfolding first using lex_number [OF Number(2) that, of "[c]"] Number(3) by (simp only: rev.simps append.simps)
  then have "lexes (c # r) [TNum (c # r)]" unfolding lexes_def append_Cons by (intro allI impI)
  moreover have "float64_overflows ''0'' = False" by code_simp
  then have "parses n [TNum (c # r)]" by (auto simp: parses_def after_value_def)
  ultimately show ?case by blast
next
  case (Array ts n)
  show ?case
  proof (cases "ts = []")
    case True
    have "parses (Suc n) [TPunct CHR ''['', TPunct CHR '']'']" by (auto simp: parses_def parse_steps simp del: parse.simps)
    with True lexes_empty [of "CHR ''[''" "CHR '']''"] show ?thesis by (auto simp: array_text_def)
  next
    case False
    with Array elements_parse [of ts n] obtain tk where tk: "lexes (joined '','' ts) tk"
      and p: "\<And>vs fs ex rest. length fs + Suc n \<le> maxNestingDepth \<Longrightarrow> ex = EValue \<or> ex = EValueOrEnd
        \<Longrightarrow> \<exists>v. parse (FArr vs # fs) ex (map zero_tok tk @ TPunct CHR '']'' # rest) = after_value v fs rest" by blast
    have "\<exists>v. parse fs ex (map zero_tok (TPunct CHR ''['' # tk @ [TPunct CHR '']'']) @ rest) = after_value v fs rest"
      if "length fs + Suc n \<le> maxNestingDepth" "ex = EValue \<or> ex = EValueOrEnd" for fs ex rest
      using p [of fs EValueOrEnd "[]" rest] that by (simp add: parse_steps del: parse.simps)
    then have "parses (Suc n) (TPunct CHR ''['' # tk @ [TPunct CHR '']''])" by (simp add: parses_def)
    then show ?thesis using lexes_bracketed [OF tk, of "CHR ''[''" "CHR '']''"] unfolding array_text_def by auto
  qed
next
  case (Object ms n)
  show ?case
  proof (cases "ms = []")
    case True
    have "parses (Suc n) [TPunct CHR ''{'', TPunct CHR ''}'']" by (auto simp: parses_def parse_steps simp del: parse.simps)
    with True lexes_empty [of "CHR ''{''" "CHR ''}''"] show ?thesis by (auto simp: fields_text_def)
  next
    case False
    with Object members_parse [of ms n] obtain tk where tk: "lexes (joined '','' (map member_text ms)) tk"
      and p: "\<And>vs k fs ex rest. length fs + Suc n \<le> maxNestingDepth \<Longrightarrow> ex = EKey \<or> ex = EKeyOrEnd
        \<Longrightarrow> \<exists>v. parse (FObj vs k # fs) ex (map zero_tok tk @ TPunct CHR ''}'' # rest) = after_value v fs rest" by blast
    have "\<exists>v. parse fs ex (map zero_tok (TPunct CHR ''{'' # tk @ [TPunct CHR ''}'']) @ rest) = after_value v fs rest"
      if "length fs + Suc n \<le> maxNestingDepth" "ex = EValue \<or> ex = EValueOrEnd" for fs ex rest
      using p [of fs EKeyOrEnd "[]" "[]" rest] that by (simp add: parse_steps del: parse.simps)
    then have "parses (Suc n) (TPunct CHR ''{'' # tk @ [TPunct CHR ''}''])" by (simp add: parses_def)
    then show ?thesis using lexes_bracketed [OF tk, of "CHR ''{''" "CHR ''}''"] unfolding fields_text_def by auto
  qed
qed

lemma piece_json_text [simp]:
  assumes "json_piece n t" "n \<le> maxNestingDepth"
  shows "json_text t = Some t"
proof -
  obtain ts where ts: "lexes t ts" "parses n ts" using piece_lexes [OF assms(1)] by blast
  have "lex LNorm t = Some ts" using ts(1) by (auto simp: lexes_def dest: spec [of _ "[]"])
  moreover have "\<exists>v. parse [] EValue (map zero_tok ts) = Some v"
    using ts(2) assms(2) unfolding parses_def
    by (auto simp: after_value_def add_value_def dest!: spec [of _ "[]"] spec [of _ EValue] simp del: parse.simps)
  moreover have "(\<lambda>t. case t of TNum _ \<Rightarrow> TNum ''0'' | _ \<Rightarrow> t) = zero_tok" by (rule ext) (simp add: zero_tok_def)
  ultimately show ?thesis using assms(1) by (auto simp: json_text_def)
qed

subsection \<open>Splitting\<close>

definition splits :: "char \<Rightarrow> nat \<Rightarrow> bytes \<Rightarrow> bool" where
  "splits sep d t \<longleftrightarrow> (\<forall>acc q. split_top sep d False acc (t @ q) = split_top sep d False (rev t @ acc) q)"

lemma splitsD: "splits sep d t \<Longrightarrow> split_top sep d False acc (t @ q) = split_top sep d False (rev t @ acc) q"
  by (simp add: splits_def)

lemma splits_append: "splits sep d s \<Longrightarrow> splits sep d t \<Longrightarrow> splits sep d (s @ t)"
  by (simp add: splits_def)

lemma splits_quote: "splits sep d (json_quote s)"
  using split_body [OF quote_steps_body, of sep d "CHR 0x22 # acc" "length s" s "CHR 0x22 # q" for acc q]
  by (simp add: json_quote_def splits_def)

lemma splits_chars:
  assumes "list_all (\<lambda>x. x \<notin> set ''{}[]'' \<and> x \<noteq> CHR 0x22 \<and> (x = sep \<longrightarrow> d \<noteq> 0)) t"
  shows "splits sep d t"
proof -
  have "split_top sep d False acc (t @ q) = split_top sep d False (rev t @ acc) q" for acc q
    using assms by (induction t arbitrary: acc) auto
  then show ?thesis by (simp add: splits_def)
qed

lemma splits_bracketed: "splits sep (Suc d) t \<Longrightarrow> l \<in> set ''{['' \<Longrightarrow> r \<in> set ''}]'' \<Longrightarrow> splits sep d ([l] @ t @ [r])"
  by (auto simp: splits_def)

text \<open>Inside brackets, a separator between the parts is an ordinary character.\<close>

lemma splits_joined:
  assumes "\<forall>t \<in> set ts. splits sep (Suc d) t"
  shows "splits sep (Suc d) (joined '','' ts)"
  using assms
proof (induction ts)
  case (Cons t ts)
  have "splits sep (Suc d) '',''" by (rule splits_chars) simp
  with Cons show ?case
    by (cases "ts = []") (auto simp: joined_Cons simp del: append_Cons intro!: splits_append)
qed (simp add: splits_def)

lemma splits_member:
  assumes "splits sep d t" "sep \<noteq> CHR '':'' \<or> d \<noteq> 0"
  shows "splits sep d (json_quote k @ '':'' @ t)"
  by (intro splits_append splits_quote assms(1) splits_chars) (use assms(2) in auto)

lemma piece_splits: "json_piece n t \<Longrightarrow> sep \<in> set '',:'' \<Longrightarrow> splits sep d t"
proof (induction arbitrary: d rule: json_piece.induct)
  case (Quoted n s)
  show ?case by (rule splits_quote)
next
  case (Word t n)
  then show ?case by (intro splits_chars) auto
next
  case (Number c r n)
  then have "list_all (\<lambda>x. is_digit x \<or> x \<in> set ''+-.eE'') (c # r)" by auto
  then have "list_all (\<lambda>x. x \<notin> set ''{}[]'' \<and> x \<noteq> CHR 0x22 \<and> (x = sep \<longrightarrow> d \<noteq> 0)) (c # r)"
    by (rule list.pred_mono_strong) (use Number.prems in auto)
  then show ?case by (rule splits_chars)
next
  case (Array ts n)
  then show ?case unfolding array_text_def by (intro splits_bracketed splits_joined) auto
next
  case (Object ms n)
  have "splits sep (Suc d) (json_quote k @ '':'' @ t)" if "(k, t) \<in> set ms" for k t
    using Object that by (intro splits_member) force+
  then have "\<forall>t \<in> set (map member_text ms). splits sep (Suc d) t" by auto
  then show ?case unfolding fields_text_def by (intro splits_bracketed splits_joined) auto
qed

lemma split_elements:
  assumes "\<forall>t \<in> set ts. splits CHR '','' 0 t" "ts \<noteq> []"
  shows "split_top CHR '','' 0 False [] (joined '','' ts) = ts"
proof -
  have "split_top CHR '','' 0 False acc (joined '','' ts) = (rev acc @ hd ts) # tl ts" for acc
    using assms(2,1)
  proof (induction ts arbitrary: acc rule: list_nonempty_induct)
    case (single t)
    then show ?case using splitsD [of "CHR '',''" 0 t acc "[]"] by simp
  next
    case (cons t ts)
    then show ?case using splitsD [of "CHR '',''" 0 t acc "'','' @ joined '','' ts"] by (simp add: joined_Cons)
  qed
  then show ?thesis using assms(2) by simp
qed

lemma trim_nonempty: "s \<noteq> [] \<Longrightarrow> \<not> is_ws (hd s) \<Longrightarrow> trim_ws s \<noteq> []"
  by (cases s) (auto simp: trim_ws_def dropWhile_eq_Nil_conv)

lemma joined_hd: "ts \<noteq> [] \<Longrightarrow> hd ts \<noteq> [] \<Longrightarrow> joined sep ts \<noteq> [] \<and> hd (joined sep ts) = hd (hd ts)"
  by (cases ts; cases "tl ts") auto

lemma raw_elems_bracketed:
  assumes "\<forall>t \<in> set ts. splits CHR '','' 0 t \<and> trim_ws t = t \<and> t \<noteq> [] \<and> \<not> is_ws (hd t)"
  shows "raw_elems ([l] @ joined '','' ts @ [r]) = ts"
proof (cases "ts = []")
  case False
  then have "hd ts \<in> set ts" by simp
  then have "trim_ws (joined '','' ts) \<noteq> []"
    using assms joined_hd [OF False, of "'',''"] by (intro trim_nonempty) auto
  moreover have "map trim_ws ts = ts" using assms by (simp add: map_idI)
  ultimately show ?thesis using assms False by (simp add: raw_elems_def Let_def split_elements)
qed (simp add: raw_elems_def trim_ws_def)

lemma raw_elems_array [simp]: "\<forall>t \<in> set ts. json_piece n t \<Longrightarrow> raw_elems (array_text ts) = ts"
  unfolding array_text_def
  by (rule raw_elems_bracketed) (use json_piece_ends piece_splits [where sep = "CHR '',''" and d = 0] trim_piece in fastforce)

lemma raw_member_text:
  assumes "json_piece n t"
  shows "raw_member (json_quote k @ '':'' @ t) = (clean k, t)"
proof -
  have "split_top CHR '':'' 0 False [] (json_quote k @ '':'' @ t) = json_quote k # split_top CHR '':'' 0 False [] t"
    using splitsD [OF splits_quote, of "CHR '':''" 0 "[]" k "'':'' @ t"] by simp
  then show ?thesis using assms trim_piece [OF Quoted] by (simp add: raw_member_def)
qed

lemma member_ends: "json_piece n t \<Longrightarrow> trim_ws (json_quote k @ '':'' @ t) = json_quote k @ '':'' @ t"
  using json_piece_ends [of n t] json_piece_ends [OF Quoted, of k]
  by (simp add: trim_ws_def dropWhile_id hd_rev hd_append)

lemma raw_members_object:
  assumes "\<forall>t \<in> snd ` set ms. json_piece n t"
  shows "map raw_member (raw_elems (fields_text ms)) = map (\<lambda>(k, t). (clean k, t)) ms"
proof -
  have "raw_elems (fields_text ms) = map member_text ms"
    unfolding fields_text_def
  proof (rule raw_elems_bracketed, rule ballI)
    fix m assume "m \<in> set (map member_text ms)"
    then obtain k t where m: "m = json_quote k @ '':'' @ t" "json_piece n t" using assms by auto
    have "splits CHR '','' 0 m" unfolding m(1) by (intro splits_member piece_splits [OF m(2)]) auto
    moreover have "trim_ws m = m" unfolding m(1) by (rule member_ends [OF m(2)])
    moreover have "m \<noteq> []" "hd m = CHR 0x22" by (simp_all add: m json_quote_def)
    ultimately show "splits CHR '','' 0 m \<and> trim_ws m = m \<and> m \<noteq> [] \<and> \<not> is_ws (hd m)" by simp
  qed
  moreover have "raw_member (json_quote k @ '':'' @ t) = (clean k, t)" if "(k, t) \<in> set ms" for k t
    using assms that by (intro raw_member_text) force
  ultimately show ?thesis by auto
qed

lemma decode_fields:
  assumes "\<forall>t \<in> snd ` set ms. json_piece n t" "n < maxNestingDepth"
  shows "decode_object (fields_text ms) = Some (map (\<lambda>(k, t). (clean k, t)) ms)"
proof -
  have "json_piece (Suc n) (fields_text ms)" using assms(1) by (rule Object)
  then have "json_text (fields_text ms) = Some (fields_text ms)" using assms(2) by simp
  then show ?thesis using raw_members_object [OF assms(1)] by (simp add: decode_object_def fields_text_def)
qed

subsection \<open>Compaction\<close>

definition compact :: "bytes \<Rightarrow> bool" where
  "compact t \<longleftrightarrow> (\<forall>q. compact_text False (t @ q) = t @ compact_text False q)"

lemma compact_append: "compact s \<Longrightarrow> compact t \<Longrightarrow> compact (s @ t)"
  by (simp add: compact_def)

lemma compact_chars: "list_all (\<lambda>x. \<not> is_ws x \<and> x \<noteq> CHR 0x22) t \<Longrightarrow> compact t"
  unfolding compact_def by (induction t) auto

lemma compact_quote: "compact (json_quote s)"
  using compact_body [OF quote_steps_body, of "length s" s "CHR 0x22 # q" for q] by (simp add: compact_def json_quote_def)

lemma compact_joined: "\<forall>t \<in> set ts. compact t \<Longrightarrow> compact (joined '','' ts)"
proof (induction ts)
  case (Cons t ts)
  have "compact '',''" by (rule compact_chars) simp
  with Cons show ?case by (cases "ts = []") (auto simp: joined_Cons simp del: append_Cons intro!: compact_append)
qed (simp add: compact_def)

lemma compact_piece: "json_piece n t \<Longrightarrow> compact t"
proof (induction rule: json_piece.induct)
  case (Quoted n s)
  show ?case by (rule compact_quote)
next
  case (Word t n)
  then show ?case by (intro compact_chars) auto
next
  case (Number c r n)
  then have "list_all (\<lambda>x. is_digit x \<or> x \<in> set ''+-.eE'') (c # r)" by auto
  then have "list_all (\<lambda>x. \<not> is_ws x \<and> x \<noteq> CHR 0x22) (c # r)" by (rule list.pred_mono_strong) auto
  then show ?case by (rule compact_chars)
next
  case (Array ts n)
  then show ?case unfolding array_text_def by (intro compact_append compact_joined compact_chars) auto
next
  case (Object ms n)
  have "compact (json_quote k @ '':'' @ t)" if "(k, t) \<in> set ms" for k t
    using Object that by (intro compact_append compact_quote compact_chars [of "'':''"]) force+
  then show ?case unfolding fields_text_def by (intro compact_append compact_joined compact_chars) auto
qed

lemma marshal_raw_piece [simp]:
  assumes "json_piece n t" "n \<le> maxNestingDepth"
  shows "marshal_raw t = Some t"
  using assms json_piece_ends [OF assms(1)] compact_piece [OF assms(1)] piece_json_text [OF assms]
  unfolding compact_def by (auto simp: marshal_raw_def dest: spec [of _ "[]"])

subsection \<open>Numbers\<close>

lemma digit_is_digit: "is_digit (digit n)"
proof -
  have "n mod 10 < length ''0123456789''" by simp
  then have "digit n \<in> set ''0123456789''" unfolding digit_def by (rule nth_mem)
  then show ?thesis by auto
qed

lemma dec_nat_digits: "list_all is_digit (dec_nat n) \<and> dec_nat n \<noteq> []"
proof (induction n rule: dec_nat.induct)
  case (1 n)
  then show ?case using digit_is_digit by (subst dec_nat.simps) (auto simp: dec_nat.simps [of n])
qed

lemma dec_nat_lead: "1 < length (dec_nat n) \<Longrightarrow> hd (dec_nat n) \<noteq> CHR ''0''"
proof (induction n rule: dec_nat.induct)
  case (1 n)
  show ?case
  proof (cases "n < 10")
    case True
    then show ?thesis using 1(2) by (simp add: dec_nat.simps [of n])
  next
    case False
    then have d: "dec_nat n = dec_nat (n div 10) @ [digit n]" by (simp add: dec_nat.simps [of n])
    have "hd (dec_nat (n div 10)) \<noteq> CHR ''0''"
    proof (cases "1 < length (dec_nat (n div 10))")
      case True
      then show ?thesis using 1(1) False by simp
    next
      case s: False
      have "n div 10 < 10"
      proof (rule ccontr)
        assume "\<not> n div 10 < 10"
        then have "dec_nat (n div 10) = dec_nat (n div 10 div 10) @ [digit (n div 10)]" by (subst dec_nat.simps) simp
        then show False using s dec_nat_digits [of "n div 10 div 10"] by (cases "dec_nat (n div 10 div 10)") auto
      qed
      then have e: "dec_nat (n div 10) = [digit (n div 10)]" by (simp add: dec_nat.simps [of "n div 10"])
      have "n div 10 \<in> {1, 2, 3, 4, 5, 6, 7, 8, 9}" using False \<open>n div 10 < 10\<close> by (simp; presburger)
      then show ?thesis unfolding e by (auto simp: digit_def)
    qed
    then show ?thesis using d dec_nat_digits [of "n div 10"] by (cases "dec_nat (n div 10)") auto
  qed
qed

lemma digits_snoc: "digits_int (ds @ [c]) = 10 * digits_int ds + (byte c - 48)"
  by (simp add: digits_int_def)

lemma byte_digit: "byte (digit n) - 48 = int (n mod 10)"
proof -
  have "n mod 10 \<in> {0, 1, 2, 3, 4, 5, 6, 7, 8, 9}" by (simp; presburger)
  then show ?thesis by (auto simp: digit_def)
qed

lemma digits_dec_nat: "digits_int (dec_nat n) = int n"
proof (induction n rule: dec_nat.induct)
  case (1 n)
  show ?case
  proof (cases "n < 10")
    case True
    then have "digits_int (dec_nat n) = byte (digit n) - 48" by (simp add: dec_nat.simps [of n] digits_int_def)
    then show ?thesis using True by (simp add: byte_digit)
  next
    case False
    then have "digits_int (dec_nat n) = 10 * int (n div 10) + int (n mod 10)"
      using 1 by (simp add: dec_nat.simps [of n] digits_snoc byte_digit)
    then show ?thesis by presburger
  qed
qed

lemma takeWhile_digits: "list_all is_digit ds \<Longrightarrow> takeWhile is_digit ds = ds \<and> dropWhile is_digit ds = []"
  by (simp only: list_all_iff takeWhile_eq_all_conv dropWhile_eq_Nil_conv simp_thms)

lemma no_minus: "hd (dec_nat n) \<noteq> CHR ''-''" "dec_nat n \<noteq> []" "list_all is_digit (dec_nat n)"
proof -
  show n: "dec_nat n \<noteq> []" and d: "list_all is_digit (dec_nat n)" using dec_nat_digits by blast+
  then have h: "is_digit (hd (dec_nat n))" by (metis list_all_iff hd_in_set)
  show "hd (dec_nat n) \<noteq> CHR ''-''"
  proof
    assume "hd (dec_nat n) = CHR ''-''"
    with h have "is_digit (CHR ''-'')" by (simp only:)
    then show False by simp
  qed
qed

lemma valid_digits:
  assumes "list_all is_digit ds" "ds \<noteq> []" "hd ds \<noteq> CHR ''-''" "1 < length ds \<longrightarrow> hd ds \<noteq> CHR ''0''"
  shows "valid_number ds" "valid_number (CHR ''-'' # ds)"
proof -
  have t: "takeWhile is_digit ds = ds" "dropWhile is_digit ds = []" using takeWhile_digits [OF assms(1)] by blast+
  have "num_parts ds = (False, ds, None, None)" "num_parts (CHR ''-'' # ds) = (True, ds, None, None)"
    using assms(2,3) unfolding num_parts_def Let_def by (simp_all only: t list.sel simp_thms if_True if_False Let_def prod.case list.discI)
  then show "valid_number ds" "valid_number (CHR ''-'' # ds)"
    using assms by (simp_all add: valid_number_def all_digits_def)
qed

lemma valid_dec_int: "valid_number (dec_int i)"
  using valid_digits [OF no_minus(3,2,1)] dec_nat_lead by (simp add: dec_int_def)

lemma dec_int_piece [simp, intro]: "json_piece n (dec_int i)"
proof -
  let ?P = "\<lambda>x. is_digit x \<or> x \<in> set ''+-.eE''"
  have "list_all ?P (dec_nat k)" for k by (rule list.pred_mono_strong [OF no_minus(3)]) simp
  then have l: "list_all ?P (dec_int i)" by (simp add: dec_int_def)
  obtain c r where d: "dec_int i = c # r" using no_minus(2) by (cases "dec_int i") (simp_all add: dec_int_def split: if_splits)
  have "is_digit c \<or> c = CHR ''-''"
  proof (cases "i < 0")
    case False
    then have "dec_nat (nat i) = c # r" using d by (simp add: dec_int_def)
    then show ?thesis using no_minus(3) [of "nat i"] by simp
  qed (use d in \<open>simp add: dec_int_def\<close>)
  then have "json_piece n (c # r)"
    by (rule Number) (use l valid_dec_int [of i] d in simp_all)
  then show ?thesis by (simp only: d)
qed

lemma int_literal_dec_int [simp]:
  assumes "- (2 ^ 63) \<le> i" "i < 2 ^ 63"
  shows "int_literal (dec_int i) = Some i"
proof (cases "i < 0")
  case True
  then have "dec_int i = CHR ''-'' # dec_nat (nat (- i))" by (simp add: dec_int_def)
  then show ?thesis using True assms no_minus(2,3) by (simp add: int_literal_def all_digits_def digits_dec_nat)
next
  case False
  then have "dec_int i = dec_nat (nat i)" by (simp add: dec_int_def)
  then show ?thesis using False assms no_minus by (simp add: int_literal_def all_digits_def digits_dec_nat)
qed

section \<open>Fields\<close>

text \<open>Names as the program's tags have them: no capitals, only ASCII.\<close>

definition lower_key :: "string \<Rightarrow> bool" where
  "lower_key k \<longleftrightarrow> list_all (\<lambda>c. byte c < 128 \<and> (byte c < 65 \<or> 90 < byte c)) k"

lemma lower_key_clean: "lower_key k \<Longrightarrow> clean k = k"
  unfolding lower_key_def by (rule clean_ascii) (auto elim: list.pred_mono_strong)

lemma lower_key_fold: "lower_key k \<Longrightarrow> fold_name k = k"
  unfolding lower_key_def by (induction k) auto

lemma those_map_Some: "(\<And>x. x \<in> set xs \<Longrightarrow> f x = Some (g x)) \<Longrightarrow> those (map f xs) = Some (map g xs)"
  by (induction xs) auto

lemma quote_head: "hd (json_quote s) = CHR 0x22" "json_quote s \<noteq> ''null''" "json_quote s \<noteq> []"
  by (simp_all add: json_quote_def)

lemma string_field_quote: "field_raws name ms = [json_quote s] \<Longrightarrow> string_field name ms = Some (clean s)"
  by (simp add: string_field_def set_string_def quote_head)

lemma string_field_none: "field_raws name ms = [] \<Longrightarrow> string_field name ms = Some []"
  by (simp add: string_field_def)

lemma dec_int_not_null: "dec_int i \<noteq> ''null''"
  using dec_int_chars [of i] by (auto simp: number_chars_def)

lemma int_field_dec: "field_raws name ms = [dec_int i] \<Longrightarrow> - (2 ^ 63) \<le> i \<Longrightarrow> i < 2 ^ 63 \<Longrightarrow> int_field name ms = Some i"
  using dec_int_not_null [of i] by (simp add: int_field_def set_int_def)

lemma raw_field_one: "field_raws name ms = [r] \<Longrightarrow> raw_field name ms = r" "field_raws name ms = [] \<Longrightarrow> raw_field name ms = []"
  by (simp_all add: raw_field_def)

lemmas field_reads = string_field_quote string_field_none int_field_dec raw_field_one

lemma decode_lower:
  assumes "\<forall>(k, t) \<in> set ms. lower_key k \<and> json_piece n t" "n < maxNestingDepth"
  shows "decode_object (fields_text ms) = Some ms"
proof -
  have "map (\<lambda>(k, t). (clean k, t)) ms = ms" using assms(1) by (auto simp: lower_key_clean intro!: map_idI)
  moreover have "\<forall>t \<in> snd ` set ms. json_piece n t" using assms(1) by auto
  ultimately show ?thesis using decode_fields [of ms n] assms(2) by simp
qed

lemma field_raws_lower:
  "\<forall>k \<in> fst ` set ms. lower_key k \<Longrightarrow> lower_key name \<Longrightarrow> field_raws name ms = map snd (filter (\<lambda>(k, _). k = name) ms)"
  by (induction ms) (auto simp: field_raws_def lower_key_fold)

subsection \<open>Sets and maps in key order\<close>

lemma insort_last: "\<forall>x \<in> set m. fst x < k \<Longrightarrow> insort_key fst (k, v) m = m @ [(k, v)]"
  by (induction m) auto

lemma insort_last': "\<forall>x \<in> set m. x < k \<Longrightarrow> insort k m = m @ [k]"
  by (induction m) auto

lemma fold_mput_sorted:
  "sorted (map fst m) \<Longrightarrow> distinct (map fst m) \<Longrightarrow> fold (\<lambda>(k, v). mput k v) m [] = m"
proof (induction m rule: rev_induct)
  case (snoc x m)
  obtain k v where x: "x = (k, v)" by (cases x)
  have le: "fst y \<le> k \<and> fst y \<noteq> k" if "y \<in> set m" for y using snoc.prems that by (auto simp: x sorted_append)
  then have "fst y < k" if "y \<in> set m" for y using that by (simp only: less_le simp_thms)
  moreover have "filter (\<lambda>(k', _). k' \<noteq> k) m = m" using le by (intro filter_True) (simp add: case_prod_unfold)
  ultimately show ?case using snoc by (simp add: x sorted_append mput_def insort_last)
qed simp

lemma fold_sput_sorted: "sorted xs \<Longrightarrow> distinct xs \<Longrightarrow> fold sput xs [] = xs"
proof (induction xs rule: rev_induct)
  case (snoc k xs)
  have le: "y \<le> k \<and> y \<noteq> k" if "y \<in> set xs" for y using snoc.prems that by (auto simp: sorted_append)
  then have "y < k" if "y \<in> set xs" for y using that by (simp only: less_le simp_thms)
  moreover have "filter (\<lambda>k'. k' \<noteq> k) xs = xs" using le by (intro filter_True) blast
  ultimately show ?case using snoc by (simp add: sorted_append sput_def insort_last')
qed simp

end
