(* ===== verification/Node_Sink.thy ===== *)
theory Node_Sink
  imports Json_Text Dag_Runner Event_Store
begin

text \<open>
  The event sink of the runner, \<open>internal/app/api/node_sink.go\<close>: every call reads the version of the job's stream, writes
  its payload as JSON and appends one event at that version.  Also the recorder of effects, and the calls of the runner and
  the tool node as calls of the sink.

  The job store behind the sink is a pair of operations on a world of any type, which a context comes closed into.  A slice
  of bytes that is empty is the nil slice.
\<close>

record ('w, 'e) JobLog =
  JL_ListEvents :: "'w \<Rightarrow> string \<Rightarrow> 'e + JobEvent list \<times> int"
  JL_Append :: "'w \<Rightarrow> string \<Rightarrow> int \<Rightarrow> JobEvent \<Rightarrow> 'e option \<times> 'w"

datatype 'e sink_error = StoreError 'e | MarshalError

section \<open>Payloads\<close>

text \<open>
  \<open>json.Marshal\<close> of a map whose values have the given texts, \<open>None\<close> where a value has none; keys are written in order.  Of
  a struct, the same without the order.
\<close>

definition json_struct :: "(string \<times> bytes option) list \<Rightarrow> bytes option" where
  "json_struct fs = map_option (\<lambda>ts. fields_text (zip (map fst fs) ts)) (those (map snd fs))"

definition json_map :: "(string \<times> bytes option) list \<Rightarrow> bytes option" where
  "json_map fs = json_struct (map_entries fs)"

abbreviation (input) jstr :: "string \<Rightarrow> bytes option" where
  "jstr s \<equiv> Some (json_quote s)"

abbreviation (input) jint :: "int \<Rightarrow> bytes option" where
  "jint i \<equiv> Some (dec_int i)"

abbreviation (input) jbool :: "bool \<Rightarrow> bytes option" where
  "jbool b \<equiv> Some (if b then ''true'' else ''false'')"

abbreviation (input) jstrs :: "string list \<Rightarrow> bytes option" where
  "jstrs xs \<equiv> Some (array_text (map json_quote xs))"

text \<open>A field that is only written when it is there.\<close>

definition when_set :: "bool \<Rightarrow> string \<Rightarrow> bytes option \<Rightarrow> (string \<times> bytes option) list" where
  "when_set b k t = (if b then [(k, t)] else [])"

section \<open>One append\<close>

text \<open>The payload is a function of the stream read; a payload that has no JSON form is an error.\<close>

definition sink_append ::
  "('w, 'e) JobLog option \<Rightarrow> string \<Rightarrow> EventType \<Rightarrow> (JobEvent list \<Rightarrow> int \<Rightarrow> bytes option) \<Rightarrow> 'w \<Rightarrow> 'e sink_error option \<times> 'w" where
  "sink_append lg jobID t payload w = (case lg of None \<Rightarrow> (None, w)
     | Some l \<Rightarrow>
         (case JL_ListEvents l w jobID of Inl e \<Rightarrow> (Some (StoreError e), w)
          | Inr (events, ver) \<Rightarrow>
              (case payload events ver of None \<Rightarrow> (Some MarshalError, w)
               | Some b \<Rightarrow>
                  (case JL_Append l w jobID ver (JobEvent0\<lparr>Ev_JobID := jobID, Ev_Type := t, Ev_Payload := b\<rparr>) of
                     (e, w') \<Rightarrow> (map_option StoreError e, w')))))"

text \<open>Where the error of \<open>json.Marshal\<close> is dropped, a payload without a JSON form is the nil slice.\<close>

definition or_nil :: "bytes option \<Rightarrow> bytes option" where
  "or_nil b = Some (case b of None \<Rightarrow> [] | Some x \<Rightarrow> x)"

section \<open>Steps\<close>

definition AppendNodeStarted :: "('w, 'e) JobLog option \<Rightarrow> string \<Rightarrow> string \<Rightarrow> int \<Rightarrow> string \<Rightarrow> 'w \<Rightarrow> 'e sink_error option \<times> 'w" where
  "AppendNodeStarted lg jobID nodeID attempt workerID = sink_append lg jobID NodeStarted (\<lambda>_ ver. json_map
     ([(''node_id'', jstr nodeID), (''trace_span_id'', jstr nodeID), (''parent_span_id'', jstr ''plan''), (''step_index'', jint (ver + 1))]
      @ when_set (0 < attempt) ''attempt'' (jint attempt)
      @ when_set (workerID \<noteq> []) ''worker_id'' (jstr workerID)))"

definition node_finished_fields ::
  "string \<Rightarrow> bytes \<Rightarrow> int \<Rightarrow> string \<Rightarrow> int \<Rightarrow> StepResultType \<Rightarrow> string \<Rightarrow> string \<Rightarrow> string \<Rightarrow> int \<Rightarrow> (string \<times> bytes option) list" where
  "node_finished_fields nodeID payloadResults durationMs state attempt resultType reason stepID inputHash ver =
     [(''node_id'', jstr nodeID), (''step_id'', jstr (if stepID = [] then nodeID else stepID)), (''trace_span_id'', jstr nodeID),
      (''parent_span_id'', jstr ''plan''), (''step_index'', jint (ver + 1)), (''result_type'', jstr (result_type_name resultType))]
     @ when_set (payloadResults \<noteq> []) ''payload_results'' (marshal_raw payloadResults)
     @ when_set (0 < durationMs) ''duration_ms'' (jint durationMs)
     @ when_set (state \<noteq> []) ''state'' (jstr state)
     @ when_set (0 < attempt) ''attempt'' (jint attempt)
     @ when_set (reason \<noteq> []) ''reason'' (jstr reason)
     @ when_set (inputHash \<noteq> []) ''input_hash'' (jstr inputHash)"

definition AppendNodeFinished ::
  "('w, 'e) JobLog option \<Rightarrow> string \<Rightarrow> string \<Rightarrow> bytes \<Rightarrow> int \<Rightarrow> string \<Rightarrow> int \<Rightarrow> StepResultType \<Rightarrow> string \<Rightarrow> string \<Rightarrow> string
     \<Rightarrow> 'w \<Rightarrow> 'e sink_error option \<times> 'w" where
  "AppendNodeFinished lg jobID nodeID payloadResults durationMs state attempt resultType reason stepID inputHash =
     sink_append lg jobID NodeFinished (\<lambda>_ ver. json_map
       (node_finished_fields nodeID payloadResults durationMs state attempt resultType reason stepID inputHash ver))"

record StateCheckpointOpts =
  SO_ChangedKeys :: "string list"
  SO_ToolSideEffects :: "string list"
  SO_ResourceRefs :: "string list"

definition AppendStateCheckpointed ::
  "('w, 'e) JobLog option \<Rightarrow> string \<Rightarrow> string \<Rightarrow> bytes \<Rightarrow> bytes \<Rightarrow> StateCheckpointOpts option \<Rightarrow> 'w \<Rightarrow> 'e sink_error option \<times> 'w" where
  "AppendStateCheckpointed lg jobID nodeID stateBefore stateAfter opts = sink_append lg jobID StateCheckpointed (\<lambda>_ ver. json_map
     ([(''node_id'', jstr nodeID), (''step_index'', jint (ver + 1)), (''state_after'', marshal_raw stateAfter)]
      @ when_set (stateBefore \<noteq> []) ''state_before'' (marshal_raw stateBefore)
      @ (case opts of None \<Rightarrow> []
         | Some so \<Rightarrow> when_set (SO_ChangedKeys so \<noteq> []) ''changed_keys'' (jstrs (SO_ChangedKeys so))
             @ when_set (SO_ToolSideEffects so \<noteq> []) ''tool_side_effects'' (jstrs (SO_ToolSideEffects so))
             @ when_set (SO_ResourceRefs so \<noteq> []) ''resource_refs'' (jstrs (SO_ResourceRefs so)))))"

definition AppendStepCommitted ::
  "('w, 'e) JobLog option \<Rightarrow> string \<Rightarrow> string \<Rightarrow> string \<Rightarrow> string \<Rightarrow> string \<Rightarrow> 'w \<Rightarrow> 'e sink_error option \<times> 'w" where
  "AppendStepCommitted lg jobID nodeID stepID commandID idempotencyKey =
     (let stepIDVal = (if stepID = [] then nodeID else stepID); cmdID = (if commandID = [] then stepIDVal else commandID)
      in sink_append lg jobID StepCommitted (\<lambda>_ _. json_map
           ([(''node_id'', jstr nodeID), (''step_id'', jstr stepIDVal), (''command_id'', jstr cmdID)]
            @ when_set (idempotencyKey \<noteq> []) ''idempotency_key'' (jstr idempotencyKey))))"

definition AppendStepCompensated ::
  "('w, 'e) JobLog option \<Rightarrow> string \<Rightarrow> string \<Rightarrow> string \<Rightarrow> string \<Rightarrow> string \<Rightarrow> 'w \<Rightarrow> 'e sink_error option \<times> 'w" where
  "AppendStepCompensated lg jobID nodeID stepID commandID reason = sink_append lg jobID StepCompensated (\<lambda>_ _. json_map
     ([(''node_id'', jstr nodeID), (''step_id'', jstr stepID), (''command_id'', jstr commandID)]
      @ when_set (reason \<noteq> []) ''reason'' (jstr reason)))"

definition AppendStateChanged ::
  "('w, 'e) JobLog option \<Rightarrow> string \<Rightarrow> string \<Rightarrow> StateChangeRecord list \<Rightarrow> 'w \<Rightarrow> 'e sink_error option \<times> 'w" where
  "AppendStateChanged lg jobID nodeID changes w = (if changes = [] then (None, w)
     else sink_append lg jobID StateChanged (\<lambda>_ ver. json_map
       [(''node_id'', jstr nodeID), (''step_index'', jint (ver + 1)), (''state_changes'', Some (array_text (map change_text changes)))]) w)"

definition AppendReasoningSnapshot :: "('w, 'e) JobLog option \<Rightarrow> string \<Rightarrow> bytes \<Rightarrow> 'w \<Rightarrow> 'e sink_error option \<times> 'w" where
  "AppendReasoningSnapshot lg jobID payload w = (if payload = [] then (None, w)
     else sink_append lg jobID ReasoningSnapshot (\<lambda>_ _. Some payload) w)"

section \<open>Waiting\<close>

definition wait_types :: "string list" where
  "wait_types = [''webhook'', ''human'', ''timer'', ''signal'', ''message'']"

definition AppendJobWaiting ::
  "('w, 'e) JobLog option \<Rightarrow> string \<Rightarrow> string \<Rightarrow> string \<Rightarrow> string \<Rightarrow> int \<times> gotime \<Rightarrow> string \<Rightarrow> bytes \<Rightarrow> 'w \<Rightarrow> 'e sink_error option \<times> 'w" where
  "AppendJobWaiting lg jobID nodeID waitKind reason expiresAt correlationKey resumptionContext =
     (let waitType = (if waitKind \<in> set wait_types then waitKind else ''signal'')
      in sink_append lg jobID JobWaiting (\<lambda>_ _. json_struct
           ([(''node_id'', jstr nodeID), (''wait_type'', jstr waitType), (''correlation_key'', jstr correlationKey),
             (''wait_kind'', jstr waitKind), (''reason'', jstr reason), (''expires_at'', jstr (rfc3339 (fst expiresAt) (snd expiresAt)))]
            @ when_set (resumptionContext \<noteq> []) ''resumption_context'' (marshal_raw resumptionContext))))"

section \<open>The end of the job\<close>

text \<open>
  The answer of a job: the output of its last external agent call that was committed with a readable output.  The output
  may itself be JSON with the answer in a field.
\<close>

definition ExternalAgentCallToolName :: string where
  "ExternalAgentCallToolName = ''external_agent_call''"

text \<open>The command id and the output of a committed command; the embedded struct of the result is decoded field by field.\<close>

definition decode_output :: "string option \<Rightarrow> bytes \<Rightarrow> string option" where
  "decode_output x r = (case x of None \<Rightarrow> None
     | Some old \<Rightarrow> if r = ''null'' then Some old
         else (case entries_of r of Some (Some ms) \<Rightarrow> foldl set_string (Some old) (field_raws ''output'' ms) | _ \<Rightarrow> None))"

definition committed_output :: "bytes \<Rightarrow> (string \<times> string) option" where
  "committed_output b = do {
     ms \<leftarrow> decode_object b;
     c \<leftarrow> string_field ''command_id'' ms;
     out \<leftarrow> foldl decode_output (Some []) (field_raws ''result'' ms);
     Some (c, out)
   }"

definition answer_of :: "string \<Rightarrow> string" where
  "answer_of out = (case Option.bind (decode_object out) (string_field ''answer'') of Some (c # a) \<Rightarrow> c # a | _ \<Rightarrow> out)"

fun last_answer :: "JobEvent list \<Rightarrow> string" where
  "last_answer [] = []"
| "last_answer (e # es) =
     (if Ev_Type e \<noteq> CommandCommitted \<or> Ev_Payload e = [] then last_answer es
      else (case committed_output (Ev_Payload e) of None \<Rightarrow> last_answer es
        | Some (c, out) \<Rightarrow> if out = [] \<or> c \<noteq> ExternalAgentCallToolName then last_answer es else answer_of out))"

definition extractAnswerFromCommittedEvents :: "JobEvent list \<Rightarrow> string" where
  "extractAnswerFromCommittedEvents events = last_answer (rev events)"

definition AppendJobCompleted :: "('w, 'e) JobLog option \<Rightarrow> string \<Rightarrow> string \<Rightarrow> 'w \<Rightarrow> 'e sink_error option \<times> 'w" where
  "AppendJobCompleted lg jobID goal = sink_append lg jobID JobCompleted (\<lambda>events _.
     (let answer = extractAnswerFromCommittedEvents events
      in or_nil (json_map ([(''goal'', jstr goal)]
           @ when_set (answer \<noteq> []) ''answer'' (jstr answer) @ when_set (answer \<noteq> []) ''result'' (jstr answer)))))"

text \<open>The step failure is its type and its node.\<close>

definition AppendJobFailed :: "('w, 'e) JobLog option \<Rightarrow> string \<Rightarrow> string \<Rightarrow> (StepResultType \<times> string) option \<Rightarrow> 'w \<Rightarrow> 'e sink_error option \<times> 'w" where
  "AppendJobFailed lg jobID reason sf = sink_append lg jobID JobFailed (\<lambda>_ _. or_nil (json_map
     ([(''error'', jstr reason)]
      @ (case sf of None \<Rightarrow> []
         | Some (t, nodeID) \<Rightarrow> [(''result_type'', jstr (result_type_name t)), (''node_id'', jstr nodeID), (''reason'', jstr reason)]))))"

section \<open>Tools\<close>

definition AppendToolCalled :: "('w, 'e) JobLog option \<Rightarrow> string \<Rightarrow> string \<Rightarrow> string \<Rightarrow> bytes \<Rightarrow> 'w \<Rightarrow> 'e sink_error option \<times> 'w" where
  "AppendToolCalled lg jobID nodeID toolName input = sink_append lg jobID ToolCalled (\<lambda>_ ver. json_map
     [(''node_id'', jstr nodeID), (''tool_name'', jstr toolName), (''input'', marshal_raw input),
      (''trace_span_id'', jstr (nodeID @ '':tool:'' @ toolName @ '':'' @ dec_int (ver + 1))), (''parent_span_id'', jstr nodeID),
      (''step_index'', jint (ver + 1))])"

definition AppendToolReturned :: "('w, 'e) JobLog option \<Rightarrow> string \<Rightarrow> string \<Rightarrow> bytes \<Rightarrow> 'w \<Rightarrow> 'e sink_error option \<times> 'w" where
  "AppendToolReturned lg jobID nodeID output = sink_append lg jobID ToolReturned (\<lambda>_ ver. json_map
     [(''node_id'', jstr nodeID), (''output'', marshal_raw output), (''parent_span_id'', jstr nodeID), (''step_index'', jint (ver + 1))])"

definition AppendToolResultSummarized ::
  "('w, 'e) JobLog option \<Rightarrow> string \<Rightarrow> string \<Rightarrow> string \<Rightarrow> string \<Rightarrow> string \<Rightarrow> bool \<Rightarrow> 'w \<Rightarrow> 'e sink_error option \<times> 'w" where
  "AppendToolResultSummarized lg jobID nodeID toolName summary errMsg idempotent = sink_append lg jobID ToolResultSummarized
     (\<lambda>_ ver. json_map ([(''node_id'', jstr nodeID), (''tool_name'', jstr toolName), (''step_index'', jint (ver + 1))]
       @ when_set (summary \<noteq> []) ''summary'' (jstr summary)
       @ when_set (errMsg \<noteq> []) ''error'' (jstr errMsg)
       @ [(''idempotent'', jbool idempotent)]))"

definition AppendCommandEmitted ::
  "('w, 'e) JobLog option \<Rightarrow> string \<Rightarrow> string \<Rightarrow> string \<Rightarrow> string \<Rightarrow> bytes \<Rightarrow> 'w \<Rightarrow> 'e sink_error option \<times> 'w" where
  "AppendCommandEmitted lg jobID nodeID commandID kind input = sink_append lg jobID CommandEmitted (\<lambda>_ ver. json_map
     [(''node_id'', jstr nodeID), (''command_id'', jstr commandID), (''kind'', jstr kind), (''input'', marshal_raw input),
      (''step_index'', jint (ver + 1))])"

definition AppendCommandCommitted ::
  "('w, 'e) JobLog option \<Rightarrow> string \<Rightarrow> string \<Rightarrow> string \<Rightarrow> bytes \<Rightarrow> string \<Rightarrow> 'w \<Rightarrow> 'e sink_error option \<times> 'w" where
  "AppendCommandCommitted lg jobID nodeID commandID result inputHash = sink_append lg jobID CommandCommitted (\<lambda>_ ver. json_map
     ([(''node_id'', jstr nodeID), (''command_id'', jstr commandID), (''step_id'', jstr commandID), (''result'', marshal_raw result),
       (''step_index'', jint (ver + 1))] @ when_set (inputHash \<noteq> []) ''input_hash'' (jstr inputHash)))"

section \<open>Invocations and the view of runs\<close>

text \<open>The store of runs behind the sink; it is only told, and its errors, but for a missing run, are dropped.\<close>

record ToolCall =
  TL_ID :: string
  TL_RunID :: string
  TL_StepID :: string
  TL_ToolName :: string
  TL_Status :: string
  TL_IdempotencyKey :: string
  TL_ResponsePayload :: "gomap option"
  TL_ErrorMessage :: string

record 'w RunView =
  RV_Missing :: "string \<Rightarrow> 'w \<Rightarrow> bool"
  RV_CreateRun :: "string \<Rightarrow> string \<Rightarrow> gomap \<Rightarrow> 'w \<Rightarrow> 'w"
  RV_UpsertToolCall :: "ToolCall \<Rightarrow> 'w \<Rightarrow> 'w"

record ToolInvocationStartedPayload =
  TS_InvocationID :: string
  TS_ToolName :: string
  TS_ArgumentsHash :: string
  TS_IdempotencyKey :: string
  TS_StartedAt :: string
  TS_ToolVersion :: string
  TS_RequestSchemaHash :: string

record ToolInvocationFinishedPayload =
  TF_InvocationID :: string
  TF_IdempotencyKey :: string
  TF_Outcome :: string
  TF_Result :: bytes
  TF_Error :: string
  TF_FinishedAt :: string
  TF_ResponseSchemaHash :: string

definition run_view_started :: "'w RunView option \<Rightarrow> string \<Rightarrow> string \<Rightarrow> ToolInvocationStartedPayload \<Rightarrow> 'w \<Rightarrow> 'w" where
  "run_view_started rv jobID nodeID p w = (case rv of None \<Rightarrow> w
     | Some v \<Rightarrow>
         RV_UpsertToolCall v \<lparr>TL_ID = TS_InvocationID p, TL_RunID = jobID, TL_StepID = nodeID, TL_ToolName = TS_ToolName p,
             TL_Status = ''STARTED'', TL_IdempotencyKey = TS_IdempotencyKey p, TL_ResponsePayload = None, TL_ErrorMessage = []\<rparr>
           (if RV_Missing v jobID w then RV_CreateRun v jobID ''agent_job'' [(''job_id'', GStr jobID)] w else w))"

definition AppendToolInvocationStarted ::
  "('w, 'e) JobLog option \<Rightarrow> 'w RunView option \<Rightarrow> string \<Rightarrow> string \<Rightarrow> ToolInvocationStartedPayload option \<Rightarrow> 'w \<Rightarrow> 'e sink_error option \<times> 'w" where
  "AppendToolInvocationStarted lg rv jobID nodeID payload w = (case payload of None \<Rightarrow> (None, w)
     | Some p \<Rightarrow>
         if lg = None then (None, w)
         else (case sink_append lg jobID ToolInvocationStarted (\<lambda>_ _. json_map
               ([(''node_id'', jstr nodeID), (''invocation_id'', jstr (TS_InvocationID p)), (''tool_name'', jstr (TS_ToolName p)),
                 (''idempotency_key'', jstr (TS_IdempotencyKey p)), (''started_at'', jstr (TS_StartedAt p))]
                @ when_set (TS_ArgumentsHash p \<noteq> []) ''arguments_hash'' (jstr (TS_ArgumentsHash p)))) w of
             (Some e, w') \<Rightarrow> (Some e, w')
           | (None, w') \<Rightarrow> (None, run_view_started rv jobID nodeID p w')))"

definition base64_digit :: "int \<Rightarrow> char" where
  "base64_digit n = ''ABCDEFGHIJKLMNOPQRSTUVWXYZabcdefghijklmnopqrstuvwxyz0123456789+/'' ! nat (n mod 64)"

fun base64_text :: "bytes \<Rightarrow> string" where
  "base64_text [] = []"
| "base64_text [a] = [base64_digit (byte a div 4), base64_digit (byte a * 16), CHR ''='', CHR ''='']"
| "base64_text [a, b] = [base64_digit (byte a div 4), base64_digit (byte a * 16 + byte b div 16), base64_digit (byte b * 4), CHR ''='']"
| "base64_text (a # b # c # s) = [base64_digit (byte a div 4), base64_digit (byte a * 16 + byte b div 16),
     base64_digit (byte b * 4 + byte c div 64), base64_digit (byte c)] @ base64_text s"

text \<open>A result that is \<open>null\<close> leaves the decoded map nil.\<close>

definition response_payload :: "bytes \<Rightarrow> gomap option" where
  "response_payload r = (if r = [] then Some []
     else (case decode_map r of MapOf m \<Rightarrow> Some m | NilMap \<Rightarrow> None | DecodeError \<Rightarrow> Some [(''result_base64'', GStr (base64_text r))]))"

definition call_status :: "string \<Rightarrow> string" where
  "call_status outcome = (if outcome = ''success'' then ''SUCCEEDED'' else if outcome = ''timeout'' then ''TIMEOUT'' else ''FAILED'')"

definition run_view_finished :: "'w RunView option \<Rightarrow> string \<Rightarrow> string \<Rightarrow> ToolInvocationFinishedPayload \<Rightarrow> 'w \<Rightarrow> 'w" where
  "run_view_finished rv jobID nodeID p w = (case rv of None \<Rightarrow> w
     | Some v \<Rightarrow>
         RV_UpsertToolCall v \<lparr>TL_ID = TF_InvocationID p, TL_RunID = jobID, TL_StepID = nodeID, TL_ToolName = [],
           TL_Status = call_status (TF_Outcome p), TL_IdempotencyKey = [], TL_ResponsePayload = response_payload (TF_Result p),
           TL_ErrorMessage = TF_Error p\<rparr> w)"

definition invocation_finished_fields :: "string \<Rightarrow> ToolInvocationFinishedPayload \<Rightarrow> (string \<times> bytes option) list" where
  "invocation_finished_fields nodeID p =
     [(''node_id'', jstr nodeID), (''invocation_id'', jstr (TF_InvocationID p)), (''idempotency_key'', jstr (TF_IdempotencyKey p)),
      (''outcome'', jstr (TF_Outcome p)), (''finished_at'', jstr (TF_FinishedAt p))]
     @ when_set (TF_Result p \<noteq> []) ''result'' (marshal_raw (TF_Result p))
     @ when_set (TF_Error p \<noteq> []) ''error'' (jstr (TF_Error p))"

definition AppendToolInvocationFinished ::
  "('w, 'e) JobLog option \<Rightarrow> 'w RunView option \<Rightarrow> string \<Rightarrow> string \<Rightarrow> ToolInvocationFinishedPayload option \<Rightarrow> 'w \<Rightarrow> 'e sink_error option \<times> 'w" where
  "AppendToolInvocationFinished lg rv jobID nodeID payload w = (case payload of None \<Rightarrow> (None, w)
     | Some p \<Rightarrow>
         if lg = None then (None, w)
         else (case sink_append lg jobID ToolInvocationFinished (\<lambda>_ _. json_map (invocation_finished_fields nodeID p)) w of
             (Some e, w') \<Rightarrow> (Some e, w')
           | (None, w') \<Rightarrow> (None, run_view_finished rv jobID nodeID p w')))"

section \<open>Memory and plans in the trace\<close>

definition AppendMemoryRead ::
  "('w, 'e) JobLog option \<Rightarrow> string \<Rightarrow> string \<Rightarrow> int \<Rightarrow> string \<Rightarrow> string \<Rightarrow> string \<Rightarrow> 'w \<Rightarrow> 'e sink_error option \<times> 'w" where
  "AppendMemoryRead lg jobID nodeID stepIndex memoryType keyOrScope summary = sink_append lg jobID MemoryRead (\<lambda>_ _. json_struct
     (when_set (jobID \<noteq> []) ''job_id'' (jstr jobID) @ when_set (nodeID \<noteq> []) ''node_id'' (jstr nodeID)
      @ when_set (stepIndex \<noteq> 0) ''step_index'' (jint stepIndex) @ [(''memory_type'', jstr memoryType)]
      @ when_set (keyOrScope \<noteq> []) ''key_or_scope'' (jstr keyOrScope) @ when_set (summary \<noteq> []) ''summary'' (jstr summary)))"

definition AppendMemoryWrite ::
  "('w, 'e) JobLog option \<Rightarrow> string \<Rightarrow> string \<Rightarrow> int \<Rightarrow> string \<Rightarrow> string \<Rightarrow> string \<Rightarrow> 'w \<Rightarrow> 'e sink_error option \<times> 'w" where
  "AppendMemoryWrite lg jobID nodeID stepIndex memoryType keyOrScope summary = sink_append lg jobID MemoryWrite (\<lambda>_ _. json_struct
     (when_set (jobID \<noteq> []) ''job_id'' (jstr jobID) @ when_set (nodeID \<noteq> []) ''node_id'' (jstr nodeID)
      @ when_set (stepIndex \<noteq> 0) ''step_index'' (jint stepIndex) @ [(''memory_type'', jstr memoryType)]
      @ when_set (keyOrScope \<noteq> []) ''key_or_scope'' (jstr keyOrScope) @ when_set (summary \<noteq> []) ''summary'' (jstr summary)))"

definition AppendPlanEvolution :: "('w, 'e) JobLog option \<Rightarrow> string \<Rightarrow> int \<Rightarrow> string \<Rightarrow> 'w \<Rightarrow> 'e sink_error option \<times> 'w" where
  "AppendPlanEvolution lg jobID planVersion diffSummary = sink_append lg jobID PlanEvolution (\<lambda>_ _. json_struct
     (when_set (planVersion \<noteq> 0) ''plan_version'' (jint planVersion) @ when_set (diffSummary \<noteq> []) ''diff_summary'' (jstr diffSummary)))"

section \<open>Recorded effects\<close>

text \<open>Nanoseconds since 1970, defined by Go for the years 1678 to 2262.\<close>

definition UnixNano :: "gotime \<Rightarrow> int" where
  "UnixNano t = t - 62135596800 * Second"

definition RecordTime :: "('w, 'e) JobLog option \<Rightarrow> string \<Rightarrow> string \<Rightarrow> gotime \<Rightarrow> 'w \<Rightarrow> 'e sink_error option \<times> 'w" where
  "RecordTime lg jobID effectID t = sink_append lg jobID TimerFired (\<lambda>_ _. or_nil (json_map
     [(''effect_id'', jstr effectID), (''unix_nano'', jint (UnixNano t))]))"

definition RecordUUID :: "('w, 'e) JobLog option \<Rightarrow> string \<Rightarrow> string \<Rightarrow> string \<Rightarrow> 'w \<Rightarrow> 'e sink_error option \<times> 'w" where
  "RecordUUID lg jobID effectID uuid = sink_append lg jobID UUIDRecorded (\<lambda>_ _. or_nil (json_map
     [(''effect_id'', jstr effectID), (''uuid'', jstr uuid)]))"

definition RecordHTTP :: "('w, 'e) JobLog option \<Rightarrow> string \<Rightarrow> string \<Rightarrow> bytes \<Rightarrow> bytes \<Rightarrow> 'w \<Rightarrow> 'e sink_error option \<times> 'w" where
  "RecordHTTP lg jobID effectID req resp = sink_append lg jobID HTTPRecorded (\<lambda>_ _. or_nil (json_map
     [(''effect_id'', jstr effectID), (''response'', marshal_raw resp)]))"

section \<open>The calls of the runner\<close>

text \<open>The runner drops the errors of its sink.\<close>

definition sink_calls :: "('w, 'e) JobLog option \<Rightarrow> node_event \<Rightarrow> 'w \<Rightarrow> 'w" where
  "sink_calls lg ev w = snd (case ev of
       NodeStartedCall jobID nodeID attempt workerID \<Rightarrow> AppendNodeStarted lg jobID nodeID attempt workerID w
     | NodeFinishedCall jobID nodeID results durationMs state attempt t reason stepID inputHash \<Rightarrow>
         AppendNodeFinished lg jobID nodeID results durationMs state attempt t reason stepID inputHash w
     | StepCommittedCall jobID nodeID stepID commandID key \<Rightarrow> AppendStepCommitted lg jobID nodeID stepID commandID key w
     | StateCheckpointedCall jobID nodeID old new keys \<Rightarrow> AppendStateCheckpointed lg jobID nodeID old new
         (Some \<lparr>SO_ChangedKeys = keys, SO_ToolSideEffects = [], SO_ResourceRefs = []\<rparr>) w
     | JobWaitingCall jobID nodeID waitKind reason expiresAt key ctx \<Rightarrow> AppendJobWaiting lg jobID nodeID waitKind reason expiresAt key ctx w
     | JobCompletedCall jobID goal \<Rightarrow> AppendJobCompleted lg jobID goal w
     | JobFailedCall jobID reason t nodeID \<Rightarrow> AppendJobFailed lg jobID reason (Some (t, nodeID)) w
     | ReasoningSnapshotCall jobID payload \<Rightarrow> AppendReasoningSnapshot lg jobID payload w
     | StepCompensatedCall jobID nodeID stepID commandID reason \<Rightarrow> AppendStepCompensated lg jobID nodeID stepID commandID reason w)"

text \<open>The replay builder over the same log.\<close>

definition log_view :: "('w, string) JobLog \<Rightarrow> 'w \<Rightarrow> ReplayStore" where
  "log_view l w = \<lparr>RS_ListEvents = (\<lambda>j. map_sum id fst (JL_ListEvents l w j)), RS_GetLatestSnapshot = (\<lambda>_. Inr None)\<rparr>"

definition replay_of :: "('w, string) JobLog \<Rightarrow> string \<Rightarrow> 'w \<Rightarrow> replay_error + ReplayContext option" where
  "replay_of l jobID w = BuildFromEvents (Some (log_view l w)) jobID"

section \<open>The memory store as the log\<close>

text \<open>The store and whatever else the world holds; each append brings its clock readings and uuid, from a source of environments.\<close>

definition store_error_text :: "JobStoreError \<Rightarrow> string" where
  "store_error_text e = (case e of ErrNoJob \<Rightarrow> ''no job'' | ErrVersionMismatch \<Rightarrow> ''version mismatch''
     | ErrClaimNotFound \<Rightarrow> ''claim not found'' | ErrStaleAttempt \<Rightarrow> ''stale attempt'' | ErrStaleLease \<Rightarrow> ''stale lease'')"

definition mem_job_log :: "('x \<Rightarrow> append_env) \<Rightarrow> (memoryStore \<times> 'x, string) JobLog" where
  "mem_job_log env = \<lparr>JL_ListEvents = (\<lambda>(s, x) j. Inr (ListEvents s j)),
     JL_Append = (\<lambda>(s, x) j v e. case Append (env x) s j v e of
        (Inl err, s') \<Rightarrow> (Some (store_error_text err), (s', x)) | (Inr _, s') \<Rightarrow> (None, (s', x)))\<rparr>"

section \<open>Reading back what was written\<close>

text \<open>Fields that can be written, and are read back one by one.\<close>

definition good_fields :: "nat \<Rightarrow> (string \<times> bytes option) list \<Rightarrow> bool" where
  "good_fields n fs \<longleftrightarrow> distinct (map fst fs) \<and> (\<forall>(k, t) \<in> set fs. lower_key k \<and> (\<exists>x. t = Some x \<and> json_piece n x))"

definition field_lookup :: "(string \<times> bytes option) list \<Rightarrow> string \<Rightarrow> bytes list" where
  "field_lookup fs name = (case map_of fs name of Some (Some x) \<Rightarrow> [x] | _ \<Rightarrow> [])"

lemma decode_json_struct:
  assumes "good_fields n fs" "n < maxNestingDepth"
  shows "\<exists>b ms. json_struct fs = Some b \<and> json_piece (Suc n) b \<and> decode_object b = Some ms
    \<and> (\<forall>name. lower_key name \<longrightarrow> field_raws name ms = field_lookup fs name)"
proof -
  let ?ts = "map (\<lambda>(k, t). the t) fs" let ?ms = "zip (map fst fs) ?ts"
  have ts: "those (map snd fs) = Some ?ts"
    using assms(1) by (intro those_map_Some) (auto simp: good_fields_def)
  have ms: "?ms = map (\<lambda>(k, t). (k, the t)) fs" by (induction fs) auto
  have p: "\<forall>t \<in> snd ` set ?ms. json_piece n t" using assms(1) by (fastforce simp: ms good_fields_def)
  have c: "map (\<lambda>(k, t). (clean k, t)) ?ms = ?ms"
    using assms(1) by (fastforce simp: ms good_fields_def lower_key_clean intro!: map_idI)
  have "field_raws name ?ms = field_lookup fs name" if name: "lower_key name" for name
  proof -
    have "field_raws name (map (\<lambda>(k, t). (k, the t)) gs) = field_lookup gs name" if "good_fields n gs" for gs
      using that
    proof (induction gs)
      case (Cons g gs)
      obtain k t where g: "g = (k, t)" by (cases g)
      then obtain x where k: "lower_key k" "t = Some x" and gs: "good_fields n gs" "k \<notin> fst ` set gs"
        using Cons.prems by (auto simp: good_fields_def)
      have "map_of gs k = None" using gs(2) by (simp add: map_of_eq_None_iff)
      then show ?case
        using Cons.IH [OF gs(1)] k name by (auto simp: g field_raws_def field_lookup_def lower_key_fold)
    qed (simp add: field_raws_def field_lookup_def)
    then show ?thesis using assms(1) ms by simp
  qed
  moreover have "decode_object (fields_text ?ms) = Some ?ms" using decode_fields [OF p assms(2)] by (simp only: c)
  moreover have "json_piece (Suc n) (fields_text ?ms)" by (rule Object [OF p])
  ultimately show ?thesis using ts by (simp add: json_struct_def)
qed

lemma map_entries_of:
  assumes "distinct (map fst fs)"
  shows "map_of (map_entries fs) = map_of fs"
proof
  fix k
  have r: "map_of (rev fs) = map_of fs" using assms by (subst map_of_inject_set) (simp_all add: rev_map [symmetric])
  have k: "k \<in> fst ` set fs \<longleftrightarrow> map_of fs k \<noteq> None" by (simp add: map_of_eq_None_iff)
  have "map_of (map_entries fs) k = (if k \<in> fst ` set fs then Some (the (map_of fs k)) else None)"
    by (simp add: map_entries_def map_of_map_restrict [unfolded comp_def] restrict_map_def r)
  then show "map_of (map_entries fs) k = map_of fs k"
    unfolding k by (cases "map_of fs k") simp_all
qed

lemma map_entries_distinct: "distinct (map fst (map_entries fs))"
  by (simp add: map_entries_def comp_def)

lemma map_entries_good:
  assumes "good_fields n fs"
  shows "good_fields n (map_entries fs)" "field_lookup (map_entries fs) = field_lookup fs"
proof -
  have d: "distinct (map fst fs)" using assms by (simp add: good_fields_def)
  have "set (map_entries fs) = set fs"
    using map_of_inject_set [OF map_entries_distinct d] map_entries_of [OF d] by simp
  then show "good_fields n (map_entries fs)" using assms map_entries_distinct [of fs] by (simp add: good_fields_def)
  show "field_lookup (map_entries fs) = field_lookup fs" by (rule ext) (simp add: field_lookup_def map_entries_of [OF d])
qed

lemma decode_json_map:
  assumes "good_fields n fs" "n < maxNestingDepth"
  shows "\<exists>b ms. json_map fs = Some b \<and> json_piece (Suc n) b \<and> decode_object b = Some ms
    \<and> (\<forall>name. lower_key name \<longrightarrow> field_raws name ms = field_lookup fs name)"
  using decode_json_struct [OF map_entries_good(1) [OF assms(1)] assms(2)] map_entries_good(2) [OF assms(1)]
  by (simp add: json_map_def)

section \<open>A log keeps what is appended\<close>

text \<open>An event of a type and with a payload is the next one of the stream.\<close>

definition appends :: "('w \<Rightarrow> string \<Rightarrow> JobEvent list) \<Rightarrow> ('w \<Rightarrow> string \<Rightarrow> bool) \<Rightarrow> string \<Rightarrow> EventType \<Rightarrow> bytes \<Rightarrow> 'w \<Rightarrow> 'w \<Rightarrow> bool" where
  "appends stream writable j t b w w' \<longleftrightarrow> writable w' j \<and> (\<exists>e. stream w' j = stream w j @ [e] \<and> Ev_Type e = t \<and> Ev_Payload e = b)"

text \<open>
  What the sink needs of the store behind it: reading gives the stream and its length, and while the writer may write, an
  append at that length adds the event, up to its id, time and hashes.
\<close>

locale job_log =
  fixes lg :: "('w, string) JobLog" and stream :: "'w \<Rightarrow> string \<Rightarrow> JobEvent list" and writable :: "'w \<Rightarrow> string \<Rightarrow> bool"
  assumes list_stream: "JL_ListEvents lg w j = Inr (stream w j, int (length (stream w j)))"
    and append_ok: "writable w j \<Longrightarrow> \<exists>w' e'. JL_Append lg w j (int (length (stream w j))) e = (None, w') \<and> writable w' j
      \<and> stream w' j = stream w j @ [e'] \<and> Ev_Type e' = Ev_Type e \<and> Ev_Payload e' = Ev_Payload e"
begin

lemma sink_append_ok:
  assumes "writable w j" "payload (stream w j) (int (length (stream w j))) = Some b"
  shows "\<exists>w'. sink_append (Some lg) j t payload w = (None, w') \<and> appends stream writable j t b w w'"
  using append_ok [OF assms(1), of "JobEvent0\<lparr>Ev_JobID := j, Ev_Type := t, Ev_Payload := b\<rparr>"] assms(2)
  by (auto simp: sink_append_def list_stream appends_def)

lemma sink_append_fails:
  assumes "payload (stream w j) (int (length (stream w j))) = None"
  shows "sink_append (Some lg) j t payload w = (Some MarshalError, w)"
  using assms by (simp add: sink_append_def list_stream)

end

section \<open>A finished step is replayed as done\<close>

lemma clean_steps_Nil: "s \<noteq> [] \<Longrightarrow> clean_steps (Suc n) s \<noteq> []"
  by (cases rule: quote_cases, assumption) (auto simp: utf8_enc_def)

lemma clean_Nil [simp]: "clean s = [] \<longleftrightarrow> s = []"
proof (cases s)
  case (Cons c r)
  then show ?thesis using clean_steps_Nil [of "c # r" "length r"] by (simp add: clean_def del: clean_steps.simps)
qed (simp add: clean_def)

lemma result_type_done: "result_type_name t \<notin> set ['''', ''success'', ''pure'', ''side_effect_committed'', ''compensated''] \<longleftrightarrow> isStepFailure t"
  by (cases t) (simp_all add: result_type_name_def isStepFailure_def)

lemma result_type_clean: "clean (result_type_name t) = result_type_name t"
  by (rule clean_ascii) (cases t; simp add: result_type_name_def)

text \<open>What the replay makes of a finished step.\<close>

definition done_update :: "string \<Rightarrow> string \<Rightarrow> bytes \<Rightarrow> StepResultType \<Rightarrow> ReplayContext \<Rightarrow> ReplayContext" where
  "done_update nodeID stepID results t rc = (if isStepFailure t then rc
     else (let rc1 = rc\<lparr>RC_CompletedNodeIDs := sput (clean (if stepID = [] then nodeID else stepID)) (RC_CompletedNodeIDs rc),
                        RC_CursorNode := clean nodeID\<rparr>
           in if results = [] then rc1
              else rc1\<lparr>RC_PayloadResults := results,
                       RC_PayloadResultsByNode := mput (clean nodeID) results (RC_PayloadResultsByNode rc1)\<rparr>))"

lemma when_set_simps [simp]: "when_set True k t = [(k, t)]" "when_set False k t = []"
  "map_of (when_set b k t) k' = (if b \<and> k = k' then Some t else None)" "fst ` set (when_set b k t) = (if b then {k} else {})"
  "distinct (map fst (when_set b k t))" "set (when_set b k t) = (if b then {(k, t)} else {})"
  by (simp_all add: when_set_def)

lemma node_finished_good:
  assumes "results = [] \<or> json_piece n results" "n < maxNestingDepth"
  shows "good_fields n (node_finished_fields nodeID results dur st att t reason stepID hash ver)"
  using assms unfolding good_fields_def node_finished_fields_def
  by (auto simp: lower_key_def intro: Quoted)

lemma node_finished_payload:
  assumes "results = [] \<or> json_piece n results" "n < maxNestingDepth"
  shows "\<exists>b. json_map (node_finished_fields nodeID results dur st att t reason stepID hash ver) = Some b
    \<and> on_node_finished b rc = done_update nodeID stepID results t rc"
proof -
  let ?fs = "node_finished_fields nodeID results dur st att t reason stepID hash ver"
  obtain b ms where b: "json_map ?fs = Some b" "decode_object b = Some ms"
    and f: "\<And>name. lower_key name \<Longrightarrow> field_raws name ms = field_lookup ?fs name"
    using decode_json_map [OF node_finished_good [OF assms]] assms(2) by blast
  let ?sid = "if stepID = [] then nodeID else stepID"
  have "field_raws ''node_id'' ms = [json_quote nodeID]" "field_raws ''step_id'' ms = [json_quote ?sid]"
    "field_raws ''result_type'' ms = [json_quote (result_type_name t)]"
    "field_raws ''payload_results'' ms = (if results = [] then [] else [results])"
    using assms by (auto simp: f lower_key_def field_lookup_def node_finished_fields_def map_add_def)
  then have "string_field ''node_id'' ms = Some (clean nodeID)" "string_field ''step_id'' ms = Some (clean ?sid)"
    "string_field ''result_type'' ms = Some (result_type_name t)" "raw_field ''payload_results'' ms = results"
    by (cases "results = []"; simp add: field_reads result_type_clean)+
  then have "on_node_finished b rc = done_update nodeID stepID results t rc"
    using result_type_done [of t] by (auto simp: on_node_finished_def done_update_def b(2) Let_def)
  then show ?thesis using b(1) by blast
qed

text \<open>What replay has seen done stays done.\<close>

lemma replay_event_completed:
  "replay_event e rc = Some rc' \<Longrightarrow> set (RC_CompletedNodeIDs rc) \<subseteq> set (RC_CompletedNodeIDs rc')"
  by (auto simp: replay_event_def on_tool_started_def on_plan_generated_def on_node_finished_def on_command_committed_def
      on_tool_finished_def on_state_changed_def on_job_waiting_def on_wait_completed_def on_timer_fired_def on_random_recorded_def
      on_uuid_recorded_def on_http_recorded_def Let_def split: option.splits if_splits prod.splits)

lemma replay_events_completed:
  "replay_events es rc = Some rc' \<Longrightarrow> set (RC_CompletedNodeIDs rc) \<subseteq> set (RC_CompletedNodeIDs rc')"
proof (induction es arbitrary: rc)
  case (Cons e es)
  then obtain rc1 where "replay_event e rc = Some rc1" "replay_events es rc1 = Some rc'" by (auto split: bind_splits)
  then show ?case using replay_event_completed Cons.IH by blast
qed simp

lemma replay_event_plan:
  "replay_event e rc = Some rc' \<Longrightarrow> Ev_Type e \<noteq> PlanGenerated \<Longrightarrow> RC_TaskGraphState rc' = RC_TaskGraphState rc"
  by (auto simp: replay_event_def on_tool_started_def on_node_finished_def on_command_committed_def
      on_tool_finished_def on_state_changed_def on_job_waiting_def on_wait_completed_def on_timer_fired_def on_random_recorded_def
      on_uuid_recorded_def on_http_recorded_def Let_def split: option.splits if_splits prod.splits)

lemma replay_events_plan:
  "replay_events es rc = Some rc' \<Longrightarrow> \<forall>e \<in> set es. Ev_Type e \<noteq> PlanGenerated \<Longrightarrow> RC_TaskGraphState rc' = RC_TaskGraphState rc"
proof (induction es arbitrary: rc)
  case (Cons e es)
  then obtain rc1 where "replay_event e rc = Some rc1" "replay_events es rc1 = Some rc'" by (auto split: bind_splits)
  then show ?case using replay_event_plan [of e rc rc1] Cons by simp
qed simp

lemma replay_event_commands:
  "replay_event e rc = Some rc' \<Longrightarrow> Ev_Type e \<notin> {CommandCommitted, WaitCompleted} \<Longrightarrow> RC_CompletedCommandIDs rc' = RC_CompletedCommandIDs rc"
  by (auto simp: replay_event_def on_tool_started_def on_plan_generated_def on_node_finished_def
      on_tool_finished_def on_state_changed_def on_job_waiting_def on_timer_fired_def on_random_recorded_def
      on_uuid_recorded_def on_http_recorded_def Let_def split: option.splits if_splits prod.splits)

text \<open>Events that bring neither a plan nor a command's result.\<close>

definition plain_events :: "JobEvent list \<Rightarrow> bool" where
  "plain_events es \<longleftrightarrow> (\<forall>e \<in> set es. Ev_Type e \<notin> {PlanGenerated, CommandCommitted, WaitCompleted})"

lemma plain_events_simps [simp]: "plain_events []" "plain_events (es @ es') \<longleftrightarrow> plain_events es \<and> plain_events es'"
  by (auto simp: plain_events_def)

lemma replay_plain_events:
  "replay_events es rc = Some rc' \<Longrightarrow> plain_events es
    \<Longrightarrow> RC_CompletedCommandIDs rc' = RC_CompletedCommandIDs rc \<and> RC_TaskGraphState rc' = RC_TaskGraphState rc"
proof (induction es arbitrary: rc)
  case (Cons e es)
  then obtain rc1 where "replay_event e rc = Some rc1" "replay_events es rc1 = Some rc'" by (auto split: bind_splits)
  then show ?case using replay_event_plan [of e rc rc1] replay_event_commands [of e rc rc1] Cons by (simp add: plain_events_def)
qed simp

definition log_extends :: "('w \<Rightarrow> string \<Rightarrow> JobEvent list) \<Rightarrow> ('w \<Rightarrow> string \<Rightarrow> bool) \<Rightarrow> string \<Rightarrow> 'w \<Rightarrow> 'w \<Rightarrow> bool" where
  "log_extends stream writable j w w' \<longleftrightarrow> writable w' j \<and> (\<exists>es. stream w' j = stream w j @ es \<and> plain_events es)"

lemma log_extends_refl: "writable w j \<Longrightarrow> log_extends stream writable j w w"
  by (auto simp: log_extends_def intro: exI [of _ "[]"])

lemma log_extends_trans:
  "log_extends stream writable j w w1 \<Longrightarrow> log_extends stream writable j w1 w2 \<Longrightarrow> log_extends stream writable j w w2"
  by (auto simp: log_extends_def)

lemma log_extends_writable: "log_extends stream writable j w w' \<Longrightarrow> writable w' j"
  by (simp add: log_extends_def)

lemma appends_extends: "appends stream writable j t b w w' \<Longrightarrow> t \<notin> {PlanGenerated, CommandCommitted, WaitCompleted} \<Longrightarrow> log_extends stream writable j w w'"
  by (auto simp: appends_def log_extends_def plain_events_def)

fun event_job :: "node_event \<Rightarrow> string" where
  "event_job (NodeStartedCall j _ _ _) = j"
| "event_job (NodeFinishedCall j _ _ _ _ _ _ _ _ _) = j"
| "event_job (StepCommittedCall j _ _ _ _) = j"
| "event_job (StateCheckpointedCall j _ _ _ _) = j"
| "event_job (JobWaitingCall j _ _ _ _ _ _) = j"
| "event_job (JobCompletedCall j _) = j"
| "event_job (JobFailedCall j _ _ _) = j"
| "event_job (ReasoningSnapshotCall j _) = j"
| "event_job (StepCompensatedCall j _ _ _ _) = j"

context job_log
begin

lemma sink_append_extends:
  assumes "writable w j" "t \<notin> {PlanGenerated, CommandCommitted, WaitCompleted}"
  shows "log_extends stream writable j w (snd (sink_append (Some lg) j t payload w))"
proof (cases "payload (stream w j) (int (length (stream w j)))")
  case None
  then show ?thesis using sink_append_fails assms(1) by (simp add: log_extends_refl)
next
  case (Some b)
  then show ?thesis using sink_append_ok [of w j payload b t] assms appends_extends by fastforce
qed

lemma sink_calls_extends:
  assumes "writable w (event_job ev)"
  shows "log_extends stream writable (event_job ev) w (sink_calls (Some lg) ev w)"
  using assms
  by (cases ev) (auto simp: sink_calls_def AppendNodeStarted_def AppendNodeFinished_def AppendStepCommitted_def
      AppendStateCheckpointed_def AppendJobWaiting_def AppendJobCompleted_def AppendJobFailed_def AppendReasoningSnapshot_def
      AppendStepCompensated_def Let_def intro!: sink_append_extends log_extends_refl)

lemma replay_stream:
  "replay_of lg j w = (if stream w j = [] then Inr None
     else (case replay_events (stream w j) ReplayContext0 of None \<Rightarrow> Inl NilMapPanic
       | Some rc \<Rightarrow> if RC_TaskGraphState rc = [] then Inr None else Inr (Some (rc\<lparr>RC_Phase := phase_of (Ev_Type (last (stream w j))) rc\<rparr>))))"
  by (simp add: replay_of_def BuildFromEvents_def log_view_def list_stream)

text \<open>The next replay of an extended log sees the same plan and the same commands, and at least the same steps done.\<close>

lemma replay_extended:
  assumes "replay_of lg j w = Inr (Some rc)" "log_extends stream writable j w w'"
  shows "\<exists>rc'. replay_of lg j w' = Inr (Some rc') \<and> RC_TaskGraphState rc' = RC_TaskGraphState rc
    \<and> RC_CompletedCommandIDs rc' = RC_CompletedCommandIDs rc \<and> set (RC_CompletedNodeIDs rc) \<subseteq> set (RC_CompletedNodeIDs rc')"
proof -
  obtain r where r: "stream w j \<noteq> []" "replay_events (stream w j) ReplayContext0 = Some r" "RC_TaskGraphState r \<noteq> []"
    and rc: "rc = r\<lparr>RC_Phase := phase_of (Ev_Type (last (stream w j))) r\<rparr>"
    using assms(1) by (auto simp: replay_stream split: if_splits option.splits)
  obtain es where es: "stream w' j = stream w j @ es" "plain_events es" using assms(2) by (auto simp: log_extends_def)
  have "no_nil r" using replay_events_no_nil [OF no_nil_start, of "stream w j"] r(2) by simp
  then obtain r' where r': "replay_events es r = Some r'" using replay_events_no_nil [of r es] by blast
  have "replay_events (stream w' j) ReplayContext0 = Some r'" using r(2) r' by (simp add: es(1) replay_events_append)
  then show ?thesis
    using r(1,3) replay_plain_events [OF r' es(2)] replay_events_completed [OF r'] by (simp add: replay_stream es(1) rc)
qed

end

end
