(* ===== verification/Sink_Run.thy ===== *)
theory Sink_Run
  imports Node_Sink Dag_Run Dag_Demo
begin

text \<open>
  The runner over a log that keeps what the sink appends: a step that has run is replayed as done, and the event-driven loop
  comes to an end.
\<close>

section \<open>The memory store is such a log\<close>

definition mem_stream :: "memoryStore \<times> 'x \<Rightarrow> string \<Rightarrow> JobEvent list" where
  "mem_stream w j = events_of (fst w) j"

text \<open>The writer's attempt, if its context has one, holds the lease.\<close>

definition mem_writable :: "('x \<Rightarrow> append_env) \<Rightarrow> memoryStore \<times> 'x \<Rightarrow> string \<Rightarrow> bool" where
  "mem_writable env w j \<longleftrightarrow> append_fence (env_now1 (env (snd w))) (env_ctx (env (snd w))) (fst w) j = None"

lemma append_fence_claims: "es_claims s = es_claims s' \<Longrightarrow> append_fence now ctx s j = append_fence now ctx s' j"
  by (simp add: append_fence_def Let_def)

interpretation mem: job_log "mem_job_log env" mem_stream "mem_writable env" for env
proof
  fix w :: "memoryStore \<times> 'a" and j :: string and e :: JobEvent
  obtain s x where w: "w = (s, x)" by (cases w)
  show "JL_ListEvents (mem_job_log env) w j = Inr (mem_stream w j, int (length (mem_stream w j)))"
    by (simp add: w mem_job_log_def mem_stream_def ListEvents_def Let_def)
  assume writable: "mem_writable env w j"
  let ?v = "int (length (mem_stream w j))"
  obtain r s' where a: "Append (env x) s j ?v e = (r, s')" by (cases "Append (env x) s j ?v e")
  have l: "append_locked (env_now2 (env x)) (env_uuid (env x)) (env_zone (env x)) s j ?v e = (r, s')"
    using a writable by (simp add: Append_def mem_writable_def w)
  obtain n where n: "r = Inr n" using l by (auto simp: append_locked_def Let_def mem_stream_def w)
  obtain e' where e': "events_of s' j = events_of s j @ [e']" "es_claims s' = es_claims s"
    "Ev_Type e' = Ev_Type e" "Ev_Payload e' = Ev_Payload e"
    using append_locked_ok [OF l [unfolded n]] by metis
  have "mem_writable env (s', x) j" using writable append_fence_claims [OF e'(2)] by (simp add: mem_writable_def w)
  then show "\<exists>w' e'. JL_Append (mem_job_log env) w j ?v e = (None, w') \<and> mem_writable env w' j
      \<and> mem_stream w' j = mem_stream w j @ [e'] \<and> Ev_Type e' = Ev_Type e \<and> Ev_Payload e' = Ev_Payload e"
    using a n e' by (intro exI [of _ "(s', x)"] exI [of _ e']) (simp add: w mem_job_log_def mem_stream_def)
qed

section \<open>A step that went through is recorded\<close>

text \<open>Between two states of the log the step was recorded: one of the events in between is read as its end.\<close>

definition step_recorded :: "('w \<Rightarrow> string \<Rightarrow> JobEvent list) \<Rightarrow> string \<Rightarrow> string \<Rightarrow> 'w \<Rightarrow> 'w \<Rightarrow> bool" where
  "step_recorded stream j sid w w' \<longleftrightarrow> (\<exists>es e es'. stream w' j = stream w j @ es @ [e] @ es' \<and> Ev_Type e = NodeFinished
     \<and> (\<forall>rc. sid \<in> set (RC_CompletedNodeIDs (on_node_finished (Ev_Payload e) rc))))"

lemma recorded_then: "step_recorded stream j sid w w1 \<Longrightarrow> log_extends stream writable j w1 w2 \<Longrightarrow> step_recorded stream j sid w w2"
  unfolding step_recorded_def log_extends_def by (metis append.assoc)

lemma then_recorded: "log_extends stream writable j w w1 \<Longrightarrow> step_recorded stream j sid w1 w2 \<Longrightarrow> step_recorded stream j sid w w2"
  unfolding step_recorded_def log_extends_def by (metis append.assoc)

text \<open>The same, with the text of the results that replay reads, and with no other end of a step in between.\<close>

definition step_written :: "('w \<Rightarrow> string \<Rightarrow> JobEvent list) \<Rightarrow> string \<Rightarrow> string \<Rightarrow> bytes \<Rightarrow> 'w \<Rightarrow> 'w \<Rightarrow> bool" where
  "step_written stream j sid results w w' \<longleftrightarrow> (\<exists>es e es'. stream w' j = stream w j @ es @ [e] @ es' \<and> Ev_Type e = NodeFinished
     \<and> (\<forall>e' \<in> set es \<union> set es'. Ev_Type e' \<noteq> NodeFinished)
     \<and> (\<forall>rc. sid \<in> set (RC_CompletedNodeIDs (on_node_finished (Ev_Payload e) rc))
          \<and> RC_PayloadResults (on_node_finished (Ev_Payload e) rc) = results))"

text \<open>An extension of the log by events that are no end of a step either.\<close>

definition quiet_extends :: "('w \<Rightarrow> string \<Rightarrow> JobEvent list) \<Rightarrow> ('w \<Rightarrow> string \<Rightarrow> bool) \<Rightarrow> string \<Rightarrow> 'w \<Rightarrow> 'w \<Rightarrow> bool" where
  "quiet_extends stream writable j w w' \<longleftrightarrow> writable w' j
     \<and> (\<exists>es. stream w' j = stream w j @ es \<and> plain_events es \<and> (\<forall>e \<in> set es. Ev_Type e \<noteq> NodeFinished))"

lemma quiet_extends_log: "quiet_extends stream writable j w w' \<Longrightarrow> log_extends stream writable j w w'"
  by (auto simp: quiet_extends_def log_extends_def)

lemma quiet_extends_writable: "quiet_extends stream writable j w w' \<Longrightarrow> writable w' j"
  by (simp add: quiet_extends_def)

lemma quiet_extends_refl: "writable w j \<Longrightarrow> quiet_extends stream writable j w w"
  by (simp add: quiet_extends_def)

lemma quiet_extends_trans:
  assumes "quiet_extends stream writable j w w1" "quiet_extends stream writable j w1 w2" shows "quiet_extends stream writable j w w2"
proof -
  obtain es where 1: "stream w1 j = stream w j @ es" "plain_events es" "\<forall>e \<in> set es. Ev_Type e \<noteq> NodeFinished"
    using assms(1) unfolding quiet_extends_def by blast
  obtain es' where 2: "writable w2 j" "stream w2 j = stream w1 j @ es'" "plain_events es'" "\<forall>e \<in> set es'. Ev_Type e \<noteq> NodeFinished"
    using assms(2) unfolding quiet_extends_def by blast
  show ?thesis unfolding quiet_extends_def by (intro conjI exI [of _ "es @ es'"]) (use 1 2 in auto)
qed

lemma written_recorded: "step_written stream j sid results w w' \<Longrightarrow> step_recorded stream j sid w w'"
  unfolding step_written_def step_recorded_def by blast

lemma written_then:
  assumes "step_written stream j sid results w w1" "quiet_extends stream writable j w1 w2" shows "step_written stream j sid results w w2"
proof -
  obtain es e es' where 1: "stream w1 j = stream w j @ es @ [e] @ es'" "Ev_Type e = NodeFinished"
    "\<forall>e' \<in> set es \<union> set es'. Ev_Type e' \<noteq> NodeFinished"
    "\<forall>rc. sid \<in> set (RC_CompletedNodeIDs (on_node_finished (Ev_Payload e) rc)) \<and> RC_PayloadResults (on_node_finished (Ev_Payload e) rc) = results"
    using assms(1) unfolding step_written_def by blast
  obtain ds where 2: "stream w2 j = stream w1 j @ ds" "\<forall>e \<in> set ds. Ev_Type e \<noteq> NodeFinished"
    using assms(2) unfolding quiet_extends_def by blast
  show ?thesis unfolding step_written_def by (intro exI [of _ es] exI [of _ e] exI [of _ "es' @ ds"]) (use 1 2 in auto)
qed

lemma then_written:
  assumes "quiet_extends stream writable j w w1" "step_written stream j sid results w1 w2" shows "step_written stream j sid results w w2"
proof -
  obtain es e es' where 1: "stream w2 j = stream w1 j @ es @ [e] @ es'" "Ev_Type e = NodeFinished"
    "\<forall>e' \<in> set es \<union> set es'. Ev_Type e' \<noteq> NodeFinished"
    "\<forall>rc. sid \<in> set (RC_CompletedNodeIDs (on_node_finished (Ev_Payload e) rc)) \<and> RC_PayloadResults (on_node_finished (Ev_Payload e) rc) = results"
    using assms(2) unfolding step_written_def by blast
  obtain ds where 2: "stream w1 j = stream w j @ ds" "\<forall>e \<in> set ds. Ev_Type e \<noteq> NodeFinished"
    using assms(1) unfolding quiet_extends_def by blast
  show ?thesis unfolding step_written_def by (intro exI [of _ "ds @ es"] exI [of _ e] exI [of _ es']) (use 1 2 in auto)
qed

text \<open>Only the end of a step changes the results that replay has read.\<close>

lemma replay_event_results:
  "replay_event e rc = Some rc' \<Longrightarrow> Ev_Type e \<noteq> NodeFinished \<Longrightarrow> RC_PayloadResults rc' = RC_PayloadResults rc"
  by (auto simp: replay_event_def on_tool_started_def on_plan_generated_def on_command_committed_def
      on_tool_finished_def on_state_changed_def on_job_waiting_def on_wait_completed_def on_timer_fired_def on_random_recorded_def
      on_uuid_recorded_def on_http_recorded_def Let_def split: option.splits if_splits prod.splits)

lemma replay_events_results:
  "replay_events es rc = Some rc' \<Longrightarrow> \<forall>e \<in> set es. Ev_Type e \<noteq> NodeFinished \<Longrightarrow> RC_PayloadResults rc' = RC_PayloadResults rc"
proof (induction es arbitrary: rc)
  case (Cons e es)
  then obtain rc1 where "replay_event e rc = Some rc1" "replay_events es rc1 = Some rc'" by (auto split: bind_splits)
  then show ?case using replay_event_results [of e rc rc1] Cons by simp
qed simp

context job_log
begin

lemma recorded_replay:
  assumes "step_recorded stream j sid w w'" "replay_of lg j w' = Inr (Some rc')"
  shows "sid \<in> set (RC_CompletedNodeIDs rc')"
proof -
  obtain es e es' where s: "stream w' j = (stream w j @ es) @ [e] @ es'" and t: "Ev_Type e = NodeFinished"
    and c: "\<And>rc. sid \<in> set (RC_CompletedNodeIDs (on_node_finished (Ev_Payload e) rc))"
    using assms(1) by (auto simp: step_recorded_def)
  obtain r where r: "replay_events (stream w' j) ReplayContext0 = Some r" and rc': "RC_CompletedNodeIDs rc' = RC_CompletedNodeIDs r"
    using assms(2) by (auto simp: replay_stream split: if_splits option.splits)
  obtain r1 where r1: "replay_events (stream w j @ es) ReplayContext0 = Some r1" using replay_events_no_nil [OF no_nil_start] by blast
  have "replay_event e r1 = Some (on_node_finished (Ev_Payload e) r1)" by (simp add: replay_event_def t)
  then have end_run: "replay_events es' (on_node_finished (Ev_Payload e) r1) = Some r"
    using r r1 unfolding s replay_events_append by simp
  show ?thesis using replay_events_completed [OF end_run] c [of r1] rc' by auto
qed

lemma written_results:
  assumes "step_written stream j sid results w w'" "replay_of lg j w' = Inr (Some rc')"
  shows "RC_PayloadResults rc' = results"
proof -
  obtain es e es' where s: "stream w' j = (stream w j @ es) @ [e] @ es'" and t: "Ev_Type e = NodeFinished"
    and q: "\<forall>e' \<in> set es'. Ev_Type e' \<noteq> NodeFinished" and c: "\<And>rc. RC_PayloadResults (on_node_finished (Ev_Payload e) rc) = results"
    using assms(1) by (auto simp: step_written_def)
  obtain r where r: "replay_events (stream w' j) ReplayContext0 = Some r" and rc': "RC_PayloadResults rc' = RC_PayloadResults r"
    using assms(2) by (auto simp: replay_stream split: if_splits option.splits)
  obtain r1 where r1: "replay_events (stream w j @ es) ReplayContext0 = Some r1" using replay_events_no_nil [OF no_nil_start] by blast
  have "replay_event e r1 = Some (on_node_finished (Ev_Payload e) r1)" by (simp add: replay_event_def t)
  then have end_run: "replay_events es' (on_node_finished (Ev_Payload e) r1) = Some r"
    using r r1 unfolding s replay_events_append by simp
  show ?thesis using replay_events_results [OF end_run q] c rc' by simp
qed

lemma finished_written:
  assumes "writable w j" "json_piece 9000 results" "\<not> isStepFailure t"
  shows "step_written stream j (clean (if stepID = [] then nodeID else stepID)) results w
     (sink_calls (Some lg) (NodeFinishedCall j nodeID results dur st att t reason stepID hash) w)"
proof -
  let ?ver = "int (length (stream w j))" and ?sid = "clean (if stepID = [] then nodeID else stepID)"
  note piece = disjI2 [OF assms(2)]
  obtain b where b: "json_map (node_finished_fields nodeID results dur st att t reason stepID hash ?ver) = Some b"
    using node_finished_payload [OF piece] by fastforce
  have c: "on_node_finished b rc = done_update nodeID stepID results t rc" for rc
    using node_finished_payload [OF piece, of nodeID dur st att t reason stepID hash ?ver rc] b by auto
  obtain w' where w': "sink_append (Some lg) j NodeFinished (\<lambda>_ ver. json_map
       (node_finished_fields nodeID results dur st att t reason stepID hash ver)) w = (None, w')" "appends stream writable j NodeFinished b w w'"
    using sink_append_ok [of w j "\<lambda>_ ver. json_map (node_finished_fields nodeID results dur st att t reason stepID hash ver)"] assms(1) b
    by blast
  then obtain e where e: "stream w' j = stream w j @ [] @ [e] @ []" "Ev_Type e = NodeFinished" "Ev_Payload e = b" by (auto simp: appends_def)
  have "results \<noteq> []" using json_piece_ends [OF assms(2)] by simp
  then have "?sid \<in> set (RC_CompletedNodeIDs (on_node_finished b rc)) \<and> RC_PayloadResults (on_node_finished b rc) = results" for rc
    using assms(3) by (simp add: c done_update_def Let_def)
  then have "step_written stream j ?sid results w w'"
    unfolding step_written_def using e by (intro exI [of _ "[]"] exI [of _ e]) simp
  then show ?thesis by (simp add: sink_calls_def AppendNodeFinished_def w'(1))
qed

lemma finished_recorded:
  assumes "writable w j" "results = [] \<or> json_piece 9000 results" "\<not> isStepFailure t"
  shows "step_recorded stream j (clean (if stepID = [] then nodeID else stepID)) w
     (sink_calls (Some lg) (NodeFinishedCall j nodeID results dur st att t reason stepID hash) w)"
proof -
  let ?ver = "int (length (stream w j))"
  obtain b where b: "json_map (node_finished_fields nodeID results dur st att t reason stepID hash ?ver) = Some b"
    using node_finished_payload [OF assms(2)] by fastforce
  have c: "on_node_finished b rc = done_update nodeID stepID results t rc" for rc
    using node_finished_payload [OF assms(2), of nodeID dur st att t reason stepID hash ?ver rc] b by auto
  obtain w' where w': "sink_append (Some lg) j NodeFinished (\<lambda>_ ver. json_map
       (node_finished_fields nodeID results dur st att t reason stepID hash ver)) w = (None, w')" "appends stream writable j NodeFinished b w w'"
    using sink_append_ok [of w j "\<lambda>_ ver. json_map (node_finished_fields nodeID results dur st att t reason stepID hash ver)"] assms(1) b
    by blast
  then obtain e where "stream w' j = stream w j @ [] @ [e] @ []" "Ev_Type e = NodeFinished" "Ev_Payload e = b" by (auto simp: appends_def)
  moreover have "clean (if stepID = [] then nodeID else stepID) \<in> set (RC_CompletedNodeIDs (on_node_finished b rc))" for rc
    using assms(3) by (simp add: c done_update_def Let_def)
  ultimately have "step_recorded stream j (clean (if stepID = [] then nodeID else stepID)) w w'" unfolding step_recorded_def by blast
  then show ?thesis by (simp add: sink_calls_def AppendNodeFinished_def w'(1))
qed

end

section \<open>The rounds of the event-driven loop\<close>

text \<open>
  The rest of the world leaves the job's log to the sink: running a node, saving a checkpoint and moving the cursor add at
  most events that bring neither a plan nor a command's result and are no end of a step.
\<close>

definition keeps_log :: "('w \<Rightarrow> string \<Rightarrow> JobEvent list) \<Rightarrow> ('w \<Rightarrow> string \<Rightarrow> bool) \<Rightarrow> 'w Runner \<Rightarrow> 'w NodeRunner SteppableStep list \<Rightarrow> string \<Rightarrow> bool" where
  "keeps_log stream writable R steps j \<longleftrightarrow>
     (\<forall>cs cp w. RN_checkpointStore R = Some cs \<and> writable w j \<longrightarrow> quiet_extends stream writable j w (snd (CS_Save cs cp w)))
     \<and> (\<forall>js a b w. RN_jobStore R = Some js \<and> writable w j \<longrightarrow> quiet_extends stream writable j w (JP_UpdateCursor js a b w))
     \<and> (\<forall>step \<in> set steps. \<forall>ctx p h. writable (H_world h) j \<longrightarrow>
          quiet_extends stream writable j (H_world h) (H_world (snd (SS_Run step ctx p h))))"

text \<open>
  A set of texts that the steps stay in.  They can be written to an event and read back; and a step that gets a payload which the
  event-driven loop made out of such a text, or of none, returns results whose text is such a text again.  Nodes that pass their payload
  on, or add to it, stay in such a set.
\<close>

definition steps_stay :: "(bytes \<Rightarrow> bool) \<Rightarrow> 'w NodeRunner SteppableStep list \<Rightarrow> bool" where
  "steps_stay good steps \<longleftrightarrow> (\<forall>t. good t \<longrightarrow> json_piece 9000 t)
     \<and> (\<forall>step \<in> set steps. \<forall>b goal agent session p ctx h q r e h' t. b = [] \<or> good b \<longrightarrow> load_results b (NewAgentDAGPayload goal agent session) = Some p
          \<longrightarrow> SS_Run step ctx p h = (NodeReturns q r e, h') \<longrightarrow> results_text (PL_Results (payload_or_empty r)) = Some t \<longrightarrow> good t)"

definition wired :: "'w Runner \<Rightarrow> ('w, string) JobLog \<Rightarrow> bool" where
  "wired R lg \<longleftrightarrow> RN_nodeEventSink R = Some (sink_calls (Some lg)) \<and> RN_replayPolicy R = None \<and> RN_stepValidators R = []"

context job_log
begin

lemma emit_extends:
  assumes "wired R lg" "writable (H_world h) (event_job ev)"
  shows "log_extends stream writable (event_job ev) (H_world h) (H_world (emit_node R ev h))"
  using assms sink_calls_extends by (simp add: emit_node_def wired_def)

lemma sink_append_quiet:
  assumes "writable w j" "t \<notin> {PlanGenerated, CommandCommitted, WaitCompleted, NodeFinished}"
  shows "quiet_extends stream writable j w (snd (sink_append (Some lg) j t payload w))"
proof (cases "payload (stream w j) (int (length (stream w j)))")
  case None
  then show ?thesis using sink_append_fails assms(1) by (simp add: quiet_extends_refl)
next
  case (Some b)
  then obtain w' where "sink_append (Some lg) j t payload w = (None, w')" "appends stream writable j t b w w'"
    using sink_append_ok [of w j payload b t] assms(1) by blast
  then show ?thesis using assms(2) by (auto simp: appends_def quiet_extends_def plain_events_def)
qed

lemma emit_quiet:
  assumes "wired R lg" "quiet_extends stream writable j w (H_world h)" "event_job ev = j"
    and "\<forall>a b c d f g k l m n. ev \<noteq> NodeFinishedCall a b c d f g k l m n"
  shows "quiet_extends stream writable j w (H_world (emit_node R ev h))"
proof -
  have "quiet_extends stream writable j v (sink_calls (Some lg) ev v)" if "writable v j" for v
    using that assms(3,4)
    by (cases ev) (auto simp: sink_calls_def AppendNodeStarted_def AppendStepCommitted_def
      AppendStateCheckpointed_def AppendJobWaiting_def AppendJobCompleted_def AppendJobFailed_def AppendReasoningSnapshot_def
      AppendStepCompensated_def Let_def intro!: sink_append_quiet quiet_extends_refl)
  then show ?thesis using assms(1) quiet_extends_trans [OF assms(2)] quiet_extends_writable [OF assms(2)]
    by (simp add: emit_node_def wired_def)
qed

lemma emit_extends':
  "wired R lg \<Longrightarrow> log_extends stream writable j w (H_world h) \<Longrightarrow> event_job ev = j
    \<Longrightarrow> log_extends stream writable j w (H_world (emit_node R ev h))"
  using emit_extends log_extends_trans log_extends_writable by metis

lemma save_quiet:
  assumes "keeps_log stream writable R steps j" "writable (H_world h) j" "save_checkpoint R j node gb res h = (None, h')"
  shows "quiet_extends stream writable j (H_world h) (H_world h')"
proof (cases "RN_checkpointStore R")
  case None
  then show ?thesis using assms by (simp add: save_checkpoint_def quiet_extends_refl)
next
  case (Some cs)
  define cp where "cp = NewNodeCheckpoint (RN_now R 1 (H_world h)) (AG_ID (H_agent h)) (session_id h) j node gb res []"
  obtain cpID w a where s: "CS_Save cs cp (H_world h) = (Inr cpID, w)" and h': "h' = update_cursor R j cpID \<lparr>H_agent = a, H_world = w\<rparr>"
    using assms(3) Some by (auto simp: save_checkpoint_def cp_def Let_def split: prod.splits sum.splits)
  have e: "quiet_extends stream writable j (H_world h) w" using assms(1,2) Some s unfolding keeps_log_def by (metis snd_conv)
  show ?thesis
  proof (cases "RN_jobStore R")
    case None
    then show ?thesis using e by (simp add: h' update_cursor_def)
  next
    case (Some js)
    then have "quiet_extends stream writable j w (JP_UpdateCursor js j cpID w)"
      using assms(1) quiet_extends_writable [OF e] unfolding keeps_log_def by blast
    then show ?thesis using quiet_extends_trans [OF e] Some by (simp add: h' update_cursor_def)
  qed
qed

lemma commit_quiet:
  assumes "wired R lg" "writable (H_world h) (JR_ID j)"
  shows "quiet_extends stream writable (JR_ID j) (H_world h) (H_world (commit_step R j step sid snapshot dur before res results h))"
  using assms
  by (auto simp: commit_step_def Let_def quiet_extends_refl intro!: emit_quiet split: option.splits)

lemma settle_records:
  assumes w: "wired R lg" and k: "keeps_log stream writable R steps (JR_ID j)" and a: "writable (H_world h) (JR_ID j)"
    and r: "\<And>t. results_text (PL_Results (payload_or_empty payload)) = Some t \<Longrightarrow> good t \<and> json_piece 9000 t" and sid: "stepID \<noteq> []"
    and s: "settle_run R j step stepID snapshot gb before started payload e h = (Inr p, h')"
  shows "log_extends stream writable (JR_ID j) (H_world h) (H_world h')
    \<and> (\<exists>results. good results \<and> step_written stream (JR_ID j) (clean stepID) results (H_world h) (H_world h'))"
proof -
  let ?dur = "(RN_now R 4 (H_world h) - started) div 1000000" let ?p = "payload_or_empty payload"
  obtain t reason where t: "run_result (SS_NodeType step) e = (t, reason)" by fastforce
  obtain results where res: "results_text (PL_Results ?p) = Some results" and nf: "\<not> isStepFailure t"
    using s t by (auto simp: settle_run_def Let_def split: option.splits if_splits)
  define ev where "ev = NodeFinishedCall (JR_ID j) (SS_NodeID step) results ?dur (state_str t) 1 t reason stepID []"
  define h1 where "h1 = emit_node R ev h"
  define h2 where "h2 = commit_step R j step stepID snapshot ?dur before results (results_of ?p) h1"
  have s3: "save_checkpoint R (JR_ID j) (SS_NodeID step) gb results h2 = (None, h')"
    using s t res nf by (auto simp: settle_run_def Let_def h1_def h2_def ev_def split: prod.splits option.splits)
  have e1: "log_extends stream writable (JR_ID j) (H_world h) (H_world h1)"
    using emit_extends [OF w, of h ev] a by (simp add: h1_def ev_def)
  have e2: "quiet_extends stream writable (JR_ID j) (H_world h1) (H_world h2)"
    using commit_quiet [OF w log_extends_writable [OF e1]] by (simp add: h2_def)
  have e3: "quiet_extends stream writable (JR_ID j) (H_world h2) (H_world h')"
    using save_quiet [OF k quiet_extends_writable [OF e2] s3] .
  note q = quiet_extends_trans [OF e2 e3]
  have "step_written stream (JR_ID j) (clean stepID) results (H_world h) (H_world h1)"
    using finished_written [OF a, of results t stepID "SS_NodeID step" ?dur "state_str t" 1 reason "[]"] r [OF res] nf sid w
    by (simp add: h1_def ev_def emit_node_def wired_def)
  then show ?thesis using log_extends_trans [OF e1 quiet_extends_log [OF q]] written_then [OF _ q] r [OF res] by blast
qed

end

text \<open>Step ids are ASCII and not empty.\<close>

lemma clean_step_id [simp]: "clean (step_id_at j d steps i) = step_id_at j d steps i"
proof -
  have "\<forall>c \<in> hex_chars. byte c < 128" by (auto simp: hex_chars_def)
  moreover have "set (step_id_at j d steps i) \<subseteq> hex_chars"
    using set_take_subset sha256_hex_chars unfolding step_id_at_def DeterministicStepID_def by fastforce
  ultimately show ?thesis by (intro clean_ascii) (auto simp: list_all_iff)
qed

lemma step_id_nonempty [simp]: "step_id_at j d steps i \<noteq> []"
  by (simp add: step_id_at_def DeterministicStepID_def sha256_hex_nonempty)

text \<open>The plan a context holds, compiled.\<close>

definition plan_of :: "'w Runner \<Rightarrow> ReplayContext \<Rightarrow> GraphDoc \<Rightarrow> 'w NodeRunner SteppableStep list \<Rightarrow> bool" where
  "plan_of R rc gd steps \<longleftrightarrow> ReplayContext_TaskGraph rc = Some (Some gd) \<and> CompileSteppable (RN_registry R) (Some (GD_Graph gd)) = Inr steps"

context job_log
begin

lemma advance_run_records:
  assumes w: "wired R lg" and k: "keeps_log stream writable R steps (JR_ID j)" and a: "writable (H_world h) (JR_ID j)"
    and r: "steps_stay good steps" and b: "b = [] \<or> good b" "load_results b (NewAgentDAGPayload goal agent session) = Some p"
    and st: "step \<in> set steps" and sid: "stepID \<noteq> []"
    and s: "advance_run R j rc gb step stepID p h = (AdvMore, h')"
  shows "log_extends stream writable (JR_ID j) (H_world h) (H_world h')
    \<and> (\<exists>results. good results \<and> step_written stream (JR_ID j) (clean stepID) results (H_world h) (H_world h'))"
proof -
  obtain before where before: "results_text (PL_Results p) = Some before"
    using s by (auto simp: advance_run_def Let_def split: option.splits)
  define h1 where "h1 = emit_node R (NodeStartedCall (JR_ID j) (SS_NodeID step) 1 []) h"
  define ctx where "ctx = step_context R j stepID (Some rc) False False"
  obtain payload e h2 where run: "run_node R (JR_ID j) ctx step p h1 = (Some (payload, e), h2)" and nw: "signalWaitFromError e = None"
    and "\<exists>q. settle_run R j step stepID False gb before (RN_now R 0 (H_world h1)) payload e h2 = (Inr q, h')"
    using s before by (auto simp: advance_run_def Let_def h1_def ctx_def split: prod.splits option.splits sum.splits)
  then obtain q where settle: "settle_run R j step stepID False gb before (RN_now R 0 (H_world h1)) payload e h2 = (Inr q, h')" by blast
  have e1: "quiet_extends stream writable (JR_ID j) (H_world h) (H_world h1)"
    unfolding h1_def by (rule emit_quiet [OF w]) (simp_all add: quiet_extends_refl a)
  have "runStepValidators (RN_stepValidators R) (JR_ID j) (SX_StepID ctx) (SS_NodeID step) (SS_NodeType step) = None"
    using w by (simp add: wired_def)
  then obtain q' where out: "SS_Run step ctx p h1 = (NodeReturns q' payload e, h2)"
    using run by (auto simp: run_node_def split: prod.splits node_outcome.splits)
  have "quiet_extends stream writable (JR_ID j) (H_world h1) (H_world (snd (SS_Run step ctx p h1)))"
    using k st quiet_extends_writable [OF e1] by (simp add: keeps_log_def)
  then have e2: "quiet_extends stream writable (JR_ID j) (H_world h1) (H_world h2)" unfolding out by simp
  have g: "good t \<and> json_piece 9000 t" if "results_text (PL_Results (payload_or_empty payload)) = Some t" for t
  proof -
    have "good t" using r st b out that unfolding steps_stay_def by blast
    then show ?thesis using r by (simp add: steps_stay_def)
  qed
  note q = quiet_extends_trans [OF e1 e2]
  note rec = settle_records [OF w k quiet_extends_writable [OF e2] g sid settle]
  show ?thesis using log_extends_trans [OF quiet_extends_log [OF q] conjunct1 [OF rec]] conjunct2 [OF rec] then_written [OF q] by blast
qed

end

text \<open>One round: it stops, or the next context has the same plan and one more of its steps done.\<close>

lemma undone_shrinks:
  "set c \<subseteq> set c' \<Longrightarrow> i < length steps \<Longrightarrow> \<not> step_done j d steps c i \<Longrightarrow> step_id_at j d steps i \<in> set c'
    \<Longrightarrow> card (undone j d steps c') < card (undone j d steps c)"
  by (rule psubset_card_mono) (auto simp: undone_def step_done_def)

context job_log
begin

lemma advance_round:
  assumes w: "wired R lg" and k: "keeps_log stream writable R steps (JR_ID j)" and r: "steps_stay good steps"
    and b: "RC_PayloadResults rc = [] \<or> good (RC_PayloadResults rc)"
    and a: "writable (H_world h) (JR_ID j)" and rc: "replay_of lg (JR_ID j) (H_world h) = Inr (Some rc)"
    and plan: "plan_of R rc gd steps" and nc: "RC_CompletedCommandIDs rc = []"
    and s: "Advance R j (Some rc) h = (AdvMore, h')"
  shows "\<exists>rc'. writable (H_world h') (JR_ID j) \<and> replay_of lg (JR_ID j) (H_world h') = Inr (Some rc') \<and> plan_of R rc' gd steps
    \<and> RC_CompletedCommandIDs rc' = [] \<and> good (RC_PayloadResults rc')
    \<and> card (undone (JR_ID j) (PlanDecisionID (Graph_Marshal gd)) steps (RC_CompletedNodeIDs rc'))
      < card (undone (JR_ID j) (PlanDecisionID (Graph_Marshal gd)) steps (RC_CompletedNodeIDs rc))"
proof -
  let ?d = "PlanDecisionID (Graph_Marshal gd)"
  obtain p where p: "load_results (RC_PayloadResults rc) (NewAgentDAGPayload (JR_Goal j) (AG_ID (H_agent h)) (session_id h)) = Some p"
    and "advance_steps R j rc gd steps p h = (AdvMore, h')"
    using s plan by (auto simp: Advance_def plan_of_def split: option.splits)
  then obtain i rest where i: "filter (\<lambda>i. \<not> step_done (JR_ID j) ?d steps (RC_CompletedNodeIDs rc) i) [0..<length steps] = i # rest"
    and run: "advance_run R j rc (Graph_Marshal gd) (steps ! i) (step_id_at (JR_ID j) ?d steps i) p h = (AdvMore, h')"
    using w nc by (auto simp: advance_steps_def Let_def replay_action_for_def wired_def split: list.splits)
  have "i \<in> set (filter (\<lambda>i. \<not> step_done (JR_ID j) ?d steps (RC_CompletedNodeIDs rc) i) [0..<length steps])" unfolding i by simp
  then have ui: "i < length steps" "\<not> step_done (JR_ID j) ?d steps (RC_CompletedNodeIDs rc) i" by simp_all
  obtain results where dn: "log_extends stream writable (JR_ID j) (H_world h) (H_world h')" "good results"
    "step_written stream (JR_ID j) (step_id_at (JR_ID j) ?d steps i) results (H_world h) (H_world h')"
    using advance_run_records [OF w k a r b p nth_mem [OF ui(1)] step_id_nonempty run] by auto
  obtain rc' where rc': "replay_of lg (JR_ID j) (H_world h') = Inr (Some rc')" "RC_TaskGraphState rc' = RC_TaskGraphState rc"
    "RC_CompletedCommandIDs rc' = RC_CompletedCommandIDs rc" "set (RC_CompletedNodeIDs rc) \<subseteq> set (RC_CompletedNodeIDs rc')"
    using replay_extended [OF rc dn(1)] by blast
  have "plan_of R rc' gd steps" using plan by (simp only: plan_of_def ReplayContext_TaskGraph_def rc'(2))
  then show ?thesis
    using rc' nc log_extends_writable [OF dn(1)] undone_shrinks [OF rc'(4) ui recorded_replay [OF written_recorded [OF dn(3)] rc'(1)]]
      written_results [OF dn(3) rc'(1)] dn(2) by auto
qed

lemma advance_loop_ends:
  assumes "wired R lg" and "keeps_log stream writable R steps (JR_ID j)" and "steps_stay good steps"
    and "RC_PayloadResults rc = [] \<or> good (RC_PayloadResults rc)" and "writable (H_world h) (JR_ID j)" and "replay_of lg (JR_ID j) (H_world h) = Inr (Some rc)"
    and "plan_of R rc gd steps" and "RC_CompletedCommandIDs rc = []"
    and "card (undone (JR_ID j) (PlanDecisionID (Graph_Marshal gd)) steps (RC_CompletedNodeIDs rc)) < n"
  shows "\<exists>out h'. advance_loop n True R j (replay_of lg) rc h = Some (AdvExit out, h')"
  using assms(4-9)
proof (induction n arbitrary: h rc)
  case (Suc n)
  obtain r h' where adv: "Advance R j (Some rc) h = (r, h')" by fastforce
  show ?case
  proof (cases r)
    case AdvMore
    obtain rc' where rc': "writable (H_world h') (JR_ID j)" "replay_of lg (JR_ID j) (H_world h') = Inr (Some rc')" "plan_of R rc' gd steps"
      "RC_CompletedCommandIDs rc' = []" "good (RC_PayloadResults rc')"
      "card (undone (JR_ID j) (PlanDecisionID (Graph_Marshal gd)) steps (RC_CompletedNodeIDs rc'))
        < card (undone (JR_ID j) (PlanDecisionID (Graph_Marshal gd)) steps (RC_CompletedNodeIDs rc))"
      using advance_round [OF assms(1-3) Suc.prems(1-5) adv [unfolded AdvMore]] by blast
    have h: "H_world (apply_memory rc' h') = H_world h'" by (simp add: apply_memory_def split: option.splits)
    have "card (undone (JR_ID j) (PlanDecisionID (Graph_Marshal gd)) steps (RC_CompletedNodeIDs rc')) < n" using rc'(6) Suc.prems(6) by simp
    then obtain out h2 where "advance_loop n True R j (replay_of lg) rc' (apply_memory rc' h') = Some (AdvExit out, h2)"
      using Suc.IH [of rc' "apply_memory rc' h'"] rc'(1-5) h by auto
    then show ?thesis using adv AdvMore rc'(2) by simp
  qed (use adv in simp_all)
qed simp

end

section \<open>Properties\<close>

lemma those_None: "None \<in> set xs \<Longrightarrow> those xs = None"
  by (induction xs) (auto split: option.splits)

lemma decode_object_Nil [simp]: "decode_object [] = None"
  by (simp add: decode_object_def json_text_def)

text \<open>
  C35. A step whose end was appended to the job's stream is done in every later replay.  When \<open>AppendNodeFinished\<close> has appended, to a job
  that its writer may write, an end that is no failure, with results that are empty or a JSON text as the encoder writes it, nested at
  most 9000 deep, then through
  whatever appends, claims, heartbeats and watches come after it, and whatever was wrong with the bytes of its name or its
  reason, every context that the job is resumed with holds its id (with its bytes made valid UTF-8) among the completed ones.
\<close>

theorem recorded_step_stays_done:
  fixes env :: "'x \<Rightarrow> append_env"
  assumes "AppendNodeFinished (Some (mem_job_log env)) jobID nodeID results durationMs st attempt t reason stepID inputHash (s, x)
      = (None, (s1, x1))"
    and "\<not> isStepFailure t" and "results = [] \<or> json_piece 9000 results" and "mem_writable env (s, x) jobID"
    and "(log_step Append store_other)\<^sup>*\<^sup>* s1 s2"
    and "replay_of (mem_job_log env) jobID (s2, x2) = Inr (Some rc)"
  shows "clean (if stepID = [] then nodeID else stepID) \<in> set (RC_CompletedNodeIDs rc)"
proof -
  let ?sid = "clean (if stepID = [] then nodeID else stepID)"
  have "(s1, x1) = sink_calls (Some (mem_job_log env)) (NodeFinishedCall jobID nodeID results durationMs st attempt t reason stepID inputHash) (s, x)"
    using assms(1) by (simp add: sink_calls_def)
  then have "step_recorded mem_stream jobID ?sid (s, x) (s1, x1)"
    using mem.finished_recorded [OF assms(4), of results t stepID nodeID durationMs st attempt reason inputHash] assms(2,3) by simp
  moreover obtain ys where "events_of s2 jobID = events_of s1 jobID @ ys" using mem_log.run_extends [OF assms(5)] by blast
  ultimately have "step_recorded mem_stream jobID ?sid (s, x) (s2, x2)"
    unfolding step_recorded_def mem_stream_def by (metis append.assoc fst_conv)
  then show ?thesis using mem.recorded_replay assms(6) by blast
qed

text \<open>
  C34. A job run from its events comes to an end: every round of the event-driven loop gets one more step done, so that one round per step
  and one more are enough. This is for a runner whose sink appends to an event store in which the writer may write the job, with no replay
  policy and no step validators, whose goroutines of a level come in in some order of the level; whose nodes and stores leave the writer
  its right and append nothing to the job's stream that replay reads as a plan, a command's result, an end of a wait or of a step, and
  whose job has no cursor, is at no wait, and has a plan that compiles and no command's result in its events; and for steps that stay in
  some set of JSON texts as the encoder writes them, nested at most 9000 deep: when a step gets the payload made from no results or from
  results in the set, as the loop makes it from the last end of a step, the results it returns are in the set, and those already recorded
  are. Nodes may pass their payload on and add to it.
\<close>

theorem event_driven_run_ends:
  fixes R :: "(memoryStore \<times> 'x) Runner"
  assumes "wired R (mem_job_log env)" and "keeps_log mem_stream (mem_writable env) R steps (JR_ID j)" and "steps_stay good steps"
    and "RC_PayloadResults rc = [] \<or> good (RC_PayloadResults rc)"
    and "order_ok R" and "plan_loads R (replay_of (mem_job_log env)) j h rc gd steps"
    and "RC_CompletedCommandIDs rc = []" and "mem_writable env (H_world h) (JR_ID j)"
  shows "RunForJob (Suc (length steps)) R (Some j) h \<noteq> None"
proof -
  define h1 where "h1 = apply_memory rc (set_agent_status StatusRunning h)"
  have h1: "H_world h1 = H_world h" by (simp add: h1_def apply_memory_def set_agent_status_def split: option.splits)
  have plan: "plan_of R rc gd steps" and rc: "replay_of (mem_job_log env) (JR_ID j) (H_world h1) = Inr (Some rc)"
    using assms(6) by (simp_all add: plan_loads_def plan_of_def h1)
  have "run_recovered (Suc (length steps)) R j (replay_of (mem_job_log env)) rc gd h1 \<noteq> None"
  proof (cases "hasReplayProgress (Some rc)")
    case True
    have "card (undone (JR_ID j) (PlanDecisionID (Graph_Marshal gd)) steps (RC_CompletedNodeIDs rc)) \<le> card {..<length steps}"
      by (intro card_mono) (auto simp: undone_def)
    then obtain out h' where "advance_loop (Suc (length steps)) True R j (replay_of (mem_job_log env)) rc h1 = Some (AdvExit out, h')"
      using mem.advance_loop_ends [OF assms(1-4) _ rc plan assms(7), of "Suc (length steps)"] assms(8) h1 by auto
    then show ?thesis using True by (simp add: run_recovered_def)
  next
    case False
    have "start_loop (Suc (length steps)) R j gd steps c p h' \<noteq> None" for c p h'
    proof -
      have "card (undone (JR_ID j) (PlanDecisionID (Graph_Marshal gd)) steps c) \<le> card {..<length steps}"
        by (intro card_mono) (auto simp: undone_def)
      moreover have "CompileSteppable (RN_registry R) (Some (GD_Graph gd)) = Inr steps" using plan by (simp add: plan_of_def)
      ultimately show ?thesis
        unfolding start_loop_def by (intro run_loop_bound [OF compiled_plan assms(5)]) simp_all
    qed
    then show ?thesis using False plan by (auto simp: run_recovered_def plan_of_def Let_def split: option.splits)
  qed
  then have "run_from_events (Suc (length steps)) R j (set_agent_status StatusRunning h) \<noteq> None"
    using assms(6) by (simp add: run_from_events_def plan_loads_def Let_def h1_def set_agent_status_def)
  then show ?thesis using assms(6) by (auto simp: RunForJob_def plan_loads_def split: option.splits)
qed

text \<open>
  A recorded HTTP response that is not JSON is lost without an error: an event is appended, but with no payload, and
  replay finds no response under the effect's id.
\<close>

theorem non_json_response_is_lost:
  fixes env :: "'x \<Rightarrow> append_env"
  assumes "resp \<noteq> []" and "json_text resp = None" and "mem_writable env w jobID"
  shows "\<exists>w' e. RecordHTTP (Some (mem_job_log env)) jobID effectID req resp w = (None, w')
    \<and> mem_stream w' jobID = mem_stream w jobID @ [e] \<and> Ev_Type e = HTTPRecorded \<and> (\<forall>rc. replay_event e rc = Some rc)"
proof -
  have "json_map [(''effect_id'', jstr effectID), (''response'', marshal_raw resp)] = None"
  proof -
    have "(''response'', None) \<in> set (map_entries [(''effect_id'', jstr effectID), (''response'', marshal_raw resp)])"
      using assms(1,2) map_entries_of [of "[(''effect_id'', jstr effectID), (''response'', marshal_raw resp)]"]
      by (intro map_of_SomeD) (simp add: marshal_raw_def)
    then have "None \<in> set (map snd (map_entries [(''effect_id'', jstr effectID), (''response'', marshal_raw resp)]))" by force
    then show ?thesis by (simp add: json_map_def json_struct_def those_None)
  qed
  then show ?thesis
    using mem.sink_append_ok [OF assms(3), of "\<lambda>_ _. or_nil (json_map [(''effect_id'', jstr effectID), (''response'', marshal_raw resp)])" "[]" HTTPRecorded]
    by (auto simp: RecordHTTP_def or_nil_def appends_def replay_event_def on_http_recorded_def)
qed

section \<open>Closed examples\<close>

text \<open>A store whose job has a plan of two nodes, and a runner that is wired to it.\<close>

definition log_env :: "unit \<Rightarrow> append_env" where
  "log_env _ = \<lparr>env_now1 = 1, env_now2 = 1, env_uuid = ''u'', env_zone = 0, env_ctx = None\<rparr>"

definition log_plan :: JobEvent where
  "log_plan = JobEvent0\<lparr>Ev_JobID := ''j'', Ev_Type := PlanGenerated, Ev_Payload := fields_text [(''task_graph'', demo_text)]\<rparr>"

definition log_world :: "memoryStore \<times> unit" where
  "log_world = (NewMemoryStore\<lparr>es_byJob := [''j'' \<mapsto> [log_plan]]\<rparr>, ())"

text \<open>A node that adds its result to the payload it got.\<close>

definition log_run :: "string \<Rightarrow> (memoryStore \<times> unit) NodeRunner" where
  "log_run i ctx p h = (let p' = put_node_result i (GBool True) p in (NodeReturns p' (Some p') None, h))"

definition log_registry :: "((memoryStore \<times> unit) NodeRunner, goerr) NodeAdapterRegistry" where
  "log_registry = [''tool'' \<mapsto> Some (\<lambda>n. Inr (log_run (TN_ID n)))]"

definition log_steps :: "(memoryStore \<times> unit) NodeRunner SteppableStep list" where
  "log_steps = map (\<lambda>i. \<lparr>SS_NodeID = i, SS_NodeType = ''tool'', SS_Run = log_run i\<rparr>) [''a'', ''b'']"

definition log_runner :: "(memoryStore \<times> unit) Runner" where
  "log_runner = \<lparr>RN_registry = Some log_registry,
     RN_checkpointStore = Some \<lparr>CS_Save = (\<lambda>cp w. (Inr ''cp'', w)), CS_Load = (\<lambda>i w. Inr None)\<rparr>,
     RN_jobStore = Some \<lparr>JP_UpdateCursor = (\<lambda>_ _ w. w), JP_UpdateStatus = (\<lambda>_ _ w. w)\<rparr>,
     RN_nodeEventSink = Some (sink_calls (Some (mem_job_log log_env))), RN_recordedEffects = False, RN_compensation = None,
     RN_replayBuilder = Some (replay_of (mem_job_log log_env)), RN_replayPolicy = None, RN_stepTimeout = 0, RN_stepValidators = [],
     RN_maxParallelSteps = 0, RN_run = (\<lambda>_ h. (None, h)), RN_order = (\<lambda>batch _. batch), RN_now = (\<lambda>_ _. 0),
     RN_uuid = (\<lambda>_. ''u''), RN_zone = 0\<rparr>"

definition log_host :: "(memoryStore \<times> unit) host" where
  "log_host = \<lparr>H_agent = \<lparr>AG_ID = ''agent'', AG_Name = ''agent'', AG_Session = None, AG_Status = StatusIdle\<rparr>, H_world = log_world\<rparr>"

lemma log_writable: "j \<noteq> [] \<Longrightarrow> mem_writable log_env w j"
  by (simp add: mem_writable_def append_fence_def log_env_def AttemptIDFromContext_def Let_def)

lemma log_compile: "CompileSteppable (Some log_registry) (Some (GD_Graph (demo_doc ''tool''))) = Inr log_steps"
  unfolding CompileSteppable_def option.case demo_order
  by (simp add: demo_doc_def demo_node_def log_steps_def log_registry_def node_by_id_def Registry_Get_def)

lemma log_plan_read:
  "on_plan_generated (fields_text [(''task_graph'', demo_text)]) ReplayContext0 = ReplayContext0\<lparr>RC_TaskGraphState := demo_text\<rparr>"
  by code_simp

lemma log_replay: "replay_of (mem_job_log log_env) ''j'' log_world = Inr (Some demo_context)"
proof -
  have "replay_events [log_plan] ReplayContext0 = Some (ReplayContext0\<lparr>RC_TaskGraphState := demo_text\<rparr>)"
    by (simp add: log_plan_def replay_event_def log_plan_read)
  moreover have "mem_stream log_world ''j'' = [log_plan]" by (simp add: mem_stream_def log_world_def events_of_def)
  moreover have "demo_text \<noteq> []" by (simp add: demo_text_def)
  ultimately show ?thesis
    by (simp add: mem.replay_stream phase_of_def log_plan_def demo_context_def)
qed

text \<open>The same job after its first step: the loop reads what the step returned, and the second step adds to it.\<close>

definition log_texts :: "bytes set" where
  "log_texts = {''{\"a\":true}'', ''{\"b\":true}'', ''{\"a\":true,\"b\":true}''}"

definition log_end :: JobEvent where
  "log_end = JobEvent0\<lparr>Ev_JobID := ''j'', Ev_Type := NodeFinished, Ev_Payload :=
     the (json_map (node_finished_fields ''a'' ''{\"a\":true}'' 0 ''ok'' 1 StepResultSuccess [] ''a'' [] 1))\<rparr>"

definition busy_host :: "(memoryStore \<times> unit) host" where
  "busy_host = log_host\<lparr>H_world := (NewMemoryStore\<lparr>es_byJob := [''j'' \<mapsto> [log_plan, log_end]]\<rparr>, ())\<rparr>"

lemma log_texts_stay: "steps_stay (\<lambda>t. t \<in> log_texts) log_steps"
proof -
  have "''{\"a\":true}'' = fields_text [(''a'', ''true'')]" "''{\"b\":true}'' = fields_text [(''b'', ''true'')]"
    "''{\"a\":true,\"b\":true}'' = fields_text [(''a'', ''true''), (''b'', ''true'')]"
    by code_simp+
  moreover have "json_piece 9000 (fields_text ms)" if "snd ` set ms \<subseteq> {''true''}" for ms
    using Object [of ms 8999] that by (auto intro: Word)
  ultimately have piece: "\<forall>t. t \<in> log_texts \<longrightarrow> json_piece 9000 t" by (simp add: log_texts_def)
  have d: "decode_map ''{\"a\":true}'' = MapOf [(''a'', GBool True)]" "decode_map ''{\"b\":true}'' = MapOf [(''b'', GBool True)]"
    "decode_map ''{\"a\":true,\"b\":true}'' = MapOf [(''a'', GBool True), (''b'', GBool True)]"
    by code_simp+
  have m: "marshal_map [(''a'', GBool True)] = ''{\"a\":true}''" "marshal_map [(''b'', GBool True)] = ''{\"b\":true}''"
    "marshal_map [(''a'', GBool True), (''b'', GBool True)] = ''{\"a\":true,\"b\":true}''"
    by code_simp+
  have stays: "t \<in> log_texts" if "b = [] \<or> b \<in> log_texts" "load_results b (NewAgentDAGPayload goal agent session) = Some p" "i \<in> {''a'', ''b''}"
    "results_text (PL_Results (put_node_result i (GBool True) p)) = Some t" for b goal agent session p i t
    using that unfolding log_texts_def
    by (auto simp: load_results_def d NewAgentDAGPayload_def results_of_def gmerge_def gput_def put_node_result_def results_text_def m)
  show ?thesis unfolding steps_stay_def
  proof (intro conjI ballI allI impI)
    fix step :: "(memoryStore \<times> unit) NodeRunner SteppableStep" and b goal agent session p ctx h q r e h' t
    assume st: "step \<in> set log_steps" and b: "b = [] \<or> b \<in> log_texts" "load_results b (NewAgentDAGPayload goal agent session) = Some p"
      and run: "SS_Run step ctx p h = (NodeReturns q r e, h')" and t: "results_text (PL_Results (payload_or_empty r)) = Some t"
    obtain i where i: "i \<in> {''a'', ''b''}" "step = \<lparr>SS_NodeID = i, SS_NodeType = ''tool'', SS_Run = log_run i\<rparr>"
      using st unfolding log_steps_def set_map by (elim imageE) simp
    have "r = Some (put_node_result i (GBool True) p)" using run by (auto simp: i(2) log_run_def Let_def)
    then show "t \<in> log_texts" using stays [OF b i(1)] t by (simp add: payload_or_empty_def results_of_def put_node_result_def)
  qed (use piece in blast)
qed

lemma busy_replay:
  obtains rc where "replay_of (mem_job_log log_env) ''j'' (H_world busy_host) = Inr (Some rc)" "RC_TaskGraphState rc = demo_text"
    "RC_Phase rc = PhaseExecuting" "RC_CompletedCommandIDs rc = []" "RC_PayloadResults rc = ''{\"a\":true}''"
    "RC_CompletedNodeIDs rc = [''a'']"
proof -
  have p: "json_piece 9000 ''{\"a\":true}''" using log_texts_stay by (simp add: steps_stay_def log_texts_def)
  define r0 where "r0 = ReplayContext0\<lparr>RC_TaskGraphState := demo_text\<rparr>"
  define rc where "rc = on_node_finished (Ev_Payload log_end) r0"
  have "rc = done_update ''a'' ''a'' ''{\"a\":true}'' StepResultSuccess r0"
    using node_finished_payload [OF disjI2 [OF p], of "''a''" 0 "''ok''" 1 StepResultSuccess "[]" "''a''" "[]" 1 r0]
    by (auto simp: rc_def log_end_def)
  moreover have "clean ''a'' = ''a''" by (rule clean_ascii) simp
  ultimately have rc: "RC_TaskGraphState rc = demo_text" "RC_CompletedCommandIDs rc = []" "RC_PayloadResults rc = ''{\"a\":true}''" "RC_CompletedNodeIDs rc = [''a'']"
    by (simp_all add: done_update_def isStepFailure_def r0_def ReplayContext0_def sput_def Let_def)
  have t: "Ev_Type log_end = NodeFinished" by (simp add: log_end_def)
  have "replay_events [log_plan, log_end] ReplayContext0 = Some rc"
    by (simp add: rc_def r0_def log_plan_def replay_event_def t log_plan_read)
  moreover have "mem_stream (H_world busy_host) ''j'' = [log_plan, log_end]" by (simp add: mem_stream_def busy_host_def events_of_def)
  moreover have "demo_text \<noteq> []" by (simp add: demo_text_def)
  ultimately show thesis
    using that [of "rc\<lparr>RC_Phase := PhaseExecuting\<rparr>"] rc by (simp add: mem.replay_stream phase_of_def t)
qed

theorem event_driven_run_ends_witness:
  "hasReplayProgress (case replay_of (mem_job_log log_env) ''j'' (H_world busy_host) of Inr r \<Rightarrow> r | _ \<Rightarrow> None)
    \<and> RunForJob 3 log_runner (Some (demo_job [])) busy_host \<noteq> None"
proof -
  obtain rc where rc: "replay_of (mem_job_log log_env) ''j'' (H_world busy_host) = Inr (Some rc)" "RC_TaskGraphState rc = demo_text"
    "RC_Phase rc = PhaseExecuting" "RC_CompletedCommandIDs rc = []" "RC_PayloadResults rc = ''{\"a\":true}''" "RC_CompletedNodeIDs rc = [''a'']"
    by (rule busy_replay)
  have "ReplayContext_TaskGraph rc = Some (Some (demo_doc ''tool''))"
    using demo_plan rc(2) by (simp add: ReplayContext_TaskGraph_def demo_context_def)
  then have loads: "plan_loads log_runner (replay_of (mem_job_log log_env)) (demo_job []) busy_host rc (demo_doc ''tool'') log_steps"
    by (simp add: plan_loads_def log_compile rc(1,3) log_runner_def)
  have "wired log_runner (mem_job_log log_env)" "order_ok log_runner" by (simp_all add: wired_def log_runner_def order_ok_def)
  moreover have "keeps_log mem_stream (mem_writable log_env) log_runner log_steps ''j''"
    by (auto simp: keeps_log_def log_runner_def log_steps_def log_run_def Let_def intro: quiet_extends_refl)
  moreover have "''{\"a\":true}'' \<in> log_texts" by (simp add: log_texts_def)
  ultimately have "RunForJob 3 log_runner (Some (demo_job [])) busy_host \<noteq> None"
    using event_driven_run_ends [OF _ _ log_texts_stay _ _ loads] rc(4,5) log_writable [of "''j''"] by (simp add: log_steps_def numeral_3_eq_3)
  then show ?thesis using rc(1,6) by (simp add: hasReplayProgress_def)
qed

lemma non_json_response_is_lost_witness:
  "\<exists>w' e. RecordHTTP (Some (mem_job_log log_env)) ''j'' ''h'' ''{}'' ''oops'' log_world = (None, w')
    \<and> mem_stream w' ''j'' = mem_stream log_world ''j'' @ [e] \<and> Ev_Type e = HTTPRecorded \<and> (\<forall>rc. replay_event e rc = Some rc)"
proof (rule non_json_response_is_lost)
  show "json_text ''oops'' = None" by code_simp
qed (simp_all add: log_writable)

lemma recorded_step_stays_done_witness:
  "\<exists>s rc. AppendNodeFinished (Some (mem_job_log log_env)) ''j'' ''a'' [] 0 ''ok'' 1 StepResultSuccess [] ''s1'' [] log_world = (None, (s, ()))
    \<and> replay_of (mem_job_log log_env) ''j'' (s, ()) = Inr (Some rc) \<and> ''s1'' \<in> set (RC_CompletedNodeIDs rc)"
proof -
  let ?fs = "node_finished_fields ''a'' [] 0 ''ok'' 1 StepResultSuccess [] ''s1'' []"
  obtain b where b: "json_map (?fs (int (length (mem_stream log_world ''j'')))) = Some b"
    using node_finished_payload [of "[]"] by fastforce
  obtain s where s: "AppendNodeFinished (Some (mem_job_log log_env)) ''j'' ''a'' [] 0 ''ok'' 1 StepResultSuccess [] ''s1'' [] log_world
      = (None, (s, ()))" and e: "appends mem_stream (mem_writable log_env) ''j'' NodeFinished b log_world (s, ())"
    using mem.sink_append_ok [of log_env log_world "''j''" "\<lambda>_ ver. json_map (?fs ver)" b NodeFinished] b
    by (auto simp: AppendNodeFinished_def log_writable)
  have "log_extends mem_stream (mem_writable log_env) ''j'' log_world (s, ())" using e by (auto simp: appends_def log_extends_def plain_events_def)
  then obtain rc where rc: "replay_of (mem_job_log log_env) ''j'' (s, ()) = Inr (Some rc)"
    using mem.replay_extended [OF log_replay] by blast
  have "clean ''s1'' \<in> set (RC_CompletedNodeIDs rc)"
    using recorded_step_stays_done [of log_env "''j''" "''a''" "[]" 0 "''ok''" 1 StepResultSuccess "[]" "''s1''" "[]"
        "fst log_world" "()" s "()" s "()" rc] s rc
    by (simp add: log_writable log_world_def isStepFailure_def)
  moreover have "clean ''s1'' = ''s1''" by code_simp
  ultimately show ?thesis using s rc by auto
qed

end
