(* ===== verification/Round_Trip.thy ===== *)
theory Round_Trip
  imports Json_Text Checkpoint Replay
begin

text \<open>
  Documents the program writes and reads back itself: the task graph of a job, and the snapshot of a replay context.
\<close>

section \<open>Values that survive JSON\<close>

text \<open>
  Values of the kinds that JSON has, with strings of well-formed UTF-8, numbers as the encoder prints them and maps with their keys in
  order and once, nested no deeper than the bound.  They are read back as they were.
\<close>

definition number_text :: "string \<Rightarrow> bool" where
  "number_text s \<longleftrightarrow> s \<noteq> [] \<and> (is_digit (hd s) \<or> hd s = CHR ''-'') \<and> list_all (\<lambda>x. is_digit x \<or> x \<in> set ''+-.eE'') (tl s)
     \<and> valid_number s \<and> \<not> float64_overflows s \<and> json_float s = s"

fun plain_value :: "nat \<Rightarrow> goval \<Rightarrow> bool" where
  "plain_value n GNil = True"
| "plain_value n (GBool b) = True"
| "plain_value n (GNum s) = number_text s"
| "plain_value n (GStr s) = (clean s = s)"
| "plain_value (Suc n) (GList xs) = list_all (plain_value n) xs"
| "plain_value (Suc n) (GMap ms) = (sorted (map fst ms) \<and> distinct (map fst ms) \<and> list_all (\<lambda>k. clean k = k) (map fst ms)
     \<and> list_all (plain_value n) (map snd ms))"
| "plain_value _ _ = False"

text \<open>The parser turns the tokens into the value.\<close>

definition parses_as :: "nat \<Rightarrow> token list \<Rightarrow> json \<Rightarrow> bool" where
  "parses_as n ts v \<longleftrightarrow> (\<forall>fs ex rest. length fs + n \<le> maxNestingDepth \<longrightarrow> ex = EValue \<or> ex = EValueOrEnd \<longrightarrow>
     parse fs ex (ts @ rest) = after_value v fs rest)"

lemma elements_parse_as:
  assumes "xs \<noteq> []" "\<forall>x \<in> set xs. \<exists>tk. lexes (f x) tk \<and> parses_as n tk (g x)"
  shows "\<exists>tk. lexes (joined '','' (map f xs)) tk
    \<and> (\<forall>vs fs ex rest. length fs + Suc n \<le> maxNestingDepth \<longrightarrow> ex = EValue \<or> ex = EValueOrEnd
        \<longrightarrow> parse (FArr vs # fs) ex (tk @ TPunct CHR '']'' # rest) = after_value (JArr (vs @ map g xs)) fs rest)"
  using assms
proof (induction xs rule: list_nonempty_induct)
  case (single x)
  then obtain tk where tk: "lexes (f x) tk" "parses_as n tk (g x)" by auto
  have "parse (FArr vs # fs) ex (tk @ TPunct CHR '']'' # rest) = after_value (JArr (vs @ map g [x])) fs rest"
    if "length fs + Suc n \<le> maxNestingDepth" "ex = EValue \<or> ex = EValueOrEnd" for vs fs ex rest
  proof -
    have "length (FArr vs # fs) + n \<le> maxNestingDepth" using that(1) by simp
    then have "parse (FArr vs # fs) ex (tk @ TPunct CHR '']'' # rest) = after_value (g x) (FArr vs # fs) (TPunct CHR '']'' # rest)"
      using tk(2) that(2) unfolding parses_as_def by blast
    then show ?thesis by (simp only: after_steps parse_steps list.map)
  qed
  with tk(1) show ?case by (auto simp del: parse.simps)
next
  case (cons x xs)
  then obtain tk where tk: "lexes (f x) tk" "parses_as n tk (g x)" by auto
  from cons.IH cons.prems obtain tks where tks: "lexes (joined '','' (map f xs)) tks"
    and rest: "\<And>vs fs ex rest. length fs + Suc n \<le> maxNestingDepth \<Longrightarrow> ex = EValue \<or> ex = EValueOrEnd
        \<Longrightarrow> parse (FArr vs # fs) ex (tks @ TPunct CHR '']'' # rest) = after_value (JArr (vs @ map g xs)) fs rest"
    by fastforce
  have "parse (FArr vs # fs) ex ((tk @ TPunct CHR '','' # tks) @ TPunct CHR '']'' # rest') = after_value (JArr (vs @ map g (x # xs))) fs rest'"
    if "length fs + Suc n \<le> maxNestingDepth" "ex = EValue \<or> ex = EValueOrEnd" for vs fs ex rest'
  proof -
    have "length (FArr vs # fs) + n \<le> maxNestingDepth" using that(1) by simp
    then have "parse (FArr vs # fs) ex (tk @ TPunct CHR '','' # tks @ TPunct CHR '']'' # rest')
        = after_value (g x) (FArr vs # fs) (TPunct CHR '','' # tks @ TPunct CHR '']'' # rest')"
      using tk(2) that(2) unfolding parses_as_def by blast
    also have "\<dots> = parse (FArr (vs @ [g x]) # fs) EValue (tks @ TPunct CHR '']'' # rest')" by (simp only: after_steps parse_steps)
    finally show ?thesis using rest [of fs EValue "vs @ [g x]" rest'] that(1) by (simp del: parse.simps)
  qed
  moreover have "lexes (joined '','' (map f (x # xs))) (tk @ TPunct CHR '','' # tks)"
    using lexes_comma [OF tk(1) tks] cons.hyps by (simp add: joined_Cons)
  ultimately show ?case by blast
qed

lemma members_parse_as:
  assumes "ms \<noteq> []" "\<forall>m \<in> set ms. clean (fst m) = fst m \<and> (\<exists>tk. lexes (f (snd m)) tk \<and> parses_as n tk (g (snd m)))"
  shows "\<exists>tk. lexes (joined '','' (map (\<lambda>(k, v). json_quote k @ '':'' @ f v) ms)) tk
    \<and> (\<forall>vs k fs ex rest. length fs + Suc n \<le> maxNestingDepth \<longrightarrow> ex = EKey \<or> ex = EKeyOrEnd
        \<longrightarrow> parse (FObj vs k # fs) ex (tk @ TPunct CHR ''}'' # rest) = after_value (JObj (vs @ map (\<lambda>(k, v). (k, g v)) ms)) fs rest)"
  using assms
proof (induction ms rule: list_nonempty_induct)
  case (single m)
  obtain key x where m: "m = (key, x)" by (cases m)
  with single obtain tk where key: "clean key = key" and tk: "lexes (f x) tk" "parses_as n tk (g x)" by auto
  have "parse (FObj vs k # fs) ex ((TStr key # TPunct CHR '':'' # tk) @ TPunct CHR ''}'' # rest)
      = after_value (JObj (vs @ map (\<lambda>(k, v). (k, g v)) [m])) fs rest"
    if "length fs + Suc n \<le> maxNestingDepth" "ex = EKey \<or> ex = EKeyOrEnd" for vs k fs ex rest
  proof -
    have "length (FObj vs key # fs) + n \<le> maxNestingDepth" using that(1) by simp
    then have "parse (FObj vs key # fs) EValue (tk @ TPunct CHR ''}'' # rest) = after_value (g x) (FObj vs key # fs) (TPunct CHR ''}'' # rest)"
      using tk(2) unfolding parses_as_def by blast
    also have "\<dots> = after_value (JObj (vs @ [(key, g x)])) fs rest" by (simp only: after_steps parse_steps)
    finally show ?thesis using that(2) by (auto simp: parse_steps m simp del: parse.simps)
  qed
  moreover have "lexes (joined '','' (map (\<lambda>(k, v). json_quote k @ '':'' @ f v) [m])) (TStr key # TPunct CHR '':'' # tk)"
    using lexes_member [OF tk(1), of key] by (simp add: m key)
  ultimately show ?case by blast
next
  case (cons m ms)
  obtain key x where m: "m = (key, x)" by (cases m)
  with cons obtain tk where key: "clean key = key" and tk: "lexes (f x) tk" "parses_as n tk (g x)" by auto
  from cons.IH cons.prems obtain tks where tks: "lexes (joined '','' (map (\<lambda>(k, v). json_quote k @ '':'' @ f v) ms)) tks"
    and rest: "\<And>vs k fs ex rest. length fs + Suc n \<le> maxNestingDepth \<Longrightarrow> ex = EKey \<or> ex = EKeyOrEnd
        \<Longrightarrow> parse (FObj vs k # fs) ex (tks @ TPunct CHR ''}'' # rest) = after_value (JObj (vs @ map (\<lambda>(k, v). (k, g v)) ms)) fs rest"
    by fastforce
  let ?tk = "TStr key # TPunct CHR '':'' # tk"
  have "parse (FObj vs k # fs) ex ((?tk @ TPunct CHR '','' # tks) @ TPunct CHR ''}'' # rest')
      = after_value (JObj (vs @ map (\<lambda>(k, v). (k, g v)) (m # ms))) fs rest'"
    if "length fs + Suc n \<le> maxNestingDepth" "ex = EKey \<or> ex = EKeyOrEnd" for vs k fs ex rest'
  proof -
    have "length (FObj vs key # fs) + n \<le> maxNestingDepth" using that(1) by simp
    then have "parse (FObj vs key # fs) EValue (tk @ TPunct CHR '','' # tks @ TPunct CHR ''}'' # rest')
        = after_value (g x) (FObj vs key # fs) (TPunct CHR '','' # tks @ TPunct CHR ''}'' # rest')"
      using tk(2) unfolding parses_as_def by blast
    also have "\<dots> = parse (FObj (vs @ [(key, g x)]) key # fs) EKey (tks @ TPunct CHR ''}'' # rest')" by (simp only: after_steps parse_steps)
    finally show ?thesis using rest [of fs EKey "vs @ [(key, g x)]" key rest'] that by (auto simp: parse_steps m simp del: parse.simps)
  qed
  moreover have "lexes (joined '','' (map (\<lambda>(k, v). json_quote k @ '':'' @ f v) (m # ms))) (?tk @ TPunct CHR '','' # tks)"
    using lexes_comma [OF lexes_member [OF tk(1), of key] tks] cons.hyps by (simp add: joined_Cons m key)
  ultimately show ?case by blast
qed

lemma map_entries_sorted:
  assumes "sorted (map fst m)" "distinct (map fst m)" shows "map_entries m = m"
proof -
  have "map_of (rev m) = map_of m" using map_of_inject_set [of "rev m" m] assms(2) by (simp add: rev_map [symmetric])
  then have "map_entries m = map (\<lambda>(k, v). (k, the (map_of m k))) m"
    using assms by (simp add: map_entries_def distinct_remdups_id sorted_sort_id comp_def case_prod_unfold)
  also have "\<dots> = m" using assms(2) by (intro map_idI) (auto simp: map_of_is_SomeI)
  finally show ?thesis .
qed

definition survives :: "nat \<Rightarrow> goval \<Rightarrow> json \<Rightarrow> bool" where
  "survives n v j \<longleftrightarrow> goval_json v = Some j \<and> json_piece n (json_marshal j) \<and> json_goval j = v
     \<and> (\<exists>tk. lexes (json_marshal j) tk \<and> parses_as n tk j)"

lemma number_survives:
  assumes "number_text s" shows "survives n (GNum s) (JNum s)"
proof -
  obtain c r where s: "s = c # r" using assms by (cases s) (auto simp: number_text_def)
  have n: "is_digit c \<or> c = CHR ''-''" "list_all (\<lambda>x. is_digit x \<or> x \<in> set ''+-.eE'') r" "valid_number (c # r)"
    "\<not> float64_overflows s" "json_float s = s"
    using assms unfolding number_text_def s list.sel by blast+
  have "\<not> is_ws c" "c \<noteq> CHR 0x22" "c \<notin> set ''{}[]:,''" using n(1) by auto
  then have "lex_step LNorm c = Some ([], LNum [c])" using n(1) unfolding lex_step.simps lex_norm_def by (simp only: if_True if_False)
  then have first: "lex LNorm (c # r @ q) = lex (LNum [c]) (r @ q)" for q
    by (simp del: lex_step.simps)
  have "lex LNorm (c # r @ q) = map_option ((@) [TNum (c # r)]) (lex LNorm q)" if "delim q" for q
    unfolding first using lex_number [OF n(2) that, of "[c]"] n(3) by (simp only: rev.simps append.simps)
  then have "lexes s [TNum s]" unfolding lexes_def s append_Cons by (intro allI impI)
  moreover have "parses_as n [TNum s] (JNum s)" using n(4) by (auto simp: parses_as_def after_value_def)
  moreover have "json_piece n s" unfolding s by (rule Number [OF n(1-3)])
  ultimately show ?thesis using n(5) unfolding survives_def goval_json.simps json_goval.simps json_marshal.simps by auto
qed

lemma word_survives:
  assumes "t \<in> {''null'', ''true'', ''false''}" "word_value t = Some v"
  shows "lexes t [TWord t]" "parses_as n [TWord t] v"
  using assms by (auto simp: lexes_def lex_norm_def option.map_comp comp_def lex_word_end parses_as_def after_value_def word_value_def)

lemma those_Some_iff: "(\<forall>x \<in> set xs. f x = Some (g x)) \<Longrightarrow> those (map f xs) = Some (map g xs)"
  by (induction xs) simp_all

lemma list_survives:
  assumes "\<And>x. x \<in> set xs \<Longrightarrow> survives n x (g x)" shows "survives (Suc n) (GList xs) (JArr (map g xs))"
proof -
  have g: "goval_json x = Some (g x)" "json_piece n (json_marshal (g x))" "json_goval (g x) = x"
    "\<exists>tk. lexes (json_marshal (g x)) tk \<and> parses_as n tk (g x)" if "x \<in> set xs" for x
    using assms [OF that] unfolding survives_def by blast+
  have j: "goval_json (GList xs) = Some (JArr (map g xs))"
    using g(1) those_Some_iff [of xs goval_json g] by simp
  have t: "json_marshal (JArr (map g xs)) = array_text (map (\<lambda>x. json_marshal (g x)) xs)"
    by (simp add: array_text_def comp_def)
  have p: "json_piece (Suc n) (json_marshal (JArr (map g xs)))"
    unfolding t using g(2) by (intro Array) auto
  have b: "json_goval (JArr (map g xs)) = GList xs" using g(3) by (simp add: map_idI)
  have "\<exists>tk. lexes (json_marshal (JArr (map g xs))) tk \<and> parses_as (Suc n) tk (JArr (map g xs))"
  proof (cases "xs = []")
    case True
    have "parses_as (Suc n) [TPunct CHR ''['', TPunct CHR '']''] (JArr [])" by (auto simp: parses_as_def parse_steps simp del: parse.simps)
    with True lexes_empty [of "CHR ''[''" "CHR '']''"] show ?thesis by auto
  next
    case False
    have "\<forall>x \<in> set xs. \<exists>tk. lexes (json_marshal (g x)) tk \<and> parses_as n tk (g x)" using g(4) by blast
    from elements_parse_as [OF False this] obtain tk where tk: "lexes (joined '','' (map (\<lambda>x. json_marshal (g x)) xs)) tk"
      and q: "\<And>vs fs ex rest. length fs + Suc n \<le> maxNestingDepth \<Longrightarrow> ex = EValue \<or> ex = EValueOrEnd
        \<Longrightarrow> parse (FArr vs # fs) ex (tk @ TPunct CHR '']'' # rest) = after_value (JArr (vs @ map g xs)) fs rest" by blast
    have "parse fs ex ((TPunct CHR ''['' # tk @ [TPunct CHR '']'']) @ rest) = after_value (JArr (map g xs)) fs rest"
      if "length fs + Suc n \<le> maxNestingDepth" "ex = EValue \<or> ex = EValueOrEnd" for fs ex rest
      using q [of fs EValueOrEnd "[]" rest] that by (simp add: parse_steps del: parse.simps)
    then have "parses_as (Suc n) (TPunct CHR ''['' # tk @ [TPunct CHR '']'']) (JArr (map g xs))" unfolding parses_as_def by blast
    moreover have "lexes (''['' @ joined '','' (map (\<lambda>x. json_marshal (g x)) xs) @ '']'') (TPunct CHR ''['' # tk @ [TPunct CHR '']''])"
      using lexes_bracketed [OF tk, of "CHR ''[''" "CHR '']''"] by simp
    ultimately show ?thesis unfolding t array_text_def by blast
  qed
  then show ?thesis using j p b unfolding survives_def by blast
qed

lemma map_survives:
  assumes "\<And>v. v \<in> snd ` set ms \<Longrightarrow> survives n v (g v)" "sorted (map fst ms)" "distinct (map fst ms)" "list_all (\<lambda>k. clean k = k) (map fst ms)"
  shows "survives (Suc n) (GMap ms) (JObj (map (\<lambda>(k, v). (k, g v)) ms))"
proof -
  have g: "goval_json (snd m) = Some (g (snd m))" "json_piece n (json_marshal (g (snd m)))" "json_goval (g (snd m)) = snd m"
    "\<exists>tk. lexes (json_marshal (g (snd m))) tk \<and> parses_as n tk (g (snd m))" if "m \<in> set ms" for m
    using assms(1) [OF imageI [OF that]] unfolding survives_def by blast+
  let ?js = "map (\<lambda>(k, v). (k, g v)) ms" and ?ts = "map (\<lambda>(k, v). (k, json_marshal (g v))) ms"
  have "those (map (\<lambda>(k, v). goval_json v) ms) = Some (map (\<lambda>m. g (snd m)) ms)"
    using g(1) by (intro those_Some_iff) auto
  then have j: "goval_json (GMap ms) = Some (JObj ?js)" by (simp add: zip_map_map zip_same_conv_map case_prod_unfold)
  have ks: "map fst ?ts = map fst ms" by (simp add: comp_def case_prod_unfold)
  have e1: "map_entries ?ts = ?ts" by (rule map_entries_sorted; unfold ks; rule assms)
  have e2: "map (\<lambda>(k, v). (k, json_marshal v)) ?js = ?ts" by auto
  have t: "json_marshal (JObj ?js) = fields_text ?ts" by (simp only: json_marshal.simps fields_text_def e2 e1)
  have p: "json_piece (Suc n) (json_marshal (JObj ?js))" unfolding t using g(2) by (intro Object) auto
  have "(case m of (k, v) \<Rightarrow> (k, json_goval (g v))) = m" if "m \<in> set ms" for m using g(3) [OF that] by (cases m) simp
  then have b: "json_goval (JObj ?js) = GMap ms" by (simp add: comp_def case_prod_unfold map_idI)
  have "\<exists>tk. lexes (json_marshal (JObj ?js)) tk \<and> parses_as (Suc n) tk (JObj ?js)"
  proof (cases "ms = []")
    case True
    have "parses_as (Suc n) [TPunct CHR ''{'', TPunct CHR ''}''] (JObj [])" by (auto simp: parses_as_def parse_steps simp del: parse.simps)
    with True lexes_empty [of "CHR ''{''" "CHR ''}''"] show ?thesis unfolding t by (auto simp: fields_text_def)
  next
    case False
    have "\<forall>m \<in> set ms. clean (fst m) = fst m \<and> (\<exists>tk. lexes (json_marshal (g (snd m))) tk \<and> parses_as n tk (g (snd m)))"
      using g(4) assms(4) by (simp add: list_all_iff)
    from members_parse_as [OF False this] obtain tk where tk: "lexes (joined '','' (map (\<lambda>(k, v). json_quote k @ '':'' @ json_marshal (g v)) ms)) tk"
      and q: "\<And>vs k fs ex rest. length fs + Suc n \<le> maxNestingDepth \<Longrightarrow> ex = EKey \<or> ex = EKeyOrEnd
        \<Longrightarrow> parse (FObj vs k # fs) ex (tk @ TPunct CHR ''}'' # rest) = after_value (JObj (vs @ ?js)) fs rest" by blast
    have "parse fs ex ((TPunct CHR ''{'' # tk @ [TPunct CHR ''}'']) @ rest) = after_value (JObj ?js) fs rest"
      if "length fs + Suc n \<le> maxNestingDepth" "ex = EValue \<or> ex = EValueOrEnd" for fs ex rest
      using q [of fs EKeyOrEnd "[]" "[]" rest] that by (simp add: parse_steps del: parse.simps)
    then have "parses_as (Suc n) (TPunct CHR ''{'' # tk @ [TPunct CHR ''}'']) (JObj ?js)" unfolding parses_as_def by blast
    moreover have "joined '','' (map member_text ?ts) = joined '','' (map (\<lambda>(k, v). json_quote k @ '':'' @ json_marshal (g v)) ms)"
      by (intro arg_cong [where f = "joined '',''"]) auto
    then have "lexes (fields_text ?ts) (TPunct CHR ''{'' # tk @ [TPunct CHR ''}''])"
      using lexes_bracketed [OF tk, of "CHR ''{''" "CHR ''}''"] unfolding fields_text_def by simp
    ultimately show ?thesis unfolding t by blast
  qed
  then show ?thesis using j p b unfolding survives_def by blast
qed

lemma plain_survives: "plain_value n v \<Longrightarrow> \<exists>j. survives n v j"
proof (induction n v rule: plain_value.induct)
  case (1 n)
  have "survives n GNil JNull" using word_survives [of "''null''" JNull] by (auto simp: survives_def word_value_def intro: Word)
  then show ?case by blast
next
  case (2 n b)
  have "survives n (GBool b) (JBool b)"
    using word_survives [of "''true''" "JBool True"] word_survives [of "''false''" "JBool False"]
    by (cases b) (auto simp: survives_def word_value_def intro: Word)
  then show ?case by blast
next
  case (3 n s)
  then show ?case using number_survives by auto
next
  case (4 n s)
  have "lexes (json_quote s) [TStr (clean s)]" by (simp add: lexes_def lex_quote map_option_Cons)
  moreover have "parses_as n [TStr (clean s)] (JStr (clean s))" by (auto simp: parses_as_def after_value_def)
  ultimately have "survives n (GStr s) (JStr s)" using 4 by (auto simp: survives_def intro: Quoted)
  then show ?case by blast
next
  case (5 n xs)
  then have "\<forall>x \<in> set xs. \<exists>j. survives n x j" by (simp add: list_all_iff)
  then obtain g where "\<forall>x \<in> set xs. survives n x (g x)" by metis
  then show ?case using list_survives [of xs n g] by blast
next
  case (6 n ms)
  then have "\<forall>v \<in> snd ` set ms. \<exists>j. survives n v j" by (simp add: list_all_iff)
  then obtain g where "\<forall>v \<in> snd ` set ms. survives n v (g v)" by metis
  then show ?case using map_survives [of ms n g] 6(2) by auto
qed simp_all

text \<open>A map of such values is written, and read back as the same map.\<close>

lemma plain_map_stable:
  assumes "plain_value n (GMap m)" "n \<le> maxNestingDepth"
  shows "json_stable m" "json_piece n (marshal_map m)" "sorted (map fst m)" "distinct (map fst m)"
proof -
  show s: "sorted (map fst m)" "distinct (map fst m)" using assms(1) by (cases n; simp)+
  obtain j where j: "goval_json (GMap m) = Some j" "json_piece n (json_marshal j)" "json_goval j = GMap m"
    and "\<exists>tk. lexes (json_marshal j) tk \<and> parses_as n tk j"
    using plain_survives [OF assms(1)] unfolding survives_def by blast
  then obtain tk where tk: "lexes (json_marshal j) tk" "parses_as n tk j" by blast
  have t: "marshal_map m = json_marshal j" by (simp add: marshal_map_def go_marshal_def j(1) del: goval_json.simps)
  then show "json_piece n (marshal_map m)" using j(2) by simp
  have "lex LNorm (json_marshal j) = Some tk" using tk(1) by (auto simp: lexes_def dest: spec [of _ "[]"])
  moreover have "length ([] :: frame list) + n \<le> maxNestingDepth" using assms(2) by simp
  then have "parse [] EValue (tk @ []) = after_value j [] []" using tk(2) unfolding parses_as_def by blast
  ultimately have parsed: "json_parse (marshal_map m) = Some j" by (simp add: json_parse_def t after_value_def add_value_def)
  obtain ms where ms: "j = JObj ms" using j(3) by (cases j) simp_all
  then have "map (\<lambda>(k, v). (k, json_goval v)) ms = m" using j(3) by simp
  then have "decode_map (marshal_map m) = MapOf m" using parsed ms map_entries_sorted [OF s] by (simp add: decode_map_def)
  moreover have "marshal_map m \<noteq> []" using json_piece_ends [OF j(2)] t by simp
  ultimately show "json_stable m" by (simp add: json_stable_def)
qed


section \<open>Task graphs\<close>

text \<open>
  A graph all of whose strings are well-formed UTF-8, and whose configurations are values that survive JSON.
\<close>

definition config_ok :: "gomap \<Rightarrow> bool" where
  "config_ok m \<longleftrightarrow> plain_value 9000 (GMap m)"

definition node_ok :: "TaskNode \<Rightarrow> bool" where
  "node_ok n \<longleftrightarrow> clean (TN_ID n) = TN_ID n \<and> clean (TN_Type n) = TN_Type n \<and> clean (TN_ToolName n) = TN_ToolName n
     \<and> clean (TN_Workflow n) = TN_Workflow n \<and> config_ok (TN_Config n)"

definition edge_ok :: "TaskEdge \<Rightarrow> bool" where
  "edge_ok e \<longleftrightarrow> clean (TE_From e) = TE_From e \<and> clean (TE_To e) = TE_To e"

definition graph_ok :: "GraphDoc \<Rightarrow> bool" where
  "graph_ok d \<longleftrightarrow> list_all node_ok (TG_Nodes (GD_Graph d)) \<and> list_all edge_ok (TG_Edges (GD_Graph d))
     \<and> (GD_NilNodes d \<longrightarrow> TG_Nodes (GD_Graph d) = []) \<and> (GD_NilEdges d \<longrightarrow> TG_Edges (GD_Graph d) = [])"

lemma string_field_quote_ok: "field_raws name ms = [json_quote s] \<Longrightarrow> clean s = s \<Longrightarrow> string_field name ms = Some s"
  by (simp add: string_field_quote)

lemma gmerge_sorted: "sorted (map fst m) \<Longrightarrow> distinct (map fst m) \<Longrightarrow> gmerge [] m = m"
proof -
  assume "sorted (map fst m)" "distinct (map fst m)"
  then have "fold (\<lambda>(k, v). mput k v) m [] = m" by (rule fold_mput_sorted)
  moreover have "gput k v m = mput k v m" for k v m by (simp add: gput_def mput_def)
  ultimately show ?thesis by (simp add: gmerge_def foldl_conv_fold case_prod_unfold)
qed

lemma vars_field_config:
  assumes "config_ok m" "m \<noteq> []" "field_raws name ms = [marshal_map m]"
  shows "vars_field name ms = Some m"
  using assms gmerge_sorted [of m] plain_map_stable [of 9000 m] by (simp add: vars_field_def config_ok_def json_stable_def)

lemma edge_round_trip:
  assumes "edge_ok e"
  shows "json_piece 9001 (edge_text e)" "decode_edge (edge_text e) = Some e"
proof -
  let ?ms = "[(''from'', json_quote (TE_From e)), (''to'', json_quote (TE_To e))]"
  have l: "\<forall>(k, t) \<in> set ?ms. lower_key k \<and> json_piece 9000 t" by (auto simp: lower_key_def intro: Quoted)
  then have "\<forall>t \<in> snd ` set ?ms. json_piece 9000 t" by auto
  then show "json_piece 9001 (edge_text e)" using Object [of ?ms 9000] by (simp add: edge_text_def)
  have "field_raws ''from'' ?ms = [json_quote (TE_From e)]" "field_raws ''to'' ?ms = [json_quote (TE_To e)]"
    by (simp_all add: field_raws_def)
  then show "decode_edge (edge_text e) = Some e"
    using assms decode_lower [OF l] string_field_quote_ok
    by (simp add: decode_edge_def edge_text_def edge_ok_def)
qed

lemma node_round_trip:
  assumes "node_ok n"
  shows "\<exists>t. node_text n = Some t \<and> json_piece 9001 t \<and> decode_node t = Some n"
proof -
  let ?ms = "[(''id'', json_quote (TN_ID n)), (''type'', json_quote (TN_Type n))]
    @ (if TN_Config n = [] then [] else [(''config'', marshal_map (TN_Config n))])
    @ (if TN_ToolName n = [] then [] else [(''tool_name'', json_quote (TN_ToolName n))])
    @ (if TN_Workflow n = [] then [] else [(''workflow'', json_quote (TN_Workflow n))])"
  have c: "TN_Config n \<noteq> [] \<Longrightarrow> json_piece 9000 (marshal_map (TN_Config n)) \<and> marshal_map (TN_Config n) \<noteq> []"
    using assms plain_map_stable [of 9000 "TN_Config n"] by (simp add: node_ok_def config_ok_def json_stable_def)
  have t: "node_text n = Some (fields_text ?ms)" using c by (cases "TN_Config n = []") (simp_all add: node_text_def Let_def)
  have l: "\<forall>(k, t) \<in> set ?ms. lower_key k \<and> json_piece 9000 t" using c by (auto simp: lower_key_def intro: Quoted)
  then have "\<forall>t \<in> snd ` set ?ms. json_piece 9000 t" by auto
  then have p: "json_piece 9001 (fields_text ?ms)" using Object [of ?ms 9000] by simp

  have "field_raws ''id'' ?ms = [json_quote (TN_ID n)]" "field_raws ''type'' ?ms = [json_quote (TN_Type n)]"
    "field_raws ''config'' ?ms = (if TN_Config n = [] then [] else [marshal_map (TN_Config n)])"
    "field_raws ''tool_name'' ?ms = (if TN_ToolName n = [] then [] else [json_quote (TN_ToolName n)])"
    "field_raws ''workflow'' ?ms = (if TN_Workflow n = [] then [] else [json_quote (TN_Workflow n)])"
    by (simp_all add: field_raws_def)
  then have "string_field ''id'' ?ms = Some (TN_ID n)" "string_field ''type'' ?ms = Some (TN_Type n)"
    "vars_field ''config'' ?ms = Some (TN_Config n)" "string_field ''tool_name'' ?ms = Some (TN_ToolName n)"
    "string_field ''workflow'' ?ms = Some (TN_Workflow n)"
    using assms vars_field_config [of "TN_Config n" "''config''" ?ms]
    by (auto simp: node_ok_def string_field_quote string_field_none vars_field_def split: if_splits)
  then have "decode_node (fields_text ?ms) = Some n"
    unfolding decode_node_def by (simp only: decode_lower [OF l] bind.bind_lunit) simp
  then show ?thesis using t p by blast
qed

lemma those_map_ex:
  "(\<And>x. x \<in> set xs \<Longrightarrow> \<exists>y. f x = Some y \<and> P y \<and> g y = Some x)
    \<Longrightarrow> \<exists>ys. those (map f xs) = Some ys \<and> list_all P ys \<and> those (map g ys) = Some xs"
proof (induction xs)
  case (Cons x xs)
  obtain y where "f x = Some y" "P y" "g y = Some x" using Cons.prems by force
  moreover obtain ys where "those (map f xs) = Some ys" "list_all P ys" "those (map g ys) = Some xs"
    using Cons.IH Cons.prems by force
  ultimately show ?case by auto
qed simp

lemma elems_of_null: "elems_of ''null'' = Some []"
  by (simp add: elems_of_def)

lemma list_field_text:
  assumes "list_all (json_piece n) ts"
  shows "elems_of (array_text ts) = Some ts" "array_text ts \<noteq> []" "array_text ts \<noteq> ''null''"
  using assms by (simp_all add: elems_of_def list_all_iff raw_elems_array) (simp_all add: array_text_def)

text \<open>
  C38. A task graph written by Marshal is read back by Unmarshal as it was, nil slices as nil slices.  This is for a graph whose strings
  are well-formed UTF-8 and whose configurations are made of JSON's own values: nil, booleans, strings of well-formed UTF-8, numbers as
  the encoder prints a \<open>float64\<close>, lists and maps (keys in order and once) of such values, nested at most 9000 deep.
\<close>

theorem graph_round_trip:
  assumes "graph_ok d"
  shows "Graph_Unmarshal (Graph_Marshal d) = Some d"
proof -
  let ?g = "GD_Graph d"
  obtain ns where ns: "those (map node_text (TG_Nodes ?g)) = Some ns" "list_all (json_piece 9001) ns"
    "those (map decode_node ns) = Some (TG_Nodes ?g)"
    using those_map_ex [of "TG_Nodes ?g" node_text "json_piece 9001" decode_node] assms node_round_trip
    by (auto simp: graph_ok_def list_all_iff)
  have es: "list_all (json_piece 9001) (map edge_text (TG_Edges ?g))" "those (map decode_edge (map edge_text (TG_Edges ?g))) = Some (TG_Edges ?g)"
    using assms edge_round_trip those_map_Some [of "TG_Edges ?g" "decode_edge \<circ> edge_text" id]
    by (auto simp: graph_ok_def list_all_iff)
  let ?N = "if GD_NilNodes d then ''null'' else array_text ns"
  let ?E = "if GD_NilEdges d then ''null'' else array_text (map edge_text (TG_Edges ?g))"
  let ?ms = "[(''nodes'', ?N), (''edges'', ?E)]"
  have t: "Graph_Marshal d = fields_text ?ms" using ns(1) by (simp add: Graph_Marshal_def)
  have p: "json_piece 9002 ?N" "json_piece 9002 ?E"
    using Array [of ns 9001] Array [of "map edge_text (TG_Edges ?g)" 9001] ns(2) es(1) by (auto simp: list_all_iff intro: Word)
  then have "decode_object (fields_text ?ms) = Some ?ms" by (intro decode_lower) (auto simp: lower_key_def)
  moreover have "raw_field ''nodes'' ?ms = ?N" "raw_field ''edges'' ?ms = ?E"
    by (simp_all add: raw_field_def field_raws_def)
  moreover have "elems_of ?N = Some (if GD_NilNodes d then [] else ns)"
    "elems_of ?E = Some (if GD_NilEdges d then [] else map edge_text (TG_Edges ?g))"
    using list_field_text(1) [OF ns(2)] list_field_text(1) [OF es(1)] elems_of_null by simp_all
  moreover have "those (map decode_node (if GD_NilNodes d then [] else ns)) = Some (TG_Nodes ?g)"
    "those (map decode_edge (if GD_NilEdges d then [] else map edge_text (TG_Edges ?g))) = Some (TG_Edges ?g)"
    using assms ns(3) es(2) by (auto simp: graph_ok_def)
  moreover have "nil_field ''nodes'' ?ms = GD_NilNodes d" "nil_field ''edges'' ?ms = GD_NilEdges d"
    using list_field_text(2,3) [OF ns(2)] list_field_text(2,3) [OF es(1)] by (simp_all add: nil_field_def raw_field_def field_raws_def)
  ultimately show ?thesis by (simp add: t Graph_Unmarshal_def elems_field_def)
qed

definition graph_example :: GraphDoc where
  "graph_example = \<lparr>GD_Graph = \<lparr>TG_Nodes = [\<lparr>TN_ID = ''a'', TN_Type = ''tool'',
         TN_Config = [(''args'', GMap [(''list'', GList [GNum ''10'', GNil, GStr ''x'']), (''ok'', GBool True)]), (''rate'', GNum ''0.5'')],
         TN_ToolName = ''t'', TN_Workflow = []\<rparr>,
       \<lparr>TN_ID = ''b'', TN_Type = ''tool'', TN_Config = [], TN_ToolName = [], TN_Workflow = []\<rparr>], TG_Edges = [\<lparr>TE_From = ''a'', TE_To = ''b''\<rparr>]\<rparr>,
     GD_NilNodes = False, GD_NilEdges = False\<rparr>"

lemma graph_round_trip_witness: "Graph_Unmarshal (Graph_Marshal graph_example) = Some graph_example"
proof (rule graph_round_trip)
  have c: "clean ''a'' = ''a''" "clean ''b'' = ''b''" "clean ''tool'' = ''tool''" "clean ''t'' = ''t''" "clean [] = []" "clean ''x'' = ''x''"
    "clean ''args'' = ''args''" "clean ''list'' = ''list''" "clean ''ok'' = ''ok''" "clean ''rate'' = ''rate''" by code_simp+
  have n: "number_text ''10''" "number_text ''0.5''" by code_simp+
  have "sorted [''args'', ''rate'']" "sorted [''list'', ''ok'']" by code_simp+
  moreover have e: "Suc 8999 = 9000" "Suc 8998 = 8999" "Suc 8997 = 8998" by simp_all
  note plain_value.simps(6) [of 8999, unfolded e] plain_value.simps(6) [of 8998, unfolded e] plain_value.simps(5) [of 8997, unfolded e]
  ultimately show "graph_ok graph_example"
    using c n by (simp add: graph_ok_def graph_example_def node_ok_def edge_ok_def config_ok_def)
qed

end
