(* ===== verification/Snap_Trip.thy ===== *)
theory Snap_Trip
  imports Round_Trip
begin

section \<open>Snapshots\<close>

text \<open>
  What the program keeps in a context when its events were written by its own sink, and kept as they were written: strings that are well-formed UTF-8, texts
  as the sink writes them, keys in order and once, integers of 64 bits.
\<close>

definition tidy_keys :: "string list \<Rightarrow> bool" where
  "tidy_keys ks \<longleftrightarrow> sorted ks \<and> distinct ks \<and> list_all (\<lambda>k. clean k = k) ks"

definition tidy_map :: "('a \<Rightarrow> bool) \<Rightarrow> (string \<times> 'a) list \<Rightarrow> bool" where
  "tidy_map P m \<longleftrightarrow> tidy_keys (map fst m) \<and> list_all P (map snd m)"

definition int64 :: "int \<Rightarrow> bool" where
  "int64 i \<longleftrightarrow> - (2 ^ 63) \<le> i \<and> i < 2 ^ 63"

definition tidy_change :: "StateChangeRecord \<Rightarrow> bool" where
  "tidy_change c \<longleftrightarrow> list_all (\<lambda>s. clean s = s) [SC_ResourceType c, SC_ResourceID c, SC_Operation c, SC_StepID c, SC_ToolName c,
     SC_Version c, SC_Etag c, SC_ExternalRef c]"

definition tidy :: "ReplayContext \<Rightarrow> bool" where
  "tidy rc \<longleftrightarrow> list_all (\<lambda>r. r = [] \<or> json_piece 9000 r) [RC_TaskGraphState rc, RC_PayloadResults rc, RC_WorkingMemorySnapshot rc]
     \<and> list_all (\<lambda>s. clean s = s) [RC_CursorNode rc, RC_PendingWaitNode rc]
     \<and> list_all tidy_keys [RC_CompletedNodeIDs rc, RC_CompletedCommandIDs rc, RC_PendingToolInvocations rc, RC_ApprovedCorrelationKeys rc]
     \<and> list_all (tidy_map (json_piece 9000)) [RC_PayloadResultsByNode rc, RC_CommandResults rc, RC_CompletedToolInvocations rc,
          RC_RecordedRandom rc, RC_RecordedHTTP rc]
     \<and> tidy_map (list_all tidy_change) (RC_StateChangesByStep rc) \<and> int64 (RC_Phase rc)
     \<and> tidy_map int64 (map_or_empty (Some (RC_RecordedTime rc))) \<and> tidy_map (\<lambda>u. clean u = u) (map_or_empty (Some (RC_RecordedUUID rc)))"

lemma map_round_trip:
  assumes "tidy_map P m" and "\<And>v. P v \<Longrightarrow> f v = Some (g v) \<and> json_piece n (g v) \<and> dec (g v) = Some v" and "n < maxNestingDepth"
  shows "\<exists>t. map_text f m = Some t \<and> json_piece (Suc n) t \<and> t \<noteq> [] \<and> t \<noteq> ''null'' \<and> entries_of t = Some (Some (map (\<lambda>(k, v). (k, g v)) m))
    \<and> decode_entries dec (entries_of t) = Some (Some m)"
proof -
  let ?ms = "map (\<lambda>(k, v). (k, g v)) m"
  have k: "tidy_keys (map fst m)" and P: "\<forall>(k, v) \<in> set m. P v" using assms(1) by (auto simp: tidy_map_def list_all_iff)
  have "those (map (\<lambda>(k, v). f v) m) = Some (map (\<lambda>(k, v). g v) m)" using P assms(2) by (intro those_map_Some) auto
  moreover have "zip (map fst m) (map (\<lambda>(k, v). g v) m) = ?ms" by (induction m) auto
  ultimately have t: "map_text f m = Some (fields_text ?ms)" by (simp add: map_text_def)
  have p: "\<forall>t \<in> snd ` set ?ms. json_piece n t" using P assms(2) by fastforce
  have "map (\<lambda>(k, t). (clean k, t)) ?ms = ?ms"
    using k by (auto simp: tidy_keys_def list_all_iff intro!: map_idI)
  then have raw: "map raw_member (raw_elems (fields_text ?ms)) = ?ms" using raw_members_object [OF p] by simp
  then have e: "entries_of (fields_text ?ms) = Some (Some ?ms)" by (simp add: entries_of_def fields_text_def)
  have "those (map (\<lambda>(k, r). dec r) ?ms) = Some (map snd m)"
    using P assms(2) those_map_Some [of m "\<lambda>(k, v). dec (g v)" snd] by (auto simp: comp_def case_prod_unfold)
  moreover have "zip (map fst ?ms) (map snd m) = m" by (induction m) auto
  ultimately have "decode_entries dec (entries_of (fields_text ?ms)) = Some (Some m)"
    using k fold_mput_sorted [of m] unfolding e by (simp add: decode_entries_def tidy_keys_def)
  then show ?thesis using t e Object [OF p] by (auto simp: fields_text_def)
qed

lemma set_round_trip:
  assumes "tidy_keys ks"
  shows "json_piece 9001 (array_text (map json_quote ks))" "decode_strings (elems_of (array_text (map json_quote ks))) = Some ks"
    "fold sput ks [] = ks"
proof -
  have q: "list_all (json_piece 9000) (map json_quote ks)" by (auto simp: list_all_iff intro: Quoted)
  then show "json_piece 9001 (array_text (map json_quote ks))" using Array [of "map json_quote ks" 9000] by (simp add: list_all_iff)
  have "set_string (Some []) (json_quote k) = Some k" if "k \<in> set ks" for k
    using assms that by (simp add: set_string_def quote_head tidy_keys_def list_all_iff)
  then have "those (map (set_string (Some []) \<circ> json_quote) ks) = Some (map id ks)" by (intro those_map_Some) simp
  then show "decode_strings (elems_of (array_text (map json_quote ks))) = Some ks"
    by (simp add: decode_strings_def list_field_text(1) [OF q])
  show "fold sput ks [] = ks" using assms by (simp add: tidy_keys_def fold_sput_sorted)
qed

lemma quoted_field:
  assumes "distinct (map fst qs)" "\<forall>k \<in> fst ` set qs. lower_key k" "lower_key name"
  shows "string_field name (map (\<lambda>(k, v). (k, json_quote v)) (filter (\<lambda>(k, v). b k \<or> v \<noteq> []) qs))
    = Some (clean (case map_of qs name of None \<Rightarrow> [] | Some v \<Rightarrow> v))"
proof -
  have "field_raws name (map (\<lambda>(k, v). (k, json_quote v)) (filter (\<lambda>(k, v). b k \<or> v \<noteq> []) qs))
      = (case map_of qs name of None \<Rightarrow> [] | Some v \<Rightarrow> if b name \<or> v \<noteq> [] then [json_quote v] else [])"
    using assms(1,2)
  proof (induction qs)
    case (Cons q qs)
    obtain k v where q: "q = (k, v)" by (cases q)
    have "map_of qs k = None" using Cons.prems(1) by (simp add: q map_of_eq_None_iff)
    then show ?case using Cons assms(3) by (auto simp: q field_raws_def lower_key_fold)
  qed (simp add: field_raws_def)
  then show ?thesis by (auto simp: string_field_quote string_field_none clean_def split: option.splits if_splits)
qed

definition change_fields :: "StateChangeRecord \<Rightarrow> (string \<times> string) list" where
  "change_fields c = [(''resource_type'', SC_ResourceType c), (''resource_id'', SC_ResourceID c), (''operation'', SC_Operation c),
     (''step_id'', SC_StepID c), (''tool_name'', SC_ToolName c), (''version'', SC_Version c), (''etag'', SC_Etag c),
     (''external_ref'', SC_ExternalRef c)]"

lemma change_round_trip:
  assumes "tidy_change c"
  shows "json_piece 9001 (change_text c)" "decode_change (change_text c) = Some c"
proof -
  let ?b = "\<lambda>k. k \<in> {''resource_type'', ''resource_id'', ''operation''}"
  let ?ms = "map (\<lambda>(k, v). (k, json_quote v)) (filter (\<lambda>(k, v). ?b k \<or> v \<noteq> []) (change_fields c))"
  have t: "change_text c = fields_text ?ms" by (simp add: change_text_def change_fields_def)
  have keys: "distinct (map fst (change_fields c))" "\<forall>k \<in> fst ` set (change_fields c). lower_key k"
    by (simp_all add: change_fields_def lower_key_def)
  then have l: "\<forall>(k, t) \<in> set ?ms. lower_key k \<and> json_piece 9000 t" by (auto intro: Quoted)
  then have "\<forall>t \<in> snd ` set ?ms. json_piece 9000 t" by auto
  then show "json_piece 9001 (change_text c)" using Object [of ?ms 9000] by (simp add: t)
  have d: "decode_object (change_text c) = Some ?ms" unfolding t by (rule decode_lower [OF l]) simp

  obtain ms where ms: "decode_object (change_text c) = Some ms"
    and f: "\<And>name. lower_key name \<Longrightarrow> string_field name ms = Some (clean (case map_of (change_fields c) name of None \<Rightarrow> [] | Some v \<Rightarrow> v))"
    by (rule that [OF d quoted_field [OF keys]])
  show "decode_change (change_text c) = Some c"
    using assms by (simp add: decode_change_def ms f lower_key_def change_fields_def tidy_change_def)
qed

lemma changes_round_trip:
  assumes "list_all tidy_change cs"
  shows "json_piece 9002 (array_text (map change_text cs))" "decode_changes (elems_of (array_text (map change_text cs))) = Some cs"
proof -
  have q: "list_all (json_piece 9001) (map change_text cs)" using assms change_round_trip(1) by (auto simp: list_all_iff)
  then show "json_piece 9002 (array_text (map change_text cs))" using Array [of "map change_text cs" 9001] by (simp add: list_all_iff)
  have "those (map (decode_change \<circ> change_text) cs) = Some (map id cs)"
    using assms change_round_trip(2) by (intro those_map_Some) (auto simp: list_all_iff)
  then show "decode_changes (elems_of (array_text (map change_text cs))) = Some cs"
    by (simp add: decode_changes_def list_field_text(1) [OF q])
qed

lemma step_changes_round_trip:
  assumes "tidy_map (list_all tidy_change) m"
  shows "decode_step_changes (map (\<lambda>(k, cs). (k, array_text (map change_text cs))) m) = m"
proof -
  have "fold (\<lambda>(k, r). case decode_changes (elems_of r) of None \<Rightarrow> id | Some cs \<Rightarrow> mput k cs)
      (map (\<lambda>(k, cs). (k, array_text (map change_text cs))) m') acc = fold (\<lambda>(k, v). mput k v) m' acc"
    if "list_all (list_all tidy_change) (map snd m')" for m' acc
    using that by (induction m' arbitrary: acc) (auto simp: changes_round_trip)
  then show ?thesis
    using assms fold_mput_sorted [of m] by (simp add: decode_step_changes_def tidy_map_def tidy_keys_def)
qed

text \<open>The fields that are written, and what is read back of each.\<close>

definition written :: "(string \<times> bool \<times> bytes option) list \<Rightarrow> string \<Rightarrow> bytes list" where
  "written fs name = (case map_of fs name of Some (False, Some t) \<Rightarrow> [t] | _ \<Rightarrow> [])"

lemma decode_written:
  assumes "distinct (map fst fs)" "\<forall>(k, omit, t) \<in> set fs. lower_key k \<and> (omit \<or> (\<exists>x. t = Some x \<and> json_piece n x))" "n < maxNestingDepth"
  shows "\<exists>b ms. map_option (\<lambda>ts. fields_text (zip (map fst (filter (\<lambda>(n, omit, t). \<not> omit) fs)) ts))
        (those (map (\<lambda>(n, omit, t). t) (filter (\<lambda>(n, omit, t). \<not> omit) fs))) = Some b
    \<and> b \<noteq> [] \<and> decode_object b = Some ms \<and> (\<forall>name. lower_key name \<longrightarrow> field_raws name ms = written fs name)"
proof -
  let ?ms = "map (\<lambda>(k, omit, t). (k, the t)) (filter (\<lambda>(n, omit, t). \<not> omit) fs)"
  have "those (map (\<lambda>(n, omit, t). t) (filter (\<lambda>(n, omit, t). \<not> omit) fs)) = Some (map (\<lambda>(k, omit, t). the t) (filter (\<lambda>(n, omit, t). \<not> omit) fs))"
    using assms(2) by (intro those_map_Some) auto
  moreover have "zip (map fst gs) (map (\<lambda>(k, omit, t). the t) gs) = map (\<lambda>(k, omit, t). (k, the t)) gs"
    for gs :: "(string \<times> bool \<times> bytes option) list" by (induction gs) auto
  moreover have "decode_object (fields_text ?ms) = Some ?ms" using assms(2,3) by (intro decode_lower) fastforce+
  moreover have "field_raws name ?ms = written fs name" if "lower_key name" for name
    using assms(1,2)
  proof (induction fs)
    case (Cons f fs)
    obtain k omit t where f: "f = (k, omit, t)" by (cases f)
    have "map_of fs k = None" using Cons.prems(1) by (simp add: f map_of_eq_None_iff)
    then show ?case using Cons that by (auto simp: f field_raws_def written_def lower_key_fold split: option.splits)
  qed (simp add: field_raws_def written_def)
  ultimately show ?thesis by (auto simp: fields_text_def)
qed

definition opt_raw :: "bool \<Rightarrow> bytes option \<Rightarrow> bytes list" where
  "opt_raw omit t = (if omit then [] else case t of None \<Rightarrow> [] | Some x \<Rightarrow> [x])"

lemma written_opt: "map_of fs name = Some (omit, t) \<Longrightarrow> written fs name = opt_raw omit t"
  by (simp add: written_def opt_raw_def split: option.splits)

text \<open>One kind of field after the other.\<close>

lemma raw_kind:
  assumes "r = [] \<or> json_piece 9000 r"
  shows "r = [] \<or> (\<exists>x. marshal_raw r = Some x \<and> json_piece 9500 x)"
    and "field_raws name ms = opt_raw (r = []) (marshal_raw r) \<Longrightarrow> raw_field name ms = r"
  using assms json_piece_mono [of 9000 r 9500] by (cases "r = []"; simp add: opt_raw_def raw_field_one)+

lemma string_kind:
  assumes "clean s = s" "field_raws name ms = opt_raw (s = []) (Some (json_quote s))"
  shows "string_field name ms = Some s"
  using assms by (cases "s = []") (simp_all add: opt_raw_def string_field_quote string_field_none)

lemma set_kind:
  assumes "tidy_keys ks"
  shows "json_piece 9500 (array_text (map json_quote ks))"
    and "field_raws name ms = opt_raw (ks = []) (Some (array_text (map json_quote ks)))
      \<Longrightarrow> strings_of name ms = Some ks \<and> set_of (strings_of name ms) = ks"
  using set_round_trip [OF assms]
  by (auto simp: opt_raw_def elems_field_def raw_field_one set_of_def elems_of_def decode_strings_def split: if_splits
      intro: json_piece_mono)

lemma map_kind:
  assumes "tidy_map P m" and "\<And>v. P v \<Longrightarrow> f v = Some (g v) \<and> json_piece 9400 (g v) \<and> dec (g v) = Some v"
  shows "\<exists>x. map_text f m = Some x \<and> json_piece 9500 x"
    and "field_raws name ms = opt_raw (m = []) (map_text f m)
      \<Longrightarrow> entries_field name ms = Some (if m = [] then None else Some (map (\<lambda>(k, v). (k, g v)) m))
        \<and> decode_entries dec (entries_field name ms) = Some (if m = [] then None else Some m)"
proof -
  obtain t where t: "map_text f m = Some t" "json_piece 9401 t" "t \<noteq> []" "entries_of t = Some (Some (map (\<lambda>(k, v). (k, g v)) m))"
    "decode_entries dec (entries_of t) = Some (Some m)"
    using map_round_trip [OF assms] by auto
  show "\<exists>x. map_text f m = Some x \<and> json_piece 9500 x" using t(1,2) by (auto intro: json_piece_mono)
  assume r: "field_raws name ms = opt_raw (m = []) (map_text f m)"
  show "entries_field name ms = Some (if m = [] then None else Some (map (\<lambda>(k, v). (k, g v)) m))
      \<and> decode_entries dec (entries_field name ms) = Some (if m = [] then None else Some m)"
  proof (cases "m = []")
    case True
    then have "entries_field name ms = Some None" using r by (simp add: opt_raw_def entries_field_def raw_field_one entries_of_def)
    then show ?thesis using True by (simp add: decode_entries_def)
  next
    case False
    then have "entries_field name ms = entries_of t" using r t(1) by (simp add: opt_raw_def entries_field_def raw_field_one)
    then show ?thesis using False t(4,5) by simp
  qed
qed

lemma raw_map_kind:
  assumes "tidy_map (json_piece 9000) m"
  shows "\<exists>x. map_text marshal_raw m = Some x \<and> json_piece 9500 x"
    and "field_raws name ms = opt_raw (m = []) (map_text marshal_raw m) \<Longrightarrow> entries_field name ms \<noteq> None \<and> map_or_empty (raws_of name ms) = m"
proof -
  have k: "json_piece 9000 v \<Longrightarrow> marshal_raw v = Some v \<and> json_piece 9400 v \<and> Some v = Some v" for v
    by (auto intro: json_piece_mono)
  show "\<exists>x. map_text marshal_raw m = Some x \<and> json_piece 9500 x" by (rule map_kind(1) [OF assms k])
  assume "field_raws name ms = opt_raw (m = []) (map_text marshal_raw m)"
  from map_kind(2) [OF assms k this] have "entries_field name ms \<noteq> None" "raws_of name ms = Some (if m = [] then None else Some m)"
    by (blast, blast)
  then show "entries_field name ms \<noteq> None \<and> map_or_empty (raws_of name ms) = m" by (simp add: map_or_empty_def)
qed

lemma int_map_kind:
  assumes "tidy_map int64 m"
  shows "\<exists>x. map_text (\<lambda>t. Some (dec_int t)) m = Some x \<and> json_piece 9500 x"
    and "field_raws name ms = opt_raw (m = []) (map_text (\<lambda>t. Some (dec_int t)) m)
      \<Longrightarrow> decode_entries (set_int (Some 0)) (entries_field name ms) = Some (if m = [] then None else Some m)"
proof -
  have k: "int64 v \<Longrightarrow> Some (dec_int v) = Some (dec_int v) \<and> json_piece 9400 (dec_int v) \<and> set_int (Some 0) (dec_int v) = Some v" for v
    by (simp add: set_int_def dec_int_not_null int64_def)
  show "\<exists>x. map_text (\<lambda>t. Some (dec_int t)) m = Some x \<and> json_piece 9500 x" by (rule map_kind(1) [OF assms k])
  assume r: "field_raws name ms = opt_raw (m = []) (map_text (\<lambda>t. Some (dec_int t)) m)"
  show "decode_entries (set_int (Some 0)) (entries_field name ms) = Some (if m = [] then None else Some m)"
    using map_kind(2) [OF assms k r] by blast
qed

lemma string_map_kind:
  assumes "tidy_map (\<lambda>u. clean u = u) m"
  shows "\<exists>x. map_text (\<lambda>u. Some (json_quote u)) m = Some x \<and> json_piece 9500 x"
    and "field_raws name ms = opt_raw (m = []) (map_text (\<lambda>u. Some (json_quote u)) m)
      \<Longrightarrow> decode_entries (set_string (Some [])) (entries_field name ms) = Some (if m = [] then None else Some m)"
proof -
  have k: "clean v = v \<Longrightarrow> Some (json_quote v) = Some (json_quote v) \<and> json_piece 9400 (json_quote v)
      \<and> set_string (Some []) (json_quote v) = Some v" for v
    by (simp add: set_string_def quote_head Quoted)
  show "\<exists>x. map_text (\<lambda>u. Some (json_quote u)) m = Some x \<and> json_piece 9500 x" by (rule map_kind(1) [OF assms k])
  assume r: "field_raws name ms = opt_raw (m = []) (map_text (\<lambda>u. Some (json_quote u)) m)"
  show "decode_entries (set_string (Some [])) (entries_field name ms) = Some (if m = [] then None else Some m)"
    using map_kind(2) [OF assms k r] by blast
qed

lemma changes_map_kind:
  assumes "tidy_map (list_all tidy_change) m"
  shows "\<exists>x. map_text (\<lambda>cs. Some (array_text (map change_text cs))) m = Some x \<and> json_piece 9500 x"
    and "field_raws name ms = opt_raw (m = []) (map_text (\<lambda>cs. Some (array_text (map change_text cs))) m)
      \<Longrightarrow> entries_field name ms \<noteq> None \<and> decode_step_changes (map_or_empty (raws_of name ms)) = m"
proof -
  have k: "list_all tidy_change v \<Longrightarrow> Some (array_text (map change_text v)) = Some (array_text (map change_text v))
      \<and> json_piece 9400 (array_text (map change_text v)) \<and> decode_changes (elems_of (array_text (map change_text v))) = Some v" for v
    using changes_round_trip [of v] json_piece_mono [of 9002 "array_text (map change_text v)" 9400] by simp
  show "\<exists>x. map_text (\<lambda>cs. Some (array_text (map change_text cs))) m = Some x \<and> json_piece 9500 x"
    by (rule map_kind(1) [where dec = "\<lambda>r. decode_changes (elems_of r)", OF assms k])
  assume r: "field_raws name ms = opt_raw (m = []) (map_text (\<lambda>cs. Some (array_text (map change_text cs))) m)"
  let ?l = "map (\<lambda>(k, cs). (k, array_text (map change_text cs))) m"
  have e: "entries_field name ms = Some (if m = [] then None else Some ?l)"
    using map_kind(2) [where dec = "\<lambda>r. decode_changes (elems_of r)", OF assms k r] by blast
  have "map fst ?l = map fst m" by auto
  then have "fold (\<lambda>(k, v). mput k v) ?l [] = ?l"
    using assms by (intro fold_mput_sorted) (simp_all only: tidy_map_def tidy_keys_def)
  moreover have "those (map (\<lambda>(k, r). Some r) ?l) = Some (map snd ?l)" by (induction m) auto
  moreover have "zip (map fst ?l) (map snd ?l) = ?l" by (rule zip_map_fst_snd)
  ultimately have "map_or_empty (raws_of name ms) = ?l"
    unfolding e by (cases "m = []") (simp_all add: decode_entries_def map_or_empty_def)
  then show "entries_field name ms \<noteq> None \<and> decode_step_changes (map_or_empty (raws_of name ms)) = m"
    using e step_changes_round_trip [OF assms] by simp
qed

lemma int_kind:
  assumes "int64 i"
  shows "field_raws name ms = opt_raw (i = 0) (Some (dec_int i)) \<Longrightarrow> int_field name ms = Some i"
  using assms by (cases "i = 0") (simp_all add: opt_raw_def int_field_dec int64_def, simp add: int_field_def)

section \<open>The round trip\<close>

lemma snapshot_fields_ok:
  assumes "tidy rc"
  shows "distinct (map fst (snapshot_fields rc))"
    "\<forall>(k, omit, t) \<in> set (snapshot_fields rc). lower_key k \<and> (omit \<or> (\<exists>x. t = Some x \<and> json_piece 9500 x))"
proof -
  show "distinct (map fst (snapshot_fields rc))" by (simp add: snapshot_fields_def)
  show "\<forall>(k, omit, t) \<in> set (snapshot_fields rc). lower_key k \<and> (omit \<or> (\<exists>x. t = Some x \<and> json_piece 9500 x))"
    using assms unfolding tidy_def snapshot_fields_def
    by (simp add: lower_key_def raw_kind(1) set_kind(1) int_map_kind(1) string_map_kind(1) changes_map_kind(1) raw_map_kind(1) Quoted)
qed


text \<open>What is read back of the written fields, one kind of field after the other.\<close>

lemma read_back_plain:
  assumes "tidy rc" and f: "\<And>name. lower_key name \<Longrightarrow> field_raws name ms = written (snapshot_fields rc) name"
  shows "raw_field ''task_graph_state'' ms = RC_TaskGraphState rc" "raw_field ''payload_results'' ms = RC_PayloadResults rc"
    "raw_field ''working_memory_snapshot'' ms = RC_WorkingMemorySnapshot rc"
    "string_field ''cursor_node'' ms = Some (RC_CursorNode rc)" "string_field ''pending_wait_node'' ms = Some (RC_PendingWaitNode rc)"
    "int_field ''phase'' ms = Some (RC_Phase rc)"
proof -
  have r: "field_raws name ms = opt_raw omit t" if "lower_key name" "map_of (snapshot_fields rc) name = Some (omit, t)" for name omit t
    using f [OF that(1)] written_opt [OF that(2)] by simp
  have t: "\<And>r. r \<in> {RC_TaskGraphState rc, RC_PayloadResults rc, RC_WorkingMemorySnapshot rc} \<Longrightarrow> r = [] \<or> json_piece 9000 r"
    "clean (RC_CursorNode rc) = RC_CursorNode rc" "clean (RC_PendingWaitNode rc) = RC_PendingWaitNode rc" "int64 (RC_Phase rc)"
    using assms(1) by (auto simp: tidy_def)
  show "raw_field ''task_graph_state'' ms = RC_TaskGraphState rc" "raw_field ''payload_results'' ms = RC_PayloadResults rc"
    "raw_field ''working_memory_snapshot'' ms = RC_WorkingMemorySnapshot rc"
    by (rule raw_kind(2) [OF t(1) r]; simp add: snapshot_fields_def lower_key_def)+
  show "string_field ''cursor_node'' ms = Some (RC_CursorNode rc)" "string_field ''pending_wait_node'' ms = Some (RC_PendingWaitNode rc)"
    by (rule string_kind [OF t(2) r] string_kind [OF t(3) r]; simp add: snapshot_fields_def lower_key_def)+
  show "int_field ''phase'' ms = Some (RC_Phase rc)"
    by (rule int_kind [OF t(4) r]; simp add: snapshot_fields_def lower_key_def)
qed

lemma read_back_sets:
  assumes "tidy rc" and f: "\<And>name. lower_key name \<Longrightarrow> field_raws name ms = written (snapshot_fields rc) name"
    and "(name, ks) \<in> {(''completed_node_ids'', RC_CompletedNodeIDs rc), (''completed_command_ids'', RC_CompletedCommandIDs rc),
      (''pending_tool_invocations'', RC_PendingToolInvocations rc), (''approved_correlation_keys'', RC_ApprovedCorrelationKeys rc)}"
  shows "strings_of name ms = Some ks \<and> set_of (strings_of name ms) = ks"
proof (rule set_kind(2))
  show "tidy_keys ks" using assms(1,3) by (auto simp: tidy_def)
  have "lower_key name \<and> map_of (snapshot_fields rc) name = Some (ks = [], Some (array_text (map json_quote ks)))"
    using assms(3) by (elim insertE emptyE; simp add: lower_key_def snapshot_fields_def)
  then show "field_raws name ms = opt_raw (ks = []) (Some (array_text (map json_quote ks)))" using f written_opt by simp
qed

lemma read_back_raw_maps:
  assumes "tidy rc" and f: "\<And>name. lower_key name \<Longrightarrow> field_raws name ms = written (snapshot_fields rc) name"
    and "(name, m) \<in> {(''payload_results_by_node'', RC_PayloadResultsByNode rc), (''command_results'', RC_CommandResults rc),
      (''completed_tool_invocations'', RC_CompletedToolInvocations rc), (''recorded_random'', RC_RecordedRandom rc),
      (''recorded_http'', RC_RecordedHTTP rc)}"
  shows "entries_field name ms \<noteq> None \<and> map_or_empty (raws_of name ms) = m"
proof (rule raw_map_kind(2))
  show "tidy_map (json_piece 9000) m" using assms(1,3) by (auto simp: tidy_def)
  have "lower_key name \<and> map_of (snapshot_fields rc) name = Some (m = [], map_text marshal_raw m)"
    using assms(3) by (elim insertE emptyE; simp add: lower_key_def snapshot_fields_def)
  then show "field_raws name ms = opt_raw (m = []) (map_text marshal_raw m)" using f written_opt by simp
qed

lemma read_back_typed_maps:
  assumes "tidy rc" and f: "\<And>name. lower_key name \<Longrightarrow> field_raws name ms = written (snapshot_fields rc) name"
  shows "entries_field ''state_changes_by_step'' ms \<noteq> None
      \<and> decode_step_changes (map_or_empty (raws_of ''state_changes_by_step'' ms)) = RC_StateChangesByStep rc"
    and "\<exists>m. decode_entries (set_int (Some 0)) (entries_field ''recorded_time'' ms) = Some m \<and> nil_or m (RC_RecordedTime rc)"
    and "\<exists>m. decode_entries (set_string (Some [])) (entries_field ''recorded_uuid'' ms) = Some m \<and> nil_or m (RC_RecordedUUID rc)"
proof -
  have r: "field_raws name ms = opt_raw omit t" if "lower_key name" "map_of (snapshot_fields rc) name = Some (omit, t)" for name omit t
    using f [OF that(1)] written_opt [OF that(2)] by simp
  let ?t = "map_or_empty (Some (RC_RecordedTime rc))" and ?u = "map_or_empty (Some (RC_RecordedUUID rc))"
  have t: "tidy_map (list_all tidy_change) (RC_StateChangesByStep rc)" "tidy_map int64 ?t" "tidy_map (\<lambda>u. clean u = u) ?u"
    using assms(1) by (auto simp: tidy_def)
  have e: "(x \<in> {None, Some []}) = (map_or_empty (Some x) = [])" "nil_or (if map_or_empty (Some x) = [] then None else Some (map_or_empty (Some x))) x"
    for x :: "'b list option" by (cases x; simp add: map_or_empty_def nil_or_def)+
  show "entries_field ''state_changes_by_step'' ms \<noteq> None
      \<and> decode_step_changes (map_or_empty (raws_of ''state_changes_by_step'' ms)) = RC_StateChangesByStep rc"
    by (rule changes_map_kind(2) [OF t(1) r]; simp add: snapshot_fields_def lower_key_def)
  have "decode_entries (set_int (Some 0)) (entries_field ''recorded_time'' ms) = Some (if ?t = [] then None else Some ?t)"
    by (rule int_map_kind(2) [OF t(2) r]; simp add: snapshot_fields_def lower_key_def e(1) del: insert_iff)
  then show "\<exists>m. decode_entries (set_int (Some 0)) (entries_field ''recorded_time'' ms) = Some m \<and> nil_or m (RC_RecordedTime rc)"
    using e(2) by blast
  have "decode_entries (set_string (Some [])) (entries_field ''recorded_uuid'' ms) = Some (if ?u = [] then None else Some ?u)"
    by (rule string_map_kind(2) [OF t(3) r]; simp add: snapshot_fields_def lower_key_def e(1) del: insert_iff)
  then show "\<exists>m. decode_entries (set_string (Some [])) (entries_field ''recorded_uuid'' ms) = Some m \<and> nil_or m (RC_RecordedUUID rc)"
    using e(2) by blast
qed

lemma snapshot_reads_back:
  assumes "tidy rc"
  shows "\<exists>b rc'. SerializeReplayContext (Some rc) = Some b \<and> deserializeSnapshot b = Some rc' \<and> same_context rc' rc"
proof -
  obtain b ms where b: "SerializeReplayContext (Some rc) = Some b" "b \<noteq> []" "decode_object b = Some ms"
    and f: "\<And>name. lower_key name \<Longrightarrow> field_raws name ms = written (snapshot_fields rc) name"
    using decode_written [OF snapshot_fields_ok [OF assms]] by (auto simp: SerializeReplayContext_def Let_def)
  note plain = read_back_plain [OF assms f] and sets = read_back_sets [OF assms f] and raws = read_back_raw_maps [OF assms f]
    and typed = read_back_typed_maps [OF assms f]
  obtain t u where t: "decode_entries (set_int (Some 0)) (entries_field ''recorded_time'' ms) = Some t" "nil_or t (RC_RecordedTime rc)"
    and u: "decode_entries (set_string (Some [])) (entries_field ''recorded_uuid'' ms) = Some u" "nil_or u (RC_RecordedUUID rc)"
    using typed(2,3) by blast
  have typed1: "entries_field ''state_changes_by_step'' ms \<noteq> None"
    "decode_step_changes (map_or_empty (raws_of ''state_changes_by_step'' ms)) = RC_StateChangesByStep rc"
    using typed(1) by blast+
  have ok: "payload_ok ms" using sets raws typed1(1) by (simp add: payload_ok_def plain t u)
  have set_fields: "set_of (strings_of ''completed_node_ids'' ms) = RC_CompletedNodeIDs rc"
    "set_of (strings_of ''completed_command_ids'' ms) = RC_CompletedCommandIDs rc"
    "set_of (strings_of ''pending_tool_invocations'' ms) = RC_PendingToolInvocations rc"
    "set_of (strings_of ''approved_correlation_keys'' ms) = RC_ApprovedCorrelationKeys rc"
    by (rule sets [THEN conjunct2]; simp)+
  have raw_fields: "map_or_empty (raws_of ''payload_results_by_node'' ms) = RC_PayloadResultsByNode rc"
    "map_or_empty (raws_of ''command_results'' ms) = RC_CommandResults rc"
    "map_or_empty (raws_of ''completed_tool_invocations'' ms) = RC_CompletedToolInvocations rc"
    "map_or_empty (raws_of ''recorded_random'' ms) = RC_RecordedRandom rc"
    "map_or_empty (raws_of ''recorded_http'' ms) = RC_RecordedHTTP rc"
    by (rule raws [THEN conjunct2]; simp)+
  have "deserializeSnapshot b = Some (with_maps t u rc)"
    unfolding deserializeSnapshot_def set_fields raw_fields typed1(2) b(3) t(1) u(1) plain with_maps_def
    by (simp add: b(2,3) ok set_fields raw_fields typed1(2) plain t(1) u(1) string_or_empty_def)
  moreover have "same_context (with_maps t u rc) rc" using t u by (simp add: same_context_def with_maps_def)
  ultimately show ?thesis using b(1) by blast
qed


text \<open>
  C36. Replay from a saved snapshot of a tidy context is replay from the start.  The latest snapshot is what \<open>SerializeReplayContext\<close>
  wrote for the context of the first events of the stream, and that context is tidy: its raw texts (plan, results, working memory, recorded
  values) are JSON as the program's own encoder writes it, without white space between tokens and nested at most 9000 deep, the first
  three or empty; its strings and keys are well-formed UTF-8, its keys in order and once; its phase and times fit into 64 bits.  Then
  building from the snapshot gives the context of the whole stream, up to nil maps; or it panics, which it can only where no time or no uuid had
  been recorded when the snapshot was written.
\<close>

theorem saved_snapshot_replays_the_stream:
  assumes "RS_ListEvents store jobID = Inr events" and "n \<le> length events"
    and "BuildFromEvents (Some (store\<lparr>RS_ListEvents := \<lambda>_. Inr (take n events)\<rparr>)) jobID = Inr (Some rc0)" and "tidy rc0"
    and "SerializeReplayContext (Some rc0) = Some b" and "RS_GetLatestSnapshot store jobID = Inr (Some (int n, b))"
  shows "(BuildFromSnapshot (Some store) jobID = Inl NilMapPanic \<and> (RC_RecordedTime rc0 \<in> {None, Some []} \<or> RC_RecordedUUID rc0 \<in> {None, Some []}))
    \<or> (\<exists>rc1 rc2. BuildFromSnapshot (Some store) jobID = Inr (Some rc1) \<and> BuildFromEvents (Some store) jobID = Inr (Some rc2)
        \<and> same_context rc1 rc2)"
proof -
  obtain rc where rc: "deserializeSnapshot b = Some rc" "same_context rc rc0"
    using snapshot_reads_back [OF assms(4)] assms(5) by auto
  have "\<not> no_nil rc \<Longrightarrow> RC_RecordedTime rc0 \<in> {None, Some []} \<or> RC_RecordedUUID rc0 \<in> {None, Some []}"
    using rc(2) by (auto simp: no_nil_def same_context_def nil_or_def)
  then show ?thesis
    using snapshot_replay_is_full_replay [OF assms(1,6) _ _ _ rc] assms(2,3) by auto
qed

text \<open>What is lost otherwise: the text of a plan with white space in it, and a recorded response that is empty.\<close>

theorem untidy_texts_change:
  "Option.bind (Option.bind (SerializeReplayContext (Some (ReplayContext0\<lparr>RC_TaskGraphState := ''{ }'', RC_RecordedHTTP := [(''h'', [])]\<rparr>)))
      deserializeSnapshot) (\<lambda>rc. Some (RC_TaskGraphState rc, RC_RecordedHTTP rc)) = Some (''{}'', [(''h'', ''null'')])"
  by code_simp

theorem unreadable_memory_is_not_saved:
  "SerializeReplayContext (Some (ReplayContext0\<lparr>RC_WorkingMemorySnapshot := ''oops''\<rparr>)) = None"
  by code_simp



theorem saved_snapshot_replays_the_stream_witness:
  "\<exists>rc1 rc2. BuildFromSnapshot (Some (rp_store [rp_plan, rp_start, rp_finish] 2)) ''j'' = Inr (Some rc1)
     \<and> BuildFromEvents (Some (rp_store [rp_plan, rp_start, rp_finish] 2)) ''j'' = Inr (Some rc2) \<and> same_context rc1 rc2"
proof -
  let ?st = "rp_store [rp_plan, rp_start, rp_finish] 2" and ?rc = "ReplayContext0\<lparr>RC_TaskGraphState := ''{}'',
      RC_PendingToolInvocations := [''k''], RC_Phase := PhaseExecuting\<rparr>"
  have prefix: "BuildFromEvents (Some (?st\<lparr>RS_ListEvents := \<lambda>_. Inr (take 2 [rp_plan, rp_start, rp_finish])\<rparr>)) ''j'' = Inr (Some ?rc)"
    by (rule rp_prefix) simp
  have "clean [] = []" "clean ''k'' = ''k''" "''{}'' = fields_text []" by code_simp+
  moreover have "json_piece 9000 (fields_text [])" using Object [of "[]" 8999] by simp
  ultimately have tidy: "tidy ?rc"
    by (simp add: tidy_def ReplayContext0_def tidy_keys_def tidy_map_def int64_def map_or_empty_def)
  have "replay_events [rp_finish] rp_context \<noteq> None"
    by (simp add: replay_event_def rp_finish_def rp_event_def JobEvent0_def)
  then have "BuildFromSnapshot (Some ?st) ''j'' \<noteq> Inl NilMapPanic"
    by (auto simp: BuildFromSnapshot_def rp_store_def rp_read clamp_version_def applyIncrementalEvents_def Let_def
        simp del: replay_events.simps split: option.splits)
  then show ?thesis
    using saved_snapshot_replays_the_stream [of ?st "''j''" "[rp_plan, rp_start, rp_finish]" 2 ?rc rp_snapshot, OF _ _ prefix tidy rp_written]
    by (auto simp: rp_store_def)
qed

end
