(* ===== verification/Replay_Verify.thy ===== *)
theory Replay_Verify
  imports Replay Go_Time "HOL-Library.Multiset"
begin

text \<open>
  The confirmation of a replay, \<open>internal/agent/replay/verification.go\<close>: the state changes that the events of a job
  recorded are compared with the world outside, one verifier after the other, and the outcome decides whether the
  recorded results are restored, the steps run again, the job fails or a person looks at it.  The two lookups are interfaces
  and arguments here; a call that dereferences nil is \<open>VPanic\<close>.  A message is a value of a datatype with the arguments
  of its format in the place of its text.  A map is its list of entries in the order of the iteration.
\<close>

section \<open>Types\<close>

type_synonym VerificationStatus = string

definition VerificationStatusMatch :: VerificationStatus where "VerificationStatusMatch = ''match''"
definition VerificationStatusMismatch :: VerificationStatus where "VerificationStatusMismatch = ''mismatch''"
definition VerificationStatusPending :: VerificationStatus where "VerificationStatusPending = ''pending''"
definition VerificationStatusSkipped :: VerificationStatus where "VerificationStatusSkipped = ''skipped''"
definition VerificationStatusError :: VerificationStatus where "VerificationStatusError = ''error''"

lemmas verification_statuses = VerificationStatusMatch_def VerificationStatusMismatch_def VerificationStatusPending_def
  VerificationStatusSkipped_def VerificationStatusError_def

datatype ReplayDecision = ReplayDecisionRestoreAndSkip | ReplayDecisionExecute | ReplayDecisionFail | ReplayDecisionNeedsReview

datatype verify_message = NoMessage | NoExternalReference | NotToolRecord | NoStore | EntryNotFound string | LedgerLookupError string
  | EntryConfirmed | EntryInFlight | EntryNotCommitted string
  | NotDatabase | NoResourceID | NoLookup | ResourceNotFound string | DatabaseLookupError string
  | StateMismatch "(string \<times> string) option" "(string \<times> string) option" | DatabaseVerified
  | VerifierError string string | NoVerifier | CustomMessage string

record VerificationResult =
  VR_Record :: StateChangeRecord
  VR_Status :: VerificationStatus
  VR_Message :: verify_message
  VR_CurrentValue :: string
  VR_MatchDetails :: string

datatype verify_summary = NoSummary | VerificationErrors nat nat | Mismatches nat nat | NothingToVerify | AllMatch nat

record ReplayVerificationResult =
  RV_JobID :: string
  RV_VerificationTime :: string
  RV_OverallStatus :: VerificationStatus
  RV_Decision :: ReplayDecision
  RV_Results :: "VerificationResult list"
  RV_SkippedCount :: nat
  RV_MatchedCount :: nat
  RV_MismatchCount :: nat
  RV_ErrorCount :: nat
  RV_Summary :: verify_summary

text \<open>What a call of a verifier comes to: a result, nil or not, with an error or without, or a panic.\<close>

datatype verify_call = VPanic | VReturn "VerificationResult option" "string option"

record ExternalStateVerifier =
  EV_VerifyStateChange :: "StateChangeRecord \<Rightarrow> verify_call"
  EV_Name :: string

definition pending_result :: "StateChangeRecord \<Rightarrow> VerificationResult" where
  "pending_result r = \<lparr>VR_Record = r, VR_Status = VerificationStatusPending, VR_Message = NoMessage, VR_CurrentValue = [],
     VR_MatchDetails = []\<rparr>"

definition outcome :: "StateChangeRecord \<Rightarrow> VerificationStatus \<Rightarrow> verify_message \<Rightarrow> verify_call" where
  "outcome r st msg = VReturn (Some ((pending_result r)\<lparr>VR_Status := st, VR_Message := msg\<rparr>)) None"

section \<open>The verifier of tool calls\<close>

record ToolLedgerEntry =
  TL_IdempotencyKey :: string
  TL_ExternalRef :: string
  TL_Status :: string
  TL_ResultHash :: string

text \<open>An answer of a lookup: not found, another error, or an entry that may be nil.\<close>

datatype 'a lookup = NotFoundErr | OtherErr string | Found 'a

definition verify_entry :: "StateChangeRecord \<Rightarrow> ToolLedgerEntry \<Rightarrow> verify_call" where
  "verify_entry r e =
     (if TL_Status e \<in> {''confirmed'', ''success''} then
        VReturn (Some ((pending_result r)\<lparr>VR_Status := VerificationStatusMatch, VR_Message := EntryConfirmed,
          VR_MatchDetails := ''{\"status\": \"'' @ TL_Status e @ ''\", \"result_hash\": \"'' @ TL_ResultHash e @ ''\"}''\<rparr>)) None
      else if TL_Status e = ''started'' then outcome r VerificationStatusPending EntryInFlight
      else outcome r VerificationStatusMismatch (EntryNotCommitted (TL_Status e)))"

definition verify_tool :: "(string \<Rightarrow> ToolLedgerEntry option lookup) option \<Rightarrow> StateChangeRecord \<Rightarrow> verify_call" where
  "verify_tool lookup r =
     (if SC_ExternalRef r = [] \<and> SC_ResourceID r = [] then outcome r VerificationStatusSkipped NoExternalReference
      else if SC_ToolName r = [] \<and> SC_ResourceType r \<noteq> ''tool'' \<and> SC_ResourceType r \<noteq> ''tool_invocation'' then
        outcome r VerificationStatusSkipped NotToolRecord
      else (case lookup of None \<Rightarrow> outcome r VerificationStatusError NoStore
        | Some f \<Rightarrow>
            (let ref = (if SC_ExternalRef r = [] then SC_ResourceID r else SC_ExternalRef r)
             in case f ref of NotFoundErr \<Rightarrow> outcome r VerificationStatusMismatch (EntryNotFound ref)
                | OtherErr e \<Rightarrow> outcome r VerificationStatusError (LedgerLookupError e)
                | Found None \<Rightarrow> VPanic
                | Found (Some e) \<Rightarrow> verify_entry r e)))"

definition NewToolLedgerVerifier :: "(string \<Rightarrow> ToolLedgerEntry option lookup) option \<Rightarrow> ExternalStateVerifier" where
  "NewToolLedgerVerifier lookup = \<lparr>EV_VerifyStateChange = verify_tool lookup, EV_Name = ''ToolLedgerVerifier''\<rparr>"

section \<open>The verifier of database records\<close>

text \<open>An expected and a found value, when both are given and differ.\<close>

definition difference :: "string \<Rightarrow> string \<Rightarrow> (string \<times> string) option" where
  "difference expected got = (if expected \<noteq> [] \<and> got \<noteq> [] \<and> expected \<noteq> got then Some (expected, got) else None)"

definition verify_database :: "(string \<Rightarrow> (string \<times> string) lookup) option \<Rightarrow> StateChangeRecord \<Rightarrow> verify_call" where
  "verify_database lookup r =
     (if SC_ResourceType r \<noteq> ''database'' then outcome r VerificationStatusSkipped NotDatabase
      else if SC_ResourceID r = [] then outcome r VerificationStatusSkipped NoResourceID
      else (case lookup of None \<Rightarrow> outcome r VerificationStatusError NoLookup
        | Some f \<Rightarrow>
            (case f (SC_ResourceID r) of NotFoundErr \<Rightarrow> outcome r VerificationStatusMismatch (ResourceNotFound (SC_ResourceID r))
             | OtherErr e \<Rightarrow> outcome r VerificationStatusError (DatabaseLookupError e)
             | Found (version, etag) \<Rightarrow>
                 (let dv = difference (SC_Version r) version; de = difference (SC_Etag r) etag
                  in if dv \<noteq> None \<or> de \<noteq> None then outcome r VerificationStatusMismatch (StateMismatch dv de)
                     else VReturn (Some ((pending_result r)\<lparr>VR_Status := VerificationStatusMatch, VR_Message := DatabaseVerified,
                       VR_MatchDetails := ''{\"resource_id\": \"'' @ SC_ResourceID r @ ''\", \"version\": \"'' @ version
                         @ ''\", \"etag\": \"'' @ etag @ ''\"}''\<rparr>)) None))))"

definition NewDatabaseStateVerifier :: "(string \<Rightarrow> (string \<times> string) lookup) option \<Rightarrow> ExternalStateVerifier" where
  "NewDatabaseStateVerifier lookup = \<lparr>EV_VerifyStateChange = verify_database lookup, EV_Name = ''DatabaseStateVerifier''\<rparr>"

section \<open>The verification of a replay\<close>

text \<open>The first verifier that does not skip the record decides; \<open>None\<close> is a panic.\<close>

fun verifySingleRecord :: "ExternalStateVerifier list \<Rightarrow> StateChangeRecord \<Rightarrow> VerificationResult option" where
  "verifySingleRecord [] r = Some \<lparr>VR_Record = r, VR_Status = VerificationStatusSkipped, VR_Message = NoVerifier,
     VR_CurrentValue = [], VR_MatchDetails = ''{}''\<rparr>"
| "verifySingleRecord (v # vs) r = (case EV_VerifyStateChange v r of
     VPanic \<Rightarrow> None
   | VReturn None _ \<Rightarrow> None
   | VReturn (Some res) (Some e) \<Rightarrow> Some (res\<lparr>VR_Status := VerificationStatusError, VR_Message := VerifierError (EV_Name v) e\<rparr>)
   | VReturn (Some res) None \<Rightarrow> if VR_Status res \<noteq> VerificationStatusSkipped then Some res else verifySingleRecord vs r)"

definition count_result :: "VerificationResult \<Rightarrow> ReplayVerificationResult \<Rightarrow> ReplayVerificationResult" where
  "count_result vr res = (let res' = res\<lparr>RV_Results := RV_Results res @ [vr]\<rparr>; st = VR_Status vr
     in if st = VerificationStatusMatch then res'\<lparr>RV_MatchedCount := RV_MatchedCount res + 1\<rparr>
        else if st = VerificationStatusMismatch then res'\<lparr>RV_MismatchCount := RV_MismatchCount res + 1\<rparr>
        else if st = VerificationStatusSkipped then res'\<lparr>RV_SkippedCount := RV_SkippedCount res + 1\<rparr>
        else if st = VerificationStatusError then res'\<lparr>RV_ErrorCount := RV_ErrorCount res + 1\<rparr>
        else res')"

text \<open>The two loops: the step of every change is set first, in the caller's own slice.\<close>

fun verify_changes :: "ExternalStateVerifier list \<Rightarrow> StateChangeRecord list \<Rightarrow> ReplayVerificationResult \<Rightarrow> ReplayVerificationResult option" where
  "verify_changes vs [] res = Some res"
| "verify_changes vs (r # rs) res = Option.bind (verifySingleRecord vs r) (\<lambda>vr. verify_changes vs rs (count_result vr res))"

definition set_step :: "string \<times> StateChangeRecord list \<Rightarrow> string \<times> StateChangeRecord list" where
  "set_step e = (case e of (stepID, changes) \<Rightarrow> (stepID, map (\<lambda>r. r\<lparr>SC_StepID := stepID\<rparr>) changes))"

fun verify_steps :: "ExternalStateVerifier list \<Rightarrow> (string \<times> StateChangeRecord list) list \<Rightarrow> ReplayVerificationResult
    \<Rightarrow> ReplayVerificationResult option" where
  "verify_steps vs [] res = Some res"
| "verify_steps vs (e # es) res = Option.bind (verify_changes vs (snd (set_step e)) res) (verify_steps vs es)"

definition decide :: "nat \<Rightarrow> ReplayVerificationResult \<Rightarrow> ReplayVerificationResult" where
  "decide n res =
     (if RV_ErrorCount res > 0 then res\<lparr>RV_OverallStatus := VerificationStatusError, RV_Decision := ReplayDecisionNeedsReview,
        RV_Summary := VerificationErrors (RV_ErrorCount res) n\<rparr>
      else if RV_MismatchCount res > 0 then res\<lparr>RV_OverallStatus := VerificationStatusMismatch, RV_Decision := ReplayDecisionFail,
        RV_Summary := Mismatches (RV_MismatchCount res) n\<rparr>
      else if RV_MatchedCount res = 0 \<and> RV_SkippedCount res = n then
        res\<lparr>RV_OverallStatus := VerificationStatusSkipped, RV_Decision := ReplayDecisionExecute, RV_Summary := NothingToVerify\<rparr>
      else res\<lparr>RV_OverallStatus := VerificationStatusMatch, RV_Decision := ReplayDecisionRestoreAndSkip,
        RV_Summary := AllMatch (RV_MatchedCount res)\<rparr>)"

definition all_changes :: "(string \<times> StateChangeRecord list) list \<Rightarrow> StateChangeRecord list" where
  "all_changes m = concat (map (snd \<circ> set_step) m)"

text \<open>The result, \<open>None\<close> for a panic; \<open>now\<close> is the time in UTC.  \<open>Verify\<close> has no error to return.\<close>

definition Verify :: "gotime \<Rightarrow> ExternalStateVerifier list \<Rightarrow> string \<Rightarrow> (string \<times> StateChangeRecord list) list
    \<Rightarrow> ReplayVerificationResult option" where
  "Verify now vs jobID m = map_option (decide (length (all_changes m)))
     (verify_steps vs m \<lparr>RV_JobID = jobID, RV_VerificationTime = rfc3339 0 now, RV_OverallStatus = VerificationStatusMatch,
        RV_Decision = ReplayDecisionRestoreAndSkip, RV_Results = [], RV_SkippedCount = 0, RV_MatchedCount = 0, RV_MismatchCount = 0,
        RV_ErrorCount = 0, RV_Summary = NoSummary\<rparr>)"

datatype confirm_error = ExternalStateMismatch | NeedsManualReview

text \<open>
  The context that is returned holds the state changes, with the steps \<open>Verify\<close> has set, and nothing else: its maps and sets are
  nil, which the lists write as empty and the two maps of recorded values as \<open>None\<close>.
\<close>

definition ConfirmationReplay :: "gotime \<Rightarrow> ExternalStateVerifier list \<Rightarrow> string \<Rightarrow> (string \<times> StateChangeRecord list) list
    \<Rightarrow> (ReplayContext option \<times> ReplayVerificationResult \<times> confirm_error option) option" where
  "ConfirmationReplay now vs jobID m = map_option (\<lambda>res. case RV_Decision res of
       ReplayDecisionRestoreAndSkip \<Rightarrow>
         (Some (ReplayContext0\<lparr>RC_StateChangesByStep := map set_step m, RC_RecordedTime := None, RC_RecordedUUID := None\<rparr>), res, None)
     | ReplayDecisionExecute \<Rightarrow> (None, res, None)
     | ReplayDecisionFail \<Rightarrow> (None, res, Some ExternalStateMismatch)
     | ReplayDecisionNeedsReview \<Rightarrow> (None, res, Some NeedsManualReview)) (Verify now vs jobID m)"


section \<open>The loops as one pass\<close>

lemma those_append: "those (xs @ ys) = Option.bind (those xs) (\<lambda>us. map_option ((@) us) (those ys))"
  by (cases "those ys"; induction xs) (auto split: option.splits Option.bind_split simp: bind_map_option)

lemma verify_changes_those:
  "verify_changes vs rs res = map_option (\<lambda>vrs. fold count_result vrs res) (those (map (verifySingleRecord vs) rs))"
  by (induction rs arbitrary: res) (auto split: option.splits simp: option.map_comp comp_def)

lemma verify_steps_those:
  "verify_steps vs m res = map_option (\<lambda>vrs. fold count_result vrs res) (those (map (verifySingleRecord vs) (all_changes m)))"
proof (induction m arbitrary: res)
  case (Cons e m)
  then show ?case
    by (cases "those (map (verifySingleRecord vs) (snd (set_step e)))")
      (simp_all add: verify_changes_those all_changes_def those_append option.map_comp comp_def)
qed (simp add: all_changes_def)

definition count_status :: "VerificationStatus \<Rightarrow> VerificationResult list \<Rightarrow> nat" where
  "count_status st vrs = length (filter (\<lambda>vr. VR_Status vr = st) vrs)"

lemma count_results:
  "RV_MatchedCount (fold count_result vrs res) = RV_MatchedCount res + count_status VerificationStatusMatch vrs"
  "RV_MismatchCount (fold count_result vrs res) = RV_MismatchCount res + count_status VerificationStatusMismatch vrs"
  "RV_SkippedCount (fold count_result vrs res) = RV_SkippedCount res + count_status VerificationStatusSkipped vrs"
  "RV_ErrorCount (fold count_result vrs res) = RV_ErrorCount res + count_status VerificationStatusError vrs"
  "RV_Results (fold count_result vrs res) = RV_Results res @ vrs"
  by (induction vrs arbitrary: res) (simp_all add: count_result_def count_status_def Let_def verification_statuses)

lemma count_status_zero: "count_status st vrs = 0 \<longleftrightarrow> st \<notin> VR_Status ` set vrs"
  by (auto simp: count_status_def filter_empty_conv)

lemma count_status_all: "count_status st vrs = length vrs \<longleftrightarrow> VR_Status ` set vrs \<subseteq> {st}"
  using length_filter_less [of _ vrs "\<lambda>vr. VR_Status vr = st"]
  by (auto simp: count_status_def dest: less_imp_neq intro!: filter_True arg_cong [where f = length])

text \<open>What the outcomes of the single changes come to, in whatever order they are looked at.\<close>

definition verdict :: "VerificationStatus set \<Rightarrow> ReplayDecision" where
  "verdict sts = (if VerificationStatusError \<in> sts then ReplayDecisionNeedsReview
     else if VerificationStatusMismatch \<in> sts then ReplayDecisionFail
     else if sts \<subseteq> {VerificationStatusSkipped} then ReplayDecisionExecute
     else ReplayDecisionRestoreAndSkip)"

lemma those_length: "those xs = Some ys \<Longrightarrow> length ys = length xs"
  by (induction xs arbitrary: ys) (auto split: option.splits)

lemma those_map_Some_eq: "those xs = Some ys \<Longrightarrow> xs = map Some ys"
  by (induction xs arbitrary: ys) (auto split: option.splits)

lemma those_ex: "those xs \<noteq> None \<longleftrightarrow> None \<notin> set xs"
  by (induction xs) (auto split: option.splits)

lemma verify_result:
  "Verify now vs jobID m = Some res \<Longrightarrow> \<exists>vrs. those (map (verifySingleRecord vs) (all_changes m)) = Some vrs \<and> RV_Results res = vrs
    \<and> RV_Decision res = verdict (VR_Status ` set vrs)"
proof -
  assume v: "Verify now vs jobID m = Some res"
  then obtain vrs where vrs: "those (map (verifySingleRecord vs) (all_changes m)) = Some vrs"
    by (auto simp: Verify_def verify_steps_those)
  have len: "length vrs = length (all_changes m)" using those_length [OF vrs] by simp
  have "count_status VerificationStatusMatch vrs = 0 \<and> count_status VerificationStatusSkipped vrs = length vrs
      \<longleftrightarrow> VR_Status ` set vrs \<subseteq> {VerificationStatusSkipped}"
    unfolding count_status_zero count_status_all by (auto simp: verification_statuses)
  then have "RV_Decision res = verdict (VR_Status ` set vrs)" "RV_Results res = vrs"
    using v vrs len count_status_zero [of VerificationStatusError vrs] count_status_zero [of VerificationStatusMismatch vrs]
    by (auto simp: Verify_def verify_steps_those decide_def count_results verdict_def)
  then show ?thesis using vrs by blast
qed

section \<open>Properties\<close>

text \<open>
  The decision of a verification does not depend on the order in which the map of changes is gone through: it is the
  verdict on the set of single outcomes, errors before mismatches before the rest, and whether a verifier panics does
  not depend on it either.
\<close>

theorem verification_ignores_order:
  assumes "mset m' = mset m"
  shows "rel_option (\<lambda>res res'. RV_Decision res' = RV_Decision res \<and> mset (RV_Results res') = mset (RV_Results res)
      \<and> RV_Decision res = verdict (VR_Status ` set (RV_Results res)))
    (Verify now vs jobID m) (Verify now' vs jobID m')"
proof -
  have "mset (all_changes l) = sum_mset (image_mset (\<lambda>e. mset (snd (set_step e))) (mset l))" for l
    by (induction l) (simp_all add: all_changes_def)
  then have "mset (all_changes m') = mset (all_changes m)" using assms by simp
  then have ms: "mset (map (verifySingleRecord vs) (all_changes m')) = mset (map (verifySingleRecord vs) (all_changes m))" by simp
  show ?thesis
  proof (cases "Verify now vs jobID m")
    case None
    then have "those (map (verifySingleRecord vs) (all_changes m)) = None" by (simp add: Verify_def verify_steps_those)
    then have "None \<in> set (map (verifySingleRecord vs) (all_changes m))" using those_ex by blast
    then have "None \<in> set (map (verifySingleRecord vs) (all_changes m'))" using mset_eq_setD [OF ms] by simp
    then have "those (map (verifySingleRecord vs) (all_changes m')) = None" using those_ex by blast
    then show ?thesis using None by (simp add: Verify_def verify_steps_those)
  next
    case (Some res)
    then obtain vrs where vrs: "those (map (verifySingleRecord vs) (all_changes m)) = Some vrs" "RV_Results res = vrs"
      "RV_Decision res = verdict (VR_Status ` set vrs)" using verify_result by blast
    then have "None \<notin> set (map (verifySingleRecord vs) (all_changes m'))" using mset_eq_setD [OF ms] those_ex by fastforce
    then obtain vrs' where vrs': "those (map (verifySingleRecord vs) (all_changes m')) = Some vrs'" using those_ex by blast
    then obtain res' where res': "Verify now' vs jobID m' = Some res'" by (auto simp: Verify_def verify_steps_those)
    have r: "RV_Results res' = vrs'" "RV_Decision res' = verdict (VR_Status ` set vrs')" using verify_result [OF res'] vrs' by auto
    have "mset (map Some vrs') = mset (map Some vrs)" using ms those_map_Some_eq [OF vrs(1)] those_map_Some_eq [OF vrs'] by simp
    moreover have "mset xs = image_mset the (mset (map Some xs))" for xs :: "VerificationResult list"
      by (simp add: multiset.map_comp comp_def)
    ultimately have "mset vrs' = mset vrs" by metis
    then show ?thesis using Some res' r vrs mset_eq_setD by fastforce
  qed
qed

text \<open>The records the ledger's verifier does not skip, and the reference it asks for.\<close>

definition names_tool_call :: "StateChangeRecord \<Rightarrow> bool" where
  "names_tool_call r \<longleftrightarrow> (SC_ExternalRef r \<noteq> [] \<or> SC_ResourceID r \<noteq> [])
     \<and> (SC_ToolName r \<noteq> [] \<or> SC_ResourceType r \<in> {''tool'', ''tool_invocation''})"

definition call_ref :: "StateChangeRecord \<Rightarrow> string" where
  "call_ref r = (if SC_ExternalRef r = [] then SC_ResourceID r else SC_ExternalRef r)"

lemma verify_tool_call:
  "names_tool_call r \<Longrightarrow> verify_tool (Some f) r = (case f (call_ref r) of
       NotFoundErr \<Rightarrow> outcome r VerificationStatusMismatch (EntryNotFound (call_ref r))
     | OtherErr e \<Rightarrow> outcome r VerificationStatusError (LedgerLookupError e) | Found None \<Rightarrow> VPanic | Found (Some e) \<Rightarrow> verify_entry r e)"
  unfolding verify_tool_def call_ref_def names_tool_call_def Let_def by auto

lemma verify_single:
  assumes "verifySingleRecord [NewToolLedgerVerifier (Some f), NewDatabaseStateVerifier (Some g)] r = Some vr"
    and "VR_Status vr \<notin> {VerificationStatusError, VerificationStatusMismatch}"
  shows "names_tool_call r \<Longrightarrow> \<exists>e. f (call_ref r) = Found (Some e) \<and> TL_Status e \<in> {''confirmed'', ''success'', ''started''}"
    and "\<not> names_tool_call r \<Longrightarrow> SC_ResourceType r = ''database'' \<Longrightarrow> SC_ResourceID r \<noteq> []
      \<Longrightarrow> \<exists>v e. g (SC_ResourceID r) = Found (v, e) \<and> difference (SC_Version r) v = None \<and> difference (SC_Etag r) e = None"
proof -
  note call_defs = verify_tool_def verify_database_def verify_entry_def outcome_def pending_result_def NewToolLedgerVerifier_def
    NewDatabaseStateVerifier_def verification_statuses Let_def
  { assume n: "names_tool_call r"
    note verify_tool_call [OF n, of f]
    then show "\<exists>e. f (call_ref r) = Found (Some e) \<and> TL_Status e \<in> {''confirmed'', ''success'', ''started''}"
      using assms by (auto simp: call_defs split: lookup.split_asm option.split_asm if_splits) }
  assume n: "\<not> names_tool_call r" and d: "SC_ResourceType r = ''database''" "SC_ResourceID r \<noteq> []"
  then have "SC_ToolName r = []" by (auto simp: names_tool_call_def)
  then have "verify_tool (Some f) r = outcome r VerificationStatusSkipped NotToolRecord" using d by (simp add: verify_tool_def)
  then show "\<exists>v e. g (SC_ResourceID r) = Found (v, e) \<and> difference (SC_Version r) v = None \<and> difference (SC_Etag r) e = None"
    using assms d by (auto simp: call_defs simp del: not_None_eq split: lookup.split_asm option.split_asm if_splits)
qed

text \<open>
  C39. With a ledger and a database to ask, in this order, a replay is confirmed only if nothing it checks differs: every tool
  call it recorded (a record with a reference or a resource id that has a tool name or a tool's resource type) is in the ledger as committed or
  still running, and every database record with a resource id that names no tool is in the database, with the version and the tag that
  were recorded, where both sides have one.  A database record that also names a tool counts as a tool call and is checked
  against the ledger only.
\<close>

theorem confirmed_replay_differs_nowhere:
  assumes "ConfirmationReplay now [NewToolLedgerVerifier (Some f), NewDatabaseStateVerifier (Some g)] jobID m = Some (Some rc, res, None)"
    and "r \<in> set (all_changes m)"
  shows "if names_tool_call r then \<exists>e. f (call_ref r) = Found (Some e) \<and> TL_Status e \<in> {''confirmed'', ''success'', ''started''}
    else SC_ResourceType r = ''database'' \<and> SC_ResourceID r \<noteq> [] \<longrightarrow>
      (\<exists>v e. g (SC_ResourceID r) = Found (v, e) \<and> difference (SC_Version r) v = None \<and> difference (SC_Etag r) e = None)"
proof -
  let ?vs = "[NewToolLedgerVerifier (Some f), NewDatabaseStateVerifier (Some g)]"
  have v: "Verify now ?vs jobID m = Some res" and d: "RV_Decision res = ReplayDecisionRestoreAndSkip"
  proof -
    obtain res0 where "Verify now ?vs jobID m = Some res0" using assms(1) by (auto simp: ConfirmationReplay_def)
    then show "Verify now ?vs jobID m = Some res" "RV_Decision res = ReplayDecisionRestoreAndSkip"
      using assms(1) by (cases "RV_Decision res0"; simp add: ConfirmationReplay_def)+
  qed
  obtain vrs where vrs: "those (map (verifySingleRecord ?vs) (all_changes m)) = Some vrs" "RV_Decision res = verdict (VR_Status ` set vrs)"
    using verify_result [OF v] by blast
  have "verifySingleRecord ?vs r \<in> set (map (verifySingleRecord ?vs) (all_changes m))" using assms(2) by simp
  then obtain vr where vr: "verifySingleRecord ?vs r = Some vr" "vr \<in> set vrs" unfolding those_map_Some_eq [OF vrs(1)] by auto
  moreover have "VerificationStatusError \<notin> VR_Status ` set vrs" "VerificationStatusMismatch \<notin> VR_Status ` set vrs"
    using d vrs(2) by (auto simp: verdict_def split: if_splits)
  ultimately have "VR_Status vr \<notin> {VerificationStatusError, VerificationStatusMismatch}" by (metis image_eqI insertE empty_iff)
  then show ?thesis using verify_single [OF vr(1)] by simp
qed

text \<open>
  What the tool's name hides: a database record that a tool has written is confirmed although the database holds another version.
\<close>

theorem named_record_skips_the_database:
  assumes "SC_ResourceType r = ''database''" "SC_ToolName r \<noteq> []" "SC_ResourceID r \<noteq> []"
    and "f (call_ref r) = Found (Some e)" "TL_Status e = ''success''"
  shows "\<exists>rc res. ConfirmationReplay now [NewToolLedgerVerifier (Some f), NewDatabaseStateVerifier (Some g)] jobID [(stepID, [r])]
    = Some (Some rc, res, None)"
proof -
  have n: "names_tool_call (r\<lparr>SC_StepID := stepID\<rparr>)" "call_ref (r\<lparr>SC_StepID := stepID\<rparr>) = call_ref r"
    using assms(2,3) by (simp_all add: names_tool_call_def call_ref_def)
  have "verify_tool (Some f) (r\<lparr>SC_StepID := stepID\<rparr>) = verify_entry (r\<lparr>SC_StepID := stepID\<rparr>) e"
    using assms(4) by (simp add: verify_tool_call [OF n(1)] n(2))
  then show ?thesis using assms(5)
    by (simp add: ConfirmationReplay_def Verify_def NewToolLedgerVerifier_def set_step_def all_changes_def verify_entry_def pending_result_def
        count_result_def decide_def verification_statuses Let_def)
qed

text \<open>
  A tool call that is still running is confirmed: its outcome is pending, no counter counts it, and the replay is told to
  restore its result and skip it, in a summary that says that all zero changes match.
\<close>

theorem running_call_is_confirmed:
  assumes "names_tool_call r" and "f (call_ref r) = Found (Some e)" and "TL_Status e = ''started''"
  shows "\<exists>rc res. ConfirmationReplay now [NewToolLedgerVerifier (Some f)] jobID [(stepID, [r])] = Some (Some rc, res, None)
    \<and> RV_OverallStatus res = VerificationStatusMatch \<and> RV_Summary res = AllMatch 0
    \<and> map VR_Status (RV_Results res) = [VerificationStatusPending]"
proof -
  have "names_tool_call (r\<lparr>SC_StepID := stepID\<rparr>)" "call_ref (r\<lparr>SC_StepID := stepID\<rparr>) = call_ref r"
    using assms(1) by (simp_all add: names_tool_call_def call_ref_def)
  then have "verify_tool (Some f) (r\<lparr>SC_StepID := stepID\<rparr>) = outcome (r\<lparr>SC_StepID := stepID\<rparr>) VerificationStatusPending EntryInFlight"
    using assms(2,3) by (simp add: verify_tool_call verify_entry_def)
  then show ?thesis
    by (simp add: ConfirmationReplay_def Verify_def NewToolLedgerVerifier_def set_step_def all_changes_def outcome_def pending_result_def
        count_result_def decide_def verification_statuses Let_def)
qed

section \<open>Closed examples\<close>

definition ver_call :: "string \<Rightarrow> StateChangeRecord" where
  "ver_call ref = \<lparr>SC_ResourceType = ''tool'', SC_ResourceID = [], SC_Operation = ''send'', SC_StepID = [], SC_ToolName = ''mail'',
     SC_Version = [], SC_Etag = [], SC_ExternalRef = ref\<rparr>"

definition ver_row :: "string \<Rightarrow> StateChangeRecord" where
  "ver_row v = \<lparr>SC_ResourceType = ''database'', SC_ResourceID = ''row'', SC_Operation = ''set'', SC_StepID = [], SC_ToolName = [],
     SC_Version = v, SC_Etag = [], SC_ExternalRef = []\<rparr>"

definition ver_ledger :: "string \<Rightarrow> ToolLedgerEntry option lookup" where
  "ver_ledger ref = (if ref = ''done'' then Found (Some \<lparr>TL_IdempotencyKey = ref, TL_ExternalRef = ref, TL_Status = ''success'', TL_ResultHash = ''h''\<rparr>)
     else if ref = ''run'' then Found (Some \<lparr>TL_IdempotencyKey = ref, TL_ExternalRef = ref, TL_Status = ''started'', TL_ResultHash = []\<rparr>)
     else NotFoundErr)"

definition ver_rows :: "string \<Rightarrow> (string \<times> string) lookup" where
  "ver_rows i = (if i = ''row'' then Found (''2'', ''e'') else OtherErr ''down'')"

lemma verification_ignores_order_witness:
  "map_option RV_Decision (Verify 0 [NewToolLedgerVerifier (Some ver_ledger), NewDatabaseStateVerifier (Some ver_rows)] ''j''
      [(''a'', [ver_call ''done'']), (''b'', [ver_row ''1''])]) = Some ReplayDecisionFail
   \<and> map_option RV_Decision (Verify 5 [NewToolLedgerVerifier (Some ver_ledger), NewDatabaseStateVerifier (Some ver_rows)] ''j''
      [(''b'', [ver_row ''1'']), (''a'', [ver_call ''done''])]) = Some ReplayDecisionFail"
proof -
  let ?vs = "[NewToolLedgerVerifier (Some ver_ledger), NewDatabaseStateVerifier (Some ver_rows)]"
  let ?m = "[(''a'', [ver_call ''done'']), (''b'', [ver_row ''1''])]" and ?m' = "[(''b'', [ver_row ''1'']), (''a'', [ver_call ''done''])]"
  have "map_option RV_Decision (Verify 0 ?vs ''j'' ?m) = Some ReplayDecisionFail" by code_simp
  moreover have "mset ?m' = mset ?m" by simp
  ultimately show ?thesis using verification_ignores_order [of ?m' ?m 0 ?vs "''j''" 5] by (auto simp: option_rel_Some1)
qed

lemma confirmed_replay_differs_nowhere_witness:
  "\<exists>rc res. ConfirmationReplay 0 [NewToolLedgerVerifier (Some ver_ledger), NewDatabaseStateVerifier (Some ver_rows)] ''j''
      [(''a'', [ver_call ''done'', ver_row ''2''])] = Some (Some rc, res, None) \<and> (\<exists>e. ver_rows ''row'' = Found (''2'', e))"
proof -
  let ?vs = "[NewToolLedgerVerifier (Some ver_ledger), NewDatabaseStateVerifier (Some ver_rows)]" and ?m = "[(''a'', [ver_call ''done'', ver_row ''2''])]"
  have "map_option (\<lambda>(rc, res, e). rc \<noteq> None \<and> e = None) (ConfirmationReplay 0 ?vs ''j'' ?m) = Some True" by code_simp
  then obtain rc res where c: "ConfirmationReplay 0 ?vs ''j'' ?m = Some (Some rc, res, None)" by auto
  have "\<not> names_tool_call ((ver_row ''2'')\<lparr>SC_StepID := ''a''\<rparr>)" "(ver_row ''2'')\<lparr>SC_StepID := ''a''\<rparr> \<in> set (all_changes ?m)"
    by (simp_all add: names_tool_call_def ver_row_def all_changes_def set_step_def)
  with confirmed_replay_differs_nowhere [OF c] have "\<exists>v e. ver_rows ''row'' = Found (v, e) \<and> difference ''2'' v = None"
    by (fastforce simp: ver_row_def)
  then show ?thesis using c by (auto simp: ver_rows_def difference_def)
qed

theorem named_record_skips_the_database_witness:
  "\<exists>rc res. ConfirmationReplay 0 [NewToolLedgerVerifier (Some ver_ledger), NewDatabaseStateVerifier (Some ver_rows)] ''j''
      [(''a'', [(ver_row ''1'')\<lparr>SC_ToolName := ''sql'', SC_ExternalRef := ''done''\<rparr>])] = Some (Some rc, res, None)
    \<and> ver_rows ''row'' = Found (''2'', ''e'')"
proof -
  have "\<exists>rc res. ConfirmationReplay 0 [NewToolLedgerVerifier (Some ver_ledger), NewDatabaseStateVerifier (Some ver_rows)] ''j''
      [(''a'', [(ver_row ''1'')\<lparr>SC_ToolName := ''sql'', SC_ExternalRef := ''done''\<rparr>])] = Some (Some rc, res, None)"
    by (rule named_record_skips_the_database [of _ _
          "\<lparr>TL_IdempotencyKey = ''done'', TL_ExternalRef = ''done'', TL_Status = ''success'', TL_ResultHash = ''h''\<rparr>"])
      (simp_all add: ver_row_def ver_ledger_def call_ref_def)
  then show ?thesis by (simp add: ver_rows_def)
qed

lemma running_call_is_confirmed_witness:
  "\<exists>rc res. ConfirmationReplay 0 [NewToolLedgerVerifier (Some ver_ledger)] ''j'' [(''a'', [ver_call ''run''])] = Some (Some rc, res, None)
    \<and> RV_OverallStatus res = VerificationStatusMatch \<and> RV_Summary res = AllMatch 0
    \<and> map VR_Status (RV_Results res) = [VerificationStatusPending]"
  by (rule running_call_is_confirmed [of _ _ "\<lparr>TL_IdempotencyKey = ''run'', TL_ExternalRef = ''run'', TL_Status = ''started'', TL_ResultHash = []\<rparr>"])
    (simp_all add: names_tool_call_def call_ref_def ver_call_def ver_ledger_def)

end
