(* ===== verification/Run_Store.thy ===== *)
theory Run_Store
  imports Prelude Go_Value
begin

text \<open>
  The runs of the Eino runtime, kept in memory: \<open>internal/runtime/eino/run_types.go\<close> and \<open>run_store.go\<close>.  A run has a status, a
  log of numbered events and a table of tool calls; it is paused, resumed from a tool call, and told of human decisions.
  Every operation holds the store's lock throughout and is one function here, with the clock and the uuids it reads as an
  argument.  Nested values of a payload are not mutated by the store, so that a clone is a copy of the outer map.
\<close>

section \<open>Types\<close>

type_synonym RunStatus = string
type_synonym RunEventType = string

definition RunStatusPending :: RunStatus where "RunStatusPending = ''PENDING''"
definition RunStatusRunning :: RunStatus where "RunStatusRunning = ''RUNNING''"
definition RunStatusPaused :: RunStatus where "RunStatusPaused = ''PAUSED''"
definition RunStatusSucceeded :: RunStatus where "RunStatusSucceeded = ''SUCCEEDED''"
definition RunStatusFailed :: RunStatus where "RunStatusFailed = ''FAILED''"
definition RunStatusCanceled :: RunStatus where "RunStatusCanceled = ''CANCELED''"

definition EventTypeRunCreated :: RunEventType where "EventTypeRunCreated = ''RUN_CREATED''"
definition EventTypeRunPaused :: RunEventType where "EventTypeRunPaused = ''RUN_PAUSED''"
definition EventTypeRunResumed :: RunEventType where "EventTypeRunResumed = ''RUN_RESUMED''"
definition EventTypeToolCallStarted :: RunEventType where "EventTypeToolCallStarted = ''TOOL_CALL_STARTED''"
definition EventTypeToolCallEnded :: RunEventType where "EventTypeToolCallEnded = ''TOOL_CALL_ENDED''"
definition EventTypeHumanInjected :: RunEventType where "EventTypeHumanInjected = ''HUMAN_INJECTED''"

lemmas run_statuses = RunStatusPending_def RunStatusRunning_def RunStatusPaused_def RunStatusSucceeded_def RunStatusFailed_def
  RunStatusCanceled_def

lemmas run_event_types = EventTypeRunCreated_def EventTypeRunPaused_def EventTypeRunResumed_def EventTypeToolCallStarted_def
  EventTypeToolCallEnded_def EventTypeHumanInjected_def

definition ResumeModeFromToolCall :: string where "ResumeModeFromToolCall = ''FROM_TOOL_CALL''"

record BudgetPolicy =
  BP_MaxTokens :: int
  BP_MaxToolCalls :: int
  BP_MaxRetries :: int

text \<open>A map of a run or a payload may be nil.\<close>

record Run =
  RU_ID :: string
  RU_WorkflowID :: string
  RU_Status :: RunStatus
  RU_Input :: "gomap option"
  RU_Output :: "gomap option"
  RU_Budget :: BudgetPolicy
  RU_IdempotencyKey :: string
  RU_CreatedAt :: gotime
  RU_UpdatedAt :: gotime

record ToolCall =
  TC_ID :: string
  TC_RunID :: string
  TC_StepID :: string
  TC_ToolName :: string
  TC_Status :: string
  TC_RequestPayload :: "gomap option"
  TC_ResponsePayload :: "gomap option"
  TC_IdempotencyKey :: string
  TC_SideEffectSafe :: bool
  TC_ErrorMessage :: string
  TC_StartedAt :: "gotime option"
  TC_EndedAt :: "gotime option"

record RuntimeEvent =
  RE_ID :: string
  RE_RunID :: string
  RE_StepID :: string
  RE_ToolCallID :: string
  RE_Type :: RunEventType
  RE_Seq :: int
  RE_Actor :: string
  RE_Payload :: "gomap option"
  RE_OccurredAt :: gotime

record ResumeRunRequest =
  RQ_Mode :: string
  RQ_FromToolCallID :: string
  RQ_Strategy :: string
  RQ_Operator :: string
  RQ_Reason :: string
  RQ_ResumeRequestID :: string

record HumanDecision =
  HD_TargetStepID :: string
  HD_Patch :: "gomap option"
  HD_Operator :: string
  HD_Comment :: string

datatype run_error = ErrRunNotFound | ErrRunConflict | ErrInvalidRunArg | ErrToolCallNotFound

text \<open>
  A Go map whose absent keys read as the zero value is a function: the nil slice, 0, the empty inner map.
\<close>

record memoryRunStore =
  rs_runs :: "string \<rightharpoonup> Run"
  rs_events :: "string \<Rightarrow> RuntimeEvent list"
  rs_eventSeq :: "string \<Rightarrow> int"
  rs_resumeReqs :: "string \<Rightarrow> string set"
  rs_toolCalls :: "string \<Rightarrow> (string \<rightharpoonup> ToolCall)"

definition NewMemoryRunStore :: memoryRunStore where
  "NewMemoryRunStore = \<lparr>rs_runs = Map.empty, rs_events = (\<lambda>_. []), rs_eventSeq = (\<lambda>_. 0), rs_resumeReqs = (\<lambda>_. {}),
     rs_toolCalls = (\<lambda>_. Map.empty)\<rparr>"

text \<open>What a call reads from outside: two readings of the clock and two uuids.\<close>

record run_env =
  re_now :: gotime
  re_event_now :: gotime
  re_uuid :: string
  re_event_uuid :: string

section \<open>Helpers\<close>

definition actorOrSystem :: "string \<Rightarrow> string" where
  "actorOrSystem actor = (if actor = [] then ''system'' else actor)"

definition cloneMap :: "gomap option \<Rightarrow> gomap option" where
  "cloneMap m = (case m of None \<Rightarrow> None | Some [] \<Rightarrow> None | Some (e # es) \<Rightarrow> Some (e # es))"

definition cloneRun :: "Run \<Rightarrow> Run" where
  "cloneRun r = r\<lparr>RU_Input := cloneMap (RU_Input r), RU_Output := cloneMap (RU_Output r)\<rparr>"

definition cloneToolCall :: "ToolCall \<Rightarrow> ToolCall" where
  "cloneToolCall c = c\<lparr>TC_RequestPayload := cloneMap (TC_RequestPayload c), TC_ResponsePayload := cloneMap (TC_ResponsePayload c)\<rparr>"

definition cloneEvent :: "RuntimeEvent \<Rightarrow> RuntimeEvent" where
  "cloneEvent e = e\<lparr>RE_Payload := cloneMap (RE_Payload e)\<rparr>"

definition isTerminalToolCallStatus :: "string \<Rightarrow> bool" where
  "isTerminalToolCallStatus st \<longleftrightarrow> st \<in> {''SUCCEEDED'', ''FAILED'', ''TIMEOUT'', ''CANCELED''}"

definition appendEventLocked :: "run_env \<Rightarrow> string \<Rightarrow> RunEventType \<Rightarrow> string \<Rightarrow> gomap option \<Rightarrow> memoryRunStore
    \<Rightarrow> RuntimeEvent \<times> memoryRunStore" where
  "appendEventLocked env runID eventType actor payload s =
     (let n = rs_eventSeq s runID + 1;
          ev = \<lparr>RE_ID = ''ev-'' @ re_event_uuid env, RE_RunID = runID, RE_StepID = [], RE_ToolCallID = [], RE_Type = eventType, RE_Seq = n,
            RE_Actor = actor, RE_Payload = cloneMap payload, RE_OccurredAt = re_event_now env\<rparr>
      in (ev, s\<lparr>rs_eventSeq := (rs_eventSeq s)(runID := n), rs_events := (rs_events s)(runID := rs_events s runID @ [ev])\<rparr>))"

section \<open>Operations\<close>

definition CreateRun :: "run_env \<Rightarrow> Run option \<Rightarrow> memoryRunStore \<Rightarrow> (run_error + Run) \<times> memoryRunStore" where
  "CreateRun env r s = (case r of None \<Rightarrow> (Inl ErrInvalidRunArg, s)
     | Some run \<Rightarrow>
         if RU_WorkflowID run = [] then (Inl ErrInvalidRunArg, s)
         else (let copied = run\<lparr>RU_ID := (if RU_ID run = [] then ''run-'' @ re_uuid env else RU_ID run),
                     RU_Status := (if RU_Status run = [] then RunStatusPending else RU_Status run),
                     RU_CreatedAt := re_now env, RU_UpdatedAt := re_now env\<rparr>;
                   s1 = s\<lparr>rs_runs := (rs_runs s)(RU_ID copied \<mapsto> cloneRun copied)\<rparr>;
                   s2 = snd (appendEventLocked env (RU_ID copied) EventTypeRunCreated ''system''
                     (Some [(''workflow_id'', GStr (RU_WorkflowID copied))]) s1)
               in (Inr (cloneRun copied), s2)))"

definition GetRun :: "string \<Rightarrow> memoryRunStore \<Rightarrow> run_error + Run" where
  "GetRun runID s = (case rs_runs s runID of None \<Rightarrow> Inl ErrRunNotFound | Some r \<Rightarrow> Inr (cloneRun r))"

text \<open>The loop over the events after the cursor, until the page is full.\<close>

fun list_page :: "int \<Rightarrow> int \<Rightarrow> RuntimeEvent list \<Rightarrow> RuntimeEvent list \<Rightarrow> int \<Rightarrow> RuntimeEvent list \<times> int" where
  "list_page cursor limit [] out nextCursor = (out, nextCursor)"
| "list_page cursor limit (ev # evs) out nextCursor =
     (if RE_Seq ev \<le> cursor then list_page cursor limit evs out nextCursor
      else let out' = out @ [cloneEvent ev]
           in if int (length out') \<ge> limit then (out', RE_Seq ev) else list_page cursor limit evs out' (RE_Seq ev))"

definition ListEvents :: "string \<Rightarrow> int \<Rightarrow> int \<Rightarrow> memoryRunStore \<Rightarrow> run_error + RuntimeEvent list \<times> int" where
  "ListEvents runID cursor limit s = (case rs_runs s runID of None \<Rightarrow> Inl ErrRunNotFound
     | Some _ \<Rightarrow> Inr (list_page cursor (if limit \<le> 0 then 200 else limit) (rs_events s runID) [] cursor))"

definition PauseRun :: "run_env \<Rightarrow> string \<Rightarrow> string \<Rightarrow> string \<Rightarrow> memoryRunStore \<Rightarrow> (run_error + Run) \<times> memoryRunStore" where
  "PauseRun env runID reason operator s = (case rs_runs s runID of None \<Rightarrow> (Inl ErrRunNotFound, s)
     | Some r \<Rightarrow>
         if RU_Status r \<noteq> RunStatusRunning \<and> RU_Status r \<noteq> RunStatusPending then (Inl ErrRunConflict, s)
         else (let r' = r\<lparr>RU_Status := RunStatusPaused, RU_UpdatedAt := re_now env\<rparr>;
                   s1 = s\<lparr>rs_runs := (rs_runs s)(runID \<mapsto> r')\<rparr>
               in (Inr (cloneRun r'), snd (appendEventLocked env runID EventTypeRunPaused (actorOrSystem operator)
                     (Some [(''reason'', GStr reason)]) s1))))"

definition UpsertToolCall :: "run_env \<Rightarrow> ToolCall option \<Rightarrow> memoryRunStore \<Rightarrow> (run_error + ToolCall) \<times> memoryRunStore" where
  "UpsertToolCall env c s = (case c of None \<Rightarrow> (Inl ErrInvalidRunArg, s)
     | Some call \<Rightarrow>
         if TC_RunID call = [] \<or> TC_ID call = [] then (Inl ErrInvalidRunArg, s)
         else (let copied = call\<lparr>TC_StartedAt := (case TC_StartedAt call of None \<Rightarrow> Some (re_now env) | Some t \<Rightarrow> Some t),
                     TC_Status := (if TC_Status call = [] then ''PENDING'' else TC_Status call)\<rparr>;
                   runID = TC_RunID copied
               in if rs_runs s runID = None then (Inl ErrRunNotFound, s)
                  else (let prev = rs_toolCalls s runID (TC_ID copied);
                            s1 = s\<lparr>rs_toolCalls := (rs_toolCalls s)(runID := (rs_toolCalls s runID)(TC_ID copied \<mapsto> cloneToolCall copied))\<rparr>;
                            eventType = (if isTerminalToolCallStatus (TC_Status copied) then EventTypeToolCallEnded else EventTypeToolCallStarted);
                            changed = (case prev of None \<Rightarrow> True
                              | Some p \<Rightarrow> TC_Status p \<noteq> TC_Status copied \<or> TC_ToolName p \<noteq> TC_ToolName copied);
                            s2 = (if changed then snd (appendEventLocked env runID eventType ''system''
                                (Some [(''status'', GStr (TC_Status copied)), (''tool_call_id'', GStr (TC_ID copied)),
                                  (''tool_name'', GStr (TC_ToolName copied))]) s1) else s1)
                        in (Inr (cloneToolCall copied), s2))))"

definition ResumeRun :: "run_env \<Rightarrow> string \<Rightarrow> ResumeRunRequest \<Rightarrow> memoryRunStore \<Rightarrow> (run_error + Run) \<times> memoryRunStore" where
  "ResumeRun env runID req s =
     (if RQ_Mode req \<noteq> ResumeModeFromToolCall \<or> RQ_FromToolCallID req = [] \<or> RQ_Strategy req = [] then (Inl ErrInvalidRunArg, s)
      else (case rs_runs s runID of None \<Rightarrow> (Inl ErrRunNotFound, s)
        | Some r \<Rightarrow>
            if RU_Status r \<noteq> RunStatusPaused \<and> RU_Status r \<noteq> RunStatusFailed then (Inl ErrRunConflict, s)
            else if rs_toolCalls s runID (RQ_FromToolCallID req) = None then (Inl ErrToolCallNotFound, s)
            else if RQ_ResumeRequestID req \<noteq> [] \<and> RQ_ResumeRequestID req \<in> rs_resumeReqs s runID then (Inr (cloneRun r), s)
            else (let s1 = (if RQ_ResumeRequestID req \<noteq> []
                        then s\<lparr>rs_resumeReqs := (rs_resumeReqs s)(runID := insert (RQ_ResumeRequestID req) (rs_resumeReqs s runID))\<rparr> else s);
                      r' = r\<lparr>RU_Status := RunStatusRunning, RU_UpdatedAt := re_now env\<rparr>;
                      s2 = s1\<lparr>rs_runs := (rs_runs s1)(runID \<mapsto> r')\<rparr>
                  in (Inr (cloneRun r'), snd (appendEventLocked env runID EventTypeRunResumed (actorOrSystem (RQ_Operator req))
                        (Some [(''from_tool_call_id'', GStr (RQ_FromToolCallID req)), (''mode'', GStr (RQ_Mode req)),
                          (''reason'', GStr (RQ_Reason req)), (''strategy'', GStr (RQ_Strategy req))]) s2)))))"

text \<open>The patch in the event's payload is a nested map, nil where the decision has none or an empty one.\<close>

definition patch_value :: "gomap option \<Rightarrow> goval" where
  "patch_value m = (case cloneMap m of None \<Rightarrow> GNil | Some p \<Rightarrow> GMap p)"

definition InjectHumanDecision :: "run_env \<Rightarrow> string \<Rightarrow> HumanDecision \<Rightarrow> memoryRunStore
    \<Rightarrow> (run_error + RuntimeEvent) \<times> memoryRunStore" where
  "InjectHumanDecision env runID decision s =
     (if HD_TargetStepID decision = [] \<or> HD_Operator decision = [] then (Inl ErrInvalidRunArg, s)
      else (case rs_runs s runID of None \<Rightarrow> (Inl ErrRunNotFound, s)
        | Some r \<Rightarrow>
            (let s1 = s\<lparr>rs_runs := (rs_runs s)(runID \<mapsto> r\<lparr>RU_UpdatedAt := re_now env\<rparr>)\<rparr>;
                 (ev, s2) = appendEventLocked env runID EventTypeHumanInjected (HD_Operator decision)
                   (Some [(''comment'', GStr (HD_Comment decision)), (''patch'', patch_value (HD_Patch decision)),
                     (''target_step_id'', GStr (HD_TargetStepID decision))]) s1
             in (Inr (cloneEvent ev), s2))))"


section \<open>Runs of the store\<close>

text \<open>One operation of any caller; the reading operations change nothing.\<close>

inductive run_step :: "memoryRunStore \<Rightarrow> memoryRunStore \<Rightarrow> bool" where
  Create: "run_step s (snd (CreateRun env r s))"
| Pause: "run_step s (snd (PauseRun env runID reason operator s))"
| Upsert: "run_step s (snd (UpsertToolCall env c s))"
| Resume: "run_step s (snd (ResumeRun env runID req s))"
| Inject: "run_step s (snd (InjectHumanDecision env runID decision s))"

definition reachable_store :: "memoryRunStore \<Rightarrow> bool" where
  "reachable_store s \<longleftrightarrow> run_step\<^sup>*\<^sup>* NewMemoryRunStore s"

text \<open>
  Every operation leaves the store, or puts one run back with at most a new status, and appends at most one event to the log
  of that run.
\<close>

definition status_event :: "RuntimeEvent \<Rightarrow> bool" where
  "status_event e \<longleftrightarrow> RE_Type e \<in> {EventTypeRunCreated, EventTypeRunPaused, EventTypeRunResumed}"

definition status_after :: "RuntimeEvent list \<Rightarrow> RunStatus \<Rightarrow> bool" where
  "status_after es st \<longleftrightarrow> (let es' = filter status_event es in es' \<noteq> [] \<and>
     (RE_Type (last es') = EventTypeRunPaused \<longrightarrow> st = RunStatusPaused) \<and> (RE_Type (last es') = EventTypeRunResumed \<longrightarrow> st = RunStatusRunning))"

definition log_ok :: "string \<Rightarrow> RuntimeEvent list \<Rightarrow> int \<Rightarrow> bool" where
  "log_ok runID es n \<longleftrightarrow> n = int (length es) \<and> map RE_Seq es = map int [1..<Suc (length es)] \<and> (\<forall>e\<in>set es. RE_RunID e = runID)"

definition run_ok :: "memoryRunStore \<Rightarrow> string \<Rightarrow> bool" where
  "run_ok s runID \<longleftrightarrow> log_ok runID (rs_events s runID) (rs_eventSeq s runID)
     \<and> (rs_runs s runID = None \<longrightarrow> rs_events s runID = [])
     \<and> (\<forall>r. rs_runs s runID = Some r \<longrightarrow>
          RU_ID r = runID \<and> RU_WorkflowID r \<noteq> [] \<and> status_after (rs_events s runID) (RU_Status r))"

definition run_inv :: "memoryRunStore \<Rightarrow> bool" where
  "run_inv s \<longleftrightarrow> (\<forall>runID. run_ok s runID)"

lemma appendEventLocked_fields:
  assumes "appendEventLocked env runID t actor p s = (ev, s')"
  shows "rs_runs s' = rs_runs s" "rs_events s' = (rs_events s)(runID := rs_events s runID @ [ev])"
    "rs_eventSeq s' = (rs_eventSeq s)(runID := rs_eventSeq s runID + 1)" "RE_Type ev = t" "RE_RunID ev = runID"
    "RE_Seq ev = rs_eventSeq s runID + 1" "rs_toolCalls s' = rs_toolCalls s" "rs_resumeReqs s' = rs_resumeReqs s"
  using assms by (auto simp: appendEventLocked_def Let_def)

lemma log_ok_append: "log_ok runID es n \<Longrightarrow> RE_Seq ev = n + 1 \<Longrightarrow> RE_RunID ev = runID \<Longrightarrow> log_ok runID (es @ [ev]) (n + 1)"
  by (auto simp: log_ok_def)

text \<open>Putting a run back and appending an event about it keeps the invariant.\<close>

lemma run_inv_append:
  assumes "run_inv s" and "rs_events s1 = rs_events s" "rs_eventSeq s1 = rs_eventSeq s" "rs_runs s1 = (rs_runs s)(runID \<mapsto> r)"
    and "RU_ID r = runID" "RU_WorkflowID r \<noteq> []"
    and "status_after (rs_events s runID @ [fst (appendEventLocked env runID t actor p s1)]) (RU_Status r)"
  shows "run_inv (snd (appendEventLocked env runID t actor p s1))"
proof -
  obtain ev s' where a: "appendEventLocked env runID t actor p s1 = (ev, s')" by fastforce
  note f = appendEventLocked_fields [OF a]
  show ?thesis
    unfolding run_inv_def a snd_conv
  proof
    fix q
    have q: "run_ok s q" using assms(1) by (simp add: run_inv_def)
    show "run_ok s' q"
    proof (cases "q = runID")
      case True
      then show ?thesis
        using q log_ok_append [of runID "rs_events s runID" "rs_eventSeq s runID" ev] f(5,6) assms(5-7)
        by (simp add: run_ok_def f(1-3) assms(2-4) a)
    next
      case False
      then show ?thesis using q by (simp add: run_ok_def f(1-3) assms(2-4))
    qed
  qed
qed

lemma status_after_snoc:
  "RE_Type e = EventTypeRunCreated \<Longrightarrow> status_after (es @ [e]) st"
  "RE_Type e = EventTypeRunPaused \<Longrightarrow> status_after (es @ [e]) RunStatusPaused"
  "RE_Type e = EventTypeRunResumed \<Longrightarrow> status_after (es @ [e]) RunStatusRunning"
  "RE_Type e \<notin> {EventTypeRunCreated, EventTypeRunPaused, EventTypeRunResumed} \<Longrightarrow> status_after (es @ [e]) st = status_after es st"
  by (auto simp: status_after_def status_event_def Let_def run_event_types)

lemma event_type_of [simp]: "RE_Type (fst (appendEventLocked env runID t actor p s)) = t"
  by (simp add: appendEventLocked_def Let_def)

lemma run_inv_run: "run_inv s \<Longrightarrow> rs_runs s runID = Some r \<Longrightarrow> RU_ID r = runID \<and> RU_WorkflowID r \<noteq> [] \<and> status_after (rs_events s runID) (RU_Status r)"
  by (simp add: run_inv_def run_ok_def)

lemma cloneRun_simps [simp]: "RU_ID (cloneRun r) = RU_ID r" "RU_WorkflowID (cloneRun r) = RU_WorkflowID r" "RU_Status (cloneRun r) = RU_Status r"
  by (simp_all add: cloneRun_def)

lemma run_step_inv: "run_step s s' \<Longrightarrow> run_inv s \<Longrightarrow> run_inv s'"
proof (induction rule: run_step.induct)
  case (Create s env r)
  then show ?case
    by (auto simp: CreateRun_def Let_def split: option.split intro!: run_inv_append status_after_snoc(1))
next
  case (Pause s env runID reason operator)
  then show ?case
    by (auto simp: PauseRun_def Let_def split: option.split intro!: run_inv_append status_after_snoc(2) dest: run_inv_run)
next
  case (Upsert s env c)
  have same: "run_inv (s\<lparr>rs_toolCalls := tc\<rparr>)" for tc using Upsert by (simp add: run_inv_def run_ok_def)
  show ?case
  proof (cases "rs_runs s (TC_RunID (the c))")
    case None
    then show ?thesis using Upsert by (auto simp: UpsertToolCall_def Let_def split: option.split)
  next
    case (Some r)
    have "run_inv (snd (appendEventLocked env (TC_RunID (the c)) t ''system'' p (s\<lparr>rs_toolCalls := tc\<rparr>)))"
      if "t \<in> {EventTypeToolCallStarted, EventTypeToolCallEnded}" for t p tc
      using that run_inv_run [OF Upsert Some] Some Upsert
      by (intro run_inv_append [where s = s and r = r]) (auto simp: status_after_snoc(4) run_event_types)
    then show ?thesis using same Upsert by (auto simp: UpsertToolCall_def Let_def split: option.split)
  qed
next
  case (Resume s env runID req)
  then show ?case
    by (auto simp: ResumeRun_def Let_def split: option.split intro!: run_inv_append [where s = s] status_after_snoc(3) dest: run_inv_run)
next
  case (Inject s env runID decision)
  then show ?case
    by (auto simp: InjectHumanDecision_def Let_def case_prod_unfold status_after_snoc(4) run_event_types split: option.split
        intro!: run_inv_append [where s = s] dest: run_inv_run)
qed

lemma reachable_inv: "reachable_store s \<Longrightarrow> run_inv s"
  unfolding reachable_store_def
proof (induction rule: rtranclp_induct)
  case base
  show ?case by (simp add: run_inv_def run_ok_def NewMemoryRunStore_def log_ok_def)
qed (rule run_step_inv)

section \<open>Reading the log\<close>

lemma list_page_take:
  assumes "map RE_Seq evs = map int [Suc k..<Suc k + length evs]" "cursor \<le> int k" "int (length out) < limit"
  shows "list_page cursor limit evs out (int k)
    = (out @ map cloneEvent (take (nat limit - length out) evs), int (k + min (nat limit - length out) (length evs)))"
  using assms
proof (induction evs arbitrary: k out)
  case (Cons ev evs)
  have u: "[Suc k..<Suc k + length (ev # evs)] = Suc k # [Suc (Suc k)..<Suc (Suc k) + length evs]" by (simp add: upt_rec)
  then have seq: "RE_Seq ev = int (Suc k)" "map RE_Seq evs = map int [Suc (Suc k)..<Suc (Suc k) + length evs]"
    using Cons.prems(1) by simp_all
  show ?case
  proof (cases "int (Suc (length out)) \<ge> limit")
    case True
    then have "nat limit - length out = 1" using Cons.prems(3) by auto
    then show ?thesis using True seq(1) Cons.prems(2) by simp
  next
    case False
    then have "nat limit - length out = Suc (nat limit - length (out @ [cloneEvent ev]))" by auto
    then show ?thesis using False Cons.IH [OF seq(2), of "out @ [cloneEvent ev]"] seq(1) Cons.prems(2) by simp
  qed
qed simp

lemma list_page_skip: "\<forall>e\<in>set pre. RE_Seq e \<le> cursor \<Longrightarrow> list_page cursor limit (pre @ evs) out next = list_page cursor limit evs out next"
  by (induction pre) auto

lemma ListEvents_page:
  assumes "log_ok runID (rs_events s runID) n" "rs_runs s runID \<noteq> None" "k \<le> length (rs_events s runID)"
  shows "ListEvents runID (int k) limit s = (let l = (if limit \<le> 0 then 200 else nat limit) in
    Inr (map cloneEvent (take l (drop k (rs_events s runID))), int (k + min l (length (rs_events s runID) - k))))"
proof -
  let ?es = "rs_events s runID"
  have seq: "map RE_Seq ?es = map int [1..<Suc (length ?es)]" using assms(1) by (simp add: log_ok_def)
  have "map RE_Seq (take k ?es) = map int (take k [1..<Suc (length ?es)])" using seq by (metis take_map)
  then have "RE_Seq ` set (take k ?es) = int ` set (take k [1..<Suc (length ?es)])" by (metis set_map)
  moreover have "set (take k [1..<Suc (length ?es)]) = {1..<Suc k}"
    using assms(3) take_upt [of 1 k "Suc (length ?es)"] by (simp del: upt_Suc)
  ultimately have pre: "\<forall>e\<in>set (take k ?es). RE_Seq e \<le> int k" by force
  have "map RE_Seq (drop k ?es) = map int (drop k [1..<Suc (length ?es)])" using seq by (metis drop_map)
  then have "map RE_Seq (drop k ?es) = map int [Suc k..<Suc k + length (drop k ?es)]"
    using assms(3) drop_upt [of k 1 "Suc (length ?es)"] by (simp del: upt_Suc)
  then have "list_page (int k) (if limit \<le> 0 then 200 else limit) (drop k ?es) [] (int k)
      = (map cloneEvent (take (if limit \<le> 0 then 200 else nat limit) (drop k ?es)),
         int (k + min (if limit \<le> 0 then 200 else nat limit) (length (drop k ?es))))"
    using list_page_take [of "drop k ?es" k "int k" "[]" "if limit \<le> 0 then 200 else limit"] by (simp split: if_splits)
  moreover have "list_page (int k) l ?es [] (int k) = list_page (int k) l (drop k ?es) [] (int k)" for l
    using list_page_skip [OF pre, of l "drop k ?es"] by simp
  ultimately show ?thesis using assms(2) by (auto simp: ListEvents_def Let_def)
qed

text \<open>A reader that follows the cursor page by page until a page is empty; \<open>None\<close> when the calls it is given run out.\<close>

fun read_log :: "nat \<Rightarrow> string \<Rightarrow> int \<Rightarrow> int \<Rightarrow> memoryRunStore \<Rightarrow> (run_error + RuntimeEvent list) option" where
  "read_log 0 runID cursor limit s = None"
| "read_log (Suc n) runID cursor limit s = (case ListEvents runID cursor limit s of
     Inl e \<Rightarrow> Some (Inl e)
   | Inr (evs, next) \<Rightarrow> if evs = [] then Some (Inr [])
       else map_option (map_sum id ((@) evs)) (read_log n runID next limit s))"

lemma read_log_from:
  assumes "log_ok runID (rs_events s runID) m" "rs_runs s runID \<noteq> None" "k \<le> length (rs_events s runID)"
    and "length (rs_events s runID) - k < n"
  shows "read_log n runID (int k) limit s = Some (Inr (map cloneEvent (drop k (rs_events s runID))))"
  using assms(3,4)
proof (induction n arbitrary: k)
  case (Suc n)
  let ?l = "if limit \<le> 0 then 200 else nat limit" and ?es = "rs_events s runID"
  have page: "ListEvents runID (int k) limit s = Inr (map cloneEvent (take ?l (drop k ?es)), int (k + min ?l (length ?es - k)))"
    using ListEvents_page [OF assms(1,2) Suc.prems(1)] by (simp add: Let_def)
  have l: "?l > 0" by simp
  show ?case
  proof (cases "k = length ?es")
    case False
    define k' where "k' = k + min ?l (length ?es - k)"
    have k': "k' \<le> length ?es" "length ?es - k' < n" using False Suc.prems l by (auto simp: k'_def)
    have ne: "take ?l (drop k ?es) \<noteq> []" using False Suc.prems(1) l by auto
    have "drop (k + min l (length es - k)) es = drop l (drop k es)" for l and es :: "RuntimeEvent list"
      by (simp add: min_def add.commute)
    then have "drop k ?es = take ?l (drop k ?es) @ drop k' ?es" unfolding k'_def by (metis append_take_drop_id)
    then have "map cloneEvent (drop k ?es) = map cloneEvent (take ?l (drop k ?es)) @ map cloneEvent (drop k' ?es)"
      by (metis map_append)
    then show ?thesis using Suc.IH [OF k'] page ne by (simp add: k'_def [symmetric])
  qed (use page in simp)
qed simp

section \<open>Properties\<close>

text \<open>
  C40. The log of a run is complete and in order: whatever operations the store has gone through, the events of a run are
  numbered from one without a gap, the counter is the number of the last one, every event names its run, and a run that was
  never created has no events.
\<close>

theorem run_log_is_contiguous:
  assumes "reachable_store s"
  shows "map RE_Seq (rs_events s runID) = map int [1..<Suc (length (rs_events s runID))] \<and> rs_eventSeq s runID = int (length (rs_events s runID))
    \<and> (\<forall>e\<in>set (rs_events s runID). RE_RunID e = runID) \<and> (rs_runs s runID = None \<longrightarrow> rs_events s runID = [])"
  using reachable_inv [OF assms] by (simp add: run_inv_def run_ok_def log_ok_def)

text \<open>
  The log is the source of the status: a run whose last change of status was logged as a pause is paused, one whose last was
  logged as a resumption is running, and every run has been created under the id it is stored at, with a workflow.
\<close>

theorem status_follows_log:
  assumes "reachable_store s" and "rs_runs s runID = Some r"
  shows "RU_ID r = runID \<and> RU_WorkflowID r \<noteq> [] \<and> (\<exists>es e es'. rs_events s runID = es @ [e] @ es' \<and> status_event e \<and> (\<forall>e'\<in>set es'. \<not> status_event e')
    \<and> (RE_Type e = EventTypeRunPaused \<longrightarrow> RU_Status r = RunStatusPaused) \<and> (RE_Type e = EventTypeRunResumed \<longrightarrow> RU_Status r = RunStatusRunning))"
proof -
  have inv: "RU_ID r = runID" "RU_WorkflowID r \<noteq> []" "status_after (rs_events s runID) (RU_Status r)"
    using run_inv_run [OF reachable_inv [OF assms(1)] assms(2)] by auto
  then have "filter status_event (rs_events s runID) \<noteq> []" by (simp add: status_after_def Let_def)
  then obtain es e es' where split: "rs_events s runID = es @ [e] @ es'" "status_event e" "\<forall>e'\<in>set es'. \<not> status_event e'"
    using split_list_last_prop [of "rs_events s runID" status_event] by (auto simp: filter_empty_conv)
  then have "last (filter status_event (rs_events s runID)) = e" by (simp add: filter_False)
  then show ?thesis using inv split unfolding status_after_def Let_def by blast
qed

text \<open>
  A reader that follows the cursor gets the whole log, each event once and in order, for every page size, zero and negative ones
  included, and needs no more calls than there are events and one.
\<close>

theorem paging_reads_the_log:
  assumes "reachable_store s" and "rs_runs s runID = Some r"
  shows "read_log (Suc (length (rs_events s runID))) runID 0 limit s = Some (Inr (map cloneEvent (rs_events s runID)))"
proof -
  have "log_ok runID (rs_events s runID) (rs_eventSeq s runID)" using reachable_inv [OF assms(1)] by (simp add: run_inv_def run_ok_def)
  then show ?thesis using read_log_from [of runID s "rs_eventSeq s runID" 0 "Suc (length (rs_events s runID))" limit] assms(2) by simp
qed

lemma ResumeRun_ok:
  assumes "ResumeRun env runID req s = (Inr r, s1)" and "RQ_ResumeRequestID req \<noteq> []" and "RQ_ResumeRequestID req \<notin> rs_resumeReqs s runID"
  shows "RQ_Mode req = ResumeModeFromToolCall \<and> RQ_FromToolCallID req \<noteq> [] \<and> RQ_Strategy req \<noteq> []
    \<and> rs_toolCalls s1 runID (RQ_FromToolCallID req) \<noteq> None \<and> RQ_ResumeRequestID req \<in> rs_resumeReqs s1 runID
    \<and> (\<exists>r1. rs_runs s1 runID = Some r1 \<and> RU_Status r1 = RunStatusRunning)"
proof -
  have args: "RQ_Mode req = ResumeModeFromToolCall" "RQ_FromToolCallID req \<noteq> []" "RQ_Strategy req \<noteq> []"
    using assms(1) by (auto simp: ResumeRun_def split: if_splits)
  obtain r0 where r0: "rs_runs s runID = Some r0" using assms(1) args by (auto simp: ResumeRun_def split: option.split_asm)
  have "\<not> (RU_Status r0 \<noteq> RunStatusPaused \<and> RU_Status r0 \<noteq> RunStatusFailed)" "rs_toolCalls s runID (RQ_FromToolCallID req) \<noteq> None"
    using assms(1) args r0 by (auto simp: ResumeRun_def split: if_splits)
  then show ?thesis using assms args r0 by (auto simp: ResumeRun_def Let_def appendEventLocked_def)
qed

lemma PauseRun_ok:
  assumes "PauseRun env runID reason operator s = (Inr p, s1)"
  shows "(\<exists>r1. rs_runs s1 runID = Some r1 \<and> RU_Status r1 = RunStatusPaused) \<and> rs_toolCalls s1 = rs_toolCalls s
    \<and> rs_resumeReqs s1 = rs_resumeReqs s"
proof -
  obtain r0 where r0: "rs_runs s runID = Some r0" using assms by (auto simp: PauseRun_def split: option.split_asm)
  then have "\<not> (RU_Status r0 \<noteq> RunStatusRunning \<and> RU_Status r0 \<noteq> RunStatusPending)" using assms by (auto simp: PauseRun_def split: if_splits)
  then show ?thesis using assms r0 by (auto simp: PauseRun_def Let_def appendEventLocked_def)
qed

text \<open>
  The id of a resume request does not make it repeatable: sent again after it went through, the same request is a conflict,
  since the run is running by then; and once the run has been paused again, it is answered with success and the run stays
  paused.
\<close>

theorem resume_request_is_spent:
  assumes "ResumeRun env runID req s = (Inr r, s1)" and "RQ_ResumeRequestID req \<noteq> []" and "RQ_ResumeRequestID req \<notin> rs_resumeReqs s runID"
    and "PauseRun env' runID reason operator s1 = (Inr p, s2)"
  shows "ResumeRun env'' runID req s1 = (Inl ErrRunConflict, s1)
    \<and> (\<exists>p'. ResumeRun env'' runID req s2 = (Inr p', s2) \<and> RU_Status p' = RunStatusPaused)"
proof -
  note req = ResumeRun_ok [OF assms(1-3)]
  obtain r1 where r1: "rs_runs s1 runID = Some r1" "RU_Status r1 = RunStatusRunning" using req by blast
  obtain r2 where r2: "rs_runs s2 runID = Some r2" "RU_Status r2 = RunStatusPaused" and
    same: "rs_toolCalls s2 = rs_toolCalls s1" "rs_resumeReqs s2 = rs_resumeReqs s1"
    using PauseRun_ok [OF assms(4)] by blast
  have "ResumeRun env'' runID req s1 = (Inl ErrRunConflict, s1)"
    using req r1 by (auto simp: ResumeRun_def run_statuses)
  moreover have "ResumeRun env'' runID req s2 = (Inr (cloneRun r2), s2)"
    using req r2 same assms(2) by (auto simp: ResumeRun_def run_statuses)
  ultimately show ?thesis using r2(2) by simp
qed

text \<open>Creating a run under an id that is taken replaces the run and keeps the tool calls and the requests of the old one.\<close>

lemma recreated_run_keeps_tool_calls:
  assumes "RU_WorkflowID run \<noteq> []" and "RU_ID run \<noteq> []"
  shows "is_ok (fst (CreateRun env (Some run) s)) \<and> rs_toolCalls (snd (CreateRun env (Some run) s)) = rs_toolCalls s
    \<and> rs_resumeReqs (snd (CreateRun env (Some run) s)) = rs_resumeReqs s"
  using assms by (simp add: CreateRun_def Let_def appendEventLocked_def is_ok_def)

section \<open>Closed examples\<close>

definition rx_env :: run_env where
  "rx_env = \<lparr>re_now = 7, re_event_now = 8, re_uuid = ''u'', re_event_uuid = ''v''\<rparr>"

definition rx_run :: Run where
  "rx_run = \<lparr>RU_ID = ''r'', RU_WorkflowID = ''w'', RU_Status = [], RU_Input = None, RU_Output = None,
     RU_Budget = \<lparr>BP_MaxTokens = 0, BP_MaxToolCalls = 0, BP_MaxRetries = 0\<rparr>, RU_IdempotencyKey = [], RU_CreatedAt = 0, RU_UpdatedAt = 0\<rparr>"

definition rx_call :: ToolCall where
  "rx_call = \<lparr>TC_ID = ''c'', TC_RunID = ''r'', TC_StepID = [], TC_ToolName = ''t'', TC_Status = [], TC_RequestPayload = None,
     TC_ResponsePayload = None, TC_IdempotencyKey = [], TC_SideEffectSafe = True, TC_ErrorMessage = [], TC_StartedAt = None, TC_EndedAt = None\<rparr>"

definition rx_req :: ResumeRunRequest where
  "rx_req = \<lparr>RQ_Mode = ''FROM_TOOL_CALL'', RQ_FromToolCallID = ''c'', RQ_Strategy = ''REUSE_SUCCESSFUL_EFFECTS'', RQ_Operator = [],
     RQ_Reason = [], RQ_ResumeRequestID = ''q''\<rparr>"

definition rx_paused :: memoryRunStore where
  "rx_paused = snd (PauseRun rx_env ''r'' ''lunch'' [] (snd (UpsertToolCall rx_env (Some rx_call) (snd (CreateRun rx_env (Some rx_run) NewMemoryRunStore)))))"

lemma rx_reachable: "reachable_store rx_paused"
  unfolding reachable_store_def rx_paused_def
  by (meson rtranclp.rtrancl_refl rtranclp.rtrancl_into_rtrancl run_step.Create run_step.Upsert run_step.Pause)

lemmas rx_defs = rx_paused_def rx_env_def rx_run_def rx_call_def NewMemoryRunStore_def CreateRun_def UpsertToolCall_def PauseRun_def
  appendEventLocked_def Let_def run_statuses run_event_types cloneRun_def cloneToolCall_def cloneMap_def

lemma rx_log: "map RE_Type (rs_events rx_paused ''r'') = [''RUN_CREATED'', ''TOOL_CALL_STARTED'', ''RUN_PAUSED'']"
  "\<exists>r. rs_runs rx_paused ''r'' = Some r \<and> RU_Status r = RunStatusPaused" "rs_resumeReqs rx_paused ''r'' = {}"
  "rs_toolCalls rx_paused ''r'' ''c'' \<noteq> None"
  by (simp_all add: rx_defs isTerminalToolCallStatus_def)

lemma run_log_is_contiguous_witness: "map RE_Seq (rs_events rx_paused ''r'') = [1, 2, 3] \<and> rs_eventSeq rx_paused ''r'' = 3"
proof -
  have "length (rs_events rx_paused ''r'') = 3" using arg_cong [OF rx_log(1), of length] by simp
  then show ?thesis using run_log_is_contiguous [OF rx_reachable, of "''r''"] by (simp add: upt_rec)
qed

lemma status_follows_log_witness:
  "\<exists>r es e es'. rs_runs rx_paused ''r'' = Some r \<and> RU_WorkflowID r \<noteq> [] \<and> rs_events rx_paused ''r'' = es @ [e] @ es' \<and> status_event e"
  using rx_log(2) status_follows_log [OF rx_reachable, of "''r''"] by blast

lemma paging_reads_the_log_witness: "read_log (Suc (length (rs_events rx_paused ''r''))) ''r'' 0 2 rx_paused
    = Some (Inr (map cloneEvent (rs_events rx_paused ''r'')))"
  using rx_log(2) paging_reads_the_log [OF rx_reachable, of "''r''"] by blast

lemma resume_request_is_spent_witness:
  "\<exists>s1 s2 p'. ResumeRun rx_env ''r'' rx_req rx_paused = (Inr (cloneRun (the (rs_runs s1 ''r''))), s1)
    \<and> ResumeRun rx_env ''r'' rx_req s1 = (Inl ErrRunConflict, s1)
    \<and> ResumeRun rx_env ''r'' rx_req s2 = (Inr p', s2) \<and> RU_Status p' = RunStatusPaused"
proof -
  obtain r where r: "rs_runs rx_paused ''r'' = Some r" "RU_Status r = RunStatusPaused" using rx_log(2) by blast
  have req: "RQ_ResumeRequestID rx_req \<noteq> []" "RQ_ResumeRequestID rx_req \<notin> rs_resumeReqs rx_paused ''r''" by (simp_all add: rx_req_def rx_log(3))
  define s1 where "s1 = snd (ResumeRun rx_env ''r'' rx_req rx_paused)"
  have s1: "ResumeRun rx_env ''r'' rx_req rx_paused = (Inr (cloneRun (the (rs_runs s1 ''r''))), s1)"
    using r rx_log(3,4) by (auto simp: s1_def ResumeRun_def rx_req_def ResumeModeFromToolCall_def Let_def appendEventLocked_def)
  obtain r1 where r1: "rs_runs s1 ''r'' = Some r1" "RU_Status r1 = RunStatusRunning" using ResumeRun_ok [OF s1 req] by blast
  obtain p s2 where p: "PauseRun rx_env ''r'' [] [] s1 = (Inr p, s2)" using r1 by (auto simp: PauseRun_def Let_def)
  show ?thesis using s1 resume_request_is_spent [OF s1 req p, of rx_env] by blast
qed

end
