(* ===== verification/Job_Scheduler.thy ===== *)
theory Job_Scheduler
  imports Job_Store_Mem Event_Store Node_Sink Dag_Run
begin

text \<open>
  What runs jobs inside the API process: the queue classes (\<open>internal/agent/job/queue.go\<close>), the wake-up queue
  (\<open>wakeup.go\<close>), the scheduler with its bounded workers and retries (\<open>scheduler.go\<close>), the simpler loop of
  \<open>job_runner.go\<close>, the end of a run as \<open>internal/app/api/app.go\<close> records it, and the reclaimer of orphaned jobs
  (\<open>reclaim.go\<close>), over the in-memory stores of jobs and events.  A goroutine that runs a job is the job in the list of the
  limiter; a round of the loop and the end of a run are one step each; sleeps, metrics and logs are left out.
\<close>

section \<open>Queue classes\<close>

definition QueueRealtime :: string where "QueueRealtime = ''realtime''"
definition QueueDefault :: string where "QueueDefault = ''default''"
definition QueueBackground :: string where "QueueBackground = ''background''"
definition QueueHeavy :: string where "QueueHeavy = ''heavy''"

definition PriorityForQueue :: "string \<Rightarrow> int" where
  "PriorityForQueue queueClass =
     (if queueClass = QueueRealtime then 10 else if queueClass = QueueBackground then - 5
      else if queueClass = QueueHeavy then - 10 else 0)"

section \<open>The wake-up queue\<close>

text \<open>A buffered channel.  Where both cases of a \<open>select\<close> are ready, an argument says which one Go takes.\<close>

record WakeupQueueMem =
  WQ_cap :: nat
  WQ_ch :: "string list"

definition NewWakeupQueueMem :: "int \<Rightarrow> WakeupQueueMem" where
  "NewWakeupQueueMem bufSize = \<lparr>WQ_cap = (if bufSize \<le> 0 then 256 else nat bufSize), WQ_ch = []\<rparr>"

definition NotifyReady :: "bool \<Rightarrow> string option \<Rightarrow> WakeupQueueMem \<Rightarrow> string \<Rightarrow> string option \<times> WakeupQueueMem" where
  "NotifyReady pick ctxErr q jobID =
     (if jobID = [] then (None, q)
      else let full = (WQ_cap q \<le> length (WQ_ch q)); sent = q\<lparr>WQ_ch := WQ_ch q @ [jobID]\<rparr>
        in case ctxErr of None \<Rightarrow> (None, if full then q else sent)
           | Some e \<Rightarrow> if \<not> full \<and> pick then (None, sent) else (Some e, q))"

definition Receive :: "bool \<Rightarrow> WakeupQueueMem \<Rightarrow> (string \<times> bool) \<times> WakeupQueueMem" where
  "Receive pick q = (case WQ_ch q of [] \<Rightarrow> (([], False), q)
     | i # is \<Rightarrow> if pick then ((i, True), q\<lparr>WQ_ch := is\<rparr>) else (([], False), q))"

section \<open>The scheduler\<close>

record SchedulerConfig =
  SC_MaxConcurrency :: int
  SC_RetryMax :: int
  SC_Backoff :: duration
  SC_Queues :: "string list"
  SC_Capabilities :: "string list"
  SC_WakeupQueueTimeout :: duration

type_synonym CompensateFunc = "string \<Rightarrow> string \<Rightarrow> JobStoreMem \<Rightarrow> JobStoreMem"

text \<open>The jobs that hold a slot of the limiter, as they were handed out, are the runs under way.\<close>

record Scheduler =
  SD_store :: JobStoreMem
  SD_config :: SchedulerConfig
  SD_compensate :: "CompensateFunc option"
  SD_limiter :: "Job list"
  SD_wakeup :: "WakeupQueueMem option"

definition NewScheduler :: "JobStoreMem \<Rightarrow> SchedulerConfig \<Rightarrow> Scheduler" where
  "NewScheduler store config = \<lparr>SD_store = store, SD_config = config, SD_compensate = None, SD_limiter = [], SD_wakeup = None\<rparr>"

definition slots :: "SchedulerConfig \<Rightarrow> nat" where
  "slots cfg = (if SC_MaxConcurrency cfg \<le> 0 then 1 else nat (SC_MaxConcurrency cfg))"

definition SetWakeupQueue :: "WakeupQueueMem \<Rightarrow> Scheduler \<Rightarrow> Scheduler" where
  "SetWakeupQueue q sd = sd\<lparr>SD_wakeup := Some q\<rparr>"

definition SetCompensate :: "CompensateFunc \<Rightarrow> Scheduler \<Rightarrow> Scheduler" where
  "SetCompensate f sd = sd\<lparr>SD_compensate := Some f\<rparr>"

text \<open>The queues are tried in order; without queues the store is asked for any pending job.\<close>

fun claim_queues :: "gotime \<Rightarrow> string list \<Rightarrow> string list \<Rightarrow> JobStoreMem \<Rightarrow> Job option \<times> JobStoreMem" where
  "claim_queues now caps [] s = (None, s)"
| "claim_queues now caps (q # qs) s =
     (case (if caps \<noteq> [] then ClaimNextPendingForWorker now s q caps [] else ClaimNextPendingFromQueue now s q) of
        (Some j, s') \<Rightarrow> (Some j, s')
      | (None, s') \<Rightarrow> claim_queues now caps qs s')"

definition claim_pending :: "gotime \<Rightarrow> SchedulerConfig \<Rightarrow> JobStoreMem \<Rightarrow> Job option \<times> JobStoreMem" where
  "claim_pending now cfg s =
     (if SC_Queues cfg \<noteq> [] then claim_queues now (SC_Capabilities cfg) (SC_Queues cfg) s
      else if SC_Capabilities cfg \<noteq> [] then ClaimNextPendingForWorker now s [] (SC_Capabilities cfg) []
      else ClaimNextPending now s)"

text \<open>One round of the loop, once a slot is free: a wake-up first, then the queues.  A claimed job keeps the slot.\<close>

definition tick :: "gotime \<Rightarrow> bool \<Rightarrow> Scheduler \<Rightarrow> Job option \<times> Scheduler" where
  "tick now pick sd =
     (let ((jobID, ok), w) = (case SD_wakeup sd of None \<Rightarrow> (([], False), None)
            | Some q \<Rightarrow> (case Receive pick q of (r, q') \<Rightarrow> (r, Some q')));
          (j1, s1) = (if ok \<and> jobID \<noteq> [] then ClaimParkedJob now (SD_store sd) jobID else (None, SD_store sd));
          (j, s) = (case j1 of Some j \<Rightarrow> (Some j, s1) | None \<Rightarrow> claim_pending now (SD_config sd) s1)
      in (j, sd\<lparr>SD_store := s, SD_wakeup := w, SD_limiter := (case j of None \<Rightarrow> SD_limiter sd | Some j \<Rightarrow> j # SD_limiter sd)\<rparr>))"

text \<open>\<open>errors.As\<close> for a step failure in the error of a run: its type and its node.\<close>

definition step_failure_of :: "run_error \<Rightarrow> (StepResultType \<times> string) option" where
  "step_failure_of e = (case e of StepError nodeID t _ \<Rightarrow> Some (t, nodeID)
     | ParallelError _ g \<Rightarrow> as_error (\<lambda>e. case e of StepFailed t _ n \<Rightarrow> Some (t, n) | _ \<Rightarrow> None) g
     | _ \<Rightarrow> None)"

text \<open>What the goroutine does with the job when its run is over.\<close>

definition retry_or_fail :: "gotime \<Rightarrow> SchedulerConfig \<Rightarrow> Job \<Rightarrow> JobStoreMem \<Rightarrow> JobStoreMem" where
  "retry_or_fail now cfg job s =
     (if Job_RetryCount job < SC_RetryMax cfg then Store_Requeue now s (Some job)
      else UpdateStatus now s (Job_ID job) JobStatus.StatusFailed)"

definition settle :: "gotime \<Rightarrow> SchedulerConfig \<Rightarrow> CompensateFunc option \<Rightarrow> Job \<Rightarrow> run_error option \<Rightarrow> JobStoreMem \<Rightarrow> JobStoreMem" where
  "settle now cfg hook job err s = (case err of
       None \<Rightarrow> UpdateStatus now s (Job_ID job) JobStatus.StatusCompleted
     | Some e \<Rightarrow>
         (case step_failure_of e of
            None \<Rightarrow> retry_or_fail now cfg job s
          | Some (t, nodeID) \<Rightarrow>
              if t = StepResultRetryableFailure then retry_or_fail now cfg job s
              else if t = StepResultCompensatableFailure then
                UpdateStatus now (case hook of None \<Rightarrow> s | Some f \<Rightarrow> f (Job_ID job) nodeID s) (Job_ID job) JobStatus.StatusFailed
              else UpdateStatus now s (Job_ID job) JobStatus.StatusFailed))"

definition run_ends :: "gotime \<Rightarrow> Job \<Rightarrow> run_error option \<Rightarrow> Scheduler \<Rightarrow> Scheduler" where
  "run_ends now job err sd = sd\<lparr>SD_limiter := remove1 job (SD_limiter sd),
     SD_store := settle now (SD_config sd) (SD_compensate sd) job err (SD_store sd)\<rparr>"

section \<open>The simple loop\<close>

text \<open>One round of \<open>JobRunner\<close>: \<open>None\<close> when no job was claimed.\<close>

definition JobRunner_round ::
  "gotime \<Rightarrow> (string \<Rightarrow> 'a option) \<Rightarrow> ('a \<Rightarrow> JobForRunner \<Rightarrow> run_error option) \<Rightarrow> JobStoreMem \<Rightarrow> Job option \<times> JobStoreMem" where
  "JobRunner_round now agents run s = (case ClaimNextPending now s of (None, s') \<Rightarrow> (None, s')
     | (Some j, s') \<Rightarrow>
         (case agents (Job_AgentID j) of None \<Rightarrow> (Some j, UpdateStatus now s' (Job_ID j) JobStatus.StatusFailed)
          | Some agent \<Rightarrow>
              (let err = run agent \<lparr>JR_ID = Job_ID j, JR_AgentID = Job_AgentID j, JR_Goal = Job_Goal j, JR_Cursor = Job_Cursor j,
                     JR_TenantID = (if Job_TenantID j = [] then ''default'' else Job_TenantID j)\<rparr>
               in (Some j, UpdateStatus now s' (Job_ID j) (if err = None then JobStatus.StatusCompleted else JobStatus.StatusFailed)))))"

section \<open>The end of a run in the events\<close>

text \<open>
  After \<open>RunForJob\<close> has returned, the API's run function writes the terminal event, unless there is one.  The text of the
  error comes with it.
\<close>

definition terminal_payload :: "string \<Rightarrow> (run_error \<times> string) option \<Rightarrow> bytes option" where
  "terminal_payload goal err = json_map ([(''goal'', jstr goal)]
     @ (case err of None \<Rightarrow> [] | Some (e, msg) \<Rightarrow> [(''error'', jstr msg)]
         @ (case step_failure_of e of None \<Rightarrow> []
            | Some (t, nodeID) \<Rightarrow> [(''result_type'', jstr (result_type_name t)), (''node_id'', jstr nodeID), (''reason'', jstr msg)])))"

definition append_end :: "append_env \<Rightarrow> string \<Rightarrow> string \<Rightarrow> (run_error \<times> string) option \<Rightarrow> memoryStore \<Rightarrow> memoryStore" where
  "append_end env jobID goal err es = (case ListEvents es jobID of (existing, ver) \<Rightarrow>
     if list_ex (\<lambda>ev. Ev_Type ev \<in> {JobCompleted, JobFailed, JobCancelled}) existing then es
     else snd (Append env es jobID ver (JobEvent0\<lparr>Ev_JobID := jobID, Ev_Type := (if err = None then JobCompleted else JobFailed),
            Ev_Payload := (case terminal_payload goal err of None \<Rightarrow> [] | Some b \<Rightarrow> b)\<rparr>)))"

section \<open>Reclaiming orphans\<close>

definition reclaim_one :: "gotime \<Rightarrow> memoryStore \<Rightarrow> string \<Rightarrow> nat \<times> JobStoreMem \<Rightarrow> nat \<times> JobStoreMem" where
  "reclaim_one now es jobID acc = (case acc of (n, s) \<Rightarrow>
     let derived = DeriveStatusFromEvents (fst (ListEvents es jobID))
     in if derived \<in> {JobStatus.StatusCompleted, JobStatus.StatusFailed, JobStatus.StatusCancelled} then
          (case Get s jobID of None \<Rightarrow> (n, s)
           | Some j \<Rightarrow> (n, if Job_Status j \<noteq> derived then UpdateStatus now s jobID derived else s))
        else if derived \<in> {JobStatus.StatusWaiting, JobStatus.StatusParked} then (n, s)
        else (case Get s jobID of None \<Rightarrow> (n, s)
          | Some j \<Rightarrow> if Job_Status j \<noteq> JobStatus.StatusRunning then (n, s) else (Suc n, UpdateStatus now s jobID JobStatus.StatusPending)))"

text \<open>The ids with an expired claim come in the order of a map's iteration.\<close>

definition ReclaimOrphanedFromEventStore ::
  "string list \<Rightarrow> gotime \<Rightarrow> gotime \<Rightarrow> JobStoreMem \<Rightarrow> memoryStore \<Rightarrow> nat \<times> JobStoreMem" where
  "ReclaimOrphanedFromEventStore order now now' s es = fold (reclaim_one now' es) (ListJobIDsWithExpiredClaim order now es) (0, s)"

section \<open>Runs of the scheduler\<close>

text \<open>
  What can happen around a scheduler: a round that starts a job or finds none, the end of a run, a new job, a wake-up that
  is announced, and a status that somebody else writes.
\<close>

datatype sched_label = Started string | Idle | Ended string | Submitted string | Notified string | Marked string JobStatus

inductive sched_step :: "Scheduler \<Rightarrow> sched_label \<Rightarrow> Scheduler \<Rightarrow> bool" where
  Start: "length (SD_limiter sd) < slots (SD_config sd) \<Longrightarrow> tick now pick sd = (Some j, sd') \<Longrightarrow> sched_step sd (Started (Job_ID j)) sd'"
| Poll: "length (SD_limiter sd) < slots (SD_config sd) \<Longrightarrow> tick now pick sd = (None, sd') \<Longrightarrow> sched_step sd Idle sd'"
| Finish: "j \<in> set (SD_limiter sd) \<Longrightarrow> sched_step sd (Ended (Job_ID j)) (run_ends now j err sd)"
| Submit: "byID (SD_store sd) (fst (Create now uuid (SD_store sd) j)) = None \<Longrightarrow> Job_RetryCount j = 0
    \<Longrightarrow> sched_step sd (Submitted (fst (Create now uuid (SD_store sd) j))) (sd\<lparr>SD_store := snd (snd (Create now uuid (SD_store sd) j))\<rparr>)"
| Notify: "SD_wakeup sd = Some q \<Longrightarrow> sched_step sd (Notified x) (sd\<lparr>SD_wakeup := Some (snd (NotifyReady pick ctxErr q x))\<rparr>)"
| Mark: "sched_step sd (Marked x st) (sd\<lparr>SD_store := UpdateStatus now (SD_store sd) x st\<rparr>)"

inductive sched_trace :: "Scheduler \<Rightarrow> sched_label list \<Rightarrow> Scheduler \<Rightarrow> bool" where
  Stop: "sched_trace sd [] sd"
| Step: "sched_trace sd ls sd1 \<Longrightarrow> sched_step sd1 l sd2 \<Longrightarrow> sched_trace sd (ls @ [l]) sd2"

section \<open>What a round does\<close>

lemma claim_worker_none: "ClaimNextPendingForWorker now s q caps t = (None, s') \<Longrightarrow> s' = s"
  by (rule claim_cases [of now s q caps t]) simp_all

lemma claim_pending_cases:
  obtains (none) "claim_pending now cfg s = (None, s)"
  | (claim) q caps j s' where "claim_pending now cfg s = (Some j, s')" "ClaimNextPendingForWorker now s q caps [] = (Some j, s')"
proof -
  have q: "claim_queues now c qs s = (None, s) \<or> (\<exists>q caps j s'. claim_queues now c qs s = (Some j, s')
      \<and> ClaimNextPendingForWorker now s q caps [] = (Some j, s'))" for c qs
  proof (induction qs)
    case (Cons q qs)
    have e: "(if c \<noteq> [] then ClaimNextPendingForWorker now s q c [] else ClaimNextPendingFromQueue now s q)
        = ClaimNextPendingForWorker now s q c []" by (simp add: ClaimNextPendingFromQueue_def)
    obtain r s' where r: "ClaimNextPendingForWorker now s q c [] = (r, s')" by fastforce
    show ?case using Cons r claim_worker_none [of now s q c "[]" s'] by (cases r) (auto simp: e)
  qed simp
  have w: "ClaimNextPendingForWorker now s q c [] = (None, s) \<or> (\<exists>j s'. ClaimNextPendingForWorker now s q c [] = (Some j, s'))" for q c
    using claim_worker_none by (metis old.prod.exhaust option.exhaust)
  have "claim_pending now cfg s = (None, s) \<or> (\<exists>q caps j s'. claim_pending now cfg s = (Some j, s')
      \<and> ClaimNextPendingForWorker now s q caps [] = (Some j, s'))"
  proof (cases "SC_Queues cfg = []")
    case True
    then have "\<exists>c. claim_pending now cfg s = ClaimNextPendingForWorker now s [] c []"
      by (auto simp: claim_pending_def ClaimNextPending_def ClaimNextPendingFromQueue_def)
    then show ?thesis using w by metis
  next
    case False
    then show ?thesis using q [of "SC_Capabilities cfg" "SC_Queues cfg"] by (simp add: claim_pending_def)
  qed
  then show thesis using none claim by blast
qed

text \<open>A claim hands out a pending job of the queue, marked as running.\<close>

lemma claim_worker_some:
  assumes "ClaimNextPendingForWorker now s q caps t = (Some j, s')" and "store_wf s"
  shows "\<exists>j0. byID s (Job_ID j) = Some j0 \<and> Job_Status j0 = JobStatus.StatusPending \<and> j = j0\<lparr>Job_Status := JobStatus.StatusRunning, Job_UpdatedAt := now\<rparr>
    \<and> byID s' = (byID s)(Job_ID j \<mapsto> j) \<and> Job_ID j \<in> set (pending s) \<and> set (pending s') \<subseteq> set (pending s)"
proof (rule claim_cases [of now s q caps t])
  fix x j0 i
  assume i: "i < length (pending s)" "pending s ! i = x" and j0: "byID s x = Some j0" and c: "claimable (byID s) q caps t x"
    and e: "ClaimNextPendingForWorker now s q caps t = (Some (j0\<lparr>Job_Status := JobStatus.StatusRunning, Job_UpdatedAt := now\<rparr>),
      s\<lparr>pending := remove_at i (pending s), byID := (byID s)(x \<mapsto> j0\<lparr>Job_Status := JobStatus.StatusRunning, Job_UpdatedAt := now\<rparr>)\<rparr>)"
  have "Job_ID j0 = x" using store_wf_ID [OF assms(2) j0] .
  moreover have "set (remove_at i (pending s)) \<subseteq> set (pending s)" by (auto simp: remove_at_def dest: in_set_takeD in_set_dropD)
  moreover have "Job_Status j0 = JobStatus.StatusPending" using claimable_job [OF c] j0 by auto
  ultimately show ?thesis using assms(1) e i j0 nth_mem [OF i(1)] by auto
qed (use assms(1) in simp)


lemma claim_parked_some:
  assumes "ClaimParkedJob now s i = (Some j, s')" and "store_wf s"
  shows "Job_ID j = i \<and> (\<exists>j0. byID s i = Some j0 \<and> Job_Status j0 \<in> {JobStatus.StatusParked, JobStatus.StatusWaiting}) \<and> byID s' = (byID s)(i \<mapsto> j) \<and> pending s' = pending s"
proof (rule claim_parked_cases [of now s i])
qed (use assms store_wf_ID [OF assms(2)] in auto)

lemma claim_parked_none: "ClaimParkedJob now s i = (None, s') \<Longrightarrow> s' = s"
  by (rule claim_parked_cases [of now s i]) auto

text \<open>
  A round starts at most one job: a pending one from the queue, or a parked or waiting one whose wake-up it received.
\<close>

lemma received:
  assumes "(case SD_wakeup sd of None \<Rightarrow> (([], False), None) | Some q \<Rightarrow> (case Receive pick q of (r, q') \<Rightarrow> (r, Some q'))) = ((i, ok), w)"
  shows "ok \<Longrightarrow> \<exists>q. SD_wakeup sd = Some q \<and> i \<in> set (WQ_ch q)"
    and "SD_wakeup sd = Some q \<Longrightarrow> \<exists>q'. w = Some q' \<and> set (WQ_ch q') \<subseteq> set (WQ_ch q)"
  using assms by (cases "SD_wakeup sd"; auto simp: Receive_def split: list.splits if_splits)+

lemma tick_cases:
  obtains (none) w where "tick now pick sd = (None, sd\<lparr>SD_wakeup := w\<rparr>)"
      "\<And>q. SD_wakeup sd = Some q \<Longrightarrow> \<exists>q'. w = Some q' \<and> set (WQ_ch q') \<subseteq> set (WQ_ch q)"
  | (woken) w j s' q i where "tick now pick sd = (Some j, sd\<lparr>SD_store := s', SD_wakeup := w, SD_limiter := j # SD_limiter sd\<rparr>)"
      "ClaimParkedJob now (SD_store sd) i = (Some j, s')" "SD_wakeup sd = Some q" "i \<in> set (WQ_ch q)"
      "\<And>q. SD_wakeup sd = Some q \<Longrightarrow> \<exists>q'. w = Some q' \<and> set (WQ_ch q') \<subseteq> set (WQ_ch q)"
  | (claimed) w j s' q c where "tick now pick sd = (Some j, sd\<lparr>SD_store := s', SD_wakeup := w, SD_limiter := j # SD_limiter sd\<rparr>)"
      "ClaimNextPendingForWorker now (SD_store sd) q c [] = (Some j, s')"
      "\<And>q. SD_wakeup sd = Some q \<Longrightarrow> \<exists>q'. w = Some q' \<and> set (WQ_ch q') \<subseteq> set (WQ_ch q)"
proof -
  obtain i ok w where r: "(case SD_wakeup sd of None \<Rightarrow> (([], False), None) | Some q \<Rightarrow> (case Receive pick q of (r, q') \<Rightarrow> (r, Some q'))) = ((i, ok), w)"
    by (metis prod.collapse)
  have w: "\<And>q. SD_wakeup sd = Some q \<Longrightarrow> \<exists>q'. w = Some q' \<and> set (WQ_ch q') \<subseteq> set (WQ_ch q)" by (rule received(2) [OF r])
  obtain j1 s1 where c: "(if ok \<and> i \<noteq> [] then ClaimParkedJob now (SD_store sd) i else (None, SD_store sd)) = (j1, s1)" by fastforce
  have t: "tick now pick sd = (case (case j1 of Some j \<Rightarrow> (Some j, s1) | None \<Rightarrow> claim_pending now (SD_config sd) s1) of (j, s) \<Rightarrow>
      (j, sd\<lparr>SD_store := s, SD_wakeup := w, SD_limiter := (case j of None \<Rightarrow> SD_limiter sd | Some j \<Rightarrow> j # SD_limiter sd)\<rparr>))"
    unfolding tick_def Let_def r prod.case c by simp
  show thesis
  proof (cases j1)
    case (Some j)
    then have p: "ClaimParkedJob now (SD_store sd) i = (Some j, s1)" "ok" using c by (auto split: if_splits)
    then obtain q where "SD_wakeup sd = Some q" "i \<in> set (WQ_ch q)" using received(1) [OF r] by blast
    then show thesis using woken [OF _ p(1) _ _ w] t Some by simp
  next
    case None
    then have s1: "s1 = SD_store sd" using c claim_parked_none by (auto split: if_splits)
    show thesis
    proof (rule claim_pending_cases [of now "SD_config sd" s1])
      assume "claim_pending now (SD_config sd) s1 = (None, s1)"
      then show thesis using none [OF _ w] t None s1 by simp
    next
      fix q c j s'
      assume "claim_pending now (SD_config sd) s1 = (Some j, s')" "ClaimNextPendingForWorker now s1 q c [] = (Some j, s')"
      then show thesis using claimed [OF _ _ w] t None s1 by simp
    qed
  qed
qed

lemma tick_some:
  assumes t: "tick now pick sd = (Some j, sd')" and wf: "store_wf (SD_store sd)"
  shows "SD_limiter sd' = j # SD_limiter sd \<and> SD_config sd' = SD_config sd \<and> SD_compensate sd' = SD_compensate sd
    \<and> byID (SD_store sd') = (byID (SD_store sd))(Job_ID j \<mapsto> j) \<and> set (pending (SD_store sd')) \<subseteq> set (pending (SD_store sd))
    \<and> store_wf (SD_store sd')
    \<and> (\<exists>j0. byID (SD_store sd) (Job_ID j) = Some j0 \<and> (Job_Status j0 = JobStatus.StatusPending \<and> Job_ID j \<in> set (pending (SD_store sd))
          \<and> j = j0\<lparr>Job_Status := JobStatus.StatusRunning, Job_UpdatedAt := now\<rparr>
        \<or> Job_Status j0 \<in> {JobStatus.StatusParked, JobStatus.StatusWaiting} \<and> (\<exists>q. SD_wakeup sd = Some q \<and> Job_ID j \<in> set (WQ_ch q))))"
proof (rule tick_cases [of now pick sd])
  fix w j' s' q i
  assume e: "tick now pick sd = (Some j', sd\<lparr>SD_store := s', SD_wakeup := w, SD_limiter := j' # SD_limiter sd\<rparr>)"
    and c: "ClaimParkedJob now (SD_store sd) i = (Some j', s')" and q: "SD_wakeup sd = Some q" "i \<in> set (WQ_ch q)"
  have "store_wf s'" using apply_op_wf [OF wf, of "OClaimParked now i"] c by simp
  then show ?thesis using t e q claim_parked_some [OF c wf] by auto
next
  fix w j' s' q c
  assume e: "tick now pick sd = (Some j', sd\<lparr>SD_store := s', SD_wakeup := w, SD_limiter := j' # SD_limiter sd\<rparr>)"
    and c: "ClaimNextPendingForWorker now (SD_store sd) q c [] = (Some j', s')"
  have "store_wf s'" using apply_op_wf [OF wf, of "OClaim now q c []"] c by simp
  then show ?thesis using t e claim_worker_some [OF c wf] by auto
qed (use t in simp)

lemma tick_none:
  assumes "tick now pick sd = (None, sd')"
  shows "SD_limiter sd' = SD_limiter sd \<and> SD_config sd' = SD_config sd \<and> SD_compensate sd' = SD_compensate sd \<and> SD_store sd' = SD_store sd"
  by (rule tick_cases [of now pick sd]) (use assms in auto)

lemma tick_wakeup: "tick now pick sd = (r, sd') \<Longrightarrow> SD_wakeup sd = Some q \<Longrightarrow> \<exists>q'. SD_wakeup sd' = Some q' \<and> set (WQ_ch q') \<subseteq> set (WQ_ch q)"
  by (rule tick_cases [of now pick sd]) auto

lemma tick_no_wakeup: "tick now pick sd = (r, sd') \<Longrightarrow> SD_wakeup sd = None \<Longrightarrow> SD_wakeup sd' = None"
  by (auto simp: tick_def Let_def split: prod.splits option.splits)

lemma tick_config: "tick now pick sd = (r, sd') \<Longrightarrow> SD_config sd' = SD_config sd"
  by (auto simp: tick_def Let_def split: prod.splits option.splits)

section \<open>What the end of a run does\<close>

text \<open>The compensation hook leaves the job store alone.\<close>

definition mild :: "CompensateFunc option \<Rightarrow> bool" where
  "mild c \<longleftrightarrow> (\<forall>f. c = Some f \<longrightarrow> (\<forall>x n s. f x n s = s))"

lemma settle_cases:
  assumes "mild c"
  shows "(\<exists>st \<in> {JobStatus.StatusCompleted, JobStatus.StatusFailed}. settle now cfg c a err s = UpdateStatus now s (Job_ID a) st)
    \<or> Job_RetryCount a < SC_RetryMax cfg \<and> settle now cfg c a err s = Store_Requeue now s (Some a)"
proof (cases err)
  case (Some e)
  show ?thesis
  proof (cases "step_failure_of e")
    case None
    then show ?thesis using Some by (simp add: settle_def retry_or_fail_def)
  next
    case (Some r)
    obtain t n where r: "r = (t, n)" by (cases r)
    have "(case c of None \<Rightarrow> s | Some f \<Rightarrow> f (Job_ID a) n s) = s" using assms by (cases c) (simp_all add: mild_def)
    then show ?thesis using \<open>err = Some e\<close> Some r by (simp add: settle_def retry_or_fail_def)
  qed
qed (simp add: settle_def)

lemma settle_job:
  assumes "byID s (Job_ID a) = Some j" "mild c" "store_wf s"
  shows "\<exists>j'. byID (settle now cfg c a err s) = (byID s)(Job_ID a \<mapsto> j') \<and> (Job_Status j' \<in> {JobStatus.StatusCompleted, JobStatus.StatusFailed}
      \<or> Job_Status j' = JobStatus.StatusPending \<and> Job_RetryCount j' = Job_RetryCount a + 1 \<and> Job_RetryCount a < SC_RetryMax cfg)"
    and "set (pending (settle now cfg c a err s)) \<subseteq> insert (Job_ID a) (set (pending s))" and "store_wf (settle now cfg c a err s)"
proof -
  have wf: "store_wf (UpdateStatus now s (Job_ID a) st)" "store_wf (Store_Requeue now s (Some a))" for st
    using apply_op_wf [OF assms(3), of "OUpdateStatus now (Job_ID a) st"] apply_op_wf [OF assms(3), of "ORequeue now (Some a)"] by simp_all
  show "\<exists>j'. byID (settle now cfg c a err s) = (byID s)(Job_ID a \<mapsto> j') \<and> (Job_Status j' \<in> {JobStatus.StatusCompleted, JobStatus.StatusFailed}
      \<or> Job_Status j' = JobStatus.StatusPending \<and> Job_RetryCount j' = Job_RetryCount a + 1 \<and> Job_RetryCount a < SC_RetryMax cfg)"
    "set (pending (settle now cfg c a err s)) \<subseteq> insert (Job_ID a) (set (pending s))" "store_wf (settle now cfg c a err s)"
    using settle_cases [OF assms(2), of now cfg a err s] assms(1) wf
    by (auto simp: UpdateStatus_def Store_Requeue_def)
qed

section \<open>How often a job is run\<close>

definition retry_limit :: "SchedulerConfig \<Rightarrow> int" where
  "retry_limit cfg = max 0 (SC_RetryMax cfg)"

text \<open>
  Pending with as many starts as retries; running in one slot, with one start more; or finished.
\<close>

definition job_ok :: "Scheduler \<Rightarrow> sched_label list \<Rightarrow> string \<Rightarrow> bool" where
  "job_ok sd ls x \<longleftrightarrow> (let c = int (count_list ls (Started x)); R = retry_limit (SD_config sd); ids = Job_ID ` set (SD_limiter sd)
    in (byID (SD_store sd) x = None \<longrightarrow> c = 0 \<and> x \<notin> ids)
     \<and> (\<forall>j. byID (SD_store sd) x = Some j \<longrightarrow>
          Job_Status j = JobStatus.StatusPending \<and> x \<notin> ids \<and> c = Job_RetryCount j \<and> c \<le> R
        \<or> Job_Status j = JobStatus.StatusRunning \<and> (\<exists>a \<in> set (SD_limiter sd). Job_ID a = x \<and> Job_RetryCount a = Job_RetryCount j)
            \<and> c = Job_RetryCount j + 1 \<and> c \<le> R + 1
        \<or> Job_Status j \<in> {JobStatus.StatusCompleted, JobStatus.StatusFailed} \<and> x \<notin> ids \<and> c \<le> R + 1))"

definition sched_ok :: "Scheduler \<Rightarrow> sched_label list \<Rightarrow> bool" where
  "sched_ok sd ls \<longleftrightarrow> store_wf (SD_store sd) \<and> distinct (map Job_ID (SD_limiter sd)) \<and> length (SD_limiter sd) \<le> slots (SD_config sd)
     \<and> (\<forall>q. SD_wakeup sd = Some q \<longrightarrow> WQ_ch q = []) \<and> mild (SD_compensate sd) \<and> (\<forall>x. job_ok sd ls x)"

lemma job_okD:
  "job_ok sd ls x \<Longrightarrow> byID (SD_store sd) x = None \<Longrightarrow> count_list ls (Started x) = 0 \<and> x \<notin> Job_ID ` set (SD_limiter sd)"
  "job_ok sd ls x \<Longrightarrow> byID (SD_store sd) x = Some j \<Longrightarrow> Job_Status j = JobStatus.StatusPending
    \<Longrightarrow> x \<notin> Job_ID ` set (SD_limiter sd) \<and> int (count_list ls (Started x)) = Job_RetryCount j \<and> Job_RetryCount j \<le> retry_limit (SD_config sd)"
  "job_ok sd ls x \<Longrightarrow> byID (SD_store sd) x = Some j \<Longrightarrow> x \<in> Job_ID ` set (SD_limiter sd)
    \<Longrightarrow> Job_Status j = JobStatus.StatusRunning \<and> (\<exists>a \<in> set (SD_limiter sd). Job_ID a = x \<and> Job_RetryCount a = Job_RetryCount j)
      \<and> int (count_list ls (Started x)) = Job_RetryCount j + 1"
  by (auto simp: job_ok_def Let_def)

lemma job_ok_starts: "job_ok sd ls x \<Longrightarrow> int (count_list ls (Started x)) \<le> retry_limit (SD_config sd) + 1"
  by (cases "byID (SD_store sd) x") (auto simp: job_ok_def Let_def retry_limit_def)

lemma job_ok_other:
  assumes "job_ok sd ls y" "byID (SD_store sd') y = byID (SD_store sd) y" "SD_config sd' = SD_config sd"
    and "\<forall>a. Job_ID a = y \<longrightarrow> a \<in> set (SD_limiter sd') \<longleftrightarrow> a \<in> set (SD_limiter sd)" and "l \<noteq> Started y"
  shows "job_ok sd' (ls @ [l]) y"
proof -
  have "y \<in> Job_ID ` set (SD_limiter sd') \<longleftrightarrow> y \<in> Job_ID ` set (SD_limiter sd)" using assms(4) by (auto simp: image_iff)
  moreover have "(\<exists>a \<in> set (SD_limiter sd'). Job_ID a = y \<and> Job_RetryCount a = n) \<longleftrightarrow> (\<exists>a \<in> set (SD_limiter sd). Job_ID a = y \<and> Job_RetryCount a = n)" for n
    using assms(4) by blast
  moreover have "count_list (ls @ [l]) (Started y) = count_list ls (Started y)" using assms(5) by simp
  ultimately show ?thesis using assms(1) unfolding job_ok_def assms(2,3) Let_def by simp
qed

lemma sched_ok_start:
  assumes ok: "sched_ok sd ls" and slot: "length (SD_limiter sd) < slots (SD_config sd)" and t: "tick now pick sd = (Some j, sd')"
  shows "sched_ok sd' (ls @ [Started (Job_ID j)])"
proof -
  have wf: "store_wf (SD_store sd)" and empty: "\<And>q. SD_wakeup sd = Some q \<Longrightarrow> WQ_ch q = []" and jobs: "\<And>x. job_ok sd ls x"
    using ok by (auto simp: sched_ok_def)
  note f = tick_some [OF t wf]
  then obtain j0 where j0: "byID (SD_store sd) (Job_ID j) = Some j0" "Job_Status j0 = JobStatus.StatusPending"
    "j = j0\<lparr>Job_Status := JobStatus.StatusRunning, Job_UpdatedAt := now\<rparr>"
    using empty by auto
  note p = job_okD(2) [OF jobs j0(1,2)]
  have "job_ok sd' (ls @ [Started (Job_ID j)]) y" for y
  proof (cases "y = Job_ID j")
    case True
    have "Job_Status j = JobStatus.StatusRunning" "Job_RetryCount j = Job_RetryCount j0" using j0(3) by simp_all
    then show ?thesis using f p True by (auto simp: job_ok_def Let_def)
  next
    case False
    then show ?thesis using f by (intro job_ok_other [OF jobs]) auto
  qed
  moreover have "\<forall>q. SD_wakeup sd' = Some q \<longrightarrow> WQ_ch q = []"
    using empty tick_wakeup [OF t] tick_no_wakeup [OF t] by (cases "SD_wakeup sd") fastforce+
  ultimately show ?thesis using ok f p slot by (auto simp: sched_ok_def)
qed

lemma sched_ok_finish:
  assumes ok: "sched_ok sd ls" and a: "a \<in> set (SD_limiter sd)"
  shows "sched_ok (run_ends now a err sd) (ls @ [Ended (Job_ID a)])"
proof -
  let ?sd = "run_ends now a err sd"
  have wf: "store_wf (SD_store sd)" and d: "distinct (map Job_ID (SD_limiter sd))" and m: "mild (SD_compensate sd)" and jobs: "\<And>x. job_ok sd ls x"
    using ok by (auto simp: sched_ok_def)
  obtain j where j: "byID (SD_store sd) (Job_ID a) = Some j" using job_okD(1) [OF jobs] a by blast
  have inj: "b = a" if "b \<in> set (SD_limiter sd)" "Job_ID b = Job_ID a" for b
    using d a that by (meson distinct_map inj_onD)
  have run: "Job_RetryCount a = Job_RetryCount j" "int (count_list ls (Started (Job_ID a))) = Job_RetryCount a + 1"
    using job_okD(3) [OF jobs j] a inj by fastforce+
  have lim: "set (SD_limiter ?sd) = set (SD_limiter sd) - {a}" using d by (simp add: run_ends_def distinct_map set_remove1_eq)
  note st = settle_job [OF j m wf, of now "SD_config sd" err]
  then obtain j' where j': "byID (SD_store ?sd) = (byID (SD_store sd))(Job_ID a \<mapsto> j')"
    "Job_Status j' \<in> {JobStatus.StatusCompleted, JobStatus.StatusFailed} \<or> Job_Status j' = JobStatus.StatusPending
      \<and> Job_RetryCount j' = Job_RetryCount a + 1 \<and> Job_RetryCount a < SC_RetryMax (SD_config sd)"
    by (auto simp: run_ends_def)
  have bound: "int (count_list ls (Started (Job_ID a))) \<le> retry_limit (SD_config sd) + 1"
    using jobs [of "Job_ID a"] j by (auto simp: job_ok_def Let_def)
  have cfg: "SD_config ?sd = SD_config sd" by (simp add: run_ends_def)
  have "job_ok ?sd (ls @ [Ended (Job_ID a)]) y" for y
  proof (cases "y = Job_ID a")
    case True
    have "Job_ID a \<notin> Job_ID ` set (SD_limiter ?sd)" using inj by (auto simp: lim)
    then show ?thesis using j' run bound True by (auto simp: job_ok_def Let_def cfg retry_limit_def)
  next
    case False
    then show ?thesis using j'(1) by (intro job_ok_other [OF jobs]) (auto simp: lim cfg)
  qed
  moreover have "distinct (map Job_ID (SD_limiter ?sd))"
    using d by (simp add: run_ends_def distinct_map set_remove1_eq inj_on_diff)
  moreover have "length (SD_limiter ?sd) \<le> slots (SD_config ?sd)"
    using ok length_remove1 [of a "SD_limiter sd"] by (auto simp: run_ends_def sched_ok_def split: if_splits)
  ultimately show ?thesis using ok st(3) by (simp add: sched_ok_def run_ends_def)
qed

lemma sched_ok_submit:
  assumes ok: "sched_ok sd ls" and fresh: "byID (SD_store sd) (fst (Create now uuid (SD_store sd) j)) = None" and r: "Job_RetryCount j = 0"
  shows "sched_ok (sd\<lparr>SD_store := snd (snd (Create now uuid (SD_store sd) j))\<rparr>) (ls @ [Submitted (fst (Create now uuid (SD_store sd) j))])"
proof -
  let ?x = "fst (Create now uuid (SD_store sd) j)" and ?s = "snd (snd (Create now uuid (SD_store sd) j))"
  have wf: "store_wf (SD_store sd)" and jobs: "\<And>x. job_ok sd ls x" using ok by (auto simp: sched_ok_def)
  have "store_wf ?s" using apply_op_wf [OF wf, of "OCreate now uuid j"] by simp
  obtain j' where j': "byID ?s = (byID (SD_store sd))(?x \<mapsto> j')" "Job_Status j' = JobStatus.StatusPending" "Job_RetryCount j' = 0"
    using r by (auto simp: Create_def Let_def)
  have "job_ok (sd\<lparr>SD_store := ?s\<rparr>) (ls @ [Submitted ?x]) y" for y
  proof (cases "y = ?x")
    case True
    then show ?thesis using job_okD(1) [OF jobs fresh] j' by (auto simp: job_ok_def Let_def retry_limit_def)
  next
    case False
    then show ?thesis using j'(1) by (intro job_ok_other [OF jobs]) auto
  qed
  then show ?thesis using ok \<open>store_wf ?s\<close> by (simp add: sched_ok_def)
qed

lemma sched_ok_trace:
  assumes "sched_trace sd0 ls sd" "sched_ok sd0 []" "\<forall>l \<in> set ls. \<forall>x st. l \<noteq> Notified x \<and> l \<noteq> Marked x st"
  shows "sched_ok sd ls"
  using assms
proof (induction rule: sched_trace.induct)
  case (Step sd0 ls sd1 l sd2)
  then have ok: "sched_ok sd1 ls" and l: "\<forall>x st. l \<noteq> Notified x \<and> l \<noteq> Marked x st" by auto
  from Step.hyps(2) show ?case
  proof cases
    case (Poll now pick)
    then have e: "job_ok sd2 (ls @ [Idle]) y" for y
      using ok tick_none [OF Poll(3)] by (intro job_ok_other [of sd1]) (auto simp: sched_ok_def)
    have "\<forall>q. SD_wakeup sd2 = Some q \<longrightarrow> WQ_ch q = []"
      using ok tick_wakeup [OF Poll(3)] tick_no_wakeup [OF Poll(3)] by (cases "SD_wakeup sd1") (fastforce simp: sched_ok_def)+
    then show ?thesis using ok e tick_none [OF Poll(3)] Poll(1) by (simp add: sched_ok_def)
  qed (use l ok sched_ok_start sched_ok_finish sched_ok_submit in auto)
qed

lemma sched_ok_new: "sched_ok (NewScheduler NewJobStoreMem cfg) []"
proof -
  have "store_wf NewJobStoreMem" by (simp add: store_wf_def NewJobStoreMem_def)
  then show ?thesis by (simp add: sched_ok_def job_ok_def NewScheduler_def NewJobStoreMem_def mild_def Let_def)
qed

lemma sched_trace_config: "sched_trace sd0 ls sd \<Longrightarrow> SD_config sd = SD_config sd0"
proof (induction rule: sched_trace.induct)
  case (Step sd ls sd1 l sd2)
  then show ?case by (auto elim!: sched_step.cases simp: run_ends_def tick_config)
qed simp

text \<open>
  C27. However rounds of the loop, ends of runs and new jobs follow each other in a scheduler over a fresh store, there are
  never more runs under way than \<open>MaxConcurrency\<close> (at least one), no job has two runs under way, and no job is started more
  than \<open>RetryMax + 1\<close> times (once when \<open>RetryMax\<close> is negative) - as long as no wake-up is announced and nobody else
  writes statuses.
\<close>

theorem scheduler_run_bound:
  assumes "sched_trace (NewScheduler NewJobStoreMem cfg) ls sd"
    and "\<forall>l \<in> set ls. \<forall>x st. l \<noteq> Notified x \<and> l \<noteq> Marked x st"
  shows "int (count_list ls (Started x)) \<le> max 0 (SC_RetryMax cfg) + 1
    \<and> length (SD_limiter sd) \<le> max 1 (nat (SC_MaxConcurrency cfg)) \<and> distinct (map Job_ID (SD_limiter sd))"
proof -
  have ok: "sched_ok sd ls" using sched_ok_trace [OF assms(1) sched_ok_new assms(2)] .
  have cfg: "SD_config sd = cfg" using sched_trace_config [OF assms(1)] by (simp add: NewScheduler_def)
  have "int (count_list ls (Started x)) \<le> retry_limit cfg + 1"
    using job_ok_starts [of sd ls x] ok by (simp add: sched_ok_def cfg)
  moreover have "slots cfg \<le> max 1 (nat (SC_MaxConcurrency cfg))" by (auto simp: slots_def)
  ultimately show ?thesis using ok by (auto simp: sched_ok_def cfg retry_limit_def)
qed

section \<open>A run that waits\<close>

lemma wait_round:
  assumes "CompileSteppable (RN_registry R) (Some g) = Inr steps"
    and "nextRunnableBatch (RN_maxParallelSteps R) steps (level_groups g) (LP_completed st) (JR_ID jr) (PlanDecisionID gb) = i # rest"
    and "isWaitLikeNodeType (SS_NodeType (steps ! i))" and "replay_action_for R rc (steps ! i) = RunNow"
    and "results_text (PL_Results (LP_payload st)) \<noteq> None"
    and "memory_snapshot R (emit_node R (NodeStartedCall (JR_ID jr) (SS_NodeID (steps ! i)) 1 []) (LP_host st)) \<noteq> None"
  shows "\<exists>h'. run_loop (Suc n) R jr g gb steps rc st = Some (Returns (Some JobWaitingErr), h')"
proof -
  have undone: "\<not> step_done (JR_ID jr) (PlanDecisionID gb) steps (LP_completed st) i"
    using batch_spec [OF compiled_plan [OF assms(1)], of i] assms(2) by (metis list.set_intros(1))
  show ?thesis
    using assms(2-6) undone
    by (auto simp: loop_round_def sequential_round_def wait_node_def Let_def split: option.split prod.split)
qed

text \<open>
  C28. A run that stops at a wait node is taken for a failure by the API process.  The round of the run loop that comes to a
  wait, approval or condition node (which the replay policy lets run, on results and a memory that have a JSON form) ends the run with
  \<open>ErrJobWaiting\<close>.  The API's run function then closes the event stream with \<open>job_failed\<close>, if the stream holds no terminal event
  and the append is not fenced, so that the status derived from the stream is not waiting but failed; and the scheduler, which finds the job in
  its store, makes it pending and puts it into the queue to be run again, if it has retries left, and marks it failed if it has none.
\<close>

theorem waiting_run_is_failed_and_requeued:
  assumes "CompileSteppable (RN_registry R) (Some g) = Inr steps"
    and "nextRunnableBatch (RN_maxParallelSteps R) steps (level_groups g) (LP_completed st) (JR_ID jr) (PlanDecisionID gb) = i # rest"
    and "isWaitLikeNodeType (SS_NodeType (steps ! i))" and "replay_action_for R rc (steps ! i) = RunNow"
    and "results_text (PL_Results (LP_payload st)) \<noteq> None"
    and "memory_snapshot R (emit_node R (NodeStartedCall (JR_ID jr) (SS_NodeID (steps ! i)) 1 []) (LP_host st)) \<noteq> None"
    and "list_all (\<lambda>ev. Ev_Type ev \<notin> {JobCompleted, JobFailed, JobCancelled}) (events_of es (Job_ID job))"
    and "append_fence (env_now1 env) (env_ctx env) es (Job_ID job) = None" and "byID s (Job_ID job) = Some j"
  shows "\<exists>h' e. run_loop (Suc n) R jr g gb steps rc st = Some (Returns (Some e), h') \<and> e = JobWaitingErr
    \<and> DeriveStatusFromEvents (fst (ListEvents (append_end env (Job_ID job) goal (Some (e, msg)) es) (Job_ID job))) = JobStatus.StatusFailed
    \<and> (if Job_RetryCount job < SC_RetryMax cfg
       then map_option Job_Status (byID (settle now cfg hook job (Some e) s) (Job_ID job)) = Some JobStatus.StatusPending
         \<and> Job_ID job \<in> set (pending (settle now cfg hook job (Some e) s))
       else map_option Job_Status (byID (settle now cfg hook job (Some e) s) (Job_ID job)) = Some JobStatus.StatusFailed)"
proof -
  let ?ev = "JobEvent0\<lparr>Ev_JobID := Job_ID job, Ev_Type := JobFailed,
    Ev_Payload := (case terminal_payload goal (Some (JobWaitingErr, msg)) of None \<Rightarrow> [] | Some b \<Rightarrow> b)\<rparr>"
  let ?v = "int (length (events_of es (Job_ID job)))"
  have listed: "fst (ListEvents t x) = events_of t x" for t x by (simp add: ListEvents_def Let_def)
  obtain n es' where a: "Append env es (Job_ID job) ?v ?ev = (Inr n, es')"
    using assms(8) by (simp add: Append_def append_locked_def Let_def)
  have fin: "append_end env (Job_ID job) goal (Some (JobWaitingErr, msg)) es = es'"
    using assms(7) a by (auto simp: append_end_def ListEvents_def Let_def list_ex_iff list_all_iff)
  obtain e where "events_of es' (Job_ID job) = events_of es (Job_ID job) @ [e]" "Ev_Type e = JobFailed"
    using conjunct2 [OF Append_ok [OF a]] by (rule append_locked_ok) simp
  then have "DeriveStatusFromEvents (events_of es' (Job_ID job)) = JobStatus.StatusFailed"
    by (simp add: derive_snoc status_of_event_def)
  then show ?thesis using wait_round [OF assms(1-6)] assms(9) fin
    by (simp add: listed settle_def step_failure_of_def retry_or_fail_def Store_Requeue_def UpdateStatus_def)
qed

section \<open>What the reclaimer does\<close>

definition reclaim_status :: "memoryStore \<Rightarrow> string \<Rightarrow> JobStatus \<Rightarrow> JobStatus" where
  "reclaim_status es x st = (let d = DeriveStatusFromEvents (events_of es x) in
     if d \<in> {JobStatus.StatusCompleted, JobStatus.StatusFailed, JobStatus.StatusCancelled} then d
     else if d \<in> {JobStatus.StatusWaiting, JobStatus.StatusParked} then st
     else if st = JobStatus.StatusRunning then JobStatus.StatusPending else st)"

definition lease_expired :: "gotime \<Rightarrow> memoryStore \<Rightarrow> string \<Rightarrow> bool" where
  "lease_expired now es x \<longleftrightarrow> (\<exists>c. es_claims es x = Some c \<and> CR_ExpiresAt c \<le> now)"

definition reclaims :: "memoryStore \<Rightarrow> JobStoreMem \<Rightarrow> string \<Rightarrow> bool" where
  "reclaims es s x \<longleftrightarrow> map_option Job_Status (byID s x) = Some JobStatus.StatusRunning \<and> reclaim_status es x JobStatus.StatusRunning = JobStatus.StatusPending"

lemma reclaim_one_spec:
  "pending (snd (reclaim_one now es x (n, s))) = pending s"
  "y \<noteq> x \<Longrightarrow> byID (snd (reclaim_one now es x (n, s))) y = byID s y"
  "map_option Job_Status (byID (snd (reclaim_one now es x (n, s))) x) = map_option (\<lambda>j. reclaim_status es x (Job_Status j)) (byID s x)"
  "fst (reclaim_one now es x (n, s)) = (if reclaims es s x then Suc n else n)"
  by (cases "byID s x"; auto simp: reclaim_one_def reclaim_status_def reclaims_def ListEvents_def Get_def UpdateStatus_def Let_def)+

lemma reclaim_fold:
  assumes "distinct ids"
  shows "pending (snd (fold (reclaim_one now es) ids (n, s))) = pending s"
    and "map_option Job_Status (byID (snd (fold (reclaim_one now es) ids (n, s))) y)
      = map_option (\<lambda>j. if y \<in> set ids then reclaim_status es y (Job_Status j) else Job_Status j) (byID s y)"
    and "fst (fold (reclaim_one now es) ids (n, s)) = n + card {x \<in> set ids. reclaims es s x}"
proof -
  show "pending (snd (fold (reclaim_one now es) ids (n, s))) = pending s"
    using assms
  proof (induction ids arbitrary: n s)
    case (Cons x ids)
    obtain n1 s1 where r: "reclaim_one now es x (n, s) = (n1, s1)" by fastforce
    then show ?case using Cons reclaim_one_spec(1) [of now es x n s] by simp
  qed simp
  show "map_option Job_Status (byID (snd (fold (reclaim_one now es) ids (n, s))) y)
      = map_option (\<lambda>j. if y \<in> set ids then reclaim_status es y (Job_Status j) else Job_Status j) (byID s y)"
    using assms
  proof (induction ids arbitrary: n s)
    case (Cons x ids)
    obtain n1 s1 where r: "reclaim_one now es x (n, s) = (n1, s1)" by fastforce
    have IH: "map_option Job_Status (byID (snd (fold (reclaim_one now es) ids (n1, s1))) y)
      = map_option (\<lambda>j. if y \<in> set ids then reclaim_status es y (Job_Status j) else Job_Status j) (byID s1 y)"
      using Cons by simp
    show ?case
    proof (cases "y = x")
      case True
      then have "y \<notin> set ids" using Cons.prems by simp
      then show ?thesis using IH True reclaim_one_spec(3) [of now es x n s] r by simp
    next
      case False
      then have "byID s1 y = byID s y" using reclaim_one_spec(2) [of y x now es n s] r by simp
      then show ?thesis using IH False r by simp
    qed
  qed simp
  show "fst (fold (reclaim_one now es) ids (n, s)) = n + card {x \<in> set ids. reclaims es s x}"
    using assms
  proof (induction ids arbitrary: n s)
    case (Cons x ids)
    obtain n1 s1 where r: "reclaim_one now es x (n, s) = (n1, s1)" by fastforce
    have "reclaims es s1 y \<longleftrightarrow> reclaims es s y" if "y \<in> set ids" for y
    proof -
      have "y \<noteq> x" using that Cons.prems by auto
      then have "byID s1 y = byID s y" using reclaim_one_spec(2) [of y x now es n s] r by simp
      then show ?thesis by (simp add: reclaims_def)
    qed
    then have eq: "{y \<in> set ids. reclaims es s1 y} = {y \<in> set ids. reclaims es s y}" by auto
    have "x \<notin> {y \<in> set ids. reclaims es s y}" using Cons.prems by simp
    moreover have "{y \<in> set (x # ids). reclaims es s y} = (if reclaims es s x then insert x {y \<in> set ids. reclaims es s y} else {y \<in> set ids. reclaims es s y})"
      by auto
    moreover have "finite {y \<in> set ids. reclaims es s y}" by simp
    ultimately have "card {y \<in> set (x # ids). reclaims es s y} = (if reclaims es s x then 1 else 0) + card {y \<in> set ids. reclaims es s y}"
      using card_insert_disjoint [of "{y \<in> set ids. reclaims es s y}" x] by (cases "reclaims es s x") (simp_all only: if_True if_False, simp_all)
    then show ?case using Cons.IH [of n1 s1] Cons.prems reclaim_one_spec(4) [of now es x n s] r eq by (simp split: if_splits)
  qed simp
qed

text \<open>
  The reclaimer follows the event stream. A job whose lease has expired gets the terminal status its events
  give; if the events say waiting or parked it is left alone; otherwise it goes from running back to pending. Every other
  job keeps its status, the queue of the store is not touched, and the count is the number of jobs sent back to pending.
\<close>

theorem reclaim_follows_events:
  assumes "ReclaimOrphanedFromEventStore order now now' s es = (n, s')" and "distinct order" "set order = dom (es_claims es)"
  shows "(\<forall>x. map_option Job_Status (byID s' x)
        = map_option (\<lambda>j. if lease_expired now es x then reclaim_status es x (Job_Status j) else Job_Status j) (byID s x))
    \<and> n = card {x. lease_expired now es x \<and> reclaims es s x} \<and> pending s' = pending s"
proof -
  let ?ids = "ListJobIDsWithExpiredClaim order now es"
  have d: "distinct ?ids" using assms(2) by (simp add: ListJobIDsWithExpiredClaim_def)
  have m: "x \<in> set ?ids \<longleftrightarrow> lease_expired now es x" for x
    using assms(3) by (auto simp: ListJobIDsWithExpiredClaim_def lease_expired_def split: option.splits)
  have r: "fold (reclaim_one now' es) ?ids (0, s) = (n, s')" using assms(1) by (simp add: ReclaimOrphanedFromEventStore_def)
  show ?thesis using reclaim_fold [OF d, of now' es 0 s] by (simp add: r m)
qed

text \<open>Pending, but in no queue: nothing in the loop finds such a job.\<close>

definition stranded :: "Scheduler \<Rightarrow> string \<Rightarrow> bool" where
  "stranded sd x \<longleftrightarrow> store_wf (SD_store sd) \<and> mild (SD_compensate sd) \<and> map_option Job_Status (byID (SD_store sd) x) = Some JobStatus.StatusPending
     \<and> x \<notin> set (pending (SD_store sd)) \<and> x \<notin> Job_ID ` set (SD_limiter sd)"

lemma settle_other:
  assumes "mild c" "store_wf s" "x \<noteq> Job_ID a"
  shows "byID (settle now cfg c a err s) x = byID s x" and "set (pending (settle now cfg c a err s)) \<subseteq> insert (Job_ID a) (set (pending s))"
    and "store_wf (settle now cfg c a err s)"
proof -
  have wf: "store_wf (UpdateStatus now s (Job_ID a) st)" "store_wf (Store_Requeue now s (Some a))" for st
    using apply_op_wf [OF assms(2), of "OUpdateStatus now (Job_ID a) st"] apply_op_wf [OF assms(2), of "ORequeue now (Some a)"] by simp_all
  show "byID (settle now cfg c a err s) x = byID s x" "set (pending (settle now cfg c a err s)) \<subseteq> insert (Job_ID a) (set (pending s))"
    "store_wf (settle now cfg c a err s)"
    using settle_cases [OF assms(1), of now cfg a err s] assms(3) wf
    by (auto simp: UpdateStatus_def Store_Requeue_def split: option.splits)
qed

lemma stranded_step:
  assumes "sched_step sd l sd'" "stranded sd x" "\<forall>st. l \<noteq> Marked x st"
  shows "stranded sd' x \<and> l \<noteq> Started x"
proof -
  have wf: "store_wf (SD_store sd)" using assms(2) by (simp add: stranded_def)
  show ?thesis
    using assms(1)
  proof cases
    case (Start now pick j)
    note f = tick_some [OF Start(3) wf]
    then have "Job_ID j \<noteq> x" using assms(2) by (auto simp: stranded_def)
    then show ?thesis using f assms(2) Start(1) by (auto simp: stranded_def)
  next
    case (Poll now pick)
    then show ?thesis using tick_none [OF Poll(3)] assms(2) by (simp add: stranded_def)
  next
    case (Finish j now err)
    have "x \<noteq> Job_ID j" using assms(2) Finish(3) by (auto simp: stranded_def)
    moreover have "set (remove1 j (SD_limiter sd)) \<subseteq> set (SD_limiter sd)" by (rule set_remove1_subset)
    ultimately show ?thesis
      using assms(2) Finish(1,2) settle_other [of "SD_compensate sd" "SD_store sd" x j now "SD_config sd" err]
      by (auto simp: stranded_def run_ends_def)
  next
    case (Submit now uuid j)
    have "store_wf (snd (snd (Create now uuid (SD_store sd) j)))" using apply_op_wf [OF wf, of "OCreate now uuid j"] by simp
    moreover obtain j' where "byID (snd (snd (Create now uuid (SD_store sd) j))) = (byID (SD_store sd))(fst (Create now uuid (SD_store sd) j) \<mapsto> j')"
      "pending (snd (snd (Create now uuid (SD_store sd) j))) = pending (SD_store sd) @ [fst (Create now uuid (SD_store sd) j)]"
      by (simp add: Create_def Let_def)
    moreover have "x \<noteq> fst (Create now uuid (SD_store sd) j)" using assms(2) Submit(3) by (auto simp: stranded_def)
    ultimately show ?thesis using assms(2) Submit(1,2) by (simp add: stranded_def)
  next
    case (Notify q pick ctxErr y)
    then show ?thesis using assms(2) by (simp add: stranded_def)
  next
    case (Mark y st now)
    have "store_wf (UpdateStatus now (SD_store sd) y st)" using apply_op_wf [OF wf, of "OUpdateStatus now y st"] by simp
    moreover have "x \<noteq> y" using Mark(1) assms(3) by auto
    ultimately show ?thesis using assms(2) Mark by (auto simp: stranded_def UpdateStatus_def split: option.splits)
  qed
qed

lemma stranded_trace: "sched_trace sd ls sd' \<Longrightarrow> stranded sd x \<Longrightarrow> \<forall>st. Marked x st \<notin> set ls \<Longrightarrow> stranded sd' x \<and> Started x \<notin> set ls"
proof (induction rule: sched_trace.induct)
  case (Step sd ls sd1 l sd2)
  then have "stranded sd1 x" "Started x \<notin> set ls" by auto
  then show ?case using stranded_step [OF Step.hyps(2)] Step.prems(2) by auto
qed simp

text \<open>
  A job that the reclaimer sends back to pending in the in-memory store is lost there: whatever the scheduler, the runs,
  new jobs and wake-ups do from then on, no round of the loop starts it, until somebody writes its status again. The comment
  over the reclaimer says that the job is queued again.
\<close>

theorem reclaimed_job_is_never_started:
  assumes "ReclaimOrphanedFromEventStore order now now' s es = (n, s')" "distinct order" "set order = dom (es_claims es)"
    and "lease_expired now es x" "reclaims es s x" "x \<notin> set (pending s)" "store_wf s'"
    and "SD_store sd = s'" "SD_compensate sd = None" "x \<notin> Job_ID ` set (SD_limiter sd)"
    and "sched_trace sd ls sd'" "\<forall>st. Marked x st \<notin> set ls"
  shows "Started x \<notin> set ls"
proof -
  have d: "distinct (ListJobIDsWithExpiredClaim order now es)" using assms(2) by (simp add: ListJobIDsWithExpiredClaim_def)
  have m: "x \<in> set (ListJobIDsWithExpiredClaim order now es)"
    using assms(3,4) by (auto simp: ListJobIDsWithExpiredClaim_def lease_expired_def split: option.splits)
  have r: "fold (reclaim_one now' es) (ListJobIDsWithExpiredClaim order now es) (0, s) = (n, s')"
    using assms(1) by (simp add: ReclaimOrphanedFromEventStore_def)
  have "map_option Job_Status (byID s' x) = Some JobStatus.StatusPending" "pending s' = pending s"
    using reclaim_fold [OF d, of now' es 0 s] r m assms(5) by (auto simp: reclaims_def)
  then have "stranded sd x" using assms(6-10) by (simp add: stranded_def mild_def)
  then show ?thesis using stranded_trace [OF assms(11) _ assms(12)] by blast
qed

section \<open>Concrete runs\<close>

definition ex_cfg :: SchedulerConfig where
  "ex_cfg = \<lparr>SC_MaxConcurrency = 0, SC_RetryMax = 1, SC_Backoff = 1, SC_Queues = [], SC_Capabilities = [], SC_WakeupQueueTimeout = 0\<rparr>"

definition ex_run :: Job where
  "ex_run = ex_job ''j''"

lemmas ex_run_defs = ex_cfg_def ex_run_def ex_job_def NewJob_def

definition ex_stranded :: JobStoreMem where
  "ex_stranded = NewJobStoreMem\<lparr>byID := [''j'' \<mapsto> ex_run\<lparr>Job_Status := JobStatus.StatusRunning\<rparr>]\<rparr>"

theorem scheduler_run_bound_witness:
  "\<exists>sd. sched_trace (NewScheduler NewJobStoreMem ex_cfg) [Submitted ''j'', Started ''j''] sd \<and> length (SD_limiter sd) \<le> 1"
proof -
  let ?s0 = "NewScheduler NewJobStoreMem ex_cfg"
  define s1 where "s1 = ?s0\<lparr>SD_store := snd (snd (Create 1 ''u'' (SD_store ?s0) ex_run))\<rparr>"
  have "map_option Job_ID (fst (tick 2 True s1)) = Some ''j''"
    by (simp add: s1_def tick_def NewScheduler_def NewJobStoreMem_def ex_run_defs Create_def claim_pending_def ClaimNextPending_def
        ClaimNextPendingFromQueue_def ClaimNextPendingForWorker_def claimable_def jobMatchesCapabilities_def Let_def)
  then obtain j sd where t: "tick 2 True s1 = (Some j, sd)" "Job_ID j = ''j''" by (cases "tick 2 True s1") auto
  have "sched_step ?s0 (Submitted (fst (Create 1 ''u'' (SD_store ?s0) ex_run))) s1"
    unfolding s1_def by (rule Submit) (simp_all add: NewScheduler_def NewJobStoreMem_def ex_run_defs)
  then have "sched_step ?s0 (Submitted ''j'') s1" by (simp add: ex_run_defs Create_def Let_def)
  moreover have "sched_step s1 (Started ''j'') sd"
    using Start [OF _ t(1)] t(2) by (simp add: s1_def NewScheduler_def slots_def ex_cfg_def)
  ultimately have "sched_trace ?s0 [Submitted ''j'', Started ''j''] sd"
    using Step [OF Step [OF Stop, of ?s0 "Submitted ''j''" s1], of "Started ''j''" sd] by simp
  then show ?thesis using scheduler_run_bound [of ex_cfg "[Submitted ''j'', Started ''j'']" sd "''j''"] by (auto simp: ex_cfg_def)
qed

text \<open>A plan of one approval node, and the loop before its only round.\<close>

definition ex_gate :: TaskGraph where
  "ex_gate = \<lparr>TG_Nodes = [demo_node ''a'' ''approval''], TG_Edges = []\<rparr>"

definition ex_gate_steps :: "demo_world NodeRunner SteppableStep list" where
  "ex_gate_steps = [\<lparr>SS_NodeID = ''a'', SS_NodeType = ''approval'', SS_Run = (\<lambda>ctx p h. (NodeReturns p (Some p) None, h))\<rparr>]"

definition ex_gate_start :: "demo_world loop_state" where
  "ex_gate_start = \<lparr>LP_payload = demo_payload, LP_completed = [], LP_host = demo_host\<rparr>"

lemma ex_gate_compile: "CompileSteppable (Some demo_registry) (Some ex_gate) = Inr ex_gate_steps"
proof -
  have order: "(TopoOrder (Some ex_gate) :: goerr graph_error + string list) = Inr [''a'']" by code_simp
  show ?thesis
    unfolding CompileSteppable_def option.case order
    by (simp add: ex_gate_def demo_node_def ex_gate_steps_def demo_registry_def node_by_id_def Registry_Get_def)
qed

theorem waiting_run_is_failed_and_requeued_witness:
  "\<exists>h' e. run_loop 1 (demo_runner None None 0) (demo_job []) ex_gate [] ex_gate_steps None ex_gate_start = Some (Returns (Some e), h')
    \<and> DeriveStatusFromEvents (fst (ListEvents (append_end (ex_env []) ''j'' [] (Some (e, [])) ex_created) ''j'')) = JobStatus.StatusFailed
    \<and> ''j'' \<in> set (pending (settle 5 ex_cfg None ex_run (Some e) ex_stranded))"
proof -
  have batch: "nextRunnableBatch 0 ex_gate_steps (level_groups ex_gate) (LP_completed ex_gate_start) ''j'' (PlanDecisionID []) = 0 # []"
    by (simp add: nextRunnableBatch_def step_done_def ex_gate_steps_def ex_gate_start_def Let_def split: option.split)
  have results: "results_text (PL_Results (LP_payload ex_gate_start)) \<noteq> None" unfolding ex_gate_start_def by code_simp
  have job: "Job_ID ex_run = ''j''" "Job_RetryCount ex_run < SC_RetryMax ex_cfg" "byID ex_stranded ''j'' \<noteq> None"
    by (simp_all add: ex_run_defs ex_stranded_def)
  have "list_all (\<lambda>ev. Ev_Type ev \<notin> {JobCompleted, JobFailed, JobCancelled}) (events_of ex_created ''j'')"
    using ex_created_facts(1) by auto
  moreover have "append_fence (env_now1 (ex_env [])) (env_ctx (ex_env [])) ex_created ''j'' = None"
    by (simp add: append_fence_def ex_env_def AttemptIDFromContext_def WithAttemptID_def)
  ultimately show ?thesis
    using waiting_run_is_failed_and_requeued [of "demo_runner None None 0" ex_gate ex_gate_steps ex_gate_start "demo_job []" "[]" 0 "[]" None
        ex_created ex_run "ex_env []" ex_stranded _ 0 "[]" "[]" ex_cfg 5 None] ex_gate_compile batch results job
    by (auto simp: ex_gate_steps_def isWaitLikeNodeType_def replay_action_for_def memory_snapshot_def ex_gate_start_def demo_host_def emit_node_def)
qed

lemma ex_derived: "DeriveStatusFromEvents (events_of ex_leased ''j'') = JobStatus.StatusPending"
  using ex_created_facts(1) ex_claim(4) by (auto simp: DeriveStatusFromEvents_def status_of_event_def)

lemma ex_expired:
  "set [''j''] = dom (es_claims ex_leased)" "lease_expired (1 + leaseDuration) ex_leased ''j''" "reclaims ex_leased ex_stranded ''j''"
  "store_wf ex_stranded"
proof -
  have c: "es_claims ex_leased = [''j'' \<mapsto> \<lparr>CR_WorkerID = ''w1'', CR_ExpiresAt = 1 + leaseDuration, CR_AttemptID = ''attempt-1''\<rparr>]"
    using ex_created_facts by (auto simp: ex_leased_def ClaimJob_def leaseDuration_def Let_def)
  show "set [''j''] = dom (es_claims ex_leased)" "lease_expired (1 + leaseDuration) ex_leased ''j''" by (simp_all add: c lease_expired_def)
  show "reclaims ex_leased ex_stranded ''j''" using ex_derived by (simp add: reclaims_def reclaim_status_def ex_stranded_def Let_def)
  show "store_wf ex_stranded" by (simp add: store_wf_def ex_stranded_def NewJobStoreMem_def ex_run_defs)
qed

lemma ex_reclaim:
  "ReclaimOrphanedFromEventStore [''j''] (1 + leaseDuration) 9 ex_stranded ex_leased = (1, UpdateStatus 9 ex_stranded ''j'' JobStatus.StatusPending)"
  using ex_derived ex_claim(3) ex_created_facts(1) ex_claim(4)
  by (auto simp: ReclaimOrphanedFromEventStore_def ListJobIDsWithExpiredClaim_def reclaim_one_def ListEvents_def Get_def ex_stranded_def Let_def)

theorem reclaim_follows_events_witness:
  "map_option Job_Status (byID (snd (ReclaimOrphanedFromEventStore [''j''] (1 + leaseDuration) 9 ex_stranded ex_leased)) ''j'') = Some JobStatus.StatusPending"
proof -
  obtain n s' where r: "ReclaimOrphanedFromEventStore [''j''] (1 + leaseDuration) 9 ex_stranded ex_leased = (n, s')" by fastforce
  show ?thesis using reclaim_follows_events [OF r _ ex_expired(1)] ex_expired(2,3) r by (auto simp: reclaims_def)
qed

theorem reclaimed_job_is_never_started_witness:
  "\<exists>s sd. ReclaimOrphanedFromEventStore [''j''] (1 + leaseDuration) 9 ex_stranded ex_leased = (1, s)
    \<and> sched_trace (NewScheduler s ex_cfg) [Idle] sd \<and> Started ''j'' \<notin> set [Idle]"
proof -
  let ?s = "UpdateStatus 9 ex_stranded ''j'' JobStatus.StatusPending"
  let ?sd = "NewScheduler ?s ex_cfg"
  note r = ex_reclaim
  have wf: "store_wf ?s" using apply_op_wf [OF ex_expired(4), of "OUpdateStatus 9 ''j'' JobStatus.StatusPending"] by simp
  have "pending ?s = []" by (simp add: UpdateStatus_def ex_stranded_def NewJobStoreMem_def)
  then have "tick 10 True ?sd = (None, ?sd)"
    by (simp add: tick_def NewScheduler_def claim_pending_def ClaimNextPending_def ClaimNextPendingFromQueue_def ClaimNextPendingForWorker_def ex_cfg_def Let_def)
  then have "sched_step ?sd Idle ?sd" by (intro Poll) (simp_all add: NewScheduler_def slots_def ex_cfg_def)
  from Step [OF Stop this] have t: "sched_trace ?sd [Idle] ?sd" by simp
  have "Started ''j'' \<notin> set [Idle]"
    by (rule reclaimed_job_is_never_started [OF r _ ex_expired(1-3) _ wf _ _ _ t])
      (simp_all add: NewScheduler_def ex_stranded_def NewJobStoreMem_def)
  then show ?thesis using r t by blast
qed

end
