(* ===== verification/Agent_Inbox.thy ===== *)
theory Agent_Inbox
  imports Job_Store_Mem Event_Store Node_Sink
begin

text \<open>
  Messages to agents and signals to jobs: the in-memory message store that is bus and inbox at once
  (\<open>internal/agent/messaging\<close>), the inbox of signals (\<open>internal/agent/signal/inbox_mem.go\<close>), and the job that a message in
  the inbox is turned into (\<open>internal/agent/job/inbox.go\<close>).
\<close>

section \<open>Messages\<close>

record Message =
  Msg_ID :: string
  Msg_FromAgentID :: string
  Msg_ToAgentID :: string
  Msg_Channel :: string
  Msg_Kind :: string
  Msg_Payload :: "gomap option"
  Msg_CausationID :: string
  Msg_ScheduledAt :: "gotime option"
  Msg_ExpiresAt :: "gotime option"
  Msg_CreatedAt :: gotime
  Msg_DeliveredAt :: "gotime option"
  Msg_ConsumedByJobID :: string
  Msg_ConsumedAt :: "gotime option"

definition KindUser :: string where "KindUser = ''user''"
definition KindTimer :: string where "KindTimer = ''timer''"

record SendOptions =
  SO_Channel :: string
  SO_Kind :: string
  SO_CausationID :: string
  SO_ScheduledAt :: "gotime option"
  SO_ExpiresAt :: "gotime option"
  SO_IdempotencyKey :: string

text \<open>The slice and the map share their messages: the map holds positions of the slice.  The nil map of a payload stays nil.\<close>

record StoreMem =
  SM_messages :: "Message list"
  SM_byID :: "string \<rightharpoonup> nat"

definition NewStoreMem :: StoreMem where
  "NewStoreMem = \<lparr>SM_messages = [], SM_byID = Map.empty\<rparr>"

definition add_message :: "Message \<Rightarrow> StoreMem \<Rightarrow> StoreMem" where
  "add_message m s = s\<lparr>SM_messages := SM_messages s @ [m], SM_byID := (SM_byID s)(Msg_ID m \<mapsto> length (SM_messages s))\<rparr>"

definition Send ::
  "gotime \<Rightarrow> string \<Rightarrow> string \<Rightarrow> string \<Rightarrow> gomap option \<Rightarrow> SendOptions option \<Rightarrow> StoreMem \<Rightarrow> string \<times> StoreMem" where
  "Send now uuid fromAgentID toAgentID payload opts s =
     (let kind = (case opts of Some so \<Rightarrow> if SO_Kind so \<noteq> [] then SO_Kind so else KindUser | None \<Rightarrow> KindUser);
          msg = \<lparr>Msg_ID = ''msg-'' @ uuid, Msg_FromAgentID = fromAgentID, Msg_ToAgentID = toAgentID,
            Msg_Channel = (case opts of Some so \<Rightarrow> SO_Channel so | None \<Rightarrow> []), Msg_Kind = kind, Msg_Payload = payload,
            Msg_CausationID = (case opts of Some so \<Rightarrow> SO_CausationID so | None \<Rightarrow> []),
            Msg_ScheduledAt = (case opts of Some so \<Rightarrow> SO_ScheduledAt so | None \<Rightarrow> None),
            Msg_ExpiresAt = (case opts of Some so \<Rightarrow> SO_ExpiresAt so | None \<Rightarrow> None),
            Msg_CreatedAt = now, Msg_DeliveredAt = Some now, Msg_ConsumedByJobID = [], Msg_ConsumedAt = None\<rparr>
      in (Msg_ID msg, add_message msg s))"

definition SendDelayed ::
  "gotime \<Rightarrow> string \<Rightarrow> string \<Rightarrow> gomap option \<Rightarrow> gotime \<Rightarrow> SendOptions option \<Rightarrow> StoreMem \<Rightarrow> string \<times> StoreMem" where
  "SendDelayed now uuid toAgentID payload at opts s =
     (let kind = (case opts of Some so \<Rightarrow> if SO_Kind so \<noteq> [] then SO_Kind so else KindTimer | None \<Rightarrow> KindTimer);
          msg = \<lparr>Msg_ID = ''msg-'' @ uuid, Msg_FromAgentID = [], Msg_ToAgentID = toAgentID,
            Msg_Channel = (case opts of Some so \<Rightarrow> SO_Channel so | None \<Rightarrow> []), Msg_Kind = kind, Msg_Payload = payload,
            Msg_CausationID = (case opts of Some so \<Rightarrow> SO_CausationID so | None \<Rightarrow> []), Msg_ScheduledAt = Some at,
            Msg_ExpiresAt = (case opts of Some so \<Rightarrow> SO_ExpiresAt so | None \<Rightarrow> None),
            Msg_CreatedAt = now, Msg_DeliveredAt = None, Msg_ConsumedByJobID = [], Msg_ConsumedAt = None\<rparr>
      in (Msg_ID msg, add_message msg s))"

text \<open>A message that is in the inbox of its agent.\<close>

definition deliverable :: "gotime \<Rightarrow> Message \<Rightarrow> bool" where
  "deliverable now m \<longleftrightarrow> Msg_ConsumedByJobID m = []
     \<and> \<not> (Msg_DeliveredAt m = None \<and> (case Msg_ScheduledAt m of None \<Rightarrow> False | Some t \<Rightarrow> t > now))"

fun peek_loop :: "gotime \<Rightarrow> string \<Rightarrow> int \<Rightarrow> Message list \<Rightarrow> Message list \<Rightarrow> Message list" where
  "peek_loop now agentID limit [] out = out"
| "peek_loop now agentID limit (m # ms) out =
     (if Msg_ToAgentID m \<noteq> agentID \<or> \<not> deliverable now m then peek_loop now agentID limit ms out
      else let out' = out @ [m] in if limit > 0 \<and> int (length out') \<ge> limit then out' else peek_loop now agentID limit ms out')"

definition PeekInbox :: "gotime \<Rightarrow> StoreMem \<Rightarrow> string \<Rightarrow> int \<Rightarrow> Message list" where
  "PeekInbox now s agentID limit = peek_loop now agentID limit (SM_messages s) []"

text \<open>The same loop: nothing is marked as consumed.\<close>

definition ConsumeInbox :: "gotime \<Rightarrow> StoreMem \<Rightarrow> string \<Rightarrow> int \<Rightarrow> Message list" where
  "ConsumeInbox now s agentID limit = peek_loop now agentID limit (SM_messages s) []"

definition MarkConsumed :: "gotime \<Rightarrow> string \<Rightarrow> string \<Rightarrow> StoreMem \<Rightarrow> StoreMem" where
  "MarkConsumed now messageID jobID s = (case SM_byID s messageID of None \<Rightarrow> s
     | Some i \<Rightarrow> s\<lparr>SM_messages := (SM_messages s)[i := (SM_messages s ! i)\<lparr>Msg_ConsumedByJobID := jobID, Msg_ConsumedAt := Some now\<rparr>]\<rparr>)"

text \<open>The ids come in the order of a map's iteration, given by the first argument.\<close>

definition ListAgentIDsWithUnconsumedMessages :: "string list \<Rightarrow> gotime \<Rightarrow> StoreMem \<Rightarrow> int \<Rightarrow> string list" where
  "ListAgentIDsWithUnconsumedMessages order now s limit =
     (let seen = filter (\<lambda>a. a \<noteq> [] \<and> list_ex (\<lambda>m. Msg_ToAgentID m = a \<and> deliverable now m) (SM_messages s)) order
      in if limit > 0 then take (nat limit) seen else seen)"

section \<open>Signals\<close>

record SignalRecord =
  SR_ID :: string
  SR_JobID :: string
  SR_CorrelationKey :: string
  SR_Payload :: bytes
  SR_CreatedAt :: gotime
  SR_AckedAt :: "gotime option"

type_synonym inboxMem = "string \<rightharpoonup> SignalRecord"

definition inbox_Append :: "gotime \<Rightarrow> string \<Rightarrow> string \<Rightarrow> string \<Rightarrow> bytes \<Rightarrow> inboxMem \<Rightarrow> string \<times> inboxMem" where
  "inbox_Append now uuid jobID correlationKey payload m = (let i = ''sig-'' @ uuid in
     (i, m(i \<mapsto> \<lparr>SR_ID = i, SR_JobID = jobID, SR_CorrelationKey = correlationKey, SR_Payload = payload, SR_CreatedAt = now,
        SR_AckedAt = None\<rparr>)))"

definition inbox_MarkAcked :: "gotime \<Rightarrow> string \<Rightarrow> string \<Rightarrow> inboxMem \<Rightarrow> inboxMem" where
  "inbox_MarkAcked now jobID i m = (case m i of None \<Rightarrow> m | Some r \<Rightarrow> m(i \<mapsto> r\<lparr>SR_AckedAt := Some now\<rparr>))"

section \<open>A job from a message\<close>

definition extractGoalFromMessagePayload :: "gomap option \<Rightarrow> string" where
  "extractGoalFromMessagePayload payload = (case payload of None \<Rightarrow> []
     | Some p \<Rightarrow> (case map_of p ''message'' of
         Some (GStr m) \<Rightarrow> if m \<noteq> [] then m else marshal_map p
       | _ \<Rightarrow> marshal_map p))"

text \<open>What the call brings from outside: the clocks and uuids of its parts.\<close>

record inbox_env =
  IE_now :: gotime
  IE_uuid :: string
  IE_append :: append_env

definition inbox_job :: "string \<Rightarrow> string \<Rightarrow> Job" where
  "inbox_job agentID goal = (NewJob 0 [] agentID [] goal)\<lparr>Job_SessionID := agentID\<rparr>"

definition CreateJobFromInbox ::
  "inbox_env \<Rightarrow> string \<Rightarrow> StoreMem \<times> JobStoreMem \<times> memoryStore \<Rightarrow> (string \<times> bool \<times> JobStoreError option) \<times> StoreMem \<times> JobStoreMem \<times> memoryStore" where
  "CreateJobFromInbox env agentID w = (case w of (inbox, metadataStore, eventStore) \<Rightarrow>
     (case PeekInbox (IE_now env) inbox agentID 1 of [] \<Rightarrow> (([], False, None), w)
      | msg # _ \<Rightarrow>
          (let goal = extractGoalFromMessagePayload (Msg_Payload msg);
               (jobID, _, metadata') = Create (IE_now env) (IE_uuid env) metadataStore (inbox_job agentID goal);
               payload = (case json_map [(''agent_id'', jstr agentID), (''goal'', jstr goal)] of None \<Rightarrow> [] | Some b \<Rightarrow> b)
           in (case Append (IE_append env) eventStore jobID 0 (JobEvent0\<lparr>Ev_JobID := jobID, Ev_Type := JobCreated, Ev_Payload := payload\<rparr>) of
                 (Inl err, es) \<Rightarrow> ((jobID, True, Some err), inbox, metadata', es)
               | (Inr _, es) \<Rightarrow> ((jobID, True, None), MarkConsumed (IE_now env) (Msg_ID msg) jobID inbox, metadata', es)))))"

section \<open>Each message becomes one job\<close>

definition inbox_of :: "gotime \<Rightarrow> StoreMem \<Rightarrow> string \<Rightarrow> Message list" where
  "inbox_of now s agentID = filter (\<lambda>m. Msg_ToAgentID m = agentID \<and> deliverable now m) (SM_messages s)"

definition inbox_wf :: "StoreMem \<Rightarrow> bool" where
  "inbox_wf s \<longleftrightarrow> (\<forall>i < length (SM_messages s). SM_byID s (Msg_ID (SM_messages s ! i)) = Some i)"

lemma peek_loop_filter: "peek_loop now a limit ms out = out @ filter (\<lambda>m. Msg_ToAgentID m = a \<and> deliverable now m) ms" if "limit \<le> 0"
  using that by (induction ms arbitrary: out) (auto simp: Let_def)

lemma peek_one: "PeekInbox now s a 1 = take 1 (inbox_of now s a)"
proof -
  have "peek_loop now a 1 ms [] = take 1 (filter (\<lambda>m. Msg_ToAgentID m = a \<and> deliverable now m) ms)" for ms
    by (induction ms) (auto simp: Let_def)
  then show ?thesis by (simp add: PeekInbox_def inbox_of_def)
qed

lemma filter_update_one:
  assumes "distinct (map f xs)" "i < length xs" "P (xs ! i)" "\<not> P x'" "f x' = f (xs ! i)"
  shows "filter P (xs[i := x']) = remove1 (xs ! i) (filter P xs)"
  using assms
proof (induction xs arbitrary: i)
  case (Cons z zs)
  show ?case
  proof (cases i)
    case (Suc k)
    then have k: "k < length zs" "zs ! k \<noteq> z" using Cons.prems(1,2) by (auto simp: image_iff)
    then show ?thesis using Cons Suc by simp
  qed (use Cons.prems in simp)
qed simp

lemma inbox_wf_distinct: "inbox_wf s \<Longrightarrow> distinct (map Msg_ID (SM_messages s))"
  unfolding inbox_wf_def distinct_conv_nth by (metis length_map nth_map option.inject)

text \<open>The messages to an agent that no job has consumed, whether due or not.\<close>

definition open_messages :: "StoreMem \<Rightarrow> string \<Rightarrow> Message list" where
  "open_messages s agentID = filter (\<lambda>m. Msg_ToAgentID m = agentID \<and> Msg_ConsumedByJobID m = []) (SM_messages s)"

lemma inbox_of_open: "inbox_of now s a = filter (deliverable now) (open_messages s a)"
  unfolding inbox_of_def open_messages_def filter_filter by (rule filter_cong) (auto simp: deliverable_def)

lemma open_distinct: "inbox_wf s \<Longrightarrow> distinct (open_messages s a)"
  using inbox_wf_distinct [of s] by (simp add: open_messages_def distinct_map)

lemma mark_consumed:
  assumes wf: "inbox_wf s" and m: "m \<in> set (open_messages s a)" and j: "jobID \<noteq> []"
  shows "open_messages (MarkConsumed now (Msg_ID m) jobID s) a = remove1 m (open_messages s a)"
    and "inbox_wf (MarkConsumed now (Msg_ID m) jobID s)"
proof -
  let ?m = "m\<lparr>Msg_ConsumedByJobID := jobID, Msg_ConsumedAt := Some now\<rparr>"
  obtain i where i: "i < length (SM_messages s)" "SM_messages s ! i = m"
    using m by (auto simp: open_messages_def in_set_conv_nth)
  have "SM_byID s (Msg_ID m) = Some i" using wf i by (auto simp: inbox_wf_def)
  then have e: "MarkConsumed now (Msg_ID m) jobID s = s\<lparr>SM_messages := (SM_messages s)[i := ?m]\<rparr>" by (simp add: MarkConsumed_def i)
  show "open_messages (MarkConsumed now (Msg_ID m) jobID s) a = remove1 m (open_messages s a)"
    unfolding e open_messages_def
    using filter_update_one [OF inbox_wf_distinct [OF wf] i(1), of "\<lambda>m. Msg_ToAgentID m = a \<and> Msg_ConsumedByJobID m = []" ?m] m j i(2)
    by (simp add: open_messages_def)
  show "inbox_wf (MarkConsumed now (Msg_ID m) jobID s)"
    using wf i by (auto simp: e inbox_wf_def nth_list_update)
qed

lemma inbox_job_created:
  assumes wf: "inbox_wf inbox" and box: "inbox_of (IE_now env) inbox a = m # ms"
    and fresh: "events_of es (''job-'' @ IE_uuid env) = []"
    and fence: "append_fence (env_now1 (IE_append env)) (env_ctx (IE_append env)) es (''job-'' @ IE_uuid env) = None"
  obtains inbox' md' es' j e where
    "CreateJobFromInbox env a (inbox, md, es) = ((''job-'' @ IE_uuid env, True, None), inbox', md', es')"
    "open_messages inbox' a = remove1 m (open_messages inbox a)" "inbox_wf inbox'"
    "byID md' = (byID md)(''job-'' @ IE_uuid env \<mapsto> j)" "Job_AgentID j = a" "Job_Goal j = extractGoalFromMessagePayload (Msg_Payload m)"
    "Job_Status j = StatusPending" "pending md' = pending md @ [''job-'' @ IE_uuid env]"
    "events_of es' (''job-'' @ IE_uuid env) = [e]" "Ev_Type e = JobCreated"
    "\<forall>x. x \<noteq> ''job-'' @ IE_uuid env \<longrightarrow> events_of es' x = events_of es x" "es_claims es' = es_claims es"
proof -
  let ?id = "''job-'' @ IE_uuid env" and ?g = "extractGoalFromMessagePayload (Msg_Payload m)"
  let ?p = "case json_map [(''agent_id'', jstr a), (''goal'', jstr ?g)] of None \<Rightarrow> [] | Some b \<Rightarrow> b"
  let ?ev = "JobEvent0\<lparr>Ev_JobID := ?id, Ev_Type := JobCreated, Ev_Payload := ?p\<rparr>"
  obtain n es' where ap: "Append (IE_append env) es ?id 0 ?ev = (Inr n, es')"
    using fresh fence by (simp add: Append_def append_locked_def Let_def)
  note lk = conjunct2 [OF Append_ok [OF ap]]
  obtain j md' where c: "Create (IE_now env) (IE_uuid env) md (inbox_job a ?g) = (?id, j, md')" "byID md' = (byID md)(?id \<mapsto> j)"
    "pending md' = pending md @ [?id]" "Job_AgentID j = a" "Job_Goal j = ?g" "Job_Status j = StatusPending"
    by (simp add: Create_def inbox_job_def NewJob_def Let_def)
  have m: "m \<in> set (open_messages inbox a)" using arg_cong [OF box, of set] by (auto simp: inbox_of_open)
  have r: "CreateJobFromInbox env a (inbox, md, es) = ((?id, True, None), MarkConsumed (IE_now env) (Msg_ID m) ?id inbox, md', es')"
    using ap c(1) by (simp add: CreateJobFromInbox_def peek_one box)
  obtain e where e: "events_of es' ?id = [e]" "Ev_Type e = JobCreated" "\<forall>x. x \<noteq> ?id \<longrightarrow> events_of es' x = events_of es x" "es_claims es' = es_claims es"
    using lk by (rule append_locked_ok) (simp add: fresh)
  show thesis
    by (rule that [OF r mark_consumed [OF wf m] c(2,4,5,6,3) e]) simp_all
qed

fun drain_inbox ::
  "inbox_env list \<Rightarrow> string \<Rightarrow> StoreMem \<times> JobStoreMem \<times> memoryStore
    \<Rightarrow> (string \<times> bool \<times> JobStoreError option) list \<times> StoreMem \<times> JobStoreMem \<times> memoryStore" where
  "drain_inbox [] a w = ([], w)"
| "drain_inbox (env # envs) a w = (let (r, w1) = CreateJobFromInbox env a w; (rs, w2) = drain_inbox envs a w1 in (r # rs, w2))"

abbreviation job_of :: "inbox_env \<Rightarrow> string" where
  "job_of env \<equiv> ''job-'' @ IE_uuid env"

text \<open>The call is made outside any attempt, for a job id that has no events yet.\<close>

definition inbox_call_ok :: "memoryStore \<Rightarrow> inbox_env \<Rightarrow> bool" where
  "inbox_call_ok es env \<longleftrightarrow> AttemptIDFromContext (env_ctx (IE_append env)) = [] \<and> events_of es (job_of env) = []"

lemma inbox_call_fence: "inbox_call_ok es env \<Longrightarrow> append_fence (env_now1 (IE_append env)) (env_ctx (IE_append env)) es (job_of env) = None"
  by (simp add: inbox_call_ok_def append_fence_def)

text \<open>The reference: at each reading of the clock the first message that is due is taken out of the list.\<close>

fun served :: "gotime list \<Rightarrow> Message list \<Rightarrow> Message option list" where
  "served [] ms = []"
| "served (t # ts) ms = (case filter (deliverable t) ms of [] \<Rightarrow> None # served ts ms | m # _ \<Rightarrow> Some m # served ts (remove1 m ms))"

lemma served_length [simp]: "length (served ts ms) = length ts"
  by (induction ts ms rule: served.induct) (auto split: list.split)

lemma first_due: "filter P ms = m # ms' \<Longrightarrow> m \<in> set ms \<and> P m"
  by (auto simp: filter_eq_Cons_iff)

lemma served_in: "Some m \<in> set (served ts ms) \<Longrightarrow> m \<in> set ms"
proof (induction ts ms rule: served.induct)
  case (2 t ts ms)
  then show ?case using set_remove1_subset by (fastforce split: list.splits dest: first_due)
qed simp

lemma served_once:
  "distinct ms \<Longrightarrow> i < length ts \<Longrightarrow> k < length ts \<Longrightarrow> served ts ms ! i = Some m \<Longrightarrow> served ts ms ! k = Some m \<Longrightarrow> i = k"
proof (induction ts ms arbitrary: i k rule: served.induct)
  case (2 t ts ms)
  show ?case
  proof (cases "filter (deliverable t) ms")
    case Nil
    then show ?thesis using 2 by (cases i; cases k) auto
  next
    case (Cons m0 ms0)
    have "served ts (remove1 m0 ms) ! n \<noteq> Some m0" if "n < length ts" for n
      using served_in [of m0 ts "remove1 m0 ms"] that 2(3) by (metis nth_mem served_length set_remove1_eq DiffD2 singletonI)
    then show ?thesis using 2 Cons by (cases i; cases k) auto
  qed
qed simp

lemma due_later: "deliverable t m \<Longrightarrow> t \<le> t' \<Longrightarrow> deliverable t' m"
  by (auto simp: deliverable_def split: option.splits)

lemma served_all:
  assumes "sorted ts" "ts \<noteq> []" "length (filter (deliverable (last ts)) ms) \<le> length ts" "m \<in> set ms" "deliverable (hd ts) m"
  shows "Some m \<in> set (served ts ms)"
  using assms
proof (induction ts arbitrary: ms)
  case (Cons t ts)
  obtain m0 ms0 where f: "filter (deliverable t) ms = m0 # ms0"
    using Cons.prems(4,5) by (cases "filter (deliverable t) ms") (auto simp: filter_empty_conv)
  then have m0: "m0 \<in> set ms" "deliverable t m0" using first_due [OF f] by simp_all
  show ?case
  proof (cases "m = m0")
    case True
    then show ?thesis using f by simp
  next
    case False
    show ?thesis
    proof (cases "ts = []")
      case True
      have "m \<in> set (filter (deliverable t) ms)" using Cons.prems(4,5) by simp
      then show ?thesis using f False Cons.prems(3) True by (cases ms0) auto
    next
      case ts: False
      have late: "t \<le> hd ts" "t \<le> last ts" using Cons.prems(1) hd_in_set [OF ts] last_in_set [OF ts] by simp_all
      have "filter (deliverable (last ts)) (remove1 m0 ms) = remove1 m0 (filter (deliverable (last ts)) ms)"
        by (rule filter_remove1)
      moreover have "m0 \<in> set (filter (deliverable (last ts)) ms)" using m0(1) due_later [OF m0(2) late(2)] by simp
      moreover have "length (filter (deliverable (last ts)) ms) \<le> Suc (length ts)" using Cons.prems(3) ts by simp
      ultimately have "length (filter (deliverable (last ts)) (remove1 m0 ms)) \<le> length ts"
        by (simp add: length_remove1 del: set_filter)
      moreover have "m \<in> set (remove1 m0 ms)" using False Cons.prems(4) by simp
      moreover have "deliverable (hd ts) m" using due_later [OF _ late(1)] Cons.prems(5) by simp
      ultimately show ?thesis using Cons.IH [OF _ ts, of "remove1 m0 ms"] Cons.prems(1) f by simp
    qed
  qed
qed simp

lemma drain_served:
  assumes "inbox_wf inbox" "\<forall>env \<in> set envs. inbox_call_ok es env" "distinct (map IE_uuid envs)"
    and "drain_inbox envs a (inbox, md, es) = (rs, inbox', md', es')" "took = served (map IE_now envs) (open_messages inbox a)"
  shows "rs = map2 (\<lambda>env t. if t = None then ([], False, None) else (job_of env, True, None)) envs took
    \<and> pending md' = pending md @ concat (map2 (\<lambda>env t. if t = None then [] else [job_of env]) envs took)
    \<and> (\<forall>i < length envs. \<forall>m. took ! i = Some m \<longrightarrow> (\<exists>j. byID md' (job_of (envs ! i)) = Some j \<and> Job_AgentID j = a
        \<and> Job_Status j = StatusPending \<and> Job_Goal j = extractGoalFromMessagePayload (Msg_Payload m)))
    \<and> (\<forall>x. x \<notin> job_of ` set envs \<longrightarrow> byID md' x = byID md x)"
  using assms
proof (induction envs arbitrary: inbox md es rs took)
  case Nil
  then show ?case by simp
next
  case (Cons env envs)
  show ?case
  proof (cases "inbox_of (IE_now env) inbox a")
    case Nil
    have "CreateJobFromInbox env a (inbox, md, es) = (([], False, None), inbox, md, es)"
      by (simp add: CreateJobFromInbox_def peek_one Nil)
    then obtain rs1 where d: "drain_inbox envs a (inbox, md, es) = (rs1, inbox', md', es')" "rs = ([], False, None) # rs1"
      using Cons.prems(4) by (auto split: prod.splits)
    let ?took = "served (map IE_now envs) (open_messages inbox a)"
    have took: "took = None # ?took" using Cons.prems(5) Nil by (simp add: inbox_of_open)
    have p: "\<forall>env \<in> set envs. inbox_call_ok es env" "distinct (map IE_uuid envs)" using Cons.prems(2,3) by simp_all
    note IH = Cons.IH [OF Cons.prems(1) p d(1) refl]
    show ?thesis using IH d(2) unfolding took by (auto simp: less_Suc_eq_0_disj)
  next
    case (Cons m ms)
    have fresh: "events_of es (job_of env) = []" using Cons.prems(2) by (simp add: inbox_call_ok_def)
    have fence: "append_fence (env_now1 (IE_append env)) (env_ctx (IE_append env)) es (job_of env) = None"
      using Cons.prems(2) by (intro inbox_call_fence) auto
    obtain inbox1 md1 es1 j e where s: "CreateJobFromInbox env a (inbox, md, es) = ((job_of env, True, None), inbox1, md1, es1)"
      "open_messages inbox1 a = remove1 m (open_messages inbox a)" "inbox_wf inbox1" "byID md1 = (byID md)(job_of env \<mapsto> j)" "Job_AgentID j = a"
      "Job_Goal j = extractGoalFromMessagePayload (Msg_Payload m)" "Job_Status j = StatusPending" "pending md1 = pending md @ [job_of env]"
      "\<forall>x. x \<noteq> job_of env \<longrightarrow> events_of es1 x = events_of es x"
      by (rule inbox_job_created [OF Cons.prems(1) Cons fresh fence, of md]) blast
    obtain rs1 where d: "drain_inbox envs a (inbox1, md1, es1) = (rs1, inbox', md', es')" "rs = (job_of env, True, None) # rs1"
      using Cons.prems(4) s(1) by (auto split: prod.splits)
    let ?took = "served (map IE_now envs) (open_messages inbox1 a)"
    have took: "took = Some m # ?took" using Cons.prems(5) Cons s(2) by (simp add: inbox_of_open)
    have other: "job_of e \<noteq> job_of env" if "e \<in> set envs" for e using Cons.prems(3) that by (simp add: image_iff) metis
    then have p: "\<forall>e \<in> set envs. inbox_call_ok es1 e" "distinct (map IE_uuid envs)"
      using Cons.prems(2,3) s(9) by (auto simp: inbox_call_ok_def)
    note IH = Cons.IH [OF s(3) p d(1) refl]
    have "job_of env \<notin> job_of ` set envs"
    proof
      assume "job_of env \<in> job_of ` set envs"
      then obtain e where "e \<in> set envs" "job_of env = job_of e" by (rule imageE)
      then show False using other by (metis (no_types))
    qed
    then have at: "byID md' (job_of env) = Some j" using IH by (simp only: s(4) fun_upd_same simp_thms)
    have jobs: "\<exists>j. byID md' (job_of ((env # envs) ! i)) = Some j \<and> Job_AgentID j = a \<and> Job_Status j = StatusPending
      \<and> Job_Goal j = extractGoalFromMessagePayload (Msg_Payload m')" if "i < length (env # envs)" "took ! i = Some m'" for i m'
    proof (cases i)
      case 0
      then show ?thesis using at s(5-7) that(2) by (simp add: took)
    next
      case (Suc k)
      then have "k < length envs" "?took ! k = Some m'" using that by (simp_all add: took)
      then show ?thesis using IH Suc by simp
    qed
    have same: "byID md' x = byID md x" if "x \<notin> job_of ` set (env # envs)" for x
    proof -
      have "x \<notin> job_of ` set envs" "x \<noteq> job_of env" using that by simp_all
      then show ?thesis using IH s(4) by simp
    qed
    show ?thesis
    proof (intro conjI)
      show "rs = map2 (\<lambda>env t. if t = None then ([], False, None) else (job_of env, True, None)) (env # envs) took"
        using IH d(2) unfolding took by simp
      show "pending md' = pending md @ concat (map2 (\<lambda>env t. if t = None then [] else [job_of env]) (env # envs) took)"
        using IH s(8) unfolding took by simp
    qed (use jobs same in blast)+
  qed
qed

text \<open>
  C32. Each message in an agent's inbox becomes one job.  Calls of \<open>CreateJobFromInbox\<close> for one agent, one after the other, outside any
  attempt and with fresh and different job ids, each at its own reading of a clock that does not go back: each call
  takes the first message, in the order they came, that is due at its reading and not taken before, and makes a pending, queued job
  of its goal, and a call that finds none makes no job.  No message is taken twice; and every message that is
  due at the first reading is taken, if there are at least as many calls as messages due at the last reading.
\<close>

theorem inbox_becomes_jobs:
  assumes "inbox_wf inbox" "\<forall>env \<in> set envs. inbox_call_ok es env" "distinct (map IE_uuid envs)" "sorted (map IE_now envs)"
    and "envs \<noteq> []" "length (inbox_of (IE_now (last envs)) inbox a) \<le> length envs"
    and "drain_inbox envs a (inbox, md, es) = (rs, inbox', md', es')" "took = served (map IE_now envs) (open_messages inbox a)"
  shows "rs = map2 (\<lambda>env t. if t = None then ([], False, None) else (job_of env, True, None)) envs took
    \<and> pending md' = pending md @ concat (map2 (\<lambda>env t. if t = None then [] else [job_of env]) envs took)
    \<and> (\<forall>i < length envs. \<forall>m. took ! i = Some m \<longrightarrow> (\<exists>j. byID md' (job_of (envs ! i)) = Some j \<and> Job_AgentID j = a
        \<and> Job_Status j = StatusPending \<and> Job_Goal j = extractGoalFromMessagePayload (Msg_Payload m)))
    \<and> (\<forall>i < length envs. \<forall>k < length envs. took ! i \<noteq> None \<and> took ! i = took ! k \<longrightarrow> i = k)
    \<and> (\<forall>m \<in> set (inbox_of (IE_now (hd envs)) inbox a). Some m \<in> set took)"
proof -
  have once: "i = k" if "i < length envs" "k < length envs" "took ! i \<noteq> None" "took ! i = took ! k" for i k
    using served_once [OF open_distinct [OF assms(1), of a], of i "map IE_now envs" k] that assms(8) by auto
  have all: "Some m \<in> set took" if "m \<in> set (inbox_of (IE_now (hd envs)) inbox a)" for m
    using served_all [OF assms(4), of "open_messages inbox a" m] that assms(5,6,8) by (simp add: inbox_of_open last_map hd_map)
  show ?thesis using drain_served [OF assms(1-3,7,8)] once all by blast
qed

lemma inbox_wf_Send:
  assumes "inbox_wf s" "SM_byID s (''msg-'' @ uuid) = None"
  shows "inbox_wf (snd (Send now uuid from a p opts s))"
  using assms by (auto simp: Send_def Let_def add_message_def inbox_wf_def nth_append less_Suc_eq)

text \<open>A message, and one that is due from 5 on.\<close>

definition demo_call :: "string \<Rightarrow> gotime \<Rightarrow> inbox_env" where
  "demo_call u t = \<lparr>IE_now = t, IE_uuid = u, IE_append = \<lparr>env_now1 = t, env_now2 = t, env_uuid = u, env_zone = 0, env_ctx = None\<rparr>\<rparr>"

definition demo_inbox :: StoreMem where
  "demo_inbox = snd (Send 1 ''m'' [] ''ag'' (Some [(''message'', GStr ''hello'')]) None
     (snd (SendDelayed 1 ''n'' ''ag'' (Some [(''message'', GStr ''later'')]) 5 None NewStoreMem)))"

abbreviation demo_calls :: "inbox_env list" where
  "demo_calls \<equiv> [demo_call ''1'' 3, demo_call ''2'' 4, demo_call ''3'' 6]"

theorem inbox_becomes_jobs_witness:
  "\<exists>rs inbox' md' es'. drain_inbox demo_calls ''ag'' (demo_inbox, NewJobStoreMem, NewMemoryStore) = (rs, inbox', md', es')
    \<and> map fst rs = [''job-1'', [], ''job-3''] \<and> pending md' = [''job-1'', ''job-3'']
    \<and> map_option Job_Goal (byID md' ''job-3'') = Some ''later''"
proof -
  obtain rs inbox' md' es' where d: "drain_inbox demo_calls ''ag'' (demo_inbox, NewJobStoreMem, NewMemoryStore) = (rs, inbox', md', es')"
    by (cases "drain_inbox demo_calls ''ag'' (demo_inbox, NewJobStoreMem, NewMemoryStore)") auto
  note defs = demo_inbox_def Send_def SendDelayed_def add_message_def NewStoreMem_def deliverable_def Let_def
  have wf: "inbox_wf demo_inbox" by (simp add: defs inbox_wf_def nth_Cons' less_Suc_eq)
  have box: "length (inbox_of 6 demo_inbox ''ag'') = 2" by (simp add: defs inbox_of_def)
  let ?ms = "SM_messages demo_inbox"
  have served: "served [3, 4, 6] (open_messages demo_inbox ''ag'') = [Some (?ms ! 1), None, Some (?ms ! 0)]"
    "map_of (the (Msg_Payload (?ms ! 0))) ''message'' = Some (GStr ''later'')" "Msg_Payload (?ms ! 0) \<noteq> None"
    by (simp_all add: defs open_messages_def)
  have "\<forall>env \<in> set demo_calls. inbox_call_ok NewMemoryStore env"
    by (simp add: inbox_call_ok_def demo_call_def AttemptIDFromContext_def events_of_def NewMemoryStore_def)
  note jobs = inbox_becomes_jobs [OF wf this _ _ _ _ d refl]
  have times: "map IE_now demo_calls = [3, 4, 6]" "IE_now (last demo_calls) = 6" "distinct (map IE_uuid demo_calls)"
    "map job_of demo_calls = [''job-1'', ''job-2'', ''job-3'']"
    by (simp_all add: demo_call_def)
  have len: "length (inbox_of (IE_now (last demo_calls)) demo_inbox ''ag'') \<le> length demo_calls" unfolding times(2) box by simp
  have sorted: "sorted (map IE_now demo_calls)" "demo_calls \<noteq> []" unfolding times(1) by simp_all
  note jobs = jobs [OF times(3) sorted len, unfolded times(1) served(1)]
  have "map fst rs = [''job-1'', [], ''job-3'']" using jobs times(4) by simp
  moreover have "pending md' = [''job-1'', ''job-3'']" using jobs times(4) by (simp add: NewJobStoreMem_def)
  moreover have "map_option Job_Goal (byID md' (job_of (demo_calls ! 2))) = Some ''later''"
  proof -
    have "2 < length demo_calls" "[Some (?ms ! 1), None, Some (?ms ! 0)] ! 2 = Some (?ms ! 0)" by simp_all
    then obtain j where "byID md' (job_of (demo_calls ! 2)) = Some j" "Job_Goal j = extractGoalFromMessagePayload (Msg_Payload (?ms ! 0))"
      using jobs by blast
    then show ?thesis using served(2,3) by (auto simp: extractGoalFromMessagePayload_def)
  qed
  ultimately show ?thesis using d times(4) by simp
qed

end
