(* ===== verification/Job_Control.thy ===== *)
theory Job_Control
  imports Agent_Inbox Job_Scheduler
begin

text \<open>
  The requests by which a client steers a job (\<open>internal/api/http/handler.go\<close>): stop, pause, resume, signal and message,
  the approvals with their in-memory store (\<open>internal/agent/approval\<close>), and the check of the call chain for cycles, over
  the in-memory stores of the API process, with a job store configured.  The request body comes decoded, \<open>None\<close> where the
  handler sees an error.  Of a response the status code is kept and, of the fields, the key of a pause.
\<close>

section \<open>The state the handlers work on\<close>

record ApprovalResponse =
  AR_Decision :: string
  AR_ApproverID :: string
  AR_ApproverName :: string
  AR_Comment :: string
  AR_DelegatedTo :: string
  AR_RespondedAt :: gotime

record ApprovalRequest =
  Apr_ID :: string
  Apr_JobID :: string
  Apr_NodeID :: string
  Apr_CorrelationKey :: string
  Apr_ApproverType :: string
  Apr_ApproverID :: string
  Apr_Role :: string
  Apr_Title :: string
  Apr_Description :: string
  Apr_Payload :: "gomap option"
  Apr_Status :: string
  Apr_ApproverResp :: "ApprovalResponse option"
  Apr_ExpiresAt :: "gotime option"
  Apr_CreatedAt :: gotime
  Apr_UpdatedAt :: gotime

definition DecisionPending :: string where "DecisionPending = ''pending''"
definition DecisionApproved :: string where "DecisionApproved = ''approved''"
definition DecisionRejected :: string where "DecisionRejected = ''rejected''"
definition DecisionExpired :: string where "DecisionExpired = ''expired''"
definition ApproverTypeAnyone :: string where "ApproverTypeAnyone = ''anyone''"
definition ApproverTypeSpecific :: string where "ApproverTypeSpecific = ''specific''"

lemmas decisions = DecisionPending_def DecisionApproved_def DecisionRejected_def DecisionExpired_def

type_synonym ApprovalMemStore = "string \<rightharpoonup> ApprovalRequest"

definition Approval_Create :: "gotime \<Rightarrow> ApprovalRequest \<Rightarrow> ApprovalMemStore \<Rightarrow> ApprovalMemStore" where
  "Approval_Create now req s = s(Apr_ID req \<mapsto> req\<lparr>Apr_CreatedAt := now, Apr_UpdatedAt := now,
     Apr_Status := (if Apr_Status req = [] then DecisionPending else Apr_Status req)\<rparr>)"

definition Approval_GetByID :: "ApprovalMemStore \<Rightarrow> string \<Rightarrow> ApprovalRequest option" where
  "Approval_GetByID s i = s i"

text \<open>The lists come in the order of a map's iteration, given by the first argument.\<close>

definition Approval_GetByJobID :: "string list \<Rightarrow> ApprovalMemStore \<Rightarrow> string \<Rightarrow> ApprovalRequest list" where
  "Approval_GetByJobID order s jobID = filter (\<lambda>r. Apr_JobID r = jobID) (List.map_filter s order)"

definition Approval_GetPending :: "string list \<Rightarrow> gotime \<Rightarrow> ApprovalMemStore \<Rightarrow> ApprovalRequest list" where
  "Approval_GetPending order now s = filter (\<lambda>r. Apr_Status r = DecisionPending
     \<and> (case Apr_ExpiresAt r of None \<Rightarrow> True | Some t \<Rightarrow> t > now)) (List.map_filter s order)"

definition Approval_GetPendingByApprover :: "string list \<Rightarrow> gotime \<Rightarrow> ApprovalMemStore \<Rightarrow> string \<Rightarrow> ApprovalRequest list" where
  "Approval_GetPendingByApprover order now s approverID = filter (\<lambda>r. Apr_Status r = DecisionPending
     \<and> \<not> (case Apr_ExpiresAt r of None \<Rightarrow> False | Some t \<Rightarrow> t < now)
     \<and> (Apr_ApproverType r = ApproverTypeAnyone \<or> Apr_ApproverType r = ApproverTypeSpecific \<and> Apr_ApproverID r = approverID))
     (List.map_filter s order)"

definition Approval_Complete :: "gotime \<Rightarrow> string \<Rightarrow> ApprovalResponse \<Rightarrow> ApprovalMemStore \<Rightarrow> ApprovalMemStore" where
  "Approval_Complete now i resp s = (case s i of None \<Rightarrow> s
     | Some r \<Rightarrow> s(i \<mapsto> r\<lparr>Apr_Status := AR_Decision resp, Apr_ApproverResp := Some resp, Apr_UpdatedAt := now\<rparr>))"

definition Approval_Expire :: "gotime \<Rightarrow> string \<Rightarrow> ApprovalMemStore \<Rightarrow> ApprovalMemStore" where
  "Approval_Expire now i s = (case s i of None \<Rightarrow> s
     | Some r \<Rightarrow> s(i \<mapsto> r\<lparr>Apr_Status := DecisionExpired, Apr_UpdatedAt := now\<rparr>))"

record ApiWorld =
  AW_jobs :: JobStoreMem
  AW_events :: "memoryStore option"
  AW_wakeup :: "WakeupQueueMem option"
  AW_inbox :: "inboxMem option"
  AW_bus :: "StoreMem option"
  AW_approvals :: "ApprovalMemStore option"

text \<open>
  What a request brings from outside: the tenant of the caller, its clock readings and append environments by number, a
  uuid, the state of its context, and the choice of a select with two ready cases.
\<close>

record http_env =
  HE_tenant :: string
  HE_clock :: "nat \<Rightarrow> gotime"
  HE_append :: "nat \<Rightarrow> append_env"
  HE_uuid :: string
  HE_ctxErr :: "string option"
  HE_pick :: bool
  HE_zone :: int

datatype reply = Reply int "string option"

section \<open>Common parts\<close>

definition getJobAndCheckTenant :: "string \<Rightarrow> JobStoreMem \<Rightarrow> string \<Rightarrow> Job option" where
  "getJobAndCheckTenant tenant s jobID = (case Get s jobID of None \<Rightarrow> None
     | Some j \<Rightarrow> if Job_TenantID j \<noteq> (if tenant = [] then ''default'' else tenant) then None else Some j)"

definition set_status :: "http_env \<Rightarrow> string \<Rightarrow> JobStatus \<Rightarrow> ApiWorld \<Rightarrow> ApiWorld" where
  "set_status env jobID st w = w\<lparr>AW_jobs := UpdateStatus (HE_clock env 0) (AW_jobs w) jobID st\<rparr>"

definition notify_ready :: "http_env \<Rightarrow> string \<Rightarrow> ApiWorld \<Rightarrow> ApiWorld" where
  "notify_ready env jobID w = w\<lparr>AW_wakeup := map_option (\<lambda>q. snd (NotifyReady (HE_pick env) (HE_ctxErr env) q jobID)) (AW_wakeup w)\<rparr>"

text \<open>An append at the version just read, its error dropped.\<close>

definition append_latest :: "append_env \<Rightarrow> string \<Rightarrow> EventType \<Rightarrow> bytes \<Rightarrow> gotime \<Rightarrow> ApiWorld \<Rightarrow> ApiWorld" where
  "append_latest ae jobID t b at w = w\<lparr>AW_events := map_option (\<lambda>es. snd (Append ae es jobID (snd (ListEvents es jobID))
     (JobEvent0\<lparr>Ev_JobID := jobID, Ev_Type := t, Ev_Payload := b, Ev_CreatedAt := at\<rparr>))) (AW_events w)\<rparr>"

definition or_empty :: "bytes option \<Rightarrow> bytes" where
  "or_empty b = (case b of None \<Rightarrow> [] | Some x \<Rightarrow> x)"

definition marshal_gomap :: "gomap option \<Rightarrow> bytes option" where
  "marshal_gomap p = (case p of None \<Rightarrow> Some ''null'' | Some m \<Rightarrow> map_option json_marshal (goval_json (GMap m)))"

section \<open>Stop, pause and resume\<close>

abbreviation finished_status :: "JobStatus \<Rightarrow> bool" where
  "finished_status st \<equiv> st = JobStatus.StatusCompleted \<or> st = JobStatus.StatusFailed \<or> st = JobStatus.StatusCancelled"

definition JobStop :: "http_env \<Rightarrow> string \<Rightarrow> ApiWorld \<Rightarrow> reply \<times> ApiWorld" where
  "JobStop env jobID w = (case getJobAndCheckTenant (HE_tenant env) (AW_jobs w) jobID of None \<Rightarrow> (Reply 404 None, w)
     | Some j \<Rightarrow> if finished_status (Job_Status j) then (Reply 400 None, w)
                else (Reply 200 None, w\<lparr>AW_jobs := RequestCancel (HE_clock env 0) (AW_jobs w) jobID\<rparr>))"

record JobPauseRequest =
  JPR_CorrelationKey :: string
  JPR_WaitType :: string
  JPR_Reason :: string

definition JobPause :: "http_env \<Rightarrow> string \<Rightarrow> JobPauseRequest \<Rightarrow> ApiWorld \<Rightarrow> reply \<times> ApiWorld" where
  "JobPause env jobID req w = (case getJobAndCheckTenant (HE_tenant env) (AW_jobs w) jobID of None \<Rightarrow> (Reply 404 None, w)
     | Some j \<Rightarrow> if finished_status (Job_Status j) then (Reply 400 None, w)
         else (let waitType = (if JPR_WaitType req = [] then ''manual'' else JPR_WaitType req);
                   key = (if JPR_CorrelationKey req = [] then ''pause-'' @ jobID @ ''-'' @ dec_int (UnixNano (HE_clock env 2)) else JPR_CorrelationKey req);
                   w1 = w\<lparr>AW_jobs := SetParked (HE_clock env 0) (HE_clock env 1) (AW_jobs w) jobID key waitType (JPR_Reason req)\<rparr>;
                   payload = or_empty (json_struct [(''reason'', jstr (JPR_Reason req)), (''correlation_key'', jstr key), (''wait_type'', jstr waitType)])
               in (Reply 200 (Some key), append_latest (HE_append env 0) jobID JobParked payload (HE_clock env 3) w1)))"

definition JobResume :: "http_env \<Rightarrow> string \<Rightarrow> string \<Rightarrow> ApiWorld \<Rightarrow> reply \<times> ApiWorld" where
  "JobResume env jobID key w = (case getJobAndCheckTenant (HE_tenant env) (AW_jobs w) jobID of None \<Rightarrow> (Reply 404 None, w)
     | Some _ \<Rightarrow>
         (let w1 = (if key \<noteq> [] then w\<lparr>AW_jobs := snd (WakeupJob (HE_clock env 0) (AW_jobs w) key)\<rparr>
                    else set_status env jobID JobStatus.StatusPending w);
              payload = or_empty (json_struct [(''correlation_key'', jstr key), (''resumed_by'', jstr ''manual'')])
          in (Reply 200 None, append_latest (HE_append env 0) jobID JobResumed payload (HE_clock env 1) (notify_ready env jobID w1))))"

section \<open>What a job waits for\<close>

text \<open>
  The last \<open>job_waiting\<close> event.  The error of decoding its payload is dropped, and fields of the wrong type are passed
  over.
\<close>

definition lenient_field :: "string \<Rightarrow> (string \<times> bytes) list \<Rightarrow> string" where
  "lenient_field name ms = foldl (\<lambda>x r. if r \<noteq> ''null'' \<and> hd r = CHR 0x22 then raw_string r else x) [] (field_raws name ms)"

record waiting_payload =
  WP_NodeID :: string
  WP_WaitType :: string
  WP_CorrelationKey :: string

definition waiting_of :: "bytes \<Rightarrow> waiting_payload" where
  "waiting_of b = (case (if b = [] then None else decode_object b) of None \<Rightarrow> \<lparr>WP_NodeID = [], WP_WaitType = [], WP_CorrelationKey = []\<rparr>
     | Some ms \<Rightarrow> \<lparr>WP_NodeID = lenient_field ''node_id'' ms, WP_WaitType = lenient_field ''wait_type'' ms,
         WP_CorrelationKey = lenient_field ''correlation_key'' ms\<rparr>)"

definition last_waiting :: "JobEvent list \<Rightarrow> waiting_payload" where
  "last_waiting events = (case filter (\<lambda>e. Ev_Type e = JobWaiting) (rev events) of
     [] \<Rightarrow> \<lparr>WP_NodeID = [], WP_WaitType = [], WP_CorrelationKey = []\<rparr> | e # _ \<Rightarrow> waiting_of (Ev_Payload e))"

definition lastEventIsWaitCompletedWithCorrelationKey :: "JobEvent list \<Rightarrow> string \<Rightarrow> bool" where
  "lastEventIsWaitCompletedWithCorrelationKey events correlationKey =
     (if events = [] \<or> correlationKey = [] then False
      else if Ev_Type (last events) \<noteq> WaitCompleted then False
      else (case unmarshal_map (Ev_Payload (last events)) of None \<Rightarrow> False
        | Some m \<Rightarrow> (case str_field m ''correlation_key'' of None \<Rightarrow> [] | Some ck \<Rightarrow> ck) = correlationKey))"

definition wait_completed_payload :: "string \<Rightarrow> bytes option \<Rightarrow> string \<Rightarrow> bytes option" where
  "wait_completed_payload nodeID payload key = json_map [(''node_id'', jstr nodeID), (''payload'', payload), (''correlation_key'', jstr key)]"

section \<open>Signals\<close>

record JobSignalRequest =
  JSR_CorrelationKey :: string
  JSR_Payload :: "gomap option"

text \<open>What the checks leave to be written: the version read, the node that waits, the key and the payload's bytes.\<close>

record signal_plan =
  SP_ver :: int
  SP_node :: string
  SP_key :: string
  SP_payload :: bytes

definition signal_check :: "http_env \<Rightarrow> string \<Rightarrow> JobSignalRequest option \<Rightarrow> ApiWorld \<Rightarrow> reply + signal_plan" where
  "signal_check env jobID req w = (case AW_events w of None \<Rightarrow> Inl (Reply 503 None)
     | Some es \<Rightarrow>
         (case getJobAndCheckTenant (HE_tenant env) (AW_jobs w) jobID of None \<Rightarrow> Inl (Reply 404 None)
          | Some j \<Rightarrow>
              if Job_Status j \<noteq> JobStatus.StatusWaiting \<and> Job_Status j \<noteq> JobStatus.StatusParked then Inl (Reply 400 None)
              else (case ListEvents es jobID of (events, ver) \<Rightarrow>
                let wp = last_waiting events in
                if WP_CorrelationKey wp = [] then Inl (Reply 400 None)
                else (case req of None \<Rightarrow> Inl (Reply 400 None)
                  | Some r \<Rightarrow>
                      if JSR_CorrelationKey r \<noteq> WP_CorrelationKey wp then Inl (Reply 400 None)
                      else if lastEventIsWaitCompletedWithCorrelationKey events (JSR_CorrelationKey r) then Inl (Reply 200 None)
                      else (case marshal_gomap (Some (case JSR_Payload r of None \<Rightarrow> [] | Some p \<Rightarrow> p)) of None \<Rightarrow> Inl (Reply 400 None)
                        | Some b \<Rightarrow> Inr \<lparr>SP_ver = ver, SP_node = WP_NodeID wp, SP_key = JSR_CorrelationKey r, SP_payload = b\<rparr>)))))"

definition ack_signal :: "http_env \<Rightarrow> string \<Rightarrow> string \<Rightarrow> ApiWorld \<Rightarrow> ApiWorld" where
  "ack_signal env jobID sid w = (if sid = [] then w else w\<lparr>AW_inbox := map_option (inbox_MarkAcked (HE_clock env 1) jobID sid) (AW_inbox w)\<rparr>)"

text \<open>The signal is put into the inbox first.  Others may have appended to the stream since it was read.\<close>

definition signal_write :: "http_env \<Rightarrow> string \<Rightarrow> signal_plan \<Rightarrow> ApiWorld \<Rightarrow> reply \<times> ApiWorld" where
  "signal_write env jobID p w =
     (let (sid, w1) = (case AW_inbox w of None \<Rightarrow> ([], w)
            | Some m \<Rightarrow> (case inbox_Append (HE_clock env 2) (HE_uuid env) jobID (SP_key p) (SP_payload p) m of (i, m') \<Rightarrow> (i, w\<lparr>AW_inbox := Some m'\<rparr>)))
      in case wait_completed_payload (SP_node p) (marshal_raw (SP_payload p)) (SP_key p) of None \<Rightarrow> (Reply 500 None, w1)
         | Some b \<Rightarrow>
             (case AW_events w1 of None \<Rightarrow> (Reply 503 None, w1)
              | Some es \<Rightarrow>
                  (case Append (HE_append env 0) es jobID (SP_ver p) (JobEvent0\<lparr>Ev_JobID := jobID, Ev_Type := WaitCompleted, Ev_Payload := b\<rparr>) of
                     (Inl err, es') \<Rightarrow>
                       if err = ErrVersionMismatch \<and> lastEventIsWaitCompletedWithCorrelationKey (fst (ListEvents es' jobID)) (SP_key p)
                       then (Reply 200 None, ack_signal env jobID sid (w1\<lparr>AW_events := Some es'\<rparr>))
                       else (Reply 500 None, w1\<lparr>AW_events := Some es'\<rparr>)
                   | (Inr _, es') \<Rightarrow>
                       (Reply 200 None, notify_ready env jobID (ack_signal env jobID sid
                          (set_status env jobID JobStatus.StatusPending (w1\<lparr>AW_events := Some es'\<rparr>)))))))"

definition JobSignal :: "http_env \<Rightarrow> string \<Rightarrow> JobSignalRequest option \<Rightarrow> ApiWorld \<Rightarrow> reply \<times> ApiWorld" where
  "JobSignal env jobID req w = (case signal_check env jobID req w of Inl r \<Rightarrow> (r, w) | Inr p \<Rightarrow> signal_write env jobID p w)"

section \<open>Messages\<close>

record JobMessageRequest =
  JMR_MessageID :: string
  JMR_Channel :: string
  JMR_CorrelationKey :: string
  JMR_Payload :: "gomap option"

definition message_payload :: "string \<Rightarrow> JobMessageRequest \<Rightarrow> gomap \<Rightarrow> bytes option" where
  "message_payload messageID r payload = json_struct [(''message_id'', jstr messageID), (''channel'', jstr (JMR_Channel r)),
     (''correlation_key'', jstr (JMR_CorrelationKey r)), (''payload'', marshal_gomap (Some payload))]"

text \<open>The message has been written; does it end the wait that the events show?\<close>

definition message_release :: "http_env \<Rightarrow> string \<Rightarrow> Job \<Rightarrow> JobEvent list \<Rightarrow> JobMessageRequest \<Rightarrow> gomap \<Rightarrow> ApiWorld \<Rightarrow> reply \<times> ApiWorld" where
  "message_release env jobID j events r payload w =
     (let wp = last_waiting events; key = WP_CorrelationKey wp in
      if (Job_Status j = JobStatus.StatusWaiting \<or> Job_Status j = JobStatus.StatusParked)
         \<and> WP_WaitType wp = ''message'' \<and> key \<noteq> [] \<and> (key = JMR_Channel r \<or> key = JMR_CorrelationKey r \<or> JMR_Channel r = key)
      then if lastEventIsWaitCompletedWithCorrelationKey events key then (Reply 200 None, w)
           else (case wait_completed_payload (WP_NodeID wp) (marshal_gomap (Some payload)) key of None \<Rightarrow> (Reply 500 None, w)
             | Some b \<Rightarrow> (Reply 200 None, notify_ready env jobID (set_status env jobID JobStatus.StatusPending
                 (append_latest (HE_append env 1) jobID WaitCompleted b zero_time w))))
      else (Reply 200 None, w))"

definition JobMessage :: "http_env \<Rightarrow> string \<Rightarrow> JobMessageRequest option \<Rightarrow> ApiWorld \<Rightarrow> reply \<times> ApiWorld" where
  "JobMessage env jobID req w = (case AW_events w of None \<Rightarrow> (Reply 503 None, w)
     | Some es \<Rightarrow>
         (case getJobAndCheckTenant (HE_tenant env) (AW_jobs w) jobID of None \<Rightarrow> (Reply 404 None, w)
          | Some j \<Rightarrow>
              (case req of None \<Rightarrow> (Reply 400 None, w)
               | Some r \<Rightarrow>
                   (let payload = (case JMR_Payload r of None \<Rightarrow> [] | Some p \<Rightarrow> p);
                        messageID = (if JMR_MessageID r = [] then ''msg-'' @ dec_int (UnixNano (HE_clock env 1)) else JMR_MessageID r)
                    in case message_payload messageID r payload of None \<Rightarrow> (Reply 400 None, w)
                       | Some b \<Rightarrow>
                           (case ListEvents es jobID of (events, ver) \<Rightarrow>
                              (case Append (HE_append env 0) es jobID ver (JobEvent0\<lparr>Ev_JobID := jobID, Ev_Type := AgentMessage, Ev_Payload := b\<rparr>) of
                                 (Inl _, es') \<Rightarrow> (Reply 500 None, w\<lparr>AW_events := Some es'\<rparr>)
                               | (Inr _, es') \<Rightarrow>
                                   message_release env jobID j events r payload (w\<lparr>AW_events := Some es',
                                     AW_bus := map_option (\<lambda>bus. snd (Send (HE_clock env 2) (HE_uuid env) [] (Job_AgentID j) (Some payload)
                                        (Some \<lparr>SO_Channel = JMR_Channel r, SO_Kind = KindUser, SO_CausationID = [], SO_ScheduledAt = None,
                                           SO_ExpiresAt = None, SO_IdempotencyKey = []\<rparr>) bus)) (AW_bus w)\<rparr>)))))))"

section \<open>Approvals\<close>

record CreateApprovalRequest =
  CAR_JobID :: string
  CAR_NodeID :: string
  CAR_CorrelationKey :: string
  CAR_ApproverType :: string
  CAR_ApproverID :: string
  CAR_Role :: string
  CAR_Title :: string
  CAR_Description :: string
  CAR_Payload :: "gomap option"
  CAR_ExpiresInHours :: int

definition hour_ns :: int where
  "hour_ns = 3600 * 10 ^ 9"

text \<open>Times are marshalled in the zone of the process.  An empty or nil payload is left out.\<close>

definition approval_requested_payload :: "http_env \<Rightarrow> string \<Rightarrow> CreateApprovalRequest \<Rightarrow> string \<Rightarrow> gotime option \<Rightarrow> bytes option" where
  "approval_requested_payload env approvalID r approverType expiresAt = json_struct
     ([(''approval_id'', jstr approvalID), (''job_id'', jstr (CAR_JobID r)), (''node_id'', jstr (CAR_NodeID r)),
       (''correlation_key'', jstr (CAR_CorrelationKey r)), (''approver_type'', jstr approverType),
       (''title'', jstr (CAR_Title r)), (''description'', jstr (CAR_Description r))]
      @ when_set (CAR_Payload r \<noteq> None \<and> CAR_Payload r \<noteq> Some []) ''payload'' (marshal_gomap (CAR_Payload r))
      @ (case expiresAt of None \<Rightarrow> [] | Some t \<Rightarrow> [(''expires_at'', jstr (rfc3339nano (HE_zone env) t))])
      @ [(''created_at'', jstr (rfc3339nano (HE_zone env) (HE_clock env 5)))])"

definition CreateApproval :: "http_env \<Rightarrow> CreateApprovalRequest option \<Rightarrow> ApiWorld \<Rightarrow> reply \<times> ApiWorld" where
  "CreateApproval env req w = (case AW_approvals w of None \<Rightarrow> (Reply 503 None, w)
     | Some st \<Rightarrow>
         (case req of None \<Rightarrow> (Reply 400 None, w)
          | Some r \<Rightarrow>
              (let approverType = (if CAR_ApproverType r = [] then ''anyone'' else CAR_ApproverType r);
                   approvalID = ''apr-'' @ dec_int (UnixNano (HE_clock env 0));
                   expiresAt = (if CAR_ExpiresInHours r > 0 then Some (HE_clock env 1 + CAR_ExpiresInHours r * hour_ns) else None);
                   apr = \<lparr>Apr_ID = approvalID, Apr_JobID = CAR_JobID r, Apr_NodeID = CAR_NodeID r, Apr_CorrelationKey = CAR_CorrelationKey r,
                     Apr_ApproverType = approverType, Apr_ApproverID = CAR_ApproverID r, Apr_Role = CAR_Role r, Apr_Title = CAR_Title r,
                     Apr_Description = CAR_Description r, Apr_Payload = CAR_Payload r, Apr_Status = DecisionPending, Apr_ApproverResp = None,
                     Apr_ExpiresAt = expiresAt, Apr_CreatedAt = HE_clock env 2, Apr_UpdatedAt = HE_clock env 3\<rparr>;
                   w1 = w\<lparr>AW_approvals := Some (Approval_Create (HE_clock env 4) apr st)\<rparr>
               in (Reply 201 (Some approvalID),
                   case approval_requested_payload env approvalID r approverType expiresAt of None \<Rightarrow> w1
                   | Some b \<Rightarrow> append_latest (HE_append env 0) (CAR_JobID r) ApprovalRequested b (HE_clock env 6) w1))))"

record ApprovalActionRequest =
  AAR_ApproverID :: string
  AAR_ApproverName :: string
  AAR_Comment :: string
  AAR_DelegatedTo :: string

definition approval_completed_payload :: "http_env \<Rightarrow> string \<Rightarrow> ApprovalRequest \<Rightarrow> string \<Rightarrow> ApprovalActionRequest \<Rightarrow> bytes" where
  "approval_completed_payload env i e decision r = or_empty (json_struct
     ([(''approval_id'', jstr i), (''job_id'', jstr (Apr_JobID e)), (''node_id'', jstr (Apr_NodeID e)),
       (''correlation_key'', jstr (Apr_CorrelationKey e)), (''decision'', jstr decision)]
      @ when_set (AAR_ApproverID r \<noteq> []) ''approver_id'' (jstr (AAR_ApproverID r))
      @ when_set (AAR_ApproverName r \<noteq> []) ''approver_name'' (jstr (AAR_ApproverName r))
      @ when_set (AAR_Comment r \<noteq> []) ''comment'' (jstr (AAR_Comment r))
      @ when_set (AAR_DelegatedTo r \<noteq> []) ''delegated_to'' (jstr (AAR_DelegatedTo r))
      @ [(''completed_at'', jstr (rfc3339nano (HE_zone env) (HE_clock env 2)))]))"

text \<open>The two appends of a decision: the second one names the version the first one gave, or the old one if it failed.\<close>

definition append_decision :: "http_env \<Rightarrow> string \<Rightarrow> ApprovalRequest \<Rightarrow> string \<Rightarrow> ApprovalActionRequest \<Rightarrow> memoryStore \<Rightarrow> memoryStore" where
  "append_decision env i e decision r es =
     (let jobID = Apr_JobID e; ver = int (length (fst (ListEvents es jobID)));
          (res, es1) = Append (HE_append env 0) es jobID ver (JobEvent0\<lparr>Ev_JobID := jobID, Ev_Type := ApprovalCompleted,
             Ev_Payload := approval_completed_payload env i e decision r, Ev_CreatedAt := HE_clock env 3\<rparr>);
          ver1 = (case res of Inl _ \<Rightarrow> ver | Inr n \<Rightarrow> n)
      in snd (Append (HE_append env 1) es1 jobID ver1 (JobEvent0\<lparr>Ev_JobID := jobID, Ev_Type := WaitCompleted,
           Ev_Payload := or_empty (wait_completed_payload (Apr_NodeID e) (jstr (AAR_Comment r)) (Apr_CorrelationKey e))\<rparr>)))"

definition handleApprovalAction :: "http_env \<Rightarrow> string \<Rightarrow> ApprovalActionRequest option \<Rightarrow> string \<Rightarrow> ApiWorld \<Rightarrow> reply \<times> ApiWorld" where
  "handleApprovalAction env i req decision w = (case AW_approvals w of None \<Rightarrow> (Reply 503 None, w)
     | Some st \<Rightarrow>
         if i = [] then (Reply 400 None, w)
         else (case req of None \<Rightarrow> (Reply 400 None, w)
          | Some r \<Rightarrow>
              (case Approval_GetByID st i of None \<Rightarrow> (Reply 404 None, w)
               | Some e \<Rightarrow>
                   if Apr_Status e \<noteq> DecisionPending then (Reply 409 None, w)
                   else (let resp = \<lparr>AR_Decision = decision, AR_ApproverID = AAR_ApproverID r, AR_ApproverName = AAR_ApproverName r,
                               AR_Comment = AAR_Comment r, AR_DelegatedTo = AAR_DelegatedTo r, AR_RespondedAt = HE_clock env 4\<rparr>;
                             w1 = w\<lparr>AW_approvals := Some (Approval_Complete (HE_clock env 1) i resp st)\<rparr>
                         in (Reply 200 None, case AW_events w1 of None \<Rightarrow> w1
                             | Some es \<Rightarrow> notify_ready env (Apr_JobID e) (set_status env (Apr_JobID e) JobStatus.StatusPending
                                 (w1\<lparr>AW_events := Some (append_decision env i e decision r es)\<rparr>)))))))"

definition ApproveApproval :: "http_env \<Rightarrow> string \<Rightarrow> ApprovalActionRequest option \<Rightarrow> ApiWorld \<Rightarrow> reply \<times> ApiWorld" where
  "ApproveApproval env i req = handleApprovalAction env i req DecisionApproved"

definition RejectApproval :: "http_env \<Rightarrow> string \<Rightarrow> ApprovalActionRequest option \<Rightarrow> ApiWorld \<Rightarrow> reply \<times> ApiWorld" where
  "RejectApproval env i req = handleApprovalAction env i req DecisionRejected"

section \<open>Call chains\<close>

text \<open>The walk up the chain of parents, for at most 100 jobs.\<close>

fun cycle_walk :: "nat \<Rightarrow> JobStoreMem \<Rightarrow> string \<Rightarrow> string \<Rightarrow> string set \<Rightarrow> string \<Rightarrow> bool" where
  "cycle_walk 0 s agentID tenantID visited current = False"
| "cycle_walk (Suc n) s agentID tenantID visited current =
     (if current = [] then False
      else if current \<in> visited then True
      else (case Get s current of None \<Rightarrow> False
        | Some j \<Rightarrow> if Job_TenantID j \<noteq> tenantID then False
            else if Job_AgentID j = agentID then True
            else cycle_walk n s agentID tenantID (insert current visited) (Job_ParentJobID j)))"

definition hasCycle :: "JobStoreMem \<Rightarrow> string \<Rightarrow> string \<Rightarrow> string \<Rightarrow> bool" where
  "hasCycle s agentID parentJobID tenantID = cycle_walk 100 s agentID tenantID {} parentJobID"

section \<open>Appends\<close>

lemma ListEvents_eq: "ListEvents es x = (events_of es x, int (length (events_of es x)))"
  by (simp add: ListEvents_def Let_def)

text \<open>An append without an attempt, at the current version.\<close>

definition unfenced :: "append_env \<Rightarrow> bool" where
  "unfenced ae \<longleftrightarrow> AttemptIDFromContext (env_ctx ae) = []"

lemma append_now:
  assumes "unfenced ae" "x \<noteq> []"
  obtains n es' e where "Append ae es x (int (length (events_of es x))) ev = (Inr n, es')" "n = int (length (events_of es x)) + 1"
    "events_of es' x = events_of es x @ [e]" "\<forall>y. y \<noteq> x \<longrightarrow> events_of es' y = events_of es y" "Ev_Type e = Ev_Type ev" "Ev_Payload e = Ev_Payload ev"
proof -
  have "append_fence (env_now1 ae) (env_ctx ae) es x = None" using assms by (simp add: append_fence_def unfenced_def)
  then obtain n es' where ap: "Append ae es x (int (length (events_of es x))) ev = (Inr n, es')"
    by (simp add: Append_def append_locked_def Let_def)
  have lk: "append_locked (env_now2 ae) (env_uuid ae) (env_zone ae) es x (int (length (events_of es x))) ev = (Inr n, es')"
    using Append_ok [OF ap] by blast
  show thesis by (rule append_locked_ok [OF lk]) (rule that [OF ap])
qed

lemma Append_grows:
  assumes "Append ae es x v ev = (r, es')"
  shows "(\<forall>y. y \<noteq> x \<longrightarrow> events_of es' y = events_of es y)
    \<and> (case r of Inl _ \<Rightarrow> es' = es | Inr _ \<Rightarrow> v = int (length (events_of es x)) \<and> (\<exists>e. events_of es' x = events_of es x @ [e] \<and> Ev_Type e = Ev_Type ev \<and> Ev_Payload e = Ev_Payload ev))"
proof (cases r)
  case (Inl err)
  then show ?thesis using assms Append_err [of ae es x v ev err es'] by simp
next
  case (Inr n)
  have lk: "append_locked (env_now2 ae) (env_uuid ae) (env_zone ae) es x v ev = (Inr n, es')"
    using Append_ok assms Inr by blast
  show ?thesis by (rule append_locked_ok [OF lk]) (simp add: Inr)
qed

section \<open>A signal ends the wait it names\<close>

text \<open>What a \<open>wait_completed\<close> event does to the replay of a job.\<close>

definition wait_done :: "string \<Rightarrow> string \<Rightarrow> bytes \<Rightarrow> ReplayContext \<Rightarrow> ReplayContext" where
  "wait_done node key p rc = rc\<lparr>RC_CompletedNodeIDs := sput node (RC_CompletedNodeIDs rc), RC_CursorNode := node,
     RC_CompletedCommandIDs := sput node (RC_CompletedCommandIDs rc), RC_PendingWaitNode := [],
     RC_ApprovedCorrelationKeys := (if key \<noteq> [] then sput key (RC_ApprovedCorrelationKeys rc) else RC_ApprovedCorrelationKeys rc),
     RC_CommandResults := mput node p (RC_CommandResults rc)\<rparr>"

lemma wait_completed_good:
  assumes "json_piece n p" "n < maxNestingDepth"
  shows "good_fields n [(''node_id'', jstr nodeID), (''payload'', Some p), (''correlation_key'', jstr key)]"
  using assms by (auto simp: good_fields_def lower_key_def intro: Quoted)

lemma wait_completed_read:
  assumes "json_piece n p" "n < maxNestingDepth" "nodeID \<noteq> []"
  obtains b where "wait_completed_payload nodeID (Some p) key = Some b" "on_wait_completed b rc = wait_done (clean nodeID) (clean key) p rc"
proof -
  let ?fs = "[(''node_id'', jstr nodeID), (''payload'', Some p), (''correlation_key'', jstr key)]"
  obtain b ms where b: "json_map ?fs = Some b" "decode_object b = Some ms"
    and f: "\<And>name. lower_key name \<Longrightarrow> field_raws name ms = field_lookup ?fs name"
    using decode_json_map [OF wait_completed_good [OF assms(1,2)] assms(2)] by blast
  have "field_raws ''node_id'' ms = [json_quote nodeID]" "field_raws ''correlation_key'' ms = [json_quote key]" "field_raws ''payload'' ms = [p]"
    by (auto simp: f lower_key_def field_lookup_def)
  moreover have "p \<noteq> []" using assms(1) by (cases rule: json_piece.cases) (auto simp: quote_head array_text_def fields_text_def)
  ultimately have "on_wait_completed b rc = wait_done (clean nodeID) (clean key) p rc"
    using assms(3) by (simp add: on_wait_completed_def b(2) field_reads wait_done_def Let_def)
  then show thesis using that b(1) by (simp add: wait_completed_payload_def)
qed

lemma replay_wait_completed:
  assumes "replay_events es rc0 = Some rc" "Ev_Type e = WaitCompleted" "on_wait_completed (Ev_Payload e) rc = rc'"
  shows "replay_events (es @ [e]) rc0 = Some rc'"
  using assms by (simp add: replay_events_append replay_event_def)

lemma set_status_frame [simp]:
  "AW_events (set_status env x st w) = AW_events w" "AW_inbox (set_status env x st w) = AW_inbox w" "AW_wakeup (set_status env x st w) = AW_wakeup w"
  "AW_approvals (set_status env x st w) = AW_approvals w" "AW_bus (set_status env x st w) = AW_bus w"
  "AW_jobs (set_status env x st w) = UpdateStatus (HE_clock env 0) (AW_jobs w) x st"
  by (simp_all add: set_status_def)

lemma ack_frame [simp]:
  "AW_events (ack_signal env x sid w) = AW_events w" "AW_jobs (ack_signal env x sid w) = AW_jobs w"
  by (simp_all add: ack_signal_def)

lemma notify_ready_frame [simp]:
  "AW_events (notify_ready env x w) = AW_events w" "AW_jobs (notify_ready env x w) = AW_jobs w" "AW_inbox (notify_ready env x w) = AW_inbox w"
  "AW_approvals (notify_ready env x w) = AW_approvals w"
  by (simp_all add: notify_ready_def)

lemma signal_write_cases:
  assumes "signal_write env x p w = (rep, w')" "AW_events w = Some es"
  obtains (refused) "AW_jobs w' = AW_jobs w" "AW_events w' = Some es"
  | (written) n es' b where "wait_completed_payload (SP_node p) (marshal_raw (SP_payload p)) (SP_key p) = Some b"
      "Append (HE_append env 0) es x (SP_ver p) (JobEvent0\<lparr>Ev_JobID := x, Ev_Type := WaitCompleted, Ev_Payload := b\<rparr>) = (Inr n, es')"
      "rep = Reply 200 None" "AW_events w' = Some es'" "AW_jobs w' = UpdateStatus (HE_clock env 0) (AW_jobs w) x JobStatus.StatusPending"
proof -
  obtain sid w1 where i: "(case AW_inbox w of None \<Rightarrow> ([], w)
      | Some m \<Rightarrow> (case inbox_Append (HE_clock env 2) (HE_uuid env) x (SP_key p) (SP_payload p) m of (i, m') \<Rightarrow> (i, w\<lparr>AW_inbox := Some m'\<rparr>))) = (sid, w1)"
    by fastforce
  then have w1: "AW_jobs w1 = AW_jobs w" "AW_events w1 = Some es" using assms(2) by (auto split: option.splits prod.splits)
  show thesis
  proof (cases "wait_completed_payload (SP_node p) (marshal_raw (SP_payload p)) (SP_key p)")
    case None
    then show thesis using assms(1) i w1 refused by (simp add: signal_write_def)
  next
    case (Some b)
    let ?ev = "JobEvent0\<lparr>Ev_JobID := x, Ev_Type := WaitCompleted, Ev_Payload := b\<rparr>"
    obtain r es' where ap: "Append (HE_append env 0) es x (SP_ver p) ?ev = (r, es')" by fastforce
    show thesis
    proof (cases r)
      case (Inl err)
      then have "es' = es" using Append_grows [OF ap] by simp
      then show thesis using assms(1) i w1 Some ap Inl refused by (auto simp: signal_write_def split: if_splits)
    next
      case (Inr n)
      show thesis
        by (rule written [OF Some ap [unfolded Inr]]) (use assms(1) i w1 Some ap Inr in \<open>auto simp: signal_write_def\<close>)
    qed
  qed
qed

lemma signal_check_ok:
  assumes "signal_check env x req w = Inr p"
  obtains es j r b where "AW_events w = Some es" "req = Some r" "getJobAndCheckTenant (HE_tenant env) (AW_jobs w) x = Some j"
    "Job_Status j = JobStatus.StatusWaiting \<or> Job_Status j = JobStatus.StatusParked"
    "JSR_CorrelationKey r = WP_CorrelationKey (last_waiting (events_of es x))" "JSR_CorrelationKey r \<noteq> []"
    "\<not> lastEventIsWaitCompletedWithCorrelationKey (events_of es x) (JSR_CorrelationKey r)"
    "marshal_gomap (Some (case JSR_Payload r of None \<Rightarrow> [] | Some p \<Rightarrow> p)) = Some b"
    "p = \<lparr>SP_ver = int (length (events_of es x)), SP_node = WP_NodeID (last_waiting (events_of es x)), SP_key = JSR_CorrelationKey r, SP_payload = b\<rparr>"
  using assms by (auto simp: signal_check_def ListEvents_eq Let_def split: option.splits if_splits)

lemma tenant_job:
  "getJobAndCheckTenant t s x = Some j \<longleftrightarrow> byID s x = Some j \<and> Job_TenantID j = (if t = [] then ''default'' else t)"
  by (auto simp: getJobAndCheckTenant_def Get_def split: option.splits)

text \<open>
  C9. A signal writes only what the job waits for. Whatever \<open>JobSignal\<close> answers, the streams of other jobs are untouched, and
  the job's own stream either stays as it was, and then so do all jobs, or gets one \<open>wait_completed\<close> event; then the caller
  is of the job's tenant, the job was waiting or parked, the answer is 200 and the signal's key is the non-empty key of the
  last \<open>job_waiting\<close> event.
\<close>

theorem signal_writes_only_awaited:
  assumes "JobSignal env x req w = (rep, w')" "AW_events w = Some es"
  shows "\<exists>es'. AW_events w' = Some es' \<and> (\<forall>y. y \<noteq> x \<longrightarrow> events_of es' y = events_of es y)
    \<and> (events_of es' x = events_of es x \<and> AW_jobs w' = AW_jobs w
      \<or> (\<exists>e j r. events_of es' x = events_of es x @ [e] \<and> Ev_Type e = WaitCompleted \<and> rep = Reply 200 None \<and> req = Some r
          \<and> byID (AW_jobs w) x = Some j \<and> Job_TenantID j = (if HE_tenant env = [] then ''default'' else HE_tenant env)
          \<and> (Job_Status j = JobStatus.StatusWaiting \<or> Job_Status j = JobStatus.StatusParked)
          \<and> JSR_CorrelationKey r = WP_CorrelationKey (last_waiting (events_of es x)) \<and> JSR_CorrelationKey r \<noteq> []))"
proof (cases "signal_check env x req w")
  case (Inl r)
  then show ?thesis using assms by (simp add: JobSignal_def)
next
  case (Inr p)
  obtain j r where c: "req = Some r" "getJobAndCheckTenant (HE_tenant env) (AW_jobs w) x = Some j"
    "Job_Status j = JobStatus.StatusWaiting \<or> Job_Status j = JobStatus.StatusParked"
    "JSR_CorrelationKey r = WP_CorrelationKey (last_waiting (events_of es x))" "JSR_CorrelationKey r \<noteq> []"
    by (rule signal_check_ok [OF Inr]) (use assms(2) in simp)
  have w: "signal_write env x p w = (rep, w')" using assms(1) Inr by (simp add: JobSignal_def)
  show ?thesis
  proof (rule signal_write_cases [OF w assms(2)])
    assume "AW_jobs w' = AW_jobs w" "AW_events w' = Some es"
    then show ?thesis by simp
  next
    fix n es' b
    assume a: "Append (HE_append env 0) es x (SP_ver p) (JobEvent0\<lparr>Ev_JobID := x, Ev_Type := WaitCompleted, Ev_Payload := b\<rparr>) = (Inr n, es')"
      and r: "rep = Reply 200 None" and e: "AW_events w' = Some es'"
    show ?thesis using Append_grows [OF a] c r e by (auto simp: tenant_job)
  qed
qed

text \<open>
  C10. A signal resumes the waiting job. If the job waits under the key of the last \<open>job_waiting\<close> event, nobody has completed
  that wait, and the call has the right tenant and key, then the answer is 200, the status and the status derived from the
  events are pending, and the replay of the job has the waiting node done, with the signal's payload as its result and the key
  among the approved ones. The payload is any JSON value nested below the limit of the decoder.
\<close>

theorem signal_resumes_wait:
  assumes "AW_events w = Some es" "getJobAndCheckTenant (HE_tenant env) (AW_jobs w) x = Some j"
    and "Job_Status j = JobStatus.StatusWaiting \<or> Job_Status j = JobStatus.StatusParked"
    and "WP_CorrelationKey (last_waiting (events_of es x)) = key" "key \<noteq> []" "WP_NodeID (last_waiting (events_of es x)) = node" "node \<noteq> []"
    and "\<not> lastEventIsWaitCompletedWithCorrelationKey (events_of es x) key"
    and "marshal_gomap (Some payload) = Some b" "json_piece n b" "n < maxNestingDepth" "unfenced (HE_append env 0)" "x \<noteq> []"
    and "replay_events (events_of es x) ReplayContext0 = Some rc"
    and "JobSignal env x (Some \<lparr>JSR_CorrelationKey = key, JSR_Payload = Some payload\<rparr>) w = (rep, w')"
  shows "rep = Reply 200 None \<and> map_option Job_Status (byID (AW_jobs w') x) = Some JobStatus.StatusPending
    \<and> (\<exists>es'. AW_events w' = Some es' \<and> DeriveStatusFromEvents (events_of es' x) = JobStatus.StatusPending
        \<and> replay_events (events_of es' x) ReplayContext0 = Some (wait_done (clean node) (clean key) b rc))"
proof -
  let ?p = "\<lparr>SP_ver = int (length (events_of es x)), SP_node = node, SP_key = key, SP_payload = b\<rparr>"
  have c: "signal_check env x (Some \<lparr>JSR_CorrelationKey = key, JSR_Payload = Some payload\<rparr>) w = Inr ?p"
    using assms(1-9) by (auto simp: signal_check_def ListEvents_eq Let_def)
  then have s: "signal_write env x ?p w = (rep, w')" using assms(15) by (simp add: JobSignal_def)
  have raw: "marshal_raw b = Some b" using marshal_raw_piece [OF assms(10)] assms(11) by simp
  obtain b' where b': "wait_completed_payload node (Some b) key = Some b'" "on_wait_completed b' rc = wait_done (clean node) (clean key) b rc"
    by (rule wait_completed_read [OF assms(10,11,7)])
  let ?ev = "JobEvent0\<lparr>Ev_JobID := x, Ev_Type := WaitCompleted, Ev_Payload := b'\<rparr>"
  obtain m es' e where ap: "Append (HE_append env 0) es x (int (length (events_of es x))) ?ev = (Inr m, es')"
    and e: "events_of es' x = events_of es x @ [e]" "Ev_Type e = WaitCompleted" "Ev_Payload e = b'"
    by (rule append_now [OF assms(12,13), of es ?ev]) simp
  have w': "rep = Reply 200 None \<and> AW_events w' = Some es' \<and> AW_jobs w' = UpdateStatus (HE_clock env 0) (AW_jobs w) x JobStatus.StatusPending"
    using s raw b'(1) ap assms(1) by (auto simp: signal_write_def split: option.splits prod.splits)
  have "replay_events (events_of es' x) ReplayContext0 = Some (wait_done (clean node) (clean key) b rc)"
    using replay_wait_completed [OF assms(14) e(2)] e(1,3) b'(2) by simp
  moreover have "DeriveStatusFromEvents (events_of es' x) = JobStatus.StatusPending"
    using e(1,2) by (simp add: derive_snoc status_of_event_def)
  ultimately show ?thesis using w' assms(2) by (auto simp: tenant_job UpdateStatus_def)
qed

text \<open>
  Of several signals that have passed their checks on the same state only one is written: whatever the writes of
  two of them for the same job do one after the other, the stream grows by at most one event.
\<close>

theorem concurrent_signals_write_once:
  assumes "AW_events w = Some es" "signal_check env x req w = Inr p" "signal_check env' x req' w = Inr q"
    and "signal_write env x p w = (rep, w1)" "signal_write env' x q w1 = (rep', w2)"
  shows "\<exists>es'. AW_events w2 = Some es' \<and> length (events_of es' x) \<le> length (events_of es x) + 1"
proof -
  have v: "SP_ver p = int (length (events_of es x))" "SP_ver q = int (length (events_of es x))"
    by (rule signal_check_ok [OF assms(2)], use assms(1) in simp, rule signal_check_ok [OF assms(3)], use assms(1) in simp)
  have grow: "\<exists>es'. AW_events w'' = Some es' \<and> (events_of es' x = events_of es0 x
      \<or> length (events_of es' x) = length (events_of es0 x) + 1 \<and> SP_ver s = int (length (events_of es0 x)))"
    if "signal_write ev x s w' = (r, w'')" "AW_events w' = Some es0" for ev s w' r w'' es0
  proof (rule signal_write_cases [OF that])
    fix n es' b
    assume a: "Append (HE_append ev 0) es0 x (SP_ver s) (JobEvent0\<lparr>Ev_JobID := x, Ev_Type := WaitCompleted, Ev_Payload := b\<rparr>) = (Inr n, es')"
      and e: "AW_events w'' = Some es'"
    show ?thesis using Append_grows [OF a] e by auto
  qed simp
  obtain es1 where w1: "AW_events w1 = Some es1" "events_of es1 x = events_of es x \<or> length (events_of es1 x) = length (events_of es x) + 1"
    using grow [OF assms(4,1)] by blast
  obtain es2 where w2: "AW_events w2 = Some es2" "events_of es2 x = events_of es1 x
      \<or> length (events_of es2 x) = length (events_of es1 x) + 1 \<and> SP_ver q = int (length (events_of es1 x))"
    using grow [OF assms(5) w1(1)] by blast
  then have "length (events_of es2 x) \<le> length (events_of es x) + 1" using w1(2) v(2) by (elim disjE) simp_all
  then show ?thesis using w2(1) by blast
qed

lemma signal_jobs:
  assumes "JobSignal env x req w = (rep, w')" "AW_events w = Some es" "AW_events w' = Some es'" "events_of es' x \<noteq> events_of es x"
  shows "rep = Reply 200 None \<and> AW_jobs w' = UpdateStatus (HE_clock env 0) (AW_jobs w) x JobStatus.StatusPending
    \<and> byID (AW_jobs w) x \<noteq> None"
proof -
  obtain p where c: "signal_check env x req w = Inr p"
    using assms(1-4) by (cases "signal_check env x req w") (auto simp: JobSignal_def)
  obtain j where j: "byID (AW_jobs w) x = Some j"
    by (rule signal_check_ok [OF c]) (simp add: tenant_job)
  have w: "signal_write env x p w = (rep, w')" using assms(1) c by (simp add: JobSignal_def)
  show ?thesis by (rule signal_write_cases [OF w assms(2)]) (use assms(3,4) j in auto)
qed

text \<open>
  C29. Over the in-memory job store a signalled job does not run.  When \<open>JobSignal\<close> has written its event for a job that is not
  in the pending queue, it answers 200 and makes the job pending, but without putting it into the queue, and the wake-up it
  announces is for waiting and parked jobs only.  So an API scheduler that has no run of the job under way and no
  compensation hook does not start the job, whatever rounds, ends of runs, new jobs and wake-ups, for this job
  too, follow, until somebody writes its status again.
\<close>

theorem signalled_job_is_never_started:
  assumes "JobSignal env x req w = (rep, w')" "AW_events w = Some es" "AW_events w' = Some es'" "events_of es' x \<noteq> events_of es x"
    and "x \<notin> set (pending (AW_jobs w))" "store_wf (AW_jobs w)"
    and "SD_store sd = AW_jobs w'" "SD_compensate sd = None" "x \<notin> Job_ID ` set (SD_limiter sd)"
    and "sched_trace sd ls sd'" "\<forall>st. Marked x st \<notin> set ls"
  shows "rep = Reply 200 None \<and> Started x \<notin> set ls"
proof -
  note u = signal_jobs [OF assms(1-4)]
  have "store_wf (AW_jobs w')" using apply_op_wf [OF assms(6), of "OUpdateStatus (HE_clock env 0) x JobStatus.StatusPending"] u by simp
  then have "stranded sd x" using u assms(5,7-9) by (auto simp: stranded_def mild_def UpdateStatus_def)
  then show ?thesis using u stranded_trace [OF assms(10) _ assms(11)] by blast
qed

section \<open>Approvals\<close>

lemma handle_decides:
  assumes "AW_approvals w = Some st" "st i = Some e" "Apr_Status e = DecisionPending" "i \<noteq> []" "AW_events w = Some es"
  shows "\<exists>w'. handleApprovalAction env i (Some r) d w = (Reply 200 None, w') \<and> AW_events w' = Some (append_decision env i e d r es)
    \<and> AW_jobs w' = UpdateStatus (HE_clock env 0) (AW_jobs w) (Apr_JobID e) JobStatus.StatusPending
    \<and> AW_wakeup w' = map_option (\<lambda>q. snd (NotifyReady (HE_pick env) (HE_ctxErr env) q (Apr_JobID e))) (AW_wakeup w)
    \<and> (\<exists>e'. AW_approvals w' = Some (st(i \<mapsto> e')) \<and> Apr_Status e' = d)"
  using assms by (auto simp: handleApprovalAction_def Approval_GetByID_def Let_def Approval_Complete_def notify_ready_def
      intro!: exI [of _ "e\<lparr>Apr_Status := d, Apr_ApproverResp := Some \<lparr>AR_Decision = d, AR_ApproverID = AAR_ApproverID r,
        AR_ApproverName = AAR_ApproverName r, AR_Comment = AAR_Comment r, AR_DelegatedTo = AAR_DelegatedTo r,
        AR_RespondedAt = HE_clock env 4\<rparr>, Apr_UpdatedAt := HE_clock env 1\<rparr>"])

lemma append_decision_events:
  assumes "unfenced (HE_append env 0)" "unfenced (HE_append env 1)" "Apr_JobID e \<noteq> []" "Apr_NodeID e \<noteq> []"
    and "replay_events (events_of es (Apr_JobID e)) ReplayContext0 = Some rc"
  shows "replay_events (events_of (append_decision env i e d r es) (Apr_JobID e)) ReplayContext0
    = Some (wait_done (clean (Apr_NodeID e)) (clean (Apr_CorrelationKey e)) (json_quote (AAR_Comment r)) rc)"
proof -
  let ?x = "Apr_JobID e"
  let ?ev = "JobEvent0\<lparr>Ev_JobID := ?x, Ev_Type := ApprovalCompleted, Ev_Payload := approval_completed_payload env i e d r, Ev_CreatedAt := HE_clock env 3\<rparr>"
  obtain n es1 e1 where a: "Append (HE_append env 0) es ?x (int (length (events_of es ?x))) ?ev = (Inr n, es1)" "n = int (length (events_of es ?x)) + 1"
    "events_of es1 ?x = events_of es ?x @ [e1]" "Ev_Type e1 = ApprovalCompleted"
    by (rule append_now [OF assms(1,3), of es ?ev]) simp
  have p: "json_piece 0 (json_quote (AAR_Comment r))" by (rule Quoted)
  obtain b where b: "wait_completed_payload (Apr_NodeID e) (jstr (AAR_Comment r)) (Apr_CorrelationKey e) = Some b"
    "on_wait_completed b rc = wait_done (clean (Apr_NodeID e)) (clean (Apr_CorrelationKey e)) (json_quote (AAR_Comment r)) rc"
    by (rule wait_completed_read [OF p _ assms(4)]) simp_all
  let ?ev2 = "JobEvent0\<lparr>Ev_JobID := ?x, Ev_Type := WaitCompleted, Ev_Payload := b\<rparr>"
  obtain n2 es2 e2 where a2: "Append (HE_append env 1) es1 ?x (int (length (events_of es1 ?x))) ?ev2 = (Inr n2, es2)"
    "events_of es2 ?x = events_of es1 ?x @ [e2]" "Ev_Type e2 = WaitCompleted" "Ev_Payload e2 = b"
    by (rule append_now [OF assms(2,3), of es1 ?ev2]) simp
  have "n = int (length (events_of es1 ?x))" using a(2,3) by simp
  then have d: "append_decision env i e d r es = es2" using a(1) a2(1) b(1) by (simp add: append_decision_def ListEvents_eq or_empty_def)
  have "replay_events (events_of es1 ?x) ReplayContext0 = Some rc"
    using assms(5) a(3,4) by (simp add: replay_events_append replay_event_def)
  then show ?thesis unfolding d a2(2) by (rule replay_wait_completed [OF _ a2(3)]) (simp add: a2(4) b(2))
qed

text \<open>
  C11. A rejected approval resumes the job as an approved one does. For the same pending approval, the two requests give the
  same job store, the same wake-ups and the same replay of the job, in which the node that waited for the approval is done and
  its key counts as approved: the decision is in an event that no reader of the stream looks at.
\<close>

theorem rejected_approval_resumes_job:
  assumes "AW_approvals w = Some st" "st i = Some e" "Apr_Status e = DecisionPending" "i \<noteq> []" "AW_events w = Some es"
    and "unfenced (HE_append env 0)" "unfenced (HE_append env 1)" "Apr_JobID e \<noteq> []" "Apr_NodeID e \<noteq> []"
    and "replay_events (events_of es (Apr_JobID e)) ReplayContext0 = Some rc"
  shows "\<exists>wa wr ea er. ApproveApproval env i (Some r) w = (Reply 200 None, wa) \<and> RejectApproval env i (Some r) w = (Reply 200 None, wr)
    \<and> AW_jobs wr = AW_jobs wa \<and> AW_wakeup wr = AW_wakeup wa \<and> AW_events wa = Some ea \<and> AW_events wr = Some er
    \<and> replay_events (events_of er (Apr_JobID e)) ReplayContext0 = replay_events (events_of ea (Apr_JobID e)) ReplayContext0
    \<and> replay_events (events_of er (Apr_JobID e)) ReplayContext0
        = Some (wait_done (clean (Apr_NodeID e)) (clean (Apr_CorrelationKey e)) (json_quote (AAR_Comment r)) rc)"
  using handle_decides [OF assms(1-5), of env r DecisionApproved] handle_decides [OF assms(1-5), of env r DecisionRejected]
    append_decision_events [OF assms(6-10)] unfolding ApproveApproval_def RejectApproval_def by metis

text \<open>
  An approval is decided once: after an approval or a rejection that answered 200, every further request for it answers
  409 and changes nothing.
\<close>

theorem approval_is_decided_once:
  assumes "handleApprovalAction env i req d w = (Reply 200 None, w')" "d \<in> {DecisionApproved, DecisionRejected}"
  shows "handleApprovalAction env' i (Some r) d' w' = (Reply 409 None, w')"
proof -
  obtain st e r' where s: "AW_approvals w = Some st" "i \<noteq> []" "req = Some r'" "st i = Some e" "Apr_Status e = DecisionPending"
    using assms(1) by (auto simp: handleApprovalAction_def Approval_GetByID_def split: option.splits if_splits)
  then obtain e' where "AW_approvals w' = Some (st(i \<mapsto> e'))" "Apr_Status e' = d"
    using assms(1) by (auto simp: handleApprovalAction_def Approval_GetByID_def Approval_Complete_def Let_def split: option.splits)
  then show ?thesis using s(2) assms(2) by (auto simp: handleApprovalAction_def Approval_GetByID_def decisions)
qed

section \<open>Waking by key\<close>

text \<open>
  With the key of another tenant's wait a client wakes that tenant's job. \<open>JobResume\<close> checks the tenant of the job in the
  path only, and wakes whatever job waits under the key in the body: the other job becomes pending and queued, its event
  stream shows nothing, and the resumed event goes to the caller's own job, whose status stays as it was.
\<close>

theorem resume_wakes_foreign_job:
  assumes "getJobAndCheckTenant (HE_tenant env) (AW_jobs w) x = Some jx" "key \<noteq> []"
    and "waitingByKey (AW_jobs w) key = Some info" "byID (AW_jobs w) (WI_jobID info) = Some jy" "Job_TenantID jy \<noteq> Job_TenantID jx"
    and "store_wf (AW_jobs w)" "AW_events w = Some es" "JobResume env x key w = (rep, w')"
  shows "rep = Reply 200 None \<and> map_option Job_Status (byID (AW_jobs w') (WI_jobID info)) = Some JobStatus.StatusPending
    \<and> WI_jobID info \<in> set (pending (AW_jobs w')) \<and> byID (AW_jobs w') x = Some jx
    \<and> (\<exists>es'. AW_events w' = Some es' \<and> events_of es' (WI_jobID info) = events_of es (WI_jobID info))"
proof -
  have x: "byID (AW_jobs w) x = Some jx" using assms(1) by (simp add: tenant_job)
  then have ne: "WI_jobID info \<noteq> x" using assms(4,5) by auto
  have id: "Job_ID jy = WI_jobID info" using store_wf_ID [OF assms(6,4)] .
  show ?thesis
    using assms(1-4,7,8) ne x id by (auto simp: JobResume_def append_latest_def WakeupJob_def Let_def Append_frame)
qed

section \<open>Concrete requests\<close>

lemma lenient_quote: "field_raws name ms = [json_quote s] \<Longrightarrow> lenient_field name ms = clean s"
  using string_field_quote [of name ms s] by (simp add: lenient_field_def string_field_def set_string_def quote_head)

text \<open>A wait as the event sink writes it is read back.\<close>

lemma waiting_read:
  assumes "json_struct [(''node_id'', jstr node), (''wait_type'', jstr t), (''correlation_key'', jstr key)] = Some b"
  shows "waiting_of b = \<lparr>WP_NodeID = clean node, WP_WaitType = clean t, WP_CorrelationKey = clean key\<rparr>"
proof -
  let ?fs = "[(''node_id'', jstr node), (''wait_type'', jstr t), (''correlation_key'', jstr key)]"
  have g: "good_fields 0 ?fs" by (auto simp: good_fields_def lower_key_def intro: Quoted)
  obtain b' ms where b: "json_struct ?fs = Some b'" "json_piece (Suc 0) b'" "decode_object b' = Some ms"
    and f: "\<And>name. lower_key name \<Longrightarrow> field_raws name ms = field_lookup ?fs name"
    using decode_json_struct [OF g] by auto
  have "b' = b" "b \<noteq> []" using b(1) assms by (auto simp: json_struct_def fields_text_def)
  moreover have "field_raws ''node_id'' ms = [json_quote node]" "field_raws ''wait_type'' ms = [json_quote t]"
    "field_raws ''correlation_key'' ms = [json_quote key]"
    by (auto simp: f lower_key_def field_lookup_def)
  ultimately show ?thesis using b(3) by (simp add: waiting_of_def lenient_quote)
qed

definition ctl_payload :: bytes where
  "ctl_payload = the (json_struct [(''node_id'', jstr ''n''), (''wait_type'', jstr ''human''), (''correlation_key'', jstr ''k'')])"

definition ctl_events :: memoryStore where
  "ctl_events = snd (Append (ex_env []) NewMemoryStore ''j'' 0 (JobEvent0\<lparr>Ev_Type := JobWaiting, Ev_Payload := ctl_payload\<rparr>))"

definition ctl_approval :: ApprovalRequest where
  "ctl_approval = \<lparr>Apr_ID = ''a'', Apr_JobID = ''j'', Apr_NodeID = ''n'', Apr_CorrelationKey = ''k'', Apr_ApproverType = ''anyone'', Apr_ApproverID = [],
     Apr_Role = [], Apr_Title = ''t'', Apr_Description = [], Apr_Payload = None, Apr_Status = DecisionPending, Apr_ApproverResp = None,
     Apr_ExpiresAt = None, Apr_CreatedAt = 0, Apr_UpdatedAt = 0\<rparr>"

definition ctl_world :: ApiWorld where
  "ctl_world = \<lparr>AW_jobs = NewJobStoreMem\<lparr>byID := [''j'' \<mapsto> (ex_job ''j'')\<lparr>Job_Status := JobStatus.StatusWaiting\<rparr>]\<rparr>, AW_events = Some ctl_events,
     AW_wakeup = Some (NewWakeupQueueMem 1), AW_inbox = Some Map.empty, AW_bus = None, AW_approvals = Some [''a'' \<mapsto> ctl_approval]\<rparr>"

definition ctl_env :: http_env where
  "ctl_env = \<lparr>HE_tenant = ''tenant'', HE_clock = (\<lambda>_. 5), HE_append = (\<lambda>_. ex_env []), HE_uuid = ''u'', HE_ctxErr = None, HE_pick = True, HE_zone = 0\<rparr>"

abbreviation ctl_signal :: JobSignalRequest where
  "ctl_signal \<equiv> \<lparr>JSR_CorrelationKey = ''k'', JSR_Payload = Some []\<rparr>"

lemma ctl_unfenced: "unfenced (HE_append ctl_env i)"
  by (simp add: unfenced_def ctl_env_def ex_env_def AttemptIDFromContext_def WithAttemptID_def)

lemma ctl_stream: "\<exists>e. events_of ctl_events ''j'' = [e] \<and> Ev_Type e = JobWaiting \<and> Ev_Payload e = ctl_payload"
proof -
  let ?ev = "JobEvent0\<lparr>Ev_Type := JobWaiting, Ev_Payload := ctl_payload\<rparr>"
  have new: "events_of NewMemoryStore ''j'' = []" by (simp add: events_of_def NewMemoryStore_def)
  have u: "unfenced (ex_env [])" using ctl_unfenced [of 0] by (simp add: ctl_env_def)
  obtain n es' e where "Append (ex_env []) NewMemoryStore ''j'' 0 ?ev = (Inr n, es')" "events_of es' ''j'' = [e]"
    "Ev_Type e = JobWaiting" "Ev_Payload e = ctl_payload"
    by (rule append_now [OF u, of "''j''" NewMemoryStore ?ev]) (simp_all add: new)
  then show ?thesis by (simp add: ctl_events_def)
qed

lemma ctl_waiting:
  "last_waiting (events_of ctl_events ''j'') = \<lparr>WP_NodeID = ''n'', WP_WaitType = ''human'', WP_CorrelationKey = ''k''\<rparr>"
  "\<not> lastEventIsWaitCompletedWithCorrelationKey (events_of ctl_events ''j'') ''k''"
  "\<exists>rc. replay_events (events_of ctl_events ''j'') ReplayContext0 = Some rc"
proof -
  obtain e where e: "events_of ctl_events ''j'' = [e]" "Ev_Type e = JobWaiting" "Ev_Payload e = ctl_payload" using ctl_stream by blast
  have "json_struct [(''node_id'', jstr ''n''), (''wait_type'', jstr ''human''), (''correlation_key'', jstr ''k'')] = Some ctl_payload"
    by (simp add: ctl_payload_def json_struct_def)
  from waiting_read [OF this] have "waiting_of ctl_payload = \<lparr>WP_NodeID = ''n'', WP_WaitType = ''human'', WP_CorrelationKey = ''k''\<rparr>"
    by (simp add: clean_ascii)
  then show "last_waiting (events_of ctl_events ''j'') = \<lparr>WP_NodeID = ''n'', WP_WaitType = ''human'', WP_CorrelationKey = ''k''\<rparr>"
    by (simp add: last_waiting_def e)
  show "\<not> lastEventIsWaitCompletedWithCorrelationKey (events_of ctl_events ''j'') ''k''"
    by (simp add: lastEventIsWaitCompletedWithCorrelationKey_def e)
  show "\<exists>rc. replay_events (events_of ctl_events ''j'') ReplayContext0 = Some rc" by (simp add: e replay_event_def)
qed

lemma ctl_job: "getJobAndCheckTenant (HE_tenant ctl_env) (AW_jobs ctl_world) ''j'' = Some ((ex_job ''j'')\<lparr>Job_Status := JobStatus.StatusWaiting\<rparr>)"
  by (simp add: getJobAndCheckTenant_def Get_def ctl_world_def ctl_env_def ex_job_def NewJob_def)

lemma ctl_empty_payload: "marshal_gomap (Some []) = Some ''{}''" "json_piece 1 ''{}''"
proof -
  show "marshal_gomap (Some []) = Some ''{}''" by (simp add: marshal_gomap_def map_entries_def)
  have "json_piece (Suc 0) (fields_text [])" by (rule Object) simp
  then show "json_piece 1 ''{}''" by (simp add: fields_text_def)
qed

theorem signal_resumes_wait_witness:
  "\<exists>w'. JobSignal ctl_env ''j'' (Some ctl_signal) ctl_world = (Reply 200 None, w')
    \<and> map_option Job_Status (byID (AW_jobs w') ''j'') = Some JobStatus.StatusPending"
proof -
  obtain rep w' where s: "JobSignal ctl_env ''j'' (Some ctl_signal) ctl_world = (rep, w')" by fastforce
  obtain rc where rc: "replay_events (events_of ctl_events ''j'') ReplayContext0 = Some rc" using ctl_waiting(3) by blast
  have e: "AW_events ctl_world = Some ctl_events" by (simp add: ctl_world_def)
  show ?thesis
    using signal_resumes_wait [OF e ctl_job _ _ _ _ _ ctl_waiting(2) ctl_empty_payload _ ctl_unfenced _ rc s] s ctl_waiting(1) by simp
qed

lemma ctl_sent:
  obtains w' es' where "JobSignal ctl_env ''j'' (Some ctl_signal) ctl_world = (Reply 200 None, w')" "AW_events w' = Some es'"
    "events_of es' ''j'' \<noteq> events_of ctl_events ''j''"
proof -
  obtain rep w' where s: "JobSignal ctl_env ''j'' (Some ctl_signal) ctl_world = (rep, w')" by fastforce
  have check: "signal_check ctl_env ''j'' (Some ctl_signal) ctl_world = Inr \<lparr>SP_ver = int (length (events_of ctl_events ''j'')), SP_node = ''n'', SP_key = ''k'', SP_payload = ''{}''\<rparr>"
    using ctl_job ctl_waiting(1,2) ctl_empty_payload(1) by (simp add: signal_check_def ListEvents_eq Let_def) (simp add: ctl_world_def ListEvents_eq)
  have e: "AW_events ctl_world = Some ctl_events" by (simp add: ctl_world_def)
  let ?p = "\<lparr>SP_ver = int (length (events_of ctl_events ''j'')), SP_node = ''n'', SP_key = ''k'', SP_payload = ''{}''\<rparr>"
  have w: "signal_write ctl_env ''j'' ?p ctl_world = (rep, w')" using s check by (simp add: JobSignal_def)
  obtain b where b: "wait_completed_payload ''n'' (Some ''{}'') ''k'' = Some b"
    using wait_completed_read [OF ctl_empty_payload(2), of "''n''" "''k''"] by auto
  have raw: "marshal_raw ''{}'' = Some ''{}''" using marshal_raw_piece [OF ctl_empty_payload(2)] by simp
  let ?ev = "JobEvent0\<lparr>Ev_JobID := ''j'', Ev_Type := WaitCompleted, Ev_Payload := b\<rparr>"
  obtain m es' ev where ap: "Append (HE_append ctl_env 0) ctl_events ''j'' (int (length (events_of ctl_events ''j''))) ?ev = (Inr m, es')"
    "events_of es' ''j'' = events_of ctl_events ''j'' @ [ev]"
    by (rule append_now [OF ctl_unfenced [of 0], of "''j''" ctl_events ?ev]) simp_all
  have "rep = Reply 200 None \<and> AW_events w' = Some es'"
    using w raw b ap e by (auto simp: signal_write_def split: option.splits prod.splits)
  then show thesis using that s ap(2) by simp
qed

theorem signal_writes_only_awaited_witness:
  "\<exists>w' es' e. JobSignal ctl_env ''j'' (Some ctl_signal) ctl_world = (Reply 200 None, w') \<and> AW_events w' = Some es'
    \<and> events_of es' ''j'' = events_of ctl_events ''j'' @ [e] \<and> Ev_Type e = WaitCompleted"
proof -
  obtain w' es' where s: "JobSignal ctl_env ''j'' (Some ctl_signal) ctl_world = (Reply 200 None, w')" "AW_events w' = Some es'"
    "events_of es' ''j'' \<noteq> events_of ctl_events ''j''" by (rule ctl_sent)
  have e: "AW_events ctl_world = Some ctl_events" by (simp add: ctl_world_def)
  show ?thesis using signal_writes_only_awaited [OF s(1) e] s by auto
qed

text \<open>A wake-up for the job, a round that finds nothing, a new job, a round that starts that one.\<close>

lemma ctl_rounds:
  assumes "AW_jobs w' = UpdateStatus 5 (AW_jobs ctl_world) ''j'' JobStatus.StatusPending"
  shows "\<exists>sd. sched_trace (SetWakeupQueue (NewWakeupQueueMem 1) (NewScheduler (AW_jobs w') ex_cfg))
    [Notified ''j'', Idle, Submitted ''k'', Started ''k''] sd"
proof -
  let ?s0 = "SetWakeupQueue (NewWakeupQueueMem 1) (NewScheduler (AW_jobs w') ex_cfg)"
  let ?s1 = "?s0\<lparr>SD_wakeup := Some (snd (NotifyReady True None (NewWakeupQueueMem 1) ''j''))\<rparr>"
  let ?s3 = "?s0\<lparr>SD_store := snd (snd (Create 7 ''u'' (SD_store ?s0) (ex_job ''k'')))\<rparr>"
  note defs = SetWakeupQueue_def NewWakeupQueueMem_def NewScheduler_def ctl_world_def NewJobStoreMem_def ex_job_def NewJob_def ex_cfg_def UpdateStatus_def
  note claims = tick_def claim_pending_def ClaimNextPending_def ClaimNextPendingFromQueue_def ClaimNextPendingForWorker_def ClaimParkedJob_def
  have 1: "sched_step ?s0 (Notified ''j'') ?s1" by (rule Notify) (simp add: SetWakeupQueue_def)
  have "tick 6 True ?s1 = (None, ?s0)"
    by (simp add: assms defs claims Receive_def NotifyReady_def Let_def)
  then have 2: "sched_step ?s1 Idle ?s0" by (rule Poll [rotated]) (simp add: defs slots_def)
  have "sched_step ?s0 (Submitted (fst (Create 7 ''u'' (SD_store ?s0) (ex_job ''k'')))) ?s3"
    by (rule Submit) (simp_all add: assms defs Create_def Let_def)
  then have 3: "sched_step ?s0 (Submitted ''k'') ?s3" by (simp add: defs Create_def Let_def)
  have "map_option Job_ID (fst (tick 8 True ?s3)) = Some ''k''"
    by (simp add: assms defs claims Create_def claimable_def jobMatchesCapabilities_def Receive_def Let_def)
  then obtain j sd where t: "tick 8 True ?s3 = (Some j, sd)" "Job_ID j = ''k''" by (cases "tick 8 True ?s3") auto
  have 4: "sched_step ?s3 (Started ''k'') sd" using Start [OF _ t(1)] t(2) by (simp add: defs slots_def)
  show ?thesis using Step [OF Step [OF Step [OF Step [OF Stop 1] 2] 3] 4] by auto
qed

theorem signalled_job_is_never_started_witness:
  "\<exists>w' sd. JobSignal ctl_env ''j'' (Some ctl_signal) ctl_world = (Reply 200 None, w')
    \<and> map_option Job_Status (byID (AW_jobs w') ''j'') = Some JobStatus.StatusPending
    \<and> sched_trace (SetWakeupQueue (NewWakeupQueueMem 1) (NewScheduler (AW_jobs w') ex_cfg)) [Notified ''j'', Idle, Submitted ''k'', Started ''k''] sd
    \<and> Started ''j'' \<notin> set [Notified ''j'', Idle, Submitted ''k'', Started ''k'']"
proof -
  obtain w' es' where s: "JobSignal ctl_env ''j'' (Some ctl_signal) ctl_world = (Reply 200 None, w')" "AW_events w' = Some es'"
    "events_of es' ''j'' \<noteq> events_of ctl_events ''j''" by (rule ctl_sent)
  have e: "AW_events ctl_world = Some ctl_events" by (simp add: ctl_world_def)
  have wf: "store_wf (AW_jobs ctl_world)" "''j'' \<notin> set (pending (AW_jobs ctl_world))"
    by (simp_all add: ctl_world_def store_wf_def NewJobStoreMem_def ex_job_def NewJob_def)
  have jobs: "AW_jobs w' = UpdateStatus 5 (AW_jobs ctl_world) ''j'' JobStatus.StatusPending"
    using signal_jobs [OF s(1) e s(2,3)] by (simp add: ctl_env_def)
  obtain sd where t: "sched_trace (SetWakeupQueue (NewWakeupQueueMem 1) (NewScheduler (AW_jobs w') ex_cfg)) [Notified ''j'', Idle, Submitted ''k'', Started ''k''] sd"
    using ctl_rounds [OF jobs] by blast
  have st: "map_option Job_Status (byID (AW_jobs w') ''j'') = Some JobStatus.StatusPending"
    by (simp add: jobs UpdateStatus_def ctl_world_def)
  show ?thesis
    using signalled_job_is_never_started [OF s(1) e s(2,3) wf(2,1) _ _ _ t] s(1) t st
    by (intro exI [of _ w'] exI [of _ sd]) (simp add: NewScheduler_def SetWakeupQueue_def)
qed

theorem concurrent_signals_write_once_witness:
  "\<exists>p w1 w2 rep rep' es'. signal_check ctl_env ''j'' (Some ctl_signal) ctl_world = Inr p \<and> signal_write ctl_env ''j'' p ctl_world = (rep, w1)
    \<and> signal_write ctl_env ''j'' p w1 = (rep', w2) \<and> AW_events w2 = Some es' \<and> length (events_of es' ''j'') \<le> length (events_of ctl_events ''j'') + 1"
proof -
  obtain w' es' where s: "JobSignal ctl_env ''j'' (Some ctl_signal) ctl_world = (Reply 200 None, w')" "AW_events w' = Some es'"
    "events_of es' ''j'' \<noteq> events_of ctl_events ''j''" by (rule ctl_sent)
  have e: "AW_events ctl_world = Some ctl_events" by (simp add: ctl_world_def)
  obtain p where p: "signal_check ctl_env ''j'' (Some ctl_signal) ctl_world = Inr p"
    using s e by (cases "signal_check ctl_env ''j'' (Some ctl_signal) ctl_world") (auto simp: JobSignal_def)
  obtain rep w1 where w1: "signal_write ctl_env ''j'' p ctl_world = (rep, w1)" by fastforce
  obtain rep' w2 where w2: "signal_write ctl_env ''j'' p w1 = (rep', w2)" by fastforce
  show ?thesis using concurrent_signals_write_once [OF e p p w1 w2] p w1 w2 by blast
qed

lemma ctl_decidable:
  "AW_approvals ctl_world = Some [''a'' \<mapsto> ctl_approval]" "[''a'' \<mapsto> ctl_approval] ''a'' = Some ctl_approval"
  "Apr_Status ctl_approval = DecisionPending" "Apr_JobID ctl_approval = ''j''" "Apr_NodeID ctl_approval = ''n''"
  "AW_events ctl_world = Some ctl_events"
  by (simp_all add: ctl_world_def ctl_approval_def)

abbreviation ctl_action :: ApprovalActionRequest where
  "ctl_action \<equiv> \<lparr>AAR_ApproverID = ''boss'', AAR_ApproverName = [], AAR_Comment = ''no'', AAR_DelegatedTo = []\<rparr>"

theorem rejected_approval_resumes_job_witness:
  "\<exists>wr er rc. RejectApproval ctl_env ''a'' (Some ctl_action) ctl_world = (Reply 200 None, wr) \<and> AW_events wr = Some er
    \<and> replay_events (events_of er ''j'') ReplayContext0 = Some (wait_done (clean ''n'') (clean (Apr_CorrelationKey ctl_approval)) (json_quote ''no'') rc)"
proof -
  obtain rc where rc: "replay_events (events_of ctl_events ''j'') ReplayContext0 = Some rc" using ctl_waiting(3) by blast
  show ?thesis
    using rejected_approval_resumes_job [OF ctl_decidable(1-3) _ ctl_decidable(6) ctl_unfenced ctl_unfenced, of rc ctl_action] rc
    by (auto simp: ctl_decidable(4,5))
qed

theorem approval_is_decided_once_witness:
  "\<exists>w'. RejectApproval ctl_env ''a'' (Some ctl_action) ctl_world = (Reply 200 None, w')
    \<and> ApproveApproval ctl_env ''a'' (Some ctl_action) w' = (Reply 409 None, w')"
proof -
  obtain w' where w': "handleApprovalAction ctl_env ''a'' (Some ctl_action) DecisionRejected ctl_world = (Reply 200 None, w')"
    using handle_decides [OF ctl_decidable(1-3) _ ctl_decidable(6), of ctl_env ctl_action DecisionRejected] by auto
  then show ?thesis using approval_is_decided_once [OF w', of ctl_env ctl_action DecisionApproved] by (auto simp: ApproveApproval_def RejectApproval_def)
qed

text \<open>A second tenant's job waits under the key \<open>k2\<close>.\<close>

definition ctl_foreign :: ApiWorld where
  "ctl_foreign = ctl_world\<lparr>AW_jobs := NewJobStoreMem\<lparr>byID := [''j'' \<mapsto> ex_job ''j'', ''o'' \<mapsto> (ex_job ''o'')\<lparr>Job_TenantID := ''other'', Job_Status := JobStatus.StatusParked\<rparr>],
     waitingByKey := [''k2'' \<mapsto> \<lparr>WI_jobID = ''o'', WI_correlationKey = ''k2'', WI_waitType = [], WI_reason = [], WI_status = JobStatus.StatusParked, WI_setAt = 0\<rparr>]\<rparr>\<rparr>"

theorem resume_wakes_foreign_job_witness:
  "map_option Job_Status (byID (AW_jobs (snd (JobResume ctl_env ''j'' ''k2'' ctl_foreign))) ''o'') = Some JobStatus.StatusPending"
proof -
  obtain rep w' where r: "JobResume ctl_env ''j'' ''k2'' ctl_foreign = (rep, w')" by fastforce
  have j: "getJobAndCheckTenant (HE_tenant ctl_env) (AW_jobs ctl_foreign) ''j'' = Some (ex_job ''j'')"
    by (simp add: tenant_job ctl_env_def ctl_foreign_def ex_job_def NewJob_def)
  have k: "waitingByKey (AW_jobs ctl_foreign) ''k2'' = Some \<lparr>WI_jobID = ''o'', WI_correlationKey = ''k2'', WI_waitType = [], WI_reason = [],
    WI_status = JobStatus.StatusParked, WI_setAt = 0\<rparr>" by (simp add: ctl_foreign_def)
  have wf: "store_wf (AW_jobs ctl_foreign)" by (simp add: store_wf_def ctl_foreign_def NewJobStoreMem_def ex_job_def NewJob_def)
  show ?thesis
    using resume_wakes_foreign_job [OF j _ k _ _ wf _ r, of "(ex_job ''o'')\<lparr>Job_TenantID := ''other'', Job_Status := JobStatus.StatusParked\<rparr>" ctl_events] r
    by (simp add: ctl_foreign_def ctl_world_def ex_job_def NewJob_def)
qed

end
