(* ===== verification/Fair_Queue.thy ===== *)
theory Fair_Queue
  imports Job_Scheduler
begin

text \<open>
  The fair choice among queue classes (\<open>internal/agent/scheduler/queue_scheduler.go\<close>): every round gives each queue as many
  tickets as it has weight; a selection takes the available queue with the most tickets left and uses one up.  The two
  maps have the same keys and are walked only to add up and to copy; they are association lists with distinct keys.
\<close>

section \<open>The scheduler of queues\<close>

record FairnessPolicy =
  FP_RealtimeWeight :: int
  FP_DefaultWeight :: int
  FP_BackgroundWeight :: int
  FP_HeavyWeight :: int
  FP_StarvationThreshold :: duration

definition DefaultFairnessPolicy :: FairnessPolicy where
  "DefaultFairnessPolicy = \<lparr>FP_RealtimeWeight = 70, FP_DefaultWeight = 20, FP_BackgroundWeight = 8, FP_HeavyWeight = 2,
     FP_StarvationThreshold = 300 * 10 ^ 9\<rparr>"

record FairQueueScheduler =
  FQ_policy :: FairnessPolicy
  FQ_queueWeights :: "(string \<times> int) list"
  FQ_currentRound :: int
  FQ_queueTickets :: "(string \<times> int) list"
  FQ_jobWaitStart :: "(string \<times> gotime) list"

definition resetRound :: "FairQueueScheduler \<Rightarrow> FairQueueScheduler" where
  "resetRound s = s\<lparr>FQ_queueTickets := FQ_queueWeights s, FQ_currentRound := FQ_currentRound s + 1\<rparr>"

definition NewFairQueueScheduler :: "FairnessPolicy \<Rightarrow> FairQueueScheduler" where
  "NewFairQueueScheduler policy = resetRound \<lparr>FQ_policy = policy,
     FQ_queueWeights = [(QueueRealtime, FP_RealtimeWeight policy), (QueueDefault, FP_DefaultWeight policy),
        (QueueBackground, FP_BackgroundWeight policy), (QueueHeavy, FP_HeavyWeight policy)],
     FQ_currentRound = 0, FQ_queueTickets = [], FQ_jobWaitStart = []\<rparr>"

text \<open>A missing key reads as 0.\<close>

definition tickets :: "(string \<times> int) list \<Rightarrow> string \<Rightarrow> int" where
  "tickets m q = (case map_of m q of None \<Rightarrow> 0 | Some n \<Rightarrow> n)"

fun max_queue :: "(string \<Rightarrow> int) \<Rightarrow> string list \<Rightarrow> int \<Rightarrow> string \<Rightarrow> string" where
  "max_queue t [] maxTickets selected = selected"
| "max_queue t (q # qs) maxTickets selected = (if t q > maxTickets then max_queue t qs (t q) q else max_queue t qs maxTickets selected)"

definition SelectQueue :: "string list \<Rightarrow> FairQueueScheduler \<Rightarrow> string \<times> FairQueueScheduler" where
  "SelectQueue availableQueues s =
     (let s1 = (if sum_list (map snd (FQ_queueTickets s)) = 0 then resetRound s else s);
          q = max_queue (tickets (FQ_queueTickets s1)) availableQueues (- 1) []
      in (q, if q \<noteq> [] \<and> tickets (FQ_queueTickets s1) q > 0
             then s1\<lparr>FQ_queueTickets := map (\<lambda>(k, n). (k, if k = q then n - 1 else n)) (FQ_queueTickets s1)\<rparr> else s1))"

definition TrackJobStart :: "gotime \<Rightarrow> string \<Rightarrow> FairQueueScheduler \<Rightarrow> FairQueueScheduler" where
  "TrackJobStart now jobID s = (if map_of (FQ_jobWaitStart s) jobID = None then s\<lparr>FQ_jobWaitStart := (jobID, now) # FQ_jobWaitStart s\<rparr> else s)"

definition CheckStarvation :: "gotime \<Rightarrow> string \<Rightarrow> FairQueueScheduler \<Rightarrow> bool" where
  "CheckStarvation now jobID s = (case map_of (FQ_jobWaitStart s) jobID of None \<Rightarrow> False
     | Some t \<Rightarrow> now - t > FP_StarvationThreshold (FQ_policy s))"

definition CompleteJob :: "string \<Rightarrow> FairQueueScheduler \<Rightarrow> FairQueueScheduler" where
  "CompleteJob jobID s = s\<lparr>FQ_jobWaitStart := filter (\<lambda>(k, _). k \<noteq> jobID) (FQ_jobWaitStart s)\<rparr>"

definition starved_jobs :: "gotime \<Rightarrow> FairQueueScheduler \<Rightarrow> nat" where
  "starved_jobs now s = length (filter (\<lambda>(_, t). now - t > FP_StarvationThreshold (FQ_policy s)) (FQ_jobWaitStart s))"

definition AdjustWeights :: "string \<Rightarrow> int \<Rightarrow> FairQueueScheduler \<Rightarrow> FairQueueScheduler" where
  "AdjustWeights queueClass newWeight s =
     (let n = (if newWeight < 0 then 0 else newWeight); n' = (if n > 100 then 100 else n)
      in s\<lparr>FQ_queueWeights := (if map_of (FQ_queueWeights s) queueClass = None then FQ_queueWeights s @ [(queueClass, n')]
             else map (\<lambda>(k, w). (k, if k = queueClass then n' else w)) (FQ_queueWeights s))\<rparr>)"

fun select_all :: "string list list \<Rightarrow> FairQueueScheduler \<Rightarrow> string list \<times> FairQueueScheduler" where
  "select_all [] s = ([], s)"
| "select_all (a # as) s = (let (q, s1) = SelectQueue a s; (qs, s2) = select_all as s1 in (q # qs, s2))"

section \<open>One selection\<close>

text \<open>No queue has a negative number of tickets, keys are distinct, and no key is the empty name.\<close>

definition fair_wf :: "FairQueueScheduler \<Rightarrow> bool" where
  "fair_wf s \<longleftrightarrow> distinct (map fst (FQ_queueTickets s)) \<and> distinct (map fst (FQ_queueWeights s))
     \<and> (\<forall>(k, n) \<in> set (FQ_queueTickets s). 0 \<le> n \<and> k \<noteq> []) \<and> (\<forall>(k, n) \<in> set (FQ_queueWeights s). 0 \<le> n \<and> k \<noteq> [])"

abbreviation left :: "FairQueueScheduler \<Rightarrow> string \<Rightarrow> int" where
  "left s q \<equiv> tickets (FQ_queueTickets s) q"

lemma max_queue_spec:
  "selected = [] \<or> t selected = m \<Longrightarrow> (selected = [] \<longrightarrow> (\<forall>q \<in> set qs. m < t q)) \<Longrightarrow> [] \<notin> set qs \<Longrightarrow>
    (let q = max_queue t qs m selected in (q = selected \<and> (\<forall>x \<in> set qs. t x \<le> m)) \<or> (q \<in> set qs \<and> (\<forall>x \<in> set qs. t x \<le> t q) \<and> m \<le> t q))"
proof (induction qs arbitrary: m selected)
  case (Cons x qs)
  show ?case
  proof (cases "t x > m")
    case True
    have "x \<noteq> []" using Cons.prems by auto
    then show ?thesis using Cons.IH [of x "t x"] Cons.prems True by (fastforce simp: Let_def)
  next
    case False
    then have "selected \<noteq> []" using Cons.prems by auto
    then show ?thesis using Cons.IH [of selected m] Cons.prems False by (auto simp: Let_def)
  qed
qed (simp add: Let_def)

lemma max_queue_max:
  assumes "qs \<noteq> []" "[] \<notin> set qs" "\<forall>q \<in> set qs. 0 \<le> t q"
  shows "max_queue t qs (- 1) [] \<in> set qs \<and> (\<forall>x \<in> set qs. t x \<le> t (max_queue t qs (- 1) []))"
  using max_queue_spec [of "[]" t "- 1" qs] assms by (cases qs) (fastforce simp: Let_def)+

lemma max_queue_first:
  "max_queue t qs m x = x \<or> (max_queue t qs m x \<in> set qs \<and> m < t (max_queue t qs m x))"
proof (induction qs arbitrary: m x)
  case (Cons y qs)
  show ?case using Cons.IH [of "t y" y] Cons.IH [of m x] by auto
qed simp

abbreviation total :: "(string \<times> int) list \<Rightarrow> int" where
  "total m \<equiv> sum_list (map snd m)"

lemma tickets_in: "distinct (map fst m) \<Longrightarrow> (k, n) \<in> set m \<Longrightarrow> tickets m k = n"
  by (simp add: tickets_def)

lemma tickets_outside: "k \<notin> fst ` set m \<Longrightarrow> tickets m k = 0"
  by (simp add: tickets_def map_of_eq_None_iff [THEN iffD2] split: option.splits)

lemma tickets_nonneg: "\<forall>(k, n) \<in> set m. 0 \<le> n \<Longrightarrow> 0 \<le> tickets m q"
  by (auto simp: tickets_def split: option.splits dest!: map_of_SomeD)

lemma total_nonneg: "\<forall>(k, n) \<in> set m. 0 \<le> (n :: int) \<Longrightarrow> 0 \<le> total m"
  by (induction m) auto

lemma tickets_le_total: "\<forall>(k, n) \<in> set m. 0 \<le> n \<Longrightarrow> tickets m q \<le> total m"
proof (induction m)
  case (Cons p m)
  then have "0 \<le> total m" using total_nonneg [of m] by auto
  then show ?case using Cons by (cases p) (auto simp: tickets_def)
qed (simp add: tickets_def)

lemma total_zero: "\<forall>(k, n) \<in> set m. 0 \<le> n \<Longrightarrow> total m \<le> 0 \<Longrightarrow> tickets m q = 0"
  using tickets_le_total [of m q] tickets_nonneg [of m q] by simp

lemma total_pos: "0 < total m \<Longrightarrow> \<exists>(k, n) \<in> set m. 0 < n"
  by (induction m) fastforce+

definition use_ticket :: "string \<Rightarrow> (string \<times> int) list \<Rightarrow> (string \<times> int) list" where
  "use_ticket q m = map (\<lambda>(k, n). (k, if k = q then n - 1 else n)) m"

lemma use_ticket_keys: "map fst (use_ticket q m) = map fst m"
  by (simp add: use_ticket_def comp_def case_prod_unfold)

lemma use_ticket_tickets: "q \<in> fst ` set m \<Longrightarrow> tickets (use_ticket q m) k = (if k = q then tickets m k - 1 else tickets m k)"
proof -
  have "map_of (use_ticket q m) k = map_option (\<lambda>n. if k = q then n - 1 else n) (map_of m k)"
    by (induction m) (auto simp: use_ticket_def)
  moreover assume "q \<in> fst ` set m"
  then have "map_of m q \<noteq> None" by (simp add: map_of_eq_None_iff)
  ultimately show ?thesis by (cases "map_of m k") (auto simp: tickets_def)
qed

lemma use_ticket_total: "distinct (map fst m) \<Longrightarrow> q \<in> fst ` set m \<Longrightarrow> total (use_ticket q m) = total m - 1"
proof (induction m)
  case (Cons p m)
  obtain k n where p: "p = (k, n)" by (cases p)
  show ?case
  proof (cases "k = q")
    case True
    then have "q \<notin> fst ` set m" using Cons.prems by (simp add: p)
    then have "(if k' = q then n' - 1 else n') = n'" if "(k', n') \<in> set m" for k' and n' :: int
      using image_eqI [of k' fst "(k', n')" "set m"] that by auto
    then have "use_ticket q m = m" by (auto simp: use_ticket_def intro!: map_idI)
    then show ?thesis using True by (simp add: use_ticket_def p)
  next
    case False
    then show ?thesis using Cons p by (auto simp: use_ticket_def)
  qed
qed simp

lemma fair_keys: "0 < tickets m q \<Longrightarrow> q \<in> fst ` set m"
  using tickets_outside [of q m] by fastforce

lemma select_takes:
  assumes wf: "fair_wf s" and pos: "0 < total (FQ_queueTickets s)" and all: "fst ` set (FQ_queueTickets s) \<subseteq> set a" "[] \<notin> set a"
  obtains q where "SelectQueue a s = (q, s\<lparr>FQ_queueTickets := use_ticket q (FQ_queueTickets s)\<rparr>)" "0 < left s q"
proof -
  have nn: "\<forall>(k, n) \<in> set (FQ_queueTickets s). 0 \<le> n" using wf by (auto simp: fair_wf_def)
  obtain k n where k: "(k, n) \<in> set (FQ_queueTickets s)" "0 < n" using total_pos [OF pos] by blast
  have "k \<in> fst ` set (FQ_queueTickets s)" using image_eqI [OF _ k(1), of k fst] by simp
  then have "k \<in> set a" using all(1) by blast
  moreover have "distinct (map fst (FQ_queueTickets s))" using wf by (simp add: fair_wf_def)
  then have "left s k = n" using k(1) by (rule tickets_in)
  ultimately have ka: "k \<in> set a" "0 < left s k" using k(2) by simp_all
  let ?q = "max_queue (tickets (FQ_queueTickets s)) a (- 1) []"
  have "a \<noteq> []" using ka(1) by auto
  then have m: "?q \<in> set a" "\<forall>x \<in> set a. left s x \<le> left s ?q"
    using all(2) tickets_nonneg [OF nn] max_queue_max [of a "tickets (FQ_queueTickets s)"] by simp_all
  then have "0 < left s ?q" using ka by force
  moreover have "?q \<noteq> []" using m(1) all(2) by metis
  ultimately have "SelectQueue a s = (?q, s\<lparr>FQ_queueTickets := use_ticket ?q (FQ_queueTickets s)\<rparr>)"
    using pos by (simp add: SelectQueue_def use_ticket_def Let_def)
  then show thesis using that \<open>0 < left s ?q\<close> by blast
qed

lemma fair_wf_use: "fair_wf s \<Longrightarrow> 0 < left s q \<Longrightarrow> fair_wf (s\<lparr>FQ_queueTickets := use_ticket q (FQ_queueTickets s)\<rparr>)"
proof -
  assume wf: "fair_wf s" and q: "0 < left s q"
  have "0 \<le> n \<and> k \<noteq> []" if "(k, n) \<in> set (use_ticket q (FQ_queueTickets s))" for k n
  proof -
    have "\<exists>n0. (k, n0) \<in> set (FQ_queueTickets s) \<and> n = (if k = q then n0 - 1 else n0)" using that by (auto simp: use_ticket_def)
    then obtain n0 where n0: "(k, n0) \<in> set (FQ_queueTickets s)" "n = (if k = q then n0 - 1 else n0)" by blast
    have "left s k = n0" using n0(1) wf by (intro tickets_in) (simp_all add: fair_wf_def)
    then show ?thesis using n0 wf q by (auto simp: fair_wf_def)
  qed
  then show ?thesis using wf by (auto simp: fair_wf_def use_ticket_keys)
qed

text \<open>A round with all queues available hands out exactly the tickets that are left.\<close>

lemma round_counts:
  assumes "fair_wf s" "total (FQ_queueTickets s) = int (length as)" "\<forall>a \<in> set as. fst ` set (FQ_queueTickets s) \<subseteq> set a \<and> [] \<notin> set a"
    and "select_all as s = (qs, s')"
  shows "(\<forall>q. int (count_list qs q) = left s q) \<and> total (FQ_queueTickets s') = 0 \<and> fair_wf s' \<and> FQ_queueWeights s' = FQ_queueWeights s
    \<and> map fst (FQ_queueTickets s') = map fst (FQ_queueTickets s)"
  using assms
proof (induction as arbitrary: s qs)
  case Nil
  have "left s q = 0" for q using Nil by (intro total_zero) (auto simp: fair_wf_def)
  then show ?case using Nil by simp
next
  case (Cons a as)
  obtain q where q: "SelectQueue a s = (q, s\<lparr>FQ_queueTickets := use_ticket q (FQ_queueTickets s)\<rparr>)" "0 < left s q"
    by (rule select_takes [OF Cons.prems(1), of a]) (use Cons.prems(2,3) in auto)
  let ?s = "s\<lparr>FQ_queueTickets := use_ticket q (FQ_queueTickets s)\<rparr>"
  obtain qs1 where r: "select_all as ?s = (qs1, s')" "qs = q # qs1" using Cons.prems(4) q(1) by (auto split: prod.splits)
  have k: "q \<in> fst ` set (FQ_queueTickets s)" using fair_keys [OF q(2)] .
  have keys: "fst ` set (use_ticket q (FQ_queueTickets s)) = fst ` set (FQ_queueTickets s)"
    using use_ticket_keys [of q "FQ_queueTickets s"] by (metis list.set_map)
  have "total (use_ticket q (FQ_queueTickets s)) = int (length as)"
    using use_ticket_total [OF _ k] Cons.prems(1,2) by (simp add: fair_wf_def)
  then have IH: "(\<forall>q'. int (count_list qs1 q') = left ?s q') \<and> total (FQ_queueTickets s') = 0 \<and> fair_wf s' \<and> FQ_queueWeights s' = FQ_queueWeights s
    \<and> map fst (FQ_queueTickets s') = map fst (FQ_queueTickets s)"
    using Cons.IH [OF fair_wf_use [OF Cons.prems(1) q(2)] _ _ r(1)] Cons.prems(3) keys by (auto simp: use_ticket_keys)
  then show ?case using use_ticket_tickets [OF k] r(2) by auto
qed

lemma select_all_append: "select_all (xs @ ys) s = (let (ps, s1) = select_all xs s; (qs, s2) = select_all ys s1 in (ps @ qs, s2))"
  by (induction xs arbitrary: s) (auto split: prod.splits)

section \<open>Rounds\<close>

text \<open>The tickets are used up, or as many as a round begins with.\<close>

lemma round_of_weights:
  assumes "fair_wf s" "total (FQ_queueTickets s) = 0 \<or> FQ_queueTickets s = FQ_queueWeights s" "0 < total (FQ_queueWeights s)" "int (length as) = total (FQ_queueWeights s)"
    and "\<forall>a \<in> set as. fst ` set (FQ_queueWeights s) \<subseteq> set a \<and> [] \<notin> set a" "select_all as s = (qs, s')"
  shows "(\<forall>q. int (count_list qs q) = tickets (FQ_queueWeights s) q) \<and> total (FQ_queueTickets s') = 0 \<and> fair_wf s' \<and> FQ_queueWeights s' = FQ_queueWeights s"
proof (cases "FQ_queueTickets s = FQ_queueWeights s")
  case True
  then show ?thesis using round_counts [OF assms(1) _ _ assms(6)] assms(4,5) by simp
next
  case False
  have r: "FQ_queueTickets (resetRound s) = FQ_queueWeights s" "FQ_queueWeights (resetRound s) = FQ_queueWeights s" by (simp_all add: resetRound_def)
  have wf: "fair_wf (resetRound s)" using assms(1) by (simp add: fair_wf_def r)
  obtain a bs where as: "as = a # bs" using assms(3,4) by (cases as) auto
  have "total (FQ_queueTickets (resetRound s)) \<noteq> 0" using assms(3) r by simp
  then have "SelectQueue a s = SelectQueue a (resetRound s)" using assms(2) False by (simp add: SelectQueue_def)
  then have "select_all as (resetRound s) = (qs, s')" using assms(6) by (simp add: as)
  from round_counts [OF wf _ _ this] show ?thesis using assms(4,5) r by simp
qed

lemma rounds_of_weights:
  assumes "fair_wf s" "total (FQ_queueTickets s) = 0 \<or> FQ_queueTickets s = FQ_queueWeights s" "0 < total (FQ_queueWeights s)" "int (length as) = int n * total (FQ_queueWeights s)"
    and "\<forall>a \<in> set as. fst ` set (FQ_queueWeights s) \<subseteq> set a \<and> [] \<notin> set a" "select_all as s = (qs, s')"
  shows "int (count_list qs q) = int n * tickets (FQ_queueWeights s) q"
  using assms
proof (induction n arbitrary: as s qs)
  case (Suc n)
  let ?W = "total (FQ_queueWeights s)"
  have W: "0 \<le> ?W" "int (nat ?W) = ?W" using Suc.prems(3) by simp_all
  define xs ys where "xs = take (nat ?W) as" and "ys = drop (nat ?W) as"
  have len: "int (length as) = ?W + int n * ?W" using Suc.prems(4) by (simp add: algebra_simps)
  moreover have "0 \<le> int n * ?W" using W(1) by simp
  ultimately have "?W \<le> int (length as)" by linarith
  then have le: "nat ?W \<le> length as" by (simp add: nat_le_iff)
  then have xl: "int (length xs) = ?W" using W by (simp add: xs_def)
  have "int (length ys) = int (length as) - int (nat ?W)" unfolding ys_def length_drop using le by (rule of_nat_diff)
  then have yl: "int (length ys) = int n * ?W" using len W(2) by linarith
  have as: "as = xs @ ys" by (simp add: xs_def ys_def)
  obtain ps s1 where p: "select_all xs s = (ps, s1)" by fastforce
  obtain qs1 where q: "select_all ys s1 = (qs1, s')" "qs = ps @ qs1"
    using Suc.prems(6) p by (auto simp: as select_all_append split: prod.splits)
  have r: "\<forall>q. int (count_list ps q) = tickets (FQ_queueWeights s) q" "total (FQ_queueTickets s1) = 0" "fair_wf s1" "FQ_queueWeights s1 = FQ_queueWeights s"
    using round_of_weights [OF Suc.prems(1-3) xl _ p] Suc.prems(5) by (simp_all add: as)
  have "int (count_list qs1 q) = int n * tickets (FQ_queueWeights s1) q"
    by (rule Suc.IH [OF r(3) _ _ _ _ q(1)]) (use Suc.prems(3,5) yl r(2,4) in \<open>simp_all add: as\<close>)
  then show ?case using r(1,4) q(2) by (simp add: algebra_simps)
qed simp

lemma new_fair: "fair_wf (NewFairQueueScheduler p)" if
  "0 \<le> FP_RealtimeWeight p" "0 \<le> FP_DefaultWeight p" "0 \<le> FP_BackgroundWeight p" "0 \<le> FP_HeavyWeight p"
  using that by (simp add: fair_wf_def NewFairQueueScheduler_def resetRound_def QueueRealtime_def QueueDefault_def QueueBackground_def QueueHeavy_def)

text \<open>
  C33. The weights are kept exactly while all queues have work. With non-negative weights that are not all 0, if all four
  queue classes are available at every selection, then in any number of whole rounds each queue is selected exactly as often as
  its weight, times the number of rounds.
\<close>

theorem rounds_serve_weights:
  assumes "0 \<le> FP_RealtimeWeight p" "0 \<le> FP_DefaultWeight p" "0 \<le> FP_BackgroundWeight p" "0 \<le> FP_HeavyWeight p"
    and "W = FP_RealtimeWeight p + FP_DefaultWeight p + FP_BackgroundWeight p + FP_HeavyWeight p" "0 < W" "int (length as) = int n * W"
    and "\<forall>a \<in> set as. {QueueRealtime, QueueDefault, QueueBackground, QueueHeavy} \<subseteq> set a \<and> [] \<notin> set a"
    and "fst (select_all as (NewFairQueueScheduler p)) = qs"
  shows "int (count_list qs QueueRealtime) = int n * FP_RealtimeWeight p \<and> int (count_list qs QueueDefault) = int n * FP_DefaultWeight p
    \<and> int (count_list qs QueueBackground) = int n * FP_BackgroundWeight p \<and> int (count_list qs QueueHeavy) = int n * FP_HeavyWeight p"
proof -
  let ?s = "NewFairQueueScheduler p"
  have w: "FQ_queueTickets ?s = FQ_queueWeights ?s" "total (FQ_queueWeights ?s) = W"
    "FQ_queueWeights ?s = [(QueueRealtime, FP_RealtimeWeight p), (QueueDefault, FP_DefaultWeight p),
        (QueueBackground, FP_BackgroundWeight p), (QueueHeavy, FP_HeavyWeight p)]"
    using assms(5) by (simp_all add: NewFairQueueScheduler_def resetRound_def)
  obtain s' where s': "select_all as ?s = (qs, s')" using assms(9) by (cases "select_all as ?s") simp
  have "int (count_list qs q) = int n * tickets (FQ_queueWeights ?s) q" for q
    by (rule rounds_of_weights [OF new_fair [OF assms(1-4)] _ _ _ _ s']) (use assms(6-8) w in auto)
  then show ?thesis by (simp add: w(3) tickets_def QueueRealtime_def QueueDefault_def QueueBackground_def QueueHeavy_def)
qed

section \<open>Queues without work\<close>

lemma select_first:
  assumes wf: "fair_wf s" and a: "a \<noteq> []" "[] \<notin> set a" and k: "0 < left s k" "k \<notin> set a" and r: "SelectQueue a s = (q, s')"
  shows "fair_wf s' \<and> left s' k = left s k \<and> (q = hd a \<or> q \<in> set a \<and> 0 < left s q) \<and> q \<in> set a
    \<and> (\<forall>x. left s' x = (if x = q \<and> 0 < left s q then left s x - 1 else left s x))"
proof -
  have nn: "\<forall>(k, n) \<in> set (FQ_queueTickets s). 0 \<le> n" using wf by (auto simp: fair_wf_def)
  have t: "0 < total (FQ_queueTickets s)" using tickets_le_total [OF nn, of k] k(1) by simp
  obtain b bs where ab: "a = b # bs" using a(1) by (cases a) auto
  have b: "0 \<le> left s b" using tickets_nonneg [OF nn] by blast
  then have q: "q = max_queue (tickets (FQ_queueTickets s)) bs (left s b) b"
    and s': "s' = (if q \<noteq> [] \<and> 0 < left s q then s\<lparr>FQ_queueTickets := use_ticket q (FQ_queueTickets s)\<rparr> else s)"
    using r t by (auto simp: SelectQueue_def Let_def ab use_ticket_def)
  have first: "q = b \<or> q \<in> set bs \<and> left s b < left s q" unfolding q by (rule max_queue_first)
  then have qa: "q \<in> set a" "q \<noteq> []" using a(2) by (auto simp: ab)
  show ?thesis
  proof (cases "0 < left s q")
    case True
    have "q \<noteq> k" using qa(1) k(2) by metis
    then show ?thesis using True qa s' fair_wf_use [OF wf True] use_ticket_tickets [OF fair_keys [OF True]] by simp
  next
    case False
    then show ?thesis using qa s' wf first b by (auto simp: ab)
  qed
qed

lemma idle_counts:
  assumes "fair_wf s" "a \<noteq> []" "[] \<notin> set a" "0 < left s k" "k \<notin> set a" "q \<noteq> hd a" "select_all (replicate n a) s = (qs, s')"
  shows "int (count_list qs q) + left s' q \<le> left s q \<and> fair_wf s'"
  using assms
proof (induction n arbitrary: s qs)
  case (Suc n)
  obtain q1 s1 where q1: "SelectQueue a s = (q1, s1)" by fastforce
  then obtain qs1 where r: "select_all (replicate n a) s1 = (qs1, s')" "qs = q1 # qs1" using Suc.prems(7) by (auto split: prod.splits)
  note f = select_first [OF Suc.prems(1-5) q1]
  have s1: "fair_wf s1" "left s1 k = left s k" using f by blast+
  then have "0 < left s1 k" using Suc.prems(4) by (simp only: s1(2))
  note step = Suc.IH [OF s1(1) Suc.prems(2,3) this Suc.prems(5,6) r(1)]
  then have IH: "int (count_list qs1 q) + left s' q \<le> left s1 q" and wf': "fair_wf s'" by blast+
  show ?case
  proof (cases "q1 = q")
    case True
    then have "0 < left s q" using f Suc.prems(6) by auto
    then have "left s1 q = left s q - 1" using f True by simp
    then show ?thesis using IH wf' r(2) True by simp
  next
    case False
    then have "left s1 q = left s q" using f by simp
    then show ?thesis using IH wf' r(2) False by simp
  qed
qed simp

text \<open>
  C30. A queue class without work starves the others. If some class with a positive weight never has work, a round never ends:
  however often the scheduler is asked with the other available queues, a queue that is not the first of them is selected at
  most as often as its weight, in all, and from then on every selection takes the first one.
\<close>

theorem idle_queue_starves_others:
  assumes "0 \<le> FP_RealtimeWeight p" "0 \<le> FP_DefaultWeight p" "0 \<le> FP_BackgroundWeight p" "0 \<le> FP_HeavyWeight p"
    and "a \<noteq> []" "[] \<notin> set a" "idle \<notin> set a" "0 < tickets (FQ_queueWeights (NewFairQueueScheduler p)) idle"
    and "fst (select_all (replicate n a) (NewFairQueueScheduler p)) = qs" "q \<noteq> hd a"
  shows "int (count_list qs q) \<le> tickets (FQ_queueWeights (NewFairQueueScheduler p)) q"
proof -
  let ?s = "NewFairQueueScheduler p"
  have wf: "fair_wf ?s" using new_fair [OF assms(1-4)] .
  have w: "FQ_queueTickets ?s = FQ_queueWeights ?s" by (simp add: NewFairQueueScheduler_def resetRound_def)
  obtain s' where s': "select_all (replicate n a) ?s = (qs, s')" using assms(9) by (cases "select_all (replicate n a) ?s") simp
  have c: "int (count_list qs q) + left s' q \<le> left ?s q \<and> fair_wf s'"
    by (rule idle_counts [OF wf assms(5,6) _ assms(7,10) s']) (simp add: w assms(8))
  moreover have "0 \<le> left s' q" by (rule tickets_nonneg) (use c in \<open>auto simp: fair_wf_def\<close>)
  ultimately show ?thesis by (simp add: w)
qed

section \<open>Concrete rounds\<close>

definition demo_policy :: FairnessPolicy where
  "demo_policy = \<lparr>FP_RealtimeWeight = 2, FP_DefaultWeight = 1, FP_BackgroundWeight = 1, FP_HeavyWeight = 0, FP_StarvationThreshold = 1\<rparr>"

lemmas queue_names = QueueRealtime_def QueueDefault_def QueueBackground_def QueueHeavy_def

theorem rounds_serve_weights_witness:
  "int (count_list (fst (select_all (replicate 8 [QueueRealtime, QueueDefault, QueueBackground, QueueHeavy]) (NewFairQueueScheduler demo_policy))) QueueRealtime) = 4"
proof -
  let ?as = "replicate 8 [QueueRealtime, QueueDefault, QueueBackground, QueueHeavy]"
  obtain qs where qs: "fst (select_all ?as (NewFairQueueScheduler demo_policy)) = qs" by blast
  have "int (count_list qs QueueRealtime) = int 2 * FP_RealtimeWeight demo_policy"
    using rounds_serve_weights [OF _ _ _ _ _ _ _ _ qs, of 4 2] by (simp add: demo_policy_def queue_names)
  then show ?thesis unfolding qs by (simp add: demo_policy_def)
qed

theorem idle_queue_starves_others_witness:
  "int (count_list (fst (select_all (replicate 50 [QueueRealtime, QueueDefault]) (NewFairQueueScheduler demo_policy))) QueueDefault) \<le> 1"
proof -
  obtain qs where qs: "fst (select_all (replicate 50 [QueueRealtime, QueueDefault]) (NewFairQueueScheduler demo_policy)) = qs" by blast
  have "int (count_list qs QueueDefault) \<le> tickets (FQ_queueWeights (NewFairQueueScheduler demo_policy)) QueueDefault"
    by (rule idle_queue_starves_others [OF _ _ _ _ _ _ _ _ qs, of QueueBackground])
      (simp_all add: demo_policy_def queue_names NewFairQueueScheduler_def resetRound_def tickets_def)
  then show ?thesis unfolding qs by (simp add: demo_policy_def queue_names NewFairQueueScheduler_def resetRound_def tickets_def)
qed

end
