(* ===== verification/Redacting_Store.thy ===== *)
theory Redacting_Store
  imports Event_Store Redaction
begin

text \<open>
  The event store that masks what it is given, \<open>internal/runtime/jobstore/redacting_store.go\<close>, over the in-memory store: the API
  process writes through it when redaction is on.  The redaction engine of the model does not panic, so that the recovery from a
  panic has no case here.
\<close>

section \<open>The redacting store\<close>

datatype redacting_error = RedactionFailed | StoreRefused JobStoreError

text \<open>\<open>redactEvent\<close>, on the payload of an event of the given type; \<open>None\<close> is an error.\<close>

definition redactEvent :: "Engine option \<Rightarrow> JobEvent \<Rightarrow> JobEvent option" where
  "redactEvent engine event = (case engine of None \<Rightarrow> Some event
     | Some e \<Rightarrow> if Ev_Payload event = [] then Some event
         else (case RedactData e (Ev_Type event) (Ev_Payload event) of
             (redacted, True) \<Rightarrow> Some (event\<lparr>Ev_Payload := redacted\<rparr>)
           | (_, False) \<Rightarrow> None))"

definition Redacting_Append ::
  "Engine option \<Rightarrow> append_env \<Rightarrow> memoryStore \<Rightarrow> string \<Rightarrow> int \<Rightarrow> JobEvent \<Rightarrow> (redacting_error + int) \<times> memoryStore" where
  "Redacting_Append engine env s jobID expectedVersion event = (case redactEvent engine event of
       None \<Rightarrow> (Inl RedactionFailed, s)
     | Some redacted \<Rightarrow> map_prod (map_sum StoreRefused id) id (Append env s jobID expectedVersion redacted))"

definition Redacting_CreateSnapshot ::
  "Engine option \<Rightarrow> memoryStore \<Rightarrow> string \<Rightarrow> int \<Rightarrow> bytes \<Rightarrow> redacting_error option \<times> memoryStore" where
  "Redacting_CreateSnapshot engine s jobID v snapshot = (case engine of
       None \<Rightarrow> map_prod (map_option StoreRefused) id (CreateSnapshot s jobID v snapshot)
     | Some e \<Rightarrow> if snapshot = [] then map_prod (map_option StoreRefused) id (CreateSnapshot s jobID v snapshot)
         else (case RedactData e ''snapshot'' snapshot of
             (redacted, True) \<Rightarrow> map_prod (map_option StoreRefused) id (CreateSnapshot s jobID v redacted)
           | (_, False) \<Rightarrow> (Some RedactionFailed, s)))"

inductive redacting_step :: "Engine option \<Rightarrow> memoryStore \<Rightarrow> memoryStore \<Rightarrow> bool" for engine where
  rs_append: "redacting_step engine s (snd (Redacting_Append engine env s j v ev))"
| rs_snapshot: "redacting_step engine s (snd (Redacting_CreateSnapshot engine s j v b))"
| rs_other: "store_other s s' \<Longrightarrow> redacting_step engine s s'"

text \<open>A payload that the rules of a policy have gone over: empty, \<open>null\<close>, or an object with every ruled field masked.\<close>

definition payload_redacted :: "RedactionPolicy \<Rightarrow> JobEvent \<Rightarrow> bool" where
  "payload_redacted p ev \<longleftrightarrow> Ev_Payload ev = [] \<or> Ev_Payload ev = ''null''
     \<or> (\<exists>ms. Ev_Payload ev = json_marshal (JObj ms)
          \<and> (\<forall>m \<in> set (rules_for p (Ev_Type ev)). always_masks m \<longrightarrow> masked (path_get (split_on CHR ''.'' (FieldPath m)) ms)))"

lemma redact_obj_masks:
  assumes "m \<in> set (rules_for p t)" "always_masks m"
  shows "masked (path_get (split_on CHR ''.'' (FieldPath m)) (redact_obj e p t obj))"
proof -
  obtain xs ys where "rules_for p t = xs @ m # ys" using assms(1) by (meson split_list)
  then show ?thesis using assms(2) by (simp add: redact_obj_def foldl_applyFieldMask_keeps applyFieldMask_masks)
qed

lemma redactEvent_redacted:
  assumes "redactEvent (Some e) ev = Some ev'" "policy e = Some p"
  shows "payload_redacted p ev' \<and> Ev_Type ev' = Ev_Type ev"
proof (cases "Ev_Payload ev = []")
  case True
  then show ?thesis using assms(1) by (simp add: redactEvent_def payload_redacted_def)
next
  case False
  obtain d ok where r: "RedactData e (Ev_Type ev) (Ev_Payload ev) = (d, ok)" by fastforce
  then have ok: "ok" "ev' = ev\<lparr>Ev_Payload := d\<rparr>" using assms(1) False by (auto simp: redactEvent_def split: bool.splits)
  have "d = ''null'' \<or> (\<exists>ms. d = json_marshal (JObj (redact_obj e p (Ev_Type ev) ms)))"
    using r ok(1) assms(2) False by (auto simp: RedactData_def split: option.splits json.splits)
  then show ?thesis using redact_obj_masks ok(2) by (auto simp: payload_redacted_def simp del: json_marshal.simps)
qed

lemma Redacting_Append_events:
  assumes "policy e = Some p" "\<forall>j. \<forall>ev \<in> set (events_of s j). payload_redacted p ev"
  shows "\<forall>j. \<forall>ev \<in> set (events_of (snd (Redacting_Append (Some e) env s x v ev0)) j). payload_redacted p ev"
proof (cases "redactEvent (Some e) ev0")
  case None
  then show ?thesis using assms(2) by (simp add: Redacting_Append_def)
next
  case (Some ev1)
  obtain r s' where a: "Append env s x v ev1 = (r, s')" by fastforce
  note red = redactEvent_redacted [OF Some assms(1)]
  show ?thesis
  proof (cases r)
    case (Inl err)
    then show ?thesis using Append_err [of env s x v ev1 err s'] a assms(2) Some by (simp add: Redacting_Append_def)
  next
    case (Inr n)
    have l: "append_locked (env_now2 env) (env_uuid env) (env_zone env) s x v ev1 = (Inr n, s')"
      using Append_ok [of env s x v ev1 n s'] a Inr by simp
    obtain en where en: "events_of s' x = events_of s x @ [en]" "\<forall>j. j \<noteq> x \<longrightarrow> events_of s' j = events_of s j"
      "Ev_Type en = Ev_Type ev1" "Ev_Payload en = Ev_Payload ev1"
      by (rule append_locked_ok [OF l]) simp
    have "payload_redacted p ev1" using red by blast
    then have "payload_redacted p en" by (simp only: payload_redacted_def en(3,4))
    have "payload_redacted p ev" if "ev \<in> set (events_of s' j)" for j ev
      using that en(1,2) assms(2) \<open>payload_redacted p en\<close> by (cases "j = x") auto
    then show ?thesis using a Some by (simp add: Redacting_Append_def)
  qed
qed

text \<open>
  C22. Nothing that a rule covers is stored. Whatever is appended through a redacting store with a policy, and whatever else the
  store goes through, every payload in it is empty, \<open>null\<close>, or an object in which each field under a mask, hash or remove
  rule of its event type or of all types is absent or masked; a payload that is no JSON object is refused and changes nothing.
\<close>

theorem redacting_store_masks_everything:
  assumes "(redacting_step (Some e))\<^sup>*\<^sup>* NewMemoryStore s" "policy e = Some p" "ev \<in> set (fst (ListEvents s j))"
  shows "payload_redacted p ev
    \<and> (\<forall>env x v bad. Ev_Payload bad \<noteq> [] \<and> \<not> snd (RedactData e (Ev_Type bad) (Ev_Payload bad))
        \<longrightarrow> Redacting_Append (Some e) env s x v bad = (Inl RedactionFailed, s))"
proof -
  have "\<forall>j. \<forall>ev \<in> set (events_of s j). payload_redacted p ev"
    using assms(1)
  proof (induction rule: rtranclp_induct)
    case base
    then show ?case by (simp add: events_of_def NewMemoryStore_def)
  next
    case (step s s')
    from step.hyps(2) show ?case
    proof cases
      case (rs_append env x v ev0)
      then show ?thesis using Redacting_Append_events [OF assms(2) step.IH] by simp
    next
      case (rs_snapshot x v b)
      have "s' = s" unfolding rs_snapshot by (auto simp: Redacting_CreateSnapshot_def CreateSnapshot_def split: option.splits prod.splits bool.splits)
      then show ?thesis using step.IH by simp
    next
      case rs_other
      then show ?thesis using step.IH store_other_events by simp
    qed
  qed
  moreover have "fst (ListEvents s j) = events_of s j" by (simp add: ListEvents_def Let_def)
  ultimately show ?thesis using assms(3) by (auto simp: Redacting_Append_def redactEvent_def split: prod.splits)
qed

definition ex_secret :: bytes where
  "ex_secret = ''{'' @ json_quote ''token'' @ '':'' @ json_quote ''t'' @ ''}''"

definition ex_engine :: Engine where
  "ex_engine = \<lparr>policy = Some ex_policy, encrypt = (\<lambda>_. None)\<rparr>"

lemma ex_redact: "redactEvent (Some ex_engine) ((ex_event JobQueued)\<lparr>Ev_Payload := ex_secret\<rparr>)
    = Some ((ex_event JobQueued)\<lparr>Ev_Payload := ''{}''\<rparr>)"
proof -
  have "json_parse ex_secret = Some (JObj [(''token'', JStr ''t'')])" "ex_secret \<noteq> []" by code_simp+
  moreover have "json_marshal (JObj (redact_obj ex_engine ex_policy JobQueued [(''token'', JStr ''t'')])) = ''{}''"
    by (simp add: redact_obj_def rules_for_def ex_policy_def applyFieldMask_def mask_value_def obj_get_def obj_del_def map_entries_def)
  ultimately show ?thesis by (simp add: redactEvent_def RedactData_def ex_engine_def ex_event_def del: json_marshal.simps)
qed

text \<open>A token under a remove rule does not reach the store.\<close>

theorem redacting_store_masks_everything_witness:
  "\<exists>s ev. (redacting_step (Some ex_engine))\<^sup>*\<^sup>* NewMemoryStore s \<and> fst (ListEvents s ''j'') = [ev] \<and> Ev_Payload ev = ''{}''
     \<and> payload_redacted ex_policy ev"
proof -
  let ?ev = "(ex_event JobQueued)\<lparr>Ev_Payload := ''{}''\<rparr>"
  let ?in = "(ex_event JobQueued)\<lparr>Ev_Payload := ex_secret\<rparr>"
  obtain s where l: "append_locked 1 ''u'' 0 NewMemoryStore ''j'' 0 ?ev = (Inr 1, s)"
    by (auto simp: append_locked_def Let_def events_of_def NewMemoryStore_def)
  then have a: "Append (ex_env []) NewMemoryStore ''j'' 0 ?ev = (Inr 1, s)"
    by (simp add: Append_def append_fence_def ex_env_def AttemptIDFromContext_def WithAttemptID_def)
  obtain ev where ev: "events_of s ''j'' = [ev]" "Ev_Payload ev = ''{}''"
    by (rule append_locked_ok [OF l]) (simp add: events_of_def NewMemoryStore_def)
  have s: "s = snd (Redacting_Append (Some ex_engine) (ex_env []) NewMemoryStore ''j'' 0 ?in)"
    using a ex_redact by (simp add: Redacting_Append_def)
  have run: "(redacting_step (Some ex_engine))\<^sup>*\<^sup>* NewMemoryStore s" unfolding s by (rule r_into_rtranclp, rule rs_append)
  have list: "fst (ListEvents s ''j'') = [ev]" using ev(1) by (simp add: ListEvents_def)
  have "policy ex_engine = Some ex_policy" by (simp add: ex_engine_def)
  then have "payload_redacted ex_policy ev" using redacting_store_masks_everything [OF run, of ex_policy ev "''j''"] list by simp
  then show ?thesis using run list ev(2) by blast
qed

end
