(* ===== verification/Masked_Replay.thy ===== *)
theory Masked_Replay
  imports Redacting_Store Replay Json_Text Dag_Replay
begin

text \<open>
  The policy that the API process redacts by, \<open>internal/runtime/jobstore/default_redaction_policy.go\<close>, and what replay makes of
  events that were redacted by it.  Replay takes the recorded result of a tool from the field \<open>result\<close> of its event, which the
  policy masks.
\<close>

section \<open>The default policy\<close>

definition DefaultRedactionPolicy :: RedactionPolicy where
  "DefaultRedactionPolicy = \<lparr>EventRules = [
       ''step_started'' \<mapsto> [\<lparr>FieldPath = ''input'', Mode = RedactionModeRedact, Salt = []\<rparr>],
       ''step_finished'' \<mapsto> [\<lparr>FieldPath = ''output'', Mode = RedactionModeRedact, Salt = []\<rparr>],
       ''step_failed'' \<mapsto> [\<lparr>FieldPath = ''error'', Mode = RedactionModeRedact, Salt = []\<rparr>],
       ''decision_snapshot'' \<mapsto> [\<lparr>FieldPath = ''goal'', Mode = RedactionModeRedact, Salt = []\<rparr>,
          \<lparr>FieldPath = ''reasoning'', Mode = RedactionModeHash, Salt = []\<rparr>],
       ''reasoning_snapshot'' \<mapsto> [\<lparr>FieldPath = ''reasoning'', Mode = RedactionModeHash, Salt = []\<rparr>],
       ''tool_invocation_finished'' \<mapsto> [\<lparr>FieldPath = ''result'', Mode = RedactionModeRedact, Salt = []\<rparr>]],
     GlobalRules = [\<lparr>FieldPath = ''prompt'', Mode = RedactionModeRedact, Salt = []\<rparr>,
          \<lparr>FieldPath = ''response'', Mode = RedactionModeRedact, Salt = []\<rparr>]\<rparr>"

lemma marshal_object: "json_marshal (JObj ms) = fields_text (map_entries (map (\<lambda>(k, v). (k, json_marshal v)) ms))"
  by (simp add: fields_text_def)

lemma map_of_entries: "map_of (map_entries fs) k = map_of (rev fs) k"
proof -
  have "map_of (map_entries fs) k = (if k \<in> fst ` set fs then Some (the (map_of (rev fs) k)) else None)"
    by (simp add: map_entries_def map_of_map_restrict [unfolded comp_def] restrict_map_def)
  moreover have "k \<notin> fst ` set fs \<Longrightarrow> map_of (rev fs) k = None" by (simp add: map_of_eq_None_iff)
  moreover have "k \<in> fst ` set fs \<Longrightarrow> map_of (rev fs) k \<noteq> None" by (simp add: map_of_eq_None_iff)
  ultimately show ?thesis by auto
qed

section \<open>Reading a redacted payload\<close>

text \<open>Decoded members whose keys and texts a struct decoder reads back unchanged.\<close>

definition plain_members :: "(string \<times> json) list \<Rightarrow> bool" where
  "plain_members ms \<longleftrightarrow> (\<forall>(k, v) \<in> set ms. lower_key k \<and> json_piece 9000 (json_marshal v))"

lemma plain_put: "plain_members ms \<Longrightarrow> lower_key k \<Longrightarrow> plain_members (obj_put k (JStr t) ms)"
  by (auto simp: plain_members_def obj_put_def intro: json_piece.Quoted)

lemma decode_marshalled:
  assumes "plain_members ms"
  obtains fs where "decode_object (json_marshal (JObj ms)) = Some fs"
    "\<And>name. lower_key name \<Longrightarrow> field_raws name fs = (case obj_get ms name of None \<Rightarrow> [] | Some v \<Rightarrow> [json_marshal v])"
proof -
  let ?fs = "map_entries (map (\<lambda>(k, v). (k, json_marshal v)) ms)"
  have m: "map_of ?fs k = map_option json_marshal (obj_get ms k)" for k
    by (simp add: map_of_entries obj_get_def rev_map map_of_map)
  have d: "distinct (map fst ?fs)" by (simp add: map_entries_def comp_def)
  have in_fs: "(k, t) \<in> set ?fs \<Longrightarrow> \<exists>v. (k, v) \<in> set ms \<and> t = json_marshal v" for k t
    using map_of_is_SomeI [OF d, of k t] m [of k] map_of_SomeD [of "rev ms" k] by (auto simp: obj_get_def)
  then have p: "\<forall>(k, t) \<in> set ?fs. lower_key k \<and> json_piece 9000 t" using assms by (fastforce simp: plain_members_def)
  have "field_raws name ?fs = (case obj_get ms name of None \<Rightarrow> [] | Some v \<Rightarrow> [json_marshal v])" if "lower_key name" for name
  proof -
    have "field_raws name ?fs = map snd (filter (\<lambda>(k, _). k = name) ?fs)" using p that by (intro field_raws_lower) auto
    moreover have "map snd (filter (\<lambda>(k, _). k = name) fs) = (case map_of fs name of None \<Rightarrow> [] | Some v \<Rightarrow> [v])"
      if "distinct (map fst fs)" for fs :: "(string \<times> bytes) list"
      using that
    proof (induction fs)
      case (Cons f fs)
      have "filter (\<lambda>(k, _). k = fst f) fs = []" using Cons.prems by (auto simp: filter_empty_conv image_iff)
      then show ?case using Cons by (cases f) auto
    qed simp
    ultimately show ?thesis using d m by (cases "obj_get ms name") simp_all
  qed
  moreover have "decode_object (json_marshal (JObj ms)) = Some ?fs"
    unfolding marshal_object by (rule decode_lower [OF p]) simp
  ultimately show thesis using that by blast
qed


text \<open>A rule of the default policy for one top-level field.\<close>

definition redact_field :: "string \<Rightarrow> (string \<times> json) list \<Rightarrow> (string \<times> json) list" where
  "redact_field k ms = (if obj_get ms k = None then ms else obj_put k (JStr ''***REDACTED***'') ms)"

lemma redact_field_mask:
  "split_on CHR ''.'' k = [k] \<Longrightarrow> applyFieldMask enc ms \<lparr>FieldPath = k, Mode = RedactionModeRedact, Salt = []\<rparr> = redact_field k ms"
  by (simp add: applyFieldMask_def mask_value_def redact_field_def split: option.splits)

lemma redact_field_get:
  "obj_get (redact_field k ms) k' = (if k' = k \<and> obj_get ms k \<noteq> None then Some (JStr ''***REDACTED***'') else obj_get ms k')"
  by (simp add: redact_field_def)

lemma redact_field_plain: "plain_members ms \<Longrightarrow> lower_key k \<Longrightarrow> plain_members (redact_field k ms)"
  by (simp add: redact_field_def plain_put)

definition default_engine :: Engine where
  "default_engine = \<lparr>policy = Some DefaultRedactionPolicy, encrypt = (\<lambda>_. None)\<rparr>"

lemma default_rules:
  "redact_obj e DefaultRedactionPolicy ToolInvocationFinished ms = redact_field ''response'' (redact_field ''prompt'' (redact_field ''result'' ms))"
  "redact_obj e DefaultRedactionPolicy HTTPRecorded ms = redact_field ''response'' (redact_field ''prompt'' ms)"
  by (simp_all add: redact_obj_def rules_for_def DefaultRedactionPolicy_def redact_field_mask)

lemma lower_field_names: "lower_key ''result''" "lower_key ''prompt''" "lower_key ''response''" "lower_key ''idempotency_key''"
  "lower_key ''outcome''" "lower_key ''effect_id''"
  by (simp_all add: lower_key_def)


lemma read_field:
  assumes "\<And>name. lower_key name \<Longrightarrow> field_raws name fs = (case obj_get ms name of None \<Rightarrow> [] | Some v \<Rightarrow> [json_marshal v])"
    and "lower_key name" "obj_get ms name = Some (JStr t)"
  shows "string_field name fs = Some (clean t)" "raw_field name fs = json_quote t"
  using assms(1) [OF assms(2)] assms(3) string_field_quote [of name fs t] raw_field_one(1) [of name fs "json_quote t"] by simp_all

lemma redacted_event:
  assumes "json_parse (Ev_Payload ev) = Some (JObj ms)" "Ev_Type ev = t"
  shows "redactEvent (Some default_engine) ev
    = Some (ev\<lparr>Ev_Payload := json_marshal (JObj (redact_obj default_engine DefaultRedactionPolicy t ms))\<rparr>)"
proof -
  have "Ev_Payload ev \<noteq> []" using assms(1) by (auto simp: json_parse_def)
  then show ?thesis using assms by (simp add: redactEvent_def RedactData_def default_engine_def del: json_marshal.simps)
qed

text \<open>
  A tool node whose key has a recorded result in the context, over a ledger and without a verifier of resources: it returns
  what was recorded and does not call the tool.  A recorded result that is no object leaves nothing but the evidence.
\<close>

abbreviation evidence_only :: "string \<Rightarrow> goval" where
  "evidence_only key \<equiv> GMap [(''_evidence'', GMap [(''tool_invocation_ids'', GList [GStr key])])]"

lemma recorded_text_is_injected:
  assumes "ta_InvocationLedger ad = Some l" "ta_ResourceVerifier ad = None" "nc_jobID c \<noteq> []"
    and "key = IdempotencyKey (nc_jobID c) (step_of c taskID) toolName cfg" "key \<noteq> []"
    and "case nc_pending c of Some ks \<Rightarrow> key \<notin> set ks | None \<Rightarrow> True"
    and "nc_completed c = Some m" "m key = Some b" "b \<noteq> []" "json_parse b = Some (JStr t)"
  shows "\<exists>st'. runNode ad env c taskID toolName cfg st = (None, st') \<and> nd_runs st' = nd_runs st
    \<and> nd_results st' taskID = Some (evidence_only key)"
proof -
  have acq: "Acquire (ls_store l) (ls_eventSink l) u (nd_inv st) \<lparr>aq_jobID = x, aq_stepID = i, aq_toolName = n, aq_argsHash = h,
      aq_idempotencyKey = k, aq_replayResult = b\<rparr> = ((InvocationDecisionReturnRecordedResult,
      Some (ToolInvocationRecord0\<lparr>TR_JobID := x, TR_StepID := i, TR_ToolName := n, TR_ArgsHash := h, TR_IdempotencyKey := k, TR_Result := b,
        TR_Committed := True, TR_Status := ToolInvocationStatusSuccess\<rparr>), None), nd_inv st)" for u x i n h k
    using assms(9) by (simp add: Acquire_def acquire_lookup_def)
  have ledger: "run_ledger ad l env c taskID toolName cfg key h cs st = (None, inject_result taskID key b st)" for h cs
    unfolding run_ledger_def Let_def assms(7) option.case assms(8) acq prod.case runConfirmation_def assms(2) by simp
  have "runNode ad env c taskID toolName cfg st = (None, inject_result taskID key b st)"
    unfolding runNode_def Let_def assms(4) [symmetric] assms(1) option.case ledger
    using assms(3,6) by (cases "nc_pending c") simp_all
  then show ?thesis using assms(5,10) by (simp add: inject_result_def attachToolEvidence_def)
qed

lemma mask_parses: "json_parse (json_quote ''***REDACTED***'') = Some (JStr ''***REDACTED***'')"
  by code_simp

text \<open>
  C31. Redaction by the default policy replaces recorded tool results in replay.  When the end of a successful invocation with a
  result is appended through a store that redacts by the default policy, and its payload is an object as the program writes it (plain
  lower-case keys, members nested at most 9000 deep, a key of valid UTF-8), replay of the stored event records for the invocation's key the
  text of the mask as its result, whatever the result was.  A tool node with that key which runs in the
  replayed context, over a ledger and without a verifier of resources, does not call the
  tool, and succeeds with a result that holds nothing of the tool's answer.
\<close>

theorem redaction_replays_the_mask:
  assumes "json_parse (Ev_Payload ev) = Some (JObj ms)" "plain_members ms" "Ev_Type ev = ToolInvocationFinished"
    and "obj_get ms ''idempotency_key'' = Some (JStr key)" "clean key = key" "key \<noteq> []"
    and "obj_get ms ''outcome'' = Some (JStr ''success'')" "obj_get ms ''result'' = Some r"
    and "ta_InvocationLedger ad = Some l" "ta_ResourceVerifier ad = None" "JR_ID j \<noteq> []"
    and "key = IdempotencyKey (JR_ID j) (if stepID = [] then taskID else stepID) toolName cfg"
  shows "\<exists>ev' rc' st'. redactEvent (Some default_engine) ev = Some ev' \<and> replay_event ev' rc = Some rc'
    \<and> map_of (RC_CompletedToolInvocations rc') key = Some (json_quote ''***REDACTED***'')
    \<and> runNode ad env (node_context (step_context R j stepID (Some rc') approvals parallel)) taskID toolName cfg st = (None, st')
    \<and> nd_runs st' = nd_runs st \<and> nd_results st' taskID = Some (evidence_only key)"
proof -
  let ?ms = "redact_field ''response'' (redact_field ''prompt'' (redact_field ''result'' ms))"
  have "plain_members ?ms" using assms(2) by (intro redact_field_plain lower_field_names)
  then obtain fs where fs: "decode_object (json_marshal (JObj ?ms)) = Some fs"
    "\<And>name. lower_key name \<Longrightarrow> field_raws name fs = (case obj_get ?ms name of None \<Rightarrow> [] | Some v \<Rightarrow> [json_marshal v])"
    by (rule decode_marshalled) (rule that)
  have "string_field ''idempotency_key'' fs = Some key" "string_field ''outcome'' fs = Some (clean ''success'')"
    "raw_field ''result'' fs = json_quote ''***REDACTED***''"
    using read_field [OF fs(2)] lower_field_names assms(4,5,7,8) by (simp_all add: redact_field_get)
  moreover have "clean ''success'' = ''success''" by (rule clean_ascii) simp
  ultimately have f: "string_field ''idempotency_key'' fs = Some key" "string_field ''outcome'' fs = Some ''success''"
    "raw_field ''result'' fs = json_quote ''***REDACTED***''" by simp_all
  define t where "t = json_marshal (JObj ?ms)"
  define rc' where "rc' = on_tool_finished t rc"
  have c: "map_of (RC_CompletedToolInvocations rc') key = Some (json_quote ''***REDACTED***'')"
    and n: "key \<notin> set (RC_PendingToolInvocations rc')"
    using fs(1) f assms(6) unfolding rc'_def t_def by (simp_all add: on_tool_finished_def quote_head Let_def del: json_marshal.simps)
  define nc where "nc = node_context (step_context R j stepID (Some rc') approvals parallel)"
  have "RC_CompletedToolInvocations rc' \<noteq> []" using c by auto
  then have nc: "nc_jobID nc = JR_ID j" "nc_completed nc = Some (map_of (RC_CompletedToolInvocations rc'))"
    "step_of nc taskID = (if stepID = [] then taskID else stepID)" "case nc_pending nc of Some ks \<Rightarrow> key \<notin> set ks | None \<Rightarrow> True"
    using n by (simp_all add: nc_def node_context_def step_context_def step_of_def nonempty_def)
  have k: "nc_jobID nc \<noteq> []" "key = IdempotencyKey (nc_jobID nc) (step_of nc taskID) toolName cfg" using assms(11,12) nc(1,3) by simp_all
  obtain st' where st': "runNode ad env nc taskID toolName cfg st = (None, st')" "nd_runs st' = nd_runs st"
    "nd_results st' taskID = Some (evidence_only key)"
    using recorded_text_is_injected [OF assms(9,10) k assms(6) nc(4,2) c quote_head(3) mask_parses] by blast
  have red: "redactEvent (Some default_engine) ev = Some (ev\<lparr>Ev_Payload := t\<rparr>)"
    using redacted_event [OF assms(1,3)] unfolding t_def default_rules(1) .
  have rep: "replay_event (ev\<lparr>Ev_Payload := t\<rparr>) rc = Some rc'"
    using assms(3) by (simp add: replay_event_def Let_def rc'_def)
  show ?thesis
    by (rule exI [of _ "ev\<lparr>Ev_Payload := t\<rparr>"], rule exI [of _ rc'], rule exI [of _ st'])
      (use red rep c st' in \<open>simp add: nc_def\<close>)
qed

abbreviation mask_key :: string where
  "mask_key \<equiv> ''fce5fce837572dc067afce4ff9d09f9c58abbef05f4f4c5e0035f74d5428cde2''"

definition ex_finished :: "(string \<times> json) list" where
  "ex_finished = [(''idempotency_key'', JStr mask_key), (''outcome'', JStr ''success''), (''result'', JStr ''charge-42'')]"

definition ex_finished_event :: JobEvent where
  "ex_finished_event = (ex_event ToolInvocationFinished)\<lparr>Ev_Payload := json_marshal (JObj ex_finished)\<rparr>"

lemma mask_key_of: "mask_key = IdempotencyKey ''j'' ''t'' ''pay'' []"
proof -
  have "sha256_hex (''j'' @ nul @ ''t'' @ nul @ ''pay'' @ nul @ []) = mask_key"
    unfolding append_Cons append_Nil
    apply (rule sha256_hex_eval)
        apply (simp add: sha_pad_rules)
       apply simp
      apply simp
     apply (simp only: int_blocks_rules)
    apply code_simp
    done
  then show ?thesis by (simp add: IdempotencyKey_def args_text_def)
qed

theorem redaction_replays_the_mask_witness:
  "\<exists>ev' rc' st'. redactEvent (Some default_engine) ex_finished_event = Some ev' \<and> replay_event ev' ReplayContext0 = Some rc'
    \<and> map_of (RC_CompletedToolInvocations rc') mask_key = Some (json_quote ''***REDACTED***'')
    \<and> runNode (ex_adapter ex_tool) ex_nenv (node_context (step_context (demo_runner None None 0) (demo_job []) [] (Some rc') True False))
        ''t'' ''pay'' [] ex_nstate = (None, st')
    \<and> nd_runs st' = nd_runs ex_nstate \<and> nd_results st' ''t'' = Some (evidence_only mask_key)"
proof (rule redaction_replays_the_mask)
  show "json_parse (Ev_Payload ex_finished_event) = Some (JObj ex_finished)" by code_simp
  show "plain_members ex_finished" by (auto simp: plain_members_def ex_finished_def lower_key_def intro: json_piece.Quoted)
  show "Ev_Type ex_finished_event = ToolInvocationFinished" by (simp add: ex_finished_event_def ex_event_def)
  show "clean mask_key = mask_key" by (rule clean_ascii) simp
  show "mask_key = IdempotencyKey (JR_ID (demo_job [])) (if [] = [] then ''t'' else []) ''pay'' []" using mask_key_of by simp
qed (simp_all add: ex_finished_def obj_get_def ex_adapter_def)

end
