(* ===== verification/Sharded_Store.thy ===== *)
theory Sharded_Store
  imports Event_Store "HOL-Library.Word"
begin

text \<open>
  The sharded event store, \<open>internal/runtime/jobstore/sharded_store.go\<close>, over in-memory stores: a job is routed to one of the
  shards by the FNV-1a hash of its id, and a claim asks the shards one after the other.  Whatever the number of shards, the store
  answers as one in-memory store does.
\<close>

unbundle bit_operations_syntax

section \<open>Routing\<close>

text \<open>\<open>fnv.New32a\<close> of the standard library.\<close>

definition fnv_step :: "32 word \<Rightarrow> char \<Rightarrow> 32 word" where
  "fnv_step h c = (h XOR of_char c) * 16777619"

definition fnv32a :: "string \<Rightarrow> 32 word" where
  "fnv32a s = foldl fnv_step 2166136261 s"

text \<open>The index of \<open>getShard\<close>; \<open>int\<close> has 64 bits, so that the sum is not negative.\<close>

definition shard_index :: "nat \<Rightarrow> string \<Rightarrow> nat" where
  "shard_index count jobID = unat (fnv32a jobID) mod count"

text \<open>A call passed on to the job's shard.  Without shards the remainder is a division by zero, a run-time panic: \<open>None\<close>.\<close>

definition routed :: "memoryStore list \<Rightarrow> string \<Rightarrow> (memoryStore \<Rightarrow> 'a \<times> memoryStore) \<Rightarrow> ('a \<times> memoryStore list) option" where
  "routed shards jobID f = (if shards = [] then None
     else let i = shard_index (length shards) jobID; (r, s) = f (shards ! i) in Some (r, shards[i := s]))"

definition getShard :: "memoryStore list \<Rightarrow> string \<Rightarrow> memoryStore option" where
  "getShard shards jobID = (if shards = [] then None else Some (shards ! shard_index (length shards) jobID))"

section \<open>Operations\<close>

definition Sharded_ListEvents :: "memoryStore list \<Rightarrow> string \<Rightarrow> (JobEvent list \<times> int) option" where
  "Sharded_ListEvents shards jobID = map_option (\<lambda>s. ListEvents s jobID) (getShard shards jobID)"

definition Sharded_Append ::
  "append_env \<Rightarrow> memoryStore list \<Rightarrow> string \<Rightarrow> int \<Rightarrow> JobEvent \<Rightarrow> ((JobStoreError + int) \<times> memoryStore list) option" where
  "Sharded_Append env shards jobID expectedVersion event = routed shards jobID (\<lambda>s. Append env s jobID expectedVersion event)"

definition Sharded_ClaimJob ::
  "gotime \<Rightarrow> string \<Rightarrow> memoryStore list \<Rightarrow> string \<Rightarrow> string \<Rightarrow> ((JobStoreError + int \<times> string) \<times> memoryStore list) option" where
  "Sharded_ClaimJob now uuid shards workerID jobID = routed shards jobID (\<lambda>s. ClaimJob now uuid s workerID jobID)"

definition Sharded_Heartbeat ::
  "gotime \<Rightarrow> gotime \<Rightarrow> memoryStore list \<Rightarrow> string \<Rightarrow> string \<Rightarrow> (JobStoreError option \<times> memoryStore list) option" where
  "Sharded_Heartbeat now now' shards workerID jobID = routed shards jobID (\<lambda>s. Heartbeat now now' s workerID jobID)"

definition Sharded_Watch :: "memoryStore list \<Rightarrow> string \<Rightarrow> (nat \<times> memoryStore list) option" where
  "Sharded_Watch shards jobID = routed shards jobID (\<lambda>s. Watch s jobID)"

definition Sharded_GetCurrentAttemptID :: "gotime \<Rightarrow> memoryStore list \<Rightarrow> string \<Rightarrow> string option" where
  "Sharded_GetCurrentAttemptID now shards jobID = map_option (\<lambda>s. GetCurrentAttemptID now s jobID) (getShard shards jobID)"

definition Sharded_CreateSnapshot ::
  "memoryStore list \<Rightarrow> string \<Rightarrow> int \<Rightarrow> bytes \<Rightarrow> (JobStoreError option \<times> memoryStore list) option" where
  "Sharded_CreateSnapshot shards jobID v snapshot = routed shards jobID (\<lambda>s. CreateSnapshot s jobID v snapshot)"

definition Sharded_GetLatestSnapshot :: "memoryStore list \<Rightarrow> string \<Rightarrow> bytes option option" where
  "Sharded_GetLatestSnapshot shards jobID = map_option (\<lambda>s. GetLatestSnapshot s jobID) (getShard shards jobID)"

definition Sharded_DeleteSnapshotsBefore :: "memoryStore list \<Rightarrow> string \<Rightarrow> int \<Rightarrow> (JobStoreError option \<times> memoryStore list) option" where
  "Sharded_DeleteSnapshotsBefore shards jobID v = routed shards jobID (\<lambda>s. DeleteSnapshotsBefore s jobID v)"

text \<open>What each shard brings to the two operations that go over all of them: the order of its map, its clock reading, its uuid.\<close>

type_synonym shard_input = "string list \<times> gotime \<times> string"

text \<open>
  \<open>Claim\<close> takes the shards in turn and stops at the first that has a job or fails otherwise; the memory store has no other failure.
\<close>

fun Sharded_Claim ::
  "shard_input list \<Rightarrow> memoryStore list \<Rightarrow> string \<Rightarrow> (JobStoreError + string \<times> int \<times> string) \<times> memoryStore list" where
  "Sharded_Claim ((order, now, uuid) # ins) (s # shards) workerID = (case Claim order now uuid s workerID of
       (Inl e, s') \<Rightarrow> if e = ErrNoJob then map_prod id ((#) s') (Sharded_Claim ins shards workerID) else (Inl e, s' # shards)
     | (Inr job, s') \<Rightarrow> (Inr job, s' # shards))"
| "Sharded_Claim _ shards workerID = (Inl ErrNoJob, shards)"

definition Sharded_ListJobIDsWithExpiredClaim :: "shard_input list \<Rightarrow> memoryStore list \<Rightarrow> string list" where
  "Sharded_ListJobIDsWithExpiredClaim ins shards =
     concat (map2 (\<lambda>(order, now, _) s. ListJobIDsWithExpiredClaim order now s) ins shards)"

definition ShardCount :: "memoryStore list \<Rightarrow> int" where
  "ShardCount shards = int (length shards)"


section \<open>A call about one job\<close>

text \<open>
  What the calls routed by job id have in common: they read and write the events and the lease of their job only.  For such a call
  a shard that agrees with a store on the job gives the store's answer.
\<close>

definition same_job :: "string \<Rightarrow> memoryStore \<Rightarrow> memoryStore \<Rightarrow> bool" where
  "same_job j s t \<longleftrightarrow> es_byJob s j = es_byJob t j \<and> es_claims s j = es_claims t j"

text \<open>A sharded store stands for a store when each job's shard agrees with it on the job and no other shard knows the job.\<close>

definition stands_for :: "memoryStore list \<Rightarrow> memoryStore \<Rightarrow> bool" where
  "stands_for ss s \<longleftrightarrow> ss \<noteq> [] \<and> (\<forall>j. same_job j (ss ! shard_index (length ss) j) s)
     \<and> (\<forall>i < length ss. \<forall>j \<in> dom (es_byJob (ss ! i)). shard_index (length ss) j = i)"

lemma shard_index_less [simp]: "ss \<noteq> [] \<Longrightarrow> shard_index (length ss) j < length ss"
  by (simp add: shard_index_def)

lemma same_job_events: "same_job j s t \<Longrightarrow> events_of s j = events_of t j"
  by (simp add: same_job_def events_of_def)

locale job_call =
  fixes j :: string and call :: "memoryStore \<Rightarrow> 'a \<times> memoryStore"
  assumes same: "same_job j s t \<Longrightarrow> fst (call s) = fst (call t) \<and> same_job j (snd (call s)) (snd (call t))"
    and frame: "j' \<noteq> j \<Longrightarrow> same_job j' (snd (call s)) s"
begin

lemma routed_call:
  assumes "stands_for ss s" "call s = (r, s')"
  shows "\<exists>ss'. routed ss j call = Some (r, ss') \<and> length ss' = length ss \<and> stands_for ss' s'"
proof -
  let ?i = "shard_index (length ss) j"
  obtain r1 s1 where c: "call (ss ! ?i) = (r1, s1)" by fastforce
  have ne: "ss \<noteq> []" and i: "?i < length ss" and at: "same_job j (ss ! ?i) s" using assms(1) by (auto simp: stands_for_def)
  have r: "r1 = r" and s1: "same_job j s1 s'" using same [OF at] c assms(2) by auto
  have others: "same_job j' s1 (ss ! ?i)" "same_job j' s' s" if "j' \<noteq> j" for j'
    using frame [OF that, of "ss ! ?i"] frame [OF that, of s] c assms(2) by simp_all
  let ?ss = "ss[?i := s1]"
  have "same_job j' (?ss ! shard_index (length ss) j') s'" for j'
  proof (cases "j' = j")
    case True
    then show ?thesis using s1 i by simp
  next
    case False
    have at': "same_job j' (ss ! shard_index (length ss) j') s" using assms(1) by (simp add: stands_for_def)
    show ?thesis
    proof (cases "shard_index (length ss) j' = ?i")
      case True
      then show ?thesis using at' others [OF False] i by (simp add: same_job_def)
    next
      case False
      then show ?thesis using at' others [OF \<open>j' \<noteq> j\<close>] by (simp add: same_job_def)
    qed
  qed
  moreover have "shard_index (length ss) j' = k" if "k < length ss" "j' \<in> dom (es_byJob (?ss ! k))" for k j'
  proof (cases "k = ?i \<and> j' \<noteq> j")
    case True
    then have "j' \<in> dom (es_byJob (ss ! k))" using that others(1) [of j'] i by (auto simp: same_job_def)
    then show ?thesis using that(1) assms(1) by (auto simp: stands_for_def)
  next
    case False
    then show ?thesis using that i assms(1) by (cases "k = ?i") (auto simp: stands_for_def)
  qed
  ultimately have "stands_for ?ss s'" using ne unfolding stands_for_def length_list_update list_update_nonempty by blast
  then show ?thesis using c r ne by (auto simp: routed_def Let_def)
qed

end

lemma notify_same [simp]: "same_job j (notifyWatchersLocked s x e) t = same_job j s t" "same_job j s (notifyWatchersLocked t x e) = same_job j s t"
  by (simp_all add: same_job_def)

lemma append_locked_shape:
  "\<exists>E. \<forall>s. append_locked now uuid off s j v ev = (if int (length (events_of s j)) \<noteq> v then (Inl ErrVersionMismatch, s)
     else (Inr (int (Suc (length (events_of s j)))), notifyWatchersLocked
        (s\<lparr>es_byJob := (es_byJob s)(j \<mapsto> events_of s j @ [E (events_of s j)])\<rparr>) j (E (events_of s j))))"
  unfolding append_locked_def Let_def length_append list.size add_Suc_right plus_nat.add_0 add_0_right One_nat_def
  by (rule exI, rule allI, rule refl)

lemma append_fence_same: "same_job j s t \<Longrightarrow> append_fence now ctx s j = append_fence now ctx t j"
  by (simp add: append_fence_def same_job_def Let_def)

interpretation append_call: job_call j "\<lambda>s. Append env s j v ev" for env j v ev
proof -
  obtain E where E: "append_locked (env_now2 env) (env_uuid env) (env_zone env) s j v ev = (if int (length (events_of s j)) \<noteq> v
       then (Inl ErrVersionMismatch, s)
     else (Inr (int (Suc (length (events_of s j)))), notifyWatchersLocked
        (s\<lparr>es_byJob := (es_byJob s)(j \<mapsto> events_of s j @ [E (events_of s j)])\<rparr>) j (E (events_of s j))))" for s
    using append_locked_shape by blast
  show "job_call j (\<lambda>s. Append env s j v ev)"
  proof
    fix s t assume st: "same_job j s t"
    then show "fst (Append env s j v ev) = fst (Append env t j v ev) \<and> same_job j (snd (Append env s j v ev)) (snd (Append env t j v ev))"
      using same_job_events [OF st] append_fence_same [OF st]
      by (cases "append_fence (env_now1 env) (env_ctx env) t j") (simp_all add: Append_def E, simp add: same_job_def)
  next
    fix j' s assume "j' \<noteq> j"
    then show "same_job j' (snd (Append env s j v ev)) s"
      by (cases "append_fence (env_now1 env) (env_ctx env) s j") (simp_all add: Append_def E, simp_all add: same_job_def)
  qed
qed

interpretation claim_call: job_call j "\<lambda>s. ClaimJob now uuid s w j" for now uuid w j
proof
  fix s t assume st: "same_job j s t"
  have c: "es_claims s j = es_claims t j" using st by (simp add: same_job_def)
  show "fst (ClaimJob now uuid s w j) = fst (ClaimJob now uuid t w j) \<and> same_job j (snd (ClaimJob now uuid s w j)) (snd (ClaimJob now uuid t w j))"
    unfolding ClaimJob_def Let_def same_job_events [OF st] c using st
    by (cases "es_claims t j") (simp_all add: same_job_def)
next
  fix j' s assume "j' \<noteq> j"
  then show "same_job j' (snd (ClaimJob now uuid s w j)) s"
    unfolding ClaimJob_def Let_def by (cases "es_claims s j") (simp_all add: same_job_def)
qed

interpretation beat_call: job_call j "\<lambda>s. Heartbeat now now' s w j" for now now' w j
  by unfold_locales (auto simp: Heartbeat_def same_job_def split: option.split)


section \<open>The sharded store is one store\<close>

datatype store_op =
    OpAppend append_env string int JobEvent
  | OpListEvents string
  | OpClaimJob gotime string string string
  | OpHeartbeat gotime gotime string string
  | OpAttemptID gotime string
  | OpClaim "shard_input list" string

datatype store_result =
    RVersion "JobStoreError + int"
  | REvents "JobEvent list \<times> int"
  | RClaimed "JobStoreError + int \<times> string"
  | RBeat "JobStoreError option"
  | RAttemptID string
  | RJob "JobStoreError + string \<times> int \<times> string"

text \<open>The order in which a shard's claim goes over its map is one of the orders of its jobs.\<close>

inductive sharded_step :: "memoryStore list \<Rightarrow> store_op \<Rightarrow> store_result \<Rightarrow> memoryStore list \<Rightarrow> bool" where
  sh_append: "Sharded_Append env ss j v ev = Some (r, ss') \<Longrightarrow> sharded_step ss (OpAppend env j v ev) (RVersion r) ss'"
| sh_list: "Sharded_ListEvents ss j = Some r \<Longrightarrow> sharded_step ss (OpListEvents j) (REvents r) ss"
| sh_claim_job: "Sharded_ClaimJob now uuid ss w j = Some (r, ss') \<Longrightarrow> sharded_step ss (OpClaimJob now uuid w j) (RClaimed r) ss'"
| sh_heartbeat: "Sharded_Heartbeat now now' ss w j = Some (r, ss') \<Longrightarrow> sharded_step ss (OpHeartbeat now now' w j) (RBeat r) ss'"
| sh_attempt: "Sharded_GetCurrentAttemptID now ss j = Some r \<Longrightarrow> sharded_step ss (OpAttemptID now j) (RAttemptID r) ss"
| sh_claim: "length ins = length ss \<Longrightarrow> \<forall>i < length ss. set (fst (ins ! i)) = dom (es_byJob (ss ! i)) \<Longrightarrow>
    Sharded_Claim ins ss w = (r, ss') \<Longrightarrow> sharded_step ss (OpClaim ins w) (RJob r) ss'"

text \<open>
  One store answers the same calls.  To a claim that the shards answered at several readings of the clock it answers a job that it
  hands out at the reading of one shard, going over the jobs of that shard, or no job when no shard's jobs hold one at its reading.
\<close>

inductive one_step :: "memoryStore \<Rightarrow> store_op \<Rightarrow> store_result \<Rightarrow> memoryStore \<Rightarrow> bool" where
  one_append: "Append env s j v ev = (r, s') \<Longrightarrow> one_step s (OpAppend env j v ev) (RVersion r) s'"
| one_list: "one_step s (OpListEvents j) (REvents (ListEvents s j)) s"
| one_claim_job: "ClaimJob now uuid s w j = (r, s') \<Longrightarrow> one_step s (OpClaimJob now uuid w j) (RClaimed r) s'"
| one_heartbeat: "Heartbeat now now' s w j = (r, s') \<Longrightarrow> one_step s (OpHeartbeat now now' w j) (RBeat r) s'"
| one_attempt: "one_step s (OpAttemptID now j) (RAttemptID (GetCurrentAttemptID now s j)) s"
| one_claim: "(order, now, uuid) \<in> set ins \<Longrightarrow> Claim order now uuid s w = (Inr job, s') \<Longrightarrow> one_step s (OpClaim ins w) (RJob (Inr job)) s'"
| one_no_job: "\<forall>(order, now, uuid) \<in> set ins. Claim order now uuid s w = (Inl ErrNoJob, s) \<Longrightarrow> (\<Union>(order, _) \<in> set ins. set order) = dom (es_byJob s)
    \<Longrightarrow> one_step s (OpClaim ins w) (RJob (Inl ErrNoJob)) s"

inductive run_of :: "('s \<Rightarrow> store_op \<Rightarrow> store_result \<Rightarrow> 's \<Rightarrow> bool) \<Rightarrow> 's \<Rightarrow> (store_op \<times> store_result) list \<Rightarrow> 's \<Rightarrow> bool" for step where
  run_empty: "run_of step s [] s"
| run_more: "run_of step s tr s1 \<Longrightarrow> step s1 op r s2 \<Longrightarrow> run_of step s (tr @ [(op, r)]) s2"

lemma claim_loop_same:
  "\<forall>j \<in> set order. same_job j s t \<Longrightarrow> claim_loop order s now = claim_loop order t now"
proof (induction order)
  case (Cons j js)
  have "events_of s j = events_of t j" "es_claims s j = es_claims t j" "claim_loop js s now = claim_loop js t now"
    using Cons same_job_events [of j s t] by (simp_all add: same_job_def)
  then show ?case by (simp only: claim_loop.simps)
qed simp

lemma claim_loop_in: "claim_loop order s now = Some j \<Longrightarrow> j \<in> set order"
  by (induction order) (auto simp: Let_def split: if_splits option.splits)

text \<open>A claim at the first shards that find nothing, then at one that does.\<close>

lemma Sharded_Claim_cases:
  assumes "Sharded_Claim ins ss w = (r, ss')" "length ins = length ss"
  obtains (none) "r = Inl ErrNoJob" "ss' = ss" "\<forall>i < length ss. case ins ! i of (order, now, uuid) \<Rightarrow> claim_loop order (ss ! i) now = None"
  | (job) i order now uuid job s1 where "i < length ss" "ins ! i = (order, now, uuid)" "Claim order now uuid (ss ! i) w = (Inr job, s1)"
      "r = Inr job" "ss' = ss[i := s1]"
  using assms
proof (induction ins ss w arbitrary: r ss' thesis rule: Sharded_Claim.induct)
  case (1 order now uuid ins s shards w)
  show ?case
  proof (cases "claim_loop order s now")
    case None
    then have c: "Claim order now uuid s w = (Inl ErrNoJob, s)" by (simp add: Claim_def)
    obtain ss1 where s1: "Sharded_Claim ins shards w = (r, ss1)" "ss' = s # ss1" using "1.prems"(3) c
      by (cases "Sharded_Claim ins shards w") auto
    show ?thesis
    proof (rule "1.IH" [OF c [symmetric] refl refl _ _ s1(1)])
      assume n: "r = Inl ErrNoJob" "ss1 = shards" "\<forall>i < length shards. case ins ! i of (order, now, uuid) \<Rightarrow> claim_loop order (shards ! i) now = None"
      show ?thesis
      proof (rule "1.prems"(1))
        show "\<forall>i < length (s # shards). case ((order, now, uuid) # ins) ! i of (order, now, uuid) \<Rightarrow> claim_loop order ((s # shards) ! i) now = None"
          using n(3) None by (auto simp: less_Suc_eq_0_disj)
      qed (use n s1(2) in simp_all)
    next
      fix i o1 n1 u1 job t1
      assume j: "i < length shards" "ins ! i = (o1, n1, u1)" "Claim o1 n1 u1 (shards ! i) w = (Inr job, t1)" "r = Inr job" "ss1 = shards[i := t1]"
      show ?thesis by (rule "1.prems"(2) [of "Suc i" o1 n1 u1 job t1]) (use j s1(2) in simp_all)
    qed (use "1.prems"(4) in simp)
  next
    case (Some j)
    then obtain job s1 where c: "Claim order now uuid s w = (Inr job, s1)" by (simp add: Claim_def Let_def)
    show ?thesis by (rule "1.prems"(2) [of 0 order now uuid job s1]) (use "1.prems"(3) c in simp_all)
  qed
qed auto


text \<open>The lease that a claim writes is a call about the job it picked.\<close>

definition write_lease :: "string \<Rightarrow> claimRecord \<Rightarrow> memoryStore \<Rightarrow> int \<times> memoryStore" where
  "write_lease j c s = (int (length (events_of s j)), s\<lparr>es_claims := (es_claims s)(j \<mapsto> c)\<rparr>)"

interpretation lease_call: job_call j "write_lease j c" for j c
proof
  fix s t assume "same_job j s t"
  then show "fst (write_lease j c s) = fst (write_lease j c t) \<and> same_job j (snd (write_lease j c s)) (snd (write_lease j c t))"
    using same_job_events [of j s t] by (simp add: write_lease_def same_job_def)
qed (simp add: write_lease_def same_job_def)

lemma Claim_writes_lease:
  "Claim order now uuid s w = (case claim_loop order s now of None \<Rightarrow> (Inl ErrNoJob, s)
     | Some j \<Rightarrow> map_prod (\<lambda>n. Inr (j, n, ''attempt-'' @ uuid)) id (write_lease j
          \<lparr>CR_WorkerID = w, CR_ExpiresAt = now + leaseDuration, CR_AttemptID = ''attempt-'' @ uuid\<rparr> s))"
  by (cases "claim_loop order s now") (simp_all add: Claim_def write_lease_def Let_def)

lemma shard_agrees:
  "stands_for ss s \<Longrightarrow> i < length ss \<Longrightarrow> set order \<subseteq> dom (es_byJob (ss ! i)) \<Longrightarrow> \<forall>j \<in> set order. same_job j (ss ! i) s \<and> shard_index (length ss) j = i"
  unfolding stands_for_def by (metis subsetD)

lemma claim_at_shard:
  assumes st: "stands_for ss s" and i: "i < length ss" and d: "set order \<subseteq> dom (es_byJob (ss ! i))"
    and c: "Claim order now uuid (ss ! i) w = (Inr job, s1)"
  shows "\<exists>s'. Claim order now uuid s w = (Inr job, s') \<and> stands_for (ss[i := s1]) s'"
proof -
  let ?l = "\<lparr>CR_WorkerID = w, CR_ExpiresAt = now + leaseDuration, CR_AttemptID = ''attempt-'' @ uuid\<rparr>"
  note agree = shard_agrees [OF st i d]
  obtain j where j: "claim_loop order (ss ! i) now = Some j" using c by (cases "claim_loop order (ss ! i) now") (auto simp: Claim_writes_lease)
  then have at: "shard_index (length ss) j = i" and js: "claim_loop order s now = Some j"
    using agree claim_loop_in claim_loop_same [of order "ss ! i" s now] by fastforce+
  obtain n s' where w: "write_lease j ?l s = (n, s')" by fastforce
  obtain ss' where r: "routed ss j (write_lease j ?l) = Some (n, ss')" "stands_for ss' s'" using lease_call.routed_call [OF st w] by blast
  have ne: "ss \<noteq> []" using st by (simp add: stands_for_def)
  have "write_lease j ?l (ss ! i) = (n, s1) \<and> ss' = ss[i := s1] \<and> job = (j, n, ''attempt-'' @ uuid)"
    using r(1) c j at ne by (auto simp: routed_def Let_def Claim_writes_lease split: prod.splits)
  then show ?thesis using w js r(2) by (simp add: Claim_writes_lease)
qed

lemma shards_cover:
  assumes st: "stands_for ss s" and l: "length ins = length ss" and d: "\<forall>i < length ss. set (fst (ins ! i)) = dom (es_byJob (ss ! i))"
  shows "(\<Union>(order, _) \<in> set ins. set order) = dom (es_byJob s)"
proof (intro equalityI subsetI)
  fix j assume "j \<in> (\<Union>(order, _) \<in> set ins. set order)"
  then obtain i where i: "i < length ss" "j \<in> set (fst (ins ! i))" using l by (auto simp: in_set_conv_nth) (metis fst_conv)
  then have "same_job j (ss ! i) s" "j \<in> dom (es_byJob (ss ! i))" using shard_agrees [OF st i(1), of "fst (ins ! i)"] d by blast+
  then show "j \<in> dom (es_byJob s)" by (auto simp: same_job_def)
next
  fix j assume j: "j \<in> dom (es_byJob s)"
  let ?i = "shard_index (length ss) j"
  have i: "?i < length ss" "same_job j (ss ! ?i) s" using st by (simp_all add: stands_for_def)
  then have "j \<in> set (fst (ins ! ?i))" using d j by (auto simp: same_job_def)
  moreover have "ins ! ?i \<in> set ins" using i(1) l by (metis nth_mem)
  ultimately show "j \<in> (\<Union>(order, _) \<in> set ins. set order)" by (force simp: case_prod_unfold)
qed

lemma sharded_step_is_one_step:
  assumes "sharded_step ss op r ss'" "stands_for ss s"
  shows "\<exists>s'. one_step s op r s' \<and> stands_for ss' s'"
  using assms(1)
proof cases
  case (sh_append env j v ev x)
  obtain y s' where a: "Append env s j v ev = (y, s')" by fastforce
  then show ?thesis using append_call.routed_call [OF assms(2) a] sh_append by (auto simp: Sharded_Append_def intro: one_append)
next
  case (sh_list j x)
  have "same_job j (ss ! shard_index (length ss) j) s" "ss \<noteq> []" using assms(2) by (simp_all add: stands_for_def)
  then have "x = ListEvents s j" using sh_list by (simp add: Sharded_ListEvents_def getShard_def ListEvents_def same_job_events)
  then show ?thesis using sh_list assms(2) one_list by blast
next
  case (sh_claim_job now uuid w j x)
  obtain y s' where a: "ClaimJob now uuid s w j = (y, s')" by fastforce
  then show ?thesis using claim_call.routed_call [OF assms(2) a] sh_claim_job by (auto simp: Sharded_ClaimJob_def intro: one_claim_job)
next
  case (sh_heartbeat now now' w j x)
  obtain y s' where a: "Heartbeat now now' s w j = (y, s')" by fastforce
  then show ?thesis using beat_call.routed_call [OF assms(2) a] sh_heartbeat by (auto simp: Sharded_Heartbeat_def intro: one_heartbeat)
next
  case (sh_attempt now j x)
  have "same_job j (ss ! shard_index (length ss) j) s" "ss \<noteq> []" using assms(2) by (simp_all add: stands_for_def)
  then have "x = GetCurrentAttemptID now s j"
    using sh_attempt by (simp add: Sharded_GetCurrentAttemptID_def getShard_def GetCurrentAttemptID_def same_job_def)
  then show ?thesis using sh_attempt assms(2) one_attempt by blast
next
  case (sh_claim ins w x)
  have ins: "set order = dom (es_byJob (ss ! i))" if "i < length ss" "ins ! i = (order, now, uuid)" for i order now uuid
    using sh_claim(4) that by (metis fst_conv)
  show ?thesis
  proof (rule Sharded_Claim_cases [OF sh_claim(5,3)])
    assume none: "x = Inl ErrNoJob" "ss' = ss" "\<forall>i < length ss. case ins ! i of (order, now, uuid) \<Rightarrow> claim_loop order (ss ! i) now = None"
    have "Claim order now uuid s w = (Inl ErrNoJob, s)" if o1: "(order, now, uuid) \<in> set ins" for order now uuid
    proof -
      obtain i where i: "i < length ss" "ins ! i = (order, now, uuid)" using o1 sh_claim(3) by (metis in_set_conv_nth)
      have "\<forall>j \<in> set order. same_job j (ss ! i) s" using shard_agrees [OF assms(2) i(1)] ins [OF i] by blast
      then have "claim_loop order s now = None" using none(3) i claim_loop_same [of order "ss ! i" s now] by fastforce
      then show ?thesis by (simp add: Claim_writes_lease)
    qed
    moreover have "(\<Union>(order, _) \<in> set ins. set order) = dom (es_byJob s)" by (rule shards_cover [OF assms(2) sh_claim(3,4)])
    ultimately have "one_step s (OpClaim ins w) (RJob (Inl ErrNoJob)) s" by (intro one_no_job) auto
    then show ?thesis using none sh_claim assms(2) by blast
  next
    fix i order now uuid job s1
    assume j: "i < length ss" "ins ! i = (order, now, uuid)" "Claim order now uuid (ss ! i) w = (Inr job, s1)" "x = Inr job" "ss' = ss[i := s1]"
    obtain s' where s': "Claim order now uuid s w = (Inr job, s')" "stands_for (ss[i := s1]) s'"
      using claim_at_shard [OF assms(2) j(1) _ j(3)] ins [OF j(1,2)] by blast
    have "(order, now, uuid) \<in> set ins" using j(1,2) sh_claim(3) by (metis nth_mem)
    then have "one_step s (OpClaim ins w) (RJob (Inr job)) s'" using s'(1) by (rule one_claim)
    then show ?thesis using s'(2) j(4,5) sh_claim by blast
  qed
qed


lemma stands_for_empty: "n > 0 \<Longrightarrow> stands_for (replicate n NewMemoryStore) NewMemoryStore"
proof -
  assume n: "n > 0"
  then have "shard_index n j < n" for j by (simp add: shard_index_def)
  then have same: "same_job j (replicate n NewMemoryStore ! shard_index n j) NewMemoryStore" for j by (simp add: same_job_def)
  have "es_byJob NewMemoryStore = Map.empty" by (simp add: NewMemoryStore_def)
  then have "\<forall>i < n. \<forall>j \<in> dom (es_byJob (replicate n NewMemoryStore ! i)). shard_index n j = i" by simp
  moreover have "replicate n NewMemoryStore \<noteq> []" using n by simp
  ultimately show ?thesis using same unfolding stands_for_def length_replicate by blast
qed

lemma sharded_run_is_one_run:
  assumes "run_of sharded_step ss tr ss'" "stands_for ss s"
  shows "\<exists>s'. run_of one_step s tr s' \<and> stands_for ss' s'"
  using assms
proof (induction rule: run_of.induct)
  case (run_empty ss)
  then show ?case by (intro exI [of _ s] conjI run_of.run_empty)
next
  case (run_more ss tr s1 op r s2)
  then obtain t where t: "run_of one_step s tr t" "stands_for s1 t" by blast
  obtain t' where "one_step t op r t'" "stands_for s2 t'" using sharded_step_is_one_step [OF run_more.hyps(2) t(2)] by blast
  then show ?case using run_of.run_more [OF t(1), of op r t'] by blast
qed

text \<open>No routed call panics when there is a shard.\<close>

lemma routed_total: "ss \<noteq> [] \<Longrightarrow> \<exists>r ss'. routed ss j f = Some (r, ss')"
  by (simp add: routed_def Let_def split: prod.split)

text \<open>
  C20. Sharding cannot be observed. Whatever calls a sharded store of one or more memory stores has answered since it was empty,
  appends, reads, claims of a named job, heartbeats, attempt ids and claims across the shards, one memory store can answer the
  same calls in the same order with the same results, and then holds for every job the events and the attempt the sharded store
  reports. A job claimed across the shards is handed out by the shard to which its later calls are routed.
\<close>

theorem sharded_store_is_one_store:
  assumes "0 < n" "run_of sharded_step (replicate n NewMemoryStore) tr ss"
  shows "\<exists>s. run_of one_step NewMemoryStore tr s
    \<and> (\<forall>j. Sharded_ListEvents ss j = Some (ListEvents s j) \<and> (\<forall>now. Sharded_GetCurrentAttemptID now ss j = Some (GetCurrentAttemptID now s j)))"
proof -
  obtain s where s: "run_of one_step NewMemoryStore tr s" "stands_for ss s"
    using sharded_run_is_one_run [OF assms(2) stands_for_empty [OF assms(1)]] by blast
  have "Sharded_ListEvents ss j = Some (ListEvents s j)" "Sharded_GetCurrentAttemptID now ss j = Some (GetCurrentAttemptID now s j)" for j now
  proof -
    have at: "same_job j (ss ! shard_index (length ss) j) s" "ss \<noteq> []" using s(2) by (simp_all add: stands_for_def)
    then show "Sharded_ListEvents ss j = Some (ListEvents s j)"
      by (simp add: Sharded_ListEvents_def getShard_def ListEvents_def same_job_events)
    show "Sharded_GetCurrentAttemptID now ss j = Some (GetCurrentAttemptID now s j)"
      using at by (simp add: Sharded_GetCurrentAttemptID_def getShard_def GetCurrentAttemptID_def same_job_def)
  qed
  then show ?thesis using s(1) by blast
qed

text \<open>Two shards: an event appended to the job \<open>j\<close>, then a claim that finds it in its shard.\<close>

lemma fnv32a_letters: "fnv32a ''a'' = 0xE40C292C" "fnv32a ''j'' = 0xEF0C3A7D"
  by (simp_all add: fnv32a_def fnv_step_def)

lemma shard_j: "shard_index 2 ''j'' = 1"
  by (simp add: shard_index_def fnv32a_letters)


lemma ex_created_dom: "dom (es_byJob ex_created) = {''j''}"
proof -
  have "append_locked 1 ''u'' 0 NewMemoryStore ''j'' 0 (ex_event JobCreated) = (Inr 1, ex_created)"
    using Append_ok [OF ex_created_append] by (simp add: ex_env_def)
  moreover obtain E where "append_locked 1 ''u'' 0 NewMemoryStore ''j'' 0 (ex_event JobCreated)
      = (if int (length (events_of NewMemoryStore ''j'')) \<noteq> 0 then (Inl ErrVersionMismatch, NewMemoryStore)
         else (Inr (int (Suc (length (events_of NewMemoryStore ''j'')))), notifyWatchersLocked (NewMemoryStore\<lparr>es_byJob :=
           (es_byJob NewMemoryStore)(''j'' \<mapsto> events_of NewMemoryStore ''j'' @ [E (events_of NewMemoryStore ''j'')])\<rparr>) ''j''
             (E (events_of NewMemoryStore ''j''))))"
    using append_locked_shape [of 1 "''u''" 0 "''j''" 0 "ex_event JobCreated"] by blast
  ultimately have "ex_created = notifyWatchersLocked (NewMemoryStore\<lparr>es_byJob := (es_byJob NewMemoryStore)(''j'' \<mapsto> [E []])\<rparr>) ''j'' (E [])"
    by (auto split: if_splits)
  from arg_cong [OF this, of es_byJob] show ?thesis by (simp add: NewMemoryStore_def)
qed

theorem sharded_store_is_one_store_witness:
  "\<exists>s. run_of one_step NewMemoryStore
      [(OpAppend (ex_env []) ''j'' 0 (ex_event JobCreated), RVersion (Inr 1)),
       (OpClaim [([], 1, ''0''), ([''j''], 1, ''1'')] ''w1'', RJob (Inr (''j'', 1, ''attempt-1'')))] s
    \<and> GetCurrentAttemptID 1 s ''j'' = ''attempt-1''"
proof -
  let ?ss = "[NewMemoryStore, ex_created]"
  have new: "replicate 2 NewMemoryStore = [NewMemoryStore, NewMemoryStore]" by (simp add: numeral_2_eq_2)
  have "Sharded_Append (ex_env []) [NewMemoryStore, NewMemoryStore] ''j'' 0 (ex_event JobCreated) = Some (Inr 1, ?ss)"
    by (simp add: Sharded_Append_def routed_def shard_j [simplified numeral_2_eq_2] ex_created_append)
  then have one: "run_of sharded_step (replicate 2 NewMemoryStore)
      ([] @ [(OpAppend (ex_env []) ''j'' 0 (ex_event JobCreated), RVersion (Inr 1))]) ?ss"
    unfolding new by (intro run_more [OF run_empty] sh_append)
  obtain e where e: "events_of ex_created ''j'' = [e]" "Ev_Type e = JobCreated" using ex_created_facts(1) by blast
  define lease where "lease = \<lparr>CR_WorkerID = ''w1'', CR_ExpiresAt = 1 + leaseDuration, CR_AttemptID = ''attempt-1''\<rparr>"
  define s1 where "s1 = ex_created\<lparr>es_claims := (es_claims ex_created)(''j'' \<mapsto> lease)\<rparr>"
  have "Claim [''j''] 1 ''1'' ex_created ''w1'' = (Inr (''j'', 1, ''attempt-1''), s1)"
    using e ex_created_facts(2) by (simp add: Claim_def Let_def s1_def lease_def)
  then have "Sharded_Claim [([], 1, ''0''), ([''j''], 1, ''1'')] ?ss ''w1'' = (Inr (''j'', 1, ''attempt-1''), [NewMemoryStore, s1])"
    by (simp add: Claim_def Let_def)
  moreover have "\<forall>i < length ?ss. set (fst ([([], 1, ''0''), ([''j''], 1, ''1'')] ! i)) = dom (es_byJob (?ss ! i))"
    using ex_created_dom by (auto simp: less_Suc_eq NewMemoryStore_def)
  ultimately have "sharded_step ?ss (OpClaim [([], 1, ''0''), ([''j''], 1, ''1'')] ''w1'') (RJob (Inr (''j'', 1, ''attempt-1''))) [NewMemoryStore, s1]"
    by (intro sh_claim) simp_all
  then obtain s where s: "run_of one_step NewMemoryStore (([] @ [(OpAppend (ex_env []) ''j'' 0 (ex_event JobCreated), RVersion (Inr 1))])
      @ [(OpClaim [([], 1, ''0''), ([''j''], 1, ''1'')] ''w1'', RJob (Inr (''j'', 1, ''attempt-1'')))]) s"
    and a: "Sharded_GetCurrentAttemptID 1 [NewMemoryStore, s1] ''j'' = Some (GetCurrentAttemptID 1 s ''j'')"
    using sharded_store_is_one_store [OF _ run_more [OF one]] by (metis zero_less_numeral)
  have "Sharded_GetCurrentAttemptID 1 [NewMemoryStore, s1] ''j'' = Some ''attempt-1''"
    by (simp add: Sharded_GetCurrentAttemptID_def getShard_def shard_j [simplified numeral_2_eq_2] GetCurrentAttemptID_def s1_def lease_def
        leaseDuration_def)
  then show ?thesis using s a by auto
qed

end
