(* ===== verification/Llm_Node.thy ===== *)
theory Llm_Node
  imports Tool_Node Json_Text
begin

text \<open>
  The nodes of a job's graph that call a language model or run a workflow, \<open>LLMNodeAdapter\<close> and \<open>WorkflowNodeAdapter\<close> of
  \<open>internal/agent/runtime/executor/node_adapter.go\<close>.  The model and the workflow engine are interfaces of the program: they are
  functions in the adapter records.  Tracing spans are left out.
\<close>

section \<open>Types\<close>

text \<open>The temperature is the literal of a number.\<close>

record LLMModelInfo =
  MI_Model :: string
  MI_Provider :: string
  MI_Temperature :: string

text \<open>
  A call of the model: how many calls were made before, and the prompt; the answer or the text of an error.  A model may tell its
  name, its provider and its temperature; the flag says that the temperature is not negative.
\<close>

record LLMNodeAdapter =
  la_generate :: "nat \<Rightarrow> string \<Rightarrow> string + string"
  la_ModelInfo :: "(LLMModelInfo \<times> bool) option"
  la_CommandEventSink :: bool
  la_sink_ok :: "string \<Rightarrow> bool"
  la_EffectStore :: bool
  la_RequireEffectStore :: bool

datatype command_event =
    CommandEmitted string string string string bytes
  | CommandCommitted string string string bytes string

text \<open>
  The state: the effects, the command events written, the prompts the model was called with, the results of the payload and the
  messages of the agent's session.
\<close>

record llm_state =
  ln_eff :: EffectStoreMem
  ln_log :: "command_event list"
  ln_calls :: "string list"
  ln_results :: "string \<rightharpoonup> goval"
  ln_messages :: "(string \<times> string) list"

text \<open>What a call brings: the job in the context, the goal of the payload, two readings of the clock, whether there is a session.\<close>

record llm_env =
  le_jobID :: string
  le_goal :: string
  le_put1 :: gotime
  le_put2 :: gotime
  le_session :: bool

datatype llm_error = NoEffectStore | EmitFailed | GenerateFailed string

section \<open>The prompt\<close>

text \<open>A value of JSON kinds only; \<open>fmt.Sprint\<close> of another one is the first argument of the functions below.\<close>

fun plain_json :: "goval \<Rightarrow> json option" where
  "plain_json GNil = Some JNull"
| "plain_json (GBool b) = Some (JBool b)"
| "plain_json (GNum n) = Some (JNum n)"
| "plain_json (GStr s) = Some (JStr s)"
| "plain_json (GTime off t) = None"
| "plain_json (GList xs) = map_option JArr (those (map plain_json xs))"
| "plain_json (GMap ms) = map_option (\<lambda>vs. JObj (zip (map fst ms) vs)) (those (map (\<lambda>(k, v). plain_json v) ms))"
| "plain_json GOpaque = None"

definition prompt_keys :: "string list" where
  "prompt_keys = [''prompt'', ''output'', ''answer'', ''content'', ''text'']"

lemma map_of_size: "map_of (rev ms) k = Some v \<Longrightarrow> size v < size (GMap ms)"
proof -
  assume "map_of (rev ms) k = Some v"
  then have "(k, v) \<in> set ms" using map_of_SomeD [of "rev ms" k v] by simp
  then have "size_prod (\<lambda>_. 0) size (k, v) \<le> size_list (size_prod (\<lambda>_. 0) size) ms" by (rule size_list_estimation') simp
  then show ?thesis by simp
qed

function promptFromResultValue :: "(goval \<Rightarrow> string) \<Rightarrow> goval \<Rightarrow> string" where
  "promptFromResultValue sprint value = (case value of
       GNil \<Rightarrow> []
     | GStr s \<Rightarrow> s
     | GMap ms \<Rightarrow> (case List.find (\<lambda>k. map_of (rev ms) k \<noteq> None) prompt_keys of
           None \<Rightarrow> go_marshal value
         | Some k \<Rightarrow> (case map_of (rev ms) k of None \<Rightarrow> go_marshal value | Some nested \<Rightarrow> promptFromResultValue sprint nested))
     | v \<Rightarrow> (case plain_json v of Some j \<Rightarrow> fmt_v j | None \<Rightarrow> sprint v))"
  by pat_completeness auto

termination
  by (relation "measure (\<lambda>(_, v). size v)") (auto dest: map_of_size)

declare promptFromResultValue.simps [simp del]

definition llm_prompt :: "(goval \<Rightarrow> string) \<Rightarrow> llm_env \<Rightarrow> (string \<rightharpoonup> json) \<Rightarrow> (string \<rightharpoonup> goval) \<Rightarrow> string" where
  "llm_prompt sprint env cfg results =
     (let p1 = (case cfg ''goal'' of Some (JStr g) \<Rightarrow> if g \<noteq> [] then g else le_goal env | _ \<Rightarrow> le_goal env)
      in case cfg ''prompt_key'' of
           Some (JStr key) \<Rightarrow> if key = [] then p1
             else (case results key of None \<Rightarrow> p1 | Some value \<Rightarrow> promptFromResultValue sprint value)
         | _ \<Rightarrow> p1)"

definition resolveLLMModelInfo :: "(LLMModelInfo \<times> bool) option \<Rightarrow> LLMModelInfo" where
  "resolveLLMModelInfo provider =
     (let info = \<lparr>MI_Model = ''llm-model-default'', MI_Provider = ''default'', MI_Temperature = ''0.7''\<rparr>
      in case provider of None \<Rightarrow> info
       | Some (meta, nonneg) \<Rightarrow> \<lparr>MI_Model = (if MI_Model meta \<noteq> [] then MI_Model meta else MI_Model info),
           MI_Provider = (if MI_Provider meta \<noteq> [] then MI_Provider meta else MI_Provider info),
           MI_Temperature = (if nonneg then MI_Temperature meta else MI_Temperature info)\<rparr>)"

section \<open>The node\<close>

abbreviation set_node :: "string \<Rightarrow> goval \<Rightarrow> llm_state \<Rightarrow> llm_state" where
  "set_node taskID v st \<equiv> st\<lparr>ln_results := (ln_results st)(taskID \<mapsto> v)\<rparr>"

text \<open>A recorded answer: \<open>json.Unmarshal\<close> into a string, which takes \<open>null\<close> for the empty one, or else the bytes themselves.\<close>

definition recorded_answer :: "bytes \<Rightarrow> string" where
  "recorded_answer output = (case json_parse output of Some (JStr s) \<Rightarrow> s | Some JNull \<Rightarrow> [] | _ \<Rightarrow> output)"

definition injected :: "EffectRecord \<Rightarrow> goval" where
  "injected eff = GMap [(''_evidence'', GMap (if EF_Metadata eff = [] then [] else [(''llm_decision'', json_goval (JObj (EF_Metadata eff)))])),
     (''output'', GStr (recorded_answer (EF_Output eff)))]"

definition generated :: "LLMNodeAdapter \<Rightarrow> string \<Rightarrow> goval" where
  "generated ad resp = (let info = resolveLLMModelInfo (la_ModelInfo ad) in
     GMap [(''_evidence'', GMap [(''llm_decision'', GMap [(''model'', GStr (MI_Model info)), (''provider'', GStr (MI_Provider info)),
        (''temperature'', GNum (MI_Temperature info))])]), (''output'', GStr resp)])"

definition prompt_input :: "string \<Rightarrow> bytes" where
  "prompt_input prompt = json_marshal (JObj [(''prompt'', JStr prompt)])"

definition llm_effect :: "string \<Rightarrow> string \<Rightarrow> string \<Rightarrow> bytes \<Rightarrow> string \<Rightarrow> (string \<times> json) list \<Rightarrow> EffectRecord" where
  "llm_effect jobID taskID prompt output err meta = \<lparr>EF_JobID = jobID, EF_CommandID = taskID, EF_IdempotencyKey = [], EF_Kind = ''llm'',
     EF_Input = prompt_input prompt, EF_Output = output, EF_Error = err, EF_Metadata = meta, EF_CreatedAt = zero_time\<rparr>"

definition put_llm :: "LLMNodeAdapter \<Rightarrow> gotime \<Rightarrow> EffectRecord \<Rightarrow> llm_state \<Rightarrow> llm_state" where
  "put_llm ad now r st = (if la_EffectStore ad \<and> EF_JobID r \<noteq> [] then st\<lparr>ln_eff := PutEffect now (ln_eff st) r\<rparr> else st)"

text \<open>The recorded effect that stands for a call, if there is one with an output.\<close>

definition find_effect :: "LLMNodeAdapter \<Rightarrow> string \<Rightarrow> string \<Rightarrow> llm_state \<Rightarrow> EffectRecord option" where
  "find_effect ad jobID taskID st = (if la_EffectStore ad \<and> jobID \<noteq> [] then
       (case GetEffectByJobAndCommandID (ln_eff st) jobID taskID of
          Some eff \<Rightarrow> if EF_Output eff \<noteq> [] then Some eff else None
        | None \<Rightarrow> None)
     else None)"

definition commit_payload :: "LLMModelInfo \<Rightarrow> string \<Rightarrow> bytes" where
  "commit_payload info resp = json_marshal (JObj [(''result'', JStr resp), (''llm_model'', JStr (MI_Model info)),
     (''llm_provider'', JStr (MI_Provider info)), (''llm_temperature'', JNum (MI_Temperature info))])"

text \<open>After an answer: the effect, the event, the result and the session's message.\<close>

definition llm_done :: "LLMNodeAdapter \<Rightarrow> llm_env \<Rightarrow> string \<Rightarrow> string \<Rightarrow> string \<Rightarrow> llm_state \<Rightarrow> llm_state" where
  "llm_done ad env taskID prompt resp st =
     (let jobID = le_jobID env;
          st1 = put_llm ad (le_put2 env) (llm_effect jobID taskID prompt (json_marshal (JStr resp)) [] []) st;
          st2 = (if la_CommandEventSink ad \<and> jobID \<noteq> [] \<and> la_sink_ok ad ''command_committed''
             then st1\<lparr>ln_log := ln_log st1 @ [CommandCommitted jobID taskID taskID
               (commit_payload (resolveLLMModelInfo (la_ModelInfo ad)) resp) []]\<rparr> else st1);
          st3 = set_node taskID (generated ad resp) st2
      in if le_session env then st3\<lparr>ln_messages := ln_messages st3 @ [(''assistant'', resp)]\<rparr> else st3)"

definition llm_runNode ::
  "(goval \<Rightarrow> string) \<Rightarrow> LLMNodeAdapter \<Rightarrow> llm_env \<Rightarrow> string \<Rightarrow> (string \<rightharpoonup> json) \<Rightarrow> llm_state \<Rightarrow> llm_error option \<times> llm_state" where
  "llm_runNode sprint ad env taskID cfg st =
     (if la_RequireEffectStore ad \<and> \<not> la_EffectStore ad then (Some NoEffectStore, st)
      else let prompt = llm_prompt sprint env cfg (ln_results st); jobID = le_jobID env
        in case find_effect ad jobID taskID st of
             Some eff \<Rightarrow> (None, set_node taskID (injected eff) st)
           | None \<Rightarrow>
               if la_CommandEventSink ad \<and> jobID \<noteq> [] \<and> \<not> la_sink_ok ad ''command_emitted'' then (Some EmitFailed, st)
               else let st1 = (if la_CommandEventSink ad \<and> jobID \<noteq> []
                        then st\<lparr>ln_log := ln_log st @ [CommandEmitted jobID taskID taskID ''llm'' (prompt_input prompt)]\<rparr> else st);
                      st2 = put_llm ad (le_put1 env) (llm_effect jobID taskID prompt [] ''inflight'' [(''phase'', JStr ''started'')]) st1;
                      st3 = st2\<lparr>ln_calls := ln_calls st2 @ [prompt]\<rparr>
                    in (case la_generate ad (length (ln_calls st2)) prompt of
                          Inl err \<Rightarrow> (Some (GenerateFailed err), st3)
                        | Inr resp \<Rightarrow> (None, llm_done ad env taskID prompt resp st3)))"

section \<open>Workflows\<close>

record WorkflowNodeAdapter =
  wa_ExecuteWorkflow :: "string \<Rightarrow> (string \<times> json) list \<Rightarrow> string + goval"
  wa_CommandEventSink :: bool
  wa_sink_ok :: "string \<Rightarrow> bool"

definition workflow_log :: "WorkflowNodeAdapter \<Rightarrow> string \<Rightarrow> string \<Rightarrow> command_event \<Rightarrow> llm_state \<Rightarrow> llm_state" where
  "workflow_log ad jobID t ev st = (if wa_CommandEventSink ad \<and> jobID \<noteq> [] \<and> wa_sink_ok ad t then st\<lparr>ln_log := ln_log st @ [ev]\<rparr> else st)"

definition workflow_runNode ::
  "WorkflowNodeAdapter \<Rightarrow> int \<Rightarrow> gotime \<Rightarrow> string \<Rightarrow> string \<Rightarrow> string \<Rightarrow> (string \<times> json) list \<Rightarrow> llm_state \<Rightarrow> string option \<times> llm_state" where
  "workflow_runNode ad zone now jobID taskID name params st =
     (let st1 = workflow_log ad jobID ''command_emitted'' (CommandEmitted jobID taskID taskID ''workflow''
              (json_marshal (JObj [(''workflow'', JStr name), (''params'', JObj params)]))) st
      in case wa_ExecuteWorkflow ad name params of
           Inl err \<Rightarrow> (Some err, set_node taskID (GMap [(''at'', GTime zone now), (''error'', GStr err)]) st1)
         | Inr result \<Rightarrow> (None, set_node taskID result
             (workflow_log ad jobID ''command_committed'' (CommandCommitted jobID taskID taskID (go_marshal result) []) st1)))"

section \<open>A captured answer\<close>

lemma recorded_answer_marshal: "recorded_answer (json_marshal (JStr resp)) = clean resp"
proof -
  have "lex LNorm (json_quote resp) = Some [TStr (clean resp)]" using lex_quote [of resp "[]"] by simp
  then have "json_parse (json_quote resp) = Some (JStr (clean resp))" by (simp add: json_parse_def add_value_def)
  then show ?thesis by (simp add: recorded_answer_def)
qed

text \<open>Effects under other keys.\<close>

definition other_effect :: "string \<Rightarrow> string \<Rightarrow> EffectRecord \<Rightarrow> bool" where
  "other_effect jobID taskID r \<longleftrightarrow> keyID (EF_JobID r) (EF_IdempotencyKey r) \<noteq> keyCmd jobID taskID \<and> keyCmd (EF_JobID r) (EF_CommandID r) \<noteq> keyCmd jobID taskID"

definition put_all :: "(gotime \<times> EffectRecord) list \<Rightarrow> EffectStoreMem \<Rightarrow> EffectStoreMem" where
  "put_all rs s = foldl (\<lambda>s (now, r). PutEffect now s r) s rs"

lemma put_other: "other_effect jobID taskID r \<Longrightarrow> ef_byKey (PutEffect now s r) (keyCmd jobID taskID) = ef_byKey s (keyCmd jobID taskID)"
proof -
  assume "other_effect jobID taskID r"
  then have "keyCmd jobID taskID \<noteq> keyID (EF_JobID r) (EF_IdempotencyKey r)" "keyCmd jobID taskID \<noteq> keyCmd (EF_JobID r) (EF_CommandID r)"
    unfolding other_effect_def by metis+
  then show ?thesis
    by (cases s; cases "EF_JobID r = []"; cases "EF_IdempotencyKey r = []"; cases "EF_CommandID r = []")
      (simp_all only: PutEffect_def Let_def if_True if_False simp_thms EffectStoreMem.select_convs EffectStoreMem.update_convs fun_upd_other)
qed

lemma put_all_other: "\<forall>(now, r) \<in> set rs. other_effect jobID taskID r \<Longrightarrow> ef_byKey (put_all rs s) (keyCmd jobID taskID) = ef_byKey s (keyCmd jobID taskID)"
  by (induction rs arbitrary: s) (auto simp: put_all_def put_other)

text \<open>A run that finds no effect calls the model.\<close>

lemma llm_calls:
  assumes "find_effect ad (le_jobID env) taskID st = None" "llm_runNode sprint ad env taskID cfg st = (None, st1)"
  shows "\<exists>st3 resp. ln_calls st3 = ln_calls st @ [llm_prompt sprint env cfg (ln_results st)]
    \<and> la_generate ad (length (ln_calls st)) (llm_prompt sprint env cfg (ln_results st)) = Inr resp
    \<and> st1 = llm_done ad env taskID (llm_prompt sprint env cfg (ln_results st)) resp st3"
proof -
  define st2 where "st2 = put_llm ad (le_put1 env) (llm_effect (le_jobID env) taskID (llm_prompt sprint env cfg (ln_results st)) [] ''inflight''
      [(''phase'', JStr ''started'')])
    (if la_CommandEventSink ad \<and> le_jobID env \<noteq> []
     then st\<lparr>ln_log := ln_log st @ [CommandEmitted (le_jobID env) taskID taskID ''llm'' (prompt_input (llm_prompt sprint env cfg (ln_results st)))]\<rparr> else st)"
  let ?p = "llm_prompt sprint env cfg (ln_results st)"
  let ?st3 = "st2\<lparr>ln_calls := ln_calls st2 @ [?p]\<rparr>"
  have c: "ln_calls st2 = ln_calls st" by (simp add: st2_def put_llm_def)
  have run: "(if la_RequireEffectStore ad \<and> \<not> la_EffectStore ad then (Some NoEffectStore, st)
      else if la_CommandEventSink ad \<and> le_jobID env \<noteq> [] \<and> \<not> la_sink_ok ad ''command_emitted'' then (Some EmitFailed, st)
      else (case la_generate ad (length (ln_calls st2)) ?p of Inl err \<Rightarrow> (Some (GenerateFailed err), ?st3)
        | Inr resp \<Rightarrow> (None, llm_done ad env taskID ?p resp ?st3))) = (None, st1)"
    using assms(2) unfolding llm_runNode_def Let_def assms(1) st2_def by (simp only: option.case if_cancel)
  then obtain resp where "la_generate ad (length (ln_calls st2)) ?p = Inr resp" "st1 = llm_done ad env taskID ?p resp ?st3"
    by (cases "la_generate ad (length (ln_calls st2)) ?p") (simp_all split: if_splits)
  then show ?thesis unfolding c by (intro exI [of _ ?st3] exI [of _ resp]) (simp add: c)
qed

lemma put_llm_get:
  "la_EffectStore ad \<Longrightarrow> jobID \<noteq> [] \<Longrightarrow> taskID \<noteq> [] \<Longrightarrow> ef_byKey (ln_eff (put_llm ad now (llm_effect jobID taskID prompt output err meta) st)) (keyCmd jobID taskID)
    = Some ((llm_effect jobID taskID prompt output err meta)\<lparr>EF_CreatedAt := now\<rparr>)"
  by (simp add: put_llm_def PutEffect_def Let_def llm_effect_def)

lemma llm_done_eff: "ln_eff (llm_done ad env taskID prompt resp st)
    = ln_eff (put_llm ad (le_put2 env) (llm_effect (le_jobID env) taskID prompt (json_marshal (JStr resp)) [] []) st)"
  by (simp add: llm_done_def Let_def del: json_marshal.simps)

lemma llm_done_effect:
  assumes "la_EffectStore ad" "le_jobID env \<noteq> []" "taskID \<noteq> []"
  shows "\<exists>eff. ef_byKey (ln_eff (llm_done ad env taskID prompt resp st)) (keyCmd (le_jobID env) taskID) = Some eff
    \<and> EF_Output eff = json_marshal (JStr resp) \<and> EF_Metadata eff = []"
  unfolding llm_done_eff put_llm_get [OF assms] by (simp add: llm_effect_def del: json_marshal.simps)

text \<open>
  An answer of a model is captured once. When the node of a task has called the model in a job with an effect store and got
  an answer, every later run of the task in that job, whatever its configuration, goal, results and session, and whatever effects
  of other commands were stored in between, succeeds without calling the model and without writing an event, and gives the
  recorded answer (with bytes that are not UTF-8 replaced) as its output. But it gives no evidence of the model, and the session
  does not get the answer as a message.
\<close>

theorem captured_answer_is_replayed:
  assumes "la_EffectStore ad" "le_jobID env \<noteq> []" "taskID \<noteq> []" "find_effect ad (le_jobID env) taskID st = None"
    and "llm_runNode sprint ad env taskID cfg st = (None, st1)"
    and "\<forall>(now, r) \<in> set rs. other_effect (le_jobID env) taskID r" "ln_eff st2 = put_all rs (ln_eff st1)"
    and "le_jobID env2 = le_jobID env"
  shows "\<exists>resp. la_generate ad (length (ln_calls st)) (last (ln_calls st1)) = Inr resp \<and> ln_calls st1 = ln_calls st @ [last (ln_calls st1)]
    \<and> ln_results st1 taskID = Some (generated ad resp)
    \<and> llm_runNode sprint ad env2 taskID cfg2 st2
        = (None, st2\<lparr>ln_results := (ln_results st2)(taskID \<mapsto> GMap [(''_evidence'', GMap []), (''output'', GStr (clean resp))])\<rparr>)"
proof -
  let ?prompt = "llm_prompt sprint env cfg (ln_results st)"
  obtain st3 resp where st3: "ln_calls st3 = ln_calls st @ [?prompt]" "la_generate ad (length (ln_calls st)) ?prompt = Inr resp"
    "st1 = llm_done ad env taskID ?prompt resp st3"
    using llm_calls [OF assms(4,5)] by blast
  obtain eff where eff: "ef_byKey (ln_eff st1) (keyCmd (le_jobID env) taskID) = Some eff" "EF_Output eff = json_marshal (JStr resp)" "EF_Metadata eff = []"
    using llm_done_effect [OF assms(1-3), of ?prompt resp st3] st3(3) by blast
  have "find_effect ad (le_jobID env2) taskID st2 = Some eff"
    using assms(1-3,8) eff(1,2) put_all_other [OF assms(6), of "ln_eff st1"] assms(7)
    by (simp add: find_effect_def GetEffectByJobAndCommandID_def json_quote_def)
  moreover have "injected eff = GMap [(''_evidence'', GMap []), (''output'', GStr (clean resp))]"
    unfolding injected_def eff(2,3) recorded_answer_marshal by simp
  ultimately have "llm_runNode sprint ad env2 taskID cfg2 st2
        = (None, st2\<lparr>ln_results := (ln_results st2)(taskID \<mapsto> GMap [(''_evidence'', GMap []), (''output'', GStr (clean resp))])\<rparr>)"
    using assms(1) by (simp add: llm_runNode_def Let_def)
  moreover have "ln_calls st1 = ln_calls st3" "ln_results st1 taskID = Some (generated ad resp)"
    unfolding st3(3) by (simp_all add: llm_done_def put_llm_def Let_def)
  ultimately show ?thesis using st3 by simp
qed


text \<open>A call that fails, or a run that stops after its effect was marked as begun, leaves no answer: the next run calls the model.\<close>

lemma begun_call_is_no_answer:
  "la_EffectStore ad \<Longrightarrow> jobID \<noteq> [] \<Longrightarrow> taskID \<noteq> [] \<Longrightarrow>
    find_effect ad jobID taskID (put_llm ad now (llm_effect jobID taskID prompt [] ''inflight'' meta) st) = None"
  using put_llm_get [of ad jobID taskID now prompt "[]" "''inflight''" meta st]
  by (simp add: find_effect_def GetEffectByJobAndCommandID_def llm_effect_def)

section \<open>A concrete model\<close>

definition ex_llm :: LLMNodeAdapter where
  "ex_llm = \<lparr>la_generate = (\<lambda>n p. Inr ''hi''), la_ModelInfo = None, la_CommandEventSink = True, la_sink_ok = (\<lambda>_. True),
     la_EffectStore = True, la_RequireEffectStore = True\<rparr>"

definition ex_llm_env :: "string \<Rightarrow> llm_env" where
  "ex_llm_env goal = \<lparr>le_jobID = ''j'', le_goal = goal, le_put1 = 1, le_put2 = 2, le_session = True\<rparr>"

definition ex_llm_state :: llm_state where
  "ex_llm_state = \<lparr>ln_eff = NewEffectStoreMem, ln_log = [], ln_calls = [], ln_results = Map.empty, ln_messages = []\<rparr>"

lemma ex_prompt: "promptFromResultValue (\<lambda>_. []) (GMap [(''output'', GMap [(''text'', GStr ''sum up'')])]) = ''sum up''"
  by (simp add: promptFromResultValue.simps prompt_keys_def)

theorem captured_answer_is_replayed_witness:
  "\<exists>st1. llm_runNode (\<lambda>_. []) ex_llm (ex_llm_env ''ask'') ''t'' Map.empty ex_llm_state = (None, st1)
    \<and> ln_calls (snd (llm_runNode (\<lambda>_. []) ex_llm (ex_llm_env ''ask again'') ''t'' Map.empty st1)) = ln_calls st1
    \<and> ln_results (snd (llm_runNode (\<lambda>_. []) ex_llm (ex_llm_env ''ask again'') ''t'' Map.empty st1)) ''t''
        = Some (GMap [(''_evidence'', GMap []), (''output'', GStr ''hi'')])"
proof -
  have none: "find_effect ex_llm (le_jobID (ex_llm_env ''ask'')) ''t'' ex_llm_state = None"
    by (simp add: find_effect_def ex_llm_def ex_llm_env_def ex_llm_state_def GetEffectByJobAndCommandID_def NewEffectStoreMem_def)
  obtain st1 where st1: "llm_runNode (\<lambda>_. []) ex_llm (ex_llm_env ''ask'') ''t'' Map.empty ex_llm_state = (None, st1)"
    using none by (simp add: llm_runNode_def Let_def ex_llm_def)
  obtain resp where r: "la_generate ex_llm (length (ln_calls ex_llm_state)) (last (ln_calls st1)) = Inr resp"
    "llm_runNode (\<lambda>_. []) ex_llm (ex_llm_env ''ask again'') ''t'' Map.empty st1
      = (None, st1\<lparr>ln_results := (ln_results st1)(''t'' \<mapsto> GMap [(''_evidence'', GMap []), (''output'', GStr (clean resp))])\<rparr>)"
    using captured_answer_is_replayed [OF _ _ _ none st1, of "[]" st1 "ex_llm_env ''ask again''" Map.empty]
    by (auto simp: ex_llm_def ex_llm_env_def put_all_def)
  have "clean resp = ''hi''" using r(1) by (auto simp: ex_llm_def intro!: clean_ascii)
  then show ?thesis using st1 r(2) by simp
qed

end
