(* ===== verification/Tool_Limiter.thy ===== *)
theory Tool_Limiter
  imports Prelude Complex_Main
begin

text \<open>
  The limiter of tool calls, \<open>internal/agent/runtime/executor/rate_limiter.go\<close>: per tool a token bucket of the package
  \<open>golang.org/x/time/rate\<close>, which is an argument here, and a buffered channel whose capacity bounds the calls in flight.
\<close>

section \<open>Limiters\<close>

text \<open>The rate is a \<open>float64\<close>, a rational number; \<open>0\<close> and less switch the bucket off.\<close>

record ToolLimitConfig =
  TL_QPS :: rat
  TL_MaxConcurrent :: int
  TL_Burst :: int

text \<open>A bucket: a new one of a rate and a size, waiting for a token (the text of an error), and taking one if there is one.\<close>

record 'b bucket =
  bk_new :: "rat \<Rightarrow> int \<Rightarrow> 'b"
  bk_wait :: "'b \<Rightarrow> string option \<times> 'b"
  bk_allow :: "'b \<Rightarrow> bool \<times> 'b"

text \<open>A channel of empty structs is its capacity and the number of values in it.\<close>

record semaphore =
  sm_cap :: nat
  sm_held :: nat

record 'b toolLimiter =
  tl_rateLimiter :: "'b option"
  tl_semaphore :: "semaphore option"
  tl_config :: ToolLimitConfig

record 'b ToolRateLimiter =
  rl_limiters :: "string \<rightharpoonup> 'b toolLimiter"
  rl_defaults :: ToolLimitConfig

definition default_limit :: ToolLimitConfig where
  "default_limit = \<lparr>TL_QPS = 100, TL_MaxConcurrent = 10, TL_Burst = 100\<rparr>"

text \<open>The conversion of a float to an \<open>int\<close> cuts the fraction off.\<close>

definition trunc :: "rat \<Rightarrow> int" where
  "trunc q = (if q \<ge> 0 then \<lfloor>q\<rfloor> else \<lceil>q\<rceil>)"

definition new_limiter :: "'b bucket \<Rightarrow> ToolLimitConfig \<Rightarrow> 'b toolLimiter" where
  "new_limiter bk config =
     (let c = (if TL_Burst config = 0 then config\<lparr>TL_Burst := trunc (TL_QPS config)\<rparr> else config)
      in \<lparr>tl_rateLimiter = (if TL_QPS c > 0 then Some (bk_new bk (TL_QPS c) (TL_Burst c)) else None),
          tl_semaphore = (if TL_MaxConcurrent c > 0 then Some \<lparr>sm_cap = nat (TL_MaxConcurrent c), sm_held = 0\<rparr> else None),
          tl_config = c\<rparr>)"

definition addToolLimiter :: "'b bucket \<Rightarrow> string \<Rightarrow> ToolLimitConfig \<Rightarrow> 'b ToolRateLimiter \<Rightarrow> 'b ToolRateLimiter" where
  "addToolLimiter bk toolName config t = t\<lparr>rl_limiters := (rl_limiters t)(toolName \<mapsto> new_limiter bk config)\<rparr>"

definition NewToolRateLimiter :: "'b bucket \<Rightarrow> (string \<times> ToolLimitConfig) list \<Rightarrow> ToolLimitConfig option \<Rightarrow> 'b ToolRateLimiter" where
  "NewToolRateLimiter bk configs defaults =
     foldl (\<lambda>t (toolName, config). addToolLimiter bk toolName config t)
       \<lparr>rl_limiters = Map.empty, rl_defaults = (case defaults of None \<Rightarrow> default_limit | Some d \<Rightarrow> d)\<rparr> configs"

section \<open>Waiting, releasing, asking\<close>

text \<open>
  The first part of \<open>Wait\<close>: find the limiter or make one with the defaults, then wait for a token.  The second part takes a slot;
  it blocks while there is none, which is \<open>None\<close>, and gives up when the context ends.
\<close>

definition find_limiter :: "'b bucket \<Rightarrow> string \<Rightarrow> 'b ToolRateLimiter \<Rightarrow> 'b toolLimiter \<times> 'b ToolRateLimiter" where
  "find_limiter bk toolName t = (case rl_limiters t toolName of Some l \<Rightarrow> (l, t)
     | None \<Rightarrow> let l = new_limiter bk (rl_defaults t) in (l, t\<lparr>rl_limiters := (rl_limiters t)(toolName \<mapsto> l)\<rparr>))"

definition wait_token :: "'b bucket \<Rightarrow> string \<Rightarrow> 'b ToolRateLimiter \<Rightarrow> string option \<times> 'b ToolRateLimiter" where
  "wait_token bk toolName t = (case find_limiter bk toolName t of (l, t1) \<Rightarrow>
     (case tl_rateLimiter l of None \<Rightarrow> (None, t1)
      | Some b \<Rightarrow> (case bk_wait bk b of (err, b') \<Rightarrow>
          (map_option (\<lambda>e. ''rate limit wait failed: '' @ e) err,
           t1\<lparr>rl_limiters := (rl_limiters t1)(toolName \<mapsto> l\<lparr>tl_rateLimiter := Some b'\<rparr>)\<rparr>))))"

definition take_slot :: "string \<Rightarrow> 'b ToolRateLimiter \<Rightarrow> 'b ToolRateLimiter option" where
  "take_slot toolName t = (case rl_limiters t toolName of None \<Rightarrow> Some t
     | Some l \<Rightarrow> (case tl_semaphore l of None \<Rightarrow> Some t
         | Some s \<Rightarrow> if sm_held s < sm_cap s
             then Some (t\<lparr>rl_limiters := (rl_limiters t)(toolName \<mapsto> l\<lparr>tl_semaphore := Some (s\<lparr>sm_held := sm_held s + 1\<rparr>)\<rparr>)\<rparr>)
             else None))"

definition Release :: "string \<Rightarrow> 'b ToolRateLimiter \<Rightarrow> 'b ToolRateLimiter" where
  "Release toolName t = (case rl_limiters t toolName of None \<Rightarrow> t
     | Some l \<Rightarrow> (case tl_semaphore l of None \<Rightarrow> t
         | Some s \<Rightarrow> if sm_held s > 0
             then t\<lparr>rl_limiters := (rl_limiters t)(toolName \<mapsto> l\<lparr>tl_semaphore := Some (s\<lparr>sm_held := sm_held s - 1\<rparr>)\<rparr>)\<rparr>
             else t))"

definition Limiter_Allow :: "'b bucket \<Rightarrow> string \<Rightarrow> 'b ToolRateLimiter \<Rightarrow> bool \<times> 'b ToolRateLimiter" where
  "Limiter_Allow bk toolName t = (case rl_limiters t toolName of None \<Rightarrow> (True, t)
     | Some l \<Rightarrow>
         (case (case tl_rateLimiter l of None \<Rightarrow> (True, l)
                 | Some b \<Rightarrow> (case bk_allow bk b of (ok, b') \<Rightarrow> (ok, l\<lparr>tl_rateLimiter := Some b'\<rparr>))) of
            (False, l1) \<Rightarrow> (False, t\<lparr>rl_limiters := (rl_limiters t)(toolName \<mapsto> l1)\<rparr>)
          | (True, l1) \<Rightarrow>
              (let t1 = t\<lparr>rl_limiters := (rl_limiters t)(toolName \<mapsto> l1)\<rparr>
               in case take_slot toolName t1 of None \<Rightarrow> (False, t1) | Some t2 \<Rightarrow> (True, t2))))"

definition GetStats :: "string \<Rightarrow> 'b ToolRateLimiter \<Rightarrow> (ToolLimitConfig \<times> (nat \<times> nat) option) option" where
  "GetStats toolName t = map_option (\<lambda>l. (tl_config l, map_option (\<lambda>s. (sm_held s, sm_cap s - sm_held s)) (tl_semaphore l))) (rl_limiters t toolName)"

section \<open>Calls in flight\<close>

text \<open>
  The calls of the tool nodes (\<open>node_adapter.go\<close>): each waits for a token, then for a slot, runs and releases.  The world is the
  limiter, the calls that have their token, and the calls that run, each as its number and its tool.
\<close>

record 'b limited =
  lw_limiter :: "'b ToolRateLimiter"
  lw_waiting :: "(nat \<times> string) list"
  lw_running :: "(nat \<times> string) list"

inductive call_step :: "'b bucket \<Rightarrow> 'b limited \<Rightarrow> 'b limited \<Rightarrow> bool" for bk where
  cs_token: "wait_token bk tool (lw_limiter w) = (None, t) \<Longrightarrow> c \<notin> fst ` set (lw_waiting w @ lw_running w) \<Longrightarrow>
     call_step bk w (w\<lparr>lw_limiter := t, lw_waiting := (c, tool) # lw_waiting w\<rparr>)"
| cs_refused: "wait_token bk tool (lw_limiter w) = (Some err, t) \<Longrightarrow> call_step bk w (w\<lparr>lw_limiter := t\<rparr>)"
| cs_slot: "(c, tool) \<in> set (lw_waiting w) \<Longrightarrow> take_slot tool (lw_limiter w) = Some t \<Longrightarrow>
     call_step bk w (w\<lparr>lw_limiter := t, lw_waiting := remove1 (c, tool) (lw_waiting w), lw_running := (c, tool) # lw_running w\<rparr>)"
| cs_gives_up: "(c, tool) \<in> set (lw_waiting w) \<Longrightarrow> call_step bk w (w\<lparr>lw_waiting := remove1 (c, tool) (lw_waiting w)\<rparr>)"
| cs_returns: "(c, tool) \<in> set (lw_running w) \<Longrightarrow>
     call_step bk w (w\<lparr>lw_limiter := Release tool (lw_limiter w), lw_running := remove1 (c, tool) (lw_running w)\<rparr>)"


definition config_of :: "(string \<times> ToolLimitConfig) list \<Rightarrow> ToolLimitConfig option \<Rightarrow> string \<Rightarrow> ToolLimitConfig" where
  "config_of configs defaults tool = (case map_of configs tool of Some c \<Rightarrow> c
     | None \<Rightarrow> (case defaults of None \<Rightarrow> default_limit | Some d \<Rightarrow> d))"

definition limited_start :: "'b bucket \<Rightarrow> (string \<times> ToolLimitConfig) list \<Rightarrow> ToolLimitConfig option \<Rightarrow> 'b limited" where
  "limited_start bk configs defaults = \<lparr>lw_limiter = NewToolRateLimiter bk configs defaults, lw_waiting = [], lw_running = []\<rparr>"

section \<open>Calls in flight are bounded\<close>

text \<open>The capacity of a limiter is what its configuration says, and its slots are held by the running calls of its tool.\<close>

definition slots_of :: "ToolLimitConfig \<Rightarrow> nat option" where
  "slots_of c = (if TL_MaxConcurrent c > 0 then Some (nat (TL_MaxConcurrent c)) else None)"

definition calls_of :: "(nat \<times> string) list \<Rightarrow> string \<Rightarrow> nat" where
  "calls_of cs tool = length (filter (\<lambda>(_, t). t = tool) cs)"

definition slot_at :: "ToolLimitConfig \<Rightarrow> ToolLimitConfig \<Rightarrow> 'b toolLimiter option \<Rightarrow> nat \<Rightarrow> nat \<Rightarrow> bool" where
  "slot_at c d limiter waits runs = (case limiter of None \<Rightarrow> waits = 0 \<and> runs = 0 \<and> c = d
     | Some l \<Rightarrow> (case tl_semaphore l of None \<Rightarrow> slots_of c = None
         | Some s \<Rightarrow> slots_of c = Some (sm_cap s) \<and> sm_held s = runs \<and> sm_held s \<le> sm_cap s))"

definition slots_inv :: "(string \<Rightarrow> ToolLimitConfig) \<Rightarrow> 'b limited \<Rightarrow> bool" where
  "slots_inv cfg w \<longleftrightarrow> (\<forall>tool. slot_at (cfg tool) (rl_defaults (lw_limiter w)) (rl_limiters (lw_limiter w) tool)
     (calls_of (lw_waiting w) tool) (calls_of (lw_running w) tool))"

lemma calls_of_simps [simp]: "calls_of [] tool = 0" "calls_of (c # cs) tool = (if snd c = tool then 1 else 0) + calls_of cs tool"
  by (simp_all add: calls_of_def case_prod_unfold)

lemma calls_of_remove: "c \<in> set cs \<Longrightarrow> calls_of cs tool = calls_of (remove1 c cs) tool + (if snd c = tool then 1 else 0)"
  by (induction cs) auto

lemma slot_at_simps:
  "slot_at c d None waits runs \<longleftrightarrow> waits = 0 \<and> runs = 0 \<and> c = d"
  "tl_semaphore l = None \<Longrightarrow> slot_at c d (Some l) waits runs \<longleftrightarrow> slots_of c = None"
  "tl_semaphore l = Some s \<Longrightarrow> slot_at c d (Some l) waits runs \<longleftrightarrow> slots_of c = Some (sm_cap s) \<and> sm_held s = runs \<and> sm_held s \<le> sm_cap s"
  by (simp_all add: slot_at_def)

lemma slot_at_waits: "slot_at c d limiter waits runs \<Longrightarrow> waits' = waits \<or> waits' < waits \<Longrightarrow> slot_at c d limiter waits' runs"
  by (auto simp: slot_at_def split: option.splits)

lemma new_limiter_slots: "tl_semaphore (new_limiter bk c) = map_option (\<lambda>n. \<lparr>sm_cap = n, sm_held = 0\<rparr>) (slots_of c)"
  by (simp add: new_limiter_def slots_of_def Let_def)

lemma New_limiters:
  "distinct (map fst configs) \<Longrightarrow> rl_limiters (NewToolRateLimiter bk configs defaults) = (\<lambda>tool. map_option (new_limiter bk) (map_of configs tool))
    \<and> rl_defaults (NewToolRateLimiter bk configs defaults) = (case defaults of None \<Rightarrow> default_limit | Some d \<Rightarrow> d)"
proof (induction configs rule: rev_induct)
  case (snoc x xs)
  obtain k c where x: "x = (k, c)" by (cases x)
  have "map_of xs k = None" using snoc.prems by (simp add: x map_of_eq_None_iff)
  then show ?case using snoc by (auto simp: x NewToolRateLimiter_def addToolLimiter_def map_add_def split: option.split)
qed (simp add: NewToolRateLimiter_def)

lemma slots_start: "distinct (map fst configs) \<Longrightarrow> slots_inv (config_of configs defaults) (limited_start bk configs defaults)"
proof -
  assume d: "distinct (map fst configs)"
  have "slot_at (config_of configs defaults x) (case defaults of None \<Rightarrow> default_limit | Some d \<Rightarrow> d)
      (map_option (new_limiter bk) (map_of configs x)) 0 0" for x
    by (cases "map_of configs x") (simp_all add: config_of_def slot_at_def new_limiter_slots split: option.split)
  then show ?thesis by (simp add: slots_inv_def limited_start_def New_limiters [OF d])
qed


lemma wait_token_limiters:
  assumes "wait_token bk tool t = (r, t')"
  shows "rl_defaults t' = rl_defaults t \<and> (\<exists>l. rl_limiters t' = (rl_limiters t)(tool \<mapsto> l) \<and> tl_semaphore l
    = (case rl_limiters t tool of Some l0 \<Rightarrow> tl_semaphore l0 | None \<Rightarrow> tl_semaphore (new_limiter bk (rl_defaults t))))"
proof -
  obtain l t1 where f: "find_limiter bk tool t = (l, t1)" by fastforce
  then have l: "rl_defaults t1 = rl_defaults t" "rl_limiters t1 = (rl_limiters t)(tool \<mapsto> l)"
    "tl_semaphore l = (case rl_limiters t tool of Some l0 \<Rightarrow> tl_semaphore l0 | None \<Rightarrow> tl_semaphore (new_limiter bk (rl_defaults t)))"
    by (auto simp: find_limiter_def Let_def fun_upd_idem split: option.splits)
  then show ?thesis using assms f by (auto simp: wait_token_def split: option.splits prod.splits)
qed

lemma slots_token:
  assumes "slots_inv cfg w" "wait_token bk tool (lw_limiter w) = (r, t)" "waiting = lw_waiting w \<or> waiting = (c, tool) # lw_waiting w"
  shows "slots_inv cfg (w\<lparr>lw_limiter := t, lw_waiting := waiting\<rparr>)"
proof -
  obtain l where l: "rl_defaults t = rl_defaults (lw_limiter w)" "rl_limiters t = (rl_limiters (lw_limiter w))(tool \<mapsto> l)"
    "tl_semaphore l = (case rl_limiters (lw_limiter w) tool of Some l0 \<Rightarrow> tl_semaphore l0
       | None \<Rightarrow> tl_semaphore (new_limiter bk (rl_defaults (lw_limiter w))))"
    using wait_token_limiters [OF assms(2)] by blast
  have "slot_at (cfg x) (rl_defaults t) (rl_limiters t x) (calls_of waiting x) (calls_of (lw_running w) x)" for x
  proof -
    have at: "slot_at (cfg x) (rl_defaults (lw_limiter w)) (rl_limiters (lw_limiter w) x) (calls_of (lw_waiting w) x) (calls_of (lw_running w) x)"
      using assms(1) by (simp add: slots_inv_def)
    show ?thesis
    proof (cases "x = tool")
      case True
      then show ?thesis using at l
        by (cases "rl_limiters (lw_limiter w) tool") (auto simp: slot_at_def new_limiter_slots split: option.splits)
    next
      case False
      then have "calls_of waiting x = calls_of (lw_waiting w) x" using assms(3) by auto
      then show ?thesis using at l(1,2) False by simp
    qed
  qed
  then show ?thesis by (simp add: slots_inv_def)
qed

lemma slots_take:
  assumes "slots_inv cfg w" "take_slot tool (lw_limiter w) = Some t" "(c, tool) \<in> set (lw_waiting w)"
  shows "slots_inv cfg (w\<lparr>lw_limiter := t, lw_waiting := remove1 (c, tool) (lw_waiting w), lw_running := (c, tool) # lw_running w\<rparr>)"
proof -
  note n = calls_of_remove [OF assms(3)]
  have "slot_at (cfg x) (rl_defaults t) (rl_limiters t x) (calls_of (remove1 (c, tool) (lw_waiting w)) x) (calls_of ((c, tool) # lw_running w) x)" for x
  proof -
    have at: "slot_at (cfg x) (rl_defaults (lw_limiter w)) (rl_limiters (lw_limiter w) x) (calls_of (lw_waiting w) x) (calls_of (lw_running w) x)"
      using assms(1) by (simp add: slots_inv_def)
    show ?thesis using at n [of x] assms(2)
      by (auto simp: take_slot_def slot_at_def split: option.splits if_splits)
  qed
  then show ?thesis by (simp add: slots_inv_def)
qed

lemma slots_release:
  assumes "slots_inv cfg w" "(c, tool) \<in> set (lw_running w)"
  shows "slots_inv cfg (w\<lparr>lw_limiter := Release tool (lw_limiter w), lw_running := remove1 (c, tool) (lw_running w)\<rparr>)"
proof -
  note n = calls_of_remove [OF assms(2)]
  have "slot_at (cfg x) (rl_defaults (Release tool (lw_limiter w))) (rl_limiters (Release tool (lw_limiter w)) x) (calls_of (lw_waiting w) x)
      (calls_of (remove1 (c, tool) (lw_running w)) x)" for x
  proof -
    have at: "slot_at (cfg x) (rl_defaults (lw_limiter w)) (rl_limiters (lw_limiter w) x) (calls_of (lw_waiting w) x) (calls_of (lw_running w) x)"
      using assms(1) by (simp add: slots_inv_def)
    show ?thesis using at n [of x]
      by (auto simp: Release_def slot_at_def split: option.splits if_splits)
  qed
  then show ?thesis by (simp add: slots_inv_def)
qed

lemma slots_step: "call_step bk w w' \<Longrightarrow> slots_inv cfg w \<Longrightarrow> slots_inv cfg w'"
proof (induction rule: call_step.induct)
  case (cs_token tool w t c)
  then show ?case using slots_token [of cfg w bk tool None t "(c, tool) # lw_waiting w" c] by simp
next
  case (cs_refused tool w err t)
  then show ?case using slots_token [of cfg w bk tool "Some err" t "lw_waiting w"] by simp
next
  case (cs_slot c tool w t)
  then show ?case using slots_take by blast
next
  case (cs_gives_up c tool w)
  have "calls_of (remove1 (c, tool) (lw_waiting w)) x = calls_of (lw_waiting w) x \<or> calls_of (remove1 (c, tool) (lw_waiting w)) x < calls_of (lw_waiting w) x" for x
    using calls_of_remove [OF cs_gives_up.hyps, of x] by simp
  then show ?case using cs_gives_up.prems by (auto simp: slots_inv_def intro: slot_at_waits)
next
  case (cs_returns c tool w)
  then show ?case using slots_release by blast
qed

text \<open>
  The calls of a tool in flight are bounded. However the calls of the tool nodes get tokens, wait, give up, start and return,
  a tool with a limit of concurrent calls, its own or the default one, never has more of them running; and while fewer run there is
  a slot for a call that has its token, so that no slot is lost.
\<close>

theorem running_calls_are_bounded:
  assumes "(call_step bk)\<^sup>*\<^sup>* (limited_start bk configs defaults) w" "distinct (map fst configs)"
    and "TL_MaxConcurrent (config_of configs defaults tool) = int n" "0 < n"
  shows "calls_of (lw_running w) tool \<le> n \<and> (calls_of (lw_running w) tool < n \<longrightarrow> take_slot tool (lw_limiter w) \<noteq> None)"
proof -
  have inv: "slots_inv (config_of configs defaults) w"
    using assms(1) by (induction rule: rtranclp_induct) (auto intro: slots_step slots_start [OF assms(2)])
  have s: "slots_of (config_of configs defaults tool) = Some n" using assms(3,4) by (simp add: slots_of_def)
  have "slot_at (config_of configs defaults tool) (rl_defaults (lw_limiter w)) (rl_limiters (lw_limiter w) tool)
      (calls_of (lw_waiting w) tool) (calls_of (lw_running w) tool)"
    using inv by (simp add: slots_inv_def)
  then show ?thesis using s by (auto simp: slot_at_def take_slot_def split: option.splits)
qed


section \<open>A rate below one call a second\<close>

text \<open>
  What the bucket's package documents: waiting on a bucket of size 0 is an error, as the one token that is asked for exceeds the size.
\<close>

definition zero_burst_refuses :: "'b bucket \<Rightarrow> 'b set \<Rightarrow> bool" where
  "zero_burst_refuses bk Z \<longleftrightarrow> (\<forall>q. bk_new bk q 0 \<in> Z) \<and> (\<forall>b \<in> Z. fst (bk_wait bk b) \<noteq> None \<and> snd (bk_wait bk b) \<in> Z)"

definition stuck :: "'b set \<Rightarrow> ToolLimitConfig \<Rightarrow> string \<Rightarrow> 'b limited \<Rightarrow> bool" where
  "stuck Z c tool w \<longleftrightarrow> calls_of (lw_waiting w) tool = 0 \<and> calls_of (lw_running w) tool = 0
     \<and> (case rl_limiters (lw_limiter w) tool of None \<Rightarrow> rl_defaults (lw_limiter w) = c
        | Some l \<Rightarrow> \<exists>b \<in> Z. tl_rateLimiter l = Some b)"

lemma new_limiter_stuck:
  "zero_burst_refuses bk Z \<Longrightarrow> 0 < TL_QPS c \<Longrightarrow> TL_QPS c < 1 \<Longrightarrow> TL_Burst c = 0 \<Longrightarrow> \<exists>b \<in> Z. tl_rateLimiter (new_limiter bk c) = Some b"
proof -
  assume z: "zero_burst_refuses bk Z" and c: "0 < TL_QPS c" "TL_QPS c < 1" "TL_Burst c = 0"
  have "\<lfloor>TL_QPS c\<rfloor> = 0" using c(1,2) by (simp add: floor_eq_iff)
  then have "trunc (TL_QPS c) = 0" using c(1) by (simp add: trunc_def)
  then show ?thesis using z c by (simp add: new_limiter_def Let_def zero_burst_refuses_def)
qed

lemma calls_of_none: "calls_of cs tool = 0 \<longleftrightarrow> (\<forall>c. (c, tool) \<notin> set cs)"
  by (auto simp: calls_of_def filter_empty_conv)

lemma stuck_token:
  assumes z: "zero_burst_refuses bk Z" and c: "0 < TL_QPS c" "TL_QPS c < 1" "TL_Burst c = 0"
    and s: "stuck Z c tool w" and t: "wait_token bk x (lw_limiter w) = (r, t)"
  shows "(x = tool \<longrightarrow> r \<noteq> None) \<and> (case rl_limiters t tool of None \<Rightarrow> rl_defaults t = c | Some l \<Rightarrow> \<exists>b \<in> Z. tl_rateLimiter l = Some b)"
proof (cases "x = tool")
  case True
  obtain l t1 where f: "find_limiter bk tool (lw_limiter w) = (l, t1)" by fastforce
  then obtain b where b: "b \<in> Z" "tl_rateLimiter l = Some b"
    using s new_limiter_stuck [OF z c] by (auto simp: stuck_def find_limiter_def Let_def split: option.splits)
  have "fst (bk_wait bk b) \<noteq> None \<and> snd (bk_wait bk b) \<in> Z" using z b(1) by (simp add: zero_burst_refuses_def)
  then show ?thesis using t f b(2) True by (auto simp: wait_token_def split: prod.splits)
next
  case False
  obtain l where "rl_defaults t = rl_defaults (lw_limiter w)" "rl_limiters t = (rl_limiters (lw_limiter w))(x \<mapsto> l)"
    using wait_token_limiters [OF t] by blast
  then show ?thesis using s False by (simp add: stuck_def split: option.splits)
qed

lemma slot_rate:
  "take_slot x t = Some t' \<Longrightarrow> rl_defaults t' = rl_defaults t \<and> map_option tl_rateLimiter (rl_limiters t' tool) = map_option tl_rateLimiter (rl_limiters t tool)"
  "rl_defaults (Release x t) = rl_defaults t \<and> map_option tl_rateLimiter (rl_limiters (Release x t) tool) = map_option tl_rateLimiter (rl_limiters t tool)"
  by (auto simp: take_slot_def Release_def split: option.splits if_splits)

lemma stuck_rate:
  "stuck Z c tool w \<longleftrightarrow> calls_of (lw_waiting w) tool = 0 \<and> calls_of (lw_running w) tool = 0
     \<and> (case map_option tl_rateLimiter (rl_limiters (lw_limiter w) tool) of None \<Rightarrow> rl_defaults (lw_limiter w) = c | Some rate \<Rightarrow> \<exists>b \<in> Z. rate = Some b)"
  by (simp add: stuck_def split: option.split)

lemma stuck_step:
  assumes "zero_burst_refuses bk Z" "0 < TL_QPS c" "TL_QPS c < 1" "TL_Burst c = 0"
  shows "call_step bk w w' \<Longrightarrow> stuck Z c tool w \<Longrightarrow> stuck Z c tool w'"
proof (induction rule: call_step.induct)
  case (cs_token x w t i)
  then show ?case using stuck_token [OF assms cs_token.prems cs_token.hyps(1)] by (auto simp: stuck_def split: option.splits)
next
  case (cs_refused x w err t)
  then show ?case using stuck_token [OF assms cs_refused.prems cs_refused.hyps(1)] by (simp add: stuck_def split: option.splits)
next
  case (cs_slot i x w t)
  then have "x \<noteq> tool" by (auto simp: stuck_def calls_of_none)
  then show ?case using cs_slot.prems slot_rate(1) [OF cs_slot.hyps(2), of tool] set_remove1_subset [of "(i, x)" "lw_waiting w"]
    by (auto simp: stuck_rate calls_of_none split: option.splits)
next
  case (cs_gives_up i x w)
  then show ?case using set_remove1_subset [of "(i, x)" "lw_waiting w"] by (auto simp: stuck_def calls_of_none split: option.splits)
next
  case (cs_returns i x w)
  then show ?case using slot_rate(2) [of x "lw_limiter w" tool] set_remove1_subset [of "(i, x)" "lw_running w"]
    by (auto simp: stuck_rate calls_of_none split: option.splits)
qed

text \<open>
  A tool limited to less than one call a second is never called. With a rate between 0 and 1 and no burst of its own, the size of
  the tool's bucket is the rate cut down to 0, and the bucket refuses every call; so no call of the tool ever gets as far as waiting
  for a slot.
\<close>

theorem fractional_rate_refuses_every_call:
  assumes "zero_burst_refuses bk Z" "(call_step bk)\<^sup>*\<^sup>* (limited_start bk configs defaults) w" "distinct (map fst configs)"
    and "0 < TL_QPS (config_of configs defaults tool)" "TL_QPS (config_of configs defaults tool) < 1" "TL_Burst (config_of configs defaults tool) = 0"
  shows "calls_of (lw_running w) tool = 0 \<and> calls_of (lw_waiting w) tool = 0
    \<and> (\<forall>r t. wait_token bk tool (lw_limiter w) = (r, t) \<longrightarrow> r \<noteq> None)"
proof -
  have start: "stuck Z (config_of configs defaults tool) tool (limited_start bk configs defaults)"
    using new_limiter_stuck [OF assms(1,4-6)]
    by (cases "map_of configs tool") (simp_all add: stuck_def limited_start_def New_limiters [OF assms(3)] config_of_def split: option.splits)
  have "stuck Z (config_of configs defaults tool) tool w"
    using assms(2) by (induction rule: rtranclp_induct) (auto intro: start stuck_step [OF assms(1,4-6)])
  then show ?thesis using stuck_token [OF assms(1,4-6), of tool w tool] by (auto simp: stuck_def)
qed

section \<open>Concrete limiters\<close>

text \<open>A bucket that counts its tokens and never gets new ones.\<close>

definition plain_bucket :: "nat bucket" where
  "plain_bucket = \<lparr>bk_new = (\<lambda>q n. nat n), bk_wait = (\<lambda>b. if b = 0 then (Some ''burst'', b) else (None, b - 1)),
     bk_allow = (\<lambda>b. if b = 0 then (False, b) else (True, b - 1))\<rparr>"

definition one_slot :: "(string \<times> ToolLimitConfig) list" where
  "one_slot = [(''mail'', \<lparr>TL_QPS = 5, TL_MaxConcurrent = 1, TL_Burst = 0\<rparr>), (''pay'', \<lparr>TL_QPS = 1 / 2, TL_MaxConcurrent = 1, TL_Burst = 0\<rparr>)]"

lemma one_slot_token:
  "\<exists>t. wait_token plain_bucket ''mail'' (NewToolRateLimiter plain_bucket one_slot None) = (None, t) \<and> take_slot ''mail'' t \<noteq> None"
  by (simp add: wait_token_def find_limiter_def NewToolRateLimiter_def one_slot_def addToolLimiter_def new_limiter_def trunc_def
      plain_bucket_def take_slot_def Let_def)

lemma one_slot_run:
  "\<exists>w. (call_step plain_bucket)\<^sup>*\<^sup>* (limited_start plain_bucket one_slot None) w \<and> calls_of (lw_running w) ''mail'' = 1"
proof -
  obtain t t2 where t: "wait_token plain_bucket ''mail'' (NewToolRateLimiter plain_bucket one_slot None) = (None, t)" "take_slot ''mail'' t = Some t2"
    using one_slot_token by blast
  let ?w1 = "\<lparr>lw_limiter = t, lw_waiting = [(1, ''mail'')], lw_running = []\<rparr>"
  have 1: "call_step plain_bucket (limited_start plain_bucket one_slot None) ?w1"
    using cs_token [of plain_bucket "''mail''" "limited_start plain_bucket one_slot None" t 1] t(1) by (simp add: limited_start_def)
  have 2: "call_step plain_bucket ?w1 (?w1\<lparr>lw_limiter := t2, lw_waiting := [], lw_running := [(1, ''mail'')]\<rparr>)"
    using cs_slot [of 1 "''mail''" ?w1 t2 plain_bucket] t(2) by simp
  have "(call_step plain_bucket)\<^sup>*\<^sup>* (limited_start plain_bucket one_slot None) (?w1\<lparr>lw_limiter := t2, lw_waiting := [], lw_running := [(1, ''mail'')]\<rparr>)"
    using 1 2 by (meson converse_rtranclp_into_rtranclp r_into_rtranclp)
  then show ?thesis by (intro exI conjI) (assumption, simp)
qed

theorem running_calls_are_bounded_witness:
  "\<exists>w. calls_of (lw_running w) ''mail'' = 1 \<and> calls_of (lw_running w) ''mail'' \<le> (1 :: nat)
    \<and> (call_step plain_bucket)\<^sup>*\<^sup>* (limited_start plain_bucket one_slot None) w"
proof -
  obtain w where w: "(call_step plain_bucket)\<^sup>*\<^sup>* (limited_start plain_bucket one_slot None) w" "calls_of (lw_running w) ''mail'' = 1"
    using one_slot_run by blast
  have "calls_of (lw_running w) ''mail'' \<le> 1"
    using running_calls_are_bounded [OF w(1), of "''mail''" 1] by (simp add: one_slot_def config_of_def)
  then show ?thesis using w by blast
qed

theorem fractional_rate_refuses_every_call_witness:
  "fst (wait_token plain_bucket ''pay'' (NewToolRateLimiter plain_bucket one_slot None)) \<noteq> None"
proof -
  have z: "zero_burst_refuses plain_bucket {0}" by (simp add: zero_burst_refuses_def plain_bucket_def)
  have "\<forall>r t. wait_token plain_bucket ''pay'' (lw_limiter (limited_start plain_bucket one_slot None)) = (r, t) \<longrightarrow> r \<noteq> None"
    using fractional_rate_refuses_every_call [OF z rtranclp.rtrancl_refl, of one_slot None "''pay''"] by (simp add: one_slot_def config_of_def)
  then show ?thesis by (simp add: limited_start_def split_paired_all) (metis prod.collapse)
qed

text \<open>
  \<open>Limiter_Allow\<close> lets the call of a tool without a limiter run and gives it no slot; when it releases, it frees the slot of
  another call.  With one slot, two calls then run at a time.
\<close>

lemma allowed_call_frees_a_foreign_slot:
  "\<exists>t1 t2 t3. Limiter_Allow plain_bucket ''x'' (NewToolRateLimiter plain_bucket [] (Some \<lparr>TL_QPS = 0, TL_MaxConcurrent = 1, TL_Burst = 0\<rparr>)) = (True, t1)
    \<and> wait_token plain_bucket ''x'' t1 = (None, t2) \<and> take_slot ''x'' t2 = Some t3 \<and> take_slot ''x'' t3 = None
    \<and> take_slot ''x'' (Release ''x'' t3) \<noteq> None"
  by (simp add: Limiter_Allow_def wait_token_def find_limiter_def NewToolRateLimiter_def new_limiter_def trunc_def take_slot_def Release_def Let_def)

end
