(* ===== verification/Spec2Isabelle.thy ===== *)
theory Spec2Isabelle
  imports Prelude Sha256 Go_Fmt Go_Json Go_Float Job_Event Agent_Job Job_Store_Mem Event_Log Event_Store
    Redaction Proof_Chain Proof_Ledger Tool_Ledger Tool_Node Durability_Runner Idempotent_Tool Task_Graph Replay
    Go_Time Sha_Eval Agent_Session Checkpoint Dag_Runner Dag_Schedule Dag_Demo Dag_Run Dag_Replay
    Json_Text Node_Sink Sink_Run Round_Trip Snap_Trip Replay_Verify Run_Store Job_Scheduler Agent_Inbox Job_Control
    Fair_Queue Redacting_Store Masked_Replay Sharded_Store Llm_Node Tool_Limiter
begin

text \<open>
  Aetheris: a runtime for durable agent jobs, written in Go.  This library models its core and proves what it promises,
  and where the code departs from its promises it proves that instead.

  The program.  A client creates a job.  Its metadata is a row of the job store (\<open>internal/agent/job\<close>); everything that
  happens to it is an event of its stream in the event store (\<open>internal/runtime/jobstore\<close>), chained by hashes.  A worker
  claims the job under a lease, rebuilds the state of its execution from the events (\<open>internal/agent/replay\<close>) or from a
  checkpoint (\<open>internal/agent/runtime\<close>), compiles the plan, a graph of tasks, into steps and runs them
  (\<open>internal/agent/runtime/executor\<close>).  A step that calls a tool goes through a ledger, so that the side effect happens
  once.  A step may wait, for a signal or an approval; the job is then put aside until an event wakes it.  Finished jobs are exported with their event
  stream as evidence, redacted if a policy says so (\<open>pkg/proof\<close>, \<open>pkg/redaction\<close>).  The durability SDK
  (\<open>sdk/durability\<close>) offers the same guarantees as a library.

  Theories and code.
  \<^item> Basic layer.  \<open>Prelude\<close>: vocabulary and shared lemmas.  \<open>Sha256\<close>, \<open>Sha_Eval\<close>: SHA-256 on words, its equal on integers
    that the simplifier evaluates, and the test vectors of FIPS 180-4.  \<open>Go_Fmt\<close>, \<open>Go_Float\<close>, \<open>Go_Json\<close>, \<open>Go_Value\<close>, \<open>Go_Struct\<close>,
    \<open>Go_Time\<close>: what the code uses of Go's formatting, numbers, JSON (texts, dynamic values, structs) and times.
  \<^item> Jobs.  \<open>Job_Event\<close> (\<open>event.go\<close>), \<open>Agent_Job\<close> (\<open>job.go\<close>, \<open>state.go\<close>: statuses, methods, the status derived from events),
    \<open>Job_Store_Mem\<close> (\<open>job_store.go\<close>: queue, claims, waits, wake-ups, requeue, reclaim).
  \<^item> Events.  \<open>Event_Log\<close> (the contract of a versioned stream), \<open>Event_Store\<close> (\<open>memory_store.go\<close>: appends behind a lease, claims,
    heartbeats, watches, snapshots), \<open>Proof_Chain\<close> and \<open>Proof_Ledger\<close> (\<open>pkg/proof\<close> and the export adapters of
    \<open>internal/api/http/forensics.go\<close>), \<open>Redaction\<close> (\<open>pkg/redaction\<close>),
    \<open>Redacting_Store\<close>, \<open>Masked_Replay\<close> and \<open>Sharded_Store\<close> (\<open>redacting_store.go\<close>, \<open>default_redaction_policy.go\<close>, \<open>sharded_store.go\<close>).
  \<^item> Tools.  \<open>Tool_Ledger\<close> (\<open>ledger_store.go\<close>, \<open>invocation_mem.go\<close>, \<open>effect_store_mem.go\<close>, \<open>step_identity.go\<close>), \<open>Tool_Node\<close>
    (\<open>node_adapter.go\<close>: the tool node, its retries, catch-up and confirmation), \<open>Llm_Node\<close> (the same file: the nodes that call a model or
    run a workflow), \<open>Tool_Limiter\<close> (\<open>rate_limiter.go\<close>: rates and calls in flight per tool).
  \<^item> Running a job.  \<open>Task_Graph\<close> (\<open>steppable.go\<close>, \<open>node_registry.go\<close>), \<open>Checkpoint\<close> (\<open>checkpoint.go\<close>, the JSON of a graph),
    \<open>Agent_Session\<close> (sessions, agents, the in-process scheduler), \<open>Replay\<close> (\<open>replay.go\<close>, \<open>snapshot.go\<close>), \<open>Dag_Runner\<close>
    (\<open>runner.go\<close>: \<open>RunForJob\<close>, \<open>Advance\<close>, the run loop, parallel levels, waits), with \<open>Dag_Schedule\<close>, \<open>Dag_Run\<close> and \<open>Dag_Replay\<close> for
    its properties and \<open>Dag_Demo\<close> for closed examples.
  \<^item> From the runner to the log and back.  \<open>Json_Text\<close>: what the decoder makes of texts the encoder wrote, for values nested up to
    9999 deep (the limit of Go's decoder is 10000).  \<open>Node_Sink\<close> (\<open>internal/app/api/node_sink.go\<close>: the events of a run, as JSON),
    \<open>Sink_Run\<close> (the runner over that sink), \<open>Round_Trip\<close> (plans), \<open>Snap_Trip\<close> (snapshots of a replay), \<open>Replay_Verify\<close>
    (\<open>verification.go\<close>: recorded effects checked against the outside world).
  \<^item> Around a job.  \<open>Job_Scheduler\<close> (\<open>scheduler.go\<close>, \<open>wakeup.go\<close>, \<open>queue.go\<close>, \<open>job_runner.go\<close>, \<open>reclaim.go\<close> and the end of a run in
    \<open>internal/app/api/app.go\<close>), \<open>Fair_Queue\<close> (\<open>queue_scheduler.go\<close>), \<open>Agent_Inbox\<close> (\<open>messaging\<close>, \<open>signal\<close>, \<open>job/inbox.go\<close>), \<open>Job_Control\<close> (\<open>approval\<close> and the
    requests of \<open>internal/api/http/handler.go\<close> that steer a job), \<open>Run_Store\<close> (\<open>internal/runtime/eino\<close>: runs and their log).
  \<^item> Durability SDK.  \<open>Durability_Store\<close>, \<open>Durability_Runner\<close>, \<open>Idempotent_Tool\<close> (\<open>sdk/durability/core\<close> and \<open>idempotent\<close>).

  How the state is modelled.  A Go struct is a record with the fields of the struct, prefixed where names clash; a map is a
  partial map, or an association list where the code marshals it or walks it; a mutex makes a method one step.  A store is
  a value passed along.  Interfaces the code only calls are functions in a record (the record store of the
  ledger, the stores and sinks of the runner, the node runners), acting on a world of any type.  Strings are lists of
  bytes.  Times are nanoseconds since the epoch.  Errors are constructors of a sum; a panic is a value of its own
  where the code can panic.

  What the lemmas show.
  \<^item> Ledger and tool node: a tool runs at most once per key, a committed result is returned ever after; a failed or
    interrupted call blocks its key.  The answer of a model is captured once; running calls are bounded by the slots of their tool.
  \<^item> Event store: a version is won once, a stale attempt stays fenced, the stored stream is always a valid chain; the root hash fixes the history.  The
    contract \<open>versioned_log\<close> is a locale that both event stores of the repository interpret.
  \<^item> Stores over stores: what a rule covers is not stored in clear; a resumed tool node takes the mask of a masked result for
    the answer of its tool; a sharded store answers as one store, by
    a simulation over the locale \<open>job_call\<close> of calls about one job.
  \<^item> Job store and aggregate: a job is handed out once, a pending job is found, terminal statuses are final; the backward and
    the forward derivation of the status agree on blocked jobs.
  \<^item> Replay: replay from the snapshot of a tidy context (its raw texts as the encoder writes them) is replay of all events; which invocations are pending; what a stale snapshot and nil maps do.
  \<^item> Runner: the next batch respects the edges of the plan and misses no step; the run loop ends; a fresh job runs
    exactly its plan, a resumed one exactly what is left; the order of a parallel level does not matter.  The
    theorems of \<open>Dag_Replay\<close> are about the gaps between the three ways into a job.
  \<^item> Log: the contract \<open>job_log\<close> is a locale that the memory store interprets; a step written by the sink, with results whose text the replay
    can read, is replayed as done, so that the event-driven loop ends when the steps keep their results readable; a tidy context and a plan whose configurations are made of JSON's
    own values read back as they were written, and \<open>Snap_Trip\<close> shows what is lost of others.
  \<^item> Scheduler and requests: how often a job is started, what the reclaimer and a run that stops at a wait leave behind (a job queued again while retries are left, else a failed one); a signal writes only what is
    waited for and resumes it; a fair round serves each queue by its weight, and what an idle queue does to the others; what an approval, a foreign key or a signal does to a job that it should not.
  \<^item> SDK: crashes and resumption give the result of an uninterrupted run, over the in-memory store and for deterministic steps with distinct
    ids whose states read back from JSON as they were (\<open>unserialisable_state_is_lost\<close> shows what happens otherwise), by lemmas for every store that
    meets the contract \<open>durability_store\<close>; a wrapped call executes once.

  Bounds and fuel.  \<open>run_loop\<close> takes the number of its rounds: steps plus one are enough (\<open>run_loop_terminates\<close>).  \<open>advance_loop\<close> takes one too, and no number
  is enough in general (\<open>refused_appends_loop_forever\<close>).  \<open>topo_loop\<close> takes as many rounds as there are nodes,
  which is enough because each round removes a node.  The scanners of \<open>Go_Json\<close> take the length of the text.  \<open>Go_Float\<close> tries
  precisions up to 17 digits, with which every \<open>float64\<close> is exact.  Times and counters are unbounded integers; event versions and attempt numbers
  stay far below the width of an \<open>int\<close>.

  In \<open>Job_Scheduler\<close> the end of a run, that is the settling of its job and the release of its slot, is one step, and so is a round of the loop.

  Not modelled.  The PostgreSQL and embedded stores (their behaviour is SQL and files); the rest of the HTTP interface (views,
  documents, telemetry), gRPC and the command line; the model services themselves and the bindings to agent frameworks; the ingest and query
  pipelines; configuration, metrics and tracing.  \<open>Runner.Run\<close>, which invokes a graph of a third-party library, is an argument.
  Goroutines are interleaved at the steps the code makes atomic, and a level of parallel steps runs them one after the other in
  any order.  The scheduler over several machines with its leases and elections, the archive of the event store, routing, the
  gatekeeper of tools, the registries of agent instances and agent memory stand beside the path of a job and are left out; their
  components are listed in the manifest.
\<close>

end
